(* ===== verification/Prelude.thy ===== *)
theory Prelude
  imports Main "HOL-Library.Char_ord" "HOL-Library.List_Lexorder" "HOL-Library.Multiset" "HOL-Library.AList"
begin

text \<open>
  Shared vocabulary of the development: the Go notions every component uses.

  A Go string is a sequence of bytes, and so is the HOL type \<open>string\<close> (a list of 8-bit
  characters); the order of \<open>HOL-Library.List_Lexorder\<close> over \<open>HOL-Library.Char_ord\<close> is the
  bytewise order of Go's \<open><\<close> on strings.  This theory models the parts of the standard library
  the sources call: \<open>strings.HasPrefix\<close>, \<open>TrimPrefix\<close>, \<open>Contains\<close>, \<open>Cut\<close>, \<open>Join\<close>,
  \<open>Repeat\<close>, \<open>TrimSpace\<close>, the decoding of UTF-8 into runes (\<open>range\<close> over a string and
  \<open>[]rune\<close> conversions), \<open>filepath.IsAbs\<close>, \<open>Clean\<close>, \<open>Join\<close>, \<open>Base\<close> and \<open>Dir\<close> on a
  Unix system, and sorting by a key.  A fallible operation returns \<open>'e + 'a\<close>, the error on
  the left.

  Two collections of rewrite rules are kept: \<open>go_defs\<close>, the definitions of the string and path
  functions, used to evaluate them on concrete values, and \<open>sorted_facts\<close>, facts on lists
  sorted by a key.
\<close>

named_theorems go_defs
named_theorems sorted_facts

section \<open>Results\<close>

type_synonym ('e, 'a) result = "'e + 'a"

abbreviation Err :: "'e \<Rightarrow> ('e, 'a) result" where
  "Err \<equiv> Inl"

abbreviation Ok :: "'a \<Rightarrow> ('e, 'a) result" where
  "Ok \<equiv> Inr"

definition is_ok :: "('e, 'a) result \<Rightarrow> bool" where
  "is_ok r = (case r of Inl _ \<Rightarrow> False | Inr _ \<Rightarrow> True)"

lemma is_ok_simps [simp]:
  "is_ok (Ok x)" "\<not> is_ok (Err e)"
  by (simp_all add: is_ok_def)

text \<open>The first error of a loop that checks every element and stops at the first failure.\<close>

fun first_error :: "('a \<Rightarrow> 'e option) \<Rightarrow> 'a list \<Rightarrow> 'e option" where
  "first_error f [] = None"
| "first_error f (x # xs) = (case f x of Some e \<Rightarrow> Some e | None \<Rightarrow> first_error f xs)"

lemma first_error_None [simp]:
  "first_error f xs = None \<longleftrightarrow> (\<forall>x \<in> set xs. f x = None)"
  by (induction xs) (auto split: option.splits)

lemma first_error_Some:
  "first_error f xs = Some e \<Longrightarrow> \<exists>x \<in> set xs. f x = Some e"
  by (induction xs) (auto split: option.splits)

lemma case_error_None [simp]:
  "(case x of None \<Rightarrow> y | Some e \<Rightarrow> Some e) = None \<longleftrightarrow> x = None \<and> y = None"
  by (cases x) simp_all

section \<open>Maps as lists of entries\<close>

lemma update_fresh: "k \<notin> fst ` set al \<Longrightarrow> AList.update k v al = al @ [(k, v)]"
  by (induction al) auto

lemma set_update_subset: "set (AList.update k v al) \<subseteq> insert (k, v) (set al)"
  by (induction al) auto

text \<open>Filling a map from values with distinct keys.\<close>

lemma fold_update_distinct:
  "distinct (map f xs) \<Longrightarrow> f ` set xs \<inter> fst ` set al = {} \<Longrightarrow>
   fold (\<lambda>x. AList.update (f x) (g x)) xs al = al @ map (\<lambda>x. (f x, g x)) xs"
proof (induction xs arbitrary: al)
  case (Cons x xs)
  then have "AList.update (f x) (g x) al = al @ [(f x, g x)]" by (intro update_fresh) auto
  with Cons show ?case by auto
qed simp

section \<open>Strings\<close>

definition has_prefix :: "string \<Rightarrow> string \<Rightarrow> bool" where
  [go_defs]: "has_prefix s p \<longleftrightarrow> take (length p) s = p"

definition has_suffix :: "string \<Rightarrow> string \<Rightarrow> bool" where
  [go_defs]: "has_suffix s p \<longleftrightarrow> length p \<le> length s \<and> drop (length s - length p) s = p"

definition trim_prefix :: "string \<Rightarrow> string \<Rightarrow> string" where
  [go_defs]: "trim_prefix s p = (if has_prefix s p then drop (length p) s else s)"

fun contains :: "string \<Rightarrow> string \<Rightarrow> bool" where
  "contains [] sub = (sub = [])"
| "contains (c # s) sub = (has_prefix (c # s) sub \<or> contains s sub)"

fun cut :: "char \<Rightarrow> string \<Rightarrow> string \<times> string \<times> bool" where
  "cut sep [] = ([], [], False)"
| "cut sep (c # s) =
     (if c = sep then ([], s, True)
      else case cut sep s of (a, b, ok) \<Rightarrow> (c # a, b, ok))"

fun join :: "string \<Rightarrow> string list \<Rightarrow> string" where
  "join sep [] = []"
| "join sep [s] = s"
| "join sep (s # t # ss) = s @ sep @ join sep (t # ss)"

definition repeat_str :: "nat \<Rightarrow> string \<Rightarrow> string" where
  [go_defs]: "repeat_str n s = concat (replicate n s)"

fun split_on :: "char \<Rightarrow> string \<Rightarrow> string list" where
  "split_on sep [] = [[]]"
| "split_on sep (c # s) =
     (if c = sep then [] # split_on sep s
      else case split_on sep s of [] \<Rightarrow> [[c]] | w # ws \<Rightarrow> (c # w) # ws)"

lemma has_prefix_append [simp]: "has_prefix (p @ s) p"
  by (simp add: has_prefix_def)

lemma has_prefix_iff: "has_prefix s p \<longleftrightarrow> (\<exists>t. s = p @ t)"
  unfolding has_prefix_def by (metis append_eq_conv_conj)

lemma trim_prefix_append [simp]: "trim_prefix (p @ s) p = s"
  by (simp add: trim_prefix_def)

lemma contains_Nil [simp]: "contains s []"
  by (cases s) (simp_all add: has_prefix_def)

lemma contains_iff: "contains s sub \<longleftrightarrow> (\<exists>a b. s = a @ sub @ b)"
proof (induction s)
  case Nil
  then show ?case by auto
next
  case (Cons c s)
  have "(\<exists>a b. c # s = a @ sub @ b) \<longleftrightarrow>
        (\<exists>b. c # s = sub @ b) \<or> (\<exists>a b. s = a @ sub @ b)"
    by (metis append_Cons append_Nil append_eq_Cons_conv)
  then show ?case using Cons.IH by (simp add: has_prefix_iff)
qed

lemma split_on_ne [simp]: "split_on sep s \<noteq> []"
  by (induction s) (auto split: list.splits)

lemma cut_found: "cut sep s = (a, b, True) \<Longrightarrow> s = a @ sep # b \<and> sep \<notin> set a"
  by (induction s arbitrary: a) (auto split: if_splits prod.splits)

lemma cut_no_sep: "sep \<notin> set s \<Longrightarrow> cut sep s = (s, [], False)"
  by (induction s) auto

lemma cut_append: "sep \<notin> set a \<Longrightarrow> cut sep (a @ sep # b) = (a, b, True)"
  by (induction a) auto

lemma split_on_no_sep: "w \<in> set (split_on sep s) \<Longrightarrow> sep \<notin> set w"
proof (induction s arbitrary: w)
  case (Cons c s)
  then show ?case
    by (cases "split_on sep s") (auto split: if_splits)
qed simp

lemma join_split_on: "join [sep] (split_on sep s) = s"
proof (induction s)
  case (Cons c s)
  obtain w ws where ws: "split_on sep s = w # ws"
    by (meson neq_Nil_conv split_on_ne)
  with Cons.IH show ?case
    by (cases ws) auto
qed simp

section \<open>Runes\<close>

text \<open>
  \<open>decode_rune\<close> follows \<open>utf8.DecodeRuneInString\<close>: the code point and the width of the first
  rune of a non-empty string, \<open>(RuneError, 1)\<close> on an encoding that is not valid.
\<close>

abbreviation byte :: "char \<Rightarrow> nat" where
  "byte c \<equiv> of_char c"

definition rune_error :: nat where
  "rune_error = 0xFFFD"

definition cont :: "nat \<Rightarrow> nat \<Rightarrow> char \<Rightarrow> bool" where
  "cont lo hi c \<longleftrightarrow> lo \<le> byte c \<and> byte c \<le> hi"

fun decode_rune :: "string \<Rightarrow> nat \<times> nat" where
  "decode_rune [] = (rune_error, 0)"
| "decode_rune (c # s) =
     (let b = byte c in
      if b < 0x80 then (b, 1)
      else if 0xC2 \<le> b \<and> b \<le> 0xDF then
        (case s of
           c1 # _ \<Rightarrow> if cont 0x80 0xBF c1
                     then ((b - 0xC0) * 64 + (byte c1 - 0x80), 2) else (rune_error, 1)
         | [] \<Rightarrow> (rune_error, 1))
      else if 0xE0 \<le> b \<and> b \<le> 0xEF then
        (case s of
           c1 # c2 # _ \<Rightarrow>
             if cont (if b = 0xE0 then 0xA0 else 0x80) (if b = 0xED then 0x9F else 0xBF) c1
                \<and> cont 0x80 0xBF c2
             then ((b - 0xE0) * 4096 + (byte c1 - 0x80) * 64 + (byte c2 - 0x80), 3)
             else (rune_error, 1)
         | _ \<Rightarrow> (rune_error, 1))
      else if 0xF0 \<le> b \<and> b \<le> 0xF4 then
        (case s of
           c1 # c2 # c3 # _ \<Rightarrow>
             if cont (if b = 0xF0 then 0x90 else 0x80) (if b = 0xF4 then 0x8F else 0xBF) c1
                \<and> cont 0x80 0xBF c2 \<and> cont 0x80 0xBF c3
             then ((b - 0xF0) * 262144 + (byte c1 - 0x80) * 4096 + (byte c2 - 0x80) * 64
                   + (byte c3 - 0x80), 4)
             else (rune_error, 1)
         | _ \<Rightarrow> (rune_error, 1))
      else (rune_error, 1))"

lemma decode_rune_width:
  "s \<noteq> [] \<Longrightarrow> 0 < snd (decode_rune s) \<and> snd (decode_rune s) \<le> length s"
  by (cases s) (auto simp: Let_def split: list.splits)

text \<open>The runes of a string, each with the bytes it was decoded from.\<close>

function rune_chunks :: "string \<Rightarrow> (nat \<times> string) list" where
  "rune_chunks s =
     (if s = [] then []
      else let w = snd (decode_rune s)
           in (fst (decode_rune s), take w s) # rune_chunks (drop w s))"
  by pat_completeness auto
termination
  by (relation "measure length") (auto simp: Let_def dest: decode_rune_width)

declare rune_chunks.simps [simp del]

lemma rune_chunks_Nil [simp]: "rune_chunks [] = []"
  by (simp add: rune_chunks.simps)

lemma rune_chunks_Cons:
  "rune_chunks (c # s) =
     (let w = snd (decode_rune (c # s))
      in (fst (decode_rune (c # s)), take w (c # s)) # rune_chunks (drop w (c # s)))"
  by (simp add: rune_chunks.simps [of "c # s"])

definition runes :: "string \<Rightarrow> nat list" where
  [go_defs]: "runes s = map fst (rune_chunks s)"

lemma rune_chunks_concat: "concat (map snd (rune_chunks s)) = s"
proof (induction s rule: rune_chunks.induct)
  case (1 s)
  then show ?case
    by (cases "s = []") (simp_all add: rune_chunks.simps [of s] Let_def)
qed

lemma rune_chunks_nonempty: "(r, bs) \<in> set (rune_chunks s) \<Longrightarrow> bs \<noteq> []"
proof (induction s rule: rune_chunks.induct)
  case (1 s)
  then show ?case
    using decode_rune_width [of s]
    by (cases "s = []") (auto simp: rune_chunks.simps [of s] Let_def)
qed

lemma runes_ascii: "(\<forall>c \<in> set s. byte c < 0x80) \<Longrightarrow> runes s = map byte s"
  by (induction s) (simp_all add: runes_def rune_chunks_Cons)

text \<open>
  \<open>encoding/json\<close> writes a string as valid UTF-8: a byte that starts no rune becomes the
  encoding of \<open>RuneError\<close>.
\<close>

definition utf8_coerce :: "string \<Rightarrow> string" where
  [go_defs]: "utf8_coerce s =
     concat (map (\<lambda>(r, bs). if r = rune_error \<and> length bs = 1
                            then [CHR 0xEF, CHR 0xBF, CHR 0xBD] else bs) (rune_chunks s))"

definition utf8_valid :: "string \<Rightarrow> bool" where
  [go_defs]: "utf8_valid s \<longleftrightarrow> list_all (\<lambda>(r, bs). \<not> (r = rune_error \<and> length bs = 1)) (rune_chunks s)"

lemma utf8_coerce_valid [simp]:
  assumes "utf8_valid s"
  shows "utf8_coerce s = s"
proof -
  have "map (\<lambda>(r, bs). if r = rune_error \<and> length bs = 1
                       then [CHR 0xEF, CHR 0xBF, CHR 0xBD] else bs) (rune_chunks s)
        = map snd (rune_chunks s)"
    using assms by (auto simp: utf8_valid_def list_all_iff)
  then show ?thesis
    unfolding utf8_coerce_def by (simp only: rune_chunks_concat)
qed

lemma utf8_valid_ascii: "(\<forall>c \<in> set s. byte c < 0x80) \<Longrightarrow> utf8_valid s"
  by (induction s) (auto simp: utf8_valid_def rune_chunks_Cons rune_error_def)

section \<open>White space\<close>

text \<open>\<open>unicode.IsSpace\<close>, and \<open>strings.TrimSpace\<close>, which cuts space runes at both ends.\<close>

definition is_space :: "nat \<Rightarrow> bool" where
  "is_space r \<longleftrightarrow> r \<in> set [9, 10, 11, 12, 13, 32, 0x85, 0xA0, 0x1680, 0x2028, 0x2029, 0x202F,
                          0x205F, 0x3000] \<or> (0x2000 \<le> r \<and> r \<le> 0x200A)"

definition trim_space :: "string \<Rightarrow> string" where
  "trim_space s =
     concat (map snd (rev (dropWhile (is_space \<circ> fst)
       (rev (dropWhile (is_space \<circ> fst) (rune_chunks s))))))"

definition blank :: "string \<Rightarrow> bool" where
  [go_defs]: "blank s \<longleftrightarrow> list_all is_space (runes s)"

lemma trim_space_empty_iff: "trim_space s = [] \<longleftrightarrow> blank s"
proof -
  let ?t = "dropWhile (is_space \<circ> fst) (rune_chunks s)"
  have ne: "bs \<noteq> []" if "(r, bs) \<in> set ?t" for r bs
    using that by (meson rune_chunks_nonempty set_dropWhileD)
  have "trim_space s = [] \<longleftrightarrow> rev (dropWhile (is_space \<circ> fst) (rev ?t)) = []"
  proof
    assume a: "trim_space s = []"
    show "rev (dropWhile (is_space \<circ> fst) (rev ?t)) = []"
    proof (rule ccontr)
      assume "rev (dropWhile (is_space \<circ> fst) (rev ?t)) \<noteq> []"
      then obtain r bs where m: "(r, bs) \<in> set (dropWhile (is_space \<circ> fst) (rev ?t))"
        by (metis list.set_intros(1) neq_Nil_conv rev_is_Nil_conv surj_pair)
      then have "bs \<noteq> []"
        using ne by (metis set_dropWhileD set_rev)
      with m a show False
        by (auto simp: trim_space_def)
    qed
  next
    assume "rev (dropWhile (is_space \<circ> fst) (rev ?t)) = []"
    then show "trim_space s = []"
      unfolding trim_space_def by (simp only: list.map concat.simps)
  qed
  also have "\<dots> \<longleftrightarrow> (\<forall>x \<in> set ?t. is_space (fst x))"
    by (simp add: dropWhile_eq_Nil_conv)
  also have "\<dots> \<longleftrightarrow> ?t = []"
    by (metis (no_types, lifting) comp_apply hd_dropWhile list.set_sel(1) empty_iff empty_set)
  also have "\<dots> \<longleftrightarrow> blank s"
    by (simp add: dropWhile_eq_Nil_conv blank_def runes_def list_all_iff)
  finally show ?thesis .
qed

lemma blank_Nil [simp]: "blank []"
  by (simp add: blank_def runes_def)

lemma blank_Cons_ascii:
  "byte c < 0x80 \<Longrightarrow> blank (c # s) \<longleftrightarrow> is_space (byte c) \<and> blank s"
  by (simp add: blank_def runes_def rune_chunks_Cons)

lemma not_blank_Cons [simp]:
  "byte c < 0x80 \<Longrightarrow> \<not> is_space (byte c) \<Longrightarrow> \<not> blank (c # s)"
  by (simp add: blank_Cons_ascii)

section \<open>Numbers and fields\<close>

text \<open>
  \<open>show_nat\<close> prints a number in base ten; \<open>atoi\<close> is \<open>strconv.Atoi\<close> on a 64-bit system: an
  optional sign, at least one digit, and a value in range.  \<open>fields\<close> is \<open>strings.Fields\<close>.
\<close>

definition digit_char :: "nat \<Rightarrow> char" where
  "digit_char n = char_of (48 + n)"

definition is_digit :: "char \<Rightarrow> bool" where
  "is_digit c \<longleftrightarrow> 48 \<le> byte c \<and> byte c \<le> 57"

fun show_nat :: "nat \<Rightarrow> string" where
  "show_nat n = (if n < 10 then [digit_char n] else show_nat (n div 10) @ [digit_char (n mod 10)])"

declare show_nat.simps [simp del]

definition digits_value :: "string \<Rightarrow> nat" where
  "digits_value s = foldl (\<lambda>v c. 10 * v + (byte c - 48)) 0 s"

definition unsigned :: "string \<Rightarrow> bool \<times> string" where
  "unsigned s = (case s of
     [] \<Rightarrow> (False, [])
   | c # rest \<Rightarrow> if c = CHR ''-'' then (True, rest) else if c = CHR ''+'' then (False, rest) else (False, s))"

definition atoi :: "string \<Rightarrow> int option" where
  "atoi s =
     (case unsigned s of
        (neg, ds) \<Rightarrow>
          let v = (if neg then - int (digits_value ds) else int (digits_value ds))
          in if ds = [] \<or> \<not> list_all is_digit ds \<or> v < - (2 ^ 63) \<or> 2 ^ 63 \<le> v then None else Some v)"

fun fields_from :: "string \<Rightarrow> (nat \<times> string) list \<Rightarrow> string list" where
  "fields_from cur [] = (if cur = [] then [] else [cur])"
| "fields_from cur ((r, bs) # cs) =
     (if is_space r then (if cur = [] then [] else [cur]) @ fields_from [] cs
      else fields_from (cur @ bs) cs)"

definition fields :: "string \<Rightarrow> string list" where
  "fields s = fields_from [] (rune_chunks s)"

lemma byte_digit_char [simp]: "n < 10 \<Longrightarrow> byte (digit_char n) = 48 + n"
  by (simp add: digit_char_def)

lemma show_nat_digits: "c \<in> set (show_nat n) \<Longrightarrow> is_digit c"
proof (induction n rule: show_nat.induct)
  case (1 n)
  then show ?case
    using show_nat.simps [of n] by (auto simp: is_digit_def split: if_splits)
qed

lemma show_nat_ne [simp]: "show_nat n \<noteq> []"
  by (subst show_nat.simps) simp

lemma digits_value_snoc: "digits_value (s @ [c]) = 10 * digits_value s + (byte c - 48)"
  by (simp add: digits_value_def)

lemma digits_value_show [simp]: "digits_value (show_nat n) = n"
proof (induction n rule: show_nat.induct)
  case (1 n)
  show ?case
  proof (cases "n < 10")
    case True
    then show ?thesis by (simp add: show_nat.simps [of n] digits_value_def)
  next
    case False
    with 1 show ?thesis by (simp add: show_nat.simps [of n] digits_value_snoc)
  qed
qed

lemma atoi_show_nat: "n < 2 ^ 63 \<Longrightarrow> atoi (show_nat n) = Some (int n)"
proof -
  assume n: "n < 2 ^ 63"
  obtain c s where cs: "show_nat n = c # s" by (meson neq_Nil_conv show_nat_ne)
  then have c: "is_digit c" using show_nat_digits [of c n] by simp
  then have "c \<noteq> CHR ''-''" "c \<noteq> CHR ''+''" by (auto simp: is_digit_def)
  then have "unsigned (show_nat n) = (False, show_nat n)" by (simp add: unsigned_def cs)
  moreover have "list_all is_digit (show_nat n)" using show_nat_digits by (auto simp: list_all_iff)
  moreover have "int n < 2 ^ 63" using n by (simp add: nat_less_numeral_power_cancel_iff)
  ultimately show ?thesis by (simp add: atoi_def Let_def)
qed

lemma fields_from_word:
  "(\<forall>c \<in> set w. byte c < 0x80 \<and> \<not> is_space (byte c)) \<Longrightarrow>
   fields_from cur (rune_chunks (w @ s)) = fields_from (cur @ w) (rune_chunks s)"
  by (induction w arbitrary: cur) (simp_all add: rune_chunks_Cons)

lemma fields_word_space:
  "(\<forall>c \<in> set w. byte c < 0x80 \<and> \<not> is_space (byte c)) \<Longrightarrow> w \<noteq> [] \<Longrightarrow>
   fields (w @ CHR '' '' # s) = w # fields s"
  by (simp add: fields_def fields_from_word rune_chunks_Cons is_space_def)

lemma fields_word:
  "(\<forall>c \<in> set w. byte c < 0x80 \<and> \<not> is_space (byte c)) \<Longrightarrow> w \<noteq> [] \<Longrightarrow> fields w = [w]"
  using fields_from_word [of w "[]" "[]"] by (simp add: fields_def)

lemma digit_field: "is_digit c \<Longrightarrow> byte c < 0x80 \<and> \<not> is_space (byte c)"
  by (auto simp: is_digit_def is_space_def)

text \<open>
  \<open>strings.ToLower\<close>.  The Unicode case mapping outside ASCII is an argument: the bytes of the
  lower-case rune.
\<close>

definition to_lower :: "(nat \<Rightarrow> string) \<Rightarrow> string \<Rightarrow> string" where
  "to_lower lower_rune s =
     concat (map (\<lambda>(r, bs). if 65 \<le> r \<and> r \<le> 90 then [char_of (r + 32)]
                            else if r < 0x80 then bs else lower_rune r) (rune_chunks s))"

lemma to_lower_Nil [simp]: "to_lower f [] = []"
  by (simp add: to_lower_def)

lemma to_lower_Cons [simp]:
  "byte c < 0x80 \<Longrightarrow> to_lower f (c # s) =
     (if 65 \<le> byte c \<and> byte c \<le> 90 then char_of (byte c + 32) else c) # to_lower f s"
  by (simp add: to_lower_def rune_chunks_Cons)

lemma decode_rune_append_ascii:
  "byte c < 0x80 \<Longrightarrow> s \<noteq> [] \<Longrightarrow> decode_rune (s @ c # t) = decode_rune s"
  by (cases s) (auto simp: Let_def cont_def split: list.splits)

lemma rune_chunks_append_ascii:
  "byte c < 0x80 \<Longrightarrow> rune_chunks (s @ c # t) = rune_chunks s @ rune_chunks (c # t)"
proof (induction s rule: rune_chunks.induct)
  case (1 s)
  show ?case
  proof (cases "s = []")
    case False
    have w: "snd (decode_rune s) \<le> length s"
      using decode_rune_width [OF False] by simp
    have "rune_chunks (s @ c # t) =
          (fst (decode_rune s), take (snd (decode_rune s)) s) # rune_chunks (drop (snd (decode_rune s)) s @ c # t)"
      using w False decode_rune_append_ascii [OF 1(2) False, of t]
      by (subst rune_chunks.simps) (simp add: Let_def)
    also have "\<dots> = (fst (decode_rune s), take (snd (decode_rune s)) s)
                    # rune_chunks (drop (snd (decode_rune s)) s) @ rune_chunks (c # t)"
      using 1 False by (simp add: Let_def)
    finally show ?thesis
      using False by (simp add: rune_chunks.simps [of s] Let_def)
  qed simp
qed

lemma to_lower_append_ascii:
  "byte c < 0x80 \<Longrightarrow> to_lower f (s @ c # t) = to_lower f s @ to_lower f (c # t)"
  by (simp add: to_lower_def rune_chunks_append_ascii)

text \<open>A character the pattern does not hold splits the search.\<close>

lemma contains_separator:
  assumes "c \<notin> set sub"
  shows "contains (a @ c # b) sub \<longleftrightarrow> contains a sub \<or> contains b sub"
proof (induction a)
  case Nil
  show ?case
  proof (cases sub)
    case (Cons d sub')
    with assms have "\<not> has_prefix (c # b) sub" by (simp add: has_prefix_def)
    with Cons show ?thesis by (simp)
  qed simp
next
  case (Cons d a)
  have "has_prefix (d # a @ c # b) sub \<longleftrightarrow> has_prefix (d # a) sub"
  proof
    assume "has_prefix (d # a @ c # b) sub"
    then obtain r where r: "d # a @ c # b = sub @ r" by (auto simp: has_prefix_iff)
    then have "(d # a) @ c # b = sub @ r" by simp
    then consider u where "d # a = sub @ u" | u where "sub = (d # a) @ u" "c # b = u @ r"
      by (metis append_eq_append_conv2)
    then show "has_prefix (d # a) sub"
    proof cases
      case 2
      with assms have "u = []" by (cases u) auto
      with 2 show ?thesis by (simp add: has_prefix_def)
    qed (simp add: has_prefix_iff)
  next
    assume "has_prefix (d # a) sub"
    then show "has_prefix (d # a @ c # b) sub"
      unfolding has_prefix_iff by (metis append_Cons append_assoc)
  qed
  with Cons.IH show ?case by simp
qed

section \<open>Paths\<close>

text \<open>
  \<open>filepath\<close> on a Unix system.  \<open>clean_path\<close> removes empty and \<open>.\<close> elements, resolves \<open>..\<close>
  against a preceding element that is not itself \<open>..\<close>, drops \<open>..\<close> at the root, and gives
  \<open>.\<close> for an empty result.
\<close>

definition is_abs :: "string \<Rightarrow> bool" where
  [go_defs]: "is_abs p \<longleftrightarrow> has_prefix p ''/''"

fun clean_step :: "bool \<Rightarrow> string list \<Rightarrow> string \<Rightarrow> string list" where
  "clean_step rooted stack w =
     (if w = [] \<or> w = ''.'' then stack
      else if w = ''..'' then
        (case stack of
           prev # rest \<Rightarrow> if prev \<noteq> ''..'' then rest else w # stack
         | [] \<Rightarrow> if rooted then [] else [w])
      else w # stack)"

definition clean_path :: "string \<Rightarrow> string" where
  [go_defs]: "clean_path p =
     (let rooted = is_abs p;
          stack = foldl (clean_step rooted) [] (split_on (CHR ''/'') p);
          body = join ''/'' (rev stack)
      in if rooted then CHR ''/'' # body else if body = [] then ''.'' else body)"

definition join_path :: "string list \<Rightarrow> string" where
  [go_defs]: "join_path elems =
     (let parts = dropWhile (\<lambda>e. e = []) elems
      in if parts = [] then [] else clean_path (join ''/'' parts))"

definition base_path :: "string \<Rightarrow> string" where
  [go_defs]: "base_path p =
     (if p = [] then ''.''
      else let q = rev (dropWhile (\<lambda>c. c = CHR ''/'') (rev p))
           in if q = [] then ''/'' else rev (takeWhile (\<lambda>c. c \<noteq> CHR ''/'') (rev q)))"

definition dir_path :: "string \<Rightarrow> string" where
  [go_defs]: "dir_path p = clean_path (rev (dropWhile (\<lambda>c. c \<noteq> CHR ''/'') (rev p)))"

definition canonical :: "string \<Rightarrow> bool" where
  [go_defs]: "canonical p \<longleftrightarrow> p \<noteq> [] \<and> is_abs p \<and> clean_path p = p"

lemma canonical_not_Nil [simp]: "\<not> canonical []"
  by (simp add: canonical_def)

section \<open>Sorted lists\<close>

text \<open>
  \<open>strict_sorted_on f\<close>: strictly increasing in the key \<open>f\<close>, the shape the durable records keep.
\<close>

definition strict_sorted_on :: "('a \<Rightarrow> 'k::linorder) \<Rightarrow> 'a list \<Rightarrow> bool" where
  "strict_sorted_on f xs \<longleftrightarrow> sorted_wrt (\<lambda>a b. f a < f b) xs"

lemma strict_sorted_on_iff [sorted_facts]:
  "strict_sorted_on f xs \<longleftrightarrow> sorted (map f xs) \<and> distinct (map f xs)"
proof (induction xs)
  case (Cons x xs)
  then show ?case
    unfolding strict_sorted_on_def by (auto simp: less_le)
qed (simp add: strict_sorted_on_def)

lemma strict_sorted_on_adjacent:
  "strict_sorted_on f xs \<longleftrightarrow> (\<forall>i. Suc i < length xs \<longrightarrow> f (xs ! i) < f (xs ! Suc i))"
  unfolding strict_sorted_on_def by (rule sorted_wrt_iff_nth_Suc_transp) (auto simp: transp_def)

lemma strict_sorted_on_sort_key [sorted_facts]:
  "distinct (map f xs) \<Longrightarrow> strict_sorted_on f (sort_key f xs)"
  by (simp add: strict_sorted_on_iff sorted_sort_key)
     (metis distinct_map mset_sort set_sort distinct_sort)

lemma strict_sorted_on_filter [sorted_facts]:
  "strict_sorted_on f xs \<Longrightarrow> strict_sorted_on f (filter P xs)"
  unfolding strict_sorted_on_def by (rule sorted_wrt_filter)

lemma sort_key_strict_sorted [sorted_facts]:
  "strict_sorted_on f xs \<Longrightarrow> sort_key f xs = xs"
  by (simp add: strict_sorted_on_iff sort_key_id_if_sorted)

lemma find_filter: "List.find P xs = (case filter P xs of [] \<Rightarrow> None | x # _ \<Rightarrow> Some x)"
  by (induction xs) auto

lemma find_SomeD: "List.find P xs = Some x \<Longrightarrow> x \<in> set xs \<and> P x"
  by (auto simp: find_Some_iff)

end
