(* ===== verification/Jvm_Pool.thy ===== *)
theory Jvm_Pool
  imports Prelude "HOL-Library.Word"
begin

unbundle bit_operations_syntax

text \<open>
  The durable membership registry of named JVM pools (\<open>cli/internal/jvmpool/registry.go\<close>).

  The registry is one JSON file behind a mutex; each operation is therefore one atomic step on the
  file.  \<open>reg_file\<close> describes the file by what the standard library's reader and decoder make
  of it.  The writing operations take a \<open>write_env\<close>: the bytes the random source delivers and the
  file-system call, if any, that fails.  A string that is not valid UTF-8 is changed by the JSON
  encoder, which \<open>encode_document\<close> writes out.
\<close>

section \<open>Data\<close>

record member =
  config_dir :: string
  source_cwd :: string
  jvm_pool :: string

record document =
  doc_format :: string
  doc_revision :: string
  doc_members :: "member list option" \<comment> \<open>\<open>None\<close> is the nil slice\<close>

record pool_snapshot =
  snap_pool :: string
  snap_revision :: string
  snap_members :: "member list"

record effective_config =
  eff_config_dir :: string
  eff_source_cwd :: string
  eff_jvm_pool :: "string option"

record live_owner =
  owner_pool :: string
  owner_host_id :: string

type_synonym live_ownership = "string \<rightharpoonup> live_owner"

record mutation =
  mut_changed :: bool
  mut_revision :: string
  mut_members :: "member list"

datatype reg_file =
    Absent
  | Unreadable string
  | Undecodable string
  | Trailing "string option" \<comment> \<open>\<open>None\<close>: a second JSON value\<close>
  | Holds document

datatype write_step =
  Mkdir | CreateTemp | Chmod | WriteTmp | SyncTmp | CloseTmp | Rename | OpenDir | SyncDir

record write_env =
  random_bytes :: "8 word list option" \<comment> \<open>\<open>None\<close>: \<open>rand.Read\<close> failed\<close>
  failing_step :: "write_step option"

datatype member_failure =
    ResolveFailed string string
  | ConfigDirDiffers string string
  | SourceCwdDiffers string string
  | PoolMissing string
  | PoolBlank string
  | PoolDiffers string string string

datatype reg_error =
    ReadFailed string
  | Malformed string
  | TrailingValue
  | BadFormat
  | BadRevision
  | MembersNotArray
  | NotCanonical string string
  | BlankPool
  | DuplicateMember string
  | NotSorted
  | StopRequired string string string
  | RevisionFailed
  | WriteFailed write_step
  | ResolverRequired
  | InvalidMembers "member_failure list"
  | KeyMismatch string string

definition membership_format :: string where
  "membership_format = ''millstrand.jvm-pool-membership/v1''"

definition doc_rows :: "document \<Rightarrow> member list" where
  "doc_rows doc = (case doc_members doc of None \<Rightarrow> [] | Some ms \<Rightarrow> ms)"

section \<open>Validation\<close>

definition validate_canonical_path :: "string \<Rightarrow> string \<Rightarrow> reg_error option" where
  "validate_canonical_path label path =
     (if path = [] \<or> \<not> is_abs path \<or> clean_path path \<noteq> path
      then Some (NotCanonical label path) else None)"

definition validate_canonical_config_dir :: "string \<Rightarrow> reg_error option" where
  "validate_canonical_config_dir path = validate_canonical_path ''config_dir'' path"

definition validate_pool_name :: "string \<Rightarrow> reg_error option" where
  "validate_pool_name pool = (if trim_space pool = [] then Some BlankPool else None)"

definition validate_member :: "member \<Rightarrow> reg_error option" where
  "validate_member m =
     (case validate_canonical_config_dir (config_dir m) of
        Some e \<Rightarrow> Some e
      | None \<Rightarrow>
          (case validate_canonical_path ''source_cwd'' (source_cwd m) of
             Some e \<Rightarrow> Some e
           | None \<Rightarrow> validate_pool_name (jvm_pool m)))"

text \<open>The first loop of \<open>validateDocument\<close>: every row is valid and no \<open>config_dir\<close> repeats.\<close>

fun validate_rows :: "string set \<Rightarrow> member list \<Rightarrow> reg_error option" where
  "validate_rows seen [] = None"
| "validate_rows seen (m # ms) =
     (case validate_member m of
        Some e \<Rightarrow> Some e
      | None \<Rightarrow>
          if config_dir m \<in> seen then Some (DuplicateMember (config_dir m))
          else validate_rows (insert (config_dir m) seen) ms)"

text \<open>The second loop: adjacent rows are strictly increasing.\<close>

fun validate_order :: "member list \<Rightarrow> reg_error option" where
  "validate_order (a # b # ms) =
     (if config_dir a \<ge> config_dir b then Some NotSorted else validate_order (b # ms))"
| "validate_order _ = None"

definition validate_document :: "document \<Rightarrow> bool \<Rightarrow> reg_error option" where
  "validate_document doc persisted =
     (if doc_format doc \<noteq> membership_format then Some BadFormat
      else if persisted \<and> (doc_revision doc = [] \<or> \<not> has_prefix (doc_revision doc) ''membership-'')
      then Some BadRevision
      else case doc_members doc of
             None \<Rightarrow> Some MembersNotArray
           | Some ms \<Rightarrow>
               (case validate_rows {} ms of
                  Some e \<Rightarrow> Some e
                | None \<Rightarrow> validate_order ms))"

section \<open>Reading\<close>

definition empty_document :: document where
  "empty_document = \<lparr>doc_format = membership_format, doc_revision = [], doc_members = Some []\<rparr>"

fun read_locked :: "reg_file \<Rightarrow> (reg_error, document) result" where
  "read_locked Absent = Ok empty_document"
| "read_locked (Unreadable e) = Err (ReadFailed e)"
| "read_locked (Undecodable e) = Err (Malformed e)"
| "read_locked (Trailing None) = Err TrailingValue"
| "read_locked (Trailing (Some e)) = Err (Malformed e)"
| "read_locked (Holds doc) =
     (case validate_document doc True of Some e \<Rightarrow> Err e | None \<Rightarrow> Ok doc)"

definition snapshot :: "string \<Rightarrow> reg_file \<Rightarrow> (reg_error, pool_snapshot) result" where
  "snapshot pool f =
     (case validate_pool_name pool of
        Some e \<Rightarrow> Err e
      | None \<Rightarrow>
          (case read_locked f of
             Inl e \<Rightarrow> Err e
           | Inr doc \<Rightarrow>
               Ok \<lparr>snap_pool = pool, snap_revision = doc_revision doc,
                   snap_members = filter (\<lambda>m. jvm_pool m = pool) (doc_rows doc)\<rparr>))"

definition member_failures ::
    "(string \<Rightarrow> (string, effective_config) result) \<Rightarrow> member \<Rightarrow> member_failure list" where
  "member_failures resolve m =
     (case resolve (config_dir m) of
        Inl e \<Rightarrow> [ResolveFailed (config_dir m) e]
      | Inr eff \<Rightarrow>
          (if eff_config_dir eff \<noteq> [] \<and> eff_config_dir eff \<noteq> config_dir m
           then [ConfigDirDiffers (config_dir m) (eff_config_dir eff)] else [])
          @ (if eff_source_cwd eff \<noteq> [] \<and> eff_source_cwd eff \<noteq> source_cwd m
             then [SourceCwdDiffers (config_dir m) (eff_source_cwd eff)] else [])
          @ (case eff_jvm_pool eff of
               None \<Rightarrow> [PoolMissing (config_dir m)]
             | Some p \<Rightarrow>
                 if trim_space p = [] then [PoolBlank (config_dir m)]
                 else if p \<noteq> jvm_pool m then [PoolDiffers (config_dir m) p (jvm_pool m)]
                 else []))"

definition validate_pool ::
    "string \<Rightarrow> (string \<Rightarrow> (string, effective_config) result) option \<Rightarrow> reg_file
     \<Rightarrow> (reg_error, pool_snapshot) result" where
  "validate_pool pool resolver f =
     (case validate_pool_name pool of
        Some e \<Rightarrow> Err e
      | None \<Rightarrow>
          (case resolver of
             None \<Rightarrow> Err ResolverRequired
           | Some resolve \<Rightarrow>
               (case read_locked f of
                  Inl e \<Rightarrow> Err e
                | Inr doc \<Rightarrow>
                    let rows = filter (\<lambda>m. jvm_pool m = pool) (doc_rows doc);
                        failures = concat (map (member_failures resolve) rows)
                    in if failures \<noteq> [] then Err (InvalidMembers failures)
                       else Ok \<lparr>snap_pool = pool, snap_revision = doc_revision doc,
                                snap_members = rows\<rparr>)))"

section \<open>Writing\<close>

definition hex_digit :: "nat \<Rightarrow> char" where
  "hex_digit n = ''0123456789abcdef'' ! n"

definition hex_encode :: "8 word list \<Rightarrow> string" where
  "hex_encode bs = concat (map (\<lambda>b. [hex_digit (unat b div 16), hex_digit (unat b mod 16)]) bs)"

definition new_revision :: "8 word list option \<Rightarrow> string option" where
  "new_revision random =
     (case random of
        None \<Rightarrow> None
      | Some raw0 \<Rightarrow>
          let raw = raw0[6 := (raw0 ! 6 AND 0x0f) OR 0x40, 8 := (raw0 ! 8 AND 0x3f) OR 0x80];
              slice = (\<lambda>a b. hex_encode (take (b - a) (drop a raw)));
              encoded = slice 0 4 @ ''-'' @ slice 4 6 @ ''-'' @ slice 6 8 @ ''-'' @ slice 8 10
                        @ ''-'' @ slice 10 16
          in Some (''membership-'' @ encoded))"

definition encode_member :: "member \<Rightarrow> member" where
  "encode_member m =
     \<lparr>config_dir = utf8_coerce (config_dir m), source_cwd = utf8_coerce (source_cwd m),
      jvm_pool = utf8_coerce (jvm_pool m)\<rparr>"

definition encode_document :: "document \<Rightarrow> document" where
  "encode_document doc =
     \<lparr>doc_format = utf8_coerce (doc_format doc), doc_revision = utf8_coerce (doc_revision doc),
      doc_members = map_option (map encode_member) (doc_members doc)\<rparr>"

text \<open>
  \<open>atomicWrite\<close>: the rename is the commit point.  A failure before it leaves the old file; the
  directory is opened and synced after it, so those two failures are reported with the new file
  already in place.
\<close>

definition commits :: "write_step \<Rightarrow> bool" where
  "commits step \<longleftrightarrow> step = OpenDir \<or> step = SyncDir"

definition atomic_write ::
    "write_env \<Rightarrow> document \<Rightarrow> reg_file \<Rightarrow> reg_file \<times> (reg_error, unit) result" where
  "atomic_write env doc f =
     (case failing_step env of
        None \<Rightarrow> (Holds (encode_document doc), Ok ())
      | Some step \<Rightarrow>
          (if commits step then Holds (encode_document doc) else f, Err (WriteFailed step)))"

definition mutation_from :: "document \<Rightarrow> bool \<Rightarrow> mutation" where
  "mutation_from doc changed =
     \<lparr>mut_changed = changed, mut_revision = doc_revision doc, mut_members = doc_rows doc\<rparr>"

definition sort_members :: "member list \<Rightarrow> member list" where
  "sort_members ms = sort_key config_dir ms"

definition replace_locked ::
    "write_env \<Rightarrow> document \<Rightarrow> reg_file \<Rightarrow> reg_file \<times> (reg_error, mutation) result" where
  "replace_locked env doc f =
     (case new_revision (random_bytes env) of
        None \<Rightarrow> (f, Err RevisionFailed)
      | Some revision \<Rightarrow>
          let doc' = doc\<lparr>doc_members := map_option sort_members (doc_members doc),
                         doc_format := membership_format, doc_revision := revision\<rparr>
          in case atomic_write env doc' f of
               (f', Inl e) \<Rightarrow> (f', Err e)
             | (f', Inr _) \<Rightarrow> (f', Ok (mutation_from doc' True)))"

definition stop_required :: "string \<Rightarrow> live_owner \<Rightarrow> reg_error" where
  "stop_required dir owner = StopRequired dir (owner_pool owner) (owner_host_id owner)"

text \<open>\<open>doc.Members[i] = member\<close> at the first row with the member's directory.\<close>

fun put_row :: "member \<Rightarrow> member list \<Rightarrow> member list" where
  "put_row m [] = []"
| "put_row m (c # cs) = (if config_dir c = config_dir m then m # cs else c # put_row m cs)"

definition reconcile ::
    "write_env \<Rightarrow> member \<Rightarrow> live_ownership \<Rightarrow> reg_file \<Rightarrow> reg_file \<times> (reg_error, mutation) result"
    where
  "reconcile env m live f =
     (case validate_member m of
        Some e \<Rightarrow> (f, Err e)
      | None \<Rightarrow>
          (case read_locked f of
             Inl e \<Rightarrow> (f, Err e)
           | Inr doc \<Rightarrow>
               (case List.find (\<lambda>c. config_dir c = config_dir m) (doc_rows doc) of
                  Some current \<Rightarrow>
                    (case live (config_dir m) of
                       Some owner \<Rightarrow>
                         if owner_pool owner \<noteq> jvm_pool m \<or> jvm_pool current \<noteq> owner_pool owner
                         then (f, Err (stop_required (config_dir m) owner))
                         else if current = m then (f, Ok (mutation_from doc False))
                         else replace_locked env
                                (doc\<lparr>doc_members := Some (put_row m (doc_rows doc))\<rparr>) f
                     | None \<Rightarrow>
                         if current = m then (f, Ok (mutation_from doc False))
                         else replace_locked env
                                (doc\<lparr>doc_members := Some (put_row m (doc_rows doc))\<rparr>) f)
                | None \<Rightarrow>
                    (case live (config_dir m) of
                       Some owner \<Rightarrow>
                         if owner_pool owner \<noteq> jvm_pool m
                         then (f, Err (stop_required (config_dir m) owner))
                         else replace_locked env
                                (doc\<lparr>doc_members := Some (sort_members (doc_rows doc @ [m]))\<rparr>) f
                     | None \<Rightarrow>
                         replace_locked env
                           (doc\<lparr>doc_members := Some (sort_members (doc_rows doc @ [m]))\<rparr>) f))))"

text \<open>\<open>append(doc.Members[:i], doc.Members[i+1:]...)\<close> at the first row with that directory.\<close>

fun drop_row :: "string \<Rightarrow> member list \<Rightarrow> member list" where
  "drop_row dir [] = []"
| "drop_row dir (c # cs) = (if config_dir c = dir then cs else c # drop_row dir cs)"

definition remove ::
    "write_env \<Rightarrow> string \<Rightarrow> live_ownership \<Rightarrow> reg_file \<Rightarrow> reg_file \<times> (reg_error, mutation) result"
    where
  "remove env dir live f =
     (case validate_canonical_config_dir dir of
        Some e \<Rightarrow> (f, Err e)
      | None \<Rightarrow>
          (case read_locked f of
             Inl e \<Rightarrow> (f, Err e)
           | Inr doc \<Rightarrow>
               (case live dir of
                  Some owner \<Rightarrow> (f, Err (stop_required dir owner))
                | None \<Rightarrow>
                    (case List.find (\<lambda>c. config_dir c = dir) (doc_rows doc) of
                       Some _ \<Rightarrow>
                         replace_locked env
                           (doc\<lparr>doc_members := Some (drop_row dir (doc_rows doc))\<rparr>) f
                     | None \<Rightarrow> (f, Ok (mutation_from doc False))))))"

section \<open>Artifact keys\<close>

text \<open>The digest function is a parameter: it delivers the digest's bytes.\<close>

definition artifact_key :: "(string \<Rightarrow> 8 word list) \<Rightarrow> string \<Rightarrow> string" where
  "artifact_key sha256 pool =
     take 32 (hex_encode (sha256 (''millstrand-jvm-pool'' @ [CHR 0x00] @ pool)))"

definition validate_artifact_key ::
    "(string \<Rightarrow> 8 word list) \<Rightarrow> string \<Rightarrow> string \<Rightarrow> reg_error option" where
  "validate_artifact_key sha256 pool key =
     (case validate_pool_name pool of
        Some e \<Rightarrow> Some e
      | None \<Rightarrow> if key \<noteq> artifact_key sha256 pool then Some (KeyMismatch key pool) else None)"

definition pool_host_dir ::
    "(string \<Rightarrow> 8 word list) \<Rightarrow> string \<Rightarrow> string \<Rightarrow> (reg_error, string) result" where
  "pool_host_dir sha256 root pool =
     (case validate_canonical_path ''state root'' root of
        Some e \<Rightarrow> Err e
      | None \<Rightarrow>
          (case validate_pool_name pool of
             Some e \<Rightarrow> Err e
           | None \<Rightarrow> Ok (join_path [root, ''jvm-pools'', ''hosts'', artifact_key sha256 pool])))"

section \<open>Validation characterised\<close>

lemma validate_canonical_path_None [simp]:
  "validate_canonical_path label p = None \<longleftrightarrow> canonical p"
  by (auto simp: validate_canonical_path_def canonical_def)

lemma validate_pool_name_eq: "validate_pool_name p = (if blank p then Some BlankPool else None)"
  by (simp add: validate_pool_name_def trim_space_empty_iff)

lemma validate_pool_name_None [simp]: "validate_pool_name p = None \<longleftrightarrow> \<not> blank p"
  by (simp add: validate_pool_name_def trim_space_empty_iff)

definition valid_member :: "member \<Rightarrow> bool" where
  "valid_member m \<longleftrightarrow> canonical (config_dir m) \<and> canonical (source_cwd m) \<and> \<not> blank (jvm_pool m)"

lemma validate_member_None [simp]: "validate_member m = None \<longleftrightarrow> valid_member m"
  by (simp add: validate_member_def validate_canonical_config_dir_def valid_member_def)

lemma validate_rows_None [simp]:
  "validate_rows seen ms = None \<longleftrightarrow>
     (\<forall>m \<in> set ms. valid_member m) \<and> distinct (map config_dir ms) \<and> config_dir ` set ms \<inter> seen = {}"
  by (induction ms arbitrary: seen) (auto split: option.splits)

lemma validate_order_None [simp]: "validate_order ms = None \<longleftrightarrow> strict_sorted_on config_dir ms"
proof (induction ms rule: validate_order.induct)
  case (1 a b ms)
  then show ?case
    by (auto simp: strict_sorted_on_def)
qed (simp_all add: strict_sorted_on_def)

definition valid_rows :: "member list \<Rightarrow> bool" where
  "valid_rows ms \<longleftrightarrow> (\<forall>m \<in> set ms. valid_member m) \<and> strict_sorted_on config_dir ms"

lemma validate_document_None:
  "validate_document doc persisted = None \<longleftrightarrow>
     doc_format doc = membership_format
     \<and> (persisted \<longrightarrow> has_prefix (doc_revision doc) ''membership-'')
     \<and> (\<exists>ms. doc_members doc = Some ms \<and> valid_rows ms)"
  by (auto simp: validate_document_def valid_rows_def strict_sorted_on_iff has_prefix_def
           split: option.split)

section \<open>Rows as a map\<close>

definition row_map :: "member list \<Rightarrow> string \<rightharpoonup> member" where
  "row_map ms = map_of (map (\<lambda>m. (config_dir m, m)) ms)"

lemma row_map_Some:
  "distinct (map config_dir ms) \<Longrightarrow> row_map ms dir = Some m \<longleftrightarrow> m \<in> set ms \<and> config_dir m = dir"
  by (auto simp: row_map_def map_of_eq_Some_iff comp_def)

lemma row_map_None: "row_map ms dir = None \<longleftrightarrow> dir \<notin> config_dir ` set ms"
  by (auto simp: row_map_def map_of_eq_None_iff image_image)

lemma row_map_set_eq:
  assumes "distinct (map config_dir ms)" and "distinct (map config_dir ns)" and "set ms = set ns"
  shows "row_map ms = row_map ns"
proof
  fix dir
  show "row_map ms dir = row_map ns dir"
    using assms by (metis not_None_eq row_map_None row_map_Some)
qed

lemma row_map_find: "row_map ms dir = List.find (\<lambda>c. config_dir c = dir) ms"
  by (induction ms) (auto simp: row_map_def)

lemma config_dir_put_row [simp]: "map config_dir (put_row m ms) = map config_dir ms"
  by (induction ms) auto

lemma row_map_put_row:
  "row_map ms (config_dir m) \<noteq> None \<Longrightarrow> row_map (put_row m ms) = (row_map ms)(config_dir m \<mapsto> m)"
  by (induction ms) (auto simp: row_map_def fun_upd_twist)

lemma set_put_row: "set (put_row m ms) \<subseteq> insert m (set ms)"
  by (induction ms) auto

lemma drop_row_filter:
  "distinct (map config_dir ms) \<Longrightarrow> drop_row dir ms = filter (\<lambda>c. config_dir c \<noteq> dir) ms"
proof (induction ms)
  case (Cons c cs)
  have "filter (\<lambda>x. config_dir x \<noteq> config_dir c) cs = cs"
    using Cons.prems by (auto simp: filter_id_conv image_iff)
  then show ?case
    using Cons by auto
qed simp

lemma row_map_drop_row:
  assumes "distinct (map config_dir ms)"
  shows "row_map (drop_row dir ms) = (row_map ms)(dir := None)"
proof
  fix k
  have "distinct (map config_dir (filter (\<lambda>c. config_dir c \<noteq> dir) ms))"
    using assms by (simp add: distinct_map_filter)
  then have "row_map (filter (\<lambda>c. config_dir c \<noteq> dir) ms) k = Some m \<longleftrightarrow>
        ((row_map ms)(dir := None)) k = Some m" for m
    using assms by (auto simp: row_map_Some)
  then show "row_map (drop_row dir ms) k = ((row_map ms)(dir := None)) k"
    using assms by (metis drop_row_filter not_Some_eq)
qed

lemma distinct_snoc_sorted:
  assumes "distinct (map config_dir ms)" and "row_map ms (config_dir m) = None"
  shows "strict_sorted_on config_dir (sort_members (ms @ [m]))"
  using assms unfolding sort_members_def
  by (intro strict_sorted_on_sort_key) (simp add: row_map_None)

lemma row_map_snoc_sorted:
  assumes "distinct (map config_dir ms)" and "row_map ms (config_dir m) = None"
  shows "row_map (sort_members (ms @ [m])) = (row_map ms)(config_dir m \<mapsto> m)"
proof -
  have "row_map (sort_members (ms @ [m])) = row_map (m # ms)"
    using assms distinct_snoc_sorted [OF assms]
    by (intro row_map_set_eq) (auto simp: sort_members_def row_map_None strict_sorted_on_iff)
  then show ?thesis
    by (simp add: row_map_def)
qed

lemma valid_rows_sorted [simp]: "valid_rows ms \<Longrightarrow> sort_members ms = ms"
  by (simp add: valid_rows_def sort_members_def sorted_facts)

lemma valid_rows_put_row:
  "valid_rows ms \<Longrightarrow> valid_member m \<Longrightarrow> valid_rows (put_row m ms)"
  using set_put_row [of m ms] by (auto simp: valid_rows_def strict_sorted_on_iff)

lemma valid_rows_drop_row: "valid_rows ms \<Longrightarrow> valid_rows (drop_row dir ms)"
  by (simp add: valid_rows_def drop_row_filter strict_sorted_on_iff [THEN iffD1]
      strict_sorted_on_filter)

lemma valid_rows_snoc:
  assumes "valid_rows ms" and "valid_member m" and "row_map ms (config_dir m) = None"
  shows "valid_rows (sort_members (ms @ [m]))"
proof -
  have "strict_sorted_on config_dir (sort_members (ms @ [m]))"
    using assms by (intro distinct_snoc_sorted) (simp_all add: valid_rows_def strict_sorted_on_iff)
  then show ?thesis
    using assms by (auto simp: valid_rows_def sort_members_def)
qed

section \<open>Encoding and revisions\<close>

definition utf8_member :: "member \<Rightarrow> bool" where
  "utf8_member m \<longleftrightarrow>
     utf8_valid (config_dir m) \<and> utf8_valid (source_cwd m) \<and> utf8_valid (jvm_pool m)"

lemma encode_member_id [simp]: "utf8_member m \<Longrightarrow> encode_member m = m"
  by (simp add: utf8_member_def encode_member_def)

lemma hex_digit_lower: "n < 16 \<Longrightarrow> hex_digit n \<in> set ''0123456789abcdef''"
  unfolding hex_digit_def by (rule nth_mem) simp

lemma unat_byte_div: "unat (b :: 8 word) div 16 < 16"
proof -
  have "unat b < 2 ^ LENGTH(8)"
    by (rule unsigned_less)
  then show ?thesis by simp
qed

lemma hex_encode_chars: "set (hex_encode bs) \<subseteq> set ''0123456789abcdef''"
proof
  fix c
  assume "c \<in> set (hex_encode bs)"
  then obtain b :: "8 word" where
    "c = hex_digit (unat b div 16) \<or> c = hex_digit (unat b mod 16)"
    by (auto simp: hex_encode_def)
  moreover have "unat b mod 16 < 16"
    by simp
  ultimately show "c \<in> set ''0123456789abcdef''"
    using hex_digit_lower unat_byte_div [of b] by blast
qed

lemma length_hex_encode [simp]: "length (hex_encode bs) = 2 * length bs"
  by (induction bs) (simp_all add: hex_encode_def)

lemma new_revision_None [simp]: "new_revision None = None"
  by (simp add: new_revision_def)

lemma new_revision_None_iff [simp]: "new_revision r = None \<longleftrightarrow> r = None"
  by (simp add: new_revision_def Let_def split: option.split)

lemma new_revision_Some:
  assumes "new_revision random = Some rv"
  shows "has_prefix rv ''membership-'' \<and> utf8_valid rv"
proof -
  from assms obtain encoded where rv: "rv = ''membership-'' @ encoded"
    and chars: "set encoded \<subseteq> insert (CHR ''-'') (set ''0123456789abcdef'')"
    using hex_encode_chars
    by (auto simp: new_revision_def Let_def split: option.splits) (fastforce dest!: subsetD)
  have "\<forall>c \<in> insert (CHR ''-'') (set ''0123456789abcdef''). byte c < 0x80"
    by simp
  with chars have "\<forall>c \<in> set rv. byte c < 0x80"
    unfolding rv by (auto dest!: subsetD)
  then show ?thesis
    using rv by (simp add: utf8_valid_ascii has_prefix_def)
qed

section \<open>One replacement of the file\<close>

definition write_commits :: "write_env \<Rightarrow> bool" where
  "write_commits env \<longleftrightarrow>
     random_bytes env \<noteq> None
     \<and> (case failing_step env of None \<Rightarrow> True | Some step \<Rightarrow> commits step)"

definition reg_ok :: "reg_file \<Rightarrow> bool" where
  "reg_ok f \<longleftrightarrow>
     (case f of
        Absent \<Rightarrow> True
      | Holds doc \<Rightarrow> validate_document doc True = None \<and> utf8_valid (doc_revision doc)
                     \<and> list_all utf8_member (doc_rows doc)
      | _ \<Rightarrow> False)"

definition registered :: "reg_file \<Rightarrow> string \<rightharpoonup> member" where
  "registered f = (case f of Holds doc \<Rightarrow> row_map (doc_rows doc) | _ \<Rightarrow> Map.empty)"

lemma reg_ok_read:
  assumes "reg_ok f"
  obtains doc where "read_locked f = Ok doc" and "doc_members doc = Some (doc_rows doc)"
    and "valid_rows (doc_rows doc)" and "list_all utf8_member (doc_rows doc)"
    and "registered f = row_map (doc_rows doc)"
proof (cases f)
  case Absent
  then show ?thesis
    by (intro that [of empty_document])
       (simp_all add: empty_document_def doc_rows_def valid_rows_def strict_sorted_on_def
          registered_def row_map_def)
next
  case (Holds doc)
  with assms have v: "validate_document doc True = None" and u: "list_all utf8_member (doc_rows doc)"
    by (simp_all add: reg_ok_def)
  from v obtain ms where "doc_members doc = Some ms" and "valid_rows ms"
    by (auto simp: validate_document_None)
  with v u Holds show ?thesis
    by (intro that [of doc]) (simp_all add: registered_def doc_rows_def)
qed (use assms in \<open>simp_all add: reg_ok_def\<close>)

lemma replace_locked_rows:
  assumes "doc_members doc = Some ms" and "valid_rows ms" and "list_all utf8_member ms"
  shows "reg_ok f \<Longrightarrow> reg_ok (fst (replace_locked env doc f))"
    and "registered (fst (replace_locked env doc f)) =
           (if write_commits env then row_map ms else registered f)"
    and "snd (replace_locked env doc f) =
           (case new_revision (random_bytes env) of
              None \<Rightarrow> Err RevisionFailed
            | Some rv \<Rightarrow>
                (case failing_step env of
                   None \<Rightarrow> Ok \<lparr>mut_changed = True, mut_revision = rv, mut_members = ms\<rparr>
                 | Some step \<Rightarrow> Err (WriteFailed step)))"
proof -
  have enc: "map encode_member ms = ms"
    using assms(3) by (intro map_idI) (simp add: list_all_iff)
  have fmt: "utf8_coerce membership_format = membership_format"
    by (intro utf8_coerce_valid utf8_valid_ascii) (simp add: membership_format_def)
  have ok: "reg_ok (Holds (encode_document (doc\<lparr>doc_members := Some ms,
        doc_format := membership_format, doc_revision := rv\<rparr>)))"
    if "new_revision (random_bytes env) = Some rv" for rv
    using new_revision_Some [OF that] assms enc fmt
    by (simp add: reg_ok_def validate_document_None encode_document_def doc_rows_def)
  show "reg_ok f \<Longrightarrow> reg_ok (fst (replace_locked env doc f))"
    using ok assms
    by (simp add: replace_locked_def atomic_write_def Let_def split: option.split)
  show "registered (fst (replace_locked env doc f)) =
           (if write_commits env then row_map ms else registered f)"
    using assms enc
    by (auto simp: replace_locked_def atomic_write_def Let_def write_commits_def
          registered_def encode_document_def doc_rows_def split: option.splits)
  show "snd (replace_locked env doc f) =
           (case new_revision (random_bytes env) of
              None \<Rightarrow> Err RevisionFailed
            | Some rv \<Rightarrow>
                (case failing_step env of
                   None \<Rightarrow> Ok \<lparr>mut_changed = True, mut_revision = rv, mut_members = ms\<rparr>
                 | Some step \<Rightarrow> Err (WriteFailed step)))"
    using assms
    by (simp add: replace_locked_def atomic_write_def Let_def mutation_from_def doc_rows_def
          split: option.split)
qed

section \<open>The contract of the registry\<close>

text \<open>
  A durable store: an invariant, a view of the contents as a map, and operations that each change
  at most one key.  An operation either takes effect as a whole or leaves the view alone.
\<close>

locale durable_store =
  fixes inv :: "'s \<Rightarrow> bool"
    and view :: "'s \<Rightarrow> 'k \<rightharpoonup> 'v"
    and admissible :: "'op \<Rightarrow> bool"
    and exec :: "'op \<Rightarrow> 's \<Rightarrow> 's"
    and took :: "'op \<Rightarrow> 's \<Rightarrow> bool"
    and key :: "'op \<Rightarrow> 'k"
    and val :: "'op \<Rightarrow> 'v option"
  assumes exec_inv: "inv s \<Longrightarrow> admissible op \<Longrightarrow> inv (exec op s)"
    and exec_view: "inv s \<Longrightarrow> admissible op \<Longrightarrow>
      view (exec op s) = (if took op s then (view s)(key op := val op) else view s)"
begin

lemma run_inv: "inv s \<Longrightarrow> list_all admissible ops \<Longrightarrow> inv (fold exec ops s)"
  by (induction ops arbitrary: s) (auto intro: exec_inv)

lemma run_frame:
  "inv s \<Longrightarrow> list_all admissible ops \<Longrightarrow> \<forall>op \<in> set ops. key op \<noteq> k
   \<Longrightarrow> view (fold exec ops s) k = view s k"
proof (induction ops arbitrary: s)
  case (Cons op ops)
  then have "view (fold exec ops (exec op s)) k = view (exec op s) k"
    by (intro Cons.IH) (auto intro: exec_inv)
  then show ?case
    using Cons.prems by (auto simp: exec_view)
qed simp

lemma run_last_write:
  assumes "inv s" and "list_all admissible (op # ops)" and "took op s"
    and "\<forall>op' \<in> set ops. key op' \<noteq> key op"
  shows "view (fold exec (op # ops) s) (key op) = val op"
  using assms by (simp add: run_frame exec_inv exec_view)

end

datatype reg_op =
    Reconcile write_env member live_ownership
  | Remove write_env string live_ownership

fun op_result :: "reg_op \<Rightarrow> reg_file \<Rightarrow> reg_file \<times> (reg_error, mutation) result" where
  "op_result (Reconcile env m live) f = reconcile env m live f"
| "op_result (Remove env dir live) f = remove env dir live f"

definition op_exec :: "reg_op \<Rightarrow> reg_file \<Rightarrow> reg_file" where
  "op_exec op f = fst (op_result op f)"

text \<open>An operation took effect when it succeeded, or failed only after the rename.\<close>

definition op_took :: "reg_op \<Rightarrow> reg_file \<Rightarrow> bool" where
  "op_took op f =
     (case snd (op_result op f) of
        Inr _ \<Rightarrow> True
      | Inl (WriteFailed step) \<Rightarrow> commits step
      | Inl _ \<Rightarrow> False)"

fun op_key :: "reg_op \<Rightarrow> string" where
  "op_key (Reconcile env m live) = config_dir m"
| "op_key (Remove env dir live) = dir"

fun op_val :: "reg_op \<Rightarrow> member option" where
  "op_val (Reconcile env m live) = Some m"
| "op_val (Remove env dir live) = None"

text \<open>An operation is admissible when the row it writes survives the JSON encoder.\<close>

fun op_admissible :: "reg_op \<Rightarrow> bool" where
  "op_admissible (Reconcile env m live) = utf8_member m"
| "op_admissible (Remove env dir live) = True"

lemma replace_took:
  assumes "doc_members doc = Some ms" and "valid_rows ms" and "list_all utf8_member ms"
  shows "(case snd (replace_locked env doc f) of
            Inr _ \<Rightarrow> True | Inl (WriteFailed step) \<Rightarrow> commits step | Inl _ \<Rightarrow> False)
         = write_commits env"
  by (cases "random_bytes env")
     (auto simp: replace_locked_rows(3) [OF assms] write_commits_def split: option.splits)

lemma put_row_utf8: "list_all utf8_member ms \<Longrightarrow> utf8_member m \<Longrightarrow> list_all utf8_member (put_row m ms)"
  using set_put_row [of m ms] by (auto simp: list_all_iff)

lemma snoc_utf8:
  "list_all utf8_member ms \<Longrightarrow> utf8_member m \<Longrightarrow> list_all utf8_member (sort_members (ms @ [m]))"
  by (simp add: sort_members_def list_all_iff)

lemma drop_row_utf8: "list_all utf8_member ms \<Longrightarrow> list_all utf8_member (drop_row dir ms)"
  by (induction ms) auto

lemma validation_never_writes:
  "validate_member m = Some e \<Longrightarrow> e \<noteq> WriteFailed step"
  "validate_canonical_config_dir dir = Some e \<Longrightarrow> e \<noteq> WriteFailed step"
  by (auto simp: validate_member_def validate_canonical_config_dir_def
      validate_canonical_path_def validate_pool_name_def split: option.splits if_splits)

text \<open>Every run of an operation refuses, finds nothing to do, or replaces the file once.\<close>

lemma reconcile_cases:
  assumes ok: "reg_ok f" and utf8: "utf8_member m"
  obtains (refused) e where "reconcile env m live f = (f, Err e)" and "\<And>step. e \<noteq> WriteFailed step"
  | (same) mu where "reconcile env m live f = (f, Ok mu)" and "registered f (config_dir m) = Some m"
  | (written) doc ms where "reconcile env m live f = replace_locked env doc f"
      and "doc_members doc = Some ms" and "valid_rows ms" and "list_all utf8_member ms"
      and "row_map ms = (registered f)(config_dir m \<mapsto> m)"
proof -
  obtain doc where doc: "read_locked f = Ok doc" "valid_rows (doc_rows doc)"
    "list_all utf8_member (doc_rows doc)" "registered f = row_map (doc_rows doc)"
    using reg_ok_read [OF ok] by metis
  have dist: "distinct (map config_dir (doc_rows doc))"
    using doc(2) by (simp add: valid_rows_def strict_sorted_on_iff)
  show thesis
  proof (cases "validate_member m")
    case (Some e)
    then show thesis
      by (intro refused [of e]) (simp_all add: reconcile_def validation_never_writes)
  next
    case valid: None
    show thesis
    proof (cases "row_map (doc_rows doc) (config_dir m)")
      case None
      then have find: "List.find (\<lambda>c. config_dir c = config_dir m) (doc_rows doc) = None"
        by (simp add: row_map_find)
      let ?ms = "sort_members (doc_rows doc @ [m])"
      have "valid_rows ?ms" "row_map ?ms = (registered f)(config_dir m \<mapsto> m)"
        using None doc dist valid by (simp_all add: valid_rows_snoc row_map_snoc_sorted)
      note ms = this snoc_utf8 [OF doc(3) utf8]
      have "(\<exists>owner. reconcile env m live f = (f, Err (stop_required (config_dir m) owner)))
            \<or> reconcile env m live f = replace_locked env (doc\<lparr>doc_members := Some ?ms\<rparr>) f"
        unfolding reconcile_def valid by (auto simp: doc find split: option.split)
      then show thesis
      proof (elim disjE exE)
        fix owner
        assume "reconcile env m live f = (f, Err (stop_required (config_dir m) owner))"
        then show thesis
          by (rule refused) (simp add: stop_required_def)
      next
        assume "reconcile env m live f = replace_locked env (doc\<lparr>doc_members := Some ?ms\<rparr>) f"
        then show thesis
          by (rule written) (use ms in simp_all)
      qed
    next
      case (Some current)
      then have find: "List.find (\<lambda>c. config_dir c = config_dir m) (doc_rows doc) = Some current"
        by (simp add: row_map_find)
      let ?ms = "put_row m (doc_rows doc)"
      have "valid_rows ?ms" "row_map ?ms = (registered f)(config_dir m \<mapsto> m)"
        using Some doc valid by (simp_all add: valid_rows_put_row row_map_put_row)
      note ms = this put_row_utf8 [OF doc(3) utf8]
      have "(\<exists>owner. reconcile env m live f = (f, Err (stop_required (config_dir m) owner)))
            \<or> current = m \<and> reconcile env m live f = (f, Ok (mutation_from doc False))
            \<or> reconcile env m live f = replace_locked env (doc\<lparr>doc_members := Some ?ms\<rparr>) f"
        unfolding reconcile_def valid by (auto simp: doc find split: option.split)
      then show thesis
      proof (elim disjE exE conjE)
        fix owner
        assume "reconcile env m live f = (f, Err (stop_required (config_dir m) owner))"
        then show thesis
          by (rule refused) (simp add: stop_required_def)
      next
        assume "current = m" "reconcile env m live f = (f, Ok (mutation_from doc False))"
        then show thesis
          using Some doc(4) by (intro same) simp_all
      next
        assume "reconcile env m live f = replace_locked env (doc\<lparr>doc_members := Some ?ms\<rparr>) f"
        then show thesis
          by (rule written) (use ms in simp_all)
      qed
    qed
  qed
qed

lemma remove_cases:
  assumes ok: "reg_ok f"
  obtains (refused) e where "remove env dir live f = (f, Err e)" and "\<And>step. e \<noteq> WriteFailed step"
  | (same) mu where "remove env dir live f = (f, Ok mu)" and "registered f dir = None"
  | (written) doc ms where "remove env dir live f = replace_locked env doc f"
      and "doc_members doc = Some ms" and "valid_rows ms" and "list_all utf8_member ms"
      and "row_map ms = (registered f)(dir := None)"
proof -
  obtain doc where doc: "read_locked f = Ok doc" "valid_rows (doc_rows doc)"
    "list_all utf8_member (doc_rows doc)" "registered f = row_map (doc_rows doc)"
    using reg_ok_read [OF ok] by metis
  have dist: "distinct (map config_dir (doc_rows doc))"
    using doc(2) by (simp add: valid_rows_def strict_sorted_on_iff)
  let ?ms = "drop_row dir (doc_rows doc)"
  have ms: "valid_rows ?ms" "list_all utf8_member ?ms" "row_map ?ms = (registered f)(dir := None)"
    using doc dist by (simp_all add: valid_rows_drop_row drop_row_utf8 row_map_drop_row)
  show thesis
  proof (cases "canonical dir")
    case False
    then show thesis
      by (intro refused [of "NotCanonical ''config_dir'' dir"])
         (auto simp: remove_def validate_canonical_config_dir_def validate_canonical_path_def
            canonical_def)
  next
    case True
    then have v: "validate_canonical_config_dir dir = None"
      by (simp add: validate_canonical_config_dir_def)
    have "(\<exists>owner. remove env dir live f = (f, Err (stop_required dir owner)))
          \<or> row_map (doc_rows doc) dir = None \<and> remove env dir live f = (f, Ok (mutation_from doc False))
          \<or> remove env dir live f = replace_locked env (doc\<lparr>doc_members := Some ?ms\<rparr>) f"
      by (auto simp: remove_def v doc row_map_find split: option.split)
    then show thesis
    proof (elim disjE exE conjE)
      fix owner
      assume "remove env dir live f = (f, Err (stop_required dir owner))"
      then show thesis
        by (rule refused) (simp add: stop_required_def)
    next
      assume "row_map (doc_rows doc) dir = None" "remove env dir live f = (f, Ok (mutation_from doc False))"
      then show thesis
        using doc(4) by (intro same) simp_all
    next
      assume "remove env dir live f = replace_locked env (doc\<lparr>doc_members := Some ?ms\<rparr>) f"
      then show thesis
        by (rule written) (use ms in simp_all)
    qed
  qed
qed

lemma op_cases:
  assumes "reg_ok f" and "op_admissible op"
  obtains (refused) "op_exec op f = f" and "\<not> op_took op f"
  | (same) "op_exec op f = f" and "op_took op f" and "registered f (op_key op) = op_val op"
  | (written) env doc ms where "op_exec op f = fst (replace_locked env doc f)"
      and "op_took op f = write_commits env"
      and "doc_members doc = Some ms" and "valid_rows ms" and "list_all utf8_member ms"
      and "row_map ms = (registered f)(op_key op := op_val op)"
proof (cases op)
  case (Reconcile env m live)
  with assms have "utf8_member m" by simp
  from assms(1) this show thesis
  proof (cases rule: reconcile_cases [of f m env live])
    case (refused e)
    then show thesis
      by (intro that(1)) (auto simp: Reconcile op_exec_def op_took_def split: reg_error.split)
  next
    case (same mu)
    then show thesis
      by (intro that(2)) (auto simp: Reconcile op_exec_def op_took_def)
  next
    case (written doc ms)
    then show thesis
      by (intro that(3) [of env doc ms]) (auto simp: Reconcile op_exec_def op_took_def replace_took)
  qed
next
  case (Remove env dir live)
  from assms(1) show thesis
  proof (cases rule: remove_cases [of f env dir live])
    case (refused e)
    then show thesis
      by (intro that(1)) (auto simp: Remove op_exec_def op_took_def split: reg_error.split)
  next
    case (same mu)
    then show thesis
      by (intro that(2)) (auto simp: Remove op_exec_def op_took_def)
  next
    case (written doc ms)
    then show thesis
      by (intro that(3) [of env doc ms]) (auto simp: Remove op_exec_def op_took_def replace_took)
  qed
qed

interpretation registry: durable_store reg_ok registered op_admissible op_exec op_took op_key op_val
proof unfold_locales
  fix f op
  assume a: "reg_ok f" "op_admissible op"
  from a show "reg_ok (op_exec op f)"
    by (cases rule: op_cases) (use a in \<open>simp_all add: replace_locked_rows\<close>)
  from a show "registered (op_exec op f) =
      (if op_took op f then (registered f)(op_key op := op_val op) else registered f)"
    by (cases rule: op_cases) (auto simp: replace_locked_rows)
qed

section \<open>Properties\<close>

lemma reg_ok_is_ok: "reg_ok f \<Longrightarrow> is_ok (read_locked f)"
  by (erule reg_ok_read) simp

definition demo_env :: write_env where
  "demo_env = \<lparr>random_bytes = Some (replicate 16 255), failing_step = None\<rparr>"

definition demo_member :: member where
  "demo_member = \<lparr>config_dir = ''/w/a'', source_cwd = ''/w'', jvm_pool = ''backend''\<rparr>"

definition demo_owner :: live_owner where
  "demo_owner = \<lparr>owner_pool = ''backend'', owner_host_id = ''host-1''\<rparr>"

lemma demo_member_utf8: "utf8_member demo_member"
  by (simp add: utf8_member_def demo_member_def utf8_valid_ascii)

lemma demo_member_valid: "validate_member demo_member = None"
  by (simp add: valid_member_def demo_member_def go_defs)
     (simp add: go_defs rune_chunks_Cons is_space_def)

lemma demo_reconcile_ok:
  obtains f' mu where "reconcile demo_env demo_member Map.empty Absent = (f', Ok mu)"
proof -
  obtain rv where "new_revision (random_bytes demo_env) = Some rv"
    by (cases "new_revision (random_bytes demo_env)") (simp_all add: demo_env_def)
  moreover have "failing_step demo_env = None"
    by (simp add: demo_env_def)
  ultimately show thesis
    by (intro that)
       (simp add: reconcile_def demo_member_valid empty_document_def doc_rows_def replace_locked_def
          atomic_write_def Let_def)
qed

text \<open>
  C31: starting from no file or one the registry can read, every sequence of \<open>Reconcile\<close> and
  \<open>Remove\<close> calls whose members have texts of valid UTF-8, whatever live ownership each sees and
  wherever a write fails, leaves a file that the registry can read back: right format, opaque
  revision, valid rows strictly sorted by directory.  The condition on the texts is needed, as
  \<open>non_utf8_path_breaks_registry\<close> shows.
\<close>

theorem registry_runs_readable:
  assumes "reg_ok f" and "list_all op_admissible ops"
  shows "reg_ok (fold op_exec ops f) \<and> is_ok (read_locked (fold op_exec ops f))"
  using registry.run_inv [OF assms] reg_ok_is_ok by blast

theorem registry_runs_readable_witness:
  "reg_ok (fold op_exec [Reconcile demo_env demo_member Map.empty, Remove demo_env ''/w/a'' Map.empty] Absent)"
  using registry_runs_readable
    [of Absent "[Reconcile demo_env demo_member Map.empty, Remove demo_env ''/w/a'' Map.empty]"]
  by (simp add: reg_ok_def demo_member_utf8)

text \<open>
  C32: on a registry file that can be read, a successful \<open>Reconcile\<close> of a member whose texts are valid
  UTF-8 refines the update of a map from directories to rows, and a successful \<open>Remove\<close> the deletion
  of a key; no other row changes.
\<close>

theorem registry_refines_map:
  assumes "reg_ok f"
  shows "(utf8_member m \<and> reconcile env m live f = (f', Ok mu)
            \<longrightarrow> registered f' = (registered f)(config_dir m \<mapsto> m))
         \<and> (remove env dir live f = (f'', Ok mu') \<longrightarrow> registered f'' = (registered f)(dir := None))"
  using registry.exec_view [OF assms, of "Reconcile env m live"]
    registry.exec_view [OF assms, of "Remove env dir live"]
  by (auto simp: op_exec_def op_took_def)

theorem registry_refines_map_witness:
  "\<exists>f' mu. reconcile demo_env demo_member Map.empty Absent = (f', Ok mu)
           \<and> registered f' = [''/w/a'' \<mapsto> demo_member]"
proof -
  obtain f' mu where step: "reconcile demo_env demo_member Map.empty Absent = (f', Ok mu)"
    by (rule demo_reconcile_ok)
  have "reg_ok Absent"
    by (simp add: reg_ok_def)
  from registry_refines_map [OF this, of demo_member demo_env Map.empty f' mu] step
  have "registered f' = (registered Absent)(config_dir demo_member \<mapsto> demo_member)"
    using demo_member_utf8 by blast
  with step show ?thesis
    by (simp add: registered_def demo_member_def)
qed

text \<open>
  An operation that reports an error leaves the registry file exactly as it was, unless the
  error is one of the two raised after the rename (opening or syncing the directory).
\<close>

theorem registry_errors_keep_file:
  "(case snd (op_result op f) of
      Inl e \<Rightarrow> (\<exists>step. e = WriteFailed step \<and> commits step) \<or> op_exec op f = f
    | Inr _ \<Rightarrow> True)"
proof -
  have rep: "snd (replace_locked env doc f) = Err e \<Longrightarrow>
        (\<exists>step. e = WriteFailed step \<and> commits step) \<or> fst (replace_locked env doc f) = f"
    for env doc e
    by (auto simp: replace_locked_def atomic_write_def Let_def split: option.splits if_splits)
  show ?thesis
    by (cases op)
       (auto simp: op_exec_def reconcile_def remove_def
             split: sum.splits option.splits if_splits dest: rep)
qed



text \<open>
  \<open>Snapshot\<close> returns exactly the registered rows of the pool, strictly sorted by directory,
  and only a blank name makes it fail.
\<close>

theorem snapshot_exact:
  assumes "reg_ok f" and "\<not> blank pool"
  shows "\<exists>sn. snapshot pool f = Ok sn \<and> snap_pool sn = pool
           \<and> set (snap_members sn) = {m. registered f (config_dir m) = Some m \<and> jvm_pool m = pool}
           \<and> strict_sorted_on config_dir (snap_members sn)"
proof -
  obtain doc where doc: "read_locked f = Ok doc" "valid_rows (doc_rows doc)"
    "registered f = row_map (doc_rows doc)"
    using reg_ok_read [OF assms(1)] by metis
  then have "distinct (map config_dir (doc_rows doc))"
    by (simp add: valid_rows_def strict_sorted_on_iff)
  with doc assms(2) show ?thesis
    by (auto simp: snapshot_def validate_pool_name_eq row_map_Some valid_rows_def
          strict_sorted_on_filter)
qed

theorem snapshot_exact_witness:
  "\<exists>sn. snapshot ''backend'' Absent = Ok sn \<and> set (snap_members sn) = {}"
proof -
  have "\<not> blank ''backend''"
    by (simp add: is_space_def)
  with snapshot_exact [of Absent "''backend''"] show ?thesis
    by (auto simp: reg_ok_def registered_def)
qed

definition member_matches :: "(string \<Rightarrow> (string, effective_config) result) \<Rightarrow> member \<Rightarrow> bool" where
  "member_matches resolve m \<longleftrightarrow>
     (\<exists>eff. resolve (config_dir m) = Ok eff
        \<and> eff_config_dir eff \<in> {[], config_dir m} \<and> eff_source_cwd eff \<in> {[], source_cwd m}
        \<and> eff_jvm_pool eff = Some (jvm_pool m))"

lemma member_failures_Nil:
  "\<not> blank (jvm_pool m) \<Longrightarrow> member_failures resolve m = [] \<longleftrightarrow> member_matches resolve m"
  by (auto simp: member_failures_def member_matches_def trim_space_empty_iff
           split: sum.splits option.splits if_splits)

text \<open>
  \<open>ValidatePool\<close> succeeds exactly when every registered member of the pool resolves to an
  effective configuration that names the same pool (and the same directories where it names any);
  on success it returns the same snapshot as \<open>Snapshot\<close>, never a part of it.
\<close>

theorem validate_pool_exact:
  assumes "reg_ok f"
  shows "validate_pool pool (Some resolve) f = Ok sn \<longleftrightarrow>
           snapshot pool f = Ok sn \<and> list_all (member_matches resolve) (snap_members sn)"
proof -
  obtain doc where doc: "read_locked f = Ok doc" "valid_rows (doc_rows doc)"
    using reg_ok_read [OF assms] by metis
  then have "\<forall>m \<in> set (doc_rows doc). \<not> blank (jvm_pool m)"
    by (simp add: valid_rows_def valid_member_def)
  with doc show ?thesis
    by (auto simp: validate_pool_def snapshot_def validate_pool_name_eq Let_def list_all_iff
          member_failures_Nil)
qed


lemma version_nibble: "unat ((x AND 0x0f) OR 0x40 :: 8 word) div 16 = 4"
proof -
  have "drop_bit 4 ((x AND 0x0f) OR 0x40) = (4 :: 8 word)"
    by (simp add: drop_bit_and drop_bit_or)
  then have "unat (drop_bit 4 ((x AND 0x0f) OR 0x40)) = 4"
    by simp
  then show ?thesis
    by (simp add: unsigned_drop_bit_eq drop_bit_eq_div unat_div)
qed

lemma variant_nibble: "unat ((x AND 0x3f) OR 0x80 :: 8 word) div 16 \<in> {8, 9, 10, 11}"
proof -
  let ?y = "take_bit 2 (drop_bit 4 x) :: 8 word"
  have "drop_bit 4 ((x AND 0x3f) OR 0x80) = ?y OR 8"
    by (simp add: drop_bit_and drop_bit_or take_bit_eq_mask mask_eq_exp_minus_1)
  moreover have "unat ?y \<in> {0, 1, 2, 3}"
  proof -
    have "unat ?y < 2 ^ 2"
      unfolding unsigned_take_bit_eq by (rule take_bit_nat_less_exp)
    then show ?thesis
      by auto
  qed
  then have "unat (?y OR 8) \<in> {8, 9, 10, 11}"
    unfolding unsigned_or_eq by auto
  ultimately have "unat (drop_bit 4 ((x AND 0x3f) OR 0x80)) \<in> {8, 9, 10, 11}"
    by simp
  then show ?thesis
    by (simp add: unsigned_drop_bit_eq drop_bit_eq_div unat_div)
qed

theorem validate_pool_exact_witness:
  "validate_pool ''backend'' (Some (\<lambda>_. Err ''gone'')) Absent =
     Ok \<lparr>snap_pool = ''backend'', snap_revision = [], snap_members = []\<rparr>"
proof -
  have "\<not> blank ''backend''"
    by (simp add: is_space_def)
  then have "snapshot ''backend'' Absent =
      Ok \<lparr>snap_pool = ''backend'', snap_revision = [], snap_members = []\<rparr>"
    by (simp add: snapshot_def validate_pool_name_eq empty_document_def doc_rows_def)
  with validate_pool_exact [of Absent "''backend''" "\<lambda>_. Err ''gone''"] show ?thesis
    by (simp add: reg_ok_def)
qed

text \<open>
  a fresh revision is \<open>membership-\<close> followed by a version 4 UUID: 36 characters, dashes at
  the usual places, version digit 4 and variant digit 8, 9, a or b.
\<close>

theorem new_revision_uuid:
  assumes "length raw = 16"
  shows "\<exists>uuid. new_revision (Some raw) = Some (''membership-'' @ uuid) \<and> length uuid = 36
     \<and> (\<forall>i \<in> {8, 13, 18, 23}. uuid ! i = CHR ''-'')
     \<and> uuid ! 14 = CHR ''4'' \<and> uuid ! 19 \<in> set ''89ab''"
proof -
  obtain b0 b1 b2 b3 b4 b5 b6 b7 b8 b9 b10 b11 b12 b13 b14 b15 where
    raw: "raw = [b0, b1, b2, b3, b4, b5, b6, b7, b8, b9, b10, b11, b12, b13, b14, b15]"
    using assms by (auto simp: numeral_eq_Suc length_Suc_conv)
  have "hex_digit (unat ((b8 AND 0x3f) OR 0x80) div 16) \<in> set ''89ab''"
    using variant_nibble [of b8] by (auto simp: hex_digit_def)
  moreover have "hex_digit (unat ((b6 AND 0x0f) OR 0x40) div 16) = CHR ''4''"
    by (simp only: version_nibble) (simp add: hex_digit_def)
  ultimately show ?thesis
    by (simp add: raw new_revision_def hex_encode_def Let_def)
qed

theorem new_revision_uuid_witness:
  "\<exists>uuid. new_revision (Some (replicate 16 255)) = Some (''membership-'' @ uuid) \<and> length uuid = 36"
  using new_revision_uuid [of "replicate 16 255"] by auto

definition odd_member :: member where
  "odd_member = \<lparr>config_dir = ''/a'' @ [CHR 0xFF], source_cwd = ''/'', jvm_pool = ''p''\<rparr>"

lemma odd_member_valid: "validate_member odd_member = None"
  by (simp add: valid_member_def odd_member_def go_defs)
     (simp add: go_defs rune_chunks_Cons is_space_def)

lemma odd_member_encoded:
  "encode_member odd_member = \<lparr>config_dir = ''/a'' @ [CHR 0xEF, CHR 0xBF, CHR 0xBD], source_cwd = ''/'', jvm_pool = ''p''\<rparr>"
  by (simp add: encode_member_def odd_member_def utf8_coerce_def rune_chunks_Cons rune_error_def)


text \<open>
  The registry assumes directories are valid UTF-8.  A directory whose name holds a byte that
  is not is accepted and written as another name; registering the same workspace a second time
  succeeds too, and then no operation can read the registry any more.
\<close>

theorem non_utf8_path_breaks_registry:
  "let f1 = op_exec (Reconcile demo_env odd_member Map.empty) Absent;
       f2 = op_exec (Reconcile demo_env odd_member Map.empty) f1
   in is_ok (snd (op_result (Reconcile demo_env odd_member Map.empty) Absent))
      \<and> is_ok (snd (op_result (Reconcile demo_env odd_member Map.empty) f1))
      \<and> read_locked f2 = Err (DuplicateMember (''/a'' @ [CHR 0xEF, CHR 0xBF, CHR 0xBD]))"
proof -
  let ?coerced = "encode_member odd_member"
  obtain rv where rv: "new_revision (random_bytes demo_env) = Some rv"
    by (cases "new_revision (random_bytes demo_env)") (simp_all add: demo_env_def)
  have env: "failing_step demo_env = None"
    by (simp add: demo_env_def)
  have rv': "has_prefix rv ''membership-''" "rv \<noteq> []" "utf8_valid rv"
    using new_revision_Some [OF rv] by (auto simp: has_prefix_def)
  let ?doc = "\<lambda>ms. \<lparr>doc_format = membership_format, doc_revision = rv, doc_members = Some ms\<rparr>"
  have fmt: "utf8_coerce membership_format = membership_format"
    by (intro utf8_coerce_valid utf8_valid_ascii) (simp add: membership_format_def)
  have f1: "reconcile demo_env odd_member Map.empty Absent =
     (Holds (?doc [?coerced]), Ok (mutation_from (?doc [odd_member]) True))"
    using rv' by (simp add: reconcile_def odd_member_valid empty_document_def doc_rows_def rv env
        replace_locked_def atomic_write_def Let_def encode_document_def fmt sort_members_def)
  have cv: "validate_member ?coerced = None"
    unfolding odd_member_encoded
    by (simp add: valid_member_def go_defs) (simp add: go_defs rune_chunks_Cons is_space_def cont_def Let_def)
  have idem: "encode_member ?coerced = ?coerced"
    unfolding odd_member_encoded
    by (simp add: encode_member_def utf8_coerce_def rune_chunks_Cons rune_error_def cont_def)
  have r1: "read_locked (Holds (?doc [?coerced])) = Ok (?doc [?coerced])"
    using rv' by (simp add: validate_document_def cv)
  have ne: "config_dir ?coerced \<noteq> config_dir odd_member" "config_dir ?coerced \<le> config_dir odd_member"
    unfolding odd_member_encoded by (simp_all add: odd_member_def)
  have f2: "reconcile demo_env odd_member Map.empty (Holds (?doc [?coerced])) =
     (Holds (?doc [?coerced, ?coerced]), Ok (mutation_from (?doc [?coerced, odd_member]) True))"
    using rv' ne by (simp add: reconcile_def odd_member_valid r1 doc_rows_def rv env idem
        replace_locked_def atomic_write_def Let_def encode_document_def fmt sort_members_def
        del: read_locked.simps)
  have "read_locked (Holds (?doc [?coerced, ?coerced])) = Err (DuplicateMember (config_dir ?coerced))"
    using rv' by (simp add: validate_document_def cv)
  moreover have "config_dir ?coerced = ''/a'' @ [CHR 0xEF, CHR 0xBF, CHR 0xBD]"
    by (simp add: odd_member_encoded)
  ultimately show ?thesis
    by (simp add: op_exec_def f1 f2 Let_def del: read_locked.simps)
qed

end
