(* ===== verification/Json.thy ===== *)
theory Json
  imports Prelude
begin

text \<open>
  Values of Go's \<open>any\<close> as \<open>encoding/json\<close> delivers and accepts them.

  A number is kept as the text the encoder prints for it.  An object is the list of its entries in
  the order a \<open>range\<close> over the Go map visits them, which Go leaves open: statements for all lists
  with distinct keys hold for every iteration order.  \<open>JOpaque shown err\<close> is a value the encoder
  refuses: what \<open>%v\<close> prints for it and the encoder's error.
\<close>

datatype json =
    JNull
  | JBool bool
  | JNum string
  | JStr string
  | JArr "json list"
  | JObj "(string \<times> json) list"
  | JOpaque string string

type_synonym object = "(string \<times> json) list"

text \<open>Type assertions \<open>v.(string)\<close> and \<open>v.(map[string]any)\<close> on an entry that may be absent.\<close>

fun as_string :: "json option \<Rightarrow> string option" where
  "as_string (Some (JStr s)) = Some s"
| "as_string _ = None"

fun as_object :: "json option \<Rightarrow> object option" where
  "as_object (Some (JObj o')) = Some o'"
| "as_object _ = None"

lemma as_string_Some [simp]: "as_string v = Some s \<longleftrightarrow> v = Some (JStr s)"
  by (cases v rule: as_string.cases) auto

lemma as_object_Some [simp]: "as_object v = Some ob \<longleftrightarrow> v = Some (JObj ob)"
  by (cases v rule: as_object.cases) auto

text \<open>The first key of an object outside a list of allowed keys.\<close>

fun unknown_key :: "string list \<Rightarrow> object \<Rightarrow> string option" where
  "unknown_key allowed [] = None"
| "unknown_key allowed ((k, v) # ob) = (if k \<in> set allowed then unknown_key allowed ob else Some k)"

lemma unknown_key_None [simp]: "unknown_key allowed ob = None \<longleftrightarrow> fst ` set ob \<subseteq> set allowed"
  by (induction ob) (auto split: if_splits)

lemma unknown_key_Some: "unknown_key allowed ob = Some k \<Longrightarrow> k \<in> fst ` set ob \<and> k \<notin> set allowed"
  by (induction ob) (auto split: if_splits)

end
