(* ===== verification/Custody.thy ===== *)
theory Custody
  imports Json
begin

text \<open>
  Process custody (\<open>cli/internal/process/custody.go\<close>): the store of process trees one Mill owns
  for a workspace.

  \<open>custody\<close> is the mutex-protected state.  Every function below is one critical section, so an
  interleaving of goroutines is a sequence of these sections; \<open>custody_step\<close> is the relation of
  all of them.  The wait goroutine of a row is made explicit by its program counter
  \<open>row_waiter\<close>, and the termination of a process tree, which runs outside the mutex, is in
  flight while \<open>row_tree\<close> is \<open>TreeOpen\<close>.  File-system and process calls deliver their outcome
  through arguments.
\<close>

section \<open>Data\<close>

record launch_spec =
  spec_argv :: "string list"
  spec_cwd :: string
  spec_env :: "(string \<times> string) list" \<comment> \<open>a map: keys are distinct\<close>
  spec_stdin :: "string option"

record exit_result =
  exit_code :: int
  exit_signal :: "string option"

datatype stop_kind = StopGraceful | StopForced | StopUncertain

record cancellation_result =
  cancel_reason :: string
  cancel_stop :: stop_kind
  observed_exit :: "exit_result option"

datatype phase = Starting | Running | Terminal

datatype tree_state = NoTree | TreeOpen | TreeClosed \<comment> \<open>\<open>treeDone\<close>: nil, open, closed\<close>

datatype waiter =
    NoWaiter \<comment> \<open>no goroutine was started\<close>
  | WaitBegin
  | Observing
  | AwaitTree "string option" \<comment> \<open>with the observer's error\<close>
  | Reaping "string option" \<comment> \<open>about to call \<open>cmd.Wait\<close>\<close>
  | Reaped "string option" \<comment> \<open>\<open>cmd.Wait\<close> returned: the leader is gone\<close>
  | Finished

record custody_row =
  row_handle :: string
  row_owner :: string
  row_key :: string
  row_phase :: phase
  row_output :: "string \<times> string"
  row_exit :: "exit_result option"
  row_cancellation :: "cancellation_result option"
  row_launch_failure :: "string option"
  row_spec :: launch_spec
  row_started :: bool \<comment> \<open>\<open>cmd.Process\<close> is not nil\<close>
  row_cancelled :: string
  row_stop :: "stop_kind option"
  row_done :: bool
  row_cleanup_err :: "string list"
  row_tree :: tree_state
  row_tree_err :: "string option"
  row_reap_claimed :: bool
  row_waiter :: waiter

record custody =
  custody_root :: string
  by_handle :: "(string \<times> custody_row) list"
  reservations :: "(string \<times> string) list"
  custody_closed :: bool

datatype custody_error =
    BlankRoot
  | RootUnavailable string
  | SpecNotObject
  | SpecUnknownField string
  | ArgvEmpty
  | ArgvBlank nat
  | CwdNotAbsolute
  | EnvNotObject
  | EnvKeyBlank
  | EnvValueNotString string
  | StdinNotString
  | OwnerKeyBlank
  | SpecIncomplete
  | SpecArgBlank nat
  | CwdNotDirectory
  | CwdUnavailable string
  | SpecEnvKeyBlank
  | CustodyClosed
  | AlreadyAcknowledged string string
  | ConflictingSpec string string
  | HandleFailed string
  | OutputDirFailed string
  | StdoutFailed string
  | StderrFailed string
  | UnknownHandle string
  | DifferentOwner
  | NotReaped string
  | CancelUnfinished string
  | CancelFailed string string
  | NotTerminal
  | RemoveFailed string

section \<open>Parsing a launch specification\<close>

fun parse_argv :: "nat \<Rightarrow> json list \<Rightarrow> (custody_error, string list) result" where
  "parse_argv i [] = Ok []"
| "parse_argv i (item # items) =
     (case as_string (Some item) of
        None \<Rightarrow> Err (ArgvBlank i)
      | Some text \<Rightarrow>
          if trim_space text = [] then Err (ArgvBlank i)
          else case parse_argv (Suc i) items of Inl e \<Rightarrow> Err e | Inr ts \<Rightarrow> Ok (text # ts))"

fun parse_env :: "object \<Rightarrow> (custody_error, (string \<times> string) list) result" where
  "parse_env [] = Ok []"
| "parse_env ((key, raw) # entries) =
     (if trim_space key = [] then Err EnvKeyBlank
      else case as_string (Some raw) of
             None \<Rightarrow> Err (EnvValueNotString key)
           | Some text \<Rightarrow>
               (case parse_env entries of Inl e \<Rightarrow> Err e | Inr env \<Rightarrow> Ok ((key, text) # env)))"

definition parse_launch_spec :: "object option \<Rightarrow> (custody_error, launch_spec) result" where
  "parse_launch_spec value =
     (case value of
        None \<Rightarrow> Err SpecNotObject
      | Some ob \<Rightarrow>
          (case unknown_key [''argv'', ''cwd'', ''env'', ''stdin''] ob of
             Some key \<Rightarrow> Err (SpecUnknownField key)
           | None \<Rightarrow>
               (case (case map_of ob ''argv'' of Some (JArr items) \<Rightarrow> items | _ \<Rightarrow> []) of
                  [] \<Rightarrow> Err ArgvEmpty
                | items \<Rightarrow>
                    (case parse_argv 0 items of
                       Inl e \<Rightarrow> Err e
                     | Inr argv \<Rightarrow>
                         (case as_string (map_of ob ''cwd'') of
                            None \<Rightarrow> Err CwdNotAbsolute
                          | Some cwd \<Rightarrow>
                              if \<not> is_abs cwd \<or> trim_space cwd = [] then Err CwdNotAbsolute
                              else
                                (case (case map_of ob ''env'' of
                                         None \<Rightarrow> Ok []
                                       | Some (JObj entries) \<Rightarrow> parse_env entries
                                       | Some _ \<Rightarrow> Err EnvNotObject) of
                                   Inl e \<Rightarrow> Err e
                                 | Inr env \<Rightarrow>
                                     (case map_of ob ''stdin'' of
                                        None \<Rightarrow> Ok \<lparr>spec_argv = argv, spec_cwd = cwd,
                                                   spec_env = env, spec_stdin = None\<rparr>
                                      | Some JNull \<Rightarrow> Ok \<lparr>spec_argv = argv, spec_cwd = cwd,
                                                   spec_env = env, spec_stdin = None\<rparr>
                                      | Some (JStr text) \<Rightarrow> Ok \<lparr>spec_argv = argv, spec_cwd = cwd,
                                                   spec_env = env, spec_stdin = Some text\<rparr>
                                      | Some _ \<Rightarrow> Err StdinNotString)))))))"

text \<open>Indexing a Go map yields the empty string for an absent key.\<close>

definition env_get :: "(string \<times> string) list \<Rightarrow> string \<Rightarrow> string" where
  "env_get env key = (case map_of env key of None \<Rightarrow> [] | Some v \<Rightarrow> v)"

definition same_spec :: "launch_spec \<Rightarrow> launch_spec \<Rightarrow> bool" where
  "same_spec a b \<longleftrightarrow>
     spec_cwd a = spec_cwd b \<and> length (spec_argv a) = length (spec_argv b)
     \<and> length (spec_env a) = length (spec_env b)
     \<and> (\<forall>(x, y) \<in> set (zip (spec_argv a) (spec_argv b)). x = y)
     \<and> (\<forall>(key, value) \<in> set (spec_env a). env_get (spec_env b) key = value)
     \<and> (case (spec_stdin a, spec_stdin b) of
          (Some x, Some y) \<Rightarrow> x = y
        | (None, None) \<Rightarrow> True
        | _ \<Rightarrow> False)"

datatype cwd_state = CwdDirectory | CwdOther | CwdMissing string

fun blank_arg :: "nat \<Rightarrow> string list \<Rightarrow> custody_error option" where
  "blank_arg i [] = None"
| "blank_arg i (arg # args) =
     (if trim_space arg = [] then Some (SpecArgBlank i) else blank_arg (Suc i) args)"

definition validate_launch_spec :: "cwd_state \<Rightarrow> launch_spec \<Rightarrow> custody_error option" where
  "validate_launch_spec cwd spec =
     (if spec_argv spec = [] \<or> spec_cwd spec = [] \<or> \<not> is_abs (spec_cwd spec) then Some SpecIncomplete
      else case blank_arg 0 (spec_argv spec) of
             Some e \<Rightarrow> Some e
           | None \<Rightarrow>
               (case cwd of
                  CwdOther \<Rightarrow> Some CwdNotDirectory
                | CwdMissing e \<Rightarrow> Some (CwdUnavailable e)
                | CwdDirectory \<Rightarrow>
                    if list_ex (\<lambda>(key, _). trim_space key = []) (spec_env spec)
                    then Some SpecEnvKeyBlank else None))"

text \<open>
  \<open>mergedEnv\<close>: the process environment with the additions over it, one \<open>key=value\<close> entry per key
  in key order.  An environment entry without \<open>=\<close> makes the code panic, the result \<open>None\<close>.
\<close>

fun environ_map :: "string list \<Rightarrow> (string \<times> string) list \<Rightarrow> (string \<times> string) list option" where
  "environ_map [] values = Some values"
| "environ_map (entry # entries) values =
     (case cut (CHR ''='') entry of
        (key, value, found) \<Rightarrow>
          if found then environ_map entries (AList.update key value values) else None)"

definition merged_env :: "string list \<Rightarrow> (string \<times> string) list \<Rightarrow> string list option" where
  "merged_env environ additions =
     (case environ_map environ [] of
        None \<Rightarrow> None
      | Some values \<Rightarrow>
          let merged = fold (\<lambda>(key, value). AList.update key value) additions values
          in Some (map (\<lambda>key. key @ ''='' @ env_get merged key) (sort (map fst merged))))"

section \<open>Stopping a process tree\<close>

text \<open>
  \<open>waitProcessGroupGone\<close> polls until the group has no live member or the time is over: each poll
  delivers the check's outcome and the time left after it.  \<open>None\<close>: the polls given end before
  the loop does.
\<close>

fun wait_process_group_gone :: "((string, bool) result \<times> int) list \<Rightarrow> (string, bool) result option" where
  "wait_process_group_gone [] = None"
| "wait_process_group_gone ((Inl e, remaining) # polls) = Some (Err e)"
| "wait_process_group_gone ((Inr live, remaining) # polls) =
     (if \<not> live then Some (Ok True)
      else if remaining \<le> 0 then Some (Ok False)
      else wait_process_group_gone polls)"

record terminate_env =
  term_signal :: "string option" \<comment> \<open>error of the SIGTERM\<close>
  term_wait :: "(string, bool) result"
  kill_signal :: "string option" \<comment> \<open>error of the SIGKILL\<close>
  kill_wait :: "(string, bool) result"

definition terminate_process_tree :: "terminate_env \<Rightarrow> stop_kind \<times> string option" where
  "terminate_process_tree env =
     (case term_signal env of
        Some e \<Rightarrow> (StopUncertain, Some e)
      | None \<Rightarrow>
          (case term_wait env of
             Inl e \<Rightarrow> (StopUncertain, Some e)
           | Inr True \<Rightarrow> (StopGraceful, None)
           | Inr False \<Rightarrow>
               (case kill_signal env of
                  Some e \<Rightarrow> (StopUncertain, Some e)
                | None \<Rightarrow>
                    (case kill_wait env of
                       Inl e \<Rightarrow> (StopUncertain, Some e)
                     | Inr False \<Rightarrow> (StopUncertain, Some ''process group survived SIGKILL'')
                     | Inr True \<Rightarrow> (StopForced, None)))))"

text \<open>\<open>exitResult\<close>: the wait status, or -1 when waiting failed without one.\<close>

definition exit_result_of :: "(int \<times> string option) option \<Rightarrow> string option \<Rightarrow> exit_result" where
  "exit_result_of process_state err =
     (case process_state of
        Some (code, signal) \<Rightarrow> \<lparr>exit_code = code, exit_signal = signal\<rparr>
      | None \<Rightarrow> \<lparr>exit_code = (if err \<noteq> None then -1 else 0), exit_signal = None\<rparr>)"

section \<open>Launching\<close>

definition new_custody :: "string option \<Rightarrow> string \<Rightarrow> (custody_error, custody) result" where
  "new_custody mkdir_err root =
     (if trim_space root = [] then Err BlankRoot
      else case mkdir_err of
             Some e \<Rightarrow> Err (RootUnavailable e)
           | None \<Rightarrow> Ok \<lparr>custody_root = root, by_handle = [], reservations = [],
                         custody_closed = False\<rparr>)"

definition lookup :: "custody \<Rightarrow> string \<rightharpoonup> custody_row" where
  "lookup c = map_of (by_handle c)"

definition reserved :: "custody \<Rightarrow> string \<rightharpoonup> string" where
  "reserved c = map_of (reservations c)"

definition reservation :: "string \<Rightarrow> string \<Rightarrow> string" where
  "reservation owner key = owner @ [CHR 0x00] @ key"

record launch_env =
  le_cwd :: cwd_state
  le_handle :: "(string, string) result"
  le_output_dir :: "string option" \<comment> \<open>error of \<open>os.MkdirAll\<close>\<close>
  le_stdout :: "string option"
  le_stderr :: "string option"
  le_start :: "string option" \<comment> \<open>error of \<open>cmd.Start\<close>\<close>

definition fresh_row :: "custody \<Rightarrow> string \<Rightarrow> string \<Rightarrow> string \<Rightarrow> launch_spec \<Rightarrow> custody_row" where
  "fresh_row c handle owner key spec =
     \<lparr>row_handle = handle, row_owner = owner, row_key = key, row_phase = Starting,
      row_output = (join_path [join_path [custody_root c, handle], ''stdout.log''],
                    join_path [join_path [custody_root c, handle], ''stderr.log'']),
      row_exit = None, row_cancellation = None, row_launch_failure = None, row_spec = spec,
      row_started = False, row_cancelled = [], row_stop = None, row_done = False,
      row_cleanup_err = [], row_tree = NoTree, row_tree_err = None, row_reap_claimed = False,
      row_waiter = NoWaiter\<rparr>"

definition start_row :: "string option \<Rightarrow> custody_row \<Rightarrow> custody_row" where
  "start_row start_err row =
     (case start_err of
        Some msg \<Rightarrow> row\<lparr>row_phase := Terminal, row_launch_failure := Some msg\<rparr>
      | None \<Rightarrow> row\<lparr>row_started := True, row_waiter := WaitBegin\<rparr>)"

definition launch ::
    "launch_env \<Rightarrow> string \<Rightarrow> string \<Rightarrow> launch_spec \<Rightarrow> custody
     \<Rightarrow> custody \<times> (custody_error, custody_row) result" where
  "launch env owner key spec c =
     (if trim_space owner = [] \<or> trim_space key = [] then (c, Err OwnerKeyBlank)
      else case validate_launch_spec (le_cwd env) spec of
        Some e \<Rightarrow> (c, Err e)
      | None \<Rightarrow>
          if custody_closed c then (c, Err CustodyClosed)
          else (case reserved c (reservation owner key) of
            Some handle \<Rightarrow>
              (case lookup c handle of
                 None \<Rightarrow> (c, Err (AlreadyAcknowledged key owner))
               | Some row \<Rightarrow>
                   if \<not> same_spec (row_spec row) spec then (c, Err (ConflictingSpec key owner))
                   else (c, Ok row))
          | None \<Rightarrow>
              (case le_handle env of
                 Inl e \<Rightarrow> (c, Err (HandleFailed e))
               | Inr handle \<Rightarrow>
                   (case le_output_dir env of
                      Some e \<Rightarrow> (c, Err (OutputDirFailed e))
                    | None \<Rightarrow>
                        (case le_stdout env of
                           Some e \<Rightarrow> (c, Err (StdoutFailed e))
                         | None \<Rightarrow>
                             (case le_stderr env of
                                Some e \<Rightarrow> (c, Err (StderrFailed e))
                              | None \<Rightarrow>
                                  let row = start_row (le_start env) (fresh_row c handle owner key spec)
                                  in (c\<lparr>by_handle := AList.update handle row (by_handle c),
                                         reservations := AList.update (reservation owner key) handle
                                                           (reservations c)\<rparr>,
                                      Ok row)))))))"

section \<open>The wait goroutine\<close>

definition update_row :: "string \<Rightarrow> (custody_row \<Rightarrow> custody_row) \<Rightarrow> custody \<Rightarrow> custody" where
  "update_row handle f c = c\<lparr>by_handle := AList.map_entry handle f (by_handle c)\<rparr>"

definition wait_begin :: "custody_row \<Rightarrow> custody_row" where
  "wait_begin row =
     row\<lparr>row_phase := (if row_cancelled row = [] then Running else row_phase row),
         row_waiter := Observing\<rparr>"

definition wait_observe_failed :: "string \<Rightarrow> custody_row \<Rightarrow> custody_row" where
  "wait_observe_failed e row =
     row\<lparr>row_waiter := (if row_tree row = NoTree then Reaping (Some e) else AwaitTree (Some e))\<rparr>"

definition wait_observed :: "custody_row \<Rightarrow> custody_row" where
  "wait_observed row =
     (if row_cancelled row = [] then row\<lparr>row_reap_claimed := True, row_waiter := Reaping None\<rparr>
      else row\<lparr>row_waiter := (if row_tree row = NoTree then Reaping None else AwaitTree None)\<rparr>)"

definition finish_wait ::
    "(int \<times> string option) option \<Rightarrow> string option \<Rightarrow> string list \<Rightarrow> custody_row \<Rightarrow> custody_row" where
  "finish_wait process_state wait_err cleanup row =
     (let result = exit_result_of process_state wait_err;
          row' = (if row_cancelled row \<noteq> [] then
                    row\<lparr>row_phase := Terminal, row_exit := None,
                        row_cancellation := Some
                          \<lparr>cancel_reason = row_cancelled row,
                           cancel_stop = (case row_stop row of None \<Rightarrow> StopUncertain | Some k \<Rightarrow> k),
                           observed_exit = Some result\<rparr>\<rparr>
                  else
                    row\<lparr>row_phase := Terminal, row_cancellation := None, row_exit := Some result\<rparr>)
      in row'\<lparr>row_cleanup_err := cleanup, row_done := True, row_waiter := Finished\<rparr>)"

section \<open>Queries, cancellation, acknowledgement, shutdown\<close>

definition get :: "string \<Rightarrow> custody \<Rightarrow> (custody_error, custody_row) result" where
  "get handle c = (case lookup c handle of None \<Rightarrow> Err (UnknownHandle handle) | Some row \<Rightarrow> Ok row)"

definition list_owned :: "string \<Rightarrow> custody \<Rightarrow> custody_row list" where
  "list_owned owner c = filter (\<lambda>row. row_owner row = owner) (map snd (by_handle c))"

datatype cancel_next =
    CancelRefused custody_error
  | CancelSettled custody_row
  | CancelAwaitReap custody_row
  | CancelTerminate custody_row
  | CancelAwaitTree custody_row

text \<open>The first critical section of \<open>Cancel\<close>: what to do, with the row marked if it starts.\<close>

definition cancel_row :: "custody_row \<Rightarrow> custody_row" where
  "cancel_row row =
     (if row_cancelled row = [] then
        (if row_started row
         then row\<lparr>row_cancelled := ''cancelled by owner'', row_tree := TreeOpen\<rparr>
         else row\<lparr>row_cancelled := ''cancelled by owner''\<rparr>)
      else row)"

definition cancel_begin :: "string \<Rightarrow> string \<Rightarrow> custody \<Rightarrow> custody \<times> cancel_next" where
  "cancel_begin owner handle c =
     (case lookup c handle of
        None \<Rightarrow> (c, CancelRefused (UnknownHandle handle))
      | Some row \<Rightarrow>
          if row_owner row \<noteq> owner then (c, CancelRefused DifferentOwner)
          else if row_phase row = Terminal \<and> row_tree row = NoTree then (c, CancelSettled row)
          else if row_reap_claimed row then (c, CancelAwaitReap row)
          else
            (update_row handle cancel_row c,
             if row_cancelled row = [] then
               (if row_started row then CancelTerminate row else CancelSettled row)
             else if row_tree row \<noteq> NoTree then CancelAwaitTree row
             else CancelSettled row))"

text \<open>The end of a tree termination, started by \<open>Cancel\<close> or by \<open>Shutdown\<close>.\<close>

definition tree_end :: "stop_kind \<Rightarrow> string option \<Rightarrow> custody_row \<Rightarrow> custody_row" where
  "tree_end stop err row = row\<lparr>row_tree_err := err, row_stop := Some stop, row_tree := TreeClosed\<rparr>"

text \<open>
  The rest of \<open>Cancel\<close> when nothing else runs in between: the tree is terminated, or the wait for
  another section's completion ends (\<open>timed_out\<close>: with its deadline).
\<close>

definition cancel ::
    "terminate_env \<Rightarrow> bool \<Rightarrow> string \<Rightarrow> string \<Rightarrow> custody
     \<Rightarrow> custody \<times> (custody_error, custody_row) result" where
  "cancel env timed_out owner handle c =
     (case cancel_begin owner handle c of
        (c1, CancelRefused e) \<Rightarrow> (c1, Err e)
      | (c1, CancelSettled row) \<Rightarrow> (c1, Ok row)
      | (c1, CancelAwaitReap row) \<Rightarrow> (c1, if timed_out then Err (NotReaped handle) else get handle c1)
      | (c1, CancelTerminate row) \<Rightarrow>
          (case terminate_process_tree env of
             (stop, err) \<Rightarrow>
               (update_row handle (tree_end stop err) c1,
                case err of Some e \<Rightarrow> Err (CancelFailed handle e) | None \<Rightarrow> Ok row))
      | (c1, CancelAwaitTree row) \<Rightarrow>
          (c1, if timed_out then Err (CancelUnfinished handle)
               else case row_tree_err row of
                      Some e \<Rightarrow> Err (CancelFailed handle e)
                    | None \<Rightarrow> Ok row))"

definition acknowledge ::
    "string option \<Rightarrow> string \<Rightarrow> string \<Rightarrow> custody \<Rightarrow> custody \<times> (custody_error, unit) result" where
  "acknowledge remove_err owner handle c =
     (case lookup c handle of
        None \<Rightarrow> (c, Err (UnknownHandle handle))
      | Some row \<Rightarrow>
          if row_owner row \<noteq> owner then (c, Err DifferentOwner)
          else if row_phase row \<noteq> Terminal then (c, Err NotTerminal)
          else (case remove_err of
                  Some e \<Rightarrow> (c, Err (RemoveFailed e))
                | None \<Rightarrow> (c\<lparr>by_handle := AList.delete handle (by_handle c)\<rparr>, Ok ())))"

definition shutdown_row :: "custody_row \<Rightarrow> custody_row" where
  "shutdown_row row =
     (if row_phase row = Terminal \<or> row_reap_claimed row then row
      else row\<lparr>row_cancelled := (if row_cancelled row = [] then ''Mill shutdown'' else row_cancelled row),
               row_tree := (if row_started row \<and> row_tree row = NoTree then TreeOpen else row_tree row)\<rparr>)"

text \<open>The first critical section of \<open>Shutdown\<close>; the tree terminations it starts end with \<open>tree_end\<close>.\<close>

definition shutdown_begin :: "custody \<Rightarrow> custody" where
  "shutdown_begin c =
     c\<lparr>custody_closed := True, by_handle := map (\<lambda>(h, row). (h, shutdown_row row)) (by_handle c)\<rparr>"

datatype shutdown_failure =
    TreeCleanupFailed string string
  | NotTerminalized string
  | WrongPhase string
  | OutputCleanupFailed string "string list"

definition shutdown_waits :: "custody_row \<Rightarrow> bool" where
  "shutdown_waits row \<longleftrightarrow> row_phase row \<noteq> Terminal"

text \<open>What \<open>Shutdown\<close> reports for one row it waited for, read when the wait is over.\<close>

definition shutdown_failures :: "custody_row \<Rightarrow> shutdown_failure list" where
  "shutdown_failures row =
     (case row_tree_err row of
        Some e \<Rightarrow> [TreeCleanupFailed (row_handle row) e] | None \<Rightarrow> [])
     @ (if \<not> row_done row then [NotTerminalized (row_handle row)]
        else (if row_phase row \<noteq> Terminal then [WrongPhase (row_handle row)] else [])
             @ (if row_cleanup_err row \<noteq> []
                then [OutputCleanupFailed (row_handle row) (row_cleanup_err row)] else []))"

section \<open>All interleavings\<close>

text \<open>
  One rule per critical section.  \<open>obs\<close> says whether the exit observer may fail.  A fresh handle
  is 128 random bits: the rule for \<open>launch\<close> takes it to differ from every handle in use or
  reserved before.
\<close>

definition handle_fresh :: "launch_env \<Rightarrow> custody \<Rightarrow> bool" where
  "handle_fresh env c \<longleftrightarrow>
     (case le_handle env of Inl _ \<Rightarrow> True | Inr h \<Rightarrow> lookup c h = None \<and> h \<notin> ran (reserved c))"

inductive custody_step :: "bool \<Rightarrow> custody \<Rightarrow> custody \<Rightarrow> bool" for obs :: bool where
  launched:
    "handle_fresh env c \<Longrightarrow>
     custody_step obs c (fst (launch env owner key spec c))"
| began: "lookup c h = Some r \<Longrightarrow> row_waiter r = WaitBegin \<Longrightarrow> custody_step obs c (update_row h wait_begin c)"
| observed: "lookup c h = Some r \<Longrightarrow> row_waiter r = Observing \<Longrightarrow> custody_step obs c (update_row h wait_observed c)"
| unobserved: "obs \<Longrightarrow> lookup c h = Some r \<Longrightarrow> row_waiter r = Observing \<Longrightarrow>
     custody_step obs c (update_row h (wait_observe_failed e) c)"
| tree_awaited: "lookup c h = Some r \<Longrightarrow> row_waiter r = AwaitTree e \<Longrightarrow> row_tree r = TreeClosed \<Longrightarrow>
     custody_step obs c (update_row h (\<lambda>r. r\<lparr>row_waiter := Reaping e\<rparr>) c)"
| reaped: "lookup c h = Some r \<Longrightarrow> row_waiter r = Reaping e \<Longrightarrow>
     custody_step obs c (update_row h (\<lambda>r. r\<lparr>row_waiter := Reaped e\<rparr>) c)"
| finished: "lookup c h = Some r \<Longrightarrow> row_waiter r = Reaped e \<Longrightarrow>
     custody_step obs c (update_row h (finish_wait ps werr ((case e of None \<Rightarrow> [] | Some x \<Rightarrow> [x]) @ closes)) c)"
| cancelling: "custody_step obs c (fst (cancel_begin owner h c))"
| tree_ended: "lookup c h = Some r \<Longrightarrow> row_tree r = TreeOpen \<Longrightarrow> terminate_process_tree env = (stop, err) \<Longrightarrow>
     custody_step obs c (update_row h (tree_end stop err) c)"
| acknowledged: "custody_step obs c (fst (acknowledge remove_err owner h c))"
| shut_down: "custody_step obs c (shutdown_begin c)"

inductive custody_reachable :: "bool \<Rightarrow> custody \<Rightarrow> bool" for obs :: bool where
  init: "new_custody None root = Ok c \<Longrightarrow> custody_reachable obs c"
| step: "custody_reachable obs c \<Longrightarrow> custody_step obs c c' \<Longrightarrow> custody_reachable obs c'"

section \<open>Facts on the operations\<close>

lemma lookup_update_row:
  "lookup (update_row h f c) k = (if k = h then map_option f (lookup c h) else lookup c k)"
proof -
  have "map_of (AList.map_entry h f xs) k = (if k = h then map_option f (map_of xs h) else map_of xs k)"
    for xs :: "(string \<times> custody_row) list"
    by (induction xs) auto
  then show ?thesis
    by (simp add: lookup_def update_row_def)
qed

lemma reserved_update_row [simp]: "reserved (update_row h f c) = reserved c"
  by (simp add: reserved_def update_row_def)

lemma lookup_shutdown: "lookup (shutdown_begin c) k = map_option shutdown_row (lookup c k)"
  by (simp add: lookup_def shutdown_begin_def map_of_map case_prod_beta)

lemma reserved_shutdown [simp]: "reserved (shutdown_begin c) = reserved c"
  by (simp add: reserved_def shutdown_begin_def)

lemma cancel_begin_state:
  "fst (cancel_begin owner h c) = c
   \<or> (\<exists>r. lookup c h = Some r \<and> \<not> row_reap_claimed r \<and> \<not> (row_phase r = Terminal \<and> row_tree r = NoTree)
        \<and> fst (cancel_begin owner h c) = update_row h cancel_row c)"
  by (cases "lookup c h") (simp_all add: cancel_begin_def)

lemma acknowledge_state:
  "fst (acknowledge err owner h c) = c
   \<or> (\<exists>r. lookup c h = Some r \<and> row_phase r = Terminal
        \<and> fst (acknowledge err owner h c) = c\<lparr>by_handle := AList.delete h (by_handle c)\<rparr>)"
  by (cases "lookup c h"; cases err) (simp_all add: acknowledge_def)

lemma launch_state:
  "fst (launch env owner key spec c) = c
   \<or> (\<exists>h. le_handle env = Inr h \<and> reserved c (reservation owner key) = None
        \<and> fst (launch env owner key spec c) =
             c\<lparr>by_handle := AList.update h (start_row (le_start env) (fresh_row c h owner key spec)) (by_handle c),
               reservations := AList.update (reservation owner key) h (reservations c)\<rparr>)"
  by (simp add: launch_def Let_def split: option.split sum.split)

section \<open>The invariant\<close>

text \<open>What the fields of one row say about each other, whichever goroutine moved last.\<close>

definition row_inv :: "string \<Rightarrow> custody_row \<Rightarrow> bool" where
  "row_inv h r \<longleftrightarrow>
     row_handle r = h
     \<and> (row_started r \<longleftrightarrow> row_waiter r \<noteq> NoWaiter)
     \<and> (row_phase r = Terminal \<longleftrightarrow> row_waiter r \<in> {NoWaiter, Finished})
     \<and> (row_done r \<longleftrightarrow> row_waiter r = Finished)
     \<and> (row_cancelled r = [] \<longleftrightarrow> row_tree r = NoTree)
     \<and> (row_reap_claimed r \<longrightarrow> row_cancelled r = [] \<and> row_waiter r \<in> {Reaping None, Reaped None, Finished})
     \<and> (case row_waiter r of
          NoWaiter \<Rightarrow> row_launch_failure r \<noteq> None \<and> row_exit r = None \<and> row_cancellation r = None
                      \<and> row_cancelled r = []
        | Finished \<Rightarrow> row_launch_failure r = None
            \<and> (row_cancelled r = [] \<longrightarrow> row_exit r \<noteq> None \<and> row_cancellation r = None)
            \<and> (row_cancellation r \<noteq> None \<longrightarrow> row_cancelled r \<noteq> [])
            \<and> (row_exit r = None \<longleftrightarrow> row_cancellation r \<noteq> None)
        | AwaitTree _ \<Rightarrow> row_tree r \<noteq> NoTree \<and> row_launch_failure r = None \<and> row_exit r = None
            \<and> row_cancellation r = None
        | _ \<Rightarrow> row_launch_failure r = None \<and> row_exit r = None \<and> row_cancellation r = None)"

definition custody_inv :: "custody \<Rightarrow> bool" where
  "custody_inv c \<longleftrightarrow>
     distinct (map fst (by_handle c))
     \<and> inj_on (reserved c) (dom (reserved c))
     \<and> (\<forall>h r. lookup c h = Some r \<longrightarrow>
          row_inv h r \<and> reserved c (reservation (row_owner r) (row_key r)) = Some h)"


lemma lookup_delete: "lookup (c\<lparr>by_handle := AList.delete h (by_handle c)\<rparr>) k = (if k = h then None else lookup c k)"
  by (simp add: lookup_def delete_conv)

lemma lookup_insert:
  "lookup (c\<lparr>by_handle := AList.update h r (by_handle c), reservations := rs\<rparr>) k
   = (if k = h then Some r else lookup c k)"
  by (simp add: lookup_def update_conv)

lemma reserved_insert:
  "reserved (c\<lparr>by_handle := bs, reservations := AList.update k h (reservations c)\<rparr>)
   = (reserved c)(k \<mapsto> h)"
  by (simp add: reserved_def update_conv')

lemma row_inv_fresh: "row_inv h (start_row e (fresh_row c h owner key spec))"
  by (cases e) (simp_all add: row_inv_def start_row_def fresh_row_def)

lemma row_inv_wait_begin: "row_inv h r \<Longrightarrow> row_waiter r = WaitBegin \<Longrightarrow> row_inv h (wait_begin r)"
  by (auto simp: row_inv_def wait_begin_def)

lemma row_inv_observed: "row_inv h r \<Longrightarrow> row_waiter r = Observing \<Longrightarrow> row_inv h (wait_observed r)"
  by (auto simp: row_inv_def wait_observed_def)

lemma row_inv_unobserved:
  "row_inv h r \<Longrightarrow> row_waiter r = Observing \<Longrightarrow> row_inv h (wait_observe_failed e r)"
  by (auto simp: row_inv_def wait_observe_failed_def)

lemma row_inv_reaping:
  "row_inv h r \<Longrightarrow> row_waiter r = AwaitTree e \<Longrightarrow> row_inv h (r\<lparr>row_waiter := Reaping e\<rparr>)"
  by (auto simp: row_inv_def)

lemma row_inv_reaped:
  "row_inv h r \<Longrightarrow> row_waiter r = Reaping e \<Longrightarrow> row_inv h (r\<lparr>row_waiter := Reaped e\<rparr>)"
  by (auto simp: row_inv_def)

lemma row_inv_finish:
  "row_inv h r \<Longrightarrow> row_waiter r = Reaped e \<Longrightarrow> row_inv h (finish_wait ps werr cl r)"
  by (auto simp: row_inv_def finish_wait_def Let_def)

lemma row_inv_cancel:
  "row_inv h r \<Longrightarrow> \<not> row_reap_claimed r \<Longrightarrow> \<not> (row_phase r = Terminal \<and> row_tree r = NoTree)
   \<Longrightarrow> row_inv h (cancel_row r)"
  by (auto simp: row_inv_def cancel_row_def split: waiter.splits)

lemma row_inv_tree_end: "row_inv h r \<Longrightarrow> row_tree r = TreeOpen \<Longrightarrow> row_inv h (tree_end stop err r)"
  by (auto simp: row_inv_def tree_end_def split: waiter.splits)

lemma row_inv_shutdown: "row_inv h r \<Longrightarrow> row_inv h (shutdown_row r)"
  by (auto simp: row_inv_def shutdown_row_def split: waiter.splits)


section \<open>Invariants of rows\<close>

text \<open>
  The contract of a predicate on rows that every critical section keeps.  Its consequence: the
  predicate holds of every row of every reachable custody.
\<close>

locale row_contract =
  fixes obs :: bool and I :: "string \<Rightarrow> custody_row \<Rightarrow> bool"
  assumes fresh: "I h (start_row e (fresh_row c h owner key spec))"
    and waiting: "I h r \<Longrightarrow> row_waiter r = WaitBegin \<Longrightarrow> I h (wait_begin r)"
    and observing: "I h r \<Longrightarrow> row_waiter r = Observing \<Longrightarrow> I h (wait_observed r)"
    and failing: "obs \<Longrightarrow> I h r \<Longrightarrow> row_waiter r = Observing \<Longrightarrow> I h (wait_observe_failed e' r)"
    and awaiting: "I h r \<Longrightarrow> row_waiter r = AwaitTree e \<Longrightarrow> row_tree r = TreeClosed
                   \<Longrightarrow> I h (r\<lparr>row_waiter := Reaping e\<rparr>)"
    and reaping: "I h r \<Longrightarrow> row_waiter r = Reaping e \<Longrightarrow> I h (r\<lparr>row_waiter := Reaped e\<rparr>)"
    and finishing: "I h r \<Longrightarrow> row_waiter r = Reaped e
                    \<Longrightarrow> I h (finish_wait ps werr ((case e of None \<Rightarrow> [] | Some x \<Rightarrow> [x]) @ closes) r)"
    and cancelled: "I h r \<Longrightarrow> \<not> row_reap_claimed r \<Longrightarrow> \<not> (row_phase r = Terminal \<and> row_tree r = NoTree)
                    \<Longrightarrow> I h (cancel_row r)"
    and tree_ending: "I h r \<Longrightarrow> row_tree r = TreeOpen \<Longrightarrow> terminate_process_tree env = (stop, err)
                      \<Longrightarrow> I h (tree_end stop err r)"
    and closing: "I h r \<Longrightarrow> I h (shutdown_row r)"
begin

definition all_rows :: "custody \<Rightarrow> bool" where
  "all_rows c \<longleftrightarrow> (\<forall>h r. lookup c h = Some r \<longrightarrow> I h r)"

lemma all_rows_update:
  "all_rows c \<Longrightarrow> lookup c h = Some r \<Longrightarrow> I h (f r) \<Longrightarrow> all_rows (update_row h f c)"
  by (auto simp: all_rows_def lookup_update_row)

lemma all_rowsD: "all_rows c \<Longrightarrow> lookup c h = Some r \<Longrightarrow> I h r"
  by (simp add: all_rows_def)

lemma all_rows_step:
  assumes "custody_step obs c c'" and inv: "all_rows c"
  shows "all_rows c'"
  using assms(1)
proof (cases rule: custody_step.cases)
  case (launched env owner key spec)
  then show ?thesis
    using launch_state [of env owner key spec c] inv fresh
    by (auto simp: all_rows_def lookup_insert split: if_splits)
next
  case (cancelling owner h)
  then show ?thesis
    using cancel_begin_state [of owner h c] inv cancelled all_rowsD
    by (auto intro!: all_rows_update)
next
  case (acknowledged err owner h)
  then show ?thesis
    using acknowledge_state [of err owner h c] inv
    by (auto simp: all_rows_def lookup_delete split: if_splits)
next
  case shut_down
  then show ?thesis
    using inv closing by (auto simp: all_rows_def lookup_shutdown)
qed (use inv in \<open>auto intro!: all_rows_update waiting observing failing awaiting reaping finishing
       tree_ending dest: all_rowsD\<close>)

lemma reachable_rows:
  assumes "custody_reachable obs c" and l: "lookup c h = Some r"
  shows "I h r"
proof -
  from assms(1) have "all_rows c"
  proof (induction rule: custody_reachable.induct)
    case (init root c)
    then show ?case
      by (auto simp: all_rows_def new_custody_def lookup_def split: if_splits)
  qed (rule all_rows_step)
  then show ?thesis using l by (rule all_rowsD)
qed

end

interpretation rows: row_contract obs row_inv for obs
  by unfold_locales
     (simp_all add: row_inv_fresh row_inv_wait_begin row_inv_observed row_inv_unobserved row_inv_reaping
       row_inv_reaped row_inv_finish row_inv_cancel row_inv_tree_end row_inv_shutdown)

text \<open>
  When the exit observer does not fail: the leader is reaped only after its reaping was claimed or
  the termination of its tree has ended.
\<close>

definition anchored :: "string \<Rightarrow> custody_row \<Rightarrow> bool" where
  "anchored h r \<longleftrightarrow>
     row_inv h r
     \<and> (case row_waiter r of
          AwaitTree e \<Rightarrow> e = None
        | Reaping e \<Rightarrow> e = None \<and> (row_reap_claimed r \<or> row_tree r = TreeClosed)
        | Reaped e \<Rightarrow> e = None \<and> (row_reap_claimed r \<or> row_tree r = TreeClosed)
        | Finished \<Rightarrow> row_reap_claimed r \<or> row_tree r = TreeClosed
        | _ \<Rightarrow> True)"

lemma anchored_fresh: "anchored h (start_row e (fresh_row c h owner key spec))"
  unfolding anchored_def using row_inv_fresh [of h e c owner key spec]
  by (cases e) (simp_all add: start_row_def fresh_row_def)

lemma anchored_waiting:
  "anchored h r \<Longrightarrow> row_waiter r = WaitBegin \<Longrightarrow> anchored h (wait_begin r)"
  "anchored h r \<Longrightarrow> row_waiter r = Observing \<Longrightarrow> anchored h (wait_observed r)"
  by (simp add: anchored_def row_inv_wait_begin, simp add: wait_begin_def)
     (simp add: anchored_def row_inv_observed, auto simp: wait_observed_def row_inv_def)

lemma anchored_reaping:
  "anchored h r \<Longrightarrow> row_waiter r = AwaitTree x \<Longrightarrow> row_tree r = TreeClosed
   \<Longrightarrow> anchored h (r\<lparr>row_waiter := Reaping x\<rparr>)"
  "anchored h r \<Longrightarrow> row_waiter r = Reaping x \<Longrightarrow> anchored h (r\<lparr>row_waiter := Reaped x\<rparr>)"
  "anchored h r \<Longrightarrow> row_waiter r = Reaped x \<Longrightarrow> anchored h (finish_wait ps werr cl r)"
  by (simp_all add: anchored_def row_inv_reaping row_inv_reaped row_inv_finish)
     (simp add: finish_wait_def Let_def)

lemma anchored_cancel:
  "anchored h r \<Longrightarrow> \<not> row_reap_claimed r \<Longrightarrow> \<not> (row_phase r = Terminal \<and> row_tree r = NoTree)
   \<Longrightarrow> anchored h (cancel_row r)"
  unfolding anchored_def using row_inv_cancel [of h r]
  by (auto simp: cancel_row_def row_inv_def split: waiter.splits)

lemma anchored_tree_end: "anchored h r \<Longrightarrow> row_tree r = TreeOpen \<Longrightarrow> anchored h (tree_end stop err r)"
  by (simp add: anchored_def row_inv_tree_end) (auto simp: tree_end_def split: waiter.splits)

lemma anchored_shutdown: "anchored h r \<Longrightarrow> anchored h (shutdown_row r)"
  by (simp add: anchored_def row_inv_shutdown)
     (auto simp: shutdown_row_def row_inv_def split: waiter.splits)

interpretation anchors: row_contract False anchored
  by unfold_locales 
     (simp_all add: anchored_fresh anchored_waiting anchored_reaping anchored_cancel anchored_tree_end
       anchored_shutdown)


section \<open>Reservations\<close>

lemma custody_inv_update:
  assumes "custody_inv c" and "lookup c h = Some r" and "row_inv h (f r)"
    and "row_owner (f r) = row_owner r" and "row_key (f r) = row_key r"
  shows "custody_inv (update_row h f c)"
proof -
  have "map fst (AList.map_entry h f xs) = map fst xs" for xs :: "(string \<times> custody_row) list"
    by (induction xs) auto
  then have "map fst (by_handle (update_row h f c)) = map fst (by_handle c)"
    by (simp add: update_row_def)
  with assms show ?thesis
    by (auto simp: custody_inv_def lookup_update_row)
qed

lemma section_owner [simp]:
  "row_owner (wait_begin r) = row_owner r" "row_owner (wait_observed r) = row_owner r"
  "row_owner (wait_observe_failed e r) = row_owner r" "row_owner (finish_wait ps werr cl r) = row_owner r"
  "row_owner (cancel_row r) = row_owner r" "row_owner (tree_end stop err r) = row_owner r"
  "row_owner (shutdown_row r) = row_owner r"
  by (simp_all add: wait_begin_def wait_observed_def wait_observe_failed_def finish_wait_def Let_def
        cancel_row_def tree_end_def shutdown_row_def)

lemma section_key [simp]:
  "row_key (wait_begin r) = row_key r" "row_key (wait_observed r) = row_key r"
  "row_key (wait_observe_failed e r) = row_key r" "row_key (finish_wait ps werr cl r) = row_key r"
  "row_key (cancel_row r) = row_key r" "row_key (tree_end stop err r) = row_key r"
  "row_key (shutdown_row r) = row_key r"
  by (simp_all add: wait_begin_def wait_observed_def wait_observe_failed_def finish_wait_def Let_def
        cancel_row_def tree_end_def shutdown_row_def)

lemma section_spec [simp]:
  "row_spec (wait_begin r) = row_spec r" "row_spec (wait_observed r) = row_spec r"
  "row_spec (wait_observe_failed e r) = row_spec r" "row_spec (finish_wait ps werr cl r) = row_spec r"
  "row_spec (cancel_row r) = row_spec r" "row_spec (tree_end stop err r) = row_spec r"
  "row_spec (shutdown_row r) = row_spec r"
  by (simp_all add: wait_begin_def wait_observed_def wait_observe_failed_def finish_wait_def Let_def
        cancel_row_def tree_end_def shutdown_row_def)

lemma custody_inv_launch:
  assumes inv: "custody_inv c" and fresh: "handle_fresh env c"
  shows "custody_inv (fst (launch env owner key spec c))"
  using launch_state [of env owner key spec c]
proof (elim disjE exE conjE)
  fix h
  let ?r = "start_row (le_start env) (fresh_row c h owner key spec)"
  assume h: "le_handle env = Inr h" and none: "reserved c (reservation owner key) = None"
    and eq: "fst (launch env owner key spec c) =
             c\<lparr>by_handle := AList.update h ?r (by_handle c),
               reservations := AList.update (reservation owner key) h (reservations c)\<rparr>"
  have own: "row_owner ?r = owner" "row_key ?r = key"
    by (cases "le_start env"; simp add: start_row_def fresh_row_def)+
  have h': "lookup c h = None" "h \<notin> ran (reserved c)"
    using fresh h by (auto simp: handle_fresh_def)
  have "inj_on ((reserved c)(reservation owner key \<mapsto> h)) (insert (reservation owner key) (dom (reserved c)))"
    using inv h' none by (auto simp: custody_inv_def inj_on_def ran_def)
  then show ?thesis
    using inv h' none own row_inv_fresh [of h "le_start env" c owner key spec]
    unfolding eq custody_inv_def lookup_insert reserved_insert
    by (auto simp: distinct_update split: if_splits) fastforce
qed (use inv in simp)

lemma custody_inv_shutdown: "custody_inv c \<Longrightarrow> custody_inv (shutdown_begin c)"
  by (auto simp: custody_inv_def lookup_shutdown row_inv_shutdown)
     (simp add: shutdown_begin_def o_def case_prod_beta)

lemma custody_inv_ack: "custody_inv c \<Longrightarrow> custody_inv (fst (acknowledge err owner h c))"
  using acknowledge_state [of err owner h c]
  by (auto simp: custody_inv_def lookup_delete reserved_def distinct_delete split: if_splits)

lemma custody_invD:
  "custody_inv c \<Longrightarrow> lookup c h = Some r \<Longrightarrow> row_inv h r"
  "custody_inv c \<Longrightarrow> lookup c h = Some r \<Longrightarrow> reserved c (reservation (row_owner r) (row_key r)) = Some h"
  by (simp_all add: custody_inv_def)

lemma custody_inv_cancel: "custody_inv c \<Longrightarrow> custody_inv (fst (cancel_begin owner h c))"
  using cancel_begin_state [of owner h c]
  by (elim disjE exE conjE) (simp_all add: custody_inv_update row_inv_cancel custody_invD)

lemma custody_inv_step: "custody_step obs c c' \<Longrightarrow> custody_inv c \<Longrightarrow> custody_inv c'"
  by (erule custody_step.cases)
     (simp_all add: custody_inv_update custody_invD row_inv_wait_begin row_inv_observed row_inv_unobserved
       row_inv_reaping row_inv_reaped row_inv_finish row_inv_tree_end custody_inv_launch
       custody_inv_shutdown custody_inv_ack custody_inv_cancel)

lemma custody_inv_reachable: "custody_reachable obs c \<Longrightarrow> custody_inv c"
proof (induction rule: custody_reachable.induct)
  case (init root c)
  then show ?case
    by (auto simp: custody_inv_def new_custody_def lookup_def reserved_def split: if_splits)
qed (rule custody_inv_step)


text \<open>No section removes a reservation, changes what a row was launched with, or revives a handle.\<close>

lemma reserved_step: "custody_step obs c c' \<Longrightarrow> reserved c k = Some h \<Longrightarrow> reserved c' k = Some h"
proof (erule custody_step.cases)
  fix env cc owner key spec
  assume "c = cc" "c' = fst (launch env owner key spec cc)" "reserved c k = Some h"
  then show "reserved c' k = Some h"
    using launch_state [of env owner key spec c] by (auto simp: reserved_insert)
next
  fix cc owner h'
  assume "c = cc" "c' = fst (cancel_begin owner h' cc)" "reserved c k = Some h"
  then show "reserved c' k = Some h"
    using cancel_begin_state [of owner h' c] by auto
next
  fix cc err owner h'
  assume "c = cc" "c' = fst (acknowledge err owner h' cc)" "reserved c k = Some h"
  then show "reserved c' k = Some h"
    using acknowledge_state [of err owner h' c] by (auto simp: reserved_def)
qed simp_all

lemma lookup_step:
  assumes "custody_step obs c c'" and "h \<in> ran (reserved c)" and "lookup c' h = Some r'"
  shows "\<exists>r. lookup c h = Some r \<and> row_spec r' = row_spec r"
  using assms(1)
proof (cases rule: custody_step.cases)
  case (launched env owner key spec)
  then show ?thesis
    using launch_state [of env owner key spec c] assms(2,3)
    by (auto simp: handle_fresh_def lookup_insert split: if_splits)
next
  case (cancelling owner h')
  then show ?thesis
    using cancel_begin_state [of owner h' c] assms(3)
    by (auto simp: lookup_update_row split: if_splits)
next
  case (acknowledged err owner h')
  then show ?thesis
    using acknowledge_state [of err owner h' c] assms(3)
    by (auto simp: lookup_delete split: if_splits)
next
  case shut_down
  then show ?thesis
    using assms(3) by (auto simp: lookup_shutdown)
qed (use assms(3) in \<open>auto simp: lookup_update_row split: if_splits\<close>)

abbreviation custody_steps :: "bool \<Rightarrow> custody \<Rightarrow> custody \<Rightarrow> bool" where
  "custody_steps obs \<equiv> (custody_step obs)\<^sup>*\<^sup>*"

lemma reserved_steps: "custody_steps obs c c' \<Longrightarrow> reserved c k = Some h \<Longrightarrow> reserved c' k = Some h"
  by (induction rule: rtranclp_induct) (auto dest: reserved_step)

lemma lookup_steps:
  "custody_steps obs c c' \<Longrightarrow> reserved c k = Some h \<Longrightarrow> lookup c' h = Some r'
   \<Longrightarrow> \<exists>r. lookup c h = Some r \<and> row_spec r' = row_spec r"
proof (induction arbitrary: r' rule: rtranclp_induct)
  case (step c1 c2)
  then have "h \<in> ran (reserved c1)"
    by (meson ranI reserved_steps)
  with step.hyps(2) step.prems(2) obtain r1 where "lookup c1 h = Some r1" "row_spec r' = row_spec r1"
    using lookup_step by blast
  with step.IH step.prems(1) show ?case by auto
qed auto

lemma custody_inv_steps: "custody_steps obs c c' \<Longrightarrow> custody_inv c \<Longrightarrow> custody_inv c'"
  by (induction rule: rtranclp_induct) (auto dest: custody_inv_step)

text \<open>Launching a reserved key changes nothing; the answer depends only on the row kept for it.\<close>

lemma launch_reserved:
  assumes "reserved c (reservation owner key) = Some h"
  shows "fst (launch env owner key spec c) = c"
    and "snd (launch env owner key spec c) = Ok r \<Longrightarrow> lookup c h = Some r \<and> same_spec (row_spec r) spec"
  using assms by (auto simp: launch_def split: option.splits if_splits)

lemma launch_ok_reserves:
  "snd (launch env owner key spec c) = Ok r \<Longrightarrow>
   \<exists>h. reserved (fst (launch env owner key spec c)) (reservation owner key) = Some h
       \<and> lookup (fst (launch env owner key spec c)) h = Some r"
  by (auto simp: launch_def Let_def reserved_def lookup_def update_conv
      split: option.splits sum.splits if_splits)

section \<open>Progress\<close>

text \<open>What remains to be done for a row: the sections its goroutines still have to run.\<close>

fun waiter_rank :: "waiter \<Rightarrow> nat" where
  "waiter_rank NoWaiter = 0"
| "waiter_rank Finished = 0"
| "waiter_rank (Reaped _) = 1"
| "waiter_rank (Reaping _) = 2"
| "waiter_rank (AwaitTree _) = 3"
| "waiter_rank Observing = 4"
| "waiter_rank WaitBegin = 5"

definition row_rank :: "custody_row \<Rightarrow> nat" where
  "row_rank r = waiter_rank (row_waiter r)
     + (case row_tree r of NoTree \<Rightarrow> 2 | TreeOpen \<Rightarrow> 1 | TreeClosed \<Rightarrow> 0)"

lemma rank_control:
  "row_inv h r \<Longrightarrow> row_rank (cancel_row r) \<le> row_rank r"
  "row_rank (shutdown_row r) \<le> row_rank r"
  "row_tree r = TreeOpen \<Longrightarrow> row_rank (tree_end stop err r) < row_rank r"
  by (cases "row_tree r"; auto simp: row_rank_def cancel_row_def shutdown_row_def tree_end_def row_inv_def)+

lemma rank_waiting:
  "row_waiter r = WaitBegin \<Longrightarrow> row_rank (wait_begin r) < row_rank r"
  "row_waiter r = Observing \<Longrightarrow> row_rank (wait_observed r) < row_rank r"
  "row_waiter r = Observing \<Longrightarrow> row_rank (wait_observe_failed e r) < row_rank r"
  "row_waiter r = AwaitTree x \<Longrightarrow> row_rank (r\<lparr>row_waiter := Reaping x\<rparr>) < row_rank r"
  "row_waiter r = Reaping x \<Longrightarrow> row_rank (r\<lparr>row_waiter := Reaped x\<rparr>) < row_rank r"
  "row_waiter r = Reaped x \<Longrightarrow> row_rank (finish_wait ps werr cl r) < row_rank r"
  by (simp_all add: row_rank_def wait_begin_def wait_observed_def wait_observe_failed_def finish_wait_def
        Let_def)

lemma rank_step_le:
  assumes "custody_step obs c c'" and inv: "custody_inv c" and l: "lookup c h = Some r" and l': "lookup c' h = Some r'"
  shows "row_rank r' \<le> row_rank r"
  using assms(1)
proof (cases rule: custody_step.cases)
  case (launched env owner key spec)
  then show ?thesis
    using launch_state [of env owner key spec c] l l'
    by (auto simp: handle_fresh_def lookup_insert split: if_splits)
next
  case (cancelling owner h')
  then show ?thesis
    using cancel_begin_state [of owner h' c] l l' rank_control(1) [OF custody_invD(1) [OF inv l]]
    by (auto simp: lookup_update_row split: if_splits)
next
  case (acknowledged err owner h')
  then show ?thesis
    using acknowledge_state [of err owner h' c] l l'
    by (auto simp: lookup_delete split: if_splits)
next
  case shut_down
  then show ?thesis
    using l l' rank_control(2) by (auto simp: lookup_shutdown)
qed (use l l' rank_waiting rank_control(3) in \<open>auto simp: lookup_update_row intro!: less_imp_le split: if_splits\<close>)

lemma rank_step_exists:
  assumes inv: "custody_inv c" and l: "lookup c h = Some r" and live: "row_phase r \<noteq> Terminal"
  shows "\<exists>c' r'. custody_step obs c c' \<and> lookup c' h = Some r' \<and> row_rank r' < row_rank r"
proof -
  have go: ?thesis if "custody_step obs c (update_row h f c)" "row_rank (f r) < row_rank r" for f
    using that l by (auto simp: lookup_update_row intro!: exI [of _ "update_row h f c"])
  have ri: "row_inv h r" using custody_invD(1) [OF inv l] .
  show ?thesis
  proof (cases "row_waiter r")
    case (AwaitTree e)
    show ?thesis
    proof (cases "row_tree r = TreeClosed")
      case True
      with AwaitTree l show ?thesis
        by (intro go [OF tree_awaited] rank_waiting(4))
    next
      case False
      with ri AwaitTree have "row_tree r = TreeOpen"
        by (cases "row_tree r") (auto simp: row_inv_def)
      moreover obtain stop err where "terminate_process_tree (undefined :: terminate_env) = (stop, err)"
        by (meson surj_pair)
      ultimately show ?thesis
        using l by (intro go [OF tree_ended] rank_control(3))
    qed
  next
    case WaitBegin
    with l show ?thesis by (intro go [OF began] rank_waiting(1))
  next
    case Observing
    with l show ?thesis by (intro go [OF observed] rank_waiting(2))
  next
    case (Reaping e)
    with l show ?thesis by (intro go [OF reaped] rank_waiting(5))
  next
    case (Reaped e)
    with l show ?thesis by (intro go [OF finished] rank_waiting(6))
  qed (use ri live in \<open>simp_all add: row_inv_def\<close>)
qed

section \<open>Launch specifications\<close>

lemma zip_eq_iff:
  "length xs = length ys \<Longrightarrow> (\<forall>(x, y) \<in> set (zip xs ys). x = y) \<longleftrightarrow> xs = ys"
  by (induction xs ys rule: list_induct2) auto

lemma env_covered:
  assumes "distinct (map fst a)" and "length a = length b"
    and "\<forall>(k, v) \<in> set a. v \<noteq> [] \<and> env_get b k = v"
  shows "map_of a = map_of b"
proof -
  have get: "map_of b k = Some v" if "(k, v) \<in> set a" for k v
    using that assms(3) by (auto simp: env_get_def split: option.splits)
  then have sub: "fst ` set a \<subseteq> fst ` set b"
    by (force dest: map_of_SomeD)
  have "card (fst ` set b) \<le> length b"
    by (metis card_length length_map set_map)
  moreover have "card (fst ` set a) = length a"
    by (metis assms(1) distinct_card length_map set_map)
  ultimately have eq: "fst ` set a = fst ` set b"
    using sub assms(2) by (intro card_subset_eq) (auto intro!: le_antisym dest: card_mono [rotated])
  show ?thesis
  proof
    fix k
    show "map_of a k = map_of b k"
    proof (cases "k \<in> fst ` set a")
      case True
      then obtain v where "(k, v) \<in> set a" by auto
      with get assms(1) show ?thesis by simp
    next
      case False
      with eq show ?thesis by (metis map_of_eq_None_iff)
    qed
  qed
qed

lemma env_same:
  assumes "distinct (map fst a)" and "map_of a = map_of b" and "(k, v) \<in> set a"
  shows "env_get b k = v"
  using assms by (metis env_get_def map_of_is_SomeI option.simps(5))

lemma same_length:
  assumes "distinct (map fst a)" and "distinct (map fst b)" and "map_of a = map_of b"
  shows "length a = length b"
  using assms by (metis distinct_card dom_map_of_conv_image_fst length_map set_map)

lemma blank_arg_None: "blank_arg i args = None \<longleftrightarrow> (\<forall>arg \<in> set args. trim_space arg \<noteq> [])"
  by (induction args arbitrary: i) auto

lemma parse_argv_ok:
  "parse_argv i items = Ok ts \<Longrightarrow> length ts = length items \<and> (\<forall>t \<in> set ts. trim_space t \<noteq> [])
     \<and> items = map JStr ts"
proof (induction items arbitrary: i ts)
  case (Cons item items)
  then show ?case by (cases item) (auto split: if_splits sum.splits)
qed simp

lemma parse_env_ok:
  "parse_env entries = Ok env \<Longrightarrow> entries = map (\<lambda>(k, v). (k, JStr v)) env \<and> (\<forall>(k, v) \<in> set env. trim_space k \<noteq> [])"
proof (induction entries arbitrary: env)
  case (Cons e entries)
  then show ?case
    by (cases e; cases "snd e") (auto split: if_splits sum.splits)
qed simp

section \<open>A small run\<close>

definition demo_custody :: custody where
  "demo_custody = \<lparr>custody_root = ''/c'', by_handle = [], reservations = [], custody_closed = False\<rparr>"

definition demo_env :: "string option \<Rightarrow> launch_env" where
  "demo_env start =
     \<lparr>le_cwd = CwdDirectory, le_handle = Inr ''process-1'', le_output_dir = None, le_stdout = None,
      le_stderr = None, le_start = start\<rparr>"

definition demo_spec :: "(string \<times> string) list \<Rightarrow> launch_spec" where
  "demo_spec env = \<lparr>spec_argv = [''/bin/true''], spec_cwd = ''/'', spec_env = env, spec_stdin = None\<rparr>"

definition demo_row :: "string option \<Rightarrow> (string \<times> string) list \<Rightarrow> custody_row" where
  "demo_row start env = start_row start (fresh_row demo_custody ''process-1'' ''o'' ''k'' (demo_spec env))"

definition demo_launched :: "string option \<Rightarrow> (string \<times> string) list \<Rightarrow> custody" where
  "demo_launched start env =
     demo_custody\<lparr>by_handle := [(''process-1'', demo_row start env)],
                  reservations := [(reservation ''o'' ''k'', ''process-1'')]\<rparr>"

lemma demo_reachable: "custody_reachable obs demo_custody"
  by (rule init [of "''/c''"]) (simp add: new_custody_def demo_custody_def trim_space_empty_iff is_space_def)

lemma demo_fresh: "handle_fresh (demo_env start) demo_custody"
  by (simp add: handle_fresh_def demo_env_def demo_custody_def lookup_def reserved_def)

lemma demo_spec_valid:
  "list_all (\<lambda>(k, v). trim_space k \<noteq> []) env \<Longrightarrow> validate_launch_spec CwdDirectory (demo_spec env) = None"
  by (auto simp: validate_launch_spec_def demo_spec_def is_abs_def has_prefix_def trim_space_empty_iff
      is_space_def list_ex_iff list_all_iff)

lemma demo_launch:
  assumes "list_all (\<lambda>(k, v). trim_space k \<noteq> []) env"
  shows "launch (demo_env start) ''o'' ''k'' (demo_spec env) demo_custody
         = (demo_launched start env, Ok (demo_row start env))"
  using demo_spec_valid [OF assms]
  by (simp add: launch_def demo_env_def demo_row_def demo_launched_def trim_space_empty_iff is_space_def)
     (simp add: demo_custody_def reserved_def Let_def)

lemma demo_launched_reachable: "custody_reachable obs (demo_launched start [])"
  using step [OF demo_reachable launched [OF demo_fresh]] demo_launch [of "[]" start]
  by (metis fst_conv list.pred_inject(1))

lemma demo_lookup: "lookup (demo_launched start env) ''process-1'' = Some (demo_row start env)"
  by (simp add: demo_launched_def demo_custody_def lookup_def)

lemmas demo_row_simps = demo_row_def start_row_def fresh_row_def

section \<open>Properties\<close>

text \<open>
  C5: Once a launch of an owner and key has been answered with a record, no later launch of the same
  owner and key changes the custody or starts a process, whatever ran in between: it is refused or
  it answers with the record of the same handle and specification, and then its specification
  passes the comparison with the first one.
\<close>
theorem launch_at_most_once:
  assumes "custody_reachable obs c" and "handle_fresh env c"
    and ok: "snd (launch env owner key spec c) = Ok row"
    and later: "custody_steps obs (fst (launch env owner key spec c)) c'"
  shows "fst (launch env' owner key spec' c') = c'
         \<and> (\<forall>row'. snd (launch env' owner key spec' c') = Ok row' \<longrightarrow>
               row_handle row' = row_handle row \<and> row_spec row' = row_spec row
               \<and> same_spec (row_spec row) spec')"
proof -
  let ?c = "fst (launch env owner key spec c)"
  have inv: "custody_inv ?c"
    using assms(1,2) custody_inv_launch custody_inv_reachable by blast
  obtain h where h: "reserved ?c (reservation owner key) = Some h" "lookup ?c h = Some row"
    using launch_ok_reserves [OF ok] by blast
  note r = reserved_steps [OF later h(1)]
  have "row_handle row' = h \<and> row_spec row' = row_spec row \<and> same_spec (row_spec row) spec'"
    if "snd (launch env' owner key spec' c') = Ok row'" for row'
    using launch_reserved(2) [OF r that] lookup_steps [OF later h(1)] h(2)
      custody_invD(1) [OF custody_inv_steps [OF later inv], of h row']
    by (auto simp: row_inv_def)
  moreover have "row_handle row = h"
    using custody_invD(1) [OF inv h(2)] by (simp add: row_inv_def)
  ultimately show ?thesis
    using launch_reserved(1) [OF r] by blast
qed

theorem launch_at_most_once_witness:
  "fst (launch (demo_env None) ''o'' ''k'' (demo_spec []) (demo_launched None [])) = demo_launched None []"
  using launch_at_most_once [OF demo_reachable demo_fresh, of None "''o''" "''k''" "demo_spec []"
      "demo_row None []" True "demo_launched None []"]
  by (simp add: demo_launch)

text \<open>
  After a record was acknowledged its owner and key stay spent: every later launch of them is
  refused, the custody unchanged, whatever ran in between.
\<close>
theorem acknowledged_key_spent:
  assumes "custody_reachable obs c" and row: "lookup c h = Some row"
    and ok: "snd (acknowledge err owner h c) = Ok ()"
    and later: "custody_steps obs (fst (acknowledge err owner h c)) c'"
  shows "lookup c' h = None
         \<and> fst (launch env (row_owner row) (row_key row) spec c') = c'
         \<and> \<not> is_ok (snd (launch env (row_owner row) (row_key row) spec c'))"
proof -
  let ?c = "fst (acknowledge err owner h c)" and ?k = "reservation (row_owner row) (row_key row)"
  have eq: "?c = c\<lparr>by_handle := AList.delete h (by_handle c)\<rparr>"
    using ok row by (auto simp: acknowledge_def split: option.splits if_splits)
  have k: "reserved ?c ?k = Some h"
    using custody_invD(2) [OF custody_inv_reachable [OF assms(1)] row] by (simp add: eq reserved_def)
  have gone: "lookup c' h = None"
  proof (rule ccontr)
    assume "lookup c' h \<noteq> None"
    then obtain r' where "lookup c' h = Some r'" by blast
    with lookup_steps [OF later k] obtain r where "lookup ?c h = Some r" by blast
    then show False by (simp add: eq lookup_delete)
  qed
  note r = reserved_steps [OF later k]
  then have "\<not> is_ok (snd (launch env (row_owner row) (row_key row) spec c'))"
    using launch_reserved(2) [OF r] gone by (cases "snd (launch env (row_owner row) (row_key row) spec c')") auto
  with gone launch_reserved(1) [OF r] show ?thesis by blast
qed

theorem acknowledged_key_spent_witness:
  "\<not> is_ok (snd (launch (demo_env None) ''o'' ''k'' (demo_spec [])
       (fst (acknowledge None ''o'' ''process-1'' (demo_launched (Some ''no'') [])))))"
proof -
  have "snd (acknowledge None ''o'' ''process-1'' (demo_launched (Some ''no'') [])) = Ok ()"
    by (simp add: acknowledge_def demo_lookup) (simp add: demo_row_simps)
  from acknowledged_key_spent [OF demo_launched_reachable demo_lookup this, of True] show ?thesis
    by (simp add: demo_row_simps)
qed

text \<open>
  C33: In every interleaving a record carries one terminal fact at most and shows it exactly in the
  terminal phase: a launch failure, an exit, or a cancellation.
\<close>
theorem terminal_facts_exclusive:
  assumes "custody_reachable obs c" and "lookup c h = Some r"
  shows "(row_phase r = Terminal \<longleftrightarrow>
            row_launch_failure r \<noteq> None \<or> row_exit r \<noteq> None \<or> row_cancellation r \<noteq> None)
         \<and> (row_launch_failure r \<noteq> None \<longrightarrow> row_exit r = None \<and> row_cancellation r = None)
         \<and> (row_exit r \<noteq> None \<longrightarrow> row_cancellation r = None)"
  using rows.reachable_rows [OF assms]
  by (cases "row_waiter r") (auto simp: row_inv_def)

theorem terminal_facts_exclusive_witness:
  "row_phase (demo_row (Some ''no'') []) = Terminal \<and> row_exit (demo_row (Some ''no'') []) = None"
  using terminal_facts_exclusive [OF demo_launched_reachable [of True] demo_lookup, of "Some ''no''"]
  by (simp add: demo_row_simps)

text \<open>
  C8: As long as the exit observer works, the termination of a process tree never overlaps with the
  reaping of its leader: the group is signalled only while the unreaped leader keeps its number.
\<close>
theorem signal_only_unreaped:
  assumes "custody_reachable False c" and "lookup c h = Some r" and "row_tree r = TreeOpen"
  shows "(\<forall>e. row_waiter r \<noteq> Reaping e) \<and> (\<forall>e. row_waiter r \<noteq> Reaped e) \<and> row_waiter r \<noteq> Finished
         \<and> \<not> row_reap_claimed r"
  using anchors.reachable_rows [OF assms(1,2)] assms(3)
  by (auto simp: anchored_def row_inv_def)

theorem signal_only_unreaped_witness:
  "\<not> row_reap_claimed (cancel_row (demo_row None []))"
proof -
  have eq: "fst (cancel_begin ''o'' ''process-1'' (demo_launched None []))
            = update_row ''process-1'' cancel_row (demo_launched None [])"
    by (simp add: cancel_begin_def demo_lookup) (simp add: demo_row_simps)
  have "custody_reachable False (update_row ''process-1'' cancel_row (demo_launched None []))"
    using step [OF demo_launched_reachable cancelling] eq by metis
  moreover have "lookup (update_row ''process-1'' cancel_row (demo_launched None [])) ''process-1''
                 = Some (cancel_row (demo_row None []))"
    by (simp add: lookup_update_row demo_lookup)
  ultimately show ?thesis
    by (rule signal_only_unreaped [THEN conjunct2, THEN conjunct2, THEN conjunct2])
       (simp add: cancel_row_def demo_row_simps)
qed



text \<open>
  On specifications whose first environment has no empty value, \<open>sameSpec\<close> decides equality:
  the same arguments, directory, environment and standard input.
\<close>
theorem same_spec_exact:
  assumes "distinct (map fst (spec_env a))" and "distinct (map fst (spec_env b))"
    and "\<forall>(key, value) \<in> set (spec_env a). value \<noteq> []"
  shows "same_spec a b \<longleftrightarrow>
           spec_argv a = spec_argv b \<and> spec_cwd a = spec_cwd b
           \<and> map_of (spec_env a) = map_of (spec_env b) \<and> spec_stdin a = spec_stdin b"
proof -
  have stdin: "(case (spec_stdin a, spec_stdin b) of
                  (Some x, Some y) \<Rightarrow> x = y | (None, None) \<Rightarrow> True | _ \<Rightarrow> False)
               \<longleftrightarrow> spec_stdin a = spec_stdin b"
    by (auto split: option.splits)
  have env: "length (spec_env a) = length (spec_env b)
               \<and> (\<forall>(key, value) \<in> set (spec_env a). env_get (spec_env b) key = value)
             \<longleftrightarrow> map_of (spec_env a) = map_of (spec_env b)"
    (is "?l \<longleftrightarrow> ?r")
  proof
    assume l: ?l
    have "\<forall>(k, v) \<in> set (spec_env a). v \<noteq> [] \<and> env_get (spec_env b) k = v"
      using l assms(3) by auto
    with l assms(1) show ?r by (intro env_covered) simp_all
  next
    assume r: ?r
    have "env_get (spec_env b) k = v" if "(k, v) \<in> set (spec_env a)" for k v
      using env_same [OF assms(1) r that] .
    then show ?l using same_length [OF assms(1,2) r] by auto
  qed
  have argv: "length (spec_argv a) = length (spec_argv b)
                \<and> (\<forall>(x, y) \<in> set (zip (spec_argv a) (spec_argv b)). x = y)
              \<longleftrightarrow> spec_argv a = spec_argv b"
    using zip_eq_iff [of "spec_argv a" "spec_argv b"] by metis
  show ?thesis
    unfolding same_spec_def stdin argv [symmetric] env [symmetric] by meson
qed

theorem same_spec_exact_witness:
  "\<not> same_spec (demo_spec [(''A'', ''x'')]) (demo_spec [(''A'', ''y'')])"
  using same_spec_exact [of "demo_spec [(''A'', ''x'')]" "demo_spec [(''A'', ''y'')]"]
  by (simp add: demo_spec_def fun_upd_idem_iff fun_eq_iff split: if_splits)

text \<open>
  When the exit observer fails, reaping is not claimed, and a cancellation that arrives after
  the leader was reaped still sends signals to its process group.
\<close>
theorem cancel_signals_reaped_group:
  "\<exists>c h r c'. custody_reachable True c \<and> lookup c h = Some r \<and> row_waiter r = Reaped (Some ''failed'')
     \<and> cancel_begin (row_owner r) h c = (c', CancelTerminate r)"
proof -
  let ?h = "''process-1''" and ?f = "wait_observe_failed ''failed''"
  let ?r = "\<lambda>f. map_option f (Some (demo_row None []))"
  define c1 where "c1 = update_row ?h wait_begin (demo_launched None [])"
  define c2 where "c2 = update_row ?h ?f c1"
  define c3 where "c3 = update_row ?h (\<lambda>r. r\<lparr>row_waiter := Reaped (Some ''failed'')\<rparr>) c2"
  let ?r1 = "wait_begin (demo_row None [])"
  let ?r3 = "(?f ?r1)\<lparr>row_waiter := Reaped (Some ''failed'')\<rparr>"
  note rows = wait_begin_def wait_observe_failed_def demo_row_simps
  have l1: "lookup c1 ?h = Some ?r1" by (simp add: c1_def lookup_update_row demo_lookup)
  have l2: "lookup c2 ?h = Some (?f ?r1)" by (simp add: c2_def lookup_update_row l1)
  have l3: "lookup c3 ?h = Some ?r3" by (simp add: c3_def lookup_update_row l2)
  have "custody_reachable True c1"
    unfolding c1_def
    by (rule step [OF demo_launched_reachable began [OF demo_lookup]]) (simp add: rows)
  then have "custody_reachable True c2"
    unfolding c2_def by (rule step [OF _ unobserved [OF _ l1]]) (simp_all add: rows)
  then have "custody_reachable True c3"
    unfolding c3_def by (rule step [OF _ reaped [OF l2]]) (simp add: rows)
  moreover have "cancel_begin (row_owner ?r3) ?h c3 = (update_row ?h cancel_row c3, CancelTerminate ?r3)"
    by (simp add: cancel_begin_def l3) (simp add: rows)
  ultimately show ?thesis using l3 by fastforce
qed

text \<open>
  A launch whose environment differs from the reserved one, the first having an empty value
  under a name the second lacks, is not refused as conflicting: it answers with the first record.
\<close>
theorem empty_value_conflict_missed:
  "snd (launch (demo_env None) ''o'' ''k'' (demo_spec [(''B'', ''x'')])
         (fst (launch (demo_env None) ''o'' ''k'' (demo_spec [(''A'', [])]) demo_custody)))
   = Ok (demo_row None [(''A'', [])])"
proof -
  have A: "list_all (\<lambda>(k, v). trim_space k \<noteq> []) [(''A'', [])]"
    and B: "list_all (\<lambda>(k, v). trim_space k \<noteq> []) [(''B'', ''x'')]"
    by (simp_all add: trim_space_empty_iff is_space_def)
  have "reserved (demo_launched None [(''A'', [])]) (reservation ''o'' ''k'') = Some ''process-1''"
    by (simp add: reserved_def demo_launched_def)
  moreover have "\<not> custody_closed (demo_launched None [(''A'', [])])"
    by (simp add: demo_launched_def demo_custody_def)
  moreover have "same_spec (row_spec (demo_row None [(''A'', [])])) (demo_spec [(''B'', ''x'')])"
    by (simp add: demo_row_simps demo_spec_def same_spec_def env_get_def)
  ultimately show ?thesis
    unfolding demo_launch [OF A] fst_conv unfolding launch_def
    using demo_spec_valid [OF B] demo_lookup [of None "[(''A'', [])]"]
    by (simp add: trim_space_empty_iff is_space_def demo_env_def)
qed

text \<open>
  The stop of a cancelled tree is classified exactly by what was observed: graceful when the
  group was gone after SIGTERM, forced when it was gone only after SIGKILL, and uncertain with an
  error in every other case.
\<close>
theorem terminate_classification:
  "(terminate_process_tree env = (StopGraceful, None) \<longleftrightarrow>
      term_signal env = None \<and> term_wait env = Ok True)
   \<and> (terminate_process_tree env = (StopForced, None) \<longleftrightarrow>
      term_signal env = None \<and> term_wait env = Ok False \<and> kill_signal env = None \<and> kill_wait env = Ok True)
   \<and> (snd (terminate_process_tree env) = None \<longleftrightarrow> fst (terminate_process_tree env) \<noteq> StopUncertain)"
  by (auto simp: terminate_process_tree_def split: option.splits sum.splits bool.splits)

text \<open>
  C40: A specification that \<open>ParseLaunchSpec\<close> accepts is accepted again by \<open>validateLaunchSpec\<close>
  exactly when \<open>os.Stat\<close>, which \<open>ParseLaunchSpec\<close> does not ask, finds its directory to be one; and it
  says what the object says: the arguments in order, the directory, every environment entry and the
  standard input.
\<close>
theorem parsed_spec_valid:
  assumes "parse_launch_spec (Some ob) = Ok spec"
  shows "(validate_launch_spec found spec = None \<longleftrightarrow> found = CwdDirectory)
         \<and> map_of ob ''argv'' = Some (JArr (map JStr (spec_argv spec)))
         \<and> map_of ob ''cwd'' = Some (JStr (spec_cwd spec))
         \<and> (map_of ob ''env'' = None \<and> spec_env spec = []
            \<or> map_of ob ''env'' = Some (JObj (map (\<lambda>(k, v). (k, JStr v)) (spec_env spec))))
         \<and> (case spec_stdin spec of
              Some text \<Rightarrow> map_of ob ''stdin'' = Some (JStr text)
            | None \<Rightarrow> map_of ob ''stdin'' \<in> {None, Some JNull})"
proof -
  from assms obtain items where items: "map_of ob ''argv'' = Some (JArr items)" "items \<noteq> []"
    and argv: "parse_argv 0 items = Ok (spec_argv spec)"
    and cwd: "map_of ob ''cwd'' = Some (JStr (spec_cwd spec))"
      "is_abs (spec_cwd spec)" "trim_space (spec_cwd spec) \<noteq> []"
    and env: "map_of ob ''env'' = None \<and> spec_env spec = []
      \<or> (\<exists>entries. map_of ob ''env'' = Some (JObj entries) \<and> parse_env entries = Ok (spec_env spec))"
    and stdin: "case spec_stdin spec of
      Some text \<Rightarrow> map_of ob ''stdin'' = Some (JStr text) | None \<Rightarrow> map_of ob ''stdin'' \<in> {None, Some JNull}"
    unfolding parse_launch_spec_def
    by (simp split: option.splits json.splits list.splits sum.splits if_splits; fastforce)
  have cwd_ne: "spec_cwd spec \<noteq> []"
    using cwd(3) by (auto simp: trim_space_empty_iff)
  have "spec_argv spec \<noteq> []"
    using parse_argv_ok [OF argv] items(2) by auto
  moreover have "\<not> list_ex (\<lambda>(key, _). trim_space key = []) (spec_env spec)"
    using env by (auto simp: list_ex_iff dest!: parse_env_ok)
  ultimately have "validate_launch_spec found spec = None \<longleftrightarrow> found = CwdDirectory"
    unfolding validate_launch_spec_def using cwd(2) cwd_ne parse_argv_ok [OF argv] blank_arg_None [of 0 "spec_argv spec"]
    by (simp split: cwd_state.split)
  moreover have "map_of ob ''argv'' = Some (JArr (map JStr (spec_argv spec)))"
    using items(1) parse_argv_ok [OF argv] by simp
  moreover have "map_of ob ''env'' = None \<and> spec_env spec = []
      \<or> map_of ob ''env'' = Some (JObj (map (\<lambda>(k, v). (k, JStr v)) (spec_env spec)))"
    using env by (auto dest!: parse_env_ok)
  ultimately show ?thesis using cwd(1) stdin by blast
qed

theorem parsed_spec_valid_witness:
  "validate_launch_spec CwdDirectory (demo_spec []) = None"
proof -
  have "parse_launch_spec (Some [(''argv'', JArr [JStr ''/bin/true'']), (''cwd'', JStr ''/'')]) = Ok (demo_spec [])"
    by (simp add: parse_launch_spec_def demo_spec_def is_abs_def has_prefix_def trim_space_empty_iff is_space_def)
  from parsed_spec_valid [OF this, of CwdDirectory] show ?thesis by simp
qed

end
