(* ===== verification/Mill_State.thy ===== *)
theory Mill_State
  imports Custody
begin

text \<open>
  The state the Mill server shares between its handlers (\<open>server\<close>, \<open>weaverChild\<close> in
  \<open>cli/cmd/mill/main.go\<close>, \<open>weaverHost\<close> and \<open>poolMember\<close> in \<open>pool_host.go\<close>, \<open>weaverIdentity\<close> in
  \<open>restart_process.go\<close>, \<open>World\<close> in \<open>cli/internal/config/config.go\<close>).

  A map is the list of its entries in the order a \<open>range\<close> visits them.  The command of a child or
  host is kept as the process number of its started process.
\<close>

record world =
  w_config_dir :: string
  w_state_dir :: string
  w_data_dir :: string
  w_config_file :: string
  w_db_path :: string

record weaver_identity =
  id_pid :: int
  id_weaver :: string
  id_generation :: string
  id_started_at :: string
  id_socket :: string
  id_config_dir :: string
  id_state_dir :: string
  id_data_dir :: string

record weaver_child =
  child_cmd :: "int option" \<comment> \<open>\<open>cmd.Process.Pid\<close> when both pointers are set\<close>
  child_world :: world
  child_name :: string
  child_identity :: weaver_identity
  child_temporary :: bool
  child_unsupervised :: bool
  child_generation :: string
  child_launch_token :: string
  child_startup_weaver :: string

record pool_member =
  pm_world :: world
  pm_source_cwd :: string
  pm_name :: string
  pm_weaver :: string
  pm_generation :: string
  pm_basis :: string
  pm_identity :: weaver_identity

record weaver_host =
  host_pool :: string
  host_id :: string
  host_generation :: string
  host_basis :: string
  host_membership_rev :: string
  host_cmd :: "int option"
  host_pid :: int
  host_launch_token :: string
  host_members :: "pool_member list"
  host_allowances :: "(string \<times> world) list"
  host_live :: bool

record server =
  children :: "(string \<times> weaver_child) list"
  custodies :: "(string \<times> custody) list"
  pool_hosts :: "(string \<times> weaver_host) list"
  stopping :: bool

text \<open>\<open>IsTemporaryRuntimeDir\<close>; \<open>root\<close> is the state root, \<open>None\<close> when it cannot be determined.\<close>

definition temporary_prefix :: string where
  "temporary_prefix = ''temp-''"

definition is_temporary_runtime_dir :: "string option \<Rightarrow> string \<Rightarrow> bool" where
  "is_temporary_runtime_dir root state_dir =
     (case root of
        None \<Rightarrow> False
      | Some root \<Rightarrow>
          dir_path (clean_path state_dir) = join_path [root, ''weavers'']
          \<and> has_prefix (base_path state_dir) temporary_prefix)"

end
