(* ===== verification/Restart_Record.thy ===== *)
theory Restart_Record
  imports Json Mill_State
begin

text \<open>
  The durable record of a Weaver restart and the views of it
  (\<open>cli/cmd/mill/restart_record.go\<close>, the record and projection half of \<open>restart.go\<close>, the result
  format of \<open>restart_probe.go\<close>).

  A file is described by what the JSON decoder makes of it: the value it holds, objects with their
  entries in the order of the text, and what follows it.  A nil slice or map is the empty list.
\<close>

section \<open>Probe results\<close>

record probe_result =
  pr_success :: bool
  pr_stage :: string
  pr_workspace :: string
  pr_source :: string
  pr_completed :: "string list"
  pr_diagnostics :: "object list"
  pr_log :: string

datatype probe_error =
    StageBlank
  | WorkspaceBlank
  | SourceBlank
  | LogBlank
  | SuccessStage string
  | FailureStage string
  | CompletedBlank
  | DiagnosticUnknown string
  | DiagnosticStage
  | DiagnosticStatus
  | DiagnosticAt
  | DiagnosticData
  | ProbeMalformed
  | ProbeUnknown string
  | ProbeNull string
  | ProbeMissing string
  | ProbeRowNull

definition diagnostic_statuses :: "string list" where
  "diagnostic_statuses = [''completed'', ''failed'', ''skipped'', ''in-progress'']"

text \<open>The first guard of a sequence of guards with early returns that holds.\<close>

fun guards :: "(bool \<times> 'e) list \<Rightarrow> 'e option" where
  "guards [] = None"
| "guards ((b, e) # gs) = (if b then Some e else guards gs)"

definition blank_text :: "json option \<Rightarrow> bool" where
  "blank_text v = (case as_string v of None \<Rightarrow> True | Some s \<Rightarrow> blank s)"

definition bad_status :: "json option \<Rightarrow> bool" where
  "bad_status v = (case as_string v of None \<Rightarrow> True | Some s \<Rightarrow> s \<notin> set diagnostic_statuses)"

definition validate_probe_diagnostic :: "object \<Rightarrow> probe_error option" where
  "validate_probe_diagnostic row =
     (case unknown_key [''stage'', ''status'', ''data'', ''at''] row of
        Some k \<Rightarrow> Some (DiagnosticUnknown k)
      | None \<Rightarrow> guards
          [(blank_text (map_of row ''stage''), DiagnosticStage),
           (bad_status (map_of row ''status''), DiagnosticStatus),
           (map_of row ''at'' \<noteq> None \<and> blank_text (map_of row ''at''), DiagnosticAt),
           (map_of row ''data'' \<noteq> None \<and> as_object (map_of row ''data'') = None, DiagnosticData)])"

definition validate_probe :: "probe_result \<Rightarrow> probe_error option" where
  "validate_probe r =
     (case guards
        [(blank (pr_stage r), StageBlank),
         (blank (pr_workspace r), WorkspaceBlank),
         (blank (pr_source r), SourceBlank),
         (blank (pr_log r), LogBlank),
         (pr_success r \<and> pr_stage r \<noteq> ''probe/complete'', SuccessStage (pr_stage r)),
         (\<not> pr_success r \<and> pr_stage r \<noteq> ''probe/failure'', FailureStage (pr_stage r)),
         (list_ex blank (pr_completed r), CompletedBlank)] of
        Some e \<Rightarrow> Some e
      | None \<Rightarrow> first_error validate_probe_diagnostic (pr_diagnostics r))"

section \<open>Decoding\<close>

text \<open>
  Unmarshalling an object into a map: of several entries with one key the last counts.
  \<open>any_of\<close> does so at every level, as decoding into \<open>any\<close> does.
\<close>

definition object_map :: "object \<Rightarrow> object" where
  "object_map es = fold (\<lambda>(k, v). AList.update k v) es []"

fun any_of :: "json \<Rightarrow> json" where
  "any_of (JArr vs) = JArr (map any_of vs)"
| "any_of (JObj es) = JObj (object_map (map (\<lambda>(k, v). (k, any_of v)) es))"
| "any_of v = v"

text \<open>
  Unmarshalling into a struct matches the keys without regard to case, an exact match first.
  Under simple folding the only letters outside ASCII that match one inside are the Kelvin sign and
  the long s.
\<close>

definition fold_name :: "string \<Rightarrow> string" where
  "fold_name s =
     concat (map (\<lambda>(r, bs). if 97 \<le> r \<and> r \<le> 122 then [char_of (r - 32)]
                            else if r = 0x212A then ''K'' else if r = 0x17F then ''S'' else bs) (rune_chunks s))"

definition field_of :: "string list \<Rightarrow> string \<Rightarrow> string option" where
  "field_of names k = (if k \<in> set names then Some k else List.find (\<lambda>n. fold_name n = fold_name k) names)"

text \<open>A value into a field that holds \<open>old\<close>; \<open>null\<close> leaves a string or a bool as it is.\<close>

fun decode_str :: "string \<Rightarrow> json \<Rightarrow> string option" where
  "decode_str old (JStr s) = Some s"
| "decode_str old JNull = Some old"
| "decode_str old v = None"

fun decode_bool :: "bool \<Rightarrow> json \<Rightarrow> bool option" where
  "decode_bool old (JBool b) = Some b"
| "decode_bool old JNull = Some old"
| "decode_bool old v = None"

fun decode_all :: "('a \<Rightarrow> 'b option) \<Rightarrow> 'a list \<Rightarrow> 'b list option" where
  "decode_all f [] = Some []"
| "decode_all f (x # xs) =
     (case f x of None \<Rightarrow> None | Some y \<Rightarrow> (case decode_all f xs of None \<Rightarrow> None | Some ys \<Rightarrow> Some (y # ys)))"

fun decode_strs :: "json \<Rightarrow> string list option" where
  "decode_strs (JArr vs) = decode_all (decode_str []) vs"
| "decode_strs JNull = Some []"
| "decode_strs v = None"

fun decode_row :: "json \<Rightarrow> object option" where
  "decode_row (JObj es) = as_object (Some (any_of (JObj es)))"
| "decode_row JNull = Some []"
| "decode_row v = None"

fun decode_rows :: "json \<Rightarrow> object list option" where
  "decode_rows (JArr vs) = decode_all decode_row vs"
| "decode_rows JNull = Some []"
| "decode_rows v = None"

text \<open>
  The entries of an object into a struct, one after the other; a key that is no field and a value
  of another type are errors.
\<close>

fun decode_fields :: "string list \<Rightarrow> (string \<Rightarrow> json \<Rightarrow> 's \<Rightarrow> 's option) \<Rightarrow> object \<Rightarrow> 's \<Rightarrow> 's option" where
  "decode_fields names set_field [] s = Some s"
| "decode_fields names set_field ((k, v) # es) s =
     (case field_of names k of
        None \<Rightarrow> None
      | Some n \<Rightarrow> (case set_field n v s of None \<Rightarrow> None | Some s' \<Rightarrow> decode_fields names set_field es s'))"

definition probe_fields :: "string list" where
  "probe_fields = [''success'', ''stage'', ''probe/workspace'', ''source/workspace'', ''completed'', ''diagnostics'', ''log'']"

definition set_probe_field :: "string \<Rightarrow> json \<Rightarrow> probe_result \<Rightarrow> probe_result option" where
  "set_probe_field n v p =
     (if n = ''success'' then map_option (\<lambda>x. p\<lparr>pr_success := x\<rparr>) (decode_bool (pr_success p) v)
      else if n = ''stage'' then map_option (\<lambda>x. p\<lparr>pr_stage := x\<rparr>) (decode_str (pr_stage p) v)
      else if n = ''probe/workspace'' then map_option (\<lambda>x. p\<lparr>pr_workspace := x\<rparr>) (decode_str (pr_workspace p) v)
      else if n = ''source/workspace'' then map_option (\<lambda>x. p\<lparr>pr_source := x\<rparr>) (decode_str (pr_source p) v)
      else if n = ''completed'' then map_option (\<lambda>x. p\<lparr>pr_completed := x\<rparr>) (decode_strs v)
      else if n = ''diagnostics'' then map_option (\<lambda>x. p\<lparr>pr_diagnostics := x\<rparr>) (decode_rows v)
      else map_option (\<lambda>x. p\<lparr>pr_log := x\<rparr>) (decode_str (pr_log p) v))"

definition empty_probe :: probe_result where
  "empty_probe = \<lparr>pr_success = False, pr_stage = [], pr_workspace = [], pr_source = [],
                  pr_completed = [], pr_diagnostics = [], pr_log = []\<rparr>"

text \<open>What a decoder meets: a value and what follows it, or no readable value at all.\<close>

datatype rest = RestEof | RestValue | RestError

datatype document_text = Unreadable | Text json rest

text \<open>\<open>decodeObject\<close>: exactly one object.\<close>

definition decode_object :: "document_text \<Rightarrow> object option" where
  "decode_object text =
     (case text of
        Text (JObj es) RestEof \<Rightarrow> Some (object_map es)
      | _ \<Rightarrow> None)"

text \<open>
  \<open>decodeRestartProbe\<close>.  A null element of \<open>diagnostics\<close> is a nil map, which the code refuses
  before it validates.
\<close>

definition null_row :: "json option \<Rightarrow> bool" where
  "null_row v = (case v of Some (JArr vs) \<Rightarrow> JNull \<in> set vs | _ \<Rightarrow> False)"

definition decode_restart_probe :: "document_text \<Rightarrow> (probe_error, probe_result) result" where
  "decode_restart_probe text =
     (case decode_object text of
        None \<Rightarrow> Err ProbeMalformed
      | Some raw \<Rightarrow>
          (case first_error (\<lambda>(k, v). if k \<notin> set probe_fields then Some (ProbeUnknown k)
                                     else if v = JNull then Some (ProbeNull k) else None) raw of
             Some e \<Rightarrow> Err e
           | None \<Rightarrow>
               (case List.find (\<lambda>k. map_of raw k = None) probe_fields of
                  Some k \<Rightarrow> Err (ProbeMissing k)
                | None \<Rightarrow>
                    (case decode_fields probe_fields set_probe_field (sort_key fst raw) empty_probe of
                       None \<Rightarrow> Err ProbeMalformed
                     | Some p \<Rightarrow>
                         if null_row (map_of raw ''diagnostics'') then Err ProbeRowNull
                         else (case validate_probe p of Some e \<Rightarrow> Err e | None \<Rightarrow> Ok p)))))"

text \<open>\<open>cappedBuffer\<close>: at most \<open>limit\<close> bytes of what is written are kept.\<close>

record capped_buffer =
  cb_buf :: string
  cb_limit :: nat
  cb_truncated :: bool

definition capped_write :: "string \<Rightarrow> capped_buffer \<Rightarrow> nat \<times> capped_buffer" where
  "capped_write p b =
     (if length (cb_buf b) < cb_limit b then
        (let remaining = cb_limit b - length (cb_buf b) in
         if remaining < length p then
           (length p, b\<lparr>cb_buf := cb_buf b @ take remaining p, cb_truncated := True\<rparr>)
         else (length p, b\<lparr>cb_buf := cb_buf b @ p\<rparr>))
      else (length p, b\<lparr>cb_truncated := True\<rparr>))"

definition capped_string :: "capped_buffer \<Rightarrow> string" where
  "capped_string b =
     (let value = trim_space (cb_buf b) in
      if cb_truncated b then
        (if value = [] then ''[probe stderr truncated]'' else value @ '' [probe stderr truncated]'')
      else value)"

section \<open>Records\<close>

record restart_failure =
  rf_stage :: string
  rf_message :: string
  rf_log :: string
  rf_evidence :: string

record restart_record =
  rr_state :: string
  rr_transition :: string
  rr_generation :: string
  rr_previous_generation :: string
  rr_previous_weaver :: string
  rr_updated_at :: string
  rr_old_stopped :: bool
  rr_probe :: "probe_result option"
  rr_failure :: "restart_failure option"
  rr_generation_present :: bool
  rr_old_stopped_present :: bool

definition state_probing :: string where "state_probing = ''probing''"
definition state_restarting :: string where "state_restarting = ''restarting''"
definition state_running :: string where "state_running = ''running''"
definition state_failed :: string where "state_failed = ''failed''"

lemmas state_defs = state_probing_def state_restarting_def state_running_def state_failed_def

definition restart_states :: "string list" where
  "restart_states = [state_probing, state_restarting, state_running, state_failed]"

lemma states_distinct [simp]:
  "state_probing \<noteq> state_restarting" "state_probing \<noteq> state_running" "state_probing \<noteq> state_failed"
  "state_restarting \<noteq> state_probing" "state_restarting \<noteq> state_running" "state_restarting \<noteq> state_failed"
  "state_running \<noteq> state_probing" "state_running \<noteq> state_restarting" "state_running \<noteq> state_failed"
  "state_failed \<noteq> state_probing" "state_failed \<noteq> state_restarting" "state_failed \<noteq> state_running"
  by (simp_all add: state_defs)

datatype record_error =
    TransitionBlank
  | UpdatedAtOwned
  | UpdatedAtBlank
  | StateUnknown string
  | GenerationBlank
  | PreviousGenerationBlank
  | PreviousWeaverBlank
  | StoppedWithoutProbe
  | StoppedWithoutGeneration
  | ProbingContradiction
  | RunningWithoutGeneration
  | FailedWithoutFailure
  | FailureBlank
  | RunningFailure
  | FailureState string
  | StoppedFailure string
  | ProbeInvalid probe_error
  | MarshalFailed
  | WriteFailed
  | ReadFailed
  | RecordMalformed
  | RecordNull string

datatype validation_mode = ForWrite | FromDisk

definition stage_of :: "restart_record \<Rightarrow> string" where
  "stage_of r = (case rr_failure r of None \<Rightarrow> [] | Some f \<Rightarrow> rf_stage f)"

definition probe_succeeded :: "restart_record \<Rightarrow> bool" where
  "probe_succeeded r = (case rr_probe r of None \<Rightarrow> False | Some p \<Rightarrow> pr_success p)"

definition failure_error :: "restart_record \<Rightarrow> restart_failure \<Rightarrow> record_error option" where
  "failure_error r f =
     (if blank (rf_stage f) \<or> blank (rf_message f) then Some FailureBlank
      else if rr_state r = state_running then
        (if rf_stage f \<noteq> ''probe'' \<or> rr_probe r = None \<or> probe_succeeded r then Some RunningFailure else None)
      else if rr_state r \<noteq> state_failed then Some (FailureState (rr_state r))
      else None)"

definition validate_restart_record :: "validation_mode \<Rightarrow> restart_record \<Rightarrow> record_error option" where
  "validate_restart_record mode r =
     (case guards
        [(blank (rr_transition r), TransitionBlank),
         (mode = ForWrite \<and> rr_updated_at r \<noteq> [], UpdatedAtOwned),
         (mode = FromDisk \<and> blank (rr_updated_at r), UpdatedAtBlank),
         (rr_state r \<notin> set restart_states, StateUnknown (rr_state r)),
         (rr_generation r \<noteq> [] \<and> blank (rr_generation r), GenerationBlank),
         (rr_previous_generation r \<noteq> [] \<and> blank (rr_previous_generation r), PreviousGenerationBlank),
         (rr_previous_weaver r \<noteq> [] \<and> blank (rr_previous_weaver r), PreviousWeaverBlank),
         (rr_old_stopped r \<and> \<not> probe_succeeded r, StoppedWithoutProbe),
         (rr_old_stopped r \<and> rr_state r \<noteq> state_failed \<and> blank (rr_generation r), StoppedWithoutGeneration),
         (rr_state r = state_probing
            \<and> (blank (rr_generation r) \<or> rr_probe r \<noteq> None \<or> rr_failure r \<noteq> None \<or> rr_old_stopped r),
          ProbingContradiction),
         (rr_state r = state_running \<and> blank (rr_generation r), RunningWithoutGeneration),
         (rr_state r = state_failed \<and> rr_failure r = None, FailedWithoutFailure)] of
        Some e \<Rightarrow> Some e
      | None \<Rightarrow>
          (case (case rr_failure r of None \<Rightarrow> None | Some f \<Rightarrow> failure_error r f) of
             Some e \<Rightarrow> Some e
           | None \<Rightarrow>
               if rr_old_stopped r \<and> rr_failure r \<noteq> None \<and> stage_of r \<noteq> ''launch''
               then Some (StoppedFailure (stage_of r))
               else (case rr_probe r of None \<Rightarrow> None | Some p \<Rightarrow> map_option ProbeInvalid (validate_probe p))))"

section \<open>The file\<close>

text \<open>
  What the decoder reads of a value the encoder prints: strings made valid UTF-8, the entries of a
  map sorted by key.  \<open>encodable\<close> tells whether the encoder accepts the value.
\<close>

fun printed :: "json \<Rightarrow> json" where
  "printed (JStr s) = JStr (utf8_coerce s)"
| "printed (JArr vs) = JArr (map printed vs)"
| "printed (JObj es) = JObj (sort_key fst (map (\<lambda>(k, v). (utf8_coerce k, printed v)) es))"
| "printed v = v"

fun encodable :: "json \<Rightarrow> bool" where
  "encodable (JArr vs) = list_all encodable vs"
| "encodable (JObj es) = list_all (\<lambda>(k, v). encodable v) es"
| "encodable (JOpaque s e) = False"
| "encodable v = True"

text \<open>The entries of a struct in the order of its fields; those not to be shown are left out.\<close>

definition entries_of :: "(bool \<times> string \<times> json) list \<Rightarrow> object" where
  "entries_of fs = map snd (filter fst fs)"

abbreviation jstr :: "string \<Rightarrow> json" where
  "jstr s \<equiv> printed (JStr s)"

definition encode_probe :: "probe_result \<Rightarrow> json" where
  "encode_probe p = JObj
     [(''success'', JBool (pr_success p)), (''stage'', jstr (pr_stage p)),
      (''probe/workspace'', jstr (pr_workspace p)), (''source/workspace'', jstr (pr_source p)),
      (''completed'', JArr (map jstr (pr_completed p))),
      (''diagnostics'', JArr (map (\<lambda>row. printed (JObj row)) (pr_diagnostics p))),
      (''log'', jstr (pr_log p))]"

definition encode_failure :: "restart_failure \<Rightarrow> json" where
  "encode_failure f = JObj (entries_of
     [(True, ''stage'', jstr (rf_stage f)), (True, ''message'', jstr (rf_message f)),
      (rf_log f \<noteq> [], ''log_path'', jstr (rf_log f)), (rf_evidence f \<noteq> [], ''exit_evidence'', jstr (rf_evidence f))])"

definition record_entries :: "restart_record \<Rightarrow> (bool \<times> string \<times> json) list" where
  "record_entries r =
     [(True, ''state'', jstr (rr_state r)), (True, ''transition_id'', jstr (rr_transition r)),
      (rr_generation r \<noteq> [], ''generation_id'', jstr (rr_generation r)),
      (rr_previous_generation r \<noteq> [], ''previous_generation_id'', jstr (rr_previous_generation r)),
      (rr_previous_weaver r \<noteq> [], ''previous_weaver_id'', jstr (rr_previous_weaver r)),
      (True, ''updated_at'', jstr (rr_updated_at r)),
      (rr_old_stopped r, ''old_generation_stopped'', JBool True),
      (rr_probe r \<noteq> None, ''probe'', (case rr_probe r of None \<Rightarrow> JNull | Some p \<Rightarrow> encode_probe p)),
      (rr_failure r \<noteq> None, ''failure'', (case rr_failure r of None \<Rightarrow> JNull | Some f \<Rightarrow> encode_failure f))]"

definition encode_record :: "restart_record \<Rightarrow> json" where
  "encode_record r = JObj (entries_of (record_entries r))"

text \<open>
  \<open>writeRestartRecord\<close> at time \<open>now\<close>; \<open>io\<close> tells whether the directory, the temporary file, its
  content and the renaming all succeed.  The file changes with the renaming or not at all.
\<close>

definition write_restart_record ::
    "string \<Rightarrow> bool \<Rightarrow> restart_record \<Rightarrow> document_text option \<Rightarrow> record_error option \<times> document_text option" where
  "write_restart_record now io r file =
     (case validate_restart_record ForWrite r of
        Some e \<Rightarrow> (Some e, file)
      | None \<Rightarrow>
          let r' = r\<lparr>rr_updated_at := now\<rparr> in
          if \<not> (case rr_probe r' of None \<Rightarrow> True | Some p \<Rightarrow> list_all (\<lambda>row. encodable (JObj row)) (pr_diagnostics p))
          then (Some MarshalFailed, file)
          else if \<not> io then (Some WriteFailed, file)
          else (None, Some (Text (encode_record r') RestEof)))"

definition failure_fields :: "string list" where
  "failure_fields = [''stage'', ''message'', ''log_path'', ''exit_evidence'']"

definition set_failure_field :: "string \<Rightarrow> json \<Rightarrow> restart_failure \<Rightarrow> restart_failure option" where
  "set_failure_field n v f =
     (if n = ''stage'' then map_option (\<lambda>x. f\<lparr>rf_stage := x\<rparr>) (decode_str (rf_stage f) v)
      else if n = ''message'' then map_option (\<lambda>x. f\<lparr>rf_message := x\<rparr>) (decode_str (rf_message f) v)
      else if n = ''log_path'' then map_option (\<lambda>x. f\<lparr>rf_log := x\<rparr>) (decode_str (rf_log f) v)
      else map_option (\<lambda>x. f\<lparr>rf_evidence := x\<rparr>) (decode_str (rf_evidence f) v))"

definition empty_failure :: restart_failure where
  "empty_failure = \<lparr>rf_stage = [], rf_message = [], rf_log = [], rf_evidence = []\<rparr>"

text \<open>A pointer to a struct: \<open>null\<close> gives nil, an object goes into the struct already there, if any.\<close>

definition decode_pointer ::
    "string list \<Rightarrow> (string \<Rightarrow> json \<Rightarrow> 's \<Rightarrow> 's option) \<Rightarrow> 's \<Rightarrow> 's option \<Rightarrow> json \<Rightarrow> 's option option" where
  "decode_pointer names set_field zero old v =
     (case v of
        JNull \<Rightarrow> Some None
      | JObj es \<Rightarrow> map_option Some (decode_fields names set_field es (case old of None \<Rightarrow> zero | Some s \<Rightarrow> s))
      | _ \<Rightarrow> None)"

definition record_fields :: "string list" where
  "record_fields = [''state'', ''transition_id'', ''generation_id'', ''previous_generation_id'',
     ''previous_weaver_id'', ''updated_at'', ''old_generation_stopped'', ''probe'', ''failure'']"

definition set_record_field :: "string \<Rightarrow> json \<Rightarrow> restart_record \<Rightarrow> restart_record option" where
  "set_record_field n v r =
     (if n = ''state'' then map_option (\<lambda>x. r\<lparr>rr_state := x\<rparr>) (decode_str (rr_state r) v)
      else if n = ''transition_id'' then map_option (\<lambda>x. r\<lparr>rr_transition := x\<rparr>) (decode_str (rr_transition r) v)
      else if n = ''generation_id'' then map_option (\<lambda>x. r\<lparr>rr_generation := x\<rparr>) (decode_str (rr_generation r) v)
      else if n = ''previous_generation_id''
        then map_option (\<lambda>x. r\<lparr>rr_previous_generation := x\<rparr>) (decode_str (rr_previous_generation r) v)
      else if n = ''previous_weaver_id''
        then map_option (\<lambda>x. r\<lparr>rr_previous_weaver := x\<rparr>) (decode_str (rr_previous_weaver r) v)
      else if n = ''updated_at'' then map_option (\<lambda>x. r\<lparr>rr_updated_at := x\<rparr>) (decode_str (rr_updated_at r) v)
      else if n = ''old_generation_stopped''
        then map_option (\<lambda>x. r\<lparr>rr_old_stopped := x\<rparr>) (decode_bool (rr_old_stopped r) v)
      else if n = ''probe''
        then map_option (\<lambda>x. r\<lparr>rr_probe := x\<rparr>) (decode_pointer probe_fields set_probe_field empty_probe (rr_probe r) v)
      else map_option (\<lambda>x. r\<lparr>rr_failure := x\<rparr>)
             (decode_pointer failure_fields set_failure_field empty_failure (rr_failure r) v))"

definition empty_record :: restart_record where
  "empty_record = \<lparr>rr_state = [], rr_transition = [], rr_generation = [], rr_previous_generation = [],
     rr_previous_weaver = [], rr_updated_at = [], rr_old_stopped = False, rr_probe = None, rr_failure = None,
     rr_generation_present = False, rr_old_stopped_present = False\<rparr>"

text \<open>\<open>readRestartRecordDetailed\<close>; \<open>Inl ()\<close> stands for a file that exists and cannot be read.\<close>

definition read_restart_record ::
    "(unit, document_text option) result \<Rightarrow> (record_error, restart_record option) result" where
  "read_restart_record file =
     (case file of
        Inl _ \<Rightarrow> Err ReadFailed
      | Inr None \<Rightarrow> Ok None
      | Inr (Some text) \<Rightarrow>
          (case decode_object text of
             None \<Rightarrow> Err RecordMalformed
           | Some raw \<Rightarrow>
               (case decode_fields record_fields set_record_field (sort_key fst raw) empty_record of
                  None \<Rightarrow> Err RecordMalformed
                | Some r \<Rightarrow>
                    (case List.find (\<lambda>(k, v). v = JNull) raw of
                       Some (k, v) \<Rightarrow> Err (RecordNull k)
                     | None \<Rightarrow>
                         (case validate_restart_record FromDisk r of
                            Some e \<Rightarrow> Err e
                          | None \<Rightarrow>
                              Ok (Some (r\<lparr>rr_generation_present := map_of raw ''generation_id'' \<noteq> None,
                                         rr_old_stopped_present := map_of raw ''old_generation_stopped'' \<noteq> None\<rparr>)))))))"

section \<open>Facts on guards and texts\<close>

lemma guards_None [simp]: "guards gs = None \<longleftrightarrow> (\<forall>(b, e) \<in> set gs. \<not> b)"
  by (induction gs) (auto split: if_splits)

declare guards.simps [simp del]

lemma guards_Some: "guards gs = Some e \<Longrightarrow> (True, e) \<in> set gs"
  by (induction gs) (auto simp: guards.simps split: if_splits)

text \<open>Values that reading gives back as they were written.\<close>

fun plain :: "json \<Rightarrow> bool" where
  "plain (JStr s) = utf8_valid s"
| "plain (JArr vs) = list_all plain vs"
| "plain (JObj es) = (strict_sorted_on fst es \<and> list_all (\<lambda>(k, v). utf8_valid k \<and> plain v) es)"
| "plain (JOpaque s e) = False"
| "plain v = True"

lemma object_map_distinct: "distinct (map fst es) \<Longrightarrow> object_map es = es"
  using fold_update_distinct [of fst es "[]" snd] by (simp add: object_map_def case_prod_unfold)

lemma plain_printed: "plain v \<Longrightarrow> printed v = v"
proof (induction v rule: plain.induct)
  case (2 vs)
  then show ?case by (auto simp: list_all_iff intro: map_idI)
next
  case (3 es)
  have "map (\<lambda>(k, v). (utf8_coerce k, printed v)) es = es"
    using 3 by (intro map_idI) (auto simp: list_all_iff)
  then show ?case using 3(2) by (simp add: sort_key_strict_sorted)
qed simp_all

lemma plain_any_of: "plain v \<Longrightarrow> any_of v = v"
proof (induction v rule: plain.induct)
  case (2 vs)
  then show ?case by (auto simp: list_all_iff intro: map_idI)
next
  case (3 es)
  have "map (\<lambda>(k, v). (k, any_of v)) es = es"
    using 3 by (intro map_idI) (auto simp: list_all_iff)
  then show ?case using 3(2) by (simp add: object_map_distinct strict_sorted_on_iff)
qed simp_all

lemma plain_encodable: "plain v \<Longrightarrow> encodable v"
  by (induction v rule: plain.induct) (auto simp: list_all_iff)

lemma decode_all_map: "(\<And>x. x \<in> set xs \<Longrightarrow> f (g x) = Some x) \<Longrightarrow> decode_all f (map g xs) = Some xs"
  by (induction xs) auto

lemma decode_fields_entry:
  "k \<in> set names \<Longrightarrow> set_field k v s = Some s' \<Longrightarrow> (\<not> b \<Longrightarrow> s' = s) \<Longrightarrow>
   decode_fields names set_field (entries_of ((b, k, v) # fs)) s = decode_fields names set_field (entries_of fs) s'"
  by (cases b) (auto simp: entries_of_def field_of_def)

text \<open>Sorting the entries of a struct is sorting its fields.\<close>

lemma sort_entries:
  assumes "mset fs = mset gs" and "strict_sorted_on (fst \<circ> snd) gs"
  shows "sort_key fst (entries_of fs) = entries_of gs"
proof -
  have m: "mset (entries_of fs) = mset (entries_of gs)"
    unfolding entries_of_def mset_map mset_filter by (simp only: assms(1))
  have "strict_sorted_on fst (entries_of gs)"
    using assms(2) unfolding strict_sorted_on_def entries_of_def sorted_wrt_map
    by (intro sorted_wrt_filter) (simp add: comp_def)
  then have d: "sorted (map fst (entries_of gs))" "inj_on fst (set (entries_of gs))"
    by (simp_all add: strict_sorted_on_iff distinct_map)
  have "set (entries_of fs) = set (entries_of gs)" using m by (rule mset_eq_setD)
  with m d show ?thesis by (intro sort_key_inj_key_eq) simp_all
qed

lemma plain_strings:
  "utf8_valid s \<Longrightarrow> jstr s = JStr s"
  by simp

definition plain_probe :: "probe_result \<Rightarrow> bool" where
  "plain_probe p \<longleftrightarrow> list_all utf8_valid ([pr_stage p, pr_workspace p, pr_source p, pr_log p] @ pr_completed p)
                   \<and> list_all (\<lambda>row. plain (JObj row)) (pr_diagnostics p)"

lemma decode_encoded_probe:
  assumes "plain_probe p"
  shows "decode_pointer probe_fields set_probe_field empty_probe None (encode_probe p) = Some (Some p)"
proof -
  have "decode_strs (JArr (map jstr (pr_completed p))) = Some (pr_completed p)"
    using assms by (auto simp: plain_probe_def list_all_iff intro!: decode_all_map)
  moreover have "decode_rows (JArr (map (\<lambda>row. printed (JObj row)) (pr_diagnostics p))) = Some (pr_diagnostics p)"
  proof -
    have "decode_row (printed (JObj row)) = Some row" if "row \<in> set (pr_diagnostics p)" for row
    proof -
      have "plain (JObj row)" using assms that by (simp add: plain_probe_def list_all_iff)
      then show ?thesis using plain_printed plain_any_of by (simp del: printed.simps any_of.simps plain.simps)
    qed
    then show ?thesis by (auto intro!: decode_all_map)
  qed
  ultimately show ?thesis
    using assms
    by (simp add: decode_pointer_def encode_probe_def field_of_def probe_fields_def set_probe_field_def
        empty_probe_def plain_probe_def del: decode_strs.simps decode_rows.simps printed.simps(3))
qed

definition plain_failure :: "restart_failure \<Rightarrow> bool" where
  "plain_failure f \<longleftrightarrow> list_all utf8_valid [rf_stage f, rf_message f, rf_log f, rf_evidence f]"

lemma decode_encoded_failure:
  assumes "plain_failure f"
  shows "decode_pointer failure_fields set_failure_field empty_failure None (encode_failure f) = Some (Some f)"
  using assms
  by (simp add: decode_pointer_def encode_failure_def entries_of_def field_of_def failure_fields_def set_failure_field_def
      empty_failure_def plain_failure_def)

definition sorted_entries :: "restart_record \<Rightarrow> (bool \<times> string \<times> json) list" where
  "sorted_entries r =
     [(rr_failure r \<noteq> None, ''failure'', (case rr_failure r of None \<Rightarrow> JNull | Some f \<Rightarrow> encode_failure f)),
      (rr_generation r \<noteq> [], ''generation_id'', jstr (rr_generation r)),
      (rr_old_stopped r, ''old_generation_stopped'', JBool True),
      (rr_previous_generation r \<noteq> [], ''previous_generation_id'', jstr (rr_previous_generation r)),
      (rr_previous_weaver r \<noteq> [], ''previous_weaver_id'', jstr (rr_previous_weaver r)),
      (rr_probe r \<noteq> None, ''probe'', (case rr_probe r of None \<Rightarrow> JNull | Some p \<Rightarrow> encode_probe p)),
      (True, ''state'', jstr (rr_state r)), (True, ''transition_id'', jstr (rr_transition r)),
      (True, ''updated_at'', jstr (rr_updated_at r))]"

lemma sorted_field_names:
  "sorted_wrt (<) [''failure'', ''generation_id'', ''old_generation_stopped'', ''previous_generation_id'',
     ''previous_weaver_id'', ''probe'', ''state'', ''transition_id'', ''updated_at'']"
  by code_simp

lemma sort_record_entries: "sort_key fst (entries_of (record_entries r)) = entries_of (sorted_entries r)"
proof (rule sort_entries)
  show "mset (record_entries r) = mset (sorted_entries r)"
    by (simp add: record_entries_def sorted_entries_def del: printed.simps)
  have "sorted_wrt (<) (map (fst \<circ> snd) (sorted_entries r))"
    using sorted_field_names by (simp only: sorted_entries_def list.map comp_apply fst_conv snd_conv)
  then show "strict_sorted_on (fst \<circ> snd) (sorted_entries r)"
    unfolding strict_sorted_on_def by (simp only: sorted_wrt_map)
qed

lemma distinct_record_entries: "distinct (map fst (entries_of (record_entries r)))"
  unfolding entries_of_def map_map
  by (rule distinct_map_filter) (simp add: record_entries_def)

definition plain_record :: "restart_record \<Rightarrow> bool" where
  "plain_record r \<longleftrightarrow>
     list_all utf8_valid [rr_state r, rr_transition r, rr_generation r, rr_previous_generation r, rr_previous_weaver r]
     \<and> (case rr_probe r of None \<Rightarrow> True | Some p \<Rightarrow> plain_probe p)
     \<and> (case rr_failure r of None \<Rightarrow> True | Some f \<Rightarrow> plain_failure f)"

lemma set_probe_entry:
  "(case rr_probe r of None \<Rightarrow> True | Some p \<Rightarrow> plain_probe p) \<Longrightarrow> rr_probe s = None \<Longrightarrow>
   set_record_field ''probe'' (case rr_probe r of None \<Rightarrow> JNull | Some p \<Rightarrow> encode_probe p) s
     = Some (s\<lparr>rr_probe := rr_probe r\<rparr>)"
  using decode_encoded_probe by (cases "rr_probe r") (auto simp: set_record_field_def decode_pointer_def)

lemma set_failure_entry:
  "(case rr_failure r of None \<Rightarrow> True | Some f \<Rightarrow> plain_failure f) \<Longrightarrow> rr_failure s = None \<Longrightarrow>
   set_record_field ''failure'' (case rr_failure r of None \<Rightarrow> JNull | Some f \<Rightarrow> encode_failure f) s
     = Some (s\<lparr>rr_failure := rr_failure r\<rparr>)"
  using decode_encoded_failure by (cases "rr_failure r") (auto simp: set_record_field_def decode_pointer_def)

lemma set_string_entries:
  "utf8_valid x \<Longrightarrow> set_record_field ''generation_id'' (jstr x) s = Some (s\<lparr>rr_generation := x\<rparr>)"
  "utf8_valid x \<Longrightarrow> set_record_field ''previous_generation_id'' (jstr x) s = Some (s\<lparr>rr_previous_generation := x\<rparr>)"
  "utf8_valid x \<Longrightarrow> set_record_field ''previous_weaver_id'' (jstr x) s = Some (s\<lparr>rr_previous_weaver := x\<rparr>)"
  "utf8_valid x \<Longrightarrow> set_record_field ''state'' (jstr x) s = Some (s\<lparr>rr_state := x\<rparr>)"
  "utf8_valid x \<Longrightarrow> set_record_field ''transition_id'' (jstr x) s = Some (s\<lparr>rr_transition := x\<rparr>)"
  "utf8_valid x \<Longrightarrow> set_record_field ''updated_at'' (jstr x) s = Some (s\<lparr>rr_updated_at := x\<rparr>)"
  "set_record_field ''old_generation_stopped'' (JBool b) s = Some (s\<lparr>rr_old_stopped := b\<rparr>)"
  by (simp_all add: set_record_field_def)

lemma decode_record_entries:
  assumes plain: "plain_record r" and at: "utf8_valid (rr_updated_at r)"
  shows "decode_fields record_fields set_record_field (entries_of (sorted_entries r)) empty_record =
         Some (r\<lparr>rr_generation_present := False, rr_old_stopped_present := False\<rparr>)"
proof -
  let ?d = "\<lambda>fs s. decode_fields record_fields set_record_field (entries_of fs) s"
  let ?s1 = "empty_record\<lparr>rr_failure := rr_failure r\<rparr>"
  let ?s2 = "?s1\<lparr>rr_generation := rr_generation r\<rparr>"
  let ?s3 = "?s2\<lparr>rr_old_stopped := rr_old_stopped r\<rparr>"
  let ?s4 = "?s3\<lparr>rr_previous_generation := rr_previous_generation r\<rparr>"
  let ?s5 = "?s4\<lparr>rr_previous_weaver := rr_previous_weaver r\<rparr>"
  let ?s6 = "?s5\<lparr>rr_probe := rr_probe r\<rparr>"
  have f: "?d ((rr_failure r \<noteq> None, ''failure'', (case rr_failure r of None \<Rightarrow> JNull | Some f \<Rightarrow> encode_failure f)) # fs)
             empty_record = ?d fs ?s1" for fs
    using plain by (intro decode_fields_entry set_failure_entry)
      (auto simp: plain_record_def record_fields_def empty_record_def)
  have g: "?d ((rr_generation r \<noteq> [], ''generation_id'', jstr (rr_generation r)) # fs) ?s1 = ?d fs ?s2" for fs
    using plain by (intro decode_fields_entry set_string_entries)
      (auto simp: plain_record_def record_fields_def empty_record_def)
  have o: "?d ((rr_old_stopped r, ''old_generation_stopped'', JBool True) # fs) ?s2 = ?d fs ?s3" for fs
    by (cases "rr_old_stopped r") (simp_all add: entries_of_def field_of_def record_fields_def set_string_entries empty_record_def)
  have pg: "?d ((rr_previous_generation r \<noteq> [], ''previous_generation_id'', jstr (rr_previous_generation r)) # fs) ?s3
            = ?d fs ?s4" for fs
    using plain by (intro decode_fields_entry set_string_entries)
      (auto simp: plain_record_def record_fields_def empty_record_def)
  have pw: "?d ((rr_previous_weaver r \<noteq> [], ''previous_weaver_id'', jstr (rr_previous_weaver r)) # fs) ?s4
            = ?d fs ?s5" for fs
    using plain by (intro decode_fields_entry set_string_entries)
      (auto simp: plain_record_def record_fields_def empty_record_def)
  have p: "?d ((rr_probe r \<noteq> None, ''probe'', (case rr_probe r of None \<Rightarrow> JNull | Some p \<Rightarrow> encode_probe p)) # fs)
             ?s5 = ?d fs ?s6" for fs
    using plain by (intro decode_fields_entry set_probe_entry)
      (auto simp: plain_record_def record_fields_def empty_record_def)
  have rest: "?d [(True, ''state'', jstr (rr_state r)), (True, ''transition_id'', jstr (rr_transition r)),
                  (True, ''updated_at'', jstr (rr_updated_at r))] ?s6
              = Some (?s6\<lparr>rr_state := rr_state r, rr_transition := rr_transition r, rr_updated_at := rr_updated_at r\<rparr>)"
    using plain at by (simp add: entries_of_def field_of_def record_fields_def set_string_entries plain_record_def del: printed.simps)
  show ?thesis
    unfolding sorted_entries_def f g o pg pw p rest by (simp add: empty_record_def)
qed

section \<open>Status\<close>

text \<open>
  A status is a map to \<open>any\<close>; besides JSON values it holds machine integers and the structs of a
  failure and of a probe, which type assertions tell from other values.  The text of a reason why
  metadata is stale is kept as the reason itself.
\<close>

datatype stale_reason =
    ProtocolMismatch int
  | FieldsMissing
  | VersionInvalid string
  | LabelBlank string
  | FileInconsistent string string
  | MemoryInconsistent string string
  | StorageUnknown string
  | PoolPathMissing
  | StorageUnsupported string
  | IdentityMismatch
  | PidDead int
  | MetadataMalformed string
  | RecordInvalid record_error

datatype status_value = SV json | SInt int | SFailure restart_failure | SProbe probe_result | SReason stale_reason

type_synonym status = "(string \<times> status_value) list"

fun text_entry :: "status_value option \<Rightarrow> string option" where
  "text_entry (Some (SV (JStr s))) = Some s"
| "text_entry v = None"

definition entry :: "status \<Rightarrow> string \<Rightarrow> status_value" where
  "entry m k = (case map_of m k of None \<Rightarrow> SV JNull | Some v \<Rightarrow> v)"

text \<open>\<open>friendlyName\<close>; \<open>configured\<close> is the name in the configuration, or the failure to load it.\<close>

definition friendly_name :: "(unit, string) result \<Rightarrow> world \<Rightarrow> string \<Rightarrow> string option" where
  "friendly_name configured w requested =
     (if requested \<noteq> [] then (if blank requested then None else Some requested)
      else (case configured of
              Inl _ \<Rightarrow> None
            | Inr name \<Rightarrow>
                if name \<noteq> [] then Some name
                else let base = base_path (w_config_dir w) in
                     if base = ''.'' \<or> base = ''/'' \<or> blank base then None else Some base))"

definition weaver_log_path :: "string \<Rightarrow> string" where
  "weaver_log_path dir = join_path [dir, ''weaver.log'']"

definition base_status_with_name :: "(unit, string) result \<Rightarrow> world \<Rightarrow> string \<Rightarrow> string \<Rightarrow> status" where
  "base_status_with_name configured w state requested =
     [(''state'', SV (JStr state)), (''config_dir'', SV (JStr (w_config_dir w))),
      (''state_dir'', SV (JStr (w_state_dir w))), (''data_dir'', SV (JStr (w_data_dir w))),
      (''database_kind'', SV (JStr ''sqlite-file'')), (''database_label'', SV (JStr (w_db_path w))),
      (''database_path'', SV (JStr (w_db_path w))),
      (''name'', SV (JStr (case friendly_name configured w requested of None \<Rightarrow> [] | Some n \<Rightarrow> n))),
      (''log_path'', SV (JStr (weaver_log_path (w_state_dir w))))]"

definition base_status :: "(unit, string) result \<Rightarrow> world \<Rightarrow> string \<Rightarrow> status" where
  "base_status configured w state = base_status_with_name configured w state []"

definition put :: "bool \<Rightarrow> string \<Rightarrow> status_value \<Rightarrow> status \<Rightarrow> status" where
  "put c k v m = (if c then AList.update k v m else m)"

definition failure_rows :: "restart_failure \<Rightarrow> status_value" where
  "failure_rows f = SV (JArr [JObj [(''stage'', JStr (rf_stage f)), (''status'', JStr ''failed''),
     (''data'', JObj [(''message'', JStr (rf_message f)), (''log_path'', JStr (rf_log f))])]])"

definition record_status :: "(unit, string) result \<Rightarrow> world \<Rightarrow> restart_record \<Rightarrow> status" where
  "record_status configured w r =
     (let m = base_status configured w (rr_state r);
          m = put True ''operation'' (SV (JStr ''restart'')) m;
          m = put True ''workspace'' (SV (JStr (w_config_dir w))) m;
          m = put (rr_generation r \<noteq> [] \<or> rr_generation_present r) ''generation_id'' (SV (JStr (rr_generation r))) m;
          m = put (rr_previous_generation r \<noteq> []) ''previous_generation_id'' (SV (JStr (rr_previous_generation r))) m;
          m = put True ''transition_id'' (SV (JStr (rr_transition r))) m;
          m = put (rr_old_stopped r \<or> rr_old_stopped_present r) ''old_generation_stopped'' (SV (JBool (rr_old_stopped r))) m;
          m = (case rr_probe r of None \<Rightarrow> m | Some p \<Rightarrow> put True ''probe'' (SProbe p) m)
      in (case rr_failure r of
            None \<Rightarrow> m
          | Some f \<Rightarrow> put True ''diagnostics'' (failure_rows f) (put True ''failure'' (SFailure f) m)))"

definition compact_status :: "(unit, string) result \<Rightarrow> world \<Rightarrow> restart_record \<Rightarrow> status" where
  "compact_status configured w r =
     (let m = base_status configured w (rr_state r);
          m = put (rr_generation r \<noteq> []) ''generation_id'' (SV (JStr (rr_generation r))) m;
          m = put (rr_previous_generation r \<noteq> []) ''previous_generation_id'' (SV (JStr (rr_previous_generation r))) m;
          m = put True ''transition_id'' (SV (JStr (rr_transition r))) m;
          m = put (rr_old_stopped r \<or> rr_old_stopped_present r) ''old_generation_stopped'' (SV (JBool (rr_old_stopped r))) m
      in (case rr_failure r of None \<Rightarrow> m | Some f \<Rightarrow> put True ''restart_failure'' (SFailure f) m))"

definition merge_record_status :: "status \<Rightarrow> restart_record \<Rightarrow> status" where
  "merge_record_status m r =
     (let m = put (rr_generation r \<noteq> [] \<or> rr_generation_present r) ''generation_id'' (SV (JStr (rr_generation r))) m;
          m = put (rr_previous_generation r \<noteq> []) ''previous_generation_id'' (SV (JStr (rr_previous_generation r))) m;
          m = put (rr_transition r \<noteq> []) ''transition_id'' (SV (JStr (rr_transition r))) m;
          m = put (rr_old_stopped r \<or> rr_old_stopped_present r) ''old_generation_stopped'' (SV (JBool (rr_old_stopped r))) m;
          m = (case rr_probe r of None \<Rightarrow> m | Some p \<Rightarrow> put True ''probe'' (SProbe p) m)
      in (case rr_failure r of
            None \<Rightarrow> m
          | Some f \<Rightarrow> put True ''diagnostics'' (failure_rows f) (put True ''restart_failure'' (SFailure f) m)))"

definition compact_record :: "restart_record \<Rightarrow> restart_record" where
  "compact_record r = r\<lparr>rr_probe := None\<rparr>"

definition merge_compact_status :: "status \<Rightarrow> restart_record \<Rightarrow> status" where
  "merge_compact_status m r =
     (let m = put (rr_generation r \<noteq> []) ''generation_id'' (SV (JStr (rr_generation r))) m;
          m = put (rr_transition r \<noteq> []) ''transition_id'' (SV (JStr (rr_transition r))) m
      in (case rr_failure r of None \<Rightarrow> m | Some f \<Rightarrow> put True ''restart_failure'' (SFailure f) m))"

section \<open>Projections\<close>

definition boundary_status :: "world \<Rightarrow> status \<Rightarrow> status" where
  "boundary_status w m =
     put True ''workspace'' (SV (JStr (w_config_dir w))) (put True ''operation'' (SV (JStr ''weaver-restart'')) m)"

definition project :: "status \<Rightarrow> status" where
  "project m = concat (map (\<lambda>k. case map_of m k of None \<Rightarrow> [] | Some v \<Rightarrow> [(k, v)])
                           [''generation_id'', ''transition_id'', ''diagnostics''])"

definition restart_result_projection :: "status \<Rightarrow> status" where
  "restart_result_projection m =
     (let state = (case text_entry (map_of m ''state'') of None \<Rightarrow> [] | Some s \<Rightarrow> s);
          state = (if text_entry (map_of m ''restart_state'') = Some state_failed then state_failed else state)
      in [(''operation'', SV (JStr ''restart'')), (''workspace'', entry m ''workspace''), (''state'', SV (JStr state))]
         @ project m)"

datatype projection_error =
    ProjectionNull
  | OperationMissing
  | OperationPresent
  | ProjectionUnknown string
  | WorkspaceMissing
  | ProjectionState
  | IdentityBlank string
  | DiagnosticsShape
  | DiagnosticInvalid probe_error
  | FieldMissing string string
  | FieldPresent string string

fun diagnostic_rows :: "status_value \<Rightarrow> object list option" where
  "diagnostic_rows (SV (JArr vs)) = decode_all (\<lambda>v. as_object (Some v)) vs"
| "diagnostic_rows v = None"

definition validate_restart_diagnostic :: "object \<Rightarrow> probe_error option" where
  "validate_restart_diagnostic row =
     (case unknown_key [''stage'', ''status'', ''data'', ''generation_id'', ''transition_id''] row of
        Some k \<Rightarrow> Some (DiagnosticUnknown k)
      | None \<Rightarrow> guards
          [(blank_text (map_of row ''stage''), DiagnosticStage),
           (bad_status (map_of row ''status''), DiagnosticStatus),
           (map_of row ''data'' \<noteq> None \<and> as_object (map_of row ''data'') = None, DiagnosticData)])"

definition identity_error :: "status \<Rightarrow> string \<Rightarrow> projection_error option" where
  "identity_error m key =
     (case map_of m key of
        None \<Rightarrow> None
      | Some v \<Rightarrow> (case text_entry (Some v) of
                    None \<Rightarrow> Some (IdentityBlank key)
                  | Some s \<Rightarrow> if blank s then Some (IdentityBlank key) else None))"

definition diagnostics_error :: "status \<Rightarrow> projection_error option" where
  "diagnostics_error m =
     (case map_of m ''diagnostics'' of
        None \<Rightarrow> None
      | Some v \<Rightarrow> (case diagnostic_rows v of
                    None \<Rightarrow> Some DiagnosticsShape
                  | Some [] \<Rightarrow> Some DiagnosticsShape
                  | Some rows \<Rightarrow> map_option DiagnosticInvalid (first_error validate_restart_diagnostic rows)))"

definition shape_error :: "status \<Rightarrow> string \<Rightarrow> bool \<Rightarrow> projection_error option" where
  "shape_error m state allow_diagnostics =
     (let has = (\<lambda>k. map_of m k \<noteq> None) in
      if state = state_probing then guards
        [(\<not> has ''generation_id'', FieldMissing state ''generation_id''),
         (\<not> has ''transition_id'', FieldMissing state ''transition_id''),
         (has ''diagnostics'', FieldPresent state ''diagnostics'')]
      else if state = state_restarting then guards
        [(\<not> has ''transition_id'', FieldMissing state ''transition_id''),
         (has ''generation_id'', FieldPresent state ''generation_id''),
         (has ''diagnostics'', FieldPresent state ''diagnostics'')]
      else if state = state_running then guards
        [(\<not> has ''generation_id'', FieldMissing state ''generation_id''),
         (has ''diagnostics'' \<and> \<not> allow_diagnostics, FieldPresent state ''diagnostics'')]
      else guards [(\<not> has ''diagnostics'', FieldMissing state ''diagnostics'')])"

definition validate_restart_projection :: "status option \<Rightarrow> bool \<Rightarrow> bool \<Rightarrow> projection_error option" where
  "validate_restart_projection status with_operation allow_diagnostics =
     (case status of
        None \<Rightarrow> Some ProjectionNull
      | Some m \<Rightarrow>
          let allowed = [''workspace'', ''state'', ''generation_id'', ''transition_id'', ''diagnostics'']
                        @ (if with_operation then [''operation''] else []) in
          if with_operation \<and> map_of m ''operation'' \<noteq> Some (SV (JStr ''restart'')) then Some OperationMissing
          else if \<not> with_operation \<and> map_of m ''operation'' \<noteq> None then Some OperationPresent
          else (case map_option ProjectionUnknown (List.find (\<lambda>k. k \<notin> set allowed) (map fst m)) of
            Some e \<Rightarrow> Some e
          | None \<Rightarrow>
              if (case text_entry (map_of m ''workspace'') of None \<Rightarrow> True | Some s \<Rightarrow> blank s) then Some WorkspaceMissing
              else (case text_entry (map_of m ''state'') of
                None \<Rightarrow> Some ProjectionState
              | Some state \<Rightarrow>
                  if state \<notin> set restart_states then Some ProjectionState
                  else (case first_error (identity_error m) [''generation_id'', ''transition_id''] of
                    Some e \<Rightarrow> Some e
                  | None \<Rightarrow> (case diagnostics_error m of
                      Some e \<Rightarrow> Some e
                    | None \<Rightarrow> shape_error m state allow_diagnostics)))))"

definition validate_restart_result :: "status option \<Rightarrow> projection_error option" where
  "validate_restart_result m = validate_restart_projection m True False"

definition validate_mill_status_projection :: "status option \<Rightarrow> bool \<Rightarrow> projection_error option" where
  "validate_mill_status_projection m details = validate_restart_projection m False details"

definition mill_status_projection :: "status \<Rightarrow> status option" where
  "mill_status_projection m =
     (let state = (case text_entry (map_of m ''state'') of None \<Rightarrow> [] | Some s \<Rightarrow> s);
          restart_state = (case text_entry (map_of m ''restart_state'') of None \<Rightarrow> [] | Some s \<Rightarrow> s);
          state = (if restart_state \<noteq> [] \<and> state \<in> set restart_states then restart_state else state) in
      if state \<notin> set restart_states then None
      else let projection = [(''state'', SV (JStr state)), (''workspace'', entry m ''config_dir'')] @ project m in
           Some (if state = state_failed \<and> map_of projection ''diagnostics'' = None then
                   (case map_of m ''restart_failure'' of
                      Some (SFailure f) \<Rightarrow> projection @ [(''diagnostics'', failure_rows f)]
                    | _ \<Rightarrow> projection)
                 else projection))"

text \<open>\<open>validateAdmissionState\<close> and \<open>restartStatusState\<close>.\<close>

datatype admission_error = AdmissionUnknown string | AdmissionState | GenerationMissing | TransitionPresent
  | TransitionMissing | GenerationPresent

definition validate_admission_state :: "object \<Rightarrow> admission_error option" where
  "validate_admission_state m =
     (case unknown_key [''state'', ''generation_id'', ''transition_id''] m of
        Some k \<Rightarrow> Some (AdmissionUnknown k)
      | None \<Rightarrow>
          let state = as_string (map_of m ''state'') in
          guards
            [(state \<notin> {Some ''open'', Some ''closed''}, AdmissionState),
             (state = Some ''open'' \<and> blank_text (map_of m ''generation_id''), GenerationMissing),
             (state = Some ''open'' \<and> map_of m ''transition_id'' \<noteq> None, TransitionPresent),
             (state = Some ''closed'' \<and> blank_text (map_of m ''transition_id''), TransitionMissing),
             (state = Some ''closed'' \<and> map_of m ''generation_id'' \<noteq> None, GenerationPresent)])"

definition restart_status_state :: "json \<Rightarrow> string option" where
  "restart_status_state v =
     (case v of
        JObj [(k, w)] \<Rightarrow>
          if k \<noteq> ''state'' then None
          else (case w of
                  JStr state \<Rightarrow> if state \<in> set (''idle'' # restart_states) then Some state else None
                | _ \<Rightarrow> None)
      | _ \<Rightarrow> None)"

section \<open>Properties of the record\<close>

text \<open>The reader's flags say which optional fields the writer has put into the file.\<close>

definition as_read :: "string \<Rightarrow> restart_record \<Rightarrow> restart_record" where
  "as_read now r = r\<lparr>rr_updated_at := now, rr_generation_present := rr_generation r \<noteq> [],
                     rr_old_stopped_present := rr_old_stopped r\<rparr>"

lemma record_accepted:
  "validate_restart_record mode r = None \<longleftrightarrow>
     \<not> blank (rr_transition r)
     \<and> (mode = ForWrite \<longrightarrow> rr_updated_at r = []) \<and> (mode = FromDisk \<longrightarrow> \<not> blank (rr_updated_at r))
     \<and> rr_state r \<in> set restart_states
     \<and> (rr_generation r \<noteq> [] \<longrightarrow> \<not> blank (rr_generation r))
     \<and> (rr_previous_generation r \<noteq> [] \<longrightarrow> \<not> blank (rr_previous_generation r))
     \<and> (rr_previous_weaver r \<noteq> [] \<longrightarrow> \<not> blank (rr_previous_weaver r))
     \<and> (rr_old_stopped r \<longrightarrow> probe_succeeded r \<and> (rr_state r = state_failed \<or> \<not> blank (rr_generation r)))
     \<and> (rr_state r = state_probing \<longrightarrow>
          \<not> blank (rr_generation r) \<and> rr_probe r = None \<and> rr_failure r = None \<and> \<not> rr_old_stopped r)
     \<and> (rr_state r = state_running \<longrightarrow> \<not> blank (rr_generation r))
     \<and> (rr_state r = state_failed \<longrightarrow> rr_failure r \<noteq> None)
     \<and> (case rr_failure r of None \<Rightarrow> True | Some f \<Rightarrow>
          \<not> blank (rf_stage f) \<and> \<not> blank (rf_message f)
          \<and> (if rr_state r = state_running then rf_stage f = ''probe'' \<and> rr_probe r \<noteq> None \<and> \<not> probe_succeeded r
             else rr_state r = state_failed)
          \<and> (rr_old_stopped r \<longrightarrow> rf_stage f = ''launch''))
     \<and> (case rr_probe r of None \<Rightarrow> True | Some p \<Rightarrow> validate_probe p = None)"
  by (simp add: validate_restart_record_def failure_error_def stage_of_def split: option.split) blast

lemma probe_succeeded_update [simp]:
  "probe_succeeded (r\<lparr>rr_updated_at := now\<rparr>) = probe_succeeded r"
  "probe_succeeded (r\<lparr>rr_generation_present := g\<rparr>) = probe_succeeded r"
  "probe_succeeded (r\<lparr>rr_old_stopped_present := o'\<rparr>) = probe_succeeded r"
  by (simp_all add: probe_succeeded_def)

lemma validate_mode:
  "validate_restart_record ForWrite r = None \<Longrightarrow> \<not> blank now \<Longrightarrow>
   validate_restart_record FromDisk (r\<lparr>rr_updated_at := now, rr_generation_present := g, rr_old_stopped_present := o'\<rparr>) = None"
  by (cases "rr_failure r") (auto simp: record_accepted)

lemma map_of_entries: "map_of (entries_of ((b, k', v) # fs)) k =
    (if b \<and> k' = k then Some v else map_of (entries_of fs) k)"
  by (simp add: entries_of_def)

lemma map_of_no_entries: "map_of (entries_of []) k = None"
  by (simp add: entries_of_def)

lemma record_read_back:
  assumes "write_restart_record now io r file = (None, file')"
    and "plain_record r" and "utf8_valid now" and "\<not> blank now"
  shows "read_restart_record (Ok file') = Ok (Some (as_read now r))"
proof -
  let ?r = "r\<lparr>rr_updated_at := now\<rparr>"
  have ok: "validate_restart_record ForWrite r = None" and disk: "file' = Some (Text (encode_record ?r) RestEof)"
    using assms(1) by (auto simp: write_restart_record_def Let_def split: option.splits if_splits)
  have raw: "decode_object (Text (encode_record ?r) RestEof) = Some (entries_of (record_entries ?r))"
    by (simp add: decode_object_def encode_record_def object_map_distinct distinct_record_entries)
  have dec: "decode_fields record_fields set_record_field (sort_key fst (entries_of (record_entries ?r))) empty_record
      = Some (?r\<lparr>rr_generation_present := False, rr_old_stopped_present := False\<rparr>)"
    unfolding sort_record_entries using assms(2,3) by (intro decode_record_entries) (simp_all add: plain_record_def)
  have nulls: "List.find (\<lambda>(k, v). v = JNull) (entries_of (record_entries ?r)) = None"
    by (auto simp: find_None_iff entries_of_def record_entries_def encode_probe_def encode_failure_def split: option.splits)
  have valid: "validate_restart_record FromDisk (?r\<lparr>rr_generation_present := False, rr_old_stopped_present := False\<rparr>) = None"
    by (rule validate_mode [OF ok assms(4)])
  have present: "map_of (entries_of (record_entries ?r)) ''generation_id'' \<noteq> None \<longleftrightarrow> rr_generation r \<noteq> []"
    "map_of (entries_of (record_entries ?r)) ''old_generation_stopped'' \<noteq> None \<longleftrightarrow> rr_old_stopped r"
    by (simp_all add: record_entries_def map_of_entries map_of_no_entries)
  show ?thesis
    by (simp add: read_restart_record_def disk raw dec nulls valid present as_read_def del: not_None_eq)
qed

text \<open>
  C24:
  A restart record that was written is read back as it was, for every record the writer accepts
  whose texts are valid UTF-8 and whose probe diagnostics are values as the decoder delivers them:
  with the time of writing, which is not blank, and with the flags telling which optional fields are
  present.  The writer does not check these conditions on texts.
\<close>
theorem restart_record_roundtrip:
  assumes "write_restart_record now io r file = (None, file')"
    and "plain_record r" and "utf8_valid now" and "\<not> blank now"
  shows "read_restart_record (Ok file') = Ok (Some (as_read now r))"
  using assms by (rule record_read_back)


section \<open>Properties of the projections\<close>

lemma map_of_put [simp]: "map_of (put c k v m) k' = (if c \<and> k = k' then Some v else map_of m k')"
  by (simp add: put_def update_conv')

lemma base_status_entries:
  "map_of (base_status configured w state) ''state'' = Some (SV (JStr state))"
  "map_of (base_status configured w state) ''config_dir'' = Some (SV (JStr (w_config_dir w)))"
  "k \<notin> set [''state'', ''config_dir'', ''state_dir'', ''data_dir'', ''database_kind'', ''database_label'',
      ''database_path'', ''name'', ''log_path''] \<Longrightarrow> map_of (base_status configured w state) k = None"
  by (simp_all add: base_status_def base_status_with_name_def)

lemma compact_status_entries:
  "map_of (compact_status configured w r) ''state'' = Some (SV (JStr (rr_state r)))"
  "map_of (compact_status configured w r) ''config_dir'' = Some (SV (JStr (w_config_dir w)))"
  "map_of (compact_status configured w r) ''restart_state'' = None"
  "map_of (compact_status configured w r) ''diagnostics'' = None"
  "map_of (compact_status configured w r) ''transition_id'' = Some (SV (JStr (rr_transition r)))"
  "map_of (compact_status configured w r) ''generation_id'' =
     (if rr_generation r \<noteq> [] then Some (SV (JStr (rr_generation r))) else None)"
  "map_of (compact_status configured w r) ''restart_failure'' = map_option SFailure (rr_failure r)"
  by (simp_all add: compact_status_def Let_def base_status_entries split: option.split)

lemma diagnostic_rows_failure [simp]:
  "diagnostic_rows (failure_rows f) = Some [[(''stage'', JStr (rf_stage f)), (''status'', JStr ''failed''),
     (''data'', JObj [(''message'', JStr (rf_message f)), (''log_path'', JStr (rf_log f))])]]"
  by (simp add: failure_rows_def)

lemma valid_failure_row:
  "\<not> blank (rf_stage f) \<Longrightarrow> validate_restart_diagnostic [(''stage'', JStr (rf_stage f)), (''status'', JStr ''failed''),
     (''data'', JObj [(''message'', JStr (rf_message f)), (''log_path'', JStr (rf_log f))])] = None"
  by (simp add: validate_restart_diagnostic_def blank_text_def bad_status_def diagnostic_statuses_def)

text \<open>What a projection has to show.\<close>

lemma projection_accepted:
  "validate_restart_projection (Some m) with_operation allow = None \<longleftrightarrow>
     (if with_operation then map_of m ''operation'' = Some (SV (JStr ''restart'')) else map_of m ''operation'' = None)
     \<and> fst ` set m \<subseteq> set ([''workspace'', ''state'', ''generation_id'', ''transition_id'', ''diagnostics'']
                          @ (if with_operation then [''operation''] else []))
     \<and> (\<exists>s. map_of m ''workspace'' = Some (SV (JStr s)) \<and> \<not> blank s)
     \<and> (\<exists>state. map_of m ''state'' = Some (SV (JStr state)) \<and> state \<in> set restart_states
          \<and> shape_error m state allow = None)
     \<and> identity_error m ''generation_id'' = None \<and> identity_error m ''transition_id'' = None
     \<and> diagnostics_error m = None"
proof -
  have unknown: "map_option ProjectionUnknown (List.find (\<lambda>k. k \<notin> set ks) (map fst m)) = None
      \<longleftrightarrow> fst ` set m \<subseteq> set ks" for ks
    by (auto simp: find_None_iff)
  have ws: "(case text_entry v of None \<Rightarrow> True | Some s \<Rightarrow> blank s) \<longleftrightarrow> \<not> (\<exists>s. v = Some (SV (JStr s)) \<and> \<not> blank s)" for v
    by (cases v rule: text_entry.cases) auto
  have st: "(case text_entry v of None \<Rightarrow> Some e | Some x \<Rightarrow> f x) = None
      \<longleftrightarrow> (\<exists>x. v = Some (SV (JStr x)) \<and> f x = None)" for v f and e :: projection_error
    by (cases v rule: text_entry.cases) auto
  have if_None: "(if b then Some e else x) = None \<longleftrightarrow> \<not> b \<and> x = None" for b x and e :: projection_error
    by simp
  show ?thesis
    unfolding validate_restart_projection_def option.case Let_def if_None case_error_None unknown ws st
      first_error_None
    by (cases with_operation) auto
qed

text \<open>
  For every record the Mill accepts, the compact status of its workspace projects to a status the
  Mill accepts, except that a record of an interrupted cutover (state restarting with a generation, as
  every transition writes it) is refused by the Mill itself: after a crash in the middle of a cutover
  the command that should show this fails.
\<close>
theorem compact_status_projects:
  assumes "validate_restart_record mode r = None" and "\<not> blank (w_config_dir w)"
  shows "\<exists>p. mill_status_projection (compact_status configured w r) = Some p
     \<and> (validate_mill_status_projection (Some p) details = None \<longleftrightarrow> \<not> (rr_state r = state_restarting \<and> rr_generation r \<noteq> []))"
proof -
  note ok = assms(1) [unfolded record_accepted]
  have st: "rr_state r = state_probing \<or> rr_state r = state_restarting \<or> rr_state r = state_running \<or> rr_state r = state_failed"
    using ok by (simp add: restart_states_def)
  let ?m = "compact_status configured w r"
  let ?p = "[(''state'', SV (JStr (rr_state r))), (''workspace'', SV (JStr (w_config_dir w)))] @ project ?m"
  have pr: "project ?m = (if rr_generation r \<noteq> [] then [(''generation_id'', SV (JStr (rr_generation r)))] else [])
                       @ [(''transition_id'', SV (JStr (rr_transition r)))]"
    by (simp add: project_def compact_status_entries)
  have mem: "rr_state r \<in> set restart_states" using ok by blast
  show ?thesis
  proof (cases "rr_state r = state_failed")
    case True
    then obtain f where f: "rr_failure r = Some f" using ok by auto
    have "mill_status_projection ?m = Some (?p @ [(''diagnostics'', failure_rows f)])"
      using mem True f by (simp add: mill_status_projection_def Let_def compact_status_entries entry_def pr)
    moreover have "validate_mill_status_projection (Some (?p @ [(''diagnostics'', failure_rows f)])) details = None"
      using ok f assms(2) True
      by (simp add: validate_mill_status_projection_def projection_accepted pr identity_error_def diagnostics_error_def
          valid_failure_row shape_error_def mem)
    ultimately show ?thesis using True by (simp add: state_defs)
  next
    case False
    note view = validate_mill_status_projection_def projection_accepted pr identity_error_def diagnostics_error_def shape_error_def
    have "mill_status_projection ?m = Some ?p"
      using mem False by (simp add: mill_status_projection_def Let_def compact_status_entries entry_def pr)
    moreover have "validate_mill_status_projection (Some ?p) details = None
        \<longleftrightarrow> \<not> (rr_state r = state_restarting \<and> rr_generation r \<noteq> [])"
    proof -
      from st False consider "rr_state r = state_probing" | "rr_state r = state_restarting" | "rr_state r = state_running"
        by blast
      then show ?thesis
      proof cases
        case 1
        then have g: "\<not> blank (rr_generation r)" "rr_generation r \<noteq> []" using ok by auto
        show ?thesis
          using 1 g mem assms(2) conjunct1 [OF ok] by (simp add: view)
      next
        case 2
        then show ?thesis using mem assms(2) conjunct1 [OF ok]
          by (cases "rr_generation r = []") (simp_all add: view)
      next
        case 3
        then have g: "\<not> blank (rr_generation r)" "rr_generation r \<noteq> []" using ok by auto
        show ?thesis
          using 3 g mem assms(2) conjunct1 [OF ok] by (simp add: view)
      qed
    qed
    ultimately show ?thesis by (intro exI [of _ ?p] conjI)
  qed
qed

section \<open>Concrete records\<close>

definition demo_world :: world where
  "demo_world = \<lparr>w_config_dir = ''/w'', w_state_dir = ''/s'', w_data_dir = ''/d'', w_config_file = ''/w/c'', w_db_path = ''/d/db''\<rparr>"

definition demo_probe :: probe_result where
  "demo_probe = \<lparr>pr_success = True, pr_stage = ''probe/complete'', pr_workspace = ''/p'', pr_source = ''/w'',
                 pr_completed = [''load''], pr_diagnostics = [[(''stage'', JStr ''load''), (''status'', JStr ''completed'')]],
                 pr_log = ''/l''\<rparr>"

definition demo_cutover :: restart_record where
  "demo_cutover = \<lparr>rr_state = state_restarting, rr_transition = ''t'', rr_generation = ''g'', rr_previous_generation = ''g'',
     rr_previous_weaver = ''w'', rr_updated_at = [], rr_old_stopped = True, rr_probe = Some demo_probe, rr_failure = None,
     rr_generation_present = False, rr_old_stopped_present = False\<rparr>"

lemma demo_probe_valid: "validate_probe demo_probe = None"
  by (simp add: validate_probe_def demo_probe_def validate_probe_diagnostic_def blank_text_def bad_status_def
      diagnostic_statuses_def is_space_def)

lemma demo_cutover_valid: "validate_restart_record ForWrite demo_cutover = None"
proof -
  have "probe_succeeded demo_cutover" by (simp add: probe_succeeded_def demo_cutover_def demo_probe_def)
  then show ?thesis
    by (simp add: record_accepted demo_probe_valid) (simp add: demo_cutover_def restart_states_def is_space_def demo_probe_valid)
qed

lemma demo_cutover_written:
  "write_restart_record ''2026'' True demo_cutover None
     = (None, Some (Text (encode_record (demo_cutover\<lparr>rr_updated_at := ''2026''\<rparr>)) RestEof))"
  by (simp add: write_restart_record_def demo_cutover_valid) (simp add: demo_cutover_def demo_probe_def)

lemma demo_cutover_plain: "plain_record demo_cutover" "utf8_valid ''2026''" "\<not> blank ''2026''"
  by (simp_all add: plain_record_def demo_cutover_def demo_probe_def plain_probe_def utf8_valid_ascii state_defs
      strict_sorted_on_def is_space_def)

theorem restart_record_roundtrip_witness:
  "read_restart_record (Ok (Some (Text (encode_record (demo_cutover\<lparr>rr_updated_at := ''2026''\<rparr>)) RestEof)))
     = Ok (Some (as_read ''2026'' demo_cutover))"
  by (rule restart_record_roundtrip [OF demo_cutover_written demo_cutover_plain])

theorem compact_status_projects_witness:
  "\<exists>p. mill_status_projection (compact_status (Ok []) demo_world demo_cutover) = Some p
     \<and> validate_mill_status_projection (Some p) False \<noteq> None"
proof -
  have "\<not> blank (w_config_dir demo_world)" by (simp add: demo_world_def is_space_def)
  from compact_status_projects [OF demo_cutover_valid this, of "Ok []" False]
  show ?thesis by (auto simp: demo_cutover_def)
qed

text \<open>The buffer for the errors of a probe keeps a prefix of what was written.\<close>

lemma capped_writes:
  "[] \<notin> set ps \<Longrightarrow> cb_buf b = take (cb_limit b) s \<and> cb_truncated b = (cb_limit b < length s) \<Longrightarrow>
   let b' = fold (\<lambda>p b. snd (capped_write p b)) ps b
   in cb_limit b' = cb_limit b \<and> cb_buf b' = take (cb_limit b) (s @ concat ps)
      \<and> cb_truncated b' = (cb_limit b < length (s @ concat ps))"
proof (induction ps arbitrary: b s)
  case (Cons p ps)
  have "cb_limit (snd (capped_write p b)) = cb_limit b
      \<and> cb_buf (snd (capped_write p b)) = take (cb_limit b) (s @ p)
      \<and> cb_truncated (snd (capped_write p b)) = (cb_limit b < length (s @ p))"
    using Cons.prems by (auto simp: capped_write_def Let_def min_def split: if_splits)
  with Cons.IH [of "snd (capped_write p b)" "s @ p"] Cons.prems(1) show ?case by (simp add: Let_def)
qed simp

end
