(* ===== verification/Weaver_Status.thy ===== *)
theory Weaver_Status
  imports Restart_Record
begin

text \<open>
  What the Mill knows about a running Weaver: its published metadata
  (\<open>cli/internal/client/client.go\<close>), the status read from it and the removal of its artifacts
  (\<open>cli/cmd/mill/lifecycle.go\<close>), its identity, the check of a recorded process before it is
  signalled, and its termination (\<open>restart_process.go\<close>).

  The file system and the process table answer through arguments: \<open>env_alive\<close> is \<open>processAlive\<close>,
  \<open>env_real\<close> is \<open>filepath.EvalSymlinks\<close>, and every reading of a file is an argument of its own.
\<close>

section \<open>Metadata\<close>

record metadata =
  md_protocol :: int
  md_version :: string
  md_pid :: int
  md_db_kind :: string
  md_db_label :: string
  md_db_path :: "string option"
  md_weaver :: string
  md_generation :: string
  md_basis :: string
  md_pool :: string
  md_host :: string
  md_host_generation :: string
  md_member_basis :: string
  md_restart_path :: string
  md_config_dir :: string
  md_state_dir :: string
  md_data_dir :: string
  md_name :: string
  md_socket :: string
  md_started_at :: string
  md_nrepl_host :: string
  md_nrepl_port :: int

record host_env =
  env_alive :: "int \<Rightarrow> bool"
  env_real :: "string \<Rightarrow> string option"

definition protocol_version :: int where
  "protocol_version = 3"

definition database_path_string :: "metadata \<Rightarrow> string" where
  "database_path_string m = (case md_db_path m of None \<Rightarrow> [] | Some p \<Rightarrow> p)"

definition validate_storage_identity :: "metadata \<Rightarrow> stale_reason option" where
  "validate_storage_identity m =
     (if blank (md_db_label m) then Some (LabelBlank (md_db_kind m))
      else if md_db_kind m = ''sqlite-file'' then
        (case md_db_path m of
           None \<Rightarrow> Some (FileInconsistent (md_db_label m) [])
         | Some p \<Rightarrow> if blank p \<or> md_db_label m \<noteq> p then Some (FileInconsistent (md_db_label m) p) else None)
      else if md_db_kind m = ''sqlite-memory'' then
        (case md_db_path m of None \<Rightarrow> None | Some p \<Rightarrow> Some (MemoryInconsistent (md_db_label m) p))
      else Some (StorageUnknown (md_db_kind m)))"

text \<open>\<open>MAJOR.MINOR.PATCH\<close> without leading zeros.\<close>

definition version_part :: "string \<Rightarrow> bool" where
  "version_part w \<longleftrightarrow> w \<noteq> [] \<and> list_all is_digit w \<and> (w = ''0'' \<or> hd w \<noteq> CHR ''0'')"

definition valid_version :: "string \<Rightarrow> bool" where
  "valid_version s = (case split_on (CHR ''.'') s of [a, b, c] \<Rightarrow> list_all version_part [a, b, c] | _ \<Rightarrow> False)"

definition lower_hex :: "char \<Rightarrow> bool" where
  "lower_hex c \<longleftrightarrow> is_digit c \<or> 97 \<le> byte c \<and> byte c \<le> 102"

definition valid_basis_fingerprint :: "string \<Rightarrow> bool" where
  "valid_basis_fingerprint v \<longleftrightarrow>
     length v = length ''sha256:'' + 64 \<and> has_prefix v ''sha256:'' \<and> list_all lower_hex (drop (length ''sha256:'') v)"

definition same_path :: "host_env \<Rightarrow> string \<Rightarrow> string \<Rightarrow> bool" where
  "same_path env a b =
     (if a = [] \<or> b = [] then a = b
      else (case env_real env a of None \<Rightarrow> clean_path a | Some r \<Rightarrow> r)
           = (case env_real env b of None \<Rightarrow> clean_path b | Some r \<Rightarrow> r))"

definition validate_metadata :: "host_env \<Rightarrow> world \<Rightarrow> metadata \<Rightarrow> stale_reason option" where
  "validate_metadata env w m =
     (if md_protocol m \<noteq> protocol_version then Some (ProtocolMismatch (md_protocol m))
      else if md_version m = [] \<or> md_pid m = 0 \<or> md_weaver m = [] \<or> md_config_dir m = [] \<or> md_state_dir m = []
              \<or> md_data_dir m = [] \<or> blank (md_name m) \<or> md_socket m = [] \<or> md_started_at m = []
              \<or> md_nrepl_host m = [] \<or> md_nrepl_port m = 0 \<or> \<not> valid_basis_fingerprint (md_basis m)
      then Some FieldsMissing
      else if \<not> valid_version (md_version m) then Some (VersionInvalid (md_version m))
      else (case validate_storage_identity m of
        Some e \<Rightarrow> Some e
      | None \<Rightarrow> guards
          [(md_pool m \<noteq> [] \<and> \<not> canonical (md_restart_path m), PoolPathMissing),
           (md_db_kind m \<noteq> ''sqlite-file'', StorageUnsupported (md_db_kind m)),
           (\<not> same_path env (md_config_dir m) (w_config_dir w) \<or> \<not> same_path env (md_state_dir m) (w_state_dir w)
              \<or> \<not> same_path env (md_data_dir m) (w_data_dir w) \<or> \<not> same_path env (database_path_string m) (w_db_path w)
              \<or> \<not> same_path env (md_socket m) (join_path [w_state_dir w, ''weaver.sock'']), IdentityMismatch),
           (\<not> env_alive env (md_pid m), PidDead (md_pid m))]))"

definition show_int :: "int \<Rightarrow> string" where
  "show_int n = (if n < 0 then CHR ''-'' # show_nat (nat (- n)) else show_nat (nat n))"

definition status_from_metadata :: "metadata \<Rightarrow> string \<Rightarrow> status" where
  "status_from_metadata m state =
     [(''state'', SV (JStr state)), (''config_dir'', SV (JStr (md_config_dir m))),
      (''state_dir'', SV (JStr (md_state_dir m))), (''data_dir'', SV (JStr (md_data_dir m))),
      (''database_kind'', SV (JStr (md_db_kind m))), (''database_label'', SV (JStr (md_db_label m))),
      (''database_path'', SV (case md_db_path m of None \<Rightarrow> JNull | Some p \<Rightarrow> JStr p)),
      (''name'', SV (JStr (md_name m))), (''pid'', SInt (md_pid m)), (''weaver_id'', SV (JStr (md_weaver m))),
      (''socket_path'', SV (JStr (md_socket m))),
      (''nrepl'', SV (JObj [(''host'', JStr (md_nrepl_host m)), (''port'', JNum (show_int (md_nrepl_port m)))])),
      (''started_at'', SV (JStr (md_started_at m))), (''log_path'', SV (JStr (weaver_log_path (md_state_dir m))))]
     @ (if \<not> blank (md_version m) then [(''version'', SV (JStr (md_version m)))] else [])
     @ (if \<not> blank (md_generation m) then [(''generation_id'', SV (JStr (md_generation m)))] else [])
     @ [(''basis_fingerprint'', SV (JStr (md_basis m)))]
     @ (if md_pool m \<noteq> [] then
          [(''jvm_pool'', SV (JStr (md_pool m))), (''host_id'', SV (JStr (md_host m))),
           (''host_generation_id'', SV (JStr (md_host_generation m))),
           (''pool_restart_path'', SV (JStr (md_restart_path m))),
           (''member_basis_fingerprint'', SV (JStr (md_member_basis m)))] else [])"

text \<open>
  \<open>readStatusWithRestartRecord\<close>: the metadata file as the decoder sees it and, unless it is not to be
  consulted, the outcome of reading the restart record.  The flag tells stale metadata.
\<close>

datatype metadata_file = NoMetadata | BadMetadata string | Metadata metadata

type_synonym view = "status option \<times> bool"

definition fresh_status :: "view \<Rightarrow> status option" where
  "fresh_status v = (if snd v then None else fst v)"

definition read_status_with ::
    "(unit, string) result \<Rightarrow> host_env \<Rightarrow> world \<Rightarrow> metadata_file
     \<Rightarrow> (record_error, restart_record option) result option \<Rightarrow> view" where
  "read_status_with configured env w file record =
     (case file of
        NoMetadata \<Rightarrow> (None, False)
      | BadMetadata e \<Rightarrow>
          (Some (put True ''stale_reason'' (SReason (MetadataMalformed e)) (base_status configured w ''stale'')), True)
      | Metadata m \<Rightarrow>
          (case validate_metadata env w m of
             Some reason \<Rightarrow> (Some (put True ''stale_reason'' (SReason reason) (status_from_metadata m ''stale'')), True)
           | None \<Rightarrow>
               (let status = status_from_metadata m ''running'' in
                case record of
                  None \<Rightarrow> (Some status, False)
                | Some (Inl e) \<Rightarrow>
                    (Some (put True ''stale_reason'' (SReason (RecordInvalid e)) (put True ''state'' (SV (JStr ''stale'')) status)), True)
                | Some (Inr None) \<Rightarrow> (Some status, False)
                | Some (Inr (Some r)) \<Rightarrow>
                    (Some (if rr_state r = state_running then merge_compact_status status r else status), False))))"

text \<open>\<open>readStatusFileWithWorld\<close>, for metadata found without a selected workspace.\<close>

definition is_pid_reason :: "stale_reason \<Rightarrow> bool" where
  "is_pid_reason r = (case r of PidDead _ \<Rightarrow> True | _ \<Rightarrow> False)"

definition read_status_file :: "host_env \<Rightarrow> metadata_file \<Rightarrow> (stale_reason, status \<times> world) result" where
  "read_status_file env file =
     (case file of
        NoMetadata \<Rightarrow> Err FieldsMissing
      | BadMetadata e \<Rightarrow> Err (MetadataMalformed e)
      | Metadata m \<Rightarrow>
          (let w = \<lparr>w_config_dir = md_config_dir m, w_state_dir = md_state_dir m, w_data_dir = md_data_dir m,
                   w_config_file = [], w_db_path = database_path_string m\<rparr> in
           case validate_metadata env w m of
             Some reason \<Rightarrow>
               if is_pid_reason reason
               then Ok (put True ''stale_reason'' (SReason reason) (status_from_metadata m ''stale''), w)
               else Err reason
           | None \<Rightarrow> Ok (status_from_metadata m ''running'', w)))"

section \<open>Identity\<close>

definition string_status :: "status \<Rightarrow> string \<Rightarrow> string" where
  "string_status m k = (case text_entry (map_of m k) of None \<Rightarrow> [] | Some s \<Rightarrow> s)"

fun int_entry :: "status_value option \<Rightarrow> int option" where
  "int_entry (Some (SInt n)) = Some n"
| "int_entry v = None"

datatype identity_error = PidMissing | IdentityMissing

definition identity_from_status :: "status \<Rightarrow> (identity_error, weaver_identity) result" where
  "identity_from_status m =
     (case int_entry (map_of m ''pid'') of
        None \<Rightarrow> Err PidMissing
      | Some pid \<Rightarrow>
          if pid \<le> 0 then Err PidMissing
          else let i = \<lparr>id_pid = pid, id_weaver = string_status m ''weaver_id'',
                        id_generation = string_status m ''generation_id'', id_started_at = string_status m ''started_at'',
                        id_socket = string_status m ''socket_path'', id_config_dir = string_status m ''config_dir'',
                        id_state_dir = string_status m ''state_dir'', id_data_dir = string_status m ''data_dir''\<rparr> in
               if [] \<in> set [id_weaver i, id_started_at i, id_socket i, id_config_dir i, id_state_dir i, id_data_dir i]
               then Err IdentityMissing else Ok i)"

definition same_weaver_identity :: "weaver_identity \<Rightarrow> weaver_identity \<Rightarrow> bool" where
  "same_weaver_identity a b \<longleftrightarrow>
     id_pid a = id_pid b \<and> id_weaver a = id_weaver b
     \<and> (id_generation a = [] \<or> id_generation b = [] \<or> id_generation a = id_generation b)
     \<and> id_started_at a = id_started_at b \<and> id_socket a = id_socket b \<and> id_config_dir a = id_config_dir b
     \<and> id_state_dir a = id_state_dir b \<and> id_data_dir a = id_data_dir b"

text \<open>
  \<open>runtimeStatusRequest\<close>: what the endpoint answered to the request \<open>request_id\<close>, or the failure to
  reach it.  A number that is an integer in range is printed as one.
\<close>

record runtime_response =
  rs_protocol :: int
  rs_request :: string
  rs_ok :: bool
  rs_result :: "object option"

fun json_int :: "json option \<Rightarrow> int option" where
  "json_int (Some (JNum s)) = atoi s"
| "json_int v = None"

datatype endpoint_error = Unreachable string | NotMatching | Unhealthy | PidDiffers | FieldDiffers string

definition runtime_status ::
    "weaver_identity \<Rightarrow> string \<Rightarrow> (string, runtime_response) result \<Rightarrow> (endpoint_error, object) result" where
  "runtime_status i request_id answer =
     (case answer of
        Inl e \<Rightarrow> Err (Unreachable e)
      | Inr r \<Rightarrow>
          (case rs_result r of
             None \<Rightarrow> Err NotMatching
           | Some res \<Rightarrow>
               if rs_protocol r \<noteq> 3 \<or> rs_request r \<noteq> request_id \<or> \<not> rs_ok r then Err NotMatching
               else if map_of res ''healthy'' \<noteq> Some (JBool True) then Err Unhealthy
               else if json_int (map_of res ''pid'') \<noteq> Some (id_pid i) then Err PidDiffers
               else (case List.find (\<lambda>(k, expected). as_string (map_of res k) \<noteq> Some expected)
                            ([(''weaver_id'', id_weaver i), (''started_at'', id_started_at i), (''socket_path'', id_socket i),
                              (''config_dir'', id_config_dir i), (''state_dir'', id_state_dir i), (''data_dir'', id_data_dir i)]
                             @ (if id_generation i \<noteq> [] then [(''generation_id'', id_generation i)] else [])) of
                       Some (k, _) \<Rightarrow> Err (FieldDiffers k)
                     | None \<Rightarrow> Ok res)))"

section \<open>Checking and stopping a recorded process\<close>

datatype stop_error =
    Incomplete
  | MetadataAbsent
  | MetadataInvalid identity_error
  | IdentityChanged int
  | EndpointFailed endpoint_error
  | NoRecordedPid
  | NotConfirmed int
  | CleanupFailed

text \<open>What one check sees: the status read and the endpoint's answer to its request.\<close>

record sight =
  sg_view :: view
  sg_request :: string
  sg_answer :: "(string, runtime_response) result"

definition verify_unsupervised :: "weaver_child option \<Rightarrow> sight \<Rightarrow> stop_error option" where
  "verify_unsupervised child see =
     (case child of
        None \<Rightarrow> None
      | Some c \<Rightarrow>
          if \<not> child_unsupervised c then None
          else if id_pid (child_identity c) \<le> 0 \<or> child_cmd c \<noteq> Some (id_pid (child_identity c)) then Some Incomplete
          else (case fresh_status (sg_view see) of
            Some m \<Rightarrow>
              (case identity_from_status m of
                 Inl e \<Rightarrow> Some (MetadataInvalid e)
               | Inr current \<Rightarrow>
                   if \<not> same_weaver_identity current (child_identity c)
                   then Some (IdentityChanged (id_pid (child_identity c)))
                   else (case runtime_status (child_identity c) (sg_request see) (sg_answer see) of
                           Inl e \<Rightarrow> Some (EndpointFailed e)
                         | Inr _ \<Rightarrow> None))
          | None \<Rightarrow> Some MetadataAbsent))"

datatype signal_kind = Term | Kill

datatype signal_sent = ToPid int signal_kind | ToGroup int signal_kind

definition signal_recorded_pid :: "int \<Rightarrow> signal_kind \<Rightarrow> signal_sent list" where
  "signal_recorded_pid pid k = (if 0 < pid then [ToPid pid k] else [])"

definition terminate_pid :: "int \<Rightarrow> signal_sent list" where
  "terminate_pid pid = (if 0 < pid then [ToGroup pid Term, ToPid pid Term] else [])"

text \<open>
  \<open>waitRecordedExit\<close>: the process is observed at every tick; the wait ends with the last tick, when
  the exit was reported or the time is up, after one more observation.
\<close>

fun wait_recorded_exit :: "(nat \<Rightarrow> bool) \<Rightarrow> nat \<Rightarrow> nat \<Rightarrow> bool" where
  "wait_recorded_exit living i 0 = (if \<not> living i then True else \<not> living (Suc i))"
| "wait_recorded_exit living i (Suc ticks) = (if \<not> living i then True else wait_recorded_exit living (Suc i) ticks)"

text \<open>\<open>terminateAndConfirm\<close> with the two checks and the outcomes of the two waits.\<close>

definition terminate_and_confirm ::
    "weaver_child \<Rightarrow> int \<Rightarrow> sight \<Rightarrow> bool \<Rightarrow> sight \<Rightarrow> bool \<Rightarrow> (stop_error, bool) result \<times> signal_sent list" where
  "terminate_and_confirm c pid see1 gone1 see2 gone2 =
     (case verify_unsupervised (Some c) see1 of
        Some e \<Rightarrow> (Err e, [])
      | None \<Rightarrow>
          let first = (if child_unsupervised c then signal_recorded_pid pid Term else terminate_pid pid) in
          if gone1 then (Ok True, first)
          else (case verify_unsupervised (Some c) see2 of
            Some e \<Rightarrow> (Err e, first)
          | None \<Rightarrow>
              (Ok gone2, first @ (if child_unsupervised c then signal_recorded_pid pid Kill else [ToPid pid Kill]))))"

text \<open>
  \<open>cleanupWorldArtifactsOwned\<close>: the metadata as read before the removal, and the removals that fail
  for another reason than absence.
\<close>

datatype artifact_file = ArtifactGone | ArtifactUnreadable | ArtifactMalformed | Artifact metadata

definition identity_of_metadata :: "metadata \<Rightarrow> weaver_identity" where
  "identity_of_metadata m =
     \<lparr>id_pid = md_pid m, id_weaver = md_weaver m, id_generation = md_generation m, id_started_at = md_started_at m,
      id_socket = md_socket m, id_config_dir = md_config_dir m, id_state_dir = md_state_dir m, id_data_dir = md_data_dir m\<rparr>"

definition artifact_paths :: "world \<Rightarrow> string list" where
  "artifact_paths w = map (\<lambda>f. join_path [w_state_dir w, f]) [''weaver.json'', ''weaver.edn'', ''weaver.sock'']"

definition cleanup_artifacts :: "world \<Rightarrow> weaver_identity \<Rightarrow> artifact_file \<Rightarrow> (string \<Rightarrow> bool) \<Rightarrow> bool \<times> string list" where
  "cleanup_artifacts w expected file removable =
     (case file of
        ArtifactGone \<Rightarrow> (True, [])
      | ArtifactUnreadable \<Rightarrow> (False, [])
      | ArtifactMalformed \<Rightarrow> (False, [])
      | Artifact m \<Rightarrow>
          if id_weaver expected = [] \<or> \<not> same_weaver_identity expected (identity_of_metadata m) then (False, [])
          else (list_all removable (artifact_paths w), filter removable (artifact_paths w)))"

definition stop_recorded_generation ::
    "weaver_child option \<Rightarrow> world \<Rightarrow> sight \<Rightarrow> sight \<Rightarrow> bool \<Rightarrow> sight \<Rightarrow> bool \<Rightarrow> artifact_file \<Rightarrow> (string \<Rightarrow> bool)
     \<Rightarrow> stop_error option \<times> signal_sent list \<times> string list" where
  "stop_recorded_generation child w see see1 gone1 see2 gone2 file removable =
     (case child of
        None \<Rightarrow> (Some NoRecordedPid, [], [])
      | Some c \<Rightarrow>
          (case child_cmd c of
             None \<Rightarrow> (Some NoRecordedPid, [], [])
           | Some pid \<Rightarrow>
               if pid \<le> 0 then (Some NoRecordedPid, [], [])
               else (case verify_unsupervised child see of
                 Some e \<Rightarrow> (Some e, [], [])
               | None \<Rightarrow>
                   (case terminate_and_confirm c pid see1 gone1 see2 gone2 of
                      (Inl e, sent) \<Rightarrow> (Some e, sent, [])
                    | (Inr False, sent) \<Rightarrow> (Some (NotConfirmed pid), sent, [])
                    | (Inr True, sent) \<Rightarrow>
                        (case cleanup_artifacts w (child_identity c) file removable of
                           (ok, removed) \<Rightarrow> (if ok then None else Some CleanupFailed, sent, removed))))))"

section \<open>Waiting for a Weaver to be ready\<close>

datatype ready_error =
    ReadyCancelled
  | ReadyInvalid identity_error
  | ReadyOtherPid int
  | ReadyStale
  | ReadyExited
  | ReadyTimeout

text \<open>One round of the loop: what is seen in the order the code looks.\<close>

record poll =
  po_shutdown :: bool
  po_view :: view
  po_done :: bool
  po_alive :: bool
  po_late :: bool
  po_cancelled :: bool \<comment> \<open>shutdown while waiting for the next tick\<close>

fun wait_ready :: "int \<Rightarrow> poll list \<Rightarrow> (ready_error, status) result \<times> signal_sent list" where
  "wait_ready pid [] = (Err ReadyTimeout, terminate_pid pid)"
| "wait_ready pid (p # ps) =
     (if po_shutdown p then (Err ReadyCancelled, [])
      else (case fresh_status (po_view p) of
        Some m \<Rightarrow>
          (case identity_from_status m of
             Inl e \<Rightarrow> (Err (ReadyInvalid e), [])
           | Inr i \<Rightarrow> if id_pid i \<noteq> pid then (Err (ReadyOtherPid (id_pid i)), []) else (Ok m, []))
      | None \<Rightarrow>
          if snd (po_view p) then (Err ReadyStale, [])
          else if po_done p then (Err ReadyExited, [])
          else if \<not> po_alive p then (Err ReadyExited, [])
          else if po_late p then (Err ReadyTimeout, terminate_pid pid)
          else if po_cancelled p then (Err ReadyCancelled, terminate_pid pid)
          else wait_ready pid ps))"

section \<open>Facts\<close>

lemma same_weaver_identity_refl [simp]: "same_weaver_identity i i"
  by (simp add: same_weaver_identity_def)

lemma same_weaver_identity_sym: "same_weaver_identity a b \<Longrightarrow> same_weaver_identity b a"
  by (auto simp: same_weaver_identity_def)

lemma fresh_status_Some: "fresh_status v = Some m \<longleftrightarrow> v = (Some m, False)"
  by (cases v) (auto simp: fresh_status_def)

lemma read_status_fresh:
  assumes "fresh_status (read_status_with configured env w file record) = Some m"
  shows "\<exists>md. file = Metadata md \<and> validate_metadata env w md = None \<and> env_alive env (md_pid md)"
proof -
  obtain md where md: "file = Metadata md"
    using assms by (cases "file") (auto simp: read_status_with_def fresh_status_Some)
  have none: "validate_metadata env w md = None"
    using assms by (cases "validate_metadata env w md") (auto simp: md read_status_with_def fresh_status_Some)
  then have "env_alive env (md_pid md)"
    by (auto simp: validate_metadata_def split: if_splits option.splits)
  with md none show ?thesis by blast
qed

lemma wait_ready_Ok:
  "wait_ready pid ps = (Ok m, sent) \<Longrightarrow>
   sent = [] \<and> (\<exists>i. identity_from_status m = Ok i \<and> id_pid i = pid) \<and> (\<exists>p \<in> set ps. po_view p = (Some m, False))"
  by (induction pid ps rule: wait_ready.induct)
     (auto simp: fresh_status_Some split: if_splits option.splits sum.splits)

lemma wait_recorded_exit_gone: "wait_recorded_exit living i ticks \<Longrightarrow> \<exists>j. i \<le> j \<and> j \<le> i + ticks + 1 \<and> \<not> living j"
proof (induction ticks arbitrary: i)
  case 0
  then have "\<not> living i \<or> \<not> living (Suc i)" by (simp split: if_splits)
  then show ?case by (metis add.right_neutral add_Suc_right le_Suc_eq le_add1 One_nat_def order_refl)
next
  case (Suc ticks)
  show ?case
  proof (cases "living i")
    case True
    with Suc.prems Suc.IH [of "Suc i"] obtain j where "Suc i \<le> j" "j \<le> Suc i + ticks + 1" "\<not> living j" by auto
    then show ?thesis by (intro exI [of _ j]) auto
  qed auto
qed

section \<open>Properties\<close>

text \<open>A check that found the recorded process: its metadata and its endpoint both name it.\<close>

definition confirmed :: "weaver_child \<Rightarrow> sight \<Rightarrow> bool" where
  "confirmed c see \<longleftrightarrow>
     (case fresh_status (sg_view see) of
        None \<Rightarrow> False
      | Some m \<Rightarrow>
          (case identity_from_status m of
             Inl _ \<Rightarrow> False
           | Inr i \<Rightarrow> same_weaver_identity i (child_identity c)
                     \<and> is_ok (runtime_status (child_identity c) (sg_request see) (sg_answer see))))"

lemma verify_confirmed:
  "child_unsupervised c \<Longrightarrow> verify_unsupervised (Some c) see = None \<Longrightarrow>
   confirmed c see \<and> child_cmd c = Some (id_pid (child_identity c)) \<and> 0 < id_pid (child_identity c)"
  by (auto simp: verify_unsupervised_def confirmed_def is_ok_def split: if_splits option.splits sum.splits)

text \<open>
  C28: A Weaver the Mill did not start itself is signalled only as the recorded process, never as a
  group, only directly after its metadata and its endpoint were found to name the recorded identity,
  and killed only after they were found so once more; its artifacts are removed only when they still
  belong to it and its end was observed.
\<close>
theorem unsupervised_stop_checked:
  assumes "child_unsupervised c"
    and "stop_recorded_generation (Some c) w see see1 gone1 see2 gone2 file removable = (err, sent, removed)"
  shows "(\<forall>s \<in> set sent. \<exists>k. s = ToPid (id_pid (child_identity c)) k
            \<and> confirmed c see \<and> confirmed c see1 \<and> (k = Kill \<longrightarrow> \<not> gone1 \<and> confirmed c see2))
       \<and> (removed \<noteq> [] \<longrightarrow> (gone1 \<or> gone2) \<and> (\<exists>m. file = Artifact m
            \<and> same_weaver_identity (child_identity c) (identity_of_metadata m)))
       \<and> (err = None \<longrightarrow> gone1 \<or> gone2)"
proof (cases "sent = [] \<and> removed = [] \<and> err \<noteq> None")
  case False
  obtain pid where pid: "child_cmd c = Some pid" "0 < pid" and v: "verify_unsupervised (Some c) see = None"
    using assms(2) False by (auto simp: stop_recorded_generation_def split: option.splits if_splits)
  note c0 = verify_confirmed [OF assms(1) v]
  have i: "id_pid (child_identity c) = pid" using c0 pid(1) by simp
  have v1: "verify_unsupervised (Some c) see1 = None"
    using assms(2) False pid v by (cases "verify_unsupervised (Some c) see1")
      (auto simp: stop_recorded_generation_def terminate_and_confirm_def)
  note c1 = verify_confirmed [OF assms(1) v1]
  have owned: "\<exists>m. file = Artifact m \<and> same_weaver_identity (child_identity c) (identity_of_metadata m)"
    if "cleanup_artifacts w (child_identity c) file removable = (ok, r)" "r \<noteq> []" for ok r
    using that by (auto simp: cleanup_artifacts_def split: artifact_file.splits if_splits)
  show ?thesis
  proof (cases gone1)
    case True
    then have "terminate_and_confirm c pid see1 gone1 see2 gone2 = (Ok True, [ToPid pid Term])"
      using v1 assms(1) pid(2) by (simp add: terminate_and_confirm_def signal_recorded_pid_def)
    then have "sent = [ToPid pid Term]" "cleanup_artifacts w (child_identity c) file removable = (err = None, removed)"
      using assms(2) pid v by (auto simp: stop_recorded_generation_def split: prod.splits if_splits)
    with owned c0 c1 i True show ?thesis by auto
  next
    case gone: False
    show ?thesis
    proof (cases "verify_unsupervised (Some c) see2")
      case None
      note c2 = verify_confirmed [OF assms(1) None]
      have "terminate_and_confirm c pid see1 gone1 see2 gone2 = (Ok gone2, [ToPid pid Term, ToPid pid Kill])"
        using v1 None assms(1) pid(2) gone by (simp add: terminate_and_confirm_def signal_recorded_pid_def)
      then have "sent = [ToPid pid Term, ToPid pid Kill]"
        "(\<not> gone2 \<and> removed = [] \<and> err \<noteq> None)
         \<or> gone2 \<and> cleanup_artifacts w (child_identity c) file removable = (err = None, removed)"
        using assms(2) pid v by (auto simp: stop_recorded_generation_def split: prod.splits if_splits bool.splits)
      with owned c0 c1 c2 i gone show ?thesis by auto
    next
      case (Some e)
      then have "terminate_and_confirm c pid see1 gone1 see2 gone2 = (Err e, [ToPid pid Term])"
        using v1 assms(1) pid(2) gone by (simp add: terminate_and_confirm_def signal_recorded_pid_def)
      then have "sent = [ToPid pid Term]" "removed = []" "err \<noteq> None"
        using assms(2) pid v by (auto simp: stop_recorded_generation_def)
      with c0 c1 i show ?thesis by auto
    qed
  qed
qed auto

definition demo_identity :: weaver_identity where
  "demo_identity = \<lparr>id_pid = 7, id_weaver = ''w'', id_generation = ''g'', id_started_at = ''now'', id_socket = ''/s/weaver.sock'',
                    id_config_dir = ''/w'', id_state_dir = ''/s'', id_data_dir = ''/d''\<rparr>"

definition demo_child :: weaver_child where
  "demo_child = \<lparr>child_cmd = Some 7, child_world = demo_world, child_name = ''name'', child_identity = demo_identity,
     child_temporary = False, child_unsupervised = True, child_generation = ''g'', child_launch_token = [],
     child_startup_weaver = []\<rparr>"

definition demo_sight :: sight where
  "demo_sight =
     \<lparr>sg_view = (Some [(''pid'', SInt 7), (''weaver_id'', SV (JStr ''w'')), (''started_at'', SV (JStr ''now'')),
         (''socket_path'', SV (JStr ''/s/weaver.sock'')), (''config_dir'', SV (JStr ''/w'')), (''state_dir'', SV (JStr ''/s'')),
         (''data_dir'', SV (JStr ''/d''))], False),
      sg_request = ''r'',
      sg_answer = Ok \<lparr>rs_protocol = 3, rs_request = ''r'', rs_ok = True, rs_result = Some
        [(''healthy'', JBool True), (''pid'', JNum ''7''), (''weaver_id'', JStr ''w''), (''started_at'', JStr ''now''),
         (''socket_path'', JStr ''/s/weaver.sock''), (''config_dir'', JStr ''/w''), (''state_dir'', JStr ''/s''),
         (''data_dir'', JStr ''/d''), (''generation_id'', JStr ''g'')]\<rparr>\<rparr>"

lemma demo_stop:
  "stop_recorded_generation (Some demo_child) demo_world demo_sight demo_sight True demo_sight True ArtifactGone (\<lambda>_. True)
   = (None, [ToPid 7 Term], [])"
  by code_simp

theorem unsupervised_stop_checked_witness: "confirmed demo_child demo_sight"
proof -
  have "child_unsupervised demo_child" by (simp add: demo_child_def)
  from unsupervised_stop_checked [OF this demo_stop] show ?thesis by simp
qed

end
