(* ===== verification/Pool_Record.thy ===== *)
theory Pool_Record
  imports Weaver_Status Jvm_Pool
begin

text \<open>
  The durable record of the restart of a pool host (\<open>cli/cmd/mill/pool_restart_record.go\<close>) and what
  the restart of a pool writes into it (\<open>writePoolRestartRecordForHost\<close> and what it calls in
  \<open>pool_lifecycle.go\<close>), with the status made of it (\<open>pool_status.go\<close>).

  The slices of a record are never nil where the code writes it, so an empty one is the empty list.
  Where the code ranges over a map of fields the field an error names is open, and errors do not name it.
\<close>

section \<open>Sorted lists of members\<close>

text \<open>
  The check that the durable lists of the pool share: every element is well formed, no key occurs twice,
  and the keys increase.  \<open>seen\<close> are the keys before, the last one first.
\<close>

fun check_sorted :: "('a \<Rightarrow> 'e option) \<Rightarrow> ('a \<Rightarrow> 'k::linorder) \<Rightarrow> ('a \<Rightarrow> 'e) \<Rightarrow> 'e \<Rightarrow> 'k list \<Rightarrow> 'a list \<Rightarrow> 'e option" where
  "check_sorted check key duplicate unsorted seen [] = None"
| "check_sorted check key duplicate unsorted seen (x # xs) =
     (case check x of
        Some e \<Rightarrow> Some e
      | None \<Rightarrow>
          if key x \<in> set seen then Some (duplicate x)
          else if (case seen of [] \<Rightarrow> False | k # _ \<Rightarrow> key x \<le> k) then Some unsorted
          else check_sorted check key duplicate unsorted (key x # seen) xs)"

lemma check_sorted_seen:
  assumes "sorted_wrt (<) (rev seen)"
  shows "check_sorted check key duplicate unsorted seen xs = None \<longleftrightarrow>
     (\<forall>x \<in> set xs. check x = None) \<and> sorted_wrt (<) (rev seen @ map key xs)"
  using assms
proof (induction xs arbitrary: seen)
  case (Cons x xs)
  have grown: "sorted_wrt (<) (rev (key x # seen)) \<longleftrightarrow> (case seen of [] \<Rightarrow> True | k # _ \<Rightarrow> k < key x)"
    using Cons.prems by (cases seen) (auto simp: sorted_wrt_append dest: less_trans)
  have fresh: "key x \<notin> set seen" if "case seen of [] \<Rightarrow> True | k # _ \<Rightarrow> k < key x"
    using that Cons.prems by (cases seen) (auto simp: sorted_wrt_append)
  show ?case
  proof (cases "check x = None \<and> (case seen of [] \<Rightarrow> True | k # _ \<Rightarrow> k < key x)")
    case True
    then have s: "sorted_wrt (<) (rev (key x # seen))" using grown by blast
    have "check_sorted check key duplicate unsorted seen (x # xs) = check_sorted check key duplicate unsorted (key x # seen) xs"
      using True fresh by (auto split: list.splits)
    then show ?thesis using Cons.IH [OF s] True by simp
  next
    case False
    have "\<not> sorted_wrt (<) (rev seen @ map key (x # xs))" if "check x = None"
    proof
      assume "sorted_wrt (<) (rev seen @ map key (x # xs))"
      then have "sorted_wrt (<) (rev (key x # seen))" by (auto simp: sorted_wrt_append)
      with grown False that show False by blast
    qed
    moreover have "check_sorted check key duplicate unsorted seen (x # xs) \<noteq> None"
      using False by (cases "check x") (auto split: list.splits)
    ultimately show ?thesis by auto
  qed
qed simp

lemma check_sorted_None:
  "check_sorted check key duplicate unsorted [] xs = None \<longleftrightarrow> (\<forall>x \<in> set xs. check x = None) \<and> strict_sorted_on key xs"
  using check_sorted_seen [of "[]"] by (simp add: strict_sorted_on_def sorted_wrt_map)

section \<open>Records\<close>

record restart_member =
  rm_config_dir :: string
  rm_weaver :: string
  rm_generation :: string

record restart_host =
  rh_id :: string
  rh_generation :: string
  rh_pid :: int
  rh_basis :: string
  rh_members :: "restart_member list"

record pool_record =
  po_format :: string
  po_pool :: string
  po_state :: string
  po_transition :: string
  po_updated_at :: string
  po_revision :: string
  po_old_stopped :: bool
  po_admitted :: "restart_host option"
  po_previous :: "restart_host option"
  po_registered :: "string list"
  po_pending :: "string list"
  po_probe :: "probe_result option"
  po_failure :: "restart_failure option"

datatype host_error =
    HostFieldBlank
  | HostPid
  | HostBasis
  | HostEmpty
  | HostMember
  | HostDuplicate string
  | HostUnsorted

datatype pool_error =
    PoolUpdatedAtOwned
  | PoolUpdatedAtBlank
  | PoolFormat
  | PoolFieldBlank
  | PoolState string
  | DirsNotCanonical string
  | DirsDuplicate string string
  | DirsUnsorted string
  | AdmittedInvalid host_error
  | PreviousInvalid host_error
  | AdmittedSets
  | PreviousSets
  | PreviousPending
  | HostsMissing
  | PoolProbe probe_error
  | FailureBlank
  | FailureLogBlank
  | FailureEvidenceBlank
  | ProbingHosts
  | ProbingProbe
  | RestartingHosts
  | RunningHosts
  | InitialRunning
  | RunningFailureProbe
  | ReplacedRunning
  | ReplacedFailure
  | FailedHosts
  | PoolMarshal
  | PoolWrite
  | PoolPathBlank
  | PoolPath
  | PoolKey reg_error
  | PoolRead
  | PoolMalformed
  | PoolUnknown string
  | PoolKeyMissing string
  | PoolNull string
  | PoolOther string string

definition pool_restart_format :: string where
  "pool_restart_format = ''millstrand.jvm-pool-restart/v1''"

definition pool_restart_file :: string where
  "pool_restart_file = ''restart.json''"

section \<open>Validation\<close>

definition validate_canonical_dirs :: "string \<Rightarrow> string list \<Rightarrow> pool_error option" where
  "validate_canonical_dirs label vs =
     check_sorted (\<lambda>v. if canonical v then None else Some (DirsNotCanonical label)) (\<lambda>v. v)
       (DirsDuplicate label) (DirsUnsorted label) [] vs"

definition validate_restart_member :: "restart_member \<Rightarrow> host_error option" where
  "validate_restart_member m =
     (if \<not> canonical (rm_config_dir m) \<or> blank (rm_weaver m) \<or> blank (rm_generation m) then Some HostMember else None)"

definition validate_restart_host :: "restart_host option \<Rightarrow> host_error option" where
  "validate_restart_host host =
     (case host of
        None \<Rightarrow> None
      | Some h \<Rightarrow>
          (case guards
             [(blank (rh_id h) \<or> blank (rh_generation h) \<or> blank (rh_basis h), HostFieldBlank),
              (rh_pid h \<le> 0, HostPid),
              (\<not> valid_basis_fingerprint (rh_basis h), HostBasis),
              (rh_members h = [], HostEmpty)] of
             Some e \<Rightarrow> Some e
           | None \<Rightarrow>
               check_sorted validate_restart_member rm_config_dir (\<lambda>m. HostDuplicate (rm_config_dir m)) HostUnsorted [] (rh_members h)))"

text \<open>\<open>setOf\<close>, \<open>hostMemberSet\<close>, \<open>subset\<close>, \<open>difference\<close> and \<open>equalSets\<close>: a set is a list of its elements.\<close>

definition host_member_set :: "restart_host \<Rightarrow> string list" where
  "host_member_set h = map rm_config_dir (rh_members h)"

definition subset_of :: "string list \<Rightarrow> string list \<Rightarrow> bool" where
  "subset_of vs universe = list_all (\<lambda>v. v \<in> set universe) vs"

definition difference :: "string list \<Rightarrow> string list \<Rightarrow> string list" where
  "difference left right = filter (\<lambda>v. v \<notin> set right) left"

definition equal_sets :: "string list \<Rightarrow> string list \<Rightarrow> bool" where
  "equal_sets left right \<longleftrightarrow> subset_of left right \<and> subset_of right left"

definition validate_set_relations :: "pool_record \<Rightarrow> pool_error option" where
  "validate_set_relations r =
     (case (case po_admitted r of
              None \<Rightarrow> None
            | Some h \<Rightarrow>
                let admitted = host_member_set h in
                if \<not> subset_of admitted (po_registered r) \<or> \<not> equal_sets (po_pending r) (difference (po_registered r) admitted)
                then Some AdmittedSets else None) of
        Some e \<Rightarrow> Some e
      | None \<Rightarrow>
          (case po_previous r of
             Some h \<Rightarrow>
               let previous = host_member_set h in
               if \<not> subset_of previous (po_registered r) then Some PreviousSets
               else if po_admitted r = None \<and> \<not> equal_sets (po_pending r) (difference (po_registered r) previous)
               then Some PreviousPending else None
           | None \<Rightarrow> if po_admitted r \<noteq> None then None else Some HostsMissing))"

definition pool_probe_ok :: "pool_record \<Rightarrow> bool" where
  "pool_probe_ok r = (case po_probe r of None \<Rightarrow> False | Some p \<Rightarrow> pr_success p)"

definition validate_pool_failure :: "restart_failure \<Rightarrow> pool_error option" where
  "validate_pool_failure f =
     guards
       [(blank (rf_stage f) \<or> blank (rf_message f), FailureBlank),
        (blank (rf_log f) \<and> rf_log f \<noteq> [], FailureLogBlank),
        (blank (rf_evidence f) \<and> rf_evidence f \<noteq> [], FailureEvidenceBlank)]"

text \<open>The last part of \<open>validatePoolRestartRecord\<close>: which hosts, probe and failure go with a state.\<close>

definition validate_pool_state :: "pool_record \<Rightarrow> pool_error option" where
  "validate_pool_state r =
     (if po_state r = state_probing then
        guards
          [(po_admitted r = None \<or> po_previous r \<noteq> None \<or> po_old_stopped r \<or> po_failure r \<noteq> None, ProbingHosts),
           (po_probe r \<noteq> None \<and> \<not> pool_probe_ok r, ProbingProbe)]
      else if po_state r = state_restarting then
        guards [(po_admitted r \<noteq> None \<or> po_previous r = None \<or> po_failure r \<noteq> None \<or> \<not> pool_probe_ok r, RestartingHosts)]
      else if po_state r = state_running then
        (if po_admitted r = None then Some RunningHosts
         else if po_previous r = None then
           (if po_old_stopped r then Some InitialRunning
            else case po_failure r of
              None \<Rightarrow> if po_probe r \<noteq> None \<or> po_pending r \<noteq> [] then Some InitialRunning else None
            | Some f \<Rightarrow>
                if rf_stage f \<noteq> ''probe'' \<or> po_probe r = None \<or> pool_probe_ok r then Some RunningFailureProbe else None)
         else if \<not> pool_probe_ok r \<or> \<not> po_old_stopped r \<or> po_pending r \<noteq> [] then Some ReplacedRunning
         else if po_failure r \<noteq> None then Some ReplacedFailure
         else None)
      else
        guards [(po_admitted r \<noteq> None \<or> po_previous r = None \<or> \<not> pool_probe_ok r \<or> po_failure r = None, FailedHosts)])"

definition validate_pool_record :: "validation_mode \<Rightarrow> pool_record \<Rightarrow> pool_error option" where
  "validate_pool_record mode r =
     (case guards
        [(mode = ForWrite \<and> po_updated_at r \<noteq> [], PoolUpdatedAtOwned),
         (mode = FromDisk \<and> blank (po_updated_at r), PoolUpdatedAtBlank),
         (po_format r \<noteq> pool_restart_format, PoolFormat),
         (blank (po_pool r) \<or> blank (po_transition r) \<or> blank (po_revision r), PoolFieldBlank),
         (po_state r \<notin> set restart_states, PoolState (po_state r))] of
        Some e \<Rightarrow> Some e
      | None \<Rightarrow>
          (case first_error (\<lambda>f. f ())
             [\<lambda>_. validate_canonical_dirs ''registered_members'' (po_registered r),
              \<lambda>_. validate_canonical_dirs ''pending_members'' (po_pending r),
              \<lambda>_. map_option AdmittedInvalid (validate_restart_host (po_admitted r)),
              \<lambda>_. map_option PreviousInvalid (validate_restart_host (po_previous r)),
              \<lambda>_. validate_set_relations r,
              \<lambda>_. (case po_probe r of None \<Rightarrow> None | Some p \<Rightarrow> map_option PoolProbe (validate_probe p)),
              \<lambda>_. (case po_failure r of None \<Rightarrow> None | Some f \<Rightarrow> validate_pool_failure f)] of
             Some e \<Rightarrow> Some e
           | None \<Rightarrow> validate_pool_state r))"

section \<open>The file\<close>

definition encode_restart_member :: "restart_member \<Rightarrow> json" where
  "encode_restart_member m = JObj
     [(''config_dir'', jstr (rm_config_dir m)), (''weaver_id'', jstr (rm_weaver m)), (''generation_id'', jstr (rm_generation m))]"

definition encode_restart_host :: "restart_host \<Rightarrow> json" where
  "encode_restart_host h = JObj
     [(''host_id'', jstr (rh_id h)), (''host_generation_id'', jstr (rh_generation h)), (''pid'', JNum (show_int (rh_pid h))),
      (''basis_fingerprint'', jstr (rh_basis h)), (''members'', JArr (map encode_restart_member (rh_members h)))]"

definition or_null :: "('a \<Rightarrow> json) \<Rightarrow> 'a option \<Rightarrow> json" where
  "or_null f v = (case v of None \<Rightarrow> JNull | Some x \<Rightarrow> f x)"

definition pool_entries :: "pool_record \<Rightarrow> object" where
  "pool_entries r =
     [(''format'', jstr (po_format r)), (''jvm_pool'', jstr (po_pool r)), (''state'', jstr (po_state r)),
      (''transition_id'', jstr (po_transition r)), (''updated_at'', jstr (po_updated_at r)),
      (''membership_revision'', jstr (po_revision r)), (''old_generation_stopped'', JBool (po_old_stopped r)),
      (''admitted_host'', or_null encode_restart_host (po_admitted r)),
      (''previous_host'', or_null encode_restart_host (po_previous r)),
      (''registered_members'', JArr (map jstr (po_registered r))), (''pending_members'', JArr (map jstr (po_pending r))),
      (''probe'', or_null encode_probe (po_probe r)), (''failure'', or_null encode_failure (po_failure r))]"

definition encode_pool_record :: "pool_record \<Rightarrow> json" where
  "encode_pool_record r = JObj (pool_entries r)"

text \<open>
  \<open>atomicPoolJSON\<close>: \<open>io\<close> tells whether the directory, the temporary file, its content and the renaming
  all succeed.  The file changes with the renaming or not at all.
\<close>

definition atomic_pool_json :: "bool \<Rightarrow> bool \<Rightarrow> json \<Rightarrow> document_text option \<Rightarrow> pool_error option \<times> document_text option" where
  "atomic_pool_json io marshals v file =
     (if \<not> marshals then (Some PoolMarshal, file)
      else if \<not> io then (Some PoolWrite, file)
      else (None, Some (Text v RestEof)))"

definition pool_encodable :: "pool_record \<Rightarrow> bool" where
  "pool_encodable r = (case po_probe r of None \<Rightarrow> True | Some p \<Rightarrow> list_all (\<lambda>row. encodable (JObj row)) (pr_diagnostics p))"

definition write_pool_record ::
    "string \<Rightarrow> bool \<Rightarrow> pool_record \<Rightarrow> document_text option \<Rightarrow> pool_error option \<times> document_text option" where
  "write_pool_record now io r file =
     (case validate_pool_record ForWrite r of
        Some e \<Rightarrow> (Some e, file)
      | None \<Rightarrow> let r' = r\<lparr>po_updated_at := now\<rparr> in atomic_pool_json io (pool_encodable r') (encode_pool_record r') file)"

text \<open>Unmarshalling without the refusal of unknown fields: their values are skipped.\<close>

fun decode_known :: "string list \<Rightarrow> (string \<Rightarrow> json \<Rightarrow> 's \<Rightarrow> 's option) \<Rightarrow> object \<Rightarrow> 's \<Rightarrow> 's option" where
  "decode_known names set_field [] s = Some s"
| "decode_known names set_field ((k, v) # es) s =
     (case field_of names k of
        None \<Rightarrow> decode_known names set_field es s
      | Some n \<Rightarrow> (case set_field n v s of None \<Rightarrow> None | Some s' \<Rightarrow> decode_known names set_field es s'))"

definition known_struct ::
    "string list \<Rightarrow> (string \<Rightarrow> json \<Rightarrow> 's \<Rightarrow> 's option) \<Rightarrow> 's \<Rightarrow> json \<Rightarrow> 's option" where
  "known_struct names set_field zero v =
     (case v of JObj es \<Rightarrow> decode_known names set_field es zero | JNull \<Rightarrow> Some zero | _ \<Rightarrow> None)"

fun decode_int :: "int \<Rightarrow> json \<Rightarrow> int option" where
  "decode_int old (JNum s) = atoi s"
| "decode_int old JNull = Some old"
| "decode_int old v = None"

definition member_fields :: "string list" where
  "member_fields = [''config_dir'', ''weaver_id'', ''generation_id'']"

definition set_member_field :: "string \<Rightarrow> json \<Rightarrow> restart_member \<Rightarrow> restart_member option" where
  "set_member_field n v m =
     (if n = ''config_dir'' then map_option (\<lambda>x. m\<lparr>rm_config_dir := x\<rparr>) (decode_str (rm_config_dir m) v)
      else if n = ''weaver_id'' then map_option (\<lambda>x. m\<lparr>rm_weaver := x\<rparr>) (decode_str (rm_weaver m) v)
      else map_option (\<lambda>x. m\<lparr>rm_generation := x\<rparr>) (decode_str (rm_generation m) v))"

definition empty_member :: restart_member where
  "empty_member = \<lparr>rm_config_dir = [], rm_weaver = [], rm_generation = []\<rparr>"

fun decode_members :: "json \<Rightarrow> restart_member list option" where
  "decode_members (JArr vs) = decode_all (known_struct member_fields set_member_field empty_member) vs"
| "decode_members JNull = Some []"
| "decode_members v = None"

definition host_fields :: "string list" where
  "host_fields = [''host_id'', ''host_generation_id'', ''pid'', ''basis_fingerprint'', ''members'']"

definition set_host_field :: "string \<Rightarrow> json \<Rightarrow> restart_host \<Rightarrow> restart_host option" where
  "set_host_field n v h =
     (if n = ''host_id'' then map_option (\<lambda>x. h\<lparr>rh_id := x\<rparr>) (decode_str (rh_id h) v)
      else if n = ''host_generation_id'' then map_option (\<lambda>x. h\<lparr>rh_generation := x\<rparr>) (decode_str (rh_generation h) v)
      else if n = ''pid'' then map_option (\<lambda>x. h\<lparr>rh_pid := x\<rparr>) (decode_int (rh_pid h) v)
      else if n = ''basis_fingerprint'' then map_option (\<lambda>x. h\<lparr>rh_basis := x\<rparr>) (decode_str (rh_basis h) v)
      else map_option (\<lambda>x. h\<lparr>rh_members := x\<rparr>) (decode_members v))"

definition empty_host :: restart_host where
  "empty_host = \<lparr>rh_id = [], rh_generation = [], rh_pid = 0, rh_basis = [], rh_members = []\<rparr>"

text \<open>The keys of an object are exactly the expected ones.\<close>

definition exact_keys :: "string list \<Rightarrow> object \<Rightarrow> pool_error option" where
  "exact_keys expected raw =
     (case unknown_key expected raw of
        Some k \<Rightarrow> Some (PoolUnknown k)
      | None \<Rightarrow> map_option PoolKeyMissing (List.find (\<lambda>k. map_of raw k = None) expected))"

definition null_key :: "string list \<Rightarrow> object \<Rightarrow> string option" where
  "null_key keys raw = List.find (\<lambda>k. map_of raw k = Some JNull) keys"

definition decode_pool_member :: "json \<Rightarrow> (pool_error, restart_member) result" where
  "decode_pool_member v =
     (case decode_object (Text v RestEof) of
        None \<Rightarrow> Err PoolMalformed
      | Some raw \<Rightarrow>
          (case exact_keys member_fields raw of
             Some e \<Rightarrow> Err e
           | None \<Rightarrow>
               (case null_key member_fields raw of
                  Some k \<Rightarrow> Err (PoolNull k)
                | None \<Rightarrow>
                    (case known_struct member_fields set_member_field empty_member v of
                       None \<Rightarrow> Err PoolMalformed
                     | Some m \<Rightarrow> Ok m))))"

fun decode_each :: "(json \<Rightarrow> ('e, 'a) result) \<Rightarrow> json list \<Rightarrow> ('e, 'a list) result" where
  "decode_each f [] = Ok []"
| "decode_each f (v # vs) =
     (case f v of Inl e \<Rightarrow> Err e | Inr x \<Rightarrow> (case decode_each f vs of Inl e \<Rightarrow> Err e | Inr xs \<Rightarrow> Ok (x # xs)))"

text \<open>\<open>decodePoolRestartHost\<close>; \<open>wrap\<close> names the host of which an invalid field is reported.\<close>

definition decode_pool_host :: "(host_error \<Rightarrow> pool_error) \<Rightarrow> json \<Rightarrow> (pool_error, restart_host option) result" where
  "decode_pool_host wrap v =
     (if v = JNull then Ok None
      else case decode_object (Text v RestEof) of
        None \<Rightarrow> Err PoolMalformed
      | Some raw \<Rightarrow>
          (case exact_keys host_fields raw of
             Some e \<Rightarrow> Err e
           | None \<Rightarrow>
               (case known_struct host_fields set_host_field empty_host v of
                  None \<Rightarrow> Err PoolMalformed
                | Some h \<Rightarrow>
                    (case (case map_of raw ''members'' of Some (JArr vs) \<Rightarrow> Some vs | Some JNull \<Rightarrow> Some [] | _ \<Rightarrow> None) of
                       None \<Rightarrow> Err PoolMalformed
                     | Some vs \<Rightarrow>
                         (case decode_each decode_pool_member vs of
                            Inl e \<Rightarrow> Err e
                          | Inr ms \<Rightarrow>
                              let h = h\<lparr>rh_members := ms\<rparr> in
                              (case validate_restart_host (Some h) of Some e \<Rightarrow> Err (wrap e) | None \<Rightarrow> Ok (Some h)))))))"

definition decode_pool_probe :: "json \<Rightarrow> (pool_error, probe_result option) result" where
  "decode_pool_probe v =
     (if v = JNull then Ok None
      else case decode_restart_probe (Text v RestEof) of Inl e \<Rightarrow> Err (PoolProbe e) | Inr p \<Rightarrow> Ok (Some p))"

definition decode_pool_failure :: "json \<Rightarrow> (pool_error, restart_failure option) result" where
  "decode_pool_failure v =
     (if v = JNull then Ok None
      else case decode_object (Text v RestEof) of
        None \<Rightarrow> Err PoolMalformed
      | Some raw \<Rightarrow>
          (case unknown_key failure_fields raw of
             Some k \<Rightarrow> Err (PoolUnknown k)
           | None \<Rightarrow>
               (case List.find (\<lambda>k. map_of raw k = None \<or> map_of raw k = Some JNull) [''stage'', ''message''] of
                  Some k \<Rightarrow> Err (PoolKeyMissing k)
                | None \<Rightarrow>
                    (case null_key [''log_path'', ''exit_evidence''] raw of
                       Some k \<Rightarrow> Err (PoolNull k)
                     | None \<Rightarrow>
                         (case known_struct failure_fields set_failure_field empty_failure v of
                            None \<Rightarrow> Err PoolMalformed
                          | Some f \<Rightarrow> Ok (Some f))))))"

definition known_pointer ::
    "string list \<Rightarrow> (string \<Rightarrow> json \<Rightarrow> 's \<Rightarrow> 's option) \<Rightarrow> 's \<Rightarrow> json \<Rightarrow> 's option option" where
  "known_pointer names set_field zero v =
     (if v = JNull then Some None else map_option Some (known_struct names set_field zero v))"

definition pool_fields :: "string list" where
  "pool_fields = [''format'', ''jvm_pool'', ''state'', ''transition_id'', ''updated_at'', ''membership_revision'',
     ''old_generation_stopped'', ''admitted_host'', ''previous_host'', ''registered_members'', ''pending_members'',
     ''probe'', ''failure'']"

definition set_pool_field :: "string \<Rightarrow> json \<Rightarrow> pool_record \<Rightarrow> pool_record option" where
  "set_pool_field n v r =
     (if n = ''format'' then map_option (\<lambda>x. r\<lparr>po_format := x\<rparr>) (decode_str (po_format r) v)
      else if n = ''jvm_pool'' then map_option (\<lambda>x. r\<lparr>po_pool := x\<rparr>) (decode_str (po_pool r) v)
      else if n = ''state'' then map_option (\<lambda>x. r\<lparr>po_state := x\<rparr>) (decode_str (po_state r) v)
      else if n = ''transition_id'' then map_option (\<lambda>x. r\<lparr>po_transition := x\<rparr>) (decode_str (po_transition r) v)
      else if n = ''updated_at'' then map_option (\<lambda>x. r\<lparr>po_updated_at := x\<rparr>) (decode_str (po_updated_at r) v)
      else if n = ''membership_revision'' then map_option (\<lambda>x. r\<lparr>po_revision := x\<rparr>) (decode_str (po_revision r) v)
      else if n = ''old_generation_stopped'' then map_option (\<lambda>x. r\<lparr>po_old_stopped := x\<rparr>) (decode_bool (po_old_stopped r) v)
      else if n = ''admitted_host''
        then map_option (\<lambda>x. r\<lparr>po_admitted := x\<rparr>) (known_pointer host_fields set_host_field empty_host v)
      else if n = ''previous_host''
        then map_option (\<lambda>x. r\<lparr>po_previous := x\<rparr>) (known_pointer host_fields set_host_field empty_host v)
      else if n = ''registered_members'' then map_option (\<lambda>x. r\<lparr>po_registered := x\<rparr>) (decode_strs v)
      else if n = ''pending_members'' then map_option (\<lambda>x. r\<lparr>po_pending := x\<rparr>) (decode_strs v)
      else if n = ''probe'' then map_option (\<lambda>x. r\<lparr>po_probe := x\<rparr>) (known_pointer probe_fields set_probe_field empty_probe v)
      else map_option (\<lambda>x. r\<lparr>po_failure := x\<rparr>) (known_pointer failure_fields set_failure_field empty_failure v))"

definition empty_pool_record :: pool_record where
  "empty_pool_record = \<lparr>po_format = [], po_pool = [], po_state = [], po_transition = [], po_updated_at = [], po_revision = [],
     po_old_stopped = False, po_admitted = None, po_previous = None, po_registered = [], po_pending = [],
     po_probe = None, po_failure = None\<rparr>"

definition required_fields :: "string list" where
  "required_fields = [''format'', ''jvm_pool'', ''state'', ''transition_id'', ''updated_at'', ''membership_revision'',
     ''registered_members'', ''pending_members'', ''old_generation_stopped'']"

text \<open>The parts of a record whose decoding is stricter than that of \<open>encoding/json\<close>.\<close>

definition decode_pool_parts :: "object \<Rightarrow> pool_record \<Rightarrow> (pool_error, pool_record) result" where
  "decode_pool_parts raw r =
     (let part = (\<lambda>k. case map_of raw k of None \<Rightarrow> JNull | Some v \<Rightarrow> v) in
      case decode_pool_host AdmittedInvalid (part ''admitted_host'') of
        Inl e \<Rightarrow> Err e
      | Inr a \<Rightarrow>
          (case decode_pool_host PreviousInvalid (part ''previous_host'') of
             Inl e \<Rightarrow> Err e
           | Inr b \<Rightarrow>
               (case decode_pool_probe (part ''probe'') of
                  Inl e \<Rightarrow> Err e
                | Inr p \<Rightarrow>
                    (case decode_pool_failure (part ''failure'') of
                       Inl e \<Rightarrow> Err e
                     | Inr f \<Rightarrow> Ok (r\<lparr>po_admitted := a, po_previous := b, po_probe := p, po_failure := f\<rparr>)))))"

definition decode_pool_record :: "string \<Rightarrow> document_text \<Rightarrow> (pool_error, pool_record) result" where
  "decode_pool_record pool text =
     (case decode_object text of
        None \<Rightarrow> Err PoolMalformed
      | Some raw \<Rightarrow>
          (case exact_keys pool_fields raw of
             Some e \<Rightarrow> Err e
           | None \<Rightarrow>
               (case null_key required_fields raw of
                  Some k \<Rightarrow> Err (PoolNull k)
                | None \<Rightarrow>
                    (case decode_known pool_fields set_pool_field (sort_key fst raw) empty_pool_record of
                       None \<Rightarrow> Err PoolMalformed
                     | Some r \<Rightarrow>
                         if po_pool r \<noteq> pool then Err (PoolOther (po_pool r) pool)
                         else (case decode_pool_parts raw r of
                                 Inl e \<Rightarrow> Err e
                               | Inr r \<Rightarrow>
                                   (case validate_pool_record FromDisk r of Some e \<Rightarrow> Err e | None \<Rightarrow> Ok r))))))"

definition validate_pool_restart_path :: "(string \<Rightarrow> 8 word list) \<Rightarrow> string \<Rightarrow> string \<Rightarrow> pool_error option" where
  "validate_pool_restart_path sha256 path pool =
     (if blank path \<or> \<not> canonical path then Some PoolPath
      else if base_path path \<noteq> pool_restart_file then Some PoolPath
      else (case validate_artifact_key sha256 pool (base_path (dir_path path)) of
              Some e \<Rightarrow> Some (PoolKey e)
            | None \<Rightarrow>
                if base_path (dir_path (dir_path path)) \<noteq> ''hosts''
                   \<or> base_path (dir_path (dir_path (dir_path path))) \<noteq> ''jvm-pools''
                then Some PoolPath else None))"

text \<open>\<open>readPoolRestartRecord\<close>; \<open>Inl ()\<close> stands for a file that exists and cannot be read.\<close>

definition read_pool_record ::
    "(string \<Rightarrow> 8 word list) \<Rightarrow> string \<Rightarrow> string \<Rightarrow> (unit, document_text option) result
     \<Rightarrow> (pool_error, pool_record option) result" where
  "read_pool_record sha256 path pool file =
     (case validate_pool_restart_path sha256 path pool of
        Some e \<Rightarrow> Err e
      | None \<Rightarrow>
          (case file of
             Inl _ \<Rightarrow> Err PoolRead
           | Inr None \<Rightarrow> Ok None
           | Inr (Some text) \<Rightarrow> (case decode_pool_record pool text of Inl e \<Rightarrow> Err e | Inr r \<Rightarrow> Ok (Some r))))"

definition pool_restart_record_path ::
    "(string \<Rightarrow> 8 word list) \<Rightarrow> string \<Rightarrow> string \<Rightarrow> (reg_error, string) result" where
  "pool_restart_record_path sha256 canonical_root pool =
     (case pool_host_dir sha256 canonical_root pool of
        Inl e \<Rightarrow> Err e
      | Inr dir \<Rightarrow> Ok (join_path [dir, pool_restart_file]))"

definition compact_pool_record :: "pool_record \<Rightarrow> pool_record" where
  "compact_pool_record r = r\<lparr>po_probe := None\<rparr>"

section \<open>Accepted records\<close>

text \<open>What an accepted record says, as sets.\<close>

definition good_host :: "restart_host \<Rightarrow> bool" where
  "good_host h \<longleftrightarrow>
     \<not> blank (rh_id h) \<and> \<not> blank (rh_generation h) \<and> \<not> blank (rh_basis h) \<and> 0 < rh_pid h \<and> valid_basis_fingerprint (rh_basis h)
     \<and> rh_members h \<noteq> []
     \<and> (\<forall>m \<in> set (rh_members h). canonical (rm_config_dir m) \<and> \<not> blank (rm_weaver m) \<and> \<not> blank (rm_generation m))
     \<and> strict_sorted_on rm_config_dir (rh_members h)"

definition host_set :: "restart_host option \<Rightarrow> string set" where
  "host_set h = (case h of None \<Rightarrow> {} | Some h \<Rightarrow> set (host_member_set h))"

lemma validate_restart_host_None: "validate_restart_host h = None \<longleftrightarrow> (case h of None \<Rightarrow> True | Some h \<Rightarrow> good_host h)"
  by (auto simp: validate_restart_host_def good_host_def check_sorted_None validate_restart_member_def split: option.splits)

lemma validate_canonical_dirs_None:
  "validate_canonical_dirs label vs = None \<longleftrightarrow> list_all canonical vs \<and> strict_sorted_on (\<lambda>v. v) vs"
  by (auto simp: validate_canonical_dirs_def check_sorted_None list_all_iff)

lemma subset_of_iff [simp]: "subset_of vs universe \<longleftrightarrow> set vs \<subseteq> set universe"
  by (auto simp: subset_of_def list_all_iff)

lemma set_difference [simp]: "set (difference left right) = set left - set right"
  by (auto simp: difference_def)

lemma equal_sets_iff [simp]: "equal_sets left right \<longleftrightarrow> set left = set right"
  by (auto simp: equal_sets_def)

lemma validate_set_relations_None:
  "validate_set_relations r = None \<longleftrightarrow>
     (po_admitted r \<noteq> None \<or> po_previous r \<noteq> None)
     \<and> host_set (po_admitted r) \<union> host_set (po_previous r) \<subseteq> set (po_registered r)
     \<and> set (po_pending r) = set (po_registered r)
         - (if po_admitted r = None then host_set (po_previous r) else host_set (po_admitted r))"
  by (cases "po_admitted r"; cases "po_previous r") (auto simp: validate_set_relations_def host_set_def Let_def)

text \<open>The state a record may be in: which hosts, probe and failure go with it.\<close>

definition coherent_state :: "pool_record \<Rightarrow> bool" where
  "coherent_state r \<longleftrightarrow>
     po_state r = state_probing \<and> po_admitted r \<noteq> None \<and> po_previous r = None \<and> \<not> po_old_stopped r \<and> po_failure r = None
       \<and> (po_probe r \<noteq> None \<longrightarrow> pool_probe_ok r)
     \<or> po_state r = state_restarting \<and> po_admitted r = None \<and> po_previous r \<noteq> None \<and> po_failure r = None \<and> pool_probe_ok r
     \<or> po_state r = state_running \<and> po_admitted r \<noteq> None
       \<and> (if po_previous r = None
          then \<not> po_old_stopped r
            \<and> (case po_failure r of
                 None \<Rightarrow> po_probe r = None \<and> po_pending r = []
               | Some f \<Rightarrow> rf_stage f = ''probe'' \<and> po_probe r \<noteq> None \<and> \<not> pool_probe_ok r)
          else pool_probe_ok r \<and> po_old_stopped r \<and> po_pending r = [] \<and> po_failure r = None)
     \<or> po_state r = state_failed \<and> po_admitted r = None \<and> po_previous r \<noteq> None \<and> pool_probe_ok r \<and> po_failure r \<noteq> None"

lemma validate_pool_state_None:
  assumes "po_state r \<in> set restart_states"
  shows "validate_pool_state r = None \<longleftrightarrow> coherent_state r"
proof -
  consider "po_state r = state_probing" | "po_state r = state_restarting" | "po_state r = state_running" | "po_state r = state_failed"
    using assms by (auto simp: restart_states_def)
  then show ?thesis
    by cases (auto simp: validate_pool_state_def coherent_state_def split: option.splits)
qed

lemma pool_record_accepted:
  "validate_pool_record mode r = None \<longleftrightarrow>
     (mode = ForWrite \<longrightarrow> po_updated_at r = []) \<and> (mode = FromDisk \<longrightarrow> \<not> blank (po_updated_at r))
     \<and> po_format r = pool_restart_format \<and> \<not> blank (po_pool r) \<and> \<not> blank (po_transition r) \<and> \<not> blank (po_revision r)
     \<and> po_state r \<in> set restart_states
     \<and> list_all canonical (po_registered r @ po_pending r)
     \<and> strict_sorted_on (\<lambda>v. v) (po_registered r) \<and> strict_sorted_on (\<lambda>v. v) (po_pending r)
     \<and> (\<forall>h. po_admitted r = Some h \<or> po_previous r = Some h \<longrightarrow> good_host h)
     \<and> validate_set_relations r = None
     \<and> (\<forall>p. po_probe r = Some p \<longrightarrow> validate_probe p = None)
     \<and> (\<forall>f. po_failure r = Some f \<longrightarrow> validate_pool_failure f = None)
     \<and> coherent_state r"
proof -
  have "validate_pool_record mode r = None \<longleftrightarrow>
     (mode = ForWrite \<longrightarrow> po_updated_at r = []) \<and> (mode = FromDisk \<longrightarrow> \<not> blank (po_updated_at r))
     \<and> po_format r = pool_restart_format \<and> \<not> blank (po_pool r) \<and> \<not> blank (po_transition r) \<and> \<not> blank (po_revision r)
     \<and> po_state r \<in> set restart_states
     \<and> validate_canonical_dirs ''registered_members'' (po_registered r) = None
     \<and> validate_canonical_dirs ''pending_members'' (po_pending r) = None
     \<and> validate_restart_host (po_admitted r) = None \<and> validate_restart_host (po_previous r) = None
     \<and> validate_set_relations r = None
     \<and> (\<forall>p. po_probe r = Some p \<longrightarrow> validate_probe p = None)
     \<and> (\<forall>f. po_failure r = Some f \<longrightarrow> validate_pool_failure f = None)
     \<and> validate_pool_state r = None"
    by (simp add: validate_pool_record_def split: option.split)
  also have "\<dots> \<longleftrightarrow> (mode = ForWrite \<longrightarrow> po_updated_at r = []) \<and> (mode = FromDisk \<longrightarrow> \<not> blank (po_updated_at r))
     \<and> po_format r = pool_restart_format \<and> \<not> blank (po_pool r) \<and> \<not> blank (po_transition r) \<and> \<not> blank (po_revision r)
     \<and> po_state r \<in> set restart_states
     \<and> list_all canonical (po_registered r @ po_pending r)
     \<and> strict_sorted_on (\<lambda>v. v) (po_registered r) \<and> strict_sorted_on (\<lambda>v. v) (po_pending r)
     \<and> (\<forall>h. po_admitted r = Some h \<or> po_previous r = Some h \<longrightarrow> good_host h)
     \<and> validate_set_relations r = None
     \<and> (\<forall>p. po_probe r = Some p \<longrightarrow> validate_probe p = None)
     \<and> (\<forall>f. po_failure r = Some f \<longrightarrow> validate_pool_failure f = None)
     \<and> coherent_state r"
    unfolding validate_canonical_dirs_None validate_restart_host_None list_all_append
    using validate_pool_state_None [of r] by (auto split: option.splits)
  finally show ?thesis .
qed

section \<open>Reading back\<close>

definition plain_member :: "restart_member \<Rightarrow> bool" where
  "plain_member m \<longleftrightarrow> utf8_valid (rm_config_dir m) \<and> utf8_valid (rm_weaver m) \<and> utf8_valid (rm_generation m)"

definition plain_host :: "restart_host \<Rightarrow> bool" where
  "plain_host h \<longleftrightarrow> utf8_valid (rh_id h) \<and> utf8_valid (rh_generation h) \<and> utf8_valid (rh_basis h) \<and> rh_pid h < 2 ^ 63
     \<and> list_all plain_member (rh_members h)"

definition plain_pool_record :: "pool_record \<Rightarrow> bool" where
  "plain_pool_record r \<longleftrightarrow>
     list_all utf8_valid ([po_format r, po_pool r, po_state r, po_transition r, po_revision r] @ po_registered r @ po_pending r)
     \<and> (\<forall>h. po_admitted r = Some h \<or> po_previous r = Some h \<longrightarrow> plain_host h)
     \<and> (\<forall>p. po_probe r = Some p \<longrightarrow> plain_probe p) \<and> (\<forall>f. po_failure r = Some f \<longrightarrow> plain_failure f)"

lemma sort_by_name:
  assumes "mset es = mset es'" "strict_sorted_on fst es'"
  shows "sort_key fst es = es'"
proof -
  have "sorted (map fst es')" "inj_on fst (set es')" using assms(2) by (simp_all add: strict_sorted_on_iff distinct_map)
  moreover have "set es = set es'" using assms(1) by (rule mset_eq_setD)
  ultimately show ?thesis using assms(1) by (intro sort_key_inj_key_eq) simp_all
qed

lemma decode_each_map: "(\<And>x. x \<in> set xs \<Longrightarrow> f (g x) = Ok x) \<Longrightarrow> decode_each f (map g xs) = Ok xs"
  by (induction xs) auto

lemma known_member:
  "plain_member m \<Longrightarrow> known_struct member_fields set_member_field empty_member (encode_restart_member m) = Some m"
  by (cases m) (simp add: plain_member_def known_struct_def encode_restart_member_def field_of_def member_fields_def
      set_member_field_def empty_member_def)

lemma decode_encoded_member:
  assumes "plain_member m"
  shows "decode_pool_member (encode_restart_member m) = Ok m"
proof -
  let ?es = "[(''config_dir'', jstr (rm_config_dir m)), (''weaver_id'', jstr (rm_weaver m)), (''generation_id'', jstr (rm_generation m))]"
  have "decode_object (Text (encode_restart_member m) RestEof) = Some ?es"
    by (simp add: decode_object_def encode_restart_member_def object_map_distinct)
  moreover have "exact_keys member_fields ?es = None" "null_key member_fields ?es = None"
    by (simp_all add: exact_keys_def null_key_def member_fields_def find_None_iff)
  ultimately show ?thesis by (simp add: decode_pool_member_def known_member [OF assms])
qed

lemma known_host:
  assumes "plain_host h" "0 < rh_pid h"
  shows "known_struct host_fields set_host_field empty_host (encode_restart_host h) = Some h"
proof -
  have "decode_members (JArr (map encode_restart_member (rh_members h))) = Some (rh_members h)"
    using assms(1) by (auto simp: plain_host_def list_all_iff intro!: decode_all_map known_member)
  moreover have "nat (rh_pid h) < 2 ^ 63" using assms by (simp add: plain_host_def nat_less_iff)
  then have "atoi (show_int (rh_pid h)) = Some (rh_pid h)"
    using atoi_show_nat [of "nat (rh_pid h)"] assms(2) by (simp add: show_int_def)
  ultimately show ?thesis
    using assms(1)
    by (cases h) (simp add: known_struct_def encode_restart_host_def field_of_def host_fields_def set_host_field_def
        empty_host_def plain_host_def del: decode_members.simps)
qed

lemma decode_encoded_host:
  assumes "plain_host h" "good_host h"
  shows "decode_pool_host wrap (encode_restart_host h) = Ok (Some h)"
proof -
  let ?es = "[(''host_id'', jstr (rh_id h)), (''host_generation_id'', jstr (rh_generation h)), (''pid'', JNum (show_int (rh_pid h))),
      (''basis_fingerprint'', jstr (rh_basis h)), (''members'', JArr (map encode_restart_member (rh_members h)))]"
  have "decode_object (Text (encode_restart_host h) RestEof) = Some ?es"
    by (simp add: decode_object_def encode_restart_host_def object_map_distinct)
  moreover have "exact_keys host_fields ?es = None"
    by (simp add: exact_keys_def host_fields_def find_None_iff)
  moreover have "decode_each decode_pool_member (map encode_restart_member (rh_members h)) = Ok (rh_members h)"
    using assms(1) by (auto simp: plain_host_def list_all_iff intro!: decode_each_map decode_encoded_member)
  moreover have "known_struct host_fields set_host_field empty_host (encode_restart_host h) = Some h"
    using assms by (intro known_host) (simp_all add: good_host_def)
  moreover have "validate_restart_host (Some h) = None" using assms(2) by (simp add: validate_restart_host_None)
  moreover have "encode_restart_host h \<noteq> JNull" by (simp add: encode_restart_host_def)
  ultimately show ?thesis by (simp add: decode_pool_host_def del: printed.simps)
qed

lemma known_fields:
  "decode_fields names set_field es s = Some s' \<Longrightarrow> decode_known names set_field es s = Some s'"
  by (induction names set_field es s rule: decode_fields.induct) (auto split: option.splits)

lemma known_encoded:
  assumes "decode_pointer names set_field zero None v = Some (Some x)"
  shows "known_struct names set_field zero v = Some x"
  using assms by (auto simp: decode_pointer_def known_struct_def intro: known_fields split: json.splits)

lemma decode_plain_rows:
  assumes "list_all (\<lambda>row. plain (JObj row)) rows"
  shows "decode_rows (JArr (map (\<lambda>row. printed (JObj row)) rows)) = Some rows"
proof -
  have "decode_row (printed (JObj row)) = Some row" if "row \<in> set rows" for row
  proof -
    have "plain (JObj row)" using assms that by (simp add: list_all_iff)
    then show ?thesis using plain_printed plain_any_of by (simp del: printed.simps any_of.simps plain.simps)
  qed
  then show ?thesis by (auto intro!: decode_all_map)
qed

definition sorted_probe :: "probe_result \<Rightarrow> object" where
  "sorted_probe p =
     [(''completed'', JArr (map jstr (pr_completed p))),
      (''diagnostics'', JArr (map (\<lambda>row. printed (JObj row)) (pr_diagnostics p))),
      (''log'', jstr (pr_log p)), (''probe/workspace'', jstr (pr_workspace p)), (''source/workspace'', jstr (pr_source p)),
      (''stage'', jstr (pr_stage p)), (''success'', JBool (pr_success p))]"

lemma decode_encoded_probe_strictly:
  assumes "plain_probe p" "validate_probe p = None"
  shows "decode_restart_probe (Text (encode_probe p) RestEof) = Ok p"
proof -
  obtain es where es: "encode_probe p = JObj es" and keys: "map fst es = probe_fields" and m: "mset es = mset (sorted_probe p)"
    and nulls: "\<forall>(k, v) \<in> set es. v \<noteq> JNull"
    and rows: "map_of es ''diagnostics'' = Some (JArr (map (\<lambda>row. printed (JObj row)) (pr_diagnostics p)))"
    by (simp add: encode_probe_def probe_fields_def sorted_probe_def del: printed.simps)
      (simp add: add_mset_commute)
  have "sorted_wrt (<) [''completed'', ''diagnostics'', ''log'', ''probe/workspace'', ''source/workspace'', ''stage'', ''success'']"
    by code_simp
  then have "strict_sorted_on fst (sorted_probe p)"
    unfolding strict_sorted_on_def sorted_probe_def by (simp only: sorted_wrt_map [symmetric] list.map fst_conv)
  then have sort: "sort_key fst es = sorted_probe p" by (rule sort_by_name [OF m])
  have "distinct (map fst es)" unfolding keys by (simp add: probe_fields_def)
  then have raw: "decode_object (Text (encode_probe p) RestEof) = Some es" by (simp add: decode_object_def es object_map_distinct)
  have "k \<in> set probe_fields" if "(k, v) \<in> set es" for k v
    using that unfolding keys [symmetric] by force
  then have known: "first_error (\<lambda>(k, v). if k \<notin> set probe_fields then Some (ProbeUnknown k)
      else if v = JNull then Some (ProbeNull k) else None) es = None"
    using nulls by auto
  have present: "List.find (\<lambda>k. map_of es k = None) probe_fields = None"
    unfolding keys [symmetric] by (auto simp: find_None_iff map_of_eq_None_iff)
  have "decode_strs (JArr (map jstr (pr_completed p))) = Some (pr_completed p)"
    using assms(1) by (auto simp: plain_probe_def list_all_iff intro!: decode_all_map)
  moreover have "decode_rows (JArr (map (\<lambda>row. printed (JObj row)) (pr_diagnostics p))) = Some (pr_diagnostics p)"
    using assms(1) by (intro decode_plain_rows) (simp add: plain_probe_def)
  ultimately have dec: "decode_fields probe_fields set_probe_field (sorted_probe p) empty_probe = Some p"
    using assms(1)
    by (cases p) (simp add: sorted_probe_def field_of_def probe_fields_def set_probe_field_def
        empty_probe_def plain_probe_def del: decode_strs.simps decode_rows.simps printed.simps(3))
  have "\<not> null_row (map_of es ''diagnostics'')" unfolding rows by (auto simp: null_row_def)
  then show ?thesis by (simp add: decode_restart_probe_def raw known present sort dec assms(2))
qed

lemma decode_encoded_failure_strictly:
  assumes "plain_failure f"
  shows "decode_pool_failure (encode_failure f) = Ok (Some f)"
proof -
  let ?fs = "[(True, ''stage'', jstr (rf_stage f)), (True, ''message'', jstr (rf_message f)),
      (rf_log f \<noteq> [], ''log_path'', jstr (rf_log f)), (rf_evidence f \<noteq> [], ''exit_evidence'', jstr (rf_evidence f))]"
  have "distinct (map fst (entries_of ?fs))" unfolding entries_of_def map_map by (rule distinct_map_filter) simp
  then have raw: "decode_object (Text (encode_failure f) RestEof) = Some (entries_of ?fs)"
    by (simp add: decode_object_def encode_failure_def object_map_distinct del: printed.simps)
  have known: "known_struct failure_fields set_failure_field empty_failure (encode_failure f) = Some f"
    by (rule known_encoded [OF decode_encoded_failure [OF assms]])
  have "unknown_key failure_fields (entries_of ?fs) = None"
    by (auto simp: entries_of_def failure_fields_def)
  moreover have "List.find (\<lambda>k. map_of (entries_of ?fs) k = None \<or> map_of (entries_of ?fs) k = Some JNull) [''stage'', ''message''] = None"
    by (simp add: entries_of_def)
  moreover have "null_key [''log_path'', ''exit_evidence''] (entries_of ?fs) = None"
    by (simp add: null_key_def entries_of_def)
  moreover have "encode_failure f \<noteq> JNull" by (simp add: encode_failure_def)
  ultimately show ?thesis unfolding decode_pool_failure_def raw option.case known by (simp del: unknown_key.simps unknown_key_None)
qed

lemma decode_encoded_parts:
  assumes "plain_pool_record r" "validate_pool_record mode r = None"
    "map_of raw ''admitted_host'' = Some (or_null encode_restart_host (po_admitted r))"
    "map_of raw ''previous_host'' = Some (or_null encode_restart_host (po_previous r))"
    "map_of raw ''probe'' = Some (or_null encode_probe (po_probe r))"
    "map_of raw ''failure'' = Some (or_null encode_failure (po_failure r))"
  shows "decode_pool_parts raw r = Ok r"
proof -
  have host: "decode_pool_host wrap (or_null encode_restart_host h) = Ok h"
    if "h = po_admitted r \<or> h = po_previous r" for wrap h
  proof (cases h)
    case None
    then show ?thesis by (simp add: or_null_def decode_pool_host_def)
  next
    case (Some x)
    have "plain_host x" "good_host x" using that assms(1,2) Some by (auto simp: plain_pool_record_def pool_record_accepted)
    then show ?thesis by (simp add: or_null_def Some decode_encoded_host)
  qed
  have probe: "decode_pool_probe (or_null encode_probe (po_probe r)) = Ok (po_probe r)"
  proof (cases "po_probe r")
    case None
    then show ?thesis by (simp add: or_null_def decode_pool_probe_def)
  next
    case (Some x)
    have "plain_probe x" "validate_probe x = None" using assms(1,2) Some by (auto simp: plain_pool_record_def pool_record_accepted)
    moreover have "encode_probe x \<noteq> JNull" by (simp add: encode_probe_def)
    ultimately show ?thesis by (simp add: or_null_def Some decode_pool_probe_def decode_encoded_probe_strictly)
  qed
  have failure: "decode_pool_failure (or_null encode_failure (po_failure r)) = Ok (po_failure r)"
  proof (cases "po_failure r")
    case None
    then show ?thesis by (simp add: or_null_def decode_pool_failure_def)
  next
    case (Some x)
    have "plain_failure x" using assms(1) Some by (auto simp: plain_pool_record_def)
    then show ?thesis by (simp add: or_null_def Some decode_encoded_failure_strictly)
  qed
  show ?thesis
    unfolding decode_pool_parts_def Let_def assms(3-6) option.case by (simp add: host probe failure)
qed

definition sorted_pool :: "pool_record \<Rightarrow> object" where
  "sorted_pool r =
     [(''admitted_host'', or_null encode_restart_host (po_admitted r)), (''failure'', or_null encode_failure (po_failure r)),
      (''format'', jstr (po_format r)), (''jvm_pool'', jstr (po_pool r)), (''membership_revision'', jstr (po_revision r)),
      (''old_generation_stopped'', JBool (po_old_stopped r)), (''pending_members'', JArr (map jstr (po_pending r))),
      (''previous_host'', or_null encode_restart_host (po_previous r)), (''probe'', or_null encode_probe (po_probe r)),
      (''registered_members'', JArr (map jstr (po_registered r))), (''state'', jstr (po_state r)),
      (''transition_id'', jstr (po_transition r)), (''updated_at'', jstr (po_updated_at r))]"

lemma sort_pool_entries: "sort_key fst (pool_entries r) = sorted_pool r"
proof (rule sort_by_name)
  show "mset (pool_entries r) = mset (sorted_pool r)"
    by (simp add: pool_entries_def sorted_pool_def add_mset_commute del: printed.simps)
  have "sorted_wrt (<) [''admitted_host'', ''failure'', ''format'', ''jvm_pool'', ''membership_revision'', ''old_generation_stopped'',
     ''pending_members'', ''previous_host'', ''probe'', ''registered_members'', ''state'', ''transition_id'', ''updated_at'']"
    by code_simp
  then show "strict_sorted_on fst (sorted_pool r)"
    unfolding strict_sorted_on_def sorted_pool_def by (simp only: sorted_wrt_map [symmetric] list.map fst_conv)
qed

lemma known_pool_record:
  assumes "plain_pool_record r" "validate_pool_record mode r = None" "utf8_valid (po_updated_at r)"
  shows "decode_known pool_fields set_pool_field (sorted_pool r) empty_pool_record = Some r"
proof -
  have host: "known_pointer host_fields set_host_field empty_host (or_null encode_restart_host h) = Some h"
    if "h = po_admitted r \<or> h = po_previous r" for h
  proof (cases h)
    case (Some x)
    have "plain_host x" "good_host x" using that assms(1,2) Some by (auto simp: plain_pool_record_def pool_record_accepted)
    then show ?thesis by (simp add: or_null_def Some known_pointer_def known_host good_host_def) (simp add: encode_restart_host_def)
  qed (simp add: or_null_def known_pointer_def)
  have probe: "known_pointer probe_fields set_probe_field empty_probe (or_null encode_probe (po_probe r)) = Some (po_probe r)"
  proof (cases "po_probe r")
    case (Some x)
    have "plain_probe x" using assms(1) Some by (auto simp: plain_pool_record_def)
    then show ?thesis
      by (simp add: or_null_def Some known_pointer_def known_encoded decode_encoded_probe) (simp add: encode_probe_def)
  qed (simp add: or_null_def known_pointer_def)
  have failure: "known_pointer failure_fields set_failure_field empty_failure (or_null encode_failure (po_failure r)) = Some (po_failure r)"
  proof (cases "po_failure r")
    case (Some x)
    have "plain_failure x" using assms(1) Some by (auto simp: plain_pool_record_def)
    then show ?thesis
      by (simp add: or_null_def Some known_pointer_def known_encoded decode_encoded_failure) (simp add: encode_failure_def)
  qed (simp add: or_null_def known_pointer_def)
  have strs: "decode_strs (JArr (map (\<lambda>s. JStr (utf8_coerce s)) xs)) = Some xs" if "xs = po_registered r \<or> xs = po_pending r" for xs
    using that assms(1) by (auto simp: plain_pool_record_def list_all_iff intro!: decode_all_map)
  show ?thesis
    using assms(1,3)
    by (simp add: sorted_pool_def field_of_def pool_fields_def set_pool_field_def host probe failure strs empty_pool_record_def
        plain_pool_record_def del: decode_strs.simps)
qed

lemma stamped [simp]:
  "pool_probe_ok (r\<lparr>po_updated_at := now\<rparr>) = pool_probe_ok r"
  "validate_set_relations (r\<lparr>po_updated_at := now\<rparr>) = None \<longleftrightarrow> validate_set_relations r = None"
  by (simp_all add: pool_probe_ok_def validate_set_relations_None)

lemma coherent_stamped [simp]: "coherent_state (r\<lparr>po_updated_at := now\<rparr>) = coherent_state r"
  unfolding coherent_state_def stamped by (cases "po_failure r") simp_all

lemma pool_record_read_back:
  assumes w: "write_pool_record now io r file = (None, file')"
    and "plain_pool_record r" "utf8_valid now" "\<not> blank now"
    and path: "validate_pool_restart_path sha256 path (po_pool r) = None"
  shows "read_pool_record sha256 path (po_pool r) (Ok file') = Ok (Some (r\<lparr>po_updated_at := now\<rparr>))"
proof -
  let ?r = "r\<lparr>po_updated_at := now\<rparr>"
  have ok: "validate_pool_record ForWrite r = None" and disk: "file' = Some (Text (encode_pool_record ?r) RestEof)"
    using w by (auto simp: write_pool_record_def atomic_pool_json_def Let_def split: option.splits if_splits)
  have valid: "validate_pool_record FromDisk ?r = None"
    using ok assms(4) by (simp add: pool_record_accepted)
  have plain: "plain_pool_record ?r" using assms(2) by (simp add: plain_pool_record_def)
  have keys: "map fst (pool_entries ?r) = pool_fields" by (simp add: pool_entries_def pool_fields_def)
  then have raw: "decode_object (Text (encode_pool_record ?r) RestEof) = Some (pool_entries ?r)"
    by (simp add: decode_object_def encode_pool_record_def object_map_distinct pool_fields_def)
  have "unknown_key pool_fields (pool_entries ?r) = None" unfolding keys [symmetric] by simp
  moreover have "List.find (\<lambda>k. map_of (pool_entries ?r) k = None) pool_fields = None"
    unfolding keys [symmetric] by (auto simp: find_None_iff map_of_eq_None_iff)
  ultimately have exact: "exact_keys pool_fields (pool_entries ?r) = None"
    by (simp add: exact_keys_def del: unknown_key_None)
  have nulls: "null_key required_fields (pool_entries ?r) = None"
    by (simp add: null_key_def required_fields_def pool_entries_def)
  have known: "decode_known pool_fields set_pool_field (sort_key fst (pool_entries ?r)) empty_pool_record = Some ?r"
    unfolding sort_pool_entries using assms(3) by (intro known_pool_record [OF plain valid]) simp
  have parts: "decode_pool_parts (pool_entries ?r) ?r = Ok ?r"
    by (rule decode_encoded_parts [OF plain valid]) (simp_all add: pool_entries_def)
  have "decode_pool_record (po_pool r) (Text (encode_pool_record ?r) RestEof) = Ok ?r"
    by (simp add: decode_pool_record_def raw exact nulls known parts valid)
  then show ?thesis by (simp add: read_pool_record_def path disk)
qed

section \<open>The record of a host\<close>

record pool_host = weaver_host +
  ph_ready_path :: string
  ph_manifest_path :: string
  ph_log_path :: string
  ph_restart_path :: string

definition member_dir :: "pool_member \<Rightarrow> string" where
  "member_dir m = w_config_dir (pm_world m)"

definition pool_config_dirs :: "pool_member list \<Rightarrow> string list" where
  "pool_config_dirs ms = map member_dir ms"

definition snapshot_dirs :: "pool_snapshot \<Rightarrow> string list" where
  "snapshot_dirs snap = map config_dir (snap_members snap)"

definition pool_pending_dirs :: "pool_host \<Rightarrow> string list \<Rightarrow> string list" where
  "pool_pending_dirs h dirs = filter (\<lambda>d. d \<notin> set (pool_config_dirs (host_members h))) dirs"

definition host_basis_of :: "pool_host \<Rightarrow> string" where
  "host_basis_of h =
     (if host_basis h \<noteq> [] then host_basis h
      else case List.find (\<lambda>m. pm_basis m \<noteq> []) (host_members h) of None \<Rightarrow> [] | Some m \<Rightarrow> pm_basis m)"

definition restart_member_of :: "pool_member \<Rightarrow> restart_member" where
  "restart_member_of m =
     \<lparr>rm_config_dir = member_dir m,
      rm_weaver = (if id_weaver (pm_identity m) = [] then pm_weaver m else id_weaver (pm_identity m)),
      rm_generation = (if id_generation (pm_identity m) = [] then pm_generation m else id_generation (pm_identity m))\<rparr>"

definition restart_host_of :: "pool_host \<Rightarrow> restart_host option" where
  "restart_host_of h =
     (if host_members h = [] \<or> host_basis_of h = [] then None
      else Some \<lparr>rh_id = host_id h, rh_generation = host_generation h, rh_pid = host_pid h, rh_basis = host_basis_of h,
                rh_members = sort_key rm_config_dir (map restart_member_of (host_members h))\<rparr>)"

definition record_for_host ::
    "pool_host \<Rightarrow> pool_snapshot \<Rightarrow> string \<Rightarrow> string \<Rightarrow> probe_result option \<Rightarrow> restart_failure option \<Rightarrow> bool
     \<Rightarrow> pool_host option \<Rightarrow> pool_record" where
  "record_for_host h snap state transition probe failure old_stopped previous =
     (let dirs = (if snapshot_dirs snap = [] then pool_config_dirs (host_members h) else snapshot_dirs snap)
      in \<lparr>po_format = pool_restart_format, po_pool = host_pool h, po_state = state, po_transition = transition,
          po_updated_at = [], po_revision = snap_revision snap, po_old_stopped = old_stopped,
          po_admitted = (if state = state_probing \<or> state = state_running then restart_host_of h else None),
          po_previous =
            (if state = state_restarting \<or> state = state_failed
             then restart_host_of (case previous of Some p \<Rightarrow> p | None \<Rightarrow> h)
             else if state = state_running then (case previous of Some p \<Rightarrow> restart_host_of p | None \<Rightarrow> None)
             else None),
          po_registered = dirs, po_pending = pool_pending_dirs h dirs, po_probe = probe, po_failure = failure\<rparr>)"

definition write_record_for_host ::
    "string \<Rightarrow> bool \<Rightarrow> pool_host \<Rightarrow> pool_snapshot \<Rightarrow> string \<Rightarrow> string \<Rightarrow> probe_result option \<Rightarrow> restart_failure option \<Rightarrow> bool
     \<Rightarrow> pool_host option \<Rightarrow> document_text option \<Rightarrow> pool_error option \<times> document_text option" where
  "write_record_for_host now io h snap state transition probe failure old_stopped previous file =
     (if blank (ph_restart_path h) then (Some PoolPathBlank, file)
      else write_pool_record now io (record_for_host h snap state transition probe failure old_stopped previous) file)"

text \<open>\<open>mergePoolRestartRecordStatus\<close>, and what the readers of \<open>pool_status.go\<close> make of the record.\<close>

definition merge_pool_record :: "status \<Rightarrow> pool_record \<Rightarrow> bool \<Rightarrow> status" where
  "merge_pool_record m r details =
     (let current = text_entry (map_of m ''state'');
          m = put (current \<noteq> Some ''pending'' \<and> po_state r \<noteq> state_running) ''state'' (SV (JStr (po_state r))) m;
          m = put True ''restart_state'' (SV (JStr (po_state r))) m;
          m = put True ''transition_id'' (SV (JStr (po_transition r))) m;
          m = put True ''old_generation_stopped'' (SV (JBool (po_old_stopped r))) m;
          m = (case po_probe r of None \<Rightarrow> m | Some p \<Rightarrow> put details ''probe'' (SProbe p) m)
      in (case po_failure r of
            None \<Rightarrow> m
          | Some f \<Rightarrow> put True ''diagnostics'' (failure_rows f) (put True ''restart_failure'' (SFailure f) m)))"

definition pooled_coordinates :: "status \<Rightarrow> (string \<times> string) option" where
  "pooled_coordinates m =
     (case (text_entry (map_of m ''jvm_pool''), text_entry (map_of m ''pool_restart_path'')) of
        (Some pool, Some path) \<Rightarrow> if blank pool \<or> blank path then None else Some (pool, path)
      | _ \<Rightarrow> None)"

text \<open>
  The status with the record merged into it; \<open>reason\<close> is the text of the error, \<open>files\<close> what is at a path.
\<close>

definition merge_pooled_status ::
    "(string \<Rightarrow> 8 word list) \<Rightarrow> (string \<Rightarrow> (unit, document_text option) result) \<Rightarrow> (pool_error option \<Rightarrow> string) \<Rightarrow> bool
     \<Rightarrow> status \<Rightarrow> status" where
  "merge_pooled_status sha256 files reason details m =
     (let stale = (\<lambda>e. put True ''stale_reason'' (SV (JStr (reason e))) (put True ''state'' (SV (JStr ''stale'')) m)) in
      case pooled_coordinates m of
        None \<Rightarrow> stale None
      | Some (pool, path) \<Rightarrow>
          (case read_pool_record sha256 path pool (files path) of
             Inl e \<Rightarrow> stale (Some e)
           | Inr None \<Rightarrow> m
           | Inr (Some r) \<Rightarrow> merge_pool_record m (if details then r else compact_pool_record r) details))"

section \<open>What a restart writes\<close>

text \<open>A host with its identity whose members are registered in the snapshot.\<close>

definition known_host_of :: "pool_host \<Rightarrow> pool_snapshot \<Rightarrow> bool" where
  "known_host_of h snap \<longleftrightarrow>
     \<not> blank (host_pool h) \<and> \<not> blank (host_id h) \<and> \<not> blank (host_generation h) \<and> 0 < host_pid h
     \<and> valid_basis_fingerprint (host_basis_of h) \<and> host_members h \<noteq> []
     \<and> distinct (pool_config_dirs (host_members h)) \<and> list_all canonical (pool_config_dirs (host_members h))
     \<and> (\<forall>m \<in> set (host_members h). \<not> blank (rm_weaver (restart_member_of m)) \<and> \<not> blank (rm_generation (restart_member_of m)))
     \<and> set (pool_config_dirs (host_members h)) \<subseteq> set (snapshot_dirs snap)"

definition good_snapshot :: "pool_snapshot \<Rightarrow> bool" where
  "good_snapshot snap \<longleftrightarrow> \<not> blank (snap_revision snap) \<and> valid_rows (snap_members snap)"

lemma fingerprint_not_blank:
  assumes "valid_basis_fingerprint b"
  shows "b \<noteq> []" "\<not> blank b"
proof -
  have "take (length ''sha256:'') b = ''sha256:''" using assms unfolding valid_basis_fingerprint_def has_prefix_def by blast
  then obtain s where b: "b = ''sha256:'' @ s" by (metis append_take_drop_id)
  then show "b \<noteq> []" "\<not> blank b" by (simp_all add: is_space_def)
qed

lemma good_restart_host:
  assumes "known_host_of h snap"
  obtains x where "restart_host_of h = Some x" "good_host x" "set (host_member_set x) = set (pool_config_dirs (host_members h))"
proof -
  let ?ms = "sort_key rm_config_dir (map restart_member_of (host_members h))"
  let ?x = "\<lparr>rh_id = host_id h, rh_generation = host_generation h, rh_pid = host_pid h, rh_basis = host_basis_of h, rh_members = ?ms\<rparr>"
  have dirs: "map rm_config_dir (map restart_member_of (host_members h)) = pool_config_dirs (host_members h)"
    by (simp add: pool_config_dirs_def restart_member_of_def comp_def)
  have k: "valid_basis_fingerprint (host_basis_of h)" "host_members h \<noteq> []" "distinct (pool_config_dirs (host_members h))"
    using assms by (simp_all add: known_host_of_def)
  have members: "set ?ms = restart_member_of ` set (host_members h)" by simp
  have "strict_sorted_on rm_config_dir ?ms" by (rule strict_sorted_on_sort_key) (simp only: dirs k)
  moreover have "canonical (rm_config_dir m) \<and> \<not> blank (rm_weaver m) \<and> \<not> blank (rm_generation m)" if "m \<in> set ?ms" for m
    using that assms unfolding members
    by (auto simp: known_host_of_def pool_config_dirs_def list_all_iff restart_member_of_def)
  moreover have "?ms \<noteq> []" using k(2) members by (metis empty_set image_is_empty set_empty)
  ultimately have good: "good_host ?x" using assms fingerprint_not_blank [OF k(1)] by (simp add: good_host_def known_host_of_def)
  have all: "set (host_member_set ?x) = set (pool_config_dirs (host_members h))"
    unfolding dirs [symmetric] by (simp add: host_member_set_def image_image)
  have "restart_host_of h = Some ?x"
    using k fingerprint_not_blank [OF k(1)] by (simp add: restart_host_of_def)
  then show thesis using good all by (rule that)
qed

lemma strict_sorted_id: "strict_sorted_on f xs \<Longrightarrow> strict_sorted_on (\<lambda>v. v) (map f xs)"
  by (simp add: strict_sorted_on_def sorted_wrt_map)

lemma record_for_host_accepted:
  assumes h: "known_host_of h snap" and snap: "good_snapshot snap" and t: "\<not> blank t"
    and prev: "\<And>p. previous = Some p \<Longrightarrow> known_host_of p snap"
    and dirs: "\<And>p. previous = Some p \<Longrightarrow> state \<noteq> state_running \<Longrightarrow> p = h"
    and state: "state \<in> set restart_states"
    and probe: "\<And>p. probe = Some p \<Longrightarrow> validate_probe p = None"
    and failure: "\<And>f. failure = Some f \<Longrightarrow> validate_pool_failure f = None"
    and coherent: "coherent_state (record_for_host h snap state t probe failure stopped previous)"
  shows "validate_pool_record ForWrite (record_for_host h snap state t probe failure stopped previous) = None"
proof -
  let ?r = "record_for_host h snap state t probe failure stopped previous"
  obtain x where x: "restart_host_of h = Some x" "good_host x" "set (host_member_set x) = set (pool_config_dirs (host_members h))"
    using h by (rule good_restart_host)
  have rows: "valid_rows (snap_members snap)" using snap by (simp add: good_snapshot_def)
  have sub: "set (pool_config_dirs (host_members h)) \<subseteq> set (snapshot_dirs snap)" "host_members h \<noteq> []"
    using h by (simp_all add: known_host_of_def)
  then have ne: "snapshot_dirs snap \<noteq> []" by (auto simp: pool_config_dirs_def)
  have reg: "po_registered ?r = snapshot_dirs snap" "po_pending ?r = pool_pending_dirs h (snapshot_dirs snap)"
    using ne by (simp_all add: record_for_host_def Let_def)
  have canon: "list_all canonical (snapshot_dirs snap)" and sorted: "strict_sorted_on (\<lambda>v. v) (snapshot_dirs snap)"
    using rows by (auto simp: valid_rows_def valid_member_def list_all_iff snapshot_dirs_def intro: strict_sorted_id)
  have pend: "set (po_pending ?r) = set (snapshot_dirs snap) - set (pool_config_dirs (host_members h))"
    unfolding reg by (auto simp: pool_pending_dirs_def)
  have hosts: "good_host y" "set (host_member_set y) \<subseteq> set (snapshot_dirs snap)"
    if "po_admitted ?r = Some y \<or> po_previous ?r = Some y" for y
  proof -
    from that have "restart_host_of h = Some y \<or> (\<exists>p. previous = Some p \<and> restart_host_of p = Some y)"
      by (auto simp: record_for_host_def Let_def split: if_splits option.splits)
    then obtain p where p: "restart_host_of p = Some y" "known_host_of p snap" using h prev by blast
    from good_restart_host [OF p(2)] p show "good_host y" "set (host_member_set y) \<subseteq> set (snapshot_dirs snap)"
      unfolding known_host_of_def by (metis option.inject)+
  qed
  have relations: "validate_set_relations ?r = None"
    unfolding validate_set_relations_None pend reg(1)
  proof (intro conjI)
    show "po_admitted ?r \<noteq> None \<or> po_previous ?r \<noteq> None" using coherent by (auto simp: coherent_state_def)
    show "host_set (po_admitted ?r) \<union> host_set (po_previous ?r) \<subseteq> set (snapshot_dirs snap)"
      using hosts by (auto simp: host_set_def split: option.splits)
    show "set (snapshot_dirs snap) - set (pool_config_dirs (host_members h)) = set (snapshot_dirs snap)
        - (if po_admitted ?r = None then host_set (po_previous ?r) else host_set (po_admitted ?r))"
    proof (cases "po_admitted ?r")
      case (Some a)
      then have "a = x" using x(1) by (auto simp: record_for_host_def Let_def split: if_splits)
      then show ?thesis using Some x(3) by (simp add: host_set_def)
    next
      case None
      then have "state \<noteq> state_running \<and> state \<noteq> state_probing" using x(1) by (auto simp: record_for_host_def Let_def split: if_splits)
      then have "po_previous ?r = Some x"
        using state x(1) dirs by (auto simp: record_for_host_def Let_def restart_states_def split: option.splits)
      then show ?thesis using None x(3) by (simp add: host_set_def)
    qed
  qed
  have "strict_sorted_on (\<lambda>v. v) (po_pending ?r)"
    unfolding reg pool_pending_dirs_def by (rule strict_sorted_on_filter [OF sorted])
  moreover have "list_all canonical (po_pending ?r)" using canon unfolding reg by (auto simp: pool_pending_dirs_def list_all_iff)
  moreover have "po_updated_at ?r = [] \<and> po_format ?r = pool_restart_format \<and> po_pool ?r = host_pool h \<and> po_transition ?r = t
      \<and> po_revision ?r = snap_revision snap \<and> po_state ?r = state \<and> po_probe ?r = probe \<and> po_failure ?r = failure"
    by (simp add: record_for_host_def Let_def)
  ultimately show ?thesis
    using h snap t state canon sorted hosts relations probe failure coherent
    unfolding pool_record_accepted known_host_of_def good_snapshot_def reg(1) list_all_append by simp
qed

section \<open>Properties\<close>

text \<open>C23:
  A record of a pool restart that was written is read back as it was, with the time of writing, for every
  record the writer accepts whose texts are valid UTF-8, under the path of its pool.
\<close>

theorem pool_record_roundtrip:
  assumes "write_pool_record now io r file = (None, file')"
    and "plain_pool_record r" "utf8_valid now" "\<not> blank now"
    and "validate_pool_restart_path sha256 path (po_pool r) = None"
  shows "read_pool_record sha256 path (po_pool r) (Ok file') = Ok (Some (r\<lparr>po_updated_at := now\<rparr>))"
  using assms by (rule pool_record_read_back)

text \<open>An accepted record accounts for every registered member: while a host is admitted the pending members are
  exactly the registered ones it does not hold, and otherwise those the previous host did not hold; and an
  old generation is recorded as stopped only together with a successful probe of its replacement.
\<close>

theorem accepted_record_accounts:
  assumes "validate_pool_record mode r = None"
  shows "set (po_pending r) = set (po_registered r) - (if po_admitted r = None then host_set (po_previous r) else host_set (po_admitted r))
    \<and> distinct (po_pending r) \<and> (po_old_stopped r \<longrightarrow> (\<exists>p. po_probe r = Some p \<and> pr_success p))"
proof -
  have a: "validate_set_relations r = None" "strict_sorted_on (\<lambda>v. v) (po_pending r)" "coherent_state r"
    using assms unfolding pool_record_accepted by blast+
  have "po_old_stopped r \<longrightarrow> pool_probe_ok r" using a(3) by (auto simp: coherent_state_def split: if_splits)
  then have "po_old_stopped r \<longrightarrow> (\<exists>p. po_probe r = Some p \<and> pr_success p)" by (auto simp: pool_probe_ok_def split: option.splits)
  moreover have "distinct (po_pending r)" using a(2) by (simp add: strict_sorted_on_iff)
  ultimately show ?thesis using a(1) unfolding validate_set_relations_None by blast
qed

text \<open>A concrete record: a host of one workspace, and a second workspace that is pending.\<close>

definition demo_host :: restart_host where
  "demo_host = \<lparr>rh_id = ''h'', rh_generation = ''g'', rh_pid = 7, rh_basis = ''sha256:'' @ replicate 64 CHR ''a'',
     rh_members = [\<lparr>rm_config_dir = ''/w'', rm_weaver = ''v'', rm_generation = ''g''\<rparr>]\<rparr>"

definition demo_pool :: pool_record where
  "demo_pool = \<lparr>po_format = pool_restart_format, po_pool = ''p'', po_state = state_probing, po_transition = ''t'',
     po_updated_at = [], po_revision = ''r'', po_old_stopped = False, po_admitted = Some demo_host, po_previous = None,
     po_registered = [''/w'', ''/x''], po_pending = [''/x''], po_probe = None, po_failure = None\<rparr>"

definition demo_sha :: "string \<Rightarrow> 8 word list" where
  "demo_sha s = [0]"

lemma demo_host_good: "good_host demo_host" "plain_host demo_host"
proof -
  have "valid_basis_fingerprint (''sha256:'' @ replicate 64 CHR ''a'')" by code_simp
  moreover have "canonical ''/w''" by code_simp
  ultimately show "good_host demo_host"
    by (simp add: good_host_def demo_host_def strict_sorted_on_def is_space_def)
  show "plain_host demo_host" by (simp add: plain_host_def demo_host_def plain_member_def utf8_valid_ascii)
qed

lemma demo_pool_valid: "validate_pool_record ForWrite demo_pool = None"
proof -
  have "canonical ''/w''" "canonical ''/x''" "''/w'' < ''/x''" by code_simp+
  then show ?thesis
    unfolding pool_record_accepted validate_set_relations_None
    using demo_host_good(1)
    by (simp add: demo_pool_def restart_states_def coherent_state_def host_set_def host_member_set_def strict_sorted_on_def
        is_space_def) (auto simp: demo_host_def)
qed

lemma demo_pool_plain: "plain_pool_record demo_pool"
  using demo_host_good(2) by (simp add: plain_pool_record_def demo_pool_def pool_restart_format_def utf8_valid_ascii state_defs)

theorem pool_record_roundtrip_witness:
  "read_pool_record demo_sha ''/r/jvm-pools/hosts/00/restart.json'' ''p''
     (Ok (Some (Text (encode_pool_record (demo_pool\<lparr>po_updated_at := ''2026''\<rparr>)) RestEof))) = Ok (Some (demo_pool\<lparr>po_updated_at := ''2026''\<rparr>))"
proof -
  have w: "write_pool_record ''2026'' True demo_pool None
      = (None, Some (Text (encode_pool_record (demo_pool\<lparr>po_updated_at := ''2026''\<rparr>)) RestEof))"
    by (simp add: write_pool_record_def demo_pool_valid atomic_pool_json_def pool_encodable_def) (simp add: demo_pool_def)
  have p: "po_pool demo_pool = ''p''" by (simp add: demo_pool_def)
  have path: "validate_pool_restart_path demo_sha ''/r/jvm-pools/hosts/00/restart.json'' ''p'' = None"
  proof -
    let ?path = "''/r/jvm-pools/hosts/00/restart.json''"
    have "canonical ?path" "base_path ?path = pool_restart_file" "base_path (dir_path ?path) = ''00''"
      "base_path (dir_path (dir_path ?path)) = ''hosts''" "base_path (dir_path (dir_path (dir_path ?path))) = ''jvm-pools''"
      by code_simp+
    moreover have "artifact_key demo_sha ''p'' = ''00''" by (simp add: artifact_key_def demo_sha_def hex_encode_def hex_digit_def)
    moreover have "validate_pool_name ''p'' = None" by (simp add: is_space_def)
    ultimately show ?thesis
      by (simp add: validate_pool_restart_path_def validate_artifact_key_def is_space_def del: validate_pool_name_None)
  qed
  have now: "utf8_valid ''2026''" "\<not> blank ''2026''" by (simp_all add: utf8_valid_ascii is_space_def)
  from pool_record_roundtrip [OF w demo_pool_plain now, of demo_sha, unfolded p, OF path] show ?thesis .
qed

theorem accepted_record_accounts_witness: "set (po_pending demo_pool) = {''/x''}"
  using accepted_record_accounts [OF demo_pool_valid]
  by (simp add: demo_pool_def host_set_def host_member_set_def demo_host_def) 

end
