(* ===== verification/Pool_Probe.thy ===== *)
theory Pool_Probe
  imports Pool_Record "HOL-Library.Sublist"
begin

text \<open>
  The probe of a pool before its restart (\<open>cli/cmd/mill/pool_probe.go\<close>): the manifest the probe process
  is given, the private paths in it, the result it answers with, and what the restart keeps of the result
  (\<open>pooledRestartProbeResult\<close> in \<open>pool_lifecycle.go\<close>).

  The probe process, the copies of configurations and the links of the file system deliver their outcomes
  as arguments.
\<close>

section \<open>Paths\<close>

text \<open>\<open>filepath.Rel\<close>, on the elements of the two cleaned paths; and \<open>pathBelow\<close>, \<open>pathsOverlap\<close>.\<close>

definition path_elements :: "string \<Rightarrow> string list" where
  "path_elements p = filter (\<lambda>e. e \<noteq> []) (split_on (CHR ''/'') p)"

fun drop_common :: "string list \<Rightarrow> string list \<Rightarrow> string list \<times> string list" where
  "drop_common (b # bs) (t # ts) = (if b = t then drop_common bs ts else (b # bs, t # ts))"
| "drop_common bs ts = (bs, ts)"

definition rel_path :: "string \<Rightarrow> string \<Rightarrow> string option" where
  "rel_path root target =
     (let b = clean_path root; t = clean_path target in
      if t = b then Some ''.''
      else let b = (if b = ''.'' then [] else b) in
        if is_abs b \<noteq> is_abs t then None
        else let (bs, ts) = drop_common (path_elements b) (path_elements t) in
          if bs \<noteq> [] \<and> hd bs = ''..'' then None
          else Some (join ''/'' (replicate (length bs) ''..'' @ ts)))"

definition path_below :: "string \<Rightarrow> string \<Rightarrow> bool" where
  "path_below root path =
     (case rel_path root path of
        None \<Rightarrow> False
      | Some rel \<Rightarrow> rel \<noteq> ''.'' \<and> rel \<noteq> ''..'' \<and> \<not> has_prefix rel ''../'' \<and> \<not> is_abs rel)"

definition paths_overlap :: "string \<Rightarrow> string \<Rightarrow> bool" where
  "paths_overlap a b \<longleftrightarrow> a = b \<or> path_below a b \<or> path_below b a"

lemma split_on_join:
  assumes "es \<noteq> []" "\<forall>e \<in> set es. sep \<notin> set e"
  shows "split_on sep (join [sep] es) = es"
proof -
  have word: "split_on sep (w @ sep # s) = w # split_on sep s" if "sep \<notin> set w" for w s
    using that by (induction w) auto
  have single: "split_on sep w = [w]" if "sep \<notin> set w" for w
    using that by (induction w) auto
  show ?thesis
    using assms
  proof (induction es)
    case (Cons e es)
    then show ?case by (cases es) (simp_all add: word single)
  qed simp
qed

definition element :: "string \<Rightarrow> bool" where
  "element e \<longleftrightarrow> e \<noteq> [] \<and> e \<noteq> ''.'' \<and> e \<noteq> ''..'' \<and> CHR ''/'' \<notin> set e"

lemma clean_steps:
  assumes "\<forall>w \<in> set ws. CHR ''/'' \<notin> set w" "list_all element stack"
  shows "list_all element (foldl (clean_step True) stack ws)"
  using assms
proof (induction ws arbitrary: stack)
  case (Cons w ws)
  have "list_all element (clean_step True stack w)"
    using Cons.prems by (cases stack) (auto simp: element_def list_all_iff)
  with Cons show ?case by simp
qed simp

lemma canonical_elements:
  assumes "canonical p"
  shows "p = CHR ''/'' # join ''/'' (path_elements p)" "list_all element (path_elements p)"
proof -
  define st where "st = rev (foldl (clean_step True) [] (split_on (CHR ''/'') p))"
  have abs: "is_abs p" and clean: "clean_path p = p" using assms by (simp_all add: canonical_def)
  have p: "p = CHR ''/'' # join ''/'' st" using clean abs by (simp add: clean_path_def Let_def st_def)
  have good: "list_all element st"
    using clean_steps [of "split_on (CHR ''/'') p" "[]"] split_on_no_sep by (auto simp: list_all_iff st_def)
  have "filter (\<lambda>e. e \<noteq> []) (split_on (CHR ''/'') (join ''/'' st)) = st"
  proof (cases "st = []")
    case False
    have "split_on (CHR ''/'') (join ''/'' st) = st"
      using good by (intro split_on_join [OF False]) (auto simp: list_all_iff element_def)
    then show ?thesis using good by (simp add: filter_id_conv list_all_iff element_def)
  qed simp
  then have "path_elements p = st" unfolding path_elements_def p by simp
  with p good show "p = CHR ''/'' # join ''/'' (path_elements p)" "list_all element (path_elements p)" by simp_all
qed

lemma canonical_inj: "canonical p \<Longrightarrow> canonical q \<Longrightarrow> path_elements p = path_elements q \<Longrightarrow> p = q"
  using canonical_elements(1) by metis

lemma drop_common_spec:
  "drop_common bs ts = (bs', ts') \<Longrightarrow>
   \<exists>zs. bs = zs @ bs' \<and> ts = zs @ ts' \<and> (bs' = [] \<or> ts' = [] \<or> hd bs' \<noteq> hd ts')"
proof (induction bs ts rule: drop_common.induct)
  case (1 b bs t ts)
  show ?case
  proof (cases "b = t")
    case True
    with 1 obtain zs where "bs = zs @ bs'" "ts = zs @ ts'" "bs' = [] \<or> ts' = [] \<or> hd bs' \<noteq> hd ts'" by auto
    then show ?thesis using True by (intro exI [of _ "b # zs"]) simp
  next
    case False
    then show ?thesis using "1.prems" by auto
  qed
qed auto

lemma up_join:
  "join ''/'' (replicate (Suc n) ''..'' @ ts) = ''..'' \<or> has_prefix (join ''/'' (replicate (Suc n) ''..'' @ ts)) ''../''"
  by (cases "replicate n ''..'' @ ts") (simp_all add: has_prefix_iff)

lemma down_join:
  assumes "ts \<noteq> []" "list_all element ts"
  shows "join ''/'' ts \<noteq> ''.'' \<and> join ''/'' ts \<noteq> ''..'' \<and> \<not> has_prefix (join ''/'' ts) ''../'' \<and> \<not> is_abs (join ''/'' ts)"
proof -
  have split: "split_on (CHR ''/'') (join ''/'' ts) = ts"
    using assms by (intro split_on_join) (auto simp: list_all_iff element_def)
  have hd: "element (hd ts)" using assms by (cases ts) simp_all
  have "join ''/'' ts \<noteq> ''.''" using split hd by (auto simp: element_def)
  moreover have "join ''/'' ts \<noteq> ''..''" using split hd by (auto simp: element_def)
  moreover have "join ''/'' ts \<noteq> ''../'' @ s" for s using split hd by (auto simp: element_def)
  moreover have "join ''/'' ts \<noteq> ''/'' @ s" for s using split hd by (auto simp: element_def)
  ultimately show ?thesis by (auto simp: has_prefix_iff is_abs_def)
qed

lemma path_below_iff:
  assumes "canonical root" "canonical path"
  shows "path_below root path \<longleftrightarrow> strict_prefix (path_elements root) (path_elements path)"
proof (cases "root = path")
  case True
  then show ?thesis by (simp add: path_below_def rel_path_def Let_def)
next
  case False
  have c: "clean_path root = root" "clean_path path = path" "is_abs root" "is_abs path" "root \<noteq> ''.''"
    using assms by (auto simp: canonical_def is_abs_def has_prefix_def)
  obtain bs ts where d: "drop_common (path_elements root) (path_elements path) = (bs, ts)" by fastforce
  then obtain zs where z: "path_elements root = zs @ bs" "path_elements path = zs @ ts" "bs = [] \<or> ts = [] \<or> hd bs \<noteq> hd ts"
    using drop_common_spec by blast
  have good: "list_all element bs" "list_all element ts"
    using canonical_elements(2) [OF assms(1)] canonical_elements(2) [OF assms(2)] z by (simp_all add: list_all_append)
  have "\<not> (bs \<noteq> [] \<and> hd bs = ''..'')" using good(1) by (cases bs) (auto simp: element_def)
  then have rel: "rel_path root path = Some (join ''/'' (replicate (length bs) ''..'' @ ts))"
    using False c d by (simp add: rel_path_def Let_def)
  have ne: "zs @ bs \<noteq> zs @ ts" using False canonical_inj [OF assms] z by metis
  show ?thesis
  proof (cases bs)
    case Nil
    then have "ts \<noteq> []" using ne by simp
    then have "path_below root path" using down_join [OF _ good(2)] by (simp add: path_below_def rel Nil)
    moreover have "strict_prefix (path_elements root) (path_elements path)"
      using \<open>ts \<noteq> []\<close> by (simp add: z Nil strict_prefix_def)
    ultimately show ?thesis by simp
  next
    case (Cons b bs')
    then have "\<not> path_below root path" using up_join [of "length bs'" ts] by (auto simp: path_below_def rel)
    moreover have "\<not> prefix bs ts" using z(3) Cons by (cases ts) auto
    then have "\<not> strict_prefix (path_elements root) (path_elements path)"
      by (simp add: z strict_prefix_def)
    ultimately show ?thesis by simp
  qed
qed

lemma paths_overlap_iff:
  assumes "canonical a" "canonical b"
  shows "paths_overlap a b \<longleftrightarrow> prefix (path_elements a) (path_elements b) \<or> prefix (path_elements b) (path_elements a)"
  using canonical_inj [OF assms] assms by (auto simp: paths_overlap_def path_below_iff prefix_order.le_less)

section \<open>Projections\<close>

text \<open>\<open>hasMapKeys\<close>, \<open>validProjectionValue\<close>, \<open>validRegistryProjection\<close>; a map has each key once.\<close>

definition has_map_keys :: "object \<Rightarrow> string list \<Rightarrow> bool" where
  "has_map_keys m keys \<longleftrightarrow> length m = length keys \<and> list_all (\<lambda>k. map_of m k \<noteq> None) keys"

definition blank_class :: "json option \<Rightarrow> bool" where
  "blank_class v = (case v of Some (JStr s) \<Rightarrow> blank s | _ \<Rightarrow> False)"

fun valid_projection_value :: "json \<Rightarrow> bool" where
  "valid_projection_value (JArr vs) = list_all valid_projection_value vs"
| "valid_projection_value (JObj es) =
     (if map_of es ''callable'' \<noteq> None \<or> (map_of es ''class'' \<noteq> None \<and> map_of es ''class'' \<noteq> Some JNull)
      then length es = 2 \<and> map_of es ''callable'' = Some (JBool True) \<and> \<not> blank_class (map_of es ''class'')
      else list_all (\<lambda>(k, v). k \<noteq> [] \<and> valid_projection_value v) es)"
| "valid_projection_value (JOpaque s e) = False"
| "valid_projection_value v = True"

definition valid_registry_projection :: "object \<Rightarrow> bool" where
  "valid_registry_projection m \<longleftrightarrow>
     list_all (\<lambda>(k, raw). case raw of
         JObj row \<Rightarrow> has_map_keys row [''effective'', ''owners'', ''provenance'']
           \<and> list_all (\<lambda>key. valid_projection_value (case map_of row key of None \<Rightarrow> JNull | Some v \<Rightarrow> v))
               [''effective'', ''owners'', ''provenance'']
       | _ \<Rightarrow> False) m"

definition valid_probe_baseline :: "object \<Rightarrow> bool" where
  "valid_probe_baseline value \<longleftrightarrow>
     length value = 2 \<and> map_of value ''status'' = Some (JStr ''admitted'')
     \<and> (case as_object (map_of value ''projection'') of None \<Rightarrow> False | Some p \<Rightarrow> valid_registry_projection p)"

section \<open>Manifests\<close>

record probe_member =
  bm_config_dir :: string
  bm_source_cwd :: string
  bm_probe_config :: string
  bm_probe_state :: string
  bm_probe_data :: string
  bm_diagnostic :: string
  bm_name :: string
  bm_weaver :: string
  bm_generation :: string
  bm_baseline :: "object option" \<comment> \<open>\<open>None\<close> is the nil map\<close>

record probe_manifest =
  bp_format :: string
  bp_pool :: string
  bp_probe :: string
  bp_host :: string
  bp_generation :: string
  bp_root :: string
  bp_source :: string
  bp_result :: string
  bp_collective :: string
  bp_members :: "probe_member list"

datatype manifest_error =
    ManifestIdentity
  | ManifestPath
  | ManifestArtifacts
  | ManifestEmpty
  | ManifestMember
  | ManifestDuplicate string
  | ManifestMemberPath string
  | ManifestOutside string
  | ManifestUnsorted
  | ManifestBaseline string
  | ManifestOverlap string string
  | ManifestArtifactOverlap string

definition pool_probe_format :: string where
  "pool_probe_format = ''millstrand.jvm-pool-probe/v1''"

definition private_paths :: "probe_member \<Rightarrow> string list" where
  "private_paths m = [bm_probe_config m, bm_probe_state m, bm_probe_data m, bm_diagnostic m]"

text \<open>What is checked of one member after the members before it.\<close>

definition validate_probe_member :: "string \<Rightarrow> probe_member list \<Rightarrow> probe_member \<Rightarrow> manifest_error option" where
  "validate_probe_member root before m =
     guards
       [(list_ex (\<lambda>s. s = []) ([bm_config_dir m, bm_source_cwd m] @ private_paths m @ [bm_name m, bm_weaver m, bm_generation m]),
         ManifestMember),
        (bm_config_dir m \<in> bm_config_dir ` set before, ManifestDuplicate (bm_config_dir m)),
        (list_ex (\<lambda>p. \<not> is_abs p \<or> clean_path p \<noteq> p) ([bm_config_dir m, bm_source_cwd m] @ private_paths m),
         ManifestMemberPath (bm_config_dir m)),
        (list_ex (\<lambda>p. \<not> path_below root p) (private_paths m), ManifestOutside (bm_config_dir m)),
        (before \<noteq> [] \<and> bm_config_dir m \<le> bm_config_dir (last before), ManifestUnsorted),
        ((case bm_baseline m of None \<Rightarrow> False | Some b \<Rightarrow> \<not> valid_probe_baseline b), ManifestBaseline (bm_config_dir m))]"

fun validate_probe_members :: "string \<Rightarrow> probe_member list \<Rightarrow> probe_member list \<Rightarrow> manifest_error option" where
  "validate_probe_members root before [] = None"
| "validate_probe_members root before (m # ms) =
     (case validate_probe_member root before m of
        Some e \<Rightarrow> Some e
      | None \<Rightarrow> validate_probe_members root (before @ [m]) ms)"

fun validate_private_paths :: "string list \<Rightarrow> string list \<Rightarrow> string list \<Rightarrow> manifest_error option" where
  "validate_private_paths artifacts before [] = None"
| "validate_private_paths artifacts before (p # ps) =
     (case List.find (paths_overlap p) before of
        Some other \<Rightarrow> Some (ManifestOverlap p other)
      | None \<Rightarrow>
          if list_ex (paths_overlap p) artifacts then Some (ManifestArtifactOverlap p)
          else validate_private_paths artifacts (before @ [p]) ps)"

definition validate_probe_manifest :: "probe_manifest \<Rightarrow> manifest_error option" where
  "validate_probe_manifest m =
     (case guards
        [(bp_format m \<noteq> pool_probe_format
          \<or> list_ex blank [bp_pool m, bp_probe m, bp_host m, bp_generation m, bp_root m, bp_source m, bp_result m, bp_collective m],
          ManifestIdentity),
         (list_ex (\<lambda>p. \<not> is_abs p \<or> clean_path p \<noteq> p) [bp_root m, bp_source m, bp_result m, bp_collective m], ManifestPath),
         (\<not> path_below (bp_root m) (bp_result m) \<or> \<not> path_below (bp_root m) (bp_collective m), ManifestArtifacts),
         (bp_members m = [], ManifestEmpty)] of
        Some e \<Rightarrow> Some e
      | None \<Rightarrow>
          (case validate_probe_members (bp_root m) [] (bp_members m) of
             Some e \<Rightarrow> Some e
           | None \<Rightarrow>
               validate_private_paths [bp_result m, bp_collective m] [] (concat (map private_paths (bp_members m)))))"

section \<open>Results\<close>

record probe_result_member =
  br_config_dir :: string
  br_probe_config :: string
  br_weaver :: string
  br_generation :: string
  br_baseline_kind :: string
  br_status :: string
  br_projection :: "object option"
  br_diff :: "object option"
  br_diagnostic :: string

record pool_probe_result =
  bq_format :: string
  bq_probe :: string
  bq_success :: bool
  bq_stage :: string
  bq_root :: string
  bq_source :: string
  bq_completed :: "string list option"
  bq_members :: "probe_result_member list"
  bq_collective :: string
  bq_log :: string

datatype probe_result_error =
    ResultManifest manifest_error
  | ResultIdentity
  | ResultPath
  | ResultStage string
  | ResultCount nat nat
  | ResultMismatch
  | ResultDuplicate string
  | ResultBaseline string
  | ResultProjection string
  | ResultDiffPresent string
  | ResultDiffMissing string
  | ResultDiffInvalid string string
  | ResultStatus string string
  | ResultMalformed

definition pool_probe_result_format :: string where
  "pool_probe_result_format = ''millstrand.jvm-pool-probe-result/v1''"

definition diff_keys :: "string list" where
  "diff_keys = [''added'', ''removed'', ''changed'']"

definition validate_result_member ::
    "bool \<Rightarrow> string list \<Rightarrow> probe_member \<Rightarrow> probe_result_member \<Rightarrow> probe_result_error option" where
  "validate_result_member success seen expected actual =
     (let dir = br_config_dir actual; newcomer = (bm_baseline expected = None) in
      case guards
        [(dir \<noteq> bm_config_dir expected \<or> br_probe_config actual \<noteq> bm_probe_config expected
            \<or> br_weaver actual \<noteq> bm_weaver expected \<or> br_generation actual \<noteq> bm_generation expected
            \<or> br_diagnostic actual \<noteq> bm_diagnostic expected, ResultMismatch),
         (dir \<in> set seen, ResultDuplicate dir),
         (br_baseline_kind actual \<noteq> (if newcomer then ''newcomer'' else ''live''), ResultBaseline dir),
         ((case br_projection actual of None \<Rightarrow> True | Some p \<Rightarrow> \<not> valid_registry_projection p), ResultProjection dir),
         (newcomer \<and> br_diff actual \<noteq> None, ResultDiffPresent dir),
         (\<not> newcomer \<and> (case br_diff actual of None \<Rightarrow> True | Some d \<Rightarrow> \<not> has_map_keys d diff_keys), ResultDiffMissing dir)] of
        Some e \<Rightarrow> Some e
      | None \<Rightarrow>
          (case (case br_diff actual of
                   None \<Rightarrow> None
                 | Some d \<Rightarrow> List.find (\<lambda>k. case as_object (map_of d k) of None \<Rightarrow> True | Some p \<Rightarrow> \<not> valid_registry_projection p) diff_keys) of
             Some k \<Rightarrow> Some (ResultDiffInvalid dir k)
           | None \<Rightarrow>
               guards
                 [(success \<and> br_status actual \<noteq> ''validated'', ResultStatus dir (br_status actual)),
                  (\<not> success \<and> br_status actual \<noteq> ''validated'' \<and> br_status actual \<noteq> ''failed'', ResultStatus dir (br_status actual))]))"

fun validate_result_members ::
    "bool \<Rightarrow> string list \<Rightarrow> probe_member list \<Rightarrow> probe_result_member list \<Rightarrow> probe_result_error option" where
  "validate_result_members success seen (e # es) (a # as) =
     (case validate_result_member success seen e a of
        Some err \<Rightarrow> Some err
      | None \<Rightarrow> validate_result_members success (br_config_dir a # seen) es as)"
| "validate_result_members success seen es as = None"

definition validate_pool_probe_result :: "pool_probe_result \<Rightarrow> probe_manifest \<Rightarrow> probe_result_error option" where
  "validate_pool_probe_result r m =
     (case validate_probe_manifest m of
        Some e \<Rightarrow> Some (ResultManifest e)
      | None \<Rightarrow>
          (case guards
             [(bq_format r \<noteq> pool_probe_result_format \<or> bq_probe r \<noteq> bp_probe m \<or> bq_root r \<noteq> bp_root m
                \<or> list_ex blank [bq_stage r, bq_source r, bq_collective r, bq_log r] \<or> bq_completed r = None, ResultIdentity),
              (list_ex (\<lambda>p. \<not> is_abs p \<or> clean_path p \<noteq> p) [bq_root r, bq_source r, bq_collective r, bq_log r], ResultPath),
              (bq_stage r \<noteq> (if bq_success r then ''probe/complete'' else ''probe/failure''), ResultStage (bq_stage r)),
              (length (bq_members r) \<noteq> length (bp_members m), ResultCount (length (bq_members r)) (length (bp_members m)))] of
             Some e \<Rightarrow> Some e
           | None \<Rightarrow> validate_result_members (bq_success r) [] (bp_members m) (bq_members r)))"

section \<open>Running a probe\<close>

text \<open>
  \<open>runPooledProbeProcess\<close>: the manifest is written and the configurations are copied, then the process runs;
  the errors of these steps and the decoded file are arguments.
\<close>

record probe_run =
  run_write :: "string option" \<comment> \<open>writing the manifest\<close>
  run_prepare :: "string option"
  run_process :: "string option"
  run_file :: "(string, pool_probe_result option) result" \<comment> \<open>\<open>None\<close>: not one JSON object of the expected fields\<close>

datatype probe_failure =
    ProbeStep string
  | ProbeResultInvalid probe_result_error
  | ProbeReported string

definition zero_result :: pool_probe_result where
  "zero_result = \<lparr>bq_format = [], bq_probe = [], bq_success = False, bq_stage = [], bq_root = [], bq_source = [],
     bq_completed = None, bq_members = [], bq_collective = [], bq_log = []\<rparr>"

definition decode_pool_probe_result ::
    "pool_probe_result option \<Rightarrow> probe_manifest \<Rightarrow> (probe_failure, pool_probe_result) result" where
  "decode_pool_probe_result decoded m =
     (case decoded of
        None \<Rightarrow> Err (ProbeResultInvalid ResultMalformed)
      | Some r \<Rightarrow> (case validate_pool_probe_result r m of Some e \<Rightarrow> Err (ProbeResultInvalid e) | None \<Rightarrow> Ok r))"

definition run_pooled_probe :: "probe_run \<Rightarrow> probe_manifest \<Rightarrow> pool_probe_result \<times> probe_failure option" where
  "run_pooled_probe run m =
     (case List.find (\<lambda>e. e \<noteq> None) [run_write run, run_prepare run, run_process run] of
        Some (Some e) \<Rightarrow> (zero_result, Some (ProbeStep e))
      | _ \<Rightarrow>
          (case run_file run of
             Inl e \<Rightarrow> (zero_result, Some (ProbeStep e))
           | Inr decoded \<Rightarrow>
               (case decode_pool_probe_result decoded m of
                  Inl e \<Rightarrow> (zero_result, Some e)
                | Inr r \<Rightarrow> (r, if bq_success r then None else Some (ProbeReported (bq_stage r))))))"

text \<open>\<open>executePooledProbe\<close>; \<open>mkdir\<close> and \<open>store\<close> are the errors of the private root and of keeping the result.\<close>

definition execute_pooled_probe ::
    "string option \<Rightarrow> (probe_manifest \<Rightarrow> pool_probe_result \<times> probe_failure option) \<Rightarrow> string option
     \<Rightarrow> probe_manifest \<Rightarrow> pool_probe_result \<times> probe_failure option" where
  "execute_pooled_probe mkdir runtime store m =
     (case mkdir of
        Some e \<Rightarrow> (zero_result, Some (ProbeStep e))
      | None \<Rightarrow>
          (case runtime m of
             (r, Some e) \<Rightarrow> (r, Some e)
           | (r, None) \<Rightarrow>
               (case validate_pool_probe_result r m of
                  Some e \<Rightarrow> (zero_result, Some (ProbeResultInvalid e))
                | None \<Rightarrow>
                    (case store of
                       Some e \<Rightarrow> (zero_result, Some (ProbeStep e))
                     | None \<Rightarrow> (r, if bq_success r then None else Some (ProbeReported (bq_stage r)))))))"

definition without_launch_token :: "string \<Rightarrow> string list \<Rightarrow> string list" where
  "without_launch_token variable environment = filter (\<lambda>entry. \<not> has_prefix entry (variable @ ''='')) environment"

text \<open>
  \<open>canonicalProbePath\<close> of an absolute cleaned path: links are resolved in the longest prefix that exists.
  \<open>eval\<close> is \<open>filepath.EvalSymlinks\<close>.  \<open>ps\<close> are the elements of the prefix, the last one first.
\<close>

datatype link = Real string | Missing | LinkError

fun resolve_prefix :: "(string \<Rightarrow> link) \<Rightarrow> string list \<Rightarrow> string list \<Rightarrow> string option" where
  "resolve_prefix eval [] missing =
     (case eval ''/'' of Real r \<Rightarrow> Some (clean_path (foldl (\<lambda>p e. join_path [p, e]) r missing)) | _ \<Rightarrow> None)"
| "resolve_prefix eval (p # ps) missing =
     (case eval (CHR ''/'' # join ''/'' (rev (p # ps))) of
        Real r \<Rightarrow> Some (clean_path (foldl (\<lambda>p e. join_path [p, e]) r missing))
      | Missing \<Rightarrow> resolve_prefix eval ps (p # missing)
      | LinkError \<Rightarrow> None)"

definition canonical_probe_path :: "(string \<Rightarrow> link) \<Rightarrow> string \<Rightarrow> string option" where
  "canonical_probe_path eval path =
     (if blank path then None else resolve_prefix eval (rev (path_elements (clean_path path))) [])"

section \<open>What the restart keeps of a result\<close>

definition completed_of :: "pool_probe_result \<Rightarrow> string list" where
  "completed_of r = (case bq_completed r of None \<Rightarrow> [] | Some c \<Rightarrow> c)"

definition str_list :: "string list \<Rightarrow> json" where
  "str_list xs = (if xs = [] then JNull else JArr (map JStr xs))"

text \<open>\<open>pooledRestartProbeFailureDiagnostics\<close>; \<open>message\<close> is the text of the error, if there is one.\<close>

definition probe_failure_diagnostics :: "pool_probe_result \<Rightarrow> string option \<Rightarrow> object list" where
  "probe_failure_diagnostics r message =
     (if bq_success r then []
      else [[(''stage'', JStr (if blank (bq_stage r) then ''probe/transport'' else bq_stage r)), (''status'', JStr ''failed''),
        (''data'', JObj
           ([(''completed'', str_list (completed_of r))]
            @ (if blank (bq_collective r) then [] else [(''collective_diagnostic'', JStr (bq_collective r))])
            @ (case message of None \<Rightarrow> [] | Some e \<Rightarrow> [(''message'', JStr e)])
            @ [(''members'', JArr (map (\<lambda>m. JObj
                 [(''workspace'', JStr (br_config_dir m)), (''baseline_kind'', JStr (br_baseline_kind m)),
                  (''status'', JStr (br_status m)), (''diagnostic'', JStr (br_diagnostic m))]) (bq_members r)))]))]])"

definition pooled_restart_probe :: "probe_manifest \<Rightarrow> pool_probe_result \<Rightarrow> string option \<Rightarrow> probe_result" where
  "pooled_restart_probe m r message =
     \<lparr>pr_success = bq_success r,
      pr_stage = (if bq_success r then ''probe/complete'' else ''probe/failure''),
      pr_workspace = (if blank (bq_root r) then bp_root m else bq_root r),
      pr_source = (if blank (bq_source r) \<and> bp_members m \<noteq> [] then bm_config_dir (hd (bp_members m)) else bq_source r),
      pr_completed = completed_of r,
      pr_diagnostics = probe_failure_diagnostics r message,
      pr_log = (if blank (bq_log r) then join_path [bp_root m, ''pool-probe.log''] else bq_log r)\<rparr>"

section \<open>Facts on manifests\<close>

lemma list_ex_not: "\<not> list_ex P xs \<longleftrightarrow> list_all (\<lambda>x. \<not> P x) xs"
  by (induction xs) auto

lemma validate_probe_members_None:
  assumes "validate_probe_members root before ms = None" "m \<in> set ms"
  shows "\<exists>before'. validate_probe_member root before' m = None"
  using assms
proof (induction ms arbitrary: before)
  case (Cons x ms)
  then show ?case by (cases "m = x") (auto split: option.splits)
qed simp

lemma validate_probe_member_None:
  assumes "validate_probe_member root before m = None"
  shows "list_all canonical ([bm_config_dir m, bm_source_cwd m] @ private_paths m)"
    "list_all (path_below root) (private_paths m)"
  using assms by (auto simp: validate_probe_member_def canonical_def private_paths_def)

lemma validate_private_paths_None:
  "validate_private_paths artifacts before ps = None \<longleftrightarrow>
     (\<forall>p \<in> set ps. \<forall>b \<in> set before. \<not> paths_overlap p b)
     \<and> sorted_wrt (\<lambda>a b. \<not> paths_overlap b a) ps
     \<and> (\<forall>p \<in> set ps. \<forall>a \<in> set artifacts. \<not> paths_overlap p a)"
proof (induction ps arbitrary: before)
  case (Cons p ps)
  have "List.find (paths_overlap p) before = None \<longleftrightarrow> (\<forall>b \<in> set before. \<not> paths_overlap p b)"
    by (auto simp: find_None_iff)
  then show ?case using Cons.IH [of "before @ [p]"] by (auto simp: list_ex_iff split: option.splits)
qed simp

lemma manifest_paths:
  assumes "validate_probe_manifest m = None"
  defines "ps \<equiv> concat (map private_paths (bp_members m))"
  shows "canonical (bp_root m)" "canonical (bp_result m)" "canonical (bp_collective m)"
    "list_all canonical ps" "list_all (path_below (bp_root m)) ps"
    "sorted_wrt (\<lambda>a b. \<not> paths_overlap b a) ps" "\<forall>p \<in> set ps. \<forall>a \<in> {bp_result m, bp_collective m}. \<not> paths_overlap p a"
proof -
  have v: "canonical (bp_root m) \<and> canonical (bp_result m) \<and> canonical (bp_collective m)"
    "validate_probe_members (bp_root m) [] (bp_members m) = None"
    "validate_private_paths [bp_result m, bp_collective m] [] ps = None"
    using assms by (auto simp: validate_probe_manifest_def canonical_def split: option.splits)
  have member: "list_all canonical (private_paths x) \<and> list_all (path_below (bp_root m)) (private_paths x)"
    if x: "x \<in> set (bp_members m)" for x
  proof -
    obtain before' where "validate_probe_member (bp_root m) before' x = None"
      using validate_probe_members_None [OF v(2) x] by blast
    from validate_probe_member_None [OF this] show ?thesis by simp
  qed
  show "canonical (bp_root m)" "canonical (bp_result m)" "canonical (bp_collective m)" using v(1) by simp_all
  show "list_all canonical ps" "list_all (path_below (bp_root m)) ps"
    using member unfolding ps_def by (auto simp: list_all_iff)
  show "sorted_wrt (\<lambda>a b. \<not> paths_overlap b a) ps" "\<forall>p \<in> set ps. \<forall>a \<in> {bp_result m, bp_collective m}. \<not> paths_overlap p a"
    using v(3) unfolding validate_private_paths_None by simp_all
qed

lemma result_members_match:
  assumes "validate_result_members success seen es as = None" "length as = length es"
  shows "list_all2 (\<lambda>e a. br_config_dir a = bm_config_dir e \<and> br_probe_config a = bm_probe_config e
      \<and> br_weaver a = bm_weaver e \<and> br_generation a = bm_generation e
      \<and> (br_diff a = None \<longleftrightarrow> bm_baseline e = None)
      \<and> (br_status a = ''validated'' \<or> \<not> success \<and> br_status a = ''failed'')) es as"
  using assms
proof (induction success seen es as rule: validate_result_members.induct)
  case (1 success seen e es a as)
  then have v: "validate_result_member success seen e a = None" by (auto split: option.splits)
  then have "br_config_dir a = bm_config_dir e \<and> br_probe_config a = bm_probe_config e
      \<and> br_weaver a = bm_weaver e \<and> br_generation a = bm_generation e
      \<and> (br_diff a = None \<longleftrightarrow> bm_baseline e = None)
      \<and> (br_status a = ''validated'' \<or> \<not> success \<and> br_status a = ''failed'')"
    by (auto simp: validate_result_member_def Let_def split: option.splits if_splits)
  then show ?case using 1 v by simp
qed simp_all

section \<open>Properties\<close>

text \<open>C21:
  A probe works only on private files: in a manifest that was accepted, every private path of every member
  lies strictly below the private root, no private path is another one or lies inside it, and none is or
  contains the result or the diagnostic of the whole probe, or lies in them.
\<close>

theorem probe_paths_isolated:
  assumes "validate_probe_manifest m = None"
  shows "(\<forall>p \<in> set (concat (map private_paths (bp_members m))).
      strict_prefix (path_elements (bp_root m)) (path_elements p)
      \<and> (\<forall>a \<in> {bp_result m, bp_collective m}.
           \<not> prefix (path_elements p) (path_elements a) \<and> \<not> prefix (path_elements a) (path_elements p)))
    \<and> sorted_wrt (\<lambda>a b. \<not> prefix (path_elements a) (path_elements b) \<and> \<not> prefix (path_elements b) (path_elements a))
      (concat (map private_paths (bp_members m)))"
proof -
  let ?ps = "concat (map private_paths (bp_members m))"
  note paths = manifest_paths [OF assms]
  have canon: "canonical p" if "p \<in> set ?ps" for p using paths(4) that unfolding list_all_iff by blast
  have "\<forall>p \<in> set ?ps. strict_prefix (path_elements (bp_root m)) (path_elements p)
      \<and> (\<forall>a \<in> {bp_result m, bp_collective m}.
           \<not> prefix (path_elements p) (path_elements a) \<and> \<not> prefix (path_elements a) (path_elements p))"
  proof
    fix p assume p: "p \<in> set ?ps"
    have "path_below (bp_root m) p" using paths(5) p unfolding list_all_iff by blast
    moreover have "\<not> paths_overlap p a" "canonical a" if "a \<in> {bp_result m, bp_collective m}" for a
      using paths(2,3,7) p that by blast+
    ultimately show "strict_prefix (path_elements (bp_root m)) (path_elements p)
      \<and> (\<forall>a \<in> {bp_result m, bp_collective m}.
           \<not> prefix (path_elements p) (path_elements a) \<and> \<not> prefix (path_elements a) (path_elements p))"
      using path_below_iff [OF paths(1) canon [OF p]] paths_overlap_iff [OF canon [OF p]] by blast
  qed
  moreover have "sorted_wrt (\<lambda>a b. \<not> prefix (path_elements a) (path_elements b) \<and> \<not> prefix (path_elements b) (path_elements a)) ?ps"
    by (rule sorted_wrt_mono_rel [OF _ paths(6)]) (simp add: paths_overlap_iff canon)
  ultimately show ?thesis by blast
qed

text \<open>An accepted result answers for exactly the members of the manifest, in their order, with the private
  configuration and the identities drawn for them; after a success each of them is validated.
\<close>

theorem accepted_result_covers:
  assumes "validate_pool_probe_result r m = None"
  shows "list_all2 (\<lambda>e a. br_config_dir a = bm_config_dir e \<and> br_probe_config a = bm_probe_config e
      \<and> br_weaver a = bm_weaver e \<and> br_generation a = bm_generation e
      \<and> (br_diff a = None \<longleftrightarrow> bm_baseline e = None)
      \<and> (br_status a = ''validated'' \<or> \<not> bq_success r \<and> br_status a = ''failed'')) (bp_members m) (bq_members r)"
proof -
  have "validate_result_members (bq_success r) [] (bp_members m) (bq_members r) = None" "length (bq_members r) = length (bp_members m)"
    using assms by (auto simp: validate_pool_probe_result_def split: option.splits)
  then show ?thesis by (rule result_members_match)
qed

lemma abs_not_blank: "is_abs p \<Longrightarrow> \<not> blank p"
  by (cases p) (auto simp: is_abs_def has_prefix_def is_space_def)

lemma canonical_not_blank: "canonical p \<Longrightarrow> \<not> blank p"
  by (simp add: canonical_def abs_not_blank)

lemma join_abs_not_blank:
  assumes "canonical root"
  shows "\<not> blank (join_path [root, e])"
proof (rule abs_not_blank)
  have "is_abs (root @ ''/'' @ e)" using assms by (cases root) (auto simp: canonical_def is_abs_def has_prefix_def)
  then have "is_abs (clean_path (root @ ''/'' @ e))" by (simp add: clean_path_def Let_def is_abs_def has_prefix_def)
  moreover have "root \<noteq> []" using assms by (simp add: canonical_def)
  ultimately show "is_abs (join_path [root, e])" by (simp add: join_path_def)
qed

text \<open>The results of an execution: a success was validated, and a result that is kept after a failure is either zero or validated.\<close>

lemma run_pooled_cases:
  assumes "run_pooled_probe run m = (r, e)"
  shows "r = zero_result \<or> validate_pool_probe_result r m = None" and "e = None \<longrightarrow> validate_pool_probe_result r m = None \<and> bq_success r"
  using assms by (auto simp: run_pooled_probe_def decode_pool_probe_result_def split: option.splits sum.splits if_splits)

lemma execute_cases:
  assumes "execute_pooled_probe mkdir (run_pooled_probe run) store m = (r, e)"
  shows "(r = zero_result \<and> e \<noteq> None \<or> validate_pool_probe_result r m = None) \<and> (e = None \<longrightarrow> bq_success r)"
proof -
  obtain r' e' where x: "run_pooled_probe run m = (r', e')" by fastforce
  show ?thesis
    using assms run_pooled_cases [OF x]
    by (auto simp: execute_pooled_probe_def x split: option.splits if_splits)
qed

text \<open>What the restart keeps of an execution is a report its record accepts, if no completed stage is blank.\<close>

lemma report_accepted:
  assumes "validate_probe_manifest m = None" "r = zero_result \<or> validate_pool_probe_result r m = None"
    "\<forall>s \<in> set (completed_of r). \<not> blank s"
  shows "validate_probe (pooled_restart_probe m r message) = None"
proof -
  have root: "\<not> blank (bp_root m)" "bp_members m \<noteq> []" "canonical (bp_root m)"
    using assms(1) by (auto simp: validate_probe_manifest_def canonical_def split: option.splits)
  have member: "\<not> blank (bm_config_dir (hd (bp_members m)))"
  proof -
    have "hd (bp_members m) \<in> set (bp_members m)" using root(2) by simp
    then obtain before where "validate_probe_member (bp_root m) before (hd (bp_members m)) = None"
      using assms(1) validate_probe_members_None by (fastforce simp: validate_probe_manifest_def split: option.splits)
    from validate_probe_member_None(1) [OF this] have "canonical (bm_config_dir (hd (bp_members m)))" by simp
    then show ?thesis by (rule canonical_not_blank)
  qed
  have log: "\<not> blank (join_path [bp_root m, ''pool-probe.log''])" by (rule join_abs_not_blank [OF root(3)])
  have diagnostics: "first_error validate_probe_diagnostic (probe_failure_diagnostics r message) = None"
    by (auto simp: probe_failure_diagnostics_def validate_probe_diagnostic_def blank_text_def bad_status_def diagnostic_statuses_def is_space_def)
  show ?thesis
    using root member log diagnostics assms(3)
    by (auto simp: validate_probe_def pooled_restart_probe_def list_ex_iff is_space_def)
qed

text \<open>A probe of one workspace that is new to the pool, and results of it.\<close>

definition demo_probe_member :: probe_member where
  "demo_probe_member = \<lparr>bm_config_dir = ''/w'', bm_source_cwd = ''/w'', bm_probe_config = ''/p/c'', bm_probe_state = ''/p/s'',
     bm_probe_data = ''/p/d'', bm_diagnostic = ''/p/m'', bm_name = ''n'', bm_weaver = ''v'', bm_generation = ''g'', bm_baseline = None\<rparr>"

definition demo_manifest :: probe_manifest where
  "demo_manifest = \<lparr>bp_format = pool_probe_format, bp_pool = ''p'', bp_probe = ''b'', bp_host = ''h'', bp_generation = ''g'',
     bp_root = ''/p'', bp_source = ''/s'', bp_result = ''/p/r'', bp_collective = ''/p/l'', bp_members = [demo_probe_member]\<rparr>"

definition demo_result :: "string list \<Rightarrow> pool_probe_result" where
  "demo_result completed = \<lparr>bq_format = pool_probe_result_format, bq_probe = ''b'', bq_success = True, bq_stage = ''probe/complete'',
     bq_root = ''/p'', bq_source = ''/w'', bq_completed = Some completed,
     bq_members = [\<lparr>br_config_dir = ''/w'', br_probe_config = ''/p/c'', br_weaver = ''v'', br_generation = ''g'',
       br_baseline_kind = ''newcomer'', br_status = ''validated'', br_projection = Some [], br_diff = None, br_diagnostic = ''/p/m''\<rparr>],
     bq_collective = ''/p/l'', bq_log = ''/p/o''\<rparr>"

lemma demo_manifest_valid: "validate_probe_manifest demo_manifest = None"
proof -
  have paths: "canonical ''/p'' \<and> canonical ''/s'' \<and> canonical ''/p/r'' \<and> canonical ''/p/l'' \<and> canonical ''/w''
      \<and> canonical ''/p/c'' \<and> canonical ''/p/s'' \<and> canonical ''/p/d'' \<and> canonical ''/p/m''"
    "path_below ''/p'' ''/p/r'' \<and> path_below ''/p'' ''/p/l''"
    "list_all (path_below ''/p'') [''/p/c'', ''/p/s'', ''/p/d'', ''/p/m'']"
    "validate_private_paths [''/p/r'', ''/p/l''] [] [''/p/c'', ''/p/s'', ''/p/d'', ''/p/m''] = None"
    by code_simp+
  have "validate_probe_member ''/p'' [] demo_probe_member = None"
    using paths(1,3) by (simp add: validate_probe_member_def demo_probe_member_def private_paths_def canonical_def)
  then show ?thesis
    using paths(1,2,4)
    by (simp add: validate_probe_manifest_def demo_manifest_def canonical_def is_space_def del: validate_private_paths.simps)
      (simp add: demo_probe_member_def private_paths_def)
qed

lemma demo_result_valid: "validate_pool_probe_result (demo_result completed) demo_manifest = None"
proof -
  have paths: "canonical ''/p'' \<and> canonical ''/w'' \<and> canonical ''/p/l'' \<and> canonical ''/p/o''" by code_simp
  have "validate_result_members True [] (bp_members demo_manifest) (bq_members (demo_result completed)) = None"
    by (simp add: demo_manifest_def demo_result_def validate_result_member_def demo_probe_member_def Let_def valid_registry_projection_def)
  then show ?thesis
    using paths
    by (simp add: validate_pool_probe_result_def demo_manifest_valid) (simp add: demo_manifest_def demo_result_def canonical_def is_space_def)
qed

theorem probe_paths_isolated_witness: "strict_prefix (path_elements ''/p'') (path_elements ''/p/c'')"
  using probe_paths_isolated [OF demo_manifest_valid] by (simp add: demo_manifest_def demo_probe_member_def private_paths_def)

theorem accepted_result_covers_witness: "br_status (hd (bq_members (demo_result []))) = ''validated''"
  using accepted_result_covers [OF demo_result_valid [of "[]"]] by (simp add: demo_manifest_def demo_result_def)

text \<open>
  The validation of a result does not look at its completed stages, but the report made of it is refused when
  one of them is blank: a successful probe then cannot be recorded, and the restart ends with an error while
  the record keeps the state probing.
\<close>

theorem blank_stage_unrecordable:
  "validate_pool_probe_result (demo_result [[]]) demo_manifest = None
   \<and> validate_probe (pooled_restart_probe demo_manifest (demo_result [[]]) None) = Some CompletedBlank"
  by (simp add: demo_result_valid)
    (simp add: pooled_restart_probe_def demo_result_def completed_of_def validate_probe_def guards.simps is_space_def)

text \<open>A value that claims to be callable is accepted without a class.\<close>

lemma callable_without_class:
  "valid_projection_value (JObj [(''callable'', JBool True), (k, v)]) \<longleftrightarrow> \<not> blank_class (map_of [(k, v)] ''class'')"
  by simp

end
