(* ===== verification/Pool_Host.thy ===== *)
theory Pool_Host
  imports Pool_Probe
begin

text \<open>
  Pool hosts (\<open>cli/cmd/mill/pool_host.go\<close>): the launch manifest a host is started with, the ready marker it
  publishes, and the proof that admits it; how a host and its manifest are made of a snapshot of the
  membership (\<open>poolHostFromSnapshot\<close>); the statuses of members (\<open>pool_status.go\<close>); and the membership of a
  workspace at \<open>mill init\<close> (\<open>pool_membership.go\<close>).

  Where the code ranges over a map of paths the path an error names is open, and errors do not name it.
\<close>

section \<open>Manifests and markers\<close>

record launch_member =
  lm_config_dir :: string
  lm_source_cwd :: string
  lm_state_dir :: string
  lm_data_dir :: string
  lm_name :: string
  lm_weaver :: string
  lm_generation :: string
  lm_dependency :: string

record launch_manifest =
  la_format :: string
  la_pool :: string
  la_host :: string
  la_generation :: string
  la_revision :: string
  la_restart_path :: string
  la_source :: string
  la_version :: string
  la_members :: "launch_member list"

record ready_member =
  re_config_dir :: string
  re_weaver :: string
  re_generation :: string
  re_socket :: string
  re_nrepl_host :: string
  re_nrepl_port :: int

record ready_marker =
  re_format :: string
  re_pool :: string
  re_host :: string
  re_host_generation :: string
  re_revision :: string
  re_pid :: int
  re_basis :: string
  re_members :: "ready_member list"

datatype launch_error =
    LaunchIdentity
  | LaunchPath
  | LaunchEmpty
  | LaunchMember
  | LaunchMemberPath
  | LaunchDuplicate string
  | LaunchUnsorted

definition launch_format :: string where
  "launch_format = ''millstrand.jvm-pool-launch/v1''"

definition ready_format :: string where
  "ready_format = ''millstrand.jvm-pool-ready/v1''"

definition launch_paths :: "launch_member \<Rightarrow> string list" where
  "launch_paths m = [lm_config_dir m, lm_source_cwd m, lm_state_dir m, lm_data_dir m, lm_dependency m]"

definition validate_launch_member :: "launch_member \<Rightarrow> launch_error option" where
  "validate_launch_member m =
     guards
       [(\<not> canonical (lm_config_dir m) \<or> \<not> is_abs (lm_source_cwd m)
          \<or> [] \<in> set [lm_source_cwd m, lm_state_dir m, lm_data_dir m, lm_name m, lm_weaver m, lm_generation m, lm_dependency m],
         LaunchMember),
        (list_ex (\<lambda>p. \<not> is_abs p \<or> clean_path p \<noteq> p) (launch_paths m), LaunchMemberPath)]"

definition validate_launch_manifest :: "launch_manifest \<Rightarrow> launch_error option" where
  "validate_launch_manifest m =
     (case guards
        [(la_format m \<noteq> launch_format
          \<or> list_ex blank [la_pool m, la_host m, la_generation m, la_revision m, la_restart_path m, la_source m, la_version m],
          LaunchIdentity),
         (list_ex (\<lambda>p. \<not> is_abs p \<or> clean_path p \<noteq> p) [la_restart_path m, la_source m], LaunchPath),
         (la_members m = [], LaunchEmpty)] of
        Some e \<Rightarrow> Some e
      | None \<Rightarrow>
          check_sorted validate_launch_member lm_config_dir (\<lambda>x. LaunchDuplicate (lm_config_dir x)) LaunchUnsorted [] (la_members m))"

datatype ready_error = ReadyInvalid | ReadyMember | ReadyUnsorted

definition validate_ready_member :: "ready_member \<Rightarrow> ready_error option" where
  "validate_ready_member m =
     (if [] \<in> set [re_config_dir m, re_weaver m, re_generation m, re_socket m, re_nrepl_host m] \<or> re_nrepl_port m \<le> 0
      then Some ReadyMember else None)"

definition validate_ready :: "ready_marker \<Rightarrow> ready_error option" where
  "validate_ready m =
     (if re_format m \<noteq> ready_format
         \<or> list_ex blank [re_pool m, re_host m, re_host_generation m, re_revision m]
         \<or> re_pid m \<le> 0 \<or> \<not> valid_basis_fingerprint (re_basis m) \<or> re_members m = []
      then Some ReadyInvalid
      else check_sorted validate_ready_member re_config_dir (\<lambda>_. ReadyMember) ReadyUnsorted [] (re_members m))"

text \<open>
  \<open>readPoolLaunchManifest\<close> and \<open>readPoolReady\<close>: \<open>decoded\<close> is what the decoder makes of the file, \<open>None\<close> when it
  is not one JSON object of the expected fields.
\<close>

datatype 'e file_error = NoFile | FileUnreadable | FileMalformed | FileInvalid 'e

definition read_checked :: "('a \<Rightarrow> 'e option) \<Rightarrow> ('e file_error, 'a option) result \<Rightarrow> ('e file_error, 'a) result" where
  "read_checked validate file =
     (case file of
        Inl e \<Rightarrow> Err e
      | Inr None \<Rightarrow> Err FileMalformed
      | Inr (Some x) \<Rightarrow> (case validate x of Some e \<Rightarrow> Err (FileInvalid e) | None \<Rightarrow> Ok x))"

definition read_launch_manifest where "read_launch_manifest = read_checked validate_launch_manifest"
definition read_pool_ready where "read_pool_ready = read_checked validate_ready"

text \<open>\<open>writePoolLaunchManifest\<close>; \<open>io\<close> tells whether the write succeeds.\<close>

definition write_launch_manifest :: "bool \<Rightarrow> launch_manifest \<Rightarrow> launch_manifest option \<Rightarrow> (launch_error + unit) option \<times> launch_manifest option" where
  "write_launch_manifest io m file =
     (case validate_launch_manifest m of
        Some e \<Rightarrow> (Some (Inl e), file)
      | None \<Rightarrow> if io then (None, Some m) else (Some (Inr ()), file))"

section \<open>Admission\<close>

datatype pool_admission_error =
    MarkerDiffers
  | MemberDiffers string
  | MemberNoStatus string
  | MemberIdentity string identity_error
  | MemberPid string
  | MemberMetadata string
  | MemberRestartPath string
  | MemberSocket string
  | MemberEndpoint string

definition text_is :: "status \<Rightarrow> string \<Rightarrow> string \<Rightarrow> bool" where
  "text_is st k v \<longleftrightarrow> text_entry (map_of st k) = Some v"

text \<open>
  The loop of \<open>validatePoolAdmission\<close>, for one member of the host and its row of the marker: \<open>alive\<close> is the
  process table, \<open>endpoint\<close> the answer of a Weaver that proves its identity over its socket.
\<close>

definition admit_member ::
    "(int \<Rightarrow> bool) \<Rightarrow> (weaver_identity \<Rightarrow> bool) \<Rightarrow> pool_host \<Rightarrow> ready_marker \<Rightarrow> (string \<Rightarrow> status option)
     \<Rightarrow> pool_member \<Rightarrow> ready_member \<Rightarrow> pool_admission_error option" where
  "admit_member alive endpoint h marker statuses expected actual =
     (let dir = member_dir expected in
      if re_config_dir actual \<noteq> dir \<or> re_weaver actual \<noteq> pm_weaver expected \<or> re_generation actual \<noteq> pm_generation expected
      then Some (MemberDiffers dir)
      else (case statuses dir of
        None \<Rightarrow> Some (MemberNoStatus dir)
      | Some st \<Rightarrow>
          (case identity_from_status st of
             Inl e \<Rightarrow> Some (MemberIdentity dir e)
           | Inr i \<Rightarrow> guards
               [(id_pid i \<noteq> host_pid h \<or> id_weaver i \<noteq> pm_weaver expected \<or> id_generation i \<noteq> pm_generation expected
                   \<or> id_config_dir i \<noteq> dir \<or> \<not> alive (id_pid i), MemberPid dir),
                (\<not> text_is st ''jvm_pool'' (host_pool h) \<or> \<not> text_is st ''host_id'' (host_id h)
                   \<or> \<not> text_is st ''host_generation_id'' (host_generation h)
                   \<or> \<not> text_is st ''basis_fingerprint'' (re_basis marker) \<or> text_is st ''member_basis_fingerprint'' [],
                 MemberMetadata dir),
                (ph_restart_path h \<noteq> [] \<and> \<not> text_is st ''pool_restart_path'' (ph_restart_path h), MemberRestartPath dir),
                (re_socket actual \<noteq> id_socket i, MemberSocket dir),
                (\<not> endpoint i, MemberEndpoint dir)])))"

definition validate_pool_admission ::
    "(int \<Rightarrow> bool) \<Rightarrow> (weaver_identity \<Rightarrow> bool) \<Rightarrow> pool_host \<Rightarrow> ready_marker \<Rightarrow> (string \<Rightarrow> status option)
     \<Rightarrow> pool_admission_error option" where
  "validate_pool_admission alive endpoint h marker statuses =
     (if re_pool marker \<noteq> host_pool h \<or> re_host marker \<noteq> host_id h \<or> re_host_generation marker \<noteq> host_generation h
         \<or> re_revision marker \<noteq> host_membership_rev h \<or> re_pid marker \<noteq> host_pid h
         \<or> length (re_members marker) \<noteq> length (host_members h)
      then Some MarkerDiffers
      else first_error (\<lambda>(expected, actual). admit_member alive endpoint h marker statuses expected actual)
             (zip (host_members h) (re_members marker)))"

section \<open>A host of a snapshot\<close>

text \<open>
  What the code finds out of a registered member and the ids it draws: the world, the canonical directories
  (\<open>None\<close> on failure), the name, the Weaver and generation ids, and the path of the dependency diagnostic.
\<close>

record member_env =
  me_world :: "world option"
  me_state_dir :: "string option"
  me_data_dir :: "string option"
  me_name :: "string option"
  me_weaver :: string
  me_generation :: string
  me_dependency :: string

record host_ids =
  hi_host :: string
  hi_generation :: string
  hi_token :: string

datatype snapshot_error = NoMembers string | HostDir reg_error | MemberFails string

definition member_from :: "member_env \<Rightarrow> member \<Rightarrow> (launch_member \<times> pool_member) option" where
  "member_from e m =
     (case (me_world e, me_state_dir e, me_data_dir e, me_name e) of
        (Some w, Some state, Some data, Some name) \<Rightarrow>
          (let w = w\<lparr>w_state_dir := state, w_data_dir := data\<rparr> in
           Some (\<lparr>lm_config_dir = config_dir m, lm_source_cwd = source_cwd m, lm_state_dir = state, lm_data_dir = data,
                  lm_name = name, lm_weaver = me_weaver e, lm_generation = me_generation e, lm_dependency = me_dependency e\<rparr>,
                 \<lparr>pm_world = w, pm_source_cwd = source_cwd m, pm_name = name, pm_weaver = me_weaver e,
                  pm_generation = me_generation e, pm_basis = [],
                  pm_identity = \<lparr>id_pid = 0, id_weaver = [], id_generation = [], id_started_at = [], id_socket = [],
                    id_config_dir = [], id_state_dir = [], id_data_dir = []\<rparr>\<rparr>))
      | _ \<Rightarrow> None)"

fun members_from :: "(string \<Rightarrow> member_env) \<Rightarrow> member list \<Rightarrow> (snapshot_error, (launch_member \<times> pool_member) list) result" where
  "members_from env [] = Ok []"
| "members_from env (m # ms) =
     (case member_from (env (config_dir m)) m of
        None \<Rightarrow> Err (MemberFails (config_dir m))
      | Some x \<Rightarrow> (case members_from env ms of Inl e \<Rightarrow> Err e | Inr xs \<Rightarrow> Ok (x # xs)))"

definition pool_host_from_snapshot ::
    "(string \<Rightarrow> 8 word list) \<Rightarrow> string \<Rightarrow> string \<Rightarrow> host_ids \<Rightarrow> (string \<Rightarrow> member_env) \<Rightarrow> string \<Rightarrow> pool_snapshot
     \<Rightarrow> (snapshot_error, launch_manifest \<times> pool_host) result" where
  "pool_host_from_snapshot sha256 root version ids env source snap =
     (if snap_members snap = [] then Err (NoMembers (snap_pool snap))
      else case pool_host_dir sha256 root (snap_pool snap) of
        Inl e \<Rightarrow> Err (HostDir e)
      | Inr dir \<Rightarrow>
          (case members_from env (snap_members snap) of
             Inl e \<Rightarrow> Err e
           | Inr xs \<Rightarrow>
               let restart = join_path [dir, pool_restart_file] in
               Ok (\<lparr>la_format = launch_format, la_pool = snap_pool snap, la_host = hi_host ids, la_generation = hi_generation ids,
                    la_revision = snap_revision snap, la_restart_path = restart, la_source = source, la_version = version,
                    la_members = map fst xs\<rparr>,
                   \<lparr>host_pool = snap_pool snap, host_id = hi_host ids, host_generation = hi_generation ids, host_basis = [],
                    host_membership_rev = snap_revision snap, host_cmd = None, host_pid = 0, host_launch_token = hi_token ids,
                    host_members = map snd xs, host_allowances = map (\<lambda>(l, p). (lm_weaver l, pm_world p)) xs, host_live = False,
                    ph_ready_path = join_path [dir, ''ready.json''],
                    ph_manifest_path = join_path [dir, ''launch-'' @ hi_host ids @ ''.json''],
                    ph_log_path = join_path [dir, ''host.log''], ph_restart_path = restart\<rparr>)))"

definition member_for_pool :: "pool_snapshot \<Rightarrow> string \<Rightarrow> member option" where
  "member_for_pool snap dir = List.find (\<lambda>m. config_dir m = dir) (snap_members snap)"

definition pool_host_has_member :: "pool_host \<Rightarrow> string \<Rightarrow> bool" where
  "pool_host_has_member h dir \<longleftrightarrow> list_ex (\<lambda>m. member_dir m = dir) (host_members h)"

section \<open>Statuses\<close>

definition strs :: "string list \<Rightarrow> status_value" where
  "strs xs = SV (JArr (map JStr xs))"

text \<open>\<open>poolStatusForMember\<close>; \<open>view\<close> is what \<open>readRuntimeStatus\<close> makes of the metadata of the member.\<close>

definition pool_status_for_member ::
    "(unit, string) result \<Rightarrow> (world \<Rightarrow> view) \<Rightarrow> pool_host \<Rightarrow> string \<Rightarrow> status option" where
  "pool_status_for_member configured view h dir =
     (case List.find (\<lambda>m. member_dir m = dir) (host_members h) of
        None \<Rightarrow> None
      | Some m \<Rightarrow>
          let st = (case fresh_status (view (pm_world m)) of
                      Some st \<Rightarrow> st
                    | None \<Rightarrow>
                        put True ''started_at'' (SV (JStr (id_started_at (pm_identity m))))
                          (put True ''socket_path'' (SV (JStr (id_socket (pm_identity m))))
                            (put True ''generation_id'' (SV (JStr (pm_generation m)))
                              (put True ''weaver_id'' (SV (JStr (pm_weaver m)))
                                (put True ''pid'' (SInt (host_pid h)) (base_status configured (pm_world m) ''running''))))));
              st = put True ''jvm_pool'' (SV (JStr (host_pool h))) st;
              st = put True ''host_id'' (SV (JStr (host_id h))) st;
              st = put True ''host_generation_id'' (SV (JStr (host_generation h))) st;
              st = put True ''registered_members'' (strs (pool_config_dirs (host_members h))) st;
              st = put True ''live_members'' (strs (pool_config_dirs (host_members h))) st;
              st = put True ''pending_members'' (strs []) st;
              st = put True ''restart_required'' (SV (JBool False)) st;
              st = put True ''member_basis_fingerprint'' (SV (JStr (pm_basis m))) st
          in Some (put True ''pool_restart_path'' (SV (JStr (ph_restart_path h))) st))"

definition add_pool_pending :: "status \<Rightarrow> pool_host \<Rightarrow> pool_snapshot \<Rightarrow> status" where
  "add_pool_pending st h snap =
     (let pending = pool_pending_dirs h (snapshot_dirs snap);
          st = put True ''registered_members'' (strs (snapshot_dirs snap)) st;
          st = put True ''pending_members'' (strs pending) st
      in put True ''restart_required'' (SV (JBool (pending \<noteq> []))) st)"

definition pool_status_for_registered ::
    "(unit, string) result \<Rightarrow> (string \<Rightarrow> 8 word list) \<Rightarrow> string \<Rightarrow> world \<Rightarrow> string \<Rightarrow> pool_snapshot \<Rightarrow> (reg_error, status) result" where
  "pool_status_for_registered configured sha256 root w pool snap =
     (let st = base_status configured w ''stopped'';
          st = put True ''jvm_pool'' (SV (JStr pool)) st;
          st = put True ''registered_members'' (strs (snapshot_dirs snap)) st;
          st = put True ''live_members'' (strs []) st;
          st = put True ''pending_members'' (strs []) st;
          st = put True ''restart_required'' (SV (JBool False)) st
      in case pool_restart_record_path sha256 root pool of
           Inl e \<Rightarrow> Err e
         | Inr path \<Rightarrow> Ok (put True ''pool_restart_path'' (SV (JStr path)) st))"

definition pending_status :: "(unit, string) result \<Rightarrow> world \<Rightarrow> string \<Rightarrow> pool_host \<Rightarrow> pool_snapshot \<Rightarrow> status" where
  "pending_status configured w pool h snap =
     add_pool_pending
       (put True ''live_members'' (strs (pool_config_dirs (host_members h)))
         (put True ''pool_restart_path'' (SV (JStr (ph_restart_path h)))
           (put True ''jvm_pool'' (SV (JStr pool)) (base_status configured w ''pending'')))) h snap"

text \<open>
  \<open>poolStatusForWorldRaw\<close>: what the registry, the configuration and the discovery of a host deliver are
  arguments.  The first component tells whether the workspace is pooled.
\<close>

datatype pool_status_error = RegistryFails reg_error | DiscoveryFails string | ConfigFails string | PathFails reg_error

record pool_sources =
  so_registered :: "(reg_error, string option) result" \<comment> \<open>\<open>registeredPoolForConfig\<close>\<close>
  so_recorded :: "string \<Rightarrow> (reg_error, pool_snapshot) result" \<comment> \<open>\<open>poolRegisteredSnapshot\<close>\<close>
  so_validated :: "string \<Rightarrow> (reg_error, pool_snapshot) result" \<comment> \<open>\<open>poolSnapshot\<close>\<close>
  so_configured :: "(string, string) result" \<comment> \<open>\<open>configuredPool\<close>, empty for none\<close>
  so_host :: "string \<Rightarrow> pool_host option" \<comment> \<open>the host of a pool the Mill holds\<close>
  so_discover :: "string \<Rightarrow> (string, pool_host option) result"

definition find_pool_host :: "pool_sources \<Rightarrow> string \<Rightarrow> (pool_status_error, pool_host option) result" where
  "find_pool_host s pool =
     (case so_host s pool of
        Some h \<Rightarrow> Ok (Some h)
      | None \<Rightarrow> (case so_discover s pool of Inl e \<Rightarrow> Err (DiscoveryFails e) | Inr h \<Rightarrow> Ok h))"

definition live_pool_status ::
    "(unit, string) result \<Rightarrow> (world \<Rightarrow> view) \<Rightarrow> world \<Rightarrow> string \<Rightarrow> pool_host option \<Rightarrow> pool_snapshot \<Rightarrow> status option option" where
  "live_pool_status configured view w pool host snap =
     (case host of
        None \<Rightarrow> None
      | Some h \<Rightarrow>
          if \<not> host_live h then None
          else if pool_host_has_member h (w_config_dir w)
          then Some (map_option (\<lambda>st. add_pool_pending st h snap) (pool_status_for_member configured view h (w_config_dir w)))
          else Some (Some (pending_status configured w pool h snap)))"

definition configured_pool_status ::
    "(unit, string) result \<Rightarrow> (world \<Rightarrow> view) \<Rightarrow> (string \<Rightarrow> 8 word list) \<Rightarrow> string \<Rightarrow> pool_sources \<Rightarrow> world
     \<Rightarrow> bool \<times> (pool_status_error, status option) result" where
  "configured_pool_status configured view sha256 root s w =
     (case so_configured s of
        Inl e \<Rightarrow> (False, Err (ConfigFails e))
      | Inr pool \<Rightarrow>
          if pool = [] then (False, Ok None)
          else (case so_validated s pool of
            Inl e \<Rightarrow> (True, Err (RegistryFails e))
          | Inr snap \<Rightarrow>
              if member_for_pool snap (w_config_dir w) = None then (True, Ok None)
              else (case find_pool_host s pool of
                Inl e \<Rightarrow> (True, Err e)
              | Inr host \<Rightarrow>
                  (case live_pool_status configured view w pool host snap of
                     Some st \<Rightarrow> (True, Ok st)
                   | None \<Rightarrow>
                       (case pool_status_for_registered configured sha256 root w pool snap of
                          Inl e \<Rightarrow> (True, Err (PathFails e))
                        | Inr st \<Rightarrow> (True, Ok (Some st)))))))"

definition pool_status_raw ::
    "(unit, string) result \<Rightarrow> (world \<Rightarrow> view) \<Rightarrow> (string \<Rightarrow> 8 word list) \<Rightarrow> string \<Rightarrow> pool_sources \<Rightarrow> pool_host option \<Rightarrow> world
     \<Rightarrow> bool \<times> (pool_status_error, status option) result" where
  "pool_status_raw configured view sha256 root s host w =
     (case (case host of None \<Rightarrow> None | Some h \<Rightarrow> if host_live h then Some h else None) of
        Some h \<Rightarrow>
          (case so_recorded s (host_pool h) of
             Inl e \<Rightarrow> (True, Err (RegistryFails e))
           | Inr snap \<Rightarrow>
               (True, Ok (map_option (\<lambda>st. add_pool_pending st h snap) (pool_status_for_member configured view h (w_config_dir w)))))
      | None \<Rightarrow>
          (case so_registered s of
             Inl e \<Rightarrow> (True, Err (RegistryFails e))
           | Inr None \<Rightarrow> configured_pool_status configured view sha256 root s w
           | Inr (Some recorded) \<Rightarrow>
               (case so_recorded s recorded of
                  Inl e \<Rightarrow> (True, Err (RegistryFails e))
                | Inr snap \<Rightarrow>
                    (case find_pool_host s recorded of
                       Inl e \<Rightarrow> (True, Err e)
                     | Inr host \<Rightarrow>
                         (case live_pool_status configured view w recorded host snap of
                            Some st \<Rightarrow> (True, Ok st)
                          | None \<Rightarrow> configured_pool_status configured view sha256 root s w)))))"

section \<open>Membership of a workspace\<close>

text \<open>
  \<open>livePoolHostForConfig\<close>: the live owner of a workspace, found in the Mill's table, by discovery, or as an
  isolated Weaver with valid metadata; the owner of an isolated Weaver has no pool.
\<close>

datatype init_error =
    InitRegistry reg_error
  | InitDiscovery string
  | InitIdentity identity_error
  | InitStopRequired string string
  | InitConfig string
  | InitSource string

definition live_owner_for_config ::
    "(int \<Rightarrow> bool) \<Rightarrow> pool_host option \<Rightarrow> (reg_error, string option) result \<Rightarrow> (string \<Rightarrow> (string, pool_host option) result)
     \<Rightarrow> view \<Rightarrow> string \<Rightarrow> (init_error, live_owner option) result" where
  "live_owner_for_config alive host recorded discover isolated dir =
     (case (case host of None \<Rightarrow> None | Some h \<Rightarrow> if host_live h \<and> (host_pid h \<le> 0 \<or> alive (host_pid h)) then Some h else None) of
        Some h \<Rightarrow> Ok (Some \<lparr>owner_pool = host_pool h, owner_host_id = host_id h\<rparr>)
      | None \<Rightarrow>
          (case recorded of
             Inl e \<Rightarrow> Err (InitRegistry e)
           | Inr pool \<Rightarrow>
               (case (case pool of None \<Rightarrow> Ok None | Some p \<Rightarrow> discover p) of
                  Inl e \<Rightarrow> Err (InitDiscovery e)
                | Inr found \<Rightarrow>
                    (case (case found of None \<Rightarrow> None | Some h \<Rightarrow> if pool_host_has_member h dir then Some h else None) of
                       Some h \<Rightarrow>
                         Ok (if host_live h then Some \<lparr>owner_pool = host_pool h, owner_host_id = host_id h\<rparr> else None)
                     | None \<Rightarrow>
                         (case fresh_status isolated of
                            None \<Rightarrow> Ok None
                          | Some st \<Rightarrow>
                              if \<not> blank (string_status st ''jvm_pool'') then Ok None
                              else (case identity_from_status st of
                                      Inl e \<Rightarrow> Err (InitIdentity e)
                                    | Inr i \<Rightarrow> Ok (Some \<lparr>owner_pool = [], owner_host_id = id_weaver i\<rparr>)))))))"

text \<open>\<open>livePoolOwnership\<close>: the owners among the hosts the Mill holds.\<close>

definition live_pool_ownership :: "(int \<Rightarrow> bool) \<Rightarrow> (string \<times> pool_host) list \<Rightarrow> live_ownership" where
  "live_pool_ownership alive hosts =
     map_of (concat (map (\<lambda>(pool, h).
       if \<not> host_live h \<or> (0 < host_pid h \<and> \<not> alive (host_pid h)) then []
       else map (\<lambda>m. (member_dir m, \<lparr>owner_pool = pool, owner_host_id = host_id h\<rparr>)) (host_members h)) hosts))"

text \<open>
  \<open>reconcileInitPool\<close>: \<open>configure\<close> is \<open>SetLocalJVMPool\<close>, after which \<open>reload\<close> reads the effective pool.
\<close>

definition reconcile_membership ::
    "live_ownership \<Rightarrow> write_env \<Rightarrow> (string, string) result \<Rightarrow> string \<Rightarrow> string \<Rightarrow> reg_file \<Rightarrow> reg_file \<times> (init_error, string) result" where
  "reconcile_membership live env cwd dir pool file =
     (if pool = [] then
        (case Jvm_Pool.remove env dir live file of
           (f, Inl e) \<Rightarrow> (f, Err (InitRegistry e))
         | (f, Inr _) \<Rightarrow> (f, Ok []))
      else (case cwd of
        Inl e \<Rightarrow> (file, Err (InitSource e))
      | Inr source \<Rightarrow>
          (case reconcile env \<lparr>config_dir = dir, source_cwd = source, jvm_pool = pool\<rparr> live file of
             (f, Inl e) \<Rightarrow> (f, Err (InitRegistry e))
           | (f, Inr _) \<Rightarrow> (f, Ok pool))))"

definition configured_pool :: "(string, string option) result \<Rightarrow> (string, string) result" where
  "configured_pool loaded =
     (case loaded of Inl e \<Rightarrow> Err e | Inr None \<Rightarrow> Ok [] | Inr (Some p) \<Rightarrow> if blank p then Err p else Ok p)"

definition reconcile_init_pool ::
    "(string, string option) result \<Rightarrow> (init_error, live_owner option) result \<Rightarrow> string option \<Rightarrow> (string \<Rightarrow> string option)
     \<Rightarrow> (string, string option) result \<Rightarrow> live_ownership \<Rightarrow> write_env \<Rightarrow> (string, string) result \<Rightarrow> string \<Rightarrow> reg_file
     \<Rightarrow> reg_file \<times> (init_error, string) result" where
  "reconcile_init_pool current owner override configure reload live env cwd dir file =
     (case configured_pool current of
        Inl e \<Rightarrow> (file, Err (InitConfig e))
      | Inr configured \<Rightarrow>
          (case owner of
             Inl e \<Rightarrow> (file, Err e)
           | Inr host \<Rightarrow>
               let desired = (case override of None \<Rightarrow> configured | Some p \<Rightarrow> p) in
               if (case host of None \<Rightarrow> False | Some h \<Rightarrow> owner_pool h \<noteq> desired)
               then (file, Err (case host of None \<Rightarrow> InitConfig [] | Some h \<Rightarrow> InitStopRequired (owner_pool h) (owner_host_id h)))
               else (case (case override of None \<Rightarrow> None | Some p \<Rightarrow> configure p) of
                  Some e \<Rightarrow> (file, Err (InitConfig e))
                | None \<Rightarrow>
                    (case reload of
                       Inl e \<Rightarrow> (file, Err (InitConfig e))
                     | Inr effective \<Rightarrow>
                         reconcile_membership live env cwd dir (case effective of None \<Rightarrow> [] | Some p \<Rightarrow> p) file))))"


section \<open>Lemmas on hosts\<close>

lemma clean_elements:
  "list_all element es \<Longrightarrow> foldl (clean_step True) st es = rev es @ st"
proof (induction es arbitrary: st)
  case (Cons e es)
  then have "clean_step True st e = e # st" by (simp add: element_def)
  with Cons show ?case by simp
qed simp

lemma canonical_of_elements:
  assumes "list_all element es"
  shows "canonical (CHR ''/'' # join ''/'' es)"
proof -
  let ?p = "CHR ''/'' # join ''/'' es"
  have abs: "is_abs ?p" by (simp add: is_abs_def has_prefix_def)
  have parts: "foldl (clean_step True) [] (split_on (CHR ''/'') (join ''/'' es)) = rev es"
  proof (cases "es = []")
    case False
    have "split_on (CHR ''/'') (join ''/'' es) = es"
      using assms by (intro split_on_join [OF False]) (auto simp: list_all_iff element_def)
    then show ?thesis using clean_elements [OF assms, of "[]"] by simp
  qed simp
  have "foldl (clean_step True) [] (split_on (CHR ''/'') ?p) = rev es" using parts by simp
  then have "clean_path ?p = ?p" using abs by (simp add: clean_path_def)
  then show ?thesis using abs by (simp add: canonical_def)
qed

lemma canonical_clean:
  assumes "is_abs p"
  shows "canonical (clean_path p)"
proof -
  have "list_all element (rev (foldl (clean_step True) [] (split_on (CHR ''/'') p)))"
    using clean_steps [of "split_on (CHR ''/'') p" "[]"] split_on_no_sep by (auto simp: list_all_iff)
  from canonical_of_elements [OF this] show ?thesis using assms by (simp add: clean_path_def)
qed

lemma canonical_join:
  assumes "canonical root"
  shows "canonical (join_path (root # es))"
proof -
  obtain r where r: "root = CHR ''/'' # r" using assms by (cases root) (auto simp: canonical_def is_abs_def has_prefix_def)
  have "is_abs (join ''/'' (root # es))" unfolding r by (cases es) (auto simp: is_abs_def has_prefix_def)
  then show ?thesis using r by (simp add: join_path_def canonical_clean)
qed

text \<open>What admission proves of one member, given its row of the marker.\<close>

definition member_proved ::
    "(int \<Rightarrow> bool) \<Rightarrow> (weaver_identity \<Rightarrow> bool) \<Rightarrow> pool_host \<Rightarrow> string \<Rightarrow> (string \<Rightarrow> status option) \<Rightarrow> pool_member \<Rightarrow> ready_member \<Rightarrow> bool" where
  "member_proved alive endpoint h basis statuses m row \<longleftrightarrow>
     re_config_dir row = member_dir m \<and> re_weaver row = pm_weaver m \<and> re_generation row = pm_generation m
     \<and> (\<exists>st i. statuses (member_dir m) = Some st \<and> identity_from_status st = Ok i
          \<and> id_pid i = host_pid h \<and> id_weaver i = pm_weaver m \<and> id_generation i = pm_generation m
          \<and> id_config_dir i = member_dir m \<and> id_socket i = re_socket row \<and> alive (host_pid h) \<and> endpoint i
          \<and> text_is st ''jvm_pool'' (host_pool h) \<and> text_is st ''host_id'' (host_id h)
          \<and> text_is st ''host_generation_id'' (host_generation h) \<and> text_is st ''basis_fingerprint'' basis
          \<and> \<not> text_is st ''member_basis_fingerprint'' []
          \<and> (ph_restart_path h = [] \<or> text_is st ''pool_restart_path'' (ph_restart_path h)))"

lemma admit_member_None:
  "admit_member alive endpoint h marker statuses m row = None \<longleftrightarrow> member_proved alive endpoint h (re_basis marker) statuses m row"
  by (auto simp: admit_member_def member_proved_def Let_def split: option.splits sum.splits)

section \<open>Properties\<close>

text \<open>What \<open>poolHostFromSnapshot\<close> needs of the directories, names and ids it is given.\<close>

definition sane_env :: "string \<Rightarrow> member_env \<Rightarrow> bool" where
  "sane_env dir e \<longleftrightarrow>
     (case (me_world e, me_state_dir e, me_data_dir e, me_name e) of
        (Some w, Some state, Some data, Some name) \<Rightarrow>
          w_config_dir w = dir \<and> canonical state \<and> canonical data \<and> name \<noteq> []
      | _ \<Rightarrow> False)
     \<and> \<not> blank (me_weaver e) \<and> \<not> blank (me_generation e) \<and> canonical (me_dependency e)"

definition member_agrees :: "launch_member \<Rightarrow> pool_member \<Rightarrow> bool" where
  "member_agrees l p \<longleftrightarrow>
     lm_config_dir l = member_dir p \<and> lm_source_cwd l = pm_source_cwd p \<and> lm_name l = pm_name p
     \<and> lm_weaver l = pm_weaver p \<and> lm_generation l = pm_generation p
     \<and> lm_state_dir l = w_state_dir (pm_world p) \<and> lm_data_dir l = w_data_dir (pm_world p)"

lemma member_from_sane:
  assumes "sane_env (config_dir m) e" and "valid_member m"
  obtains l p where "member_from e m = Some (l, p)" "validate_launch_member l = None" "member_agrees l p"
    "lm_config_dir l = config_dir m" "\<not> blank (pm_weaver p)" "\<not> blank (pm_generation p)"
proof -
  obtain w s d n where env: "me_world e = Some w" "me_state_dir e = Some s" "me_data_dir e = Some d" "me_name e = Some n"
    "w_config_dir w = config_dir m" "canonical s" "canonical d" "n \<noteq> []"
    "\<not> blank (me_weaver e)" "\<not> blank (me_generation e)" "canonical (me_dependency e)"
    using assms(1) by (auto simp: sane_env_def split: option.splits)
  have m: "canonical (config_dir m)" "canonical (source_cwd m)" using assms(2) by (simp_all add: valid_member_def)
  have ids: "me_weaver e \<noteq> []" "me_generation e \<noteq> []" using env by auto
  let ?l = "\<lparr>lm_config_dir = config_dir m, lm_source_cwd = source_cwd m, lm_state_dir = s, lm_data_dir = d,
                  lm_name = n, lm_weaver = me_weaver e, lm_generation = me_generation e, lm_dependency = me_dependency e\<rparr>"
  let ?p = "snd (the (member_from e m))"
  have "validate_launch_member ?l = None"
    using env m ids by (auto simp: validate_launch_member_def launch_paths_def canonical_def)
  then show thesis
    by (intro that [of ?l ?p]) (simp_all add: member_from_def env Let_def member_agrees_def member_dir_def)
qed

definition sound_pair :: "launch_member \<times> pool_member \<Rightarrow> bool" where
  "sound_pair x \<longleftrightarrow>
     validate_launch_member (fst x) = None \<and> member_agrees (fst x) (snd x)
     \<and> \<not> blank (pm_weaver (snd x)) \<and> \<not> blank (pm_generation (snd x))
     \<and> id_weaver (pm_identity (snd x)) = [] \<and> id_generation (pm_identity (snd x)) = []"

lemma members_from_sane:
  assumes "\<forall>m \<in> set ms. sane_env (config_dir m) (env (config_dir m))" and "list_all valid_member ms"
  obtains xs where "members_from env ms = Ok xs" "map (lm_config_dir \<circ> fst) xs = map config_dir ms"
    "\<forall>x \<in> set xs. sound_pair x"
proof -
  have "\<exists>xs. members_from env ms = Ok xs \<and> map (lm_config_dir \<circ> fst) xs = map config_dir ms
      \<and> (\<forall>x \<in> set xs. sound_pair x)"
    using assms
  proof (induction ms)
    case (Cons m ms)
    then have "\<exists>xs. members_from env ms = Ok xs \<and> map (lm_config_dir \<circ> fst) xs = map config_dir ms \<and> (\<forall>x \<in> set xs. sound_pair x)"
      by (intro Cons.IH) simp_all
    then obtain xs where xs: "members_from env ms = Ok xs" "map (lm_config_dir \<circ> fst) xs = map config_dir ms"
      "\<forall>x \<in> set xs. sound_pair x"
      by (elim exE conjE) (rule that)
    have m: "sane_env (config_dir m) (env (config_dir m))" "valid_member m" using Cons.prems by simp_all
    obtain l p where lp: "member_from (env (config_dir m)) m = Some (l, p)" "validate_launch_member l = None" "member_agrees l p"
      "lm_config_dir l = config_dir m" "\<not> blank (pm_weaver p)" "\<not> blank (pm_generation p)"
      by (rule member_from_sane [OF m])
    have "id_weaver (pm_identity p) = [] \<and> id_generation (pm_identity p) = []"
      using lp(1) by (auto simp: member_from_def Let_def split: option.splits)
    with lp xs show ?case by (simp add: sound_pair_def comp_def)
  qed simp
  then show thesis by (elim exE conjE) (rule that)
qed

text \<open>For every snapshot of valid members \<open>poolHostFromSnapshot\<close> makes a host and a launch manifest that passes its
  own validation: the manifest names the members of the snapshot in its order, manifest and host agree on all
  identities, and once the host has its process and basis it is a host for which restart records are accepted.
\<close>

theorem host_of_snapshot:
  assumes snap: "good_snapshot snap" "snap_members snap \<noteq> []" "\<not> blank (snap_pool snap)"
    and env: "\<forall>m \<in> set (snap_members snap). sane_env (config_dir m) (env (config_dir m))"
    and rest: "canonical root" "canonical source" "\<not> blank version" "\<not> blank (hi_host ids)" "\<not> blank (hi_generation ids)"
  shows "\<exists>manifest h. pool_host_from_snapshot sha256 root version ids env source snap = Ok (manifest, h)
    \<and> validate_launch_manifest manifest = None
    \<and> map lm_config_dir (la_members manifest) = snapshot_dirs snap \<and> list_all2 member_agrees (la_members manifest) (host_members h)
    \<and> (la_pool manifest, la_host manifest, la_generation manifest, la_revision manifest, la_restart_path manifest)
      = (host_pool h, host_id h, host_generation h, host_membership_rev h, ph_restart_path h)
    \<and> (\<forall>pid basis. 0 < pid \<longrightarrow> valid_basis_fingerprint basis \<longrightarrow> known_host_of (h\<lparr>host_pid := pid, host_basis := basis\<rparr>) snap)"
proof -
  have rows: "valid_rows (snap_members snap)" "\<not> blank (snap_revision snap)" using snap by (simp_all add: good_snapshot_def)
  have valid: "list_all valid_member (snap_members snap)" using rows by (simp add: valid_rows_def list_all_iff)
  obtain xs where xs: "members_from env (snap_members snap) = Ok xs"
    "map (lm_config_dir \<circ> fst) xs = map config_dir (snap_members snap)"
    "\<forall>x \<in> set xs. sound_pair x"
    by (rule members_from_sane [OF env valid])
  define dir where "dir = join_path [root, ''jvm-pools'', ''hosts'', artifact_key sha256 (snap_pool snap)]"
  have "validate_canonical_path ''state root'' root = None" "validate_pool_name (snap_pool snap) = None" using rest snap by simp_all
  then have dir: "pool_host_dir sha256 root (snap_pool snap) = Ok dir"
    by (simp add: pool_host_dir_def dir_def del: validate_canonical_path_None validate_pool_name_None)
  have "canonical dir" unfolding dir_def by (rule canonical_join [OF rest(1)])
  then have restart: "canonical (join_path [dir, pool_restart_file])" by (rule canonical_join)
  have ne: "xs \<noteq> []" using xs(2) snap(2) by auto
  have dirs: "map (member_dir \<circ> snd) xs = map config_dir (snap_members snap)"
    unfolding xs(2) [symmetric] using xs(3) by (auto simp: sound_pair_def member_agrees_def)
  have "sorted_wrt (<) (map (lm_config_dir \<circ> fst) xs)"
    unfolding xs(2) using rows(1) by (simp add: valid_rows_def strict_sorted_on_def sorted_wrt_map)
  then have "strict_sorted_on lm_config_dir (map fst xs)" by (simp add: strict_sorted_on_def sorted_wrt_map)
  then have checked: "check_sorted validate_launch_member lm_config_dir (\<lambda>x. LaunchDuplicate (lm_config_dir x)) LaunchUnsorted [] (map fst xs) = None"
    using xs(3) by (simp add: check_sorted_None sound_pair_def)
  have sorted_dirs: "strict_sorted_on config_dir (snap_members snap)" using rows(1) by (simp add: valid_rows_def)
  have good_dirs: "list_all canonical (map (member_dir \<circ> snd) xs)" "distinct (map (member_dir \<circ> snd) xs)"
    unfolding dirs using valid sorted_dirs by (auto simp: list_all_iff valid_member_def strict_sorted_on_iff)
  obtain manifest h where mk: "pool_host_from_snapshot sha256 root version ids env source snap = Ok (manifest, h)"
    by (simp add: pool_host_from_snapshot_def snap dir xs Let_def)
  then have parts: "la_members manifest = map fst xs" "host_members h = map snd xs"
    "la_format manifest = launch_format" "la_version manifest = version" "la_source manifest = source"
    "la_restart_path manifest = join_path [dir, pool_restart_file]" "ph_restart_path h = join_path [dir, pool_restart_file]"
    "(la_pool manifest, la_host manifest, la_generation manifest, la_revision manifest) = (snap_pool snap, hi_host ids, hi_generation ids, snap_revision snap)"
    "(host_pool h, host_id h, host_generation h, host_membership_rev h) = (snap_pool snap, hi_host ids, hi_generation ids, snap_revision snap)"
    by (auto simp: pool_host_from_snapshot_def snap dir xs Let_def)
  have nb: "\<not> blank (join_path [dir, pool_restart_file])" "\<not> blank source" using restart rest(2) canonical_not_blank by blast+
  have "validate_launch_manifest manifest = None"
    using parts restart rest snap rows(2) ne nb checked by (simp add: validate_launch_manifest_def canonical_def)
  moreover have "map lm_config_dir (la_members manifest) = snapshot_dirs snap" using parts(1) xs(2) by (simp add: snapshot_dirs_def)
  moreover have "list_all2 member_agrees (la_members manifest) (host_members h)"
    unfolding parts using xs(3) by (auto simp: sound_pair_def list_all2_map1 list_all2_map2 intro: list.rel_refl_strong)
  moreover have "known_host_of (h\<lparr>host_pid := pid, host_basis := basis\<rparr>) snap" if p: "0 < pid" "valid_basis_fingerprint basis" for pid basis
  proof -
    have "basis \<noteq> []" using fingerprint_not_blank [OF p(2)] by simp
    then show ?thesis
      unfolding known_host_of_def using p parts rest snap ne good_dirs dirs xs(3)
      by (simp add: host_basis_of_def pool_config_dirs_def snapshot_dirs_def restart_member_of_def sound_pair_def comp_def)
  qed
  ultimately show ?thesis using mk parts by auto
qed

definition demo_snap :: pool_snapshot where
  "demo_snap = \<lparr>snap_pool = ''p'', snap_revision = ''r'', snap_members = [\<lparr>config_dir = ''/w'', source_cwd = ''/s'', jvm_pool = ''p''\<rparr>]\<rparr>"

definition demo_member_env :: "string \<Rightarrow> member_env" where
  "demo_member_env dir =
     \<lparr>me_world = Some \<lparr>w_config_dir = dir, w_state_dir = ''/t'', w_data_dir = ''/d'', w_config_file = [], w_db_path = []\<rparr>, me_state_dir = Some ''/t'',
      me_data_dir = Some ''/d'', me_name = Some ''n'', me_weaver = ''v'', me_generation = ''g'', me_dependency = ''/q''\<rparr>"

theorem host_of_snapshot_witness:
  "\<exists>manifest h. pool_host_from_snapshot demo_sha ''/r'' ''1'' \<lparr>hi_host = ''h'', hi_generation = ''g'', hi_token = ''k''\<rparr> demo_member_env ''/m'' demo_snap
     = Ok (manifest, h) \<and> validate_launch_manifest manifest = None"
proof -
  have c: "canonical ''/w''" "canonical ''/s''" "canonical ''/t''" "canonical ''/d''" "canonical ''/q''" "canonical ''/r''" "canonical ''/m''"
    by code_simp+
  have "good_snapshot demo_snap" "snap_members demo_snap \<noteq> []" "\<not> blank (snap_pool demo_snap)"
    using c by (simp_all add: good_snapshot_def demo_snap_def valid_rows_def valid_member_def strict_sorted_on_def is_space_def)
  moreover have "\<forall>m \<in> set (snap_members demo_snap). sane_env (config_dir m) (demo_member_env (config_dir m))"
    using c by (simp add: sane_env_def demo_member_env_def demo_snap_def is_space_def)
  moreover have "\<not> blank ''1''" "\<not> blank ''h''" "\<not> blank ''g''" by (simp_all add: is_space_def)
  ultimately show ?thesis
    using host_of_snapshot [where snap = demo_snap and env = demo_member_env and root = "''/r''" and source = "''/m''" and version = "''1''"
        and ids = "\<lparr>hi_host = ''h'', hi_generation = ''g'', hi_token = ''k''\<rparr>" and ?sha256.0 = demo_sha] c
    by auto
qed

lemma reconcile_owner:
  assumes "reconcile env m live f = (f', Ok mu)" and "live (config_dir m) = Some owner"
  shows "owner_pool owner = jvm_pool m"
  using assms by (auto simp: reconcile_def split: option.splits sum.splits if_splits)

lemma remove_owner:
  assumes "Jvm_Pool.remove env dir live f = (f', Ok mu)"
  shows "live dir = None"
  using assms by (auto simp: remove_def split: option.splits sum.splits)

lemma op_ok_took:
  assumes "op_result op f = (f', Ok mu)"
  shows "op_took op f" "op_exec op f = f'"
  using assms by (simp_all add: op_took_def op_exec_def)

text \<open>C22:
  When \<open>mill init\<close> succeeds, on a registry that can be read and with a workspace, pool and working directory whose
  texts are valid UTF-8, the registry holds the workspace in the pool that is now configured, or not at all if
  none is, and every other row as before; and the workspace has not been moved under a live owner: the owner found
  before the configuration was written serves the pool that was asked for, and an owner the Mill holds at the time
  of the registry's change serves the pool that was registered.
\<close>

theorem init_sets_membership:
  assumes ok: "reg_ok reg"
    and run: "reconcile_init_pool current owner override configure reload live env cwd dir reg = (reg', Ok pool)"
    and utf8: "utf8_valid dir" "utf8_valid pool" "\<And>s. cwd = Ok s \<Longrightarrow> utf8_valid s"
  shows "reg_ok reg' \<and> (\<exists>source. (pool \<noteq> [] \<longrightarrow> cwd = Ok source)
      \<and> registered reg' = (registered reg)(dir := if pool = [] then None else Some \<lparr>config_dir = dir, source_cwd = source, jvm_pool = pool\<rparr>))
    \<and> (\<exists>effective. reload = Ok effective \<and> pool = (case effective of None \<Rightarrow> [] | Some p \<Rightarrow> p))
    \<and> (\<forall>h. owner = Ok (Some h) \<longrightarrow> (case override of Some p \<Rightarrow> owner_pool h = p | None \<Rightarrow> configured_pool current = Ok (owner_pool h)))
    \<and> (\<forall>h. live dir = Some h \<longrightarrow> pool \<noteq> [] \<and> owner_pool h = pool)"
proof -
  obtain configured host effective where parts: "configured_pool current = Ok configured" "owner = Ok host" "reload = Ok effective"
    "\<forall>h. host = Some h \<longrightarrow> owner_pool h = (case override of None \<Rightarrow> configured | Some p \<Rightarrow> p)"
    and rec: "reconcile_membership live env cwd dir (case effective of None \<Rightarrow> [] | Some p \<Rightarrow> p) reg = (reg', Ok pool)"
    using run by (auto simp: reconcile_init_pool_def Let_def split: sum.splits option.splits if_splits)
  have owners: "\<forall>h. owner = Ok (Some h) \<longrightarrow> (case override of Some p \<Rightarrow> owner_pool h = p | None \<Rightarrow> configured_pool current = Ok (owner_pool h))"
    using parts by (auto split: option.splits)
  define p where "p = (case effective of None \<Rightarrow> [] | Some p \<Rightarrow> p)"
  show ?thesis
  proof (cases "p = []")
    case True
    then obtain mu where rm: "Jvm_Pool.remove env dir live reg = (reg', Ok mu)" and pool: "pool = []"
      using rec unfolding p_def [symmetric] by (auto simp: reconcile_membership_def split: prod.splits sum.splits)
    have op: "op_result (Remove env dir live) reg = (reg', Ok mu)" using rm by simp
    note run' = op_ok_took [OF op]
    have "registered reg' = (registered reg)(dir := None)"
      using registry.exec_view [OF ok, of "Remove env dir live"] run' by simp
    moreover have "reg_ok reg'" using registry.exec_inv [OF ok, of "Remove env dir live"] run' by simp
    ultimately show ?thesis using pool True owners parts remove_owner [OF rm] unfolding p_def by auto
  next
    case False
    then obtain source mu where src: "cwd = Ok source" and pool: "pool = p"
      and rc: "reconcile env \<lparr>config_dir = dir, source_cwd = source, jvm_pool = p\<rparr> live reg = (reg', Ok mu)"
      using rec unfolding p_def [symmetric] by (auto simp: reconcile_membership_def split: prod.splits sum.splits)
    let ?op = "Reconcile env \<lparr>config_dir = dir, source_cwd = source, jvm_pool = p\<rparr> live"
    have op: "op_result ?op reg = (reg', Ok mu)" using rc by simp
    note run' = op_ok_took [OF op]
    have adm: "op_admissible ?op" using utf8 src pool by (simp add: utf8_member_def)
    have "registered reg' = (registered reg)(dir \<mapsto> \<lparr>config_dir = dir, source_cwd = source, jvm_pool = p\<rparr>)"
      using registry.exec_view [OF ok adm] run' by simp
    moreover have "reg_ok reg'" using registry.exec_inv [OF ok adm] run' by simp
    moreover have "\<forall>h. live dir = Some h \<longrightarrow> owner_pool h = p" using reconcile_owner [OF rc] by auto
    ultimately show ?thesis using pool False owners parts src unfolding p_def by auto
  qed
qed

theorem init_sets_membership_witness:
  "\<exists>reg'. reconcile_init_pool (Ok None) (Ok None) (Some ''backend'') (\<lambda>_. None) (Ok (Some ''backend'')) Map.empty Jvm_Pool.demo_env (Ok ''/w'') ''/w/a'' Absent
       = (reg', Ok ''backend'') \<and> registered reg' = [''/w/a'' \<mapsto> Jvm_Pool.demo_member]"
proof -
  obtain reg' mu where r: "reconcile Jvm_Pool.demo_env Jvm_Pool.demo_member Map.empty Absent = (reg', Ok mu)"
    by (rule demo_reconcile_ok)
  have init: "reconcile_init_pool (Ok None) (Ok None) (Some ''backend'') (\<lambda>_. None) (Ok (Some ''backend'')) Map.empty Jvm_Pool.demo_env (Ok ''/w'') ''/w/a'' Absent
       = (reg', Ok ''backend'')"
    using r by (simp add: reconcile_init_pool_def configured_pool_def reconcile_membership_def Jvm_Pool.demo_member_def)
  have "reg_ok Absent" by (simp add: reg_ok_def)
  from init_sets_membership [OF this init] have "registered reg' = (registered Absent)(''/w/a'' \<mapsto> Jvm_Pool.demo_member)"
    by (auto simp: utf8_valid_ascii Jvm_Pool.demo_member_def)
  with init show ?thesis by (auto simp: registered_def)
qed

end
