(* ===== verification/Restart.thy ===== *)
theory Restart
  imports Weaver_Status
begin

text \<open>
  The restart of a Weaver (\<open>cli/cmd/mill/restart.go\<close>, \<open>launchReplacement\<close> and
  \<open>stopFailedReplacement\<close> in \<open>restart_process.go\<close>): the admission of a restart by \<open>restartWeaver\<close>, and
  the goroutine \<open>runRestartTransition\<close> with its failure paths as a machine whose steps are the critical
  sections of the code.

  A transition and a child are objects with an identity: a transition is named by its id, a child by
  its launch token (both are drawn at random by the code).  The files, the process table, the clock
  and the texts of errors reach a step through its inputs.
\<close>

section \<open>State\<close>

record transition =
  t_world :: world
  t_old :: "weaver_child option"
  t_id :: string
  t_epoch :: nat
  t_state :: string
  t_cutover :: bool
  t_generation :: string
  t_probe :: "probe_result option"
  t_retry :: bool
  t_old_stopped :: bool
  t_result :: "status option"
  t_err :: "string option"
  t_closed :: nat \<comment> \<open>how often \<open>done\<close> was closed\<close>

text \<open>Where the goroutine of a transition stands.\<close>

datatype phase =
    Registered
  | Verifying
  | CutOver probe_result
  | Stopping probe_result
  | Stopped probe_result
  | Releasing probe_result
  | Launching probe_result
  | Starting probe_result weaver_child
  | Awaiting probe_result weaver_child
  | Publishing probe_result weaver_child status
  | ProbeFailing "probe_result option" string
  | Failing string string string object \<comment> \<open>stage, message, log, dependency diagnostic\<close>
  | Completing "status option" "string option" bool
  | Finished

record mill = server +
  m_transitions :: "(string \<times> string) list" \<comment> \<open>by config directory\<close>
  m_heap :: "(string \<times> transition) list"
  m_runs :: "(string \<times> phase) list"
  m_claims :: "string list"
  m_epochs :: "(string \<times> nat) list"
  m_disk :: "(string \<times> document_text) list" \<comment> \<open>restart records by state directory\<close>

record inputs =
  in_now :: string
  in_io :: bool \<comment> \<open>writing the record succeeds\<close>
  in_unreadable :: bool \<comment> \<open>the record exists and cannot be read\<close>
  in_text :: string \<comment> \<open>the text of the error of this step, if it has one\<close>
  in_configured :: "(unit, string) result"
  in_env :: host_env
  in_metadata :: metadata_file
  in_metadata2 :: metadata_file \<comment> \<open>a second reading in the same step\<close>
  in_fails :: bool \<comment> \<open>preparing or starting the step's work fails\<close>
  in_probe :: "probe_result option" \<comment> \<open>\<open>None\<close> when the probe could not be run\<close>
  in_name :: string \<comment> \<open>the name the request asks for\<close>
  in_pid :: int
  in_polls :: "poll list"
  in_sights :: "sight \<times> sight \<times> sight"
  in_gone :: "bool \<times> bool"
  in_artifact :: artifact_file
  in_removable :: "string \<Rightarrow> bool"
  in_dependency :: object

definition record_outcome :: "inputs \<Rightarrow> mill \<Rightarrow> world \<Rightarrow> (record_error, restart_record option) result" where
  "record_outcome i m w =
     read_restart_record (if in_unreadable i then Inl () else Inr (map_of (m_disk m) (w_state_dir w)))"

definition read_status :: "inputs \<Rightarrow> metadata_file \<Rightarrow> mill \<Rightarrow> world \<Rightarrow> view" where
  "read_status i file m w = read_status_with (in_configured i) (in_env i) w file (Some (record_outcome i m w))"

definition put_transition :: "string \<Rightarrow> transition \<Rightarrow> mill \<Rightarrow> mill" where
  "put_transition ident t m = m\<lparr>m_heap := AList.update ident t (m_heap m)\<rparr>"

definition put_phase :: "string \<Rightarrow> phase \<Rightarrow> mill \<Rightarrow> mill" where
  "put_phase ident ph m = m\<lparr>m_runs := AList.update ident ph (m_runs m)\<rparr>"

text \<open>\<open>releaseChild\<close>.\<close>

definition release_child :: "string \<Rightarrow> weaver_child \<Rightarrow> mill \<Rightarrow> bool \<times> mill" where
  "release_child dir c m =
     (case map_of (children m) dir of
        None \<Rightarrow> (False, m)
      | Some c' \<Rightarrow>
          if child_launch_token c' \<noteq> child_launch_token c then (False, m)
          else (True, m\<lparr>children := AList.delete dir (children m)\<rparr>))"

section \<open>Transitions\<close>

text \<open>\<open>setTransitionState\<close>: the new state of the transition object, its record, and the write.\<close>

definition enter_state :: "string \<Rightarrow> probe_result option \<Rightarrow> transition \<Rightarrow> transition" where
  "enter_state state probe t =
     t\<lparr>t_state := state, t_cutover := t_cutover t \<or> state = state_restarting,
       t_probe := (case probe of None \<Rightarrow> t_probe t | Some p \<Rightarrow> Some p)\<rparr>"

definition transition_record :: "restart_failure option \<Rightarrow> transition \<Rightarrow> restart_record" where
  "transition_record failure t =
     \<lparr>rr_state = t_state t, rr_transition = t_id t, rr_generation = t_generation t,
      rr_previous_generation = (case t_old t of None \<Rightarrow> [] | Some c \<Rightarrow> child_generation c),
      rr_previous_weaver = (case t_old t of None \<Rightarrow> [] | Some c \<Rightarrow> id_weaver (child_identity c)),
      rr_updated_at = [], rr_old_stopped = t_old_stopped t, rr_probe = t_probe t, rr_failure = failure,
      rr_generation_present = False, rr_old_stopped_present = False\<rparr>"

definition set_transition_state ::
    "inputs \<Rightarrow> string \<Rightarrow> string \<Rightarrow> probe_result option \<Rightarrow> restart_failure option \<Rightarrow> transition \<Rightarrow> mill
     \<Rightarrow> bool \<times> transition \<times> mill" where
  "set_transition_state i ident state probe failure t m =
     (let t' = enter_state state probe t;
          dir = w_state_dir (t_world t);
          (err, file') = write_restart_record (in_now i) (in_io i) (transition_record failure t') (map_of (m_disk m) dir);
          m' = put_transition ident t' m
      in (err = None, t',
          case file' of None \<Rightarrow> m' | Some text \<Rightarrow> m'\<lparr>m_disk := AList.update dir text (m_disk m')\<rparr>))"

definition complete_transition ::
    "string \<Rightarrow> status option \<Rightarrow> string option \<Rightarrow> bool \<Rightarrow> transition \<Rightarrow> mill \<Rightarrow> mill" where
  "complete_transition ident result err retain t m =
     (let dir = w_config_dir (t_world t);
          m' = put_transition ident (t\<lparr>t_result := result, t_err := err, t_closed := t_closed t + 1\<rparr>) m
      in if \<not> retain \<and> map_of (m_transitions m') dir = Some ident
         then m'\<lparr>m_transitions := AList.delete dir (m_transitions m')\<rparr> else m')"

definition admitted_generation_status :: "inputs \<Rightarrow> mill \<Rightarrow> transition \<Rightarrow> status" where
  "admitted_generation_status i m t =
     (let w = t_world t;
          fallback = boundary_status w (base_status_with_name (in_configured i) w state_probing [])
      in case t_old t of
           None \<Rightarrow> fallback
         | Some c \<Rightarrow>
             (case fresh_status (read_status i (in_metadata i) m w) of
                None \<Rightarrow> fallback
              | Some st \<Rightarrow>
                  boundary_status w
                    (put True ''restart_state'' (SV (JStr state_probing))
                      (put True ''transition_id'' (SV (JStr (t_id t)))
                        (put True ''generation_id'' (SV (JStr (child_generation c))) st)))))"

text \<open>\<open>transitionResultStatusDetailed\<close> and \<open>transitionResultStatus\<close>.\<close>

definition transition_result_status_detailed :: "(unit, string) result \<Rightarrow> transition \<Rightarrow> status" where
  "transition_result_status_detailed configured t =
     (case t_result t of
        Some st \<Rightarrow> boundary_status (t_world t) st
      | None \<Rightarrow> boundary_status (t_world t)
          (put True ''transition_id'' (SV (JStr (t_id t))) (base_status configured (t_world t) (t_state t))))"

definition transition_result_status :: "(unit, string) result \<Rightarrow> transition \<Rightarrow> status" where
  "transition_result_status configured t =
     (let st = transition_result_status_detailed configured t;
          st = (case map_of st ''failure'' of
                  None \<Rightarrow> st
                | Some f \<Rightarrow> AList.delete ''failure'' (put True ''restart_failure'' f st))
      in AList.delete ''diagnostics'' (AList.delete ''probe'' st))"

section \<open>Admission of a restart\<close>

datatype refusal =
    NegativeTimeout int
  | TemporaryWeaver
  | RouteFailed string
  | StopRequired string string
  | RecordUnusable record_error
  | NotRetryable
  | StillLive
  | PidUnusable
  | IdentityUnusable identity_error
  | StaleMetadata
  | NoRunningWeaver

datatype answer = Refused refusal | JoinClaim | JoinTransition string | StartedTransition string | PooledRestart string

text \<open>
  The choice between an isolated and a pooled restart.  What the registry, the configuration and the
  discovery of hosts answered: the live host of the workspace, the configured pool, the recorded host
  of the workspace, the pool the registry names for it, and the live host of that pool when it has the
  workspace as a member.
\<close>

type_synonym host_ref = "string \<times> string" \<comment> \<open>pool and host id\<close>

definition restart_route ::
    "(string, host_ref option) result \<Rightarrow> (string, string) result \<Rightarrow> host_ref option
     \<Rightarrow> (string, string option) result \<Rightarrow> (string, host_ref option) result \<Rightarrow> answer option" where
  "restart_route live configured member registered discovered =
     (case live of
        Inl e \<Rightarrow> Some (Refused (RouteFailed e))
      | Inr host \<Rightarrow>
          (case configured of
             Inl e \<Rightarrow> Some (Refused (RouteFailed e))
           | Inr pool \<Rightarrow>
               if (case host of None \<Rightarrow> False | Some (p, h) \<Rightarrow> p \<noteq> pool)
               then Some (Refused (StopRequired (fst (the host)) (snd (the host))))
               else if pool \<noteq> [] then Some (PooledRestart pool)
               else (case member of
                 Some (p, h) \<Rightarrow> Some (Refused (StopRequired p h))
               | None \<Rightarrow>
                   (case registered of
                      Inl e \<Rightarrow> Some (Refused (RouteFailed e))
                    | Inr None \<Rightarrow> None
                    | Inr (Some p) \<Rightarrow>
                        (case discovered of
                           Inl e \<Rightarrow> Some (Refused (RouteFailed e))
                         | Inr None \<Rightarrow> None
                         | Inr (Some (_, h)) \<Rightarrow> Some (Refused (StopRequired p h)))))))"

text \<open>The checks before the admission.\<close>

definition restart_guard :: "mill \<Rightarrow> world \<Rightarrow> int \<Rightarrow> answer option \<Rightarrow> answer option" where
  "restart_guard m w ready_timeout_ms route =
     (if ready_timeout_ms < 0 then Some (Refused (NegativeTimeout ready_timeout_ms))
      else if w_config_dir w \<in> set (m_claims m) then Some JoinClaim
      else if (case map_of (children m) (w_config_dir w) of None \<Rightarrow> False | Some c \<Rightarrow> child_temporary c)
      then Some (Refused TemporaryWeaver)
      else route)"

definition living :: "inputs \<Rightarrow> weaver_child \<Rightarrow> bool" where
  "living i c = (case child_cmd c of None \<Rightarrow> False | Some pid \<Rightarrow> env_alive (in_env i) pid)"

text \<open>\<open>fmt.Sprint\<close> of a status entry that is a string or absent.\<close>

definition sprint :: "status_value option \<Rightarrow> string" where
  "sprint v = (case text_entry v of None \<Rightarrow> ''<nil>'' | Some s \<Rightarrow> s)"

text \<open>The record of a failed replacement launch that may be tried again.\<close>

definition retryable :: "restart_record \<Rightarrow> bool" where
  "retryable r \<longleftrightarrow> probe_succeeded r \<and> rr_old_stopped r \<and> rr_failure r \<noteq> None \<and> stage_of r = ''launch''"

text \<open>
  A Weaver the Mill does not supervise, found through its metadata; without a usable identity the
  restart is refused.
\<close>

definition adopt :: "world \<Rightarrow> status \<Rightarrow> (refusal, weaver_child) result" where
  "adopt w st =
     (case int_entry (map_of st ''pid'') of
        None \<Rightarrow> Err PidUnusable
      | Some pid \<Rightarrow>
          if pid \<le> 0 then Err PidUnusable
          else (case identity_from_status st of
            Inl e \<Rightarrow> Err (IdentityUnusable e)
          | Inr ident \<Rightarrow>
              Ok \<lparr>child_cmd = Some pid, child_world = w, child_name = sprint (map_of st ''name''),
                 child_identity = ident, child_temporary = False, child_unsupervised = True,
                 child_generation = sprint (map_of st ''generation_id''), child_launch_token = [],
                 child_startup_weaver = []\<rparr>))"

text \<open>The old child, if any, and the record of the replacement to be retried, if any.\<close>

definition restart_subject :: "inputs \<Rightarrow> world \<Rightarrow> mill \<Rightarrow> (refusal, weaver_child option \<times> restart_record option) result" where
  "restart_subject i w m =
     (case map_of (children m) (w_config_dir w) of
        Some c \<Rightarrow> Ok (Some c, None)
      | None \<Rightarrow>
          (case record_outcome i m w of
             Inl e \<Rightarrow> Err (RecordUnusable e)
           | Inr found \<Rightarrow>
               let failed = (case found of None \<Rightarrow> None | Some r \<Rightarrow> if rr_state r = state_failed then Some r else None) in
               if (case failed of None \<Rightarrow> False | Some r \<Rightarrow> \<not> retryable r) then Err NotRetryable
               else (case fresh_status (read_status i (in_metadata i) m w) of
                 Some st \<Rightarrow>
                   if failed \<noteq> None then Err StillLive
                   else (case adopt w st of Inl e \<Rightarrow> Err e | Inr c \<Rightarrow> Ok (Some c, None))
               | None \<Rightarrow>
                   if snd (read_status i (in_metadata2 i) m w) then Err StaleMetadata
                   else if failed = None then Err NoRunningWeaver
                   else Ok (None, failed))))"

text \<open>
  The critical section of \<open>restartWeaver\<close> up to the registration of the transition; \<open>ident\<close> and
  \<open>generation\<close> are the ids drawn.
\<close>

definition restart_fresh :: "inputs \<Rightarrow> string \<Rightarrow> string \<Rightarrow> world \<Rightarrow> mill \<Rightarrow> answer \<times> mill" where
  "restart_fresh i ident generation w m =
     (let dir = w_config_dir w in
      if (case map_of (children m) dir of None \<Rightarrow> False | Some c \<Rightarrow> child_temporary c) then (Refused TemporaryWeaver, m)
      else
        let m = (case map_of (children m) dir of
                   None \<Rightarrow> m
                 | Some c \<Rightarrow> if living i c then m else m\<lparr>children := AList.delete dir (children m)\<rparr>) in
        (case restart_subject i w m of
           Inl e \<Rightarrow> (Refused e, m)
         | Inr (old, retry) \<Rightarrow>
             let epoch = (case map_of (m_epochs m) dir of None \<Rightarrow> 1 | Some n \<Rightarrow> n + 1);
                 old' = map_option (\<lambda>c. if child_generation c = [] then c\<lparr>child_generation := generation\<rparr> else c) old;
                 t = \<lparr>t_world = w, t_old = old', t_id = ident, t_epoch = epoch,
                      t_state = (if retry = None then state_probing else state_restarting), t_cutover = False,
                      t_generation = (case old' of Some c \<Rightarrow> child_generation c
                                                 | None \<Rightarrow> (case retry of None \<Rightarrow> [] | Some r \<Rightarrow> rr_generation r)),
                      t_probe = (case retry of None \<Rightarrow> None | Some r \<Rightarrow> rr_probe r), t_retry = retry \<noteq> None,
                      t_old_stopped = (case retry of None \<Rightarrow> False | Some r \<Rightarrow> rr_old_stopped r),
                      t_result = None, t_err = None, t_closed = 0\<rparr>;
                 m = put_phase ident Registered (put_transition ident t m)
             in (StartedTransition ident,
                 m\<lparr>m_epochs := AList.update dir epoch (m_epochs m),
                   m_transitions := AList.update dir ident (m_transitions m),
                   children := (case old' of
                       Some c \<Rightarrow> if child_unsupervised c then children m else AList.update dir c (children m)
                     | None \<Rightarrow> children m)\<rparr>)))"

definition restart_admit :: "inputs \<Rightarrow> string \<Rightarrow> string \<Rightarrow> world \<Rightarrow> mill \<Rightarrow> answer \<times> mill" where
  "restart_admit i ident generation w m =
     (let dir = w_config_dir w in
      if dir \<in> set (m_claims m) then (JoinClaim, m)
      else (case (case map_of (m_transitions m) dir of None \<Rightarrow> None | Some e \<Rightarrow> map_option (Pair e) (map_of (m_heap m) e)) of
        Some (e, t) \<Rightarrow>
          if t_state t \<noteq> state_failed then (JoinTransition e, m)
          else restart_fresh i ident generation w (m\<lparr>m_transitions := AList.delete dir (m_transitions m)\<rparr>)
      | None \<Rightarrow> restart_fresh i ident generation w m))"

section \<open>The transition machine\<close>

text \<open>The failure of a probe that could not be run, as \<open>failProbe\<close> records it.\<close>

definition transport_probe :: "world \<Rightarrow> string \<Rightarrow> probe_result" where
  "transport_probe w message =
     \<lparr>pr_success = False, pr_stage = ''probe/failure'', pr_workspace = w_state_dir w, pr_source = w_config_dir w,
      pr_completed = [],
      pr_diagnostics = [[(''stage'', JStr ''probe/transport''), (''status'', JStr ''failed''),
                         (''data'', JObj [(''message'', JStr message)])]],
      pr_log = weaver_log_path (w_state_dir w)\<rparr>"

definition plain_failure_of :: "string \<Rightarrow> string \<Rightarrow> string \<Rightarrow> restart_failure" where
  "plain_failure_of stage message log = \<lparr>rf_stage = stage, rf_message = message, rf_log = log, rf_evidence = []\<rparr>"

text \<open>The status of a refused transition: the old generation serves on, the command reports the failure.\<close>

definition probe_failed_status :: "inputs \<Rightarrow> mill \<Rightarrow> transition \<Rightarrow> string \<Rightarrow> status" where
  "probe_failed_status i m t message =
     (let st = admitted_generation_status i m t;
          generation = (case entry st ''generation_id'' of SV v \<Rightarrow> v | _ \<Rightarrow> JNull);
          row = [(''stage'', JStr ''probe''), (''status'', JStr ''failed''),
                 (''data'', JObj [(''message'', JStr message), (''generation_id'', generation), (''transition_id'', JStr (t_id t))])]
      in boundary_status (t_world t)
           (put True ''diagnostics'' (SV (JArr [JObj row]))
             (put True ''restart_state'' (SV (JStr state_failed)) (put True ''probe_error'' (SV (JStr message)) st))))"

text \<open>The status of a failed replacement.\<close>

definition restart_failed_status :: "inputs \<Rightarrow> transition \<Rightarrow> restart_failure \<Rightarrow> object \<Rightarrow> status" where
  "restart_failed_status i t f dependency =
     (let data = [(''message'', JStr (rf_message f)), (''log_path'', JStr (rf_log f))]
                 @ (if dependency = [] then [] else [(''dependency'', JObj dependency)]);
          row = [(''stage'', JStr (rf_stage f)), (''status'', JStr ''failed''), (''data'', JObj data)]
      in boundary_status (t_world t)
           (put True ''diagnostics'' (SV (JArr [JObj row])) (put True ''failure'' (SFailure f)
             (put True ''transition_id'' (SV (JStr (t_id t))) (base_status (in_configured i) (t_world t) state_failed)))))"

text \<open>
  The first durable write.  When it fails, the old generation stays admitted; a retry, which has none,
  keeps its transition.
\<close>

definition begin_step :: "inputs \<Rightarrow> string \<Rightarrow> transition \<Rightarrow> mill \<Rightarrow> mill" where
  "begin_step i ident t m =
     (case set_transition_state i ident (t_state t) (if t_retry t then t_probe t else None) None t m of
        (ok, t', m') \<Rightarrow>
          if ok then put_phase ident Verifying m'
          else if t_old t \<noteq> None \<and> \<not> t_retry t then
            (let t'' = t'\<lparr>t_state := state_running, t_probe := None\<rparr>;
                 m'' = put_transition ident t'' m';
                 st = put True ''probe_error'' (SV (JStr (in_text i)))
                        (put True ''restart_state'' (SV (JStr state_running)) (admitted_generation_status i m'' t''))
             in put_phase ident (Completing (Some st) (Some (in_text i)) False) m'')
          else put_phase ident (Completing None (Some (in_text i)) True) m')"

text \<open>Resolving the source and probing; \<open>in_fails\<close> when the source cannot be resolved.\<close>

definition verify_step :: "inputs \<Rightarrow> string \<Rightarrow> transition \<Rightarrow> mill \<Rightarrow> mill" where
  "verify_step i ident t m =
     (if in_fails i then put_phase ident (ProbeFailing None (in_text i)) m
      else if t_retry t then
        (case t_probe t of
           Some p \<Rightarrow> if pr_success p then put_phase ident (CutOver p) m
                     else put_phase ident (Failing ''probe'' ''replacement retry has no successful probe'' [] []) m
         | None \<Rightarrow> put_phase ident (Failing ''probe'' ''replacement retry has no successful probe'' [] []) m)
      else (case in_probe i of
              None \<Rightarrow> put_phase ident (ProbeFailing None (in_text i)) m
            | Some p \<Rightarrow>
                if pr_success p then put_phase ident (CutOver p) m
                else put_phase ident (ProbeFailing (Some p) (''restart probe failed at '' @ pr_stage p)) m))"

definition cut_over_step :: "inputs \<Rightarrow> string \<Rightarrow> probe_result \<Rightarrow> transition \<Rightarrow> mill \<Rightarrow> mill" where
  "cut_over_step i ident p t m =
     (case set_transition_state i ident state_restarting (Some p) None t m of
        (ok, t', m') \<Rightarrow>
          if \<not> ok then put_phase ident (Failing ''state'' (in_text i) (pr_log p) []) m'
          else if t_old t = None then put_phase ident (Launching p) m'
          else put_phase ident (Stopping p) m')"

definition stop_step :: "inputs \<Rightarrow> string \<Rightarrow> probe_result \<Rightarrow> transition \<Rightarrow> mill \<Rightarrow> mill" where
  "stop_step i ident p t m =
     (case in_sights i of
        (see, see1, see2) \<Rightarrow>
          (case stop_recorded_generation (t_old t) (t_world t) see see1 (fst (in_gone i)) see2 (snd (in_gone i))
                  (in_artifact i) (in_removable i) of
             (Some e, _) \<Rightarrow> put_phase ident (Failing ''stop'' (in_text i) (pr_log p) []) m
           | (None, _) \<Rightarrow> put_phase ident (Stopped p) (put_transition ident (t\<lparr>t_old_stopped := True\<rparr>) m)))"

definition stopped_step :: "inputs \<Rightarrow> string \<Rightarrow> probe_result \<Rightarrow> transition \<Rightarrow> mill \<Rightarrow> mill" where
  "stopped_step i ident p t m =
     (case set_transition_state i ident state_restarting (Some p) None t m of
        (ok, t', m') \<Rightarrow>
          if ok then put_phase ident (Releasing p) m'
          else put_phase ident (Failing ''state'' (in_text i) [] []) m')"

definition release_step :: "string \<Rightarrow> probe_result \<Rightarrow> transition \<Rightarrow> mill \<Rightarrow> mill" where
  "release_step ident p t m =
     put_phase ident (Launching p)
       (case t_old t of None \<Rightarrow> m | Some c \<Rightarrow> snd (release_child (w_config_dir (t_world t)) c m))"

text \<open>
  \<open>launchReplacement\<close>: the preparations and the registration of the child; its start; the wait for its
  metadata and, when that fails, \<open>stopFailedReplacement\<close>.
\<close>

definition launch_step :: "inputs \<Rightarrow> string \<Rightarrow> string \<Rightarrow> string \<Rightarrow> probe_result \<Rightarrow> transition \<Rightarrow> mill \<Rightarrow> mill" where
  "launch_step i token generation ident p t m =
     (let w = t_world t; dir = w_config_dir w in
      if in_fails i then put_phase ident (Failing ''launch'' (in_text i) [] []) m
      else if map_of (children m) dir \<noteq> None
      then put_phase ident (Failing ''launch'' (in_text i) (weaver_log_path (w_state_dir w)) []) m
      else
        let c = \<lparr>child_cmd = None, child_world = w,
                 child_name = (case friendly_name (in_configured i) w (in_name i) of None \<Rightarrow> [] | Some n \<Rightarrow> n),
                 child_identity = \<lparr>id_pid = 0, id_weaver = [], id_generation = [], id_started_at = [], id_socket = [],
                                   id_config_dir = [], id_state_dir = [], id_data_dir = []\<rparr>,
                 child_temporary = False, child_unsupervised = False, child_generation = generation,
                 child_launch_token = token, child_startup_weaver = []\<rparr>
        in put_phase ident (Starting p c) (m\<lparr>children := AList.update dir c (children m)\<rparr>))"

definition update_child :: "string \<Rightarrow> weaver_child \<Rightarrow> mill \<Rightarrow> mill" where
  "update_child dir c m =
     (case map_of (children m) dir of
        Some c' \<Rightarrow> if child_launch_token c' = child_launch_token c
                   then m\<lparr>children := AList.update dir c (children m)\<rparr> else m
      | None \<Rightarrow> m)"

definition start_step :: "inputs \<Rightarrow> string \<Rightarrow> probe_result \<Rightarrow> weaver_child \<Rightarrow> transition \<Rightarrow> mill \<Rightarrow> mill" where
  "start_step i ident p c t m =
     (let w = t_world t; dir = w_config_dir w in
      if in_fails i then
        put_phase ident (Failing ''launch'' (in_text i) (weaver_log_path (w_state_dir w)) []) (snd (release_child dir c m))
      else let c' = c\<lparr>child_cmd := Some (in_pid i)\<rparr>
           in put_phase ident (Awaiting p c') (update_child dir c' m))"

definition stop_failed_replacement :: "inputs \<Rightarrow> weaver_child \<Rightarrow> mill \<Rightarrow> bool \<times> mill" where
  "stop_failed_replacement i c m =
     (let pid = (case child_cmd c of None \<Rightarrow> 0 | Some pid \<Rightarrow> pid);
          (_, see1, see2) = in_sights i in
      case terminate_and_confirm c pid see1 (fst (in_gone i)) see2 (snd (in_gone i)) of
        (Inr True, _) \<Rightarrow>
          (case release_child (w_config_dir (child_world c)) c m of
             (released, m') \<Rightarrow>
               (released \<and> fst (cleanup_artifacts (child_world c) (child_identity c) (in_artifact i) (in_removable i)), m'))
      | _ \<Rightarrow> (False, m))"

definition await_step :: "inputs \<Rightarrow> string \<Rightarrow> probe_result \<Rightarrow> weaver_child \<Rightarrow> transition \<Rightarrow> mill \<Rightarrow> mill" where
  "await_step i ident p c t m =
     (let w = t_world t; dir = w_config_dir w; pid = (case child_cmd c of None \<Rightarrow> 0 | Some pid \<Rightarrow> pid);
          (stopped, m') = stop_failed_replacement i c m;
          fails = (\<lambda>dependency. put_phase ident
            (Failing ''launch'' (in_text i) (weaver_log_path (w_state_dir w)) (if stopped then dependency else [])) m')
      in case fst (wait_ready pid (in_polls i)) of
           Inl _ \<Rightarrow> fails (in_dependency i)
         | Inr st \<Rightarrow>
             (case identity_from_status st of
                Inl _ \<Rightarrow> fails []
              | Inr who \<Rightarrow>
                  if id_pid who \<noteq> pid then fails []
                  else let c' = c\<lparr>child_identity := who, child_generation := id_generation who\<rparr>
                       in put_phase ident (Publishing p c' (put True ''generation_id'' (SV (JStr (id_generation who))) st))
                            (update_child dir c' m)))"

definition publish_step ::
    "inputs \<Rightarrow> string \<Rightarrow> probe_result \<Rightarrow> weaver_child \<Rightarrow> status \<Rightarrow> transition \<Rightarrow> mill \<Rightarrow> mill" where
  "publish_step i ident p c st t m =
     (let t1 = t\<lparr>t_generation := child_generation c\<rparr>;
          st' = boundary_status (t_world t)
                  (put True ''probe'' (SProbe p) (put True ''transition_id'' (SV (JStr (t_id t)))
                    (put True ''generation_id'' (SV (JStr (child_generation c))) st)))
      in case set_transition_state i ident state_running (Some p) None t1 m of
           (ok, t', m') \<Rightarrow>
             if ok then put_phase ident (Completing (Some st') None False) m'
             else put_phase ident (Failing ''state'' (in_text i) (weaver_log_path (w_state_dir (t_world t))) []) m')"

text \<open>\<open>failProbe\<close> and \<open>failRestart\<close> up to the completion of the transition.\<close>

definition probe_failing_step :: "inputs \<Rightarrow> string \<Rightarrow> probe_result option \<Rightarrow> string \<Rightarrow> transition \<Rightarrow> mill \<Rightarrow> mill" where
  "probe_failing_step i ident probe message t m =
     (if t_old t = None \<or> t_retry t then put_phase ident (Failing ''probe'' message [] []) m
      else
        let p = (case probe of None \<Rightarrow> transport_probe (t_world t) message | Some p \<Rightarrow> p) in
        (case set_transition_state i ident state_running (Some p) (Some (plain_failure_of ''probe'' message [])) t m of
           (ok, t', m') \<Rightarrow>
             if ok then put_phase ident (Completing (Some (probe_failed_status i m' t' message)) None False) m'
             else
               (let st = put True ''state_write_error'' (SV (JStr (in_text i)))
                           (put True ''restart_state'' (SV (JStr state_running)) (admitted_generation_status i m' t'))
                in put_phase ident
                     (Completing (Some st) (Some (''record probe failure in restart state: '' @ in_text i)) False) m')))"

definition failing_step ::
    "inputs \<Rightarrow> string \<Rightarrow> string \<Rightarrow> string \<Rightarrow> string \<Rightarrow> object \<Rightarrow> transition \<Rightarrow> mill \<Rightarrow> mill" where
  "failing_step i ident stage message log dependency t m =
     (let f = plain_failure_of stage message log in
      case set_transition_state i ident state_failed None (Some f) t m of
        (ok, t', m') \<Rightarrow>
          (let f' = (if ok then f else f\<lparr>rf_message := message @ ''; restart state write failed: '' @ in_text i\<rparr>);
               st = restart_failed_status i t' f' dependency
           in put_phase ident (Completing (Some st) (if ok then None else Some (in_text i)) True) m'))"

definition complete_step :: "string \<Rightarrow> status option \<Rightarrow> string option \<Rightarrow> bool \<Rightarrow> transition \<Rightarrow> mill \<Rightarrow> mill" where
  "complete_step ident result err retain t m =
     put_phase ident Finished (complete_transition ident result err retain t m)"

definition run_step :: "inputs \<Rightarrow> string \<Rightarrow> string \<Rightarrow> string \<Rightarrow> mill \<Rightarrow> mill" where
  "run_step i token generation ident m =
     (case map_of (m_runs m) ident of
        None \<Rightarrow> m
      | Some ph \<Rightarrow>
          (case map_of (m_heap m) ident of
             None \<Rightarrow> m
           | Some t \<Rightarrow>
               (case ph of
                  Registered \<Rightarrow> begin_step i ident t m
                | Verifying \<Rightarrow> verify_step i ident t m
                | CutOver p \<Rightarrow> cut_over_step i ident p t m
                | Stopping p \<Rightarrow> stop_step i ident p t m
                | Stopped p \<Rightarrow> stopped_step i ident p t m
                | Releasing p \<Rightarrow> release_step ident p t m
                | Launching p \<Rightarrow> launch_step i token generation ident p t m
                | Starting p c \<Rightarrow> start_step i ident p c t m
                | Awaiting p c \<Rightarrow> await_step i ident p c t m
                | Publishing p c st \<Rightarrow> publish_step i ident p c st t m
                | ProbeFailing probe message \<Rightarrow> probe_failing_step i ident probe message t m
                | Failing stage message log dependency \<Rightarrow> failing_step i ident stage message log dependency t m
                | Completing result err retain \<Rightarrow> complete_step ident result err retain t m
                | Finished \<Rightarrow> m)))"

text \<open>
  The steps of the Mill: admissions, the steps of the goroutines in any interleaving, and what the
  handlers of start and stop do to the state the restart uses.  A start installs its claim only while
  no transition is registered and changes the entry of its child only under the claim; a stop, a
  failed start or the exit of a temporary Weaver removes an entry.
\<close>

inductive handler_step :: "mill \<Rightarrow> mill \<Rightarrow> bool" where
  admit: "ident \<notin> fst ` set (m_heap m) \<Longrightarrow> handler_step m (snd (restart_admit i ident generation w m))"
| claim: "map_of (m_transitions m) dir = None \<Longrightarrow> handler_step m (m\<lparr>m_claims := dir # m_claims m\<rparr>)"
| claimed: "dir \<in> set (m_claims m) \<Longrightarrow> handler_step m (m\<lparr>children := AList.update dir c (children m)\<rparr>)"
| unclaim: "handler_step m (m\<lparr>m_claims := filter (\<lambda>d. d \<noteq> dir) (m_claims m)\<rparr>)"
| gone: "handler_step m (m\<lparr>children := AList.delete dir (children m)\<rparr>)"
| others: "handler_step m (m\<lparr>custodies := cs, pool_hosts := hs, stopping := b\<rparr>)"

inductive mill_step :: "mill \<Rightarrow> mill \<Rightarrow> bool" where
  handler: "handler_step m m' \<Longrightarrow> mill_step m m'"
| run: "mill_step m (run_step i token generation ident m)"

lemma mill_step_elim [consumes 1]:
  assumes "mill_step m m'"
  obtains (admit) ident i generation w where "m' = snd (restart_admit i ident generation w m)" "ident \<notin> fst ` set (m_heap m)"
    | (run) i token generation ident where "m' = run_step i token generation ident m"
    | (claim) dir where "m' = m\<lparr>m_claims := dir # m_claims m\<rparr>" "map_of (m_transitions m) dir = None"
    | (claimed) dir c where "m' = m\<lparr>children := AList.update dir c (children m)\<rparr>" "dir \<in> set (m_claims m)"
    | (unclaim) dir where "m' = m\<lparr>m_claims := filter (\<lambda>d. d \<noteq> dir) (m_claims m)\<rparr>"
    | (gone) dir where "m' = m\<lparr>children := AList.delete dir (children m)\<rparr>"
    | (others) cs hs b where "m' = m\<lparr>custodies := cs, pool_hosts := hs, stopping := b\<rparr>"
  using assms by (elim mill_step.cases handler_step.cases) auto

definition initial :: "mill \<Rightarrow> bool" where
  "initial m \<longleftrightarrow> m_heap m = [] \<and> m_runs m = [] \<and> m_transitions m = []"

inductive reachable_mill :: "mill \<Rightarrow> bool" where
  start: "initial m \<Longrightarrow> reachable_mill m"
| step: "reachable_mill m \<Longrightarrow> mill_step m m' \<Longrightarrow> reachable_mill m'"

section \<open>Facts on the operations\<close>

text \<open>
  What an operation leaves alone.  A step works on one transition: \<open>tables\<close> names the parts of the
  state other transitions depend on.
\<close>

definition tables :: "mill \<Rightarrow> (string \<times> string) list \<times> string list \<times> (string \<times> nat) list" where
  "tables m = (m_transitions m, m_claims m, m_epochs m)"

lemma put_phase_simps [simp]:
  "map_of (m_runs (put_phase ident ph m)) = (map_of (m_runs m))(ident \<mapsto> ph)"
  "m_heap (put_phase ident ph m) = m_heap m" "tables (put_phase ident ph m) = tables m"
  "m_disk (put_phase ident ph m) = m_disk m" "m_transitions (put_phase ident ph m) = m_transitions m"
  "children (put_phase ident ph m) = children m"
  by (simp_all add: put_phase_def tables_def update_conv')

lemma put_transition_simps [simp]:
  "map_of (m_heap (put_transition ident t m)) = (map_of (m_heap m))(ident \<mapsto> t)"
  "m_runs (put_transition ident t m) = m_runs m" "tables (put_transition ident t m) = tables m"
  "m_disk (put_transition ident t m) = m_disk m" "m_transitions (put_transition ident t m) = m_transitions m"
  "children (put_transition ident t m) = children m"
  by (simp_all add: put_transition_def tables_def update_conv')

lemma release_child_frame [simp]:
  "m_heap (snd (release_child dir c m)) = m_heap m" "m_runs (snd (release_child dir c m)) = m_runs m"
  "tables (snd (release_child dir c m)) = tables m" "m_disk (snd (release_child dir c m)) = m_disk m"
  "m_transitions (snd (release_child dir c m)) = m_transitions m"
  by (auto simp: release_child_def tables_def split: option.splits)

lemma update_child_frame [simp]:
  "m_heap (update_child dir c m) = m_heap m" "m_runs (update_child dir c m) = m_runs m"
  "tables (update_child dir c m) = tables m" "m_disk (update_child dir c m) = m_disk m"
  "m_transitions (update_child dir c m) = m_transitions m"
  by (auto simp: update_child_def tables_def split: option.splits)

lemma stop_failed_frame [simp]:
  "m_heap (snd (stop_failed_replacement i c m)) = m_heap m" "m_runs (snd (stop_failed_replacement i c m)) = m_runs m"
  "tables (snd (stop_failed_replacement i c m)) = tables m" "m_disk (snd (stop_failed_replacement i c m)) = m_disk m"
  "m_transitions (snd (stop_failed_replacement i c m)) = m_transitions m"
proof -
  obtain gone m' where r: "release_child (w_config_dir (child_world c)) c m = (gone, m')" by fastforce
  then have m': "m' = snd (release_child (w_config_dir (child_world c)) c m)" by simp
  have "snd (stop_failed_replacement i c m) \<in> {m, m'}"
    by (auto simp: stop_failed_replacement_def Let_def r split: prod.splits sum.splits bool.splits)
  then show "m_heap (snd (stop_failed_replacement i c m)) = m_heap m" "m_runs (snd (stop_failed_replacement i c m)) = m_runs m"
    "tables (snd (stop_failed_replacement i c m)) = tables m" "m_disk (snd (stop_failed_replacement i c m)) = m_disk m"
    "m_transitions (snd (stop_failed_replacement i c m)) = m_transitions m"
    by (auto simp: m')
qed

lemma set_state_effect:
  assumes "set_transition_state i ident state probe failure t m = (ok, t', m')"
  shows "t' = enter_state state probe t" and "map_of (m_heap m') = (map_of (m_heap m))(ident \<mapsto> t')"
    and "m_runs m' = m_runs m" and "tables m' = tables m" and "m_transitions m' = m_transitions m"
    and "children m' = children m"
    and "ok \<longleftrightarrow> fst (write_restart_record (in_now i) (in_io i) (transition_record failure t')
                        (map_of (m_disk m) (w_state_dir (t_world t)))) = None"
    and "ok \<Longrightarrow> map_of (m_disk m') = (map_of (m_disk m))
           (w_state_dir (t_world t) \<mapsto> Text (encode_record (transition_record failure t'\<lparr>rr_updated_at := in_now i\<rparr>)) RestEof)"
    and "\<not> ok \<Longrightarrow> map_of (m_disk m') = map_of (m_disk m)"
proof -
  obtain err file' where w: "write_restart_record (in_now i) (in_io i) (transition_record failure (enter_state state probe t))
      (map_of (m_disk m) (w_state_dir (t_world t))) = (err, file')" by fastforce
  have t': "t' = enter_state state probe t" and ok: "ok \<longleftrightarrow> err = None"
    and m': "m' = (case file' of None \<Rightarrow> put_transition ident t' m
        | Some text \<Rightarrow> (put_transition ident t' m)\<lparr>m_disk := AList.update (w_state_dir (t_world t)) text (m_disk m)\<rparr>)"
    using assms by (auto simp: set_transition_state_def Let_def w split: option.splits)
  show "t' = enter_state state probe t" by (rule t')
  show "map_of (m_heap m') = (map_of (m_heap m))(ident \<mapsto> t')" "m_runs m' = m_runs m" "tables m' = tables m"
    "m_transitions m' = m_transitions m" "children m' = children m"
    unfolding m' by (simp_all add: tables_def put_transition_def update_conv' split: option.split)
  show "ok \<longleftrightarrow> fst (write_restart_record (in_now i) (in_io i) (transition_record failure t')
                        (map_of (m_disk m) (w_state_dir (t_world t)))) = None"
    by (simp add: ok t' w)
  have good: "file' = Some (Text (encode_record (transition_record failure t'\<lparr>rr_updated_at := in_now i\<rparr>)) RestEof)" if "err = None"
    using w that by (auto simp: write_restart_record_def Let_def t' split: option.splits if_splits)
  have bad: "file' = map_of (m_disk m) (w_state_dir (t_world t))" if "err \<noteq> None"
    using w that by (auto simp: write_restart_record_def Let_def split: option.splits if_splits)
  show "map_of (m_disk m') = (map_of (m_disk m))
      (w_state_dir (t_world t) \<mapsto> Text (encode_record (transition_record failure t'\<lparr>rr_updated_at := in_now i\<rparr>)) RestEof)" if ok
    using good that by (simp add: ok m' update_conv')
  show "map_of (m_disk m') = map_of (m_disk m)" if "\<not> ok"
    using bad that by (auto simp: ok m' update_conv' split: option.split)
qed

lemma enter_state_simps [simp]:
  "t_world (enter_state s p t) = t_world t" "t_old (enter_state s p t) = t_old t" "t_id (enter_state s p t) = t_id t"
  "t_state (enter_state s p t) = s" "t_retry (enter_state s p t) = t_retry t"
  "t_old_stopped (enter_state s p t) = t_old_stopped t" "t_closed (enter_state s p t) = t_closed t"
  "t_generation (enter_state s p t) = t_generation t"
  "t_probe (enter_state s (Some q) t) = Some q" "t_probe (enter_state s None t) = t_probe t"
  by (simp_all add: enter_state_def)

section \<open>One transition\<close>

fun rank :: "phase \<Rightarrow> nat" where
  "rank Registered = 12"
| "rank Verifying = 11"
| "rank (CutOver p) = 10"
| "rank (Stopping p) = 9"
| "rank (Stopped p) = 8"
| "rank (Releasing p) = 7"
| "rank (Launching p) = 6"
| "rank (Starting p c) = 5"
| "rank (Awaiting p c) = 4"
| "rank (Publishing p c st) = 3"
| "rank (ProbeFailing probe message) = 3"
| "rank (Failing stage message log dependency) = 2"
| "rank (Completing result err retain) = 1"
| "rank Finished = 0"

text \<open>The probe a phase goes by, and the phases from which the old generation is gone.\<close>

fun phase_probe :: "phase \<Rightarrow> probe_result option" where
  "phase_probe (CutOver p) = Some p"
| "phase_probe (Stopping p) = Some p"
| "phase_probe (Stopped p) = Some p"
| "phase_probe (Releasing p) = Some p"
| "phase_probe (Launching p) = Some p"
| "phase_probe (Starting p c) = Some p"
| "phase_probe (Awaiting p c) = Some p"
| "phase_probe (Publishing p c st) = Some p"
| "phase_probe ph = None"

definition replacing :: "phase \<Rightarrow> bool" where
  "replacing ph \<longleftrightarrow> phase_probe ph \<noteq> None \<and> rank ph \<le> 8"

definition local_ok :: "transition \<Rightarrow> phase \<Rightarrow> bool" where
  "local_ok t ph \<longleftrightarrow>
     t_closed t = (if ph = Finished then 1 else 0)
     \<and> (t_retry t \<longleftrightarrow> t_old t = None)
     \<and> (t_retry t \<longrightarrow> t_old_stopped t)
     \<and> (t_old_stopped t \<longrightarrow> (case t_probe t of None \<Rightarrow> False | Some p \<Rightarrow> pr_success p))
     \<and> (rank ph \<ge> 9 \<and> \<not> t_retry t \<longrightarrow> \<not> t_old_stopped t)
     \<and> (case phase_probe ph of None \<Rightarrow> True | Some p \<Rightarrow> pr_success p)
     \<and> (rank ph \<le> 9 \<and> phase_probe ph \<noteq> None \<longrightarrow> t_probe t = phase_probe ph \<and> t_state t = state_restarting)
     \<and> (replacing ph \<longrightarrow> t_old_stopped t)
     \<and> (t_state t = state_failed \<longrightarrow> rank ph \<le> 1)
     \<and> (case ph of ProbeFailing _ _ \<Rightarrow> t_old t \<noteq> None \<longrightarrow> \<not> t_old_stopped t
            | Completing result err _ \<Rightarrow> result \<noteq> None \<or> err \<noteq> None
            | Finished \<Rightarrow> t_result t \<noteq> None \<or> t_err t \<noteq> None
            | _ \<Rightarrow> True)"

lemma set_state_split:
  "P (set_transition_state i ident state probe failure t m) \<longleftrightarrow>
   (\<forall>ok t' m'. set_transition_state i ident state probe failure t m = (ok, t', m') \<longrightarrow> P (ok, t', m'))"
  by (cases "set_transition_state i ident state probe failure t m") auto

text \<open>
  The effect of a step on its transition, for whatever inputs: the transition stays well formed, comes
  closer to its end, and nothing of the others changes.
\<close>

definition step_effect :: "string \<Rightarrow> transition \<Rightarrow> phase \<Rightarrow> mill \<Rightarrow> mill \<Rightarrow> bool" where
  "step_effect ident t ph m m' \<longleftrightarrow>
     (\<exists>t' ph'. map_of (m_heap m') = (map_of (m_heap m))(ident \<mapsto> t') \<and> map_of (m_runs m') = (map_of (m_runs m))(ident \<mapsto> ph')
        \<and> t_world t' = t_world t \<and> t_id t' = t_id t \<and> t_old t' = t_old t \<and> t_retry t' = t_retry t \<and> local_ok t' ph' \<and> rank ph' < rank ph
        \<and> (t_old_stopped t' \<longrightarrow> t_old_stopped t \<or> (\<exists>p. ph = Stopping p))
        \<and> (ph' = Finished \<longrightarrow> (\<exists>r e b. ph = Completing r e b)))"

lemma step_effectI:
  "map_of (m_heap m') = (map_of (m_heap m))(ident \<mapsto> t') \<Longrightarrow> map_of (m_runs m') = (map_of (m_runs m))(ident \<mapsto> ph') \<Longrightarrow>
   t_world t' = t_world t \<Longrightarrow> t_id t' = t_id t \<Longrightarrow> t_old t' = t_old t \<Longrightarrow> t_retry t' = t_retry t \<Longrightarrow> local_ok t' ph' \<Longrightarrow> rank ph' < rank ph \<Longrightarrow>
   (t_old_stopped t' \<Longrightarrow> t_old_stopped t \<or> (\<exists>p. ph = Stopping p)) \<Longrightarrow>
   (ph' = Finished \<Longrightarrow> \<exists>r e b. ph = Completing r e b) \<Longrightarrow> step_effect ident t ph m m'"
  unfolding step_effect_def by blast

lemma same_heap: "map_of (m_heap m) ident = Some t \<Longrightarrow> map_of (m_heap m) = (map_of (m_heap m))(ident \<mapsto> t)"
  by (simp add: fun_upd_idem)

lemma begin_effect:
  assumes ok: "local_ok t Registered" and h: "map_of (m_heap m) ident = Some t"
  shows "step_effect ident t Registered m (begin_step i ident t m)"
proof -
  obtain good t1 m1 where e: "set_transition_state i ident (t_state t) (if t_retry t then t_probe t else None) None t m = (good, t1, m1)"
    by (metis prod_cases3)
  note E = set_state_effect [OF e]
  have r: "t_retry t \<Longrightarrow> t_probe t \<noteq> None" using ok by (auto simp: local_ok_def split: option.splits)
  have t1: "t_world t1 = t_world t" "t_id t1 = t_id t" "t_old t1 = t_old t" "t_retry t1 = t_retry t" "t_probe t1 = t_probe t"
    "t_old_stopped t1 = t_old_stopped t" "t_closed t1 = t_closed t" "t_state t1 = t_state t"
    using r by (auto simp: E(1) enter_state_def split: option.split)
  show ?thesis
    unfolding begin_step_def e prod.case
  proof (split if_split, intro conjI impI)
    assume good
    show "step_effect ident t Registered m (put_phase ident Verifying m1)"
      by (rule step_effectI [of _ _ _ t1 Verifying]) (use E(2,3) t1 ok in \<open>auto simp: local_ok_def replacing_def\<close>)
  next
    assume "\<not> good"
    show "step_effect ident t Registered m
      (if t_old t \<noteq> None \<and> \<not> t_retry t
       then let t'' = t1\<lparr>t_state := state_running, t_probe := None\<rparr>;
                m'' = put_transition ident t'' m1;
                st = put True ''probe_error'' (SV (JStr (in_text i)))
                       (put True ''restart_state'' (SV (JStr state_running)) (admitted_generation_status i m'' t''))
            in put_phase ident (Completing (Some st) (Some (in_text i)) False) m''
       else put_phase ident (Completing None (Some (in_text i)) True) m1)"
    proof (split if_split, intro conjI impI)
      assume o: "t_old t \<noteq> None \<and> \<not> t_retry t"
      show "step_effect ident t Registered m
        (let t'' = t1\<lparr>t_state := state_running, t_probe := None\<rparr>;
             m'' = put_transition ident t'' m1;
             st = put True ''probe_error'' (SV (JStr (in_text i)))
                    (put True ''restart_state'' (SV (JStr state_running)) (admitted_generation_status i m'' t''))
         in put_phase ident (Completing (Some st) (Some (in_text i)) False) m'')"
        unfolding Let_def
        by (rule step_effectI [of _ _ _ "t1\<lparr>t_state := state_running, t_probe := None\<rparr>"])
           (use E(2,3) t1 ok o in \<open>auto simp: local_ok_def replacing_def\<close>)
    next
      show "step_effect ident t Registered m (put_phase ident (Completing None (Some (in_text i)) True) m1)"
        by (rule step_effectI [of _ _ _ t1]) (use E(2,3) t1 ok in \<open>auto simp: local_ok_def replacing_def\<close>)
    qed
  qed
qed

lemma put_effect:
  assumes "map_of (m_heap m) ident = Some t" "m_heap m1 = m_heap m" "m_runs m1 = m_runs m"
    and "local_ok t ph'" "rank ph' < rank ph" "ph' \<noteq> Finished"
  shows "step_effect ident t ph m (put_phase ident ph' m1)"
  by (rule step_effectI [of _ _ _ t ph']) (use assms same_heap [of m ident t] in auto)

lemma state_effect:
  assumes "set_transition_state i ident state probe failure tb m = (ok, t1, m1)"
    and "t_world tb = t_world t" "t_id tb = t_id t" "t_old tb = t_old t" "t_retry tb = t_retry t" "t_old_stopped tb = t_old_stopped t"
    and "local_ok (enter_state state probe tb) ph'" "rank ph' < rank ph" "ph' \<noteq> Finished"
  shows "step_effect ident t ph m (put_phase ident ph' m1)"
  by (rule step_effectI [of _ _ _ t1 ph']) (use assms set_state_effect [OF assms(1)] in simp_all)

lemma verify_effect:
  assumes ok: "local_ok t Verifying" and h: "map_of (m_heap m) ident = Some t"
  shows "step_effect ident t Verifying m (verify_step i ident t m)"
proof -
  note put = put_effect [OF h refl refl]
  show ?thesis
    unfolding verify_step_def
    by (auto intro!: put split: option.split) (use ok in \<open>auto simp: local_ok_def replacing_def\<close>)
qed

lemma cut_over_effect:
  assumes ok: "local_ok t (CutOver p)" and h: "map_of (m_heap m) ident = Some t"
  shows "step_effect ident t (CutOver p) m (cut_over_step i ident p t m)"
proof -
  obtain good t1 m1 where e: "set_transition_state i ident state_restarting (Some p) None t m = (good, t1, m1)" by (metis prod_cases3)
  note put = state_effect [OF e refl refl refl refl refl]
  show ?thesis
    unfolding cut_over_step_def e prod.case
    by (auto intro!: put) (use ok in \<open>auto simp: local_ok_def replacing_def state_failed_def state_restarting_def state_running_def\<close>)
qed

lemma stop_effect:
  assumes ok: "local_ok t (Stopping p)" and h: "map_of (m_heap m) ident = Some t"
  shows "step_effect ident t (Stopping p) m (stop_step i ident p t m)"
proof -
  note put = put_effect [OF h refl refl]
  have good: "step_effect ident t (Stopping p) m (put_phase ident (Stopped p) (put_transition ident (t\<lparr>t_old_stopped := True\<rparr>) m))"
    by (rule step_effectI [of _ _ _ "t\<lparr>t_old_stopped := True\<rparr>" "Stopped p"])
       (use ok in \<open>auto simp: local_ok_def replacing_def\<close>)
  show ?thesis
    unfolding stop_step_def
    by (auto intro!: put good split: prod.split option.split) (use ok in \<open>auto simp: local_ok_def replacing_def\<close>)
qed

lemma stopped_effect:
  assumes ok: "local_ok t (Stopped p)" and h: "map_of (m_heap m) ident = Some t"
  shows "step_effect ident t (Stopped p) m (stopped_step i ident p t m)"
proof -
  obtain good t1 m1 where e: "set_transition_state i ident state_restarting (Some p) None t m = (good, t1, m1)" by (metis prod_cases3)
  note put = state_effect [OF e refl refl refl refl refl]
  show ?thesis
    unfolding stopped_step_def e prod.case
    by (auto intro!: put) (use ok in \<open>auto simp: local_ok_def replacing_def state_failed_def state_restarting_def state_running_def\<close>)
qed

lemma release_effect:
  assumes ok: "local_ok t (Releasing p)" and h: "map_of (m_heap m) ident = Some t"
  shows "step_effect ident t (Releasing p) m (release_step ident p t m)"
  unfolding release_step_def
  by (rule put_effect [OF h]) (use ok in \<open>auto simp: local_ok_def replacing_def split: option.split\<close>)

lemma launch_effect:
  assumes ok: "local_ok t (Launching p)" and h: "map_of (m_heap m) ident = Some t"
  shows "step_effect ident t (Launching p) m (launch_step i token generation ident p t m)"
  unfolding launch_step_def Let_def
  by (auto intro!: put_effect [OF h]) (use ok in \<open>auto simp: local_ok_def replacing_def\<close>)

lemma start_effect:
  assumes ok: "local_ok t (Starting p c)" and h: "map_of (m_heap m) ident = Some t"
  shows "step_effect ident t (Starting p c) m (start_step i ident p c t m)"
  unfolding start_step_def Let_def
  by (auto intro!: put_effect [OF h]) (use ok in \<open>auto simp: local_ok_def replacing_def\<close>)

lemma await_effect:
  assumes ok: "local_ok t (Awaiting p c)" and h: "map_of (m_heap m) ident = Some t"
  shows "step_effect ident t (Awaiting p c) m (await_step i ident p c t m)"
proof -
  obtain stopped m1 where s: "stop_failed_replacement i c m = (stopped, m1)" by fastforce
  have m1: "m_heap m1 = m_heap m" "m_runs m1 = m_runs m"
    using stop_failed_frame(1,2) [of i c m] by (simp_all add: s)
  have f: "step_effect ident t (Awaiting p c) m (put_phase ident (Failing ''launch'' x y z) m1)" for x y z
    by (rule put_effect [OF h m1]) (use ok in \<open>auto simp: local_ok_def replacing_def\<close>)
  have g: "step_effect ident t (Awaiting p c) m (put_phase ident (Publishing p c' st) (update_child dir c' m))" for dir c' st
    by (rule put_effect [OF h]) (use ok in \<open>auto simp: local_ok_def replacing_def\<close>)
  show ?thesis
    unfolding await_step_def Let_def s prod.case
    by (auto intro!: f g split: sum.split)
qed

lemma publish_effect:
  assumes ok: "local_ok t (Publishing p c st)" and h: "map_of (m_heap m) ident = Some t"
  shows "step_effect ident t (Publishing p c st) m (publish_step i ident p c st t m)"
proof -
  let ?tb = "t\<lparr>t_generation := child_generation c\<rparr>"
  obtain good t1 m1 where e: "set_transition_state i ident state_running (Some p) None ?tb m = (good, t1, m1)" by (metis prod_cases3)
  note put = state_effect [OF e, of t]
  show ?thesis
    unfolding publish_step_def Let_def e prod.case
    by (auto intro!: put) (use ok in \<open>auto simp: local_ok_def replacing_def state_failed_def state_restarting_def state_running_def\<close>)
qed

lemma probe_failing_effect:
  assumes ok: "local_ok t (ProbeFailing probe message)" and h: "map_of (m_heap m) ident = Some t"
  shows "step_effect ident t (ProbeFailing probe message) m (probe_failing_step i ident probe message t m)"
proof (cases "t_old t = None \<or> t_retry t")
  case True
  then show ?thesis
    unfolding probe_failing_step_def if_P [OF True]
    by (intro put_effect [OF h]) (use ok in \<open>auto simp: local_ok_def replacing_def\<close>)
next
  case False
  let ?p = "case probe of None \<Rightarrow> transport_probe (t_world t) message | Some p \<Rightarrow> p"
  obtain good t1 m1 where e: "set_transition_state i ident state_running (Some ?p) (Some (plain_failure_of ''probe'' message [])) t m
      = (good, t1, m1)" by (metis prod_cases3)
  note put = state_effect [OF e refl refl refl refl refl]
  show ?thesis
    unfolding probe_failing_step_def if_not_P [OF False] Let_def e prod.case
    by (auto intro!: put) (use ok False in \<open>auto simp: local_ok_def replacing_def state_failed_def state_restarting_def state_running_def\<close>)
qed

lemma failing_effect:
  assumes ok: "local_ok t (Failing stage message log dependency)" and h: "map_of (m_heap m) ident = Some t"
  shows "step_effect ident t (Failing stage message log dependency) m (failing_step i ident stage message log dependency t m)"
proof -
  let ?f = "plain_failure_of stage message log"
  obtain good t1 m1 where e: "set_transition_state i ident state_failed None (Some ?f) t m = (good, t1, m1)" by (metis prod_cases3)
  show ?thesis
    unfolding failing_step_def Let_def e prod.case
    by (rule state_effect [OF e refl refl refl refl refl]) (use ok in \<open>auto simp: local_ok_def replacing_def\<close>)
qed

lemma complete_heap:
  "map_of (m_heap (complete_transition ident result err retain t m))
     = (map_of (m_heap m))(ident \<mapsto> t\<lparr>t_result := result, t_err := err, t_closed := t_closed t + 1\<rparr>)"
  "m_runs (complete_transition ident result err retain t m) = m_runs m"
  "m_disk (complete_transition ident result err retain t m) = m_disk m"
  "m_claims (complete_transition ident result err retain t m) = m_claims m"
  by (simp_all add: complete_transition_def Let_def put_transition_def update_conv')

lemma complete_effect:
  assumes ok: "local_ok t (Completing result err retain)" and h: "map_of (m_heap m) ident = Some t"
  shows "step_effect ident t (Completing result err retain) m (complete_step ident result err retain t m)"
  unfolding complete_step_def
  by (rule step_effectI [of _ _ _ "t\<lparr>t_result := result, t_err := err, t_closed := t_closed t + 1\<rparr>" Finished])
     (use ok in \<open>auto simp: local_ok_def replacing_def complete_heap\<close>)

lemma run_effect:
  assumes "map_of (m_runs m) ident = Some ph" "map_of (m_heap m) ident = Some t" "local_ok t ph" "ph \<noteq> Finished"
  shows "step_effect ident t ph m (run_step i token generation ident m)"
  using assms
  by (cases ph)
     (simp_all add: run_step_def begin_effect verify_effect cut_over_effect stop_effect stopped_effect release_effect launch_effect
        start_effect await_effect publish_effect probe_failing_effect failing_effect complete_effect)

section \<open>The whole Mill\<close>

text \<open>What a step leaves of the registrations: only the end of a transition that is not retained takes one away, its own.\<close>

lemma claims_of_frame: "tables m1 = tables m \<Longrightarrow> m_claims m1 = m_claims m" "tables m1 = tables m \<Longrightarrow> m_transitions m1 = m_transitions m"
  by (simp_all add: tables_def)

lemma frame_children [simp]: "tables (m\<lparr>children := c\<rparr>) = tables m"
  by (simp add: tables_def)

lemma run_frame_plain:
  assumes "\<And>r e b. map_of (m_runs m) ident \<noteq> Some (Completing r e b)"
  shows "tables (run_step i token generation ident m) = tables m"
proof (cases "map_of (m_runs m) ident")
  case None
  then show ?thesis by (simp add: run_step_def)
next
  case (Some ph)
  show ?thesis
  proof (cases "map_of (m_heap m) ident")
    case None
    then show ?thesis by (simp add: run_step_def Some)
  next
    case (Some t)
    note s = set_state_effect(4)
    show ?thesis
      using assms Some \<open>map_of (m_runs m) ident = Some ph\<close>
      by (cases ph)
         (auto simp: run_step_def begin_step_def verify_step_def cut_over_step_def stop_step_def stopped_step_def release_step_def
            launch_step_def start_step_def await_step_def publish_step_def probe_failing_step_def failing_step_def Let_def
            split: prod.splits option.splits sum.splits dest: s
            intro: stop_failed_frame(3) [THEN trans] dest!: arg_cong [of "stop_failed_replacement i _ m" _ "\<lambda>x. tables (snd x)"])
  qed
qed

lemma complete_frame:
  "m_transitions (complete_step ident result err retain t m)
     = (if \<not> retain \<and> map_of (m_transitions m) (w_config_dir (t_world t)) = Some ident
        then AList.delete (w_config_dir (t_world t)) (m_transitions m) else m_transitions m)"
  "m_claims (complete_step ident result err retain t m) = m_claims m"
  by (simp_all add: complete_step_def complete_transition_def Let_def put_phase_def put_transition_def)

lemma set_state_disk:
  assumes "set_transition_state i ident state probe failure t m = (ok, t', m')" "d \<noteq> w_state_dir (t_world t)"
  shows "map_of (m_disk m') d = map_of (m_disk m) d"
  using set_state_effect(8,9) [OF assms(1)] assms(2) by (cases ok) auto

lemma run_disk:
  assumes h: "map_of (m_heap m) ident = Some t" and r: "map_of (m_runs m) ident = Some ph"
    and d: "rank ph < 2 \<or> d \<noteq> w_state_dir (t_world t)"
  shows "map_of (m_disk (run_step i token generation ident m)) d = map_of (m_disk m) d"
proof -
  have c: "m_disk (complete_step ident result err retain t m) = m_disk m" for result err retain
    by (simp add: complete_step_def complete_heap)
  have f: "m_disk m1 = m_disk m" if "stop_failed_replacement i c m = (g, m1)" for c g m1
    using stop_failed_frame(4) [of i c m] that by simp
  note s = set_state_disk
  show ?thesis
    using d h r
    by (cases ph)
       (auto simp: run_step_def begin_step_def verify_step_def cut_over_step_def stop_step_def stopped_step_def release_step_def
          launch_step_def start_step_def await_step_def publish_step_def probe_failing_step_def failing_step_def Let_def c
          split: prod.splits option.splits sum.splits dest: s f)
qed

text \<open>A transition that has not reached its completion is at work.\<close>

definition working :: "phase \<Rightarrow> bool" where
  "working ph \<longleftrightarrow> (case ph of Completing _ _ _ \<Rightarrow> False | Finished \<Rightarrow> False | _ \<Rightarrow> True)"

lemma working_rank: "working ph \<longleftrightarrow> 2 \<le> rank ph"
  by (cases ph) (simp_all add: working_def)

text \<open>
  The invariant of the Mill: every transition is well formed and runs, one at work is registered for its
  workspace, a registered one is of the workspace, and no workspace has a claim and a transition.
\<close>

definition mill_ok :: "mill \<Rightarrow> bool" where
  "mill_ok m \<longleftrightarrow>
     (\<forall>ident. map_of (m_runs m) ident = None \<longleftrightarrow> map_of (m_heap m) ident = None)
     \<and> (\<forall>ident t ph. map_of (m_heap m) ident = Some t \<longrightarrow> map_of (m_runs m) ident = Some ph \<longrightarrow>
          t_id t = ident \<and> local_ok t ph
          \<and> (working ph \<longrightarrow> map_of (m_transitions m) (w_config_dir (t_world t)) = Some ident))
     \<and> (\<forall>dir ident. map_of (m_transitions m) dir = Some ident \<longrightarrow>
          (\<exists>t. map_of (m_heap m) ident = Some t \<and> w_config_dir (t_world t) = dir))
     \<and> (\<forall>dir\<in>set (m_claims m). map_of (m_transitions m) dir = None)"

lemma mill_ok_dom: "mill_ok m \<Longrightarrow> map_of (m_runs m) ident = None \<longleftrightarrow> map_of (m_heap m) ident = None"
  unfolding mill_ok_def by blast

lemma mill_ok_run:
  assumes "mill_ok m" "map_of (m_runs m) ident = Some ph"
  obtains t where "map_of (m_heap m) ident = Some t" "t_id t = ident" "local_ok t ph"
    "working ph \<Longrightarrow> map_of (m_transitions m) (w_config_dir (t_world t)) = Some ident"
proof -
  obtain t where h: "map_of (m_heap m) ident = Some t"
    using mill_ok_dom [OF assms(1), of ident] assms(2) by (cases "map_of (m_heap m) ident") auto
  then have "t_id t = ident \<and> local_ok t ph
      \<and> (working ph \<longrightarrow> map_of (m_transitions m) (w_config_dir (t_world t)) = Some ident)"
    using assms unfolding mill_ok_def by blast
  with h that show thesis by blast
qed

lemma mill_ok_registered:
  assumes "mill_ok m" "map_of (m_transitions m) dir = Some ident"
  obtains t where "map_of (m_heap m) ident = Some t" "w_config_dir (t_world t) = dir"
  using assms unfolding mill_ok_def by blast

lemma mill_ok_cong:
  assumes "mill_ok m" "m_runs m' = m_runs m" "m_heap m' = m_heap m" "m_transitions m' = m_transitions m"
    "\<And>dir. dir \<in> set (m_claims m') \<Longrightarrow> dir \<in> set (m_claims m) \<or> map_of (m_transitions m) dir = None"
  shows "mill_ok m'"
  using assms(1) assms(5) unfolding mill_ok_def assms(2-4) by blast

lemma forget_failed:
  assumes m: "mill_ok m" and e: "map_of (m_transitions m) dir = Some e" "map_of (m_heap m) e = Some t" "t_state t = state_failed"
  shows "mill_ok (m\<lparr>m_transitions := AList.delete dir (m_transitions m)\<rparr>)"
proof -
  obtain ph where ph: "map_of (m_runs m) e = Some ph"
    using mill_ok_dom [OF m, of e] e(2) by (cases "map_of (m_runs m) e") auto
  from m ph have "local_ok t ph" by (rule mill_ok_run) (simp add: e)
  then have idle: "\<not> working ph" using e by (simp add: local_ok_def working_rank)
  have "map_of (m_transitions m) (w_config_dir (t_world u)) = Some ident \<and> w_config_dir (t_world u) \<noteq> dir"
    if "map_of (m_heap m) ident = Some u" "map_of (m_runs m) ident = Some ph'" "working ph'" for ident u ph'
  proof -
    have r: "map_of (m_transitions m) (w_config_dir (t_world u)) = Some ident" using m that unfolding mill_ok_def by blast
    have "w_config_dir (t_world u) \<noteq> dir"
    proof
      assume "w_config_dir (t_world u) = dir"
      with r e(1) have "ident = e" by simp
      with that ph idle show False by simp
    qed
    with r show ?thesis by simp
  qed
  with m show ?thesis unfolding mill_ok_def by (simp add: delete_conv')
qed

lemma restart_subject_cases:
  assumes "restart_subject i w m = Ok (old, retry)"
  shows "(retry \<noteq> None \<longleftrightarrow> old = None)" and "retry = Some r \<Longrightarrow> retryable r"
  using assms unfolding restart_subject_def Let_def
  by (auto split: option.splits sum.splits if_splits dest: sym)

lemma register_ok:
  assumes m: "mill_ok m" and free: "map_of (m_transitions m) dir = None"
    and claim: "dir \<notin> set (m_claims m)" and new: "map_of (m_heap m) ident = None"
    and t: "w_config_dir (t_world t) = dir" "t_id t = ident" "local_ok t Registered"
    and m': "map_of (m_heap m') = (map_of (m_heap m))(ident \<mapsto> t)" "map_of (m_runs m') = (map_of (m_runs m))(ident \<mapsto> Registered)"
      "map_of (m_transitions m') = (map_of (m_transitions m))(dir \<mapsto> ident)" "m_claims m' = m_claims m"
  shows "mill_ok m'"
proof -
  have other: "w_config_dir (t_world u) \<noteq> dir"
    if "map_of (m_heap m) e = Some u" "map_of (m_runs m) e = Some ph" "working ph" for e u ph
  proof
    assume "w_config_dir (t_world u) = dir"
    with m that have "map_of (m_transitions m) dir = Some e" unfolding mill_ok_def by blast
    with free show False by simp
  qed
  have old: "e \<noteq> ident" if "map_of (m_transitions m) d = Some e" for d e
    by (rule mill_ok_registered [OF m that]) (use new in auto)
  show ?thesis
    unfolding mill_ok_def m'
  proof (intro conjI allI ballI impI)
    fix e show "((map_of (m_runs m))(ident \<mapsto> Registered)) e = None \<longleftrightarrow> ((map_of (m_heap m))(ident \<mapsto> t)) e = None"
      using mill_ok_dom [OF m, of e] by simp
  next
    fix e u ph
    assume h: "((map_of (m_heap m))(ident \<mapsto> t)) e = Some u" and r: "((map_of (m_runs m))(ident \<mapsto> Registered)) e = Some ph"
    have known: "t_id u = e \<and> local_ok u ph \<and> (working ph \<longrightarrow> map_of (m_transitions m) (w_config_dir (t_world u)) = Some e)"
      if "e \<noteq> ident"
      using h r that m unfolding mill_ok_def by simp
    show "t_id u = e" "local_ok u ph" using h r t known by (auto split: if_splits)
    show "((map_of (m_transitions m))(dir \<mapsto> ident)) (w_config_dir (t_world u)) = Some e" if w: "working ph"
    proof (cases "e = ident")
      case True then show ?thesis using h t by simp
    next
      case False
      then have "w_config_dir (t_world u) \<noteq> dir" using other h r w by simp
      then show ?thesis using False known w by simp
    qed
  next
    fix d e assume reg: "((map_of (m_transitions m))(dir \<mapsto> ident)) d = Some e"
    show "\<exists>u. ((map_of (m_heap m))(ident \<mapsto> t)) e = Some u \<and> w_config_dir (t_world u) = d"
    proof (cases "d = dir")
      case True then show ?thesis using t reg by simp
    next
      case False
      then have two: "map_of (m_transitions m) d = Some e" using reg by simp
      with old have e: "e \<noteq> ident" by simp
      obtain u where "map_of (m_heap m) e = Some u" "w_config_dir (t_world u) = d" by (rule mill_ok_registered [OF m two])
      with e show ?thesis by simp
    qed
  next
    fix d assume "d \<in> set (m_claims m)"
    then show "((map_of (m_transitions m))(dir \<mapsto> ident)) d = None" using m claim by (auto simp: mill_ok_def)
  qed
qed

lemma admitted_ok:
  assumes "t_closed t = 0" "t_old t = None \<longleftrightarrow> retry \<noteq> None" "t_retry t \<longleftrightarrow> retry \<noteq> None"
    "t_old_stopped t = (case retry of None \<Rightarrow> False | Some r \<Rightarrow> rr_old_stopped r)"
    "t_probe t = (case retry of None \<Rightarrow> None | Some r \<Rightarrow> rr_probe r)"
    "t_state t = (if retry = None then state_probing else state_restarting)" "\<And>r. retry = Some r \<Longrightarrow> retryable r"
  shows "local_ok t Registered"
  using assms by (cases retry)
    (auto simp: local_ok_def replacing_def state_probing_def state_restarting_def state_failed_def retryable_def probe_succeeded_def)

lemma restart_fresh_ok:
  assumes m: "mill_ok m" and free: "map_of (m_transitions m) (w_config_dir w) = None"
    and claim: "w_config_dir w \<notin> set (m_claims m)" and new: "map_of (m_heap m) ident = None"
  shows "mill_ok (snd (restart_fresh i ident generation w m))"
proof -
  let ?dir = "w_config_dir w"
  let ?m = "case map_of (children m) ?dir of None \<Rightarrow> m
    | Some c \<Rightarrow> if living i c then m else m\<lparr>children := AList.delete ?dir (children m)\<rparr>"
  have same: "m_heap ?m = m_heap m" "m_runs ?m = m_runs m" "m_transitions ?m = m_transitions m" "m_claims ?m = m_claims m"
    by (auto split: option.split)
  have mm: "mill_ok ?m" by (rule mill_ok_cong [OF m same(2,1,3)]) (simp add: same)
  show ?thesis
  proof (cases "restart_subject i w ?m")
    case (Inl e)
    then have "snd (restart_fresh i ident generation w m) \<in> {m, ?m}"
      unfolding restart_fresh_def Let_def by simp
    with m mm show ?thesis by (auto simp del: split_paired_All)
  next
    case (Inr found)
    obtain old retry where found: "found = (old, retry)" by fastforce
    note subject = restart_subject_cases [OF Inr [unfolded found]]
    show ?thesis
    proof (cases "case map_of (children m) ?dir of None \<Rightarrow> False | Some c \<Rightarrow> child_temporary c")
      case True
      then show ?thesis using m unfolding restart_fresh_def Let_def by simp
    next
      case False
      define t where "t = \<lparr>t_world = w, t_old = map_option (\<lambda>c. if child_generation c = [] then c\<lparr>child_generation := generation\<rparr> else c) old,
          t_id = ident, t_epoch = (case map_of (m_epochs ?m) ?dir of None \<Rightarrow> 1 | Some n \<Rightarrow> n + 1),
          t_state = (if retry = None then state_probing else state_restarting), t_cutover = False,
          t_generation = (case map_option (\<lambda>c. if child_generation c = [] then c\<lparr>child_generation := generation\<rparr> else c) old of
              Some c \<Rightarrow> child_generation c | None \<Rightarrow> (case retry of None \<Rightarrow> [] | Some r \<Rightarrow> rr_generation r)),
          t_probe = (case retry of None \<Rightarrow> None | Some r \<Rightarrow> rr_probe r), t_retry = retry \<noteq> None,
          t_old_stopped = (case retry of None \<Rightarrow> False | Some r \<Rightarrow> rr_old_stopped r), t_result = None, t_err = None, t_closed = 0\<rparr>"
      have ok: "local_ok t Registered"
        by (rule admitted_ok [of _ retry]) (use subject in \<open>auto simp: t_def\<close>)
      show ?thesis
        unfolding restart_fresh_def Let_def if_not_P [OF False] Inr found sum.case prod.case snd_conv t_def [symmetric]
        by (rule register_ok [OF mm, of ?dir ident t])
           (simp_all add: same free claim new ok update_conv' put_phase_def put_transition_def, simp_all add: t_def)
    qed
  qed
qed

lemma advance_ok:
  assumes m: "mill_ok m" and r: "map_of (m_runs m) ident = Some ph" and h: "map_of (m_heap m) ident = Some t"
    and e: "step_effect ident t ph m m'" and c: "m_claims m' = m_claims m"
    and reg: "m_transitions m' = m_transitions m
      \<or> rank ph = 1 \<and> map_of (m_transitions m) (w_config_dir (t_world t)) = Some ident
        \<and> map_of (m_transitions m') = (map_of (m_transitions m))(w_config_dir (t_world t) := None)"
  shows "mill_ok m'"
proof -
  obtain t' ph' where heap: "map_of (m_heap m') = (map_of (m_heap m))(ident \<mapsto> t')"
    and runs: "map_of (m_runs m') = (map_of (m_runs m))(ident \<mapsto> ph')"
    and t': "t_world t' = t_world t" "t_id t' = t_id t" "local_ok t' ph'" "rank ph' < rank ph"
    using e unfolding step_effect_def by blast
  have tid: "t_id t = ident" and mine: "working ph \<Longrightarrow> map_of (m_transitions m) (w_config_dir (t_world t)) = Some ident"
    using m r h unfolding mill_ok_def by blast+
  have stays: "map_of (m_transitions m') d = Some x"
    if "map_of (m_transitions m) d = Some x" "x \<noteq> ident \<or> 2 \<le> rank ph" for d x
    using reg that by (cases "d = w_config_dir (t_world t)") auto
  have sub: "map_of (m_transitions m) d = Some x" if "map_of (m_transitions m') d = Some x" for d x
    using reg that by (cases "d = w_config_dir (t_world t)") auto
  show ?thesis
    unfolding mill_ok_def heap runs c
  proof (intro conjI allI ballI impI)
    fix x show "((map_of (m_runs m))(ident \<mapsto> ph')) x = None \<longleftrightarrow> ((map_of (m_heap m))(ident \<mapsto> t')) x = None"
      using mill_ok_dom [OF m, of x] by simp
  next
    fix x u q
    assume hx: "((map_of (m_heap m))(ident \<mapsto> t')) x = Some u" and rx: "((map_of (m_runs m))(ident \<mapsto> ph')) x = Some q"
    have known: "t_id u = x \<and> local_ok u q \<and> (working q \<longrightarrow> map_of (m_transitions m) (w_config_dir (t_world u)) = Some x)"
      if "x \<noteq> ident"
      using hx rx that m unfolding mill_ok_def by simp
    show "t_id u = x" "local_ok u q" using hx rx tid t' known by (auto split: if_splits)
    show "map_of (m_transitions m') (w_config_dir (t_world u)) = Some x" if w: "working q"
    proof (cases "x = ident")
      case True
      then have "2 \<le> rank ph" using rx w t'(4) by (simp add: working_rank)
      then show ?thesis using True hx t' mine stays by (simp add: working_rank)
    next
      case False
      then show ?thesis using known w stays by blast
    qed
  next
    fix d x assume "map_of (m_transitions m') d = Some x"
    then have "map_of (m_transitions m) d = Some x" by (rule sub)
    then obtain u where "map_of (m_heap m) x = Some u" "w_config_dir (t_world u) = d" by (rule mill_ok_registered [OF m])
    then show "\<exists>u. ((map_of (m_heap m))(ident \<mapsto> t')) x = Some u \<and> w_config_dir (t_world u) = d"
      using h t' by (cases "x = ident") auto
  next
    fix d assume "d \<in> set (m_claims m)"
    then have "map_of (m_transitions m) d = None" using m by (simp add: mill_ok_def)
    then show "map_of (m_transitions m') d = None" using sub [of d] by (cases "map_of (m_transitions m') d") auto
  qed
qed

lemma run_idle: "map_of (m_runs m) ident = Some Finished \<Longrightarrow> run_step i token generation ident m = m"
  by (simp add: run_step_def split: option.split)

lemma run_ok:
  assumes m: "mill_ok m"
  shows "mill_ok (run_step i token generation ident m)"
proof (cases "map_of (m_runs m) ident")
  case None
  then show ?thesis using m by (simp add: run_step_def)
next
  case r: (Some ph)
  from m r obtain t where h: "map_of (m_heap m) ident = Some t" and ok: "local_ok t ph" by (rule mill_ok_run)
  show ?thesis
  proof (cases "ph = Finished")
    case True
    then show ?thesis using m r run_idle by simp
  next
    case False
    note effect = run_effect [OF r h ok False, of i token generation]
    show ?thesis
    proof (cases "\<exists>x y z. ph = Completing x y z")
      case True
      then obtain x y z where "ph = Completing x y z" by blast
      then show ?thesis
        by (intro advance_ok [OF m r h effect]) (simp_all add: run_step_def r h complete_frame delete_conv')
    next
      case False
      then have same: "tables (run_step i token generation ident m) = tables m" by (intro run_frame_plain) (simp add: r)
      show ?thesis by (rule advance_ok [OF m r h effect claims_of_frame(1) [OF same]]) (simp add: claims_of_frame(2) [OF same])
    qed
  qed
qed

lemma restart_admit_ok:
  assumes m: "mill_ok m" and new: "map_of (m_heap m) ident = None"
  shows "mill_ok (snd (restart_admit i ident generation w m))"
proof -
  let ?dir = "w_config_dir w"
  consider "?dir \<in> set (m_claims m)"
    | "?dir \<notin> set (m_claims m)" "map_of (m_transitions m) ?dir = None"
    | e t where "?dir \<notin> set (m_claims m)" "map_of (m_transitions m) ?dir = Some e" "map_of (m_heap m) e = Some t"
    using m by (cases "map_of (m_transitions m) ?dir") (blast elim: mill_ok_registered)+
  then show ?thesis
  proof cases
    case 1
    then show ?thesis using m by (simp add: restart_admit_def)
  next
    case 2
    then show ?thesis using restart_fresh_ok [OF m _ _ new] by (simp add: restart_admit_def)
  next
    case (3 e t)
    let ?m = "m\<lparr>m_transitions := AList.delete ?dir (m_transitions m)\<rparr>"
    show ?thesis
    proof (cases "t_state t = state_failed")
      case True
      have "mill_ok ?m" by (rule forget_failed [OF m 3(2,3) True])
      then have "mill_ok (snd (restart_fresh i ident generation w ?m))"
        by (rule restart_fresh_ok) (use 3 new in \<open>simp_all add: delete_conv'\<close>)
      then show ?thesis using 3 True by (simp add: restart_admit_def)
    next
      case False
      then show ?thesis using 3 m by (simp add: restart_admit_def)
    qed
  qed
qed

lemma handler_step_ok:
  assumes "handler_step m m'" "mill_ok m"
  shows "mill_ok m'"
  using assms
proof cases
  case (admit ident i generation w)
  then have "map_of (m_heap m) ident = None" by (simp add: map_of_eq_None_iff)
  then show ?thesis using admit restart_admit_ok assms(2) by blast
next
  case (claim dir)
  show ?thesis by (rule mill_ok_cong [OF assms(2)]) (use claim in \<open>auto simp: claim(1)\<close>)
next
  case (claimed dir c)
  show ?thesis by (rule mill_ok_cong [OF assms(2)]) (simp_all add: claimed)
next
  case (unclaim dir)
  show ?thesis by (rule mill_ok_cong [OF assms(2)]) (simp_all add: unclaim)
next
  case (gone dir)
  show ?thesis by (rule mill_ok_cong [OF assms(2)]) (simp_all add: gone)
next
  case (others cs hs b)
  show ?thesis by (rule mill_ok_cong [OF assms(2)]) (simp_all add: others)
qed

lemma mill_step_ok: "mill_step m m' \<Longrightarrow> mill_ok m \<Longrightarrow> mill_ok m'"
  by (auto elim!: mill_step.cases intro: handler_step_ok run_ok)

lemma reachable_ok: "reachable_mill m \<Longrightarrow> mill_ok m"
proof (induction rule: reachable_mill.induct)
  case (start m)
  then show ?case by (auto simp: mill_ok_def initial_def)
next
  case (step m m')
  then show ?case using mill_step_ok by blast
qed

text \<open>C1:
  At most one restart is at work for a workspace, it is the one the Mill has registered, and no start
  holds a claim on the workspace then, in every interleaving of admissions, of the steps of the
  restarts, and of starts, stops and exits.
\<close>

theorem one_restart_at_work:
  assumes "reachable_mill m" "map_of (m_runs m) e1 = Some ph1" "map_of (m_heap m) e1 = Some t1" "working ph1"
    and "map_of (m_runs m) e2 = Some ph2" "map_of (m_heap m) e2 = Some t2" "working ph2"
    and "w_config_dir (t_world t1) = w_config_dir (t_world t2)"
  shows "e1 = e2 \<and> map_of (m_transitions m) (w_config_dir (t_world t1)) = Some e1 \<and> w_config_dir (t_world t1) \<notin> set (m_claims m)"
proof -
  have ok: "mill_ok m" by (rule reachable_ok) (fact assms(1))
  then have one: "map_of (m_transitions m) (w_config_dir (t_world t1)) = Some e1"
    and two: "map_of (m_transitions m) (w_config_dir (t_world t2)) = Some e2"
    using assms(2-7) unfolding mill_ok_def by blast+
  have "w_config_dir (t_world t1) \<notin> set (m_claims m)" using ok one unfolding mill_ok_def by force
  with one two assms(8) show ?thesis by simp
qed

text \<open>C6:
  A restart stops the old generation only after a probe of the replacement succeeded: in every
  reachable state a transition whose old generation is recorded as stopped has a successful probe, and
  so has one that is cutting over; from the release of the old child on the old generation is recorded
  as stopped.
\<close>

theorem cutover_only_after_probe:
  assumes "reachable_mill m" "map_of (m_runs m) ident = Some ph" "map_of (m_heap m) ident = Some t"
  shows "(t_old_stopped t \<longrightarrow> (\<exists>p. t_probe t = Some p \<and> pr_success p))
    \<and> (\<forall>p. ph = Stopping p \<or> ph = Releasing p \<or> ph = Launching p \<longrightarrow> pr_success p \<and> t_probe t = Some p)
    \<and> (\<forall>p. ph = Releasing p \<or> ph = Launching p \<longrightarrow> t_old_stopped t)"
proof -
  have "mill_ok m" by (rule reachable_ok) (fact assms(1))
  then have ok: "local_ok t ph" using assms(2,3) unfolding mill_ok_def by blast
  then have "t_old_stopped t \<longrightarrow> (\<exists>p. t_probe t = Some p \<and> pr_success p)" by (auto simp: local_ok_def split: option.splits)
  moreover have "\<forall>p. ph = Stopping p \<or> ph = Releasing p \<or> ph = Launching p \<longrightarrow> pr_success p \<and> t_probe t = Some p"
    using ok by (auto simp: local_ok_def)
  moreover have "\<forall>p. ph = Releasing p \<or> ph = Launching p \<longrightarrow> t_old_stopped t"
    using ok by (auto simp: local_ok_def replacing_def)
  ultimately show ?thesis by blast
qed

text \<open>
  No restart of a temporary Weaver: while a transition is registered the child of its workspace is not
  temporary, and neither is the child a transition launches.
\<close>

fun phase_child :: "phase \<Rightarrow> weaver_child option" where
  "phase_child (Starting p c) = Some c"
| "phase_child (Awaiting p c) = Some c"
| "phase_child (Publishing p c st) = Some c"
| "phase_child ph = None"

definition lasting :: "weaver_child option \<Rightarrow> bool" where
  "lasting c \<longleftrightarrow> (case c of None \<Rightarrow> True | Some c \<Rightarrow> \<not> child_temporary c)"

definition persistent :: "mill \<Rightarrow> bool" where
  "persistent m \<longleftrightarrow>
     (\<forall>dir. map_of (m_transitions m) dir \<noteq> None \<longrightarrow> lasting (map_of (children m) dir))
     \<and> (\<forall>ident ph. map_of (m_runs m) ident = Some ph \<longrightarrow> lasting (phase_child ph))"

lemma lasting_simps [simp]: "lasting None" "lasting (Some c) \<longleftrightarrow> \<not> child_temporary c"
  by (simp_all add: lasting_def)

text \<open>The child of a workspace after a step: the one before, none, or the one the step put there.\<close>

definition child_steps :: "mill \<Rightarrow> mill \<Rightarrow> bool" where
  "child_steps m m' \<longleftrightarrow> (\<forall>d. lasting (map_of (children m) d) \<longrightarrow> lasting (map_of (children m') d))"

lemma child_steps_refl [simp]: "child_steps m m"
  by (simp add: child_steps_def)

lemma child_steps_cong: "children m' = children m1 \<Longrightarrow> child_steps m m1 \<Longrightarrow> child_steps m m'"
  by (simp add: child_steps_def)

lemma release_child_steps: "child_steps m (snd (release_child dir c m))"
  by (auto simp: child_steps_def release_child_def delete_conv' split: option.split)

lemma update_child_steps: "\<not> child_temporary c \<Longrightarrow> child_steps m (update_child dir c m)"
  by (auto simp: child_steps_def update_child_def update_conv' split: option.split)

lemma stop_failed_steps: "child_steps m (snd (stop_failed_replacement i c m))"
proof -
  obtain gone m' where r: "release_child (w_config_dir (child_world c)) c m = (gone, m')" by fastforce
  then have "child_steps m m'" using release_child_steps [of m "w_config_dir (child_world c)" c] by simp
  moreover have "snd (stop_failed_replacement i c m) \<in> {m, m'}"
    by (auto simp: stop_failed_replacement_def Let_def r split: prod.splits sum.splits bool.splits)
  ultimately show ?thesis by auto
qed

lemma set_state_children: "set_transition_state i ident state p f t m = (ok, t1, m1) \<Longrightarrow> children m1 = children m"
  by (rule set_state_effect(6))

lemma put_phase_child: "map_of (m_runs (put_phase ident ph m)) ident = Some ph' \<longleftrightarrow> ph' = ph"
  by auto

text \<open>What a step leaves of its child: a launch puts a fresh one, the others keep theirs.\<close>

definition child_effect :: "mill \<Rightarrow> string \<Rightarrow> mill \<Rightarrow> bool" where
  "child_effect m ident m' \<longleftrightarrow>
     child_steps m m' \<and> (\<forall>ph. map_of (m_runs m') ident = Some ph \<longrightarrow> lasting (phase_child ph))"

lemma child_effect_put: "child_steps m m1 \<Longrightarrow> lasting (phase_child ph) \<Longrightarrow> child_effect m ident (put_phase ident ph m1)"
  by (simp add: child_effect_def child_steps_def)

lemma child_effect_same: "children m1 = children m \<Longrightarrow> lasting (phase_child ph) \<Longrightarrow> child_effect m ident (put_phase ident ph m1)"
  by (rule child_effect_put) (simp_all add: child_steps_def)

lemma run_children:
  assumes r: "map_of (m_runs m) ident = Some ph" and h: "map_of (m_heap m) ident = Some t" and l: "lasting (phase_child ph)"
  shows "child_effect m ident (run_step i token generation ident m)"
proof (cases ph)
  case Registered
  obtain ok t1 m1 where e: "set_transition_state i ident (t_state t) (if t_retry t then t_probe t else None) None t m = (ok, t1, m1)"
    by (metis prod_cases3)
  note c = set_state_children [OF e]
  show ?thesis
    by (simp add: run_step_def r h Registered begin_step_def e Let_def)
       (intro conjI impI child_effect_same; simp add: c)
next
  case Verifying
  show ?thesis
    by (auto simp: run_step_def r h Verifying verify_step_def intro!: child_effect_same split: option.split)
next
  case (CutOver p)
  obtain ok t1 m1 where e: "set_transition_state i ident state_restarting (Some p) None t m = (ok, t1, m1)" by (metis prod_cases3)
  note c = set_state_children [OF e]
  show ?thesis by (auto simp: run_step_def r h CutOver cut_over_step_def e c intro!: child_effect_same)
next
  case (Stopping p)
  show ?thesis by (auto simp: run_step_def r h Stopping stop_step_def intro!: child_effect_same split: prod.split option.split)
next
  case (Stopped p)
  obtain ok t1 m1 where e: "set_transition_state i ident state_restarting (Some p) None t m = (ok, t1, m1)" by (metis prod_cases3)
  note c = set_state_children [OF e]
  show ?thesis by (auto simp: run_step_def r h Stopped stopped_step_def e c intro!: child_effect_same)
next
  case (Releasing p)
  show ?thesis
    by (auto simp: run_step_def r h Releasing release_step_def intro!: child_effect_put release_child_steps split: option.split)
next
  case (Launching p)
  show ?thesis
    by (auto simp: run_step_def r h Launching launch_step_def Let_def intro!: child_effect_put)
       (auto simp: child_steps_def update_conv')
next
  case (Starting p c)
  then have "\<not> child_temporary c" using l by simp
  then show ?thesis
    by (auto simp: run_step_def r h Starting start_step_def Let_def intro!: child_effect_put release_child_steps update_child_steps)
next
  case (Awaiting p c)
  then have "\<not> child_temporary c" using l by simp
  moreover obtain g m1 where e: "stop_failed_replacement i c m = (g, m1)" by fastforce
  moreover have "child_steps m m1" using stop_failed_steps [of m i c] by (simp add: e)
  ultimately show ?thesis
    by (auto simp: run_step_def r h Awaiting await_step_def Let_def e intro!: child_effect_put update_child_steps split: sum.split)
next
  case (Publishing p c st)
  obtain ok t1 m1 where e: "set_transition_state i ident state_running (Some p) None (t\<lparr>t_generation := child_generation c\<rparr>) m = (ok, t1, m1)"
    by (metis prod_cases3)
  note c = set_state_children [OF e]
  show ?thesis by (auto simp: run_step_def r h Publishing publish_step_def Let_def e c intro!: child_effect_same)
next
  case (ProbeFailing probe message)
  let ?p = "case probe of None \<Rightarrow> transport_probe (t_world t) message | Some p \<Rightarrow> p"
  obtain ok t1 m1 where e: "set_transition_state i ident state_running (Some ?p) (Some (plain_failure_of ''probe'' message [])) t m
      = (ok, t1, m1)" by (metis prod_cases3)
  note c = set_state_children [OF e]
  show ?thesis by (simp add: run_step_def r h ProbeFailing probe_failing_step_def e Let_def child_effect_same c)
next
  case (Failing stage message log dependency)
  obtain ok t1 m1 where e: "set_transition_state i ident state_failed None (Some (plain_failure_of stage message log)) t m = (ok, t1, m1)"
    by (metis prod_cases3)
  note c = set_state_children [OF e]
  show ?thesis by (simp add: run_step_def r h Failing failing_step_def Let_def e c child_effect_same)
next
  case (Completing result err retain)
  have "children (complete_transition ident result err retain t m) = children m"
    by (simp add: complete_transition_def Let_def put_transition_def)
  then show ?thesis by (simp add: run_step_def r h Completing complete_step_def child_effect_same)
next
  case Finished
  then show ?thesis using r by (simp add: run_idle child_effect_def)
qed

lemma persistent_run:
  assumes m: "mill_ok m" and p: "persistent m"
  shows "persistent (run_step i token generation ident m)"
proof (cases "map_of (m_runs m) ident")
  case None
  then show ?thesis using p by (simp add: run_step_def)
next
  case r: (Some ph)
  let ?m = "run_step i token generation ident m"
  from m r obtain t where h: "map_of (m_heap m) ident = Some t" and l: "local_ok t ph" by (rule mill_ok_run)
  have "lasting (phase_child ph)" using p r unfolding persistent_def by blast
  then have e: "child_effect m ident ?m" by (rule run_children [OF r h])
  have runs: "map_of (m_runs ?m) x = map_of (m_runs m) x" if "x \<noteq> ident" for x
  proof (cases "ph = Finished")
    case True
    then show ?thesis using r run_idle by simp
  next
    case False
    then show ?thesis using run_effect [OF r h l False, of i token generation] that unfolding step_effect_def by auto
  qed
  have regs: "map_of (m_transitions m) d \<noteq> None" if "map_of (m_transitions ?m) d \<noteq> None" for d
  proof (cases "\<exists>x y z. ph = Completing x y z")
    case True
    then obtain x y z where "ph = Completing x y z" by blast
    then show ?thesis using that by (auto simp: run_step_def r h complete_frame delete_conv' split: if_splits)
  next
    case False
    then have same: "tables ?m = tables m" by (intro run_frame_plain) (simp add: r)
    then show ?thesis using that by (simp add: claims_of_frame(2) [OF same])
  qed
  show ?thesis
    unfolding persistent_def
  proof (intro conjI allI impI)
    fix d assume "map_of (m_transitions ?m) d \<noteq> None"
    then show "lasting (map_of (children ?m) d)"
      using regs p e unfolding persistent_def child_effect_def child_steps_def by blast
  next
    fix x q assume "map_of (m_runs ?m) x = Some q"
    then show "lasting (phase_child q)"
      using runs [of x] p e unfolding persistent_def child_effect_def by (cases "x = ident") auto
  qed
qed

lemma restart_fresh_persistent:
  assumes p: "persistent m" and new: "map_of (m_runs m) ident = None"
  shows "persistent (snd (restart_fresh i ident generation w m))"
proof -
  let ?dir = "w_config_dir w"
  let ?m = "case map_of (children m) ?dir of None \<Rightarrow> m
    | Some c \<Rightarrow> if living i c then m else m\<lparr>children := AList.delete ?dir (children m)\<rparr>"
  have same: "m_runs ?m = m_runs m" "m_transitions ?m = m_transitions m" by (auto split: option.split)
  have steps: "child_steps m ?m" by (auto simp: child_steps_def delete_conv' split: option.split)
  have kids: "persistent ?m" using p steps unfolding persistent_def same child_steps_def by blast
  show ?thesis
  proof (cases "case map_of (children m) ?dir of None \<Rightarrow> False | Some c \<Rightarrow> child_temporary c")
    case True
    then show ?thesis using p by (simp add: restart_fresh_def)
  next
    case False
    then have mine: "lasting (map_of (children m) ?dir)" by (simp add: lasting_def split: option.splits)
    then have mine': "lasting (map_of (children ?m) ?dir)" using steps unfolding child_steps_def by blast
    show ?thesis
    proof (cases "restart_subject i w ?m")
      case (Inl e)
      show ?thesis unfolding restart_fresh_def Let_def if_not_P [OF False] Inl using kids by simp
    next
      case (Inr found)
      obtain old retry where found: "found = (old, retry)" by fastforce
      let ?old = "map_option (\<lambda>c. if child_generation c = [] then c\<lparr>child_generation := generation\<rparr> else c) old"
      have old: "lasting old"
        using Inr found mine' unfolding restart_subject_def Let_def
        by (auto simp: adopt_def Let_def split: option.splits sum.splits if_splits)
      then have old': "lasting ?old" by (auto simp: lasting_def split: option.splits)
      define kids' where "kids' = (case ?old of Some c \<Rightarrow> if child_unsupervised c then children ?m else AList.update ?dir c (children ?m)
          | None \<Rightarrow> children ?m)"
      have put: "lasting (map_of (case q of Some c \<Rightarrow> if child_unsupervised c then cs else AList.update ?dir c cs | None \<Rightarrow> cs) d)"
        if "lasting q" "lasting (map_of cs ?dir)" "d = ?dir \<or> lasting (map_of cs d)" for q cs d
        using that by (auto simp: update_conv' split: option.split)
      have "lasting (map_of kids' d)" if "d = ?dir \<or> lasting (map_of (children ?m) d)" for d
        unfolding kids'_def by (rule put [OF old' mine' that])
      moreover have "children (snd (restart_fresh i ident generation w m)) = kids'"
        unfolding restart_fresh_def Let_def if_not_P [OF False] Inr found sum.case prod.case snd_conv kids'_def
          put_phase_simps put_transition_simps by simp
      moreover have "map_of (m_transitions (snd (restart_fresh i ident generation w m))) = (map_of (m_transitions ?m))(?dir \<mapsto> ident)"
        "map_of (m_runs (snd (restart_fresh i ident generation w m))) = (map_of (m_runs ?m))(ident \<mapsto> Registered)"
        unfolding restart_fresh_def Let_def if_not_P [OF False] Inr found sum.case prod.case snd_conv
        by (simp_all add: update_conv' put_phase_def put_transition_def)
      ultimately show ?thesis using kids unfolding persistent_def by simp
    qed
  qed
qed

lemma persistent_step:
  assumes step: "mill_step m m'" and ok: "mill_ok m" and p: "persistent m"
  shows "persistent m'"
  using step
proof (cases rule: mill_step_elim)
  case (admit ident i generation w)
  then have "map_of (m_heap m) ident = None" by (simp add: map_of_eq_None_iff)
  then have new: "map_of (m_runs m) ident = None" using mill_ok_dom [OF ok] by simp
  have "persistent (m\<lparr>m_transitions := AList.delete (w_config_dir w) (m_transitions m)\<rparr>)"
    using p by (simp add: persistent_def delete_conv')
  then show ?thesis
    using restart_fresh_persistent [OF p new] restart_fresh_persistent [of "m\<lparr>m_transitions := AList.delete (w_config_dir w) (m_transitions m)\<rparr>"]
      new p unfolding admit(1)
    by (simp add: restart_admit_def Let_def split: option.split)
next
  case (run i token generation ident)
  then show ?thesis using persistent_run [OF ok p] by simp
next
  case (claimed dir c)
  then have "map_of (m_transitions m) dir = None" using ok by (simp add: mill_ok_def)
  then show ?thesis using p claimed by (auto simp: persistent_def update_conv')
next
  case (gone dir)
  then show ?thesis using p by (auto simp: persistent_def delete_conv')
qed (use p in \<open>simp_all add: persistent_def\<close>)

lemma reachable_persistent: "reachable_mill m \<Longrightarrow> persistent m"
proof (induction rule: reachable_mill.induct)
  case (start m)
  then show ?case by (simp add: persistent_def initial_def)
next
  case (step m m')
  show ?case by (rule persistent_step [OF step.hyps(2) reachable_ok [OF step.hyps(1)] step.IH])
qed

text \<open>The steps of one transition, each with inputs of its own.\<close>

fun drive :: "(inputs \<times> string \<times> string) list \<Rightarrow> string \<Rightarrow> mill \<Rightarrow> mill" where
  "drive [] ident m = m"
| "drive ((i, token, generation) # xs) ident m = drive xs ident (run_step i token generation ident m)"

lemma run_descends:
  assumes "mill_ok m" "map_of (m_runs m) ident = Some ph"
  obtains ph' where "map_of (m_runs (run_step i token generation ident m)) ident = Some ph'" "rank ph' \<le> rank ph - 1"
proof (cases "ph = Finished")
  case True
  then show thesis using assms(2) run_idle that by simp
next
  case False
  from assms obtain t where h: "map_of (m_heap m) ident = Some t" and ok: "local_ok t ph" by (rule mill_ok_run)
  obtain ph' where "map_of (m_runs (run_step i token generation ident m)) = (map_of (m_runs m))(ident \<mapsto> ph')" "rank ph' < rank ph"
    using run_effect [OF assms(2) h ok False, of i token generation] unfolding step_effect_def by blast
  then show thesis using that by simp
qed

lemma drive_ends:
  "mill_ok m \<Longrightarrow> map_of (m_runs m) ident = Some ph \<Longrightarrow> rank ph \<le> length xs \<Longrightarrow>
   mill_ok (drive xs ident m) \<and> map_of (m_runs (drive xs ident m)) ident = Some Finished"
proof (induction xs arbitrary: m ph)
  case Nil
  then show ?case by (cases ph) simp_all
next
  case (Cons x xs)
  obtain i token generation where x: "x = (i, token, generation)" by (cases x)
  let ?m = "run_step i token generation ident m"
  obtain ph' where "map_of (m_runs ?m) ident = Some ph'" "rank ph' \<le> rank ph - 1"
    using Cons.prems(1,2) by (rule run_descends)
  then show ?case using Cons.IH [OF run_ok [OF Cons.prems(1)]] Cons.prems(3) by (simp add: x)
qed

lemma rank_bound: "rank ph \<le> 12"
  by (cases ph) simp_all

text \<open>C29:
  Every restart comes to its end: from any reachable state, twelve further steps of the transition reach
  its end, whatever the probe, the file system, the processes and the clock answer; then \<open>done\<close> was
  closed exactly once, so that every caller waiting on it is answered and none panics, and the answer
  holds a status or an error.
\<close>

theorem every_restart_ends:
  assumes "reachable_mill m" "map_of (m_runs m) ident = Some ph" "12 \<le> length xs"
  shows "\<exists>t. map_of (m_runs (drive xs ident m)) ident = Some Finished \<and> map_of (m_heap (drive xs ident m)) ident = Some t
    \<and> t_closed t = 1 \<and> (t_result t \<noteq> None \<or> t_err t \<noteq> None)"
proof -
  have "rank ph \<le> length xs" using rank_bound [of ph] assms(3) by simp
  with drive_ends [OF reachable_ok [OF assms(1)] assms(2)]
  have ok: "mill_ok (drive xs ident m)" and ended: "map_of (m_runs (drive xs ident m)) ident = Some Finished" by auto
  from ok ended obtain t where "map_of (m_heap (drive xs ident m)) ident = Some t" "local_ok t Finished" by (rule mill_ok_run)
  with ended show ?thesis by (auto simp: local_ok_def)
qed

section \<open>What a crash finds\<close>

text \<open>The phases between the end of the old generation and the end of the transition.\<close>

fun launching :: "phase \<Rightarrow> bool" where
  "launching (Releasing p) = True"
| "launching (Launching p) = True"
| "launching (Starting p c) = True"
| "launching (Awaiting p c) = True"
| "launching (Publishing p c st) = True"
| "launching ph = False"

definition stop_recorded :: "mill \<Rightarrow> transition \<Rightarrow> bool" where
  "stop_recorded m t \<longleftrightarrow>
     t_state t = state_restarting
     \<and> (\<exists>now. map_of (m_disk m) (w_state_dir (t_world t))
            = Some (Text (encode_record ((transition_record None t)\<lparr>rr_updated_at := now\<rparr>)) RestEof))"

definition durable :: "mill \<Rightarrow> bool" where
  "durable m \<longleftrightarrow>
     (\<forall>ident t ph. map_of (m_heap m) ident = Some t \<longrightarrow> map_of (m_runs m) ident = Some ph \<longrightarrow> launching ph \<longrightarrow> stop_recorded m t)"

text \<open>No two workspaces share a state directory.\<close>

definition separate :: "mill \<Rightarrow> bool" where
  "separate m \<longleftrightarrow>
     (\<forall>e1 e2 t1 t2. map_of (m_heap m) e1 = Some t1 \<longrightarrow> map_of (m_heap m) e2 = Some t2 \<longrightarrow>
        w_state_dir (t_world t1) = w_state_dir (t_world t2) \<longrightarrow> w_config_dir (t_world t1) = w_config_dir (t_world t2))"

lemma set_state_recorded:
  assumes "set_transition_state i ident state_restarting probe None t m = (True, t', m')"
  shows "stop_recorded m' t'"
  using set_state_effect(1,8) [OF assms] by (auto simp: stop_recorded_def)

lemma stop_recorded_phase [simp]: "stop_recorded (put_phase e ph m) t \<longleftrightarrow> stop_recorded m t"
  by (simp add: stop_recorded_def)

lemma run_recorded:
  assumes h: "map_of (m_heap m) ident = Some t" and r: "map_of (m_runs m) ident = Some ph"
    and d: "launching ph \<Longrightarrow> stop_recorded m t"
    and h': "map_of (m_heap (run_step i token generation ident m)) ident = Some t'"
    and r': "map_of (m_runs (run_step i token generation ident m)) ident = Some ph'" and l: "launching ph'"
  shows "stop_recorded (run_step i token generation ident m) t'"
proof -
  have f: "m_disk m1 = m_disk m" "m_heap m1 = m_heap m" if "stop_failed_replacement i c m = (g, m1)" for c g m1
    using stop_failed_frame(1,4) [of i c m] that by simp_all
  have s: "stop_recorded m1 t1" "map_of (m_heap m1) ident = Some t1"
    if "set_transition_state i ident state_restarting p None t m = (True, t1, m1)" for p t1 m1
    using set_state_recorded [OF that] set_state_effect(2) [OF that] by simp_all
  show ?thesis
  proof (cases ph)
    case (CutOver p)
    obtain ok t1 m1 where e: "set_transition_state i ident state_restarting (Some p) None t m = (ok, t1, m1)" by (metis prod_cases3)
    have ok using r' l by (auto simp: run_step_def r h CutOver cut_over_step_def e split: if_splits)
    with s [of "Some p" t1 m1] e h' show ?thesis
      by (simp add: run_step_def r h CutOver cut_over_step_def e split: if_splits)
  next
    case (Stopped p)
    obtain ok t1 m1 where e: "set_transition_state i ident state_restarting (Some p) None t m = (ok, t1, m1)" by (metis prod_cases3)
    have ok using r' l by (auto simp: run_step_def r h Stopped stopped_step_def e split: if_splits)
    with s [of "Some p" t1 m1] e h' show ?thesis
      by (simp add: run_step_def r h Stopped stopped_step_def e split: if_splits)
  next
    case Registered
    have False using r' l by (auto simp: run_step_def h r Registered begin_step_def Let_def split: prod.splits if_splits)
    then show ?thesis ..
  next
    case Verifying
    have False using r' l by (auto simp: run_step_def h r Verifying verify_step_def split: option.splits if_splits)
    then show ?thesis ..
  next
    case (Stopping p)
    have False using r' l by (auto simp: run_step_def h r Stopping stop_step_def split: prod.splits option.splits)
    then show ?thesis ..
  next
    case (ProbeFailing probe message)
    have False using r' l
      by (auto simp: run_step_def h r ProbeFailing probe_failing_step_def Let_def split: prod.splits if_splits)
    then show ?thesis ..
  next
    case (Failing stage message log dependency)
    have False using r' l by (auto simp: run_step_def h r Failing failing_step_def Let_def split: prod.splits)
    then show ?thesis ..
  next
    case (Completing result err retain)
    have False using r' l by (auto simp: run_step_def h r Completing complete_step_def)
    then show ?thesis ..
  next
    case Finished
    then show ?thesis using r' l r by (auto simp: run_idle)
  next
    case (Publishing p c st)
    have False using r' l by (auto simp: run_step_def h r Publishing publish_step_def Let_def split: prod.splits if_splits)
    then show ?thesis ..
  next
    case (Releasing p)
    have "t' = t \<and> m_disk (run_step i token generation ident m) = m_disk m"
      using h' by (auto simp: run_step_def h r Releasing release_step_def split: option.splits if_splits)
    then show ?thesis using d by (simp add: Releasing stop_recorded_def)
  next
    case (Launching p)
    have "t' = t \<and> m_disk (run_step i token generation ident m) = m_disk m"
      using h' by (auto simp: run_step_def h r Launching launch_step_def Let_def split: option.splits if_splits)
    then show ?thesis using d by (simp add: Launching stop_recorded_def)
  next
    case (Starting p c)
    have "t' = t \<and> m_disk (run_step i token generation ident m) = m_disk m"
      using h' by (auto simp: run_step_def h r Starting start_step_def Let_def split: option.splits if_splits)
    then show ?thesis using d by (simp add: Starting stop_recorded_def)
  next
    case (Awaiting p c)
    obtain g m1 where e: "stop_failed_replacement i c m = (g, m1)" by fastforce
    have "t' = t \<and> m_disk (run_step i token generation ident m) = m_disk m"
      using h' by (auto simp: run_step_def h r Awaiting await_step_def Let_def e f [OF e] split: sum.splits if_splits)
    then show ?thesis using d by (simp add: Awaiting stop_recorded_def)
  qed
qed

lemma restart_fresh_effect:
  "m_disk (snd (restart_fresh i ident generation w m)) = m_disk m
   \<and> (m_heap (snd (restart_fresh i ident generation w m)) = m_heap m \<and> m_runs (snd (restart_fresh i ident generation w m)) = m_runs m
      \<or> (\<exists>t. map_of (m_heap (snd (restart_fresh i ident generation w m))) = (map_of (m_heap m))(ident \<mapsto> t)
          \<and> map_of (m_runs (snd (restart_fresh i ident generation w m))) = (map_of (m_runs m))(ident \<mapsto> Registered)))"
proof -
  let ?dir = "w_config_dir w"
  let ?m = "case map_of (children m) ?dir of None \<Rightarrow> m
    | Some c \<Rightarrow> if living i c then m else m\<lparr>children := AList.delete ?dir (children m)\<rparr>"
  have same: "m_heap ?m = m_heap m" "m_runs ?m = m_runs m" "m_disk ?m = m_disk m"
    by (auto split: option.split)
  show ?thesis
  proof (cases "case map_of (children m) ?dir of None \<Rightarrow> False | Some c \<Rightarrow> child_temporary c")
    case True
    then show ?thesis by (simp add: restart_fresh_def)
  next
    case False
    show ?thesis
    proof (cases "restart_subject i w ?m")
      case (Inl e)
      show ?thesis unfolding restart_fresh_def Let_def if_not_P [OF False] Inl by (simp add: same)
    next
      case (Inr found)
      obtain old retry where found: "found = (old, retry)" by fastforce
      show ?thesis
        unfolding restart_fresh_def Let_def if_not_P [OF False] Inr found sum.case prod.case snd_conv
        by (simp add: same update_conv' put_phase_def put_transition_def) blast
    qed
  qed
qed

lemma restart_admit_effect:
  "m_disk (snd (restart_admit i ident generation w m)) = m_disk m
   \<and> (m_heap (snd (restart_admit i ident generation w m)) = m_heap m \<and> m_runs (snd (restart_admit i ident generation w m)) = m_runs m
      \<or> (\<exists>t. map_of (m_heap (snd (restart_admit i ident generation w m))) = (map_of (m_heap m))(ident \<mapsto> t)
          \<and> map_of (m_runs (snd (restart_admit i ident generation w m))) = (map_of (m_runs m))(ident \<mapsto> Registered)))"
  using restart_fresh_effect [of i ident generation w m]
    restart_fresh_effect [of i ident generation w "m\<lparr>m_transitions := AList.delete (w_config_dir w) (m_transitions m)\<rparr>"]
  by (simp add: restart_admit_def Let_def split: option.split)

lemma durable_step:
  assumes step: "mill_step m m'" and ok: "mill_ok m" and d: "durable m" and sep: "separate m'"
  shows "durable m'"
  using step
proof (cases rule: mill_step_elim)
  case (run i token generation e)
  show ?thesis
  proof (cases "map_of (m_runs m) e")
    case None
    then show ?thesis using run d by (simp add: run_step_def)
  next
    case (Some ph)
    note re = \<open>map_of (m_runs m) e = Some ph\<close>
    from ok re obtain t where h: "map_of (m_heap m) e = Some t" and l: "local_ok t ph"
      and w: "working ph \<Longrightarrow> map_of (m_transitions m) (w_config_dir (t_world t)) = Some e" by (rule mill_ok_run) auto
    show ?thesis
    proof (cases "ph = Finished")
      case True
      then show ?thesis using run d re run_idle by simp
    next
      case False
      obtain t' ph' where heap: "map_of (m_heap m') = (map_of (m_heap m))(e \<mapsto> t')"
        and runs: "map_of (m_runs m') = (map_of (m_runs m))(e \<mapsto> ph')" and t': "t_world t' = t_world t"
        using run_effect [OF re h l False, of i token generation] unfolding run step_effect_def by blast
      show ?thesis
        unfolding durable_def
      proof (intro allI impI)
        fix x u q
        assume hx: "map_of (m_heap m') x = Some u" and rx: "map_of (m_runs m') x = Some q" and lq: "launching q"
        show "stop_recorded m' u"
        proof (cases "x = e")
          case True
          show ?thesis
            using run_recorded [OF h re, of i token generation u q] hx rx lq d h re unfolding True durable_def run by blast
        next
          case other: False
          have hm: "map_of (m_heap m) x = Some u" and rm: "map_of (m_runs m) x = Some q" using hx rx other by (simp_all add: heap runs)
          have old: "stop_recorded m u" using d hm rm lq unfolding durable_def by blast
          have "rank ph < 2 \<or> w_state_dir (t_world u) \<noteq> w_state_dir (t_world t)"
          proof (rule ccontr)
            assume "\<not> ?thesis"
            then have "working ph" and "w_state_dir (t_world u) = w_state_dir (t_world t')" by (simp_all add: working_rank t')
            moreover have "map_of (m_heap m') e = Some t'" by (simp add: heap)
            ultimately have "w_config_dir (t_world u) = w_config_dir (t_world t')" using sep hx unfolding separate_def by blast
            moreover have "working q" using lq by (cases q) (simp_all add: working_def)
            then have "map_of (m_transitions m) (w_config_dir (t_world u)) = Some x" using ok hm rm unfolding mill_ok_def by blast
            ultimately show False using w \<open>working ph\<close> other by (simp add: t')
          qed
          then have "map_of (m_disk m') (w_state_dir (t_world u)) = map_of (m_disk m) (w_state_dir (t_world u))"
            unfolding run by (rule run_disk [OF h re])
          with old show ?thesis by (simp add: stop_recorded_def)
        qed
      qed
    qed
  qed
next
  case (admit ident i generation w)
  have new: "map_of (m_heap m) ident = None" using admit by (simp add: map_of_eq_None_iff)
  from restart_admit_effect [of i ident generation w m] consider
      "m_heap m' = m_heap m" "m_runs m' = m_runs m" "m_disk m' = m_disk m"
    | t where "map_of (m_heap m') = (map_of (m_heap m))(ident \<mapsto> t)"
      "map_of (m_runs m') = (map_of (m_runs m))(ident \<mapsto> Registered)" "m_disk m' = m_disk m"
    unfolding admit(1) by blast
  then show ?thesis
  proof cases
    case 1
    then show ?thesis using d by (simp add: durable_def stop_recorded_def)
  next
    case (2 t)
    then show ?thesis using d by (auto simp: durable_def stop_recorded_def)
  qed
qed (use d in \<open>auto simp: durable_def stop_recorded_def\<close>)

lemma step_keeps_worlds:
  assumes "mill_step m m'" "mill_ok m" "map_of (m_heap m) e = Some t"
  obtains t' where "map_of (m_heap m') e = Some t'" "t_world t' = t_world t"
  using assms(1)
proof (cases rule: mill_step_elim)
  case (run i token generation ident)
  show thesis
  proof (cases "map_of (m_runs m) ident = None \<or> map_of (m_runs m) ident = Some Finished")
    case True
    then have "m' = m" using run by (auto simp: run_idle) (simp add: run_step_def)
    then show thesis using assms(3) that by simp
  next
    case False
    then obtain ph where r: "map_of (m_runs m) ident = Some ph" and nf: "ph \<noteq> Finished" by auto
    from assms(2) r obtain u where h: "map_of (m_heap m) ident = Some u" and l: "local_ok u ph" by (rule mill_ok_run)
    obtain u' where "map_of (m_heap m') = (map_of (m_heap m))(ident \<mapsto> u')" "t_world u' = t_world u"
      using run_effect [OF r h l nf, of i token generation] unfolding run step_effect_def by blast
    then show thesis using assms(3) h that by (cases "e = ident") auto
  qed
next
  case (admit ident i generation w)
  have "map_of (m_heap m) ident = None" using admit by (simp add: map_of_eq_None_iff)
  then have "map_of (m_heap m') e = Some t"
    using restart_admit_effect [of i ident generation w m] assms(3) unfolding admit(1) by auto
  then show thesis using that by simp
qed (use assms(3) that in auto)

lemma separate_step:
  assumes "mill_step m m'" "mill_ok m" "separate m'"
  shows "separate m"
  unfolding separate_def
proof (intro allI impI)
  fix e1 e2 t1 t2
  assume h1: "map_of (m_heap m) e1 = Some t1" and h2: "map_of (m_heap m) e2 = Some t2"
    and eq: "w_state_dir (t_world t1) = w_state_dir (t_world t2)"
  obtain u1 where "map_of (m_heap m') e1 = Some u1" "t_world u1 = t_world t1" by (rule step_keeps_worlds [OF assms(1,2) h1])
  moreover obtain u2 where "map_of (m_heap m') e2 = Some u2" "t_world u2 = t_world t2" by (rule step_keeps_worlds [OF assms(1,2) h2])
  ultimately show "w_config_dir (t_world t1) = w_config_dir (t_world t2)" using assms(3) eq unfolding separate_def by metis
qed

lemma reachable_durable: "reachable_mill m \<Longrightarrow> separate m \<Longrightarrow> durable m"
proof (induction rule: reachable_mill.induct)
  case (start m)
  then show ?case by (simp add: durable_def initial_def)
next
  case (step m m')
  have ok: "mill_ok m" by (rule reachable_ok) (fact step.hyps(1))
  show ?case by (rule durable_step [OF step.hyps(2) ok step.IH [OF separate_step [OF step.hyps(2) ok step.prems]] step.prems])
qed

text \<open>C30:
  From the release of the old child until the replacement is published, that is, in the phases
  \<open>Releasing\<close>, \<open>Launching\<close>, \<open>Starting\<close>, \<open>Awaiting\<close> and \<open>Publishing\<close>, the file of the workspace holds a
  record that proves the stop of the old generation, if no two workspaces share a state directory:
  whenever the Mill crashes in these phases, what it left is the encoding of a record in state
  restarting, of this transition, with the old generation stopped, a successful probe and no failure.
\<close>

theorem crash_finds_the_stop:
  assumes "reachable_mill m" "separate m" "map_of (m_runs m) ident = Some ph" "map_of (m_heap m) ident = Some t" "launching ph"
  shows "\<exists>r. map_of (m_disk m) (w_state_dir (t_world t)) = Some (Text (encode_record r) RestEof)
    \<and> rr_state r = state_restarting \<and> rr_transition r = ident \<and> rr_old_stopped r \<and> probe_succeeded r \<and> rr_failure r = None"
proof -
  have m: "mill_ok m" by (rule reachable_ok) (fact assms(1))
  then have l: "local_ok t ph" and ident: "t_id t = ident" using assms(3,4) unfolding mill_ok_def by blast+
  have "t_old_stopped t" using l assms(5) by (cases ph) (auto simp: local_ok_def replacing_def)
  moreover from this have "probe_succeeded (transition_record None t)"
    using l by (simp add: local_ok_def probe_succeeded_def transition_record_def)
  moreover have "stop_recorded m t"
    using reachable_durable [OF assms(1,2)] assms(3-5) unfolding durable_def by blast
  then obtain now where "t_state t = state_restarting" "map_of (m_disk m) (w_state_dir (t_world t))
      = Some (Text (encode_record ((transition_record None t)\<lparr>rr_updated_at := now\<rparr>)) RestEof)"
    by (auto simp: stop_recorded_def)
  ultimately show ?thesis
    by (intro exI [of _ "(transition_record None t)\<lparr>rr_updated_at := now\<rparr>"] conjI)
       (simp_all add: transition_record_def probe_succeeded_def ident)
qed

section \<open>Failures of a retry\<close>

lemma write_refused:
  assumes "set_transition_state i ident state probe failure t m = (ok, t', m')"
    and "\<not> in_io i \<or> validate_restart_record ForWrite (transition_record failure (enter_state state probe t)) \<noteq> None"
  shows "\<not> ok"
  using set_state_effect(1,7) [OF assms(1)] assms(2)
  by (auto simp: write_restart_record_def Let_def split: option.splits if_splits)

text \<open>
  After the old generation stopped, only a failure of the launch can be recorded: the failure of another
  stage leaves the record as it was.
\<close>

lemma late_failure_unrecorded:
  assumes "t_old_stopped t" "stage \<noteq> ''launch''"
    and e: "set_transition_state i ident state_failed None (Some (plain_failure_of stage message log)) t m = (ok, t', m')"
  shows "\<not> ok" "map_of (m_disk m') = map_of (m_disk m)"
proof -
  have "validate_restart_record ForWrite
      (transition_record (Some (plain_failure_of stage message log)) (enter_state state_failed None t)) \<noteq> None"
    using assms(1,2) by (simp add: record_accepted transition_record_def plain_failure_of_def stage_of_def)
  with write_refused [OF e] show "\<not> ok" by blast
  with set_state_effect(9) [OF e] show "map_of (m_disk m') = map_of (m_disk m)" by blast
qed

text \<open>A failed launch can be retried by another restart, but not a retry that fails before it launches.  When
  the source cannot be resolved in a retry, the failure, of stage probe, is refused as a record, because
  the old generation is stopped; the file keeps the state restarting, and the next restart finds no
  failed record to retry and answers that no Weaver is running.
\<close>

theorem failed_retry_cannot_be_retried:
  assumes "map_of (m_runs m) ident = Some (ProbeFailing probe message)" "map_of (m_heap m) ident = Some t"
    and "t_retry t" "t_old_stopped t"
    and "map_of (m_transitions m) (w_config_dir (t_world t)) = Some ident" "w_config_dir (t_world t) \<notin> set (m_claims m)"
    and "map_of (children m) (w_config_dir (t_world t)) = None"
    and "record_outcome j m (t_world t) = Ok (Some r)" "rr_state r = state_restarting"
    and "in_metadata j = NoMetadata" "in_metadata2 j = NoMetadata"
  shows "fst (restart_admit j e g (t_world t) (drive [x1, x2, x3] ident m)) = Refused NoRunningWeaver"
proof -
  let ?dir = "w_config_dir (t_world t)"
  obtain i1 o1 g1 i2 o2 g2 i3 o3 g3 where x: "x1 = (i1, o1, g1)" "x2 = (i2, o2, g2)" "x3 = (i3, o3, g3)" by (metis prod_cases3)
  let ?m1 = "put_phase ident (Failing ''probe'' message [] []) m"
  have m1: "run_step i1 o1 g1 ident m = ?m1" using assms(1-3) by (simp add: run_step_def probe_failing_step_def)
  obtain ok t2 m2 where e2: "set_transition_state i2 ident state_failed None (Some (plain_failure_of ''probe'' message [])) t ?m1 = (ok, t2, m2)"
    by (metis prod_cases3)
  have bad: "\<not> ok" and disk: "map_of (m_disk m2) = map_of (m_disk m)"
    using late_failure_unrecorded [OF assms(4) _ e2] by simp_all
  note E = set_state_effect [OF e2]
  have t2: "t_world t2 = t_world t" "t_state t2 = state_failed" by (simp_all add: E(1))
  obtain st where m2: "run_step i2 o2 g2 ident ?m1 = put_phase ident (Completing (Some st) (Some (in_text i2)) True) m2"
    using bad assms(2) by (simp add: run_step_def failing_step_def Let_def e2)
  let ?m2 = "put_phase ident (Completing (Some st) (Some (in_text i2)) True) m2"
  let ?m3 = "run_step i3 o3 g3 ident ?m2"
  have m3: "?m3 = complete_step ident (Some st) (Some (in_text i2)) True t2 ?m2"
    using E(2) by (simp add: run_step_def)
  have after: "map_of (m_disk ?m3) = map_of (m_disk m)" "m_claims ?m3 = m_claims m" "m_transitions ?m3 = m_transitions m"
    "children ?m3 = children m" "map_of (m_heap ?m3) ident = Some (t2\<lparr>t_result := Some st, t_err := Some (in_text i2), t_closed := t_closed t2 + 1\<rparr>)"
    using E(4-6) disk unfolding m3
    by (simp_all add: complete_step_def complete_transition_def Let_def tables_def put_phase_def put_transition_def update_conv')
  let ?m = "?m3\<lparr>m_transitions := AList.delete ?dir (m_transitions ?m3)\<rparr>"
  have rec: "record_outcome j ?m (t_world t) = Ok (Some r)"
    using assms(8) by (simp add: record_outcome_def after(1) split: if_split_asm)
  have sub: "restart_subject j (t_world t) ?m = Err NoRunningWeaver"
    using assms(7,9-11) rec
    by (simp add: restart_subject_def after(4) Let_def read_status_def read_status_with_def fresh_status_def
        state_failed_def state_restarting_def)
  have "restart_admit j e g (t_world t) ?m3 = restart_fresh j e g (t_world t) ?m"
    using assms(5,6) by (simp add: restart_admit_def Let_def after t2)
  also have "fst \<dots> = Refused NoRunningWeaver"
    using assms(7) sub by (simp add: restart_fresh_def Let_def after(4))
  finally show ?thesis by (simp add: x m1 m2)
qed

text \<open>The transition of a retry that ended without an answer to its first write stays registered.\<close>

definition wedged :: "string \<Rightarrow> string \<Rightarrow> mill \<Rightarrow> bool" where
  "wedged dir ident m \<longleftrightarrow>
     map_of (m_transitions m) dir = Some ident \<and> map_of (m_runs m) ident = Some Finished
     \<and> (case map_of (m_heap m) ident of None \<Rightarrow> False | Some t \<Rightarrow> t_state t \<noteq> state_failed)"

lemma restart_fresh_others:
  "d \<noteq> w_config_dir w \<Longrightarrow> map_of (m_transitions (snd (restart_fresh i ident generation w m))) d = map_of (m_transitions m) d"
  unfolding restart_fresh_def Let_def
  by (simp add: update_conv' put_phase_def put_transition_def split: sum.split prod.split option.split)

lemma restart_admit_others:
  "d \<noteq> w_config_dir w \<Longrightarrow> map_of (m_transitions (snd (restart_admit i ident generation w m))) d = map_of (m_transitions m) d"
  unfolding restart_admit_def Let_def
  by (simp add: restart_fresh_others delete_conv' split: option.split prod.split)

lemma restart_joins:
  assumes "wedged dir ident m" "mill_ok m" "w_config_dir w = dir"
  shows "restart_admit i e g w m = (JoinTransition ident, m)"
  using assms by (auto simp: wedged_def mill_ok_def restart_admit_def Let_def split: option.splits)

lemma wedged_run:
  assumes stuck: "wedged dir ident m" and m: "mill_ok m"
  shows "wedged dir ident (run_step i token generation e m)"
proof (cases "map_of (m_runs m) e = None \<or> map_of (m_runs m) e = Some Finished")
  case True
  then show ?thesis using stuck by (auto simp: run_idle) (simp add: run_step_def)
next
  case False
  then obtain ph where r: "map_of (m_runs m) e = Some ph" and nf: "ph \<noteq> Finished" by auto
  then have other: "e \<noteq> ident" using stuck by (auto simp: wedged_def)
  from m r obtain t where h: "map_of (m_heap m) e = Some t" and l: "local_ok t ph" by (rule mill_ok_run)
  let ?m = "run_step i token generation e m"
  obtain t' ph' where heap: "map_of (m_heap ?m) = (map_of (m_heap m))(e \<mapsto> t')" and runs: "map_of (m_runs ?m) = (map_of (m_runs m))(e \<mapsto> ph')"
    using run_effect [OF r h l nf, of i token generation] unfolding step_effect_def by blast
  have "map_of (m_transitions ?m) dir = Some ident"
  proof (cases "\<exists>x y z. ph = Completing x y z")
    case True
    then obtain x y z where "ph = Completing x y z" by blast
    then show ?thesis using stuck other by (auto simp: run_step_def r h complete_frame wedged_def delete_conv')
  next
    case False
    then have same: "tables ?m = tables m" by (intro run_frame_plain) (simp add: r)
    then show ?thesis using stuck by (simp add: claims_of_frame(2) [OF same] wedged_def)
  qed
  then show ?thesis using stuck other by (simp add: wedged_def heap runs)
qed

lemma wedged_step:
  assumes "mill_step m m'" "mill_ok m" "wedged dir ident m"
  shows "wedged dir ident m'"
  using assms(1)
proof (cases rule: mill_step_elim)
  case (run i token generation e)
  then show ?thesis using wedged_run assms(2,3) by simp
next
  case (admit e i generation w)
  show ?thesis
  proof (cases "w_config_dir w = dir")
    case True
    then show ?thesis using restart_joins [OF assms(3,2)] assms(3) admit by simp
  next
    case False
    have "map_of (m_heap m) e = None" using admit by (simp add: map_of_eq_None_iff)
    then have "e \<noteq> ident" using assms(3) by (auto simp: wedged_def)
    moreover have "map_of (m_transitions m') dir = map_of (m_transitions m) dir"
      using False unfolding admit(1) by (intro restart_admit_others) simp
    ultimately show ?thesis
      using assms(3) restart_admit_effect [of i e generation w m] unfolding admit(1) by (auto simp: wedged_def)
  qed
qed (use assms(3) in \<open>simp_all add: wedged_def\<close>)

lemma wedged_forever:
  "mill_step\<^sup>*\<^sup>* m m' \<Longrightarrow> mill_ok m \<Longrightarrow> wedged dir ident m \<Longrightarrow> mill_ok m' \<and> wedged dir ident m'"
  by (induction rule: rtranclp_induct) (auto intro: mill_step_ok wedged_step)

text \<open>A retry whose first record cannot be written ends with the error of the write, and its transition stays
  registered in state restarting.  Whatever the Mill does from then on, every restart of the workspace
  joins this ended transition and is answered with its old error: until the Mill itself restarts the
  workspace cannot be restarted.
\<close>

theorem retry_write_failure_wedges:
  assumes "reachable_mill m" "map_of (m_runs m) ident = Some Registered" "map_of (m_heap m) ident = Some t" "t_retry t"
    and "\<not> in_io i" and "mill_step\<^sup>*\<^sup>* (drive [(i, token, generation), x] ident m) m'" and "w_config_dir w = w_config_dir (t_world t)"
  shows "restart_admit j e g w m' = (JoinTransition ident, m')"
proof -
  obtain i2 token2 generation2 where x: "x = (i2, token2, generation2)" by (cases x)
  have m: "mill_ok m" by (rule reachable_ok) (fact assms(1))
  then have l: "local_ok t Registered" and reg: "map_of (m_transitions m) (w_config_dir (t_world t)) = Some ident"
    using assms(2,3) unfolding mill_ok_def working_def by fastforce+
  obtain ok t1 m1 where e: "set_transition_state i ident (t_state t) (t_probe t) None t m = (ok, t1, m1)" by (metis prod_cases3)
  have "\<not> ok" by (rule write_refused [OF e]) (use assms(5) in blast)
  let ?m1 = "put_phase ident (Completing None (Some (in_text i)) True) m1"
  have m1: "run_step i token generation ident m = ?m1"
    using \<open>\<not> ok\<close> assms(2-4) by (simp add: run_step_def begin_step_def e)
  note E = set_state_effect [OF e]
  have m2: "run_step i2 token2 generation2 ident ?m1 = complete_step ident None (Some (in_text i)) True t1 ?m1"
    using E(2) by (simp add: run_step_def)
  have "wedged (w_config_dir (t_world t)) ident (drive [(i, token, generation), x] ident m)"
    using E(1) reg l by (simp add: x m1 m2 complete_frame wedged_def E(5)) (simp add: complete_step_def complete_heap E local_ok_def)
  moreover have "mill_ok (drive [(i, token, generation), x] ident m)" using m by (simp add: x run_ok)
  ultimately have "mill_ok m'" "wedged (w_config_dir (t_world t)) ident m'" using wedged_forever [OF assms(6)] by blast+
  then show ?thesis using restart_joins assms(7) by blast
qed

section \<open>A concrete retry\<close>

definition demo_failed :: restart_record where
  "demo_failed = demo_cutover\<lparr>rr_state := state_failed,
     rr_failure := Some \<lparr>rf_stage = ''launch'', rf_message = ''m'', rf_log = ''/l'', rf_evidence = []\<rparr>\<rparr>"

definition demo_inputs :: inputs where
  "demo_inputs = \<lparr>in_now = ''2026'', in_io = True, in_unreadable = False, in_text = ''e'', in_configured = Ok [],
     in_env = \<lparr>env_alive = (\<lambda>_. True), env_real = Some\<rparr>, in_metadata = NoMetadata, in_metadata2 = NoMetadata,
     in_fails = False, in_probe = None, in_name = [], in_pid = 9, in_polls = [],
     in_sights = (demo_sight, demo_sight, demo_sight), in_gone = (True, True), in_artifact = ArtifactGone,
     in_removable = (\<lambda>_. True), in_dependency = []\<rparr>"

definition demo_mill :: mill where
  "demo_mill = \<lparr>children = [], custodies = [], pool_hosts = [], stopping = False, m_transitions = [], m_heap = [], m_runs = [],
     m_claims = [], m_epochs = [], m_disk = [(''/s'', Text (encode_record (demo_failed\<lparr>rr_updated_at := ''2026''\<rparr>)) RestEof)]\<rparr>"

definition demo_transition :: transition where
  "demo_transition = \<lparr>t_world = demo_world, t_old = None, t_id = ''t'', t_epoch = 1, t_state = state_restarting, t_cutover = False,
     t_generation = ''g'', t_probe = Some demo_probe, t_retry = True, t_old_stopped = True, t_result = None, t_err = None,
     t_closed = 0\<rparr>"

definition demo_registered :: mill where
  "demo_registered = demo_mill\<lparr>m_transitions := [(''/w'', ''t'')], m_heap := [(''t'', demo_transition)], m_runs := [(''t'', Registered)],
     m_epochs := [(''/w'', 1)]\<rparr>"

lemma demo_failed_valid: "validate_restart_record ForWrite demo_failed = None"
proof -
  have "probe_succeeded demo_failed" by (simp add: probe_succeeded_def demo_failed_def demo_cutover_def demo_probe_def)
  then show ?thesis
    by (simp add: record_accepted demo_probe_valid)
       (simp add: demo_failed_def demo_cutover_def restart_states_def is_space_def demo_probe_valid state_failed_def state_probing_def
          state_running_def)
qed

lemma demo_failed_read:
  "read_restart_record (Ok (Some (Text (encode_record (demo_failed\<lparr>rr_updated_at := ''2026''\<rparr>)) RestEof)))
     = Ok (Some (as_read ''2026'' demo_failed))"
proof (rule record_read_back)
  show "write_restart_record ''2026'' True demo_failed None
      = (None, Some (Text (encode_record (demo_failed\<lparr>rr_updated_at := ''2026''\<rparr>)) RestEof))"
    by (simp add: write_restart_record_def demo_failed_valid) (simp add: demo_failed_def demo_cutover_def demo_probe_def)
  show "plain_record demo_failed"
    by (simp add: plain_record_def demo_failed_def demo_cutover_def demo_probe_def plain_probe_def plain_failure_def utf8_valid_ascii
        state_defs strict_sorted_on_def is_space_def)
qed (rule demo_cutover_plain)+

lemma demo_admitted: "restart_admit demo_inputs ''t'' ''x'' demo_world demo_mill = (StartedTransition ''t'', demo_registered)"
proof -
  have rec: "record_outcome demo_inputs demo_mill demo_world = Ok (Some (as_read ''2026'' demo_failed))"
    using demo_failed_read by (simp add: record_outcome_def demo_inputs_def demo_mill_def demo_world_def)
  have state: "rr_state (as_read ''2026'' demo_failed) = state_failed" and retry: "retryable (as_read ''2026'' demo_failed)"
    by (simp_all add: as_read_def retryable_def demo_failed_def demo_cutover_def stage_of_def probe_succeeded_def demo_probe_def)
  have none: "map_of (children demo_mill) (w_config_dir demo_world) = None" by (simp add: demo_mill_def)
  have gone: "in_metadata demo_inputs = NoMetadata" "in_metadata2 demo_inputs = NoMetadata" by (simp_all add: demo_inputs_def)
  have sub: "restart_subject demo_inputs demo_world demo_mill = Ok (None, Some (as_read ''2026'' demo_failed))"
    using rec state retry by (simp add: restart_subject_def read_status_def read_status_with_def fresh_status_def none gone)
  have fields: "rr_probe (as_read ''2026'' demo_failed) = Some demo_probe" "rr_old_stopped (as_read ''2026'' demo_failed)"
    "rr_generation (as_read ''2026'' demo_failed) = ''g''"
    by (simp_all add: as_read_def demo_failed_def demo_cutover_def)
  have fresh: "restart_fresh demo_inputs ''t'' ''x'' demo_world demo_mill = (StartedTransition ''t'', demo_registered)"
    by (simp add: restart_fresh_def none sub fields)
       (simp add: Let_def demo_mill_def demo_registered_def demo_transition_def put_phase_def put_transition_def demo_world_def)
  have free: "m_claims demo_mill = []" "m_transitions demo_mill = []" by (simp_all add: demo_mill_def)
  show ?thesis by (simp add: restart_admit_def free fresh)
qed

lemma demo_mill_reachable: "reachable_mill demo_registered"
proof -
  have "initial demo_mill" by (simp add: initial_def demo_mill_def)
  then have "reachable_mill demo_mill" by (rule reachable_mill.start)
  moreover have "mill_step demo_mill (snd (restart_admit demo_inputs ''t'' ''x'' demo_world demo_mill))"
    by (rule mill_step.handler, rule handler_step.admit) (simp add: demo_mill_def)
  ultimately show ?thesis unfolding demo_admitted snd_conv by (rule reachable_mill.step)
qed

lemma reachable_run: "reachable_mill m \<Longrightarrow> reachable_mill (run_step i token generation ident m)"
  by (rule reachable_mill.step [OF _ mill_step.run])

lemma reachable_drive: "reachable_mill m \<Longrightarrow> reachable_mill (drive xs ident m)"
  by (induction xs ident m rule: drive.induct) (simp_all add: reachable_run)

text \<open>The retry after its first write, and after its cut-over.\<close>

definition demo_text :: document_text where
  "demo_text = Text (encode_record (demo_cutover\<lparr>rr_previous_generation := [], rr_previous_weaver := [], rr_updated_at := ''2026''\<rparr>)) RestEof"

definition demo_after :: "phase \<Rightarrow> mill" where
  "demo_after ph = demo_registered\<lparr>m_heap := [(''t'', demo_transition\<lparr>t_cutover := True\<rparr>)], m_runs := [(''t'', ph)],
     m_disk := [(''/s'', demo_text)]\<rparr>"

lemma demo_written:
  assumes "t = demo_transition \<or> t = demo_transition\<lparr>t_cutover := True\<rparr>" "map fst (m_disk m) = [''/s'']"
  shows "set_transition_state demo_inputs ''t'' state_restarting (Some demo_probe) None t m
     = (True, demo_transition\<lparr>t_cutover := True\<rparr>,
        (put_transition ''t'' (demo_transition\<lparr>t_cutover := True\<rparr>) m)\<lparr>m_disk := [(''/s'', demo_text)]\<rparr>)"
proof -
  let ?r = "demo_cutover\<lparr>rr_previous_generation := [], rr_previous_weaver := []\<rparr>"
  have e: "enter_state state_restarting (Some demo_probe) t = demo_transition\<lparr>t_cutover := True\<rparr>"
    using assms(1) by (auto simp: enter_state_def demo_transition_def)
  have r: "transition_record None (demo_transition\<lparr>t_cutover := True\<rparr>) = ?r"
    by (simp add: transition_record_def demo_transition_def demo_cutover_def)
  have "probe_succeeded ?r" by (simp add: probe_succeeded_def demo_cutover_def demo_probe_def)
  then have v: "validate_restart_record ForWrite ?r = None"
    by (simp add: record_accepted demo_probe_valid) (simp add: demo_cutover_def restart_states_def is_space_def demo_probe_valid)
  have w: "write_restart_record ''2026'' True ?r old = (None, Some demo_text)" for old
    unfolding write_restart_record_def v by (simp add: demo_cutover_def demo_probe_def demo_text_def)
  have "t_world t = demo_world" using assms(1) by (auto simp: demo_transition_def)
  moreover obtain d where "m_disk m = [(''/s'', d)]" using assms(2) by auto
  ultimately show ?thesis
    by (simp add: set_transition_state_def e r Let_def) (simp add: demo_inputs_def w demo_world_def put_transition_def)
qed

lemma demo_steps:
  "run_step demo_inputs token generation ''t'' demo_registered = demo_after Verifying"
  "run_step demo_inputs token generation ''t'' (demo_after Verifying) = demo_after (CutOver demo_probe)"
  "run_step demo_inputs token generation ''t'' (demo_after (CutOver demo_probe)) = demo_after (Launching demo_probe)"
  "run_step (demo_inputs\<lparr>in_fails := True\<rparr>) token generation ''t'' (demo_after Verifying) = demo_after (ProbeFailing None ''e'')"
proof -
  have f: "t_state demo_transition = state_restarting" "t_retry demo_transition" "t_probe demo_transition = Some demo_probe"
    "t_old demo_transition = None" "pr_success demo_probe"
    by (simp_all add: demo_transition_def demo_probe_def)
  have reg: "map_of (m_heap demo_registered) ''t'' = Some demo_transition" "map_of (m_runs demo_registered) ''t'' = Some Registered"
    "map fst (m_disk demo_registered) = [''/s'']"
    by (simp_all add: demo_registered_def demo_mill_def)
  have aft: "map_of (m_heap (demo_after ph)) ''t'' = Some (demo_transition\<lparr>t_cutover := True\<rparr>)" "map_of (m_runs (demo_after ph)) ''t'' = Some ph"
    "map fst (m_disk (demo_after ph)) = [''/s'']" for ph
    by (simp_all add: demo_after_def)
  note w = demo_written
  show "run_step demo_inputs token generation ''t'' demo_registered = demo_after Verifying"
    by (simp add: run_step_def reg begin_step_def f w)
       (simp add: demo_after_def demo_registered_def put_phase_def put_transition_def)
  show "run_step demo_inputs token generation ''t'' (demo_after Verifying) = demo_after (CutOver demo_probe)"
    by (simp add: run_step_def aft verify_step_def f) (simp add: demo_inputs_def demo_after_def put_phase_def)
  show "run_step demo_inputs token generation ''t'' (demo_after (CutOver demo_probe)) = demo_after (Launching demo_probe)"
    by (simp add: run_step_def aft cut_over_step_def f w) (simp add: demo_after_def put_phase_def put_transition_def)
  show "run_step (demo_inputs\<lparr>in_fails := True\<rparr>) token generation ''t'' (demo_after Verifying) = demo_after (ProbeFailing None ''e'')"
    by (simp add: run_step_def aft verify_step_def) (simp add: demo_inputs_def demo_after_def put_phase_def)
qed

lemma demo_after_reachable: "reachable_mill (demo_after Verifying)" "reachable_mill (demo_after (Launching demo_probe))"
proof -
  have one: "reachable_mill (demo_after Verifying)"
    using reachable_run [OF demo_mill_reachable, of demo_inputs "[]" "[]" "''t''"] by (simp add: demo_steps)
  then have "reachable_mill (demo_after (CutOver demo_probe))"
    using reachable_run [of _ demo_inputs "[]" "[]" "''t''"] demo_steps(2) [of "[]" "[]"] by metis
  then show "reachable_mill (demo_after (Launching demo_probe))"
    using reachable_run [of _ demo_inputs "[]" "[]" "''t''"] demo_steps(3) [of "[]" "[]"] by metis
  show "reachable_mill (demo_after Verifying)" by (rule one)
qed

lemma demo_after_fields:
  "map_of (m_heap (demo_after ph)) ''t'' = Some (demo_transition\<lparr>t_cutover := True\<rparr>)"
  "map_of (m_runs (demo_after ph)) ''t'' = Some ph"
  "m_transitions (demo_after ph) = [(''/w'', ''t'')]" "m_claims (demo_after ph) = []" "children (demo_after ph) = []"
  "t_world (demo_transition\<lparr>t_cutover := True\<rparr>) = demo_world"
  by (simp_all add: demo_after_def demo_registered_def demo_mill_def demo_transition_def)

theorem one_restart_at_work_witness: "map_of (m_transitions (demo_after Verifying)) ''/w'' = Some ''t''"
  using one_restart_at_work [OF demo_after_reachable(1) demo_after_fields(2,1) _ demo_after_fields(2,1)]
  by (simp add: working_def demo_after_fields demo_world_def)

theorem cutover_only_after_probe_witness: "t_old_stopped (demo_transition\<lparr>t_cutover := True\<rparr>) \<and> pr_success demo_probe"
  using cutover_only_after_probe [OF demo_after_reachable(2) demo_after_fields(2,1)] by simp

theorem every_restart_ends_witness:
  "map_of (m_runs (drive (replicate 12 (demo_inputs, ''k'', ''g2'')) ''t'' demo_registered)) ''t'' = Some Finished"
  using every_restart_ends [OF demo_mill_reachable, of "''t''" Registered "replicate 12 (demo_inputs, ''k'', ''g2'')"]
  by (simp add: demo_registered_def)

theorem crash_finds_the_stop_witness:
  "\<exists>r. map_of (m_disk (demo_after (Launching demo_probe))) ''/s'' = Some (Text (encode_record r) RestEof) \<and> rr_old_stopped r"
proof -
  have "separate (demo_after (Launching demo_probe))" by (simp add: separate_def demo_after_def)
  from crash_finds_the_stop [OF demo_after_reachable(2) this demo_after_fields(2,1)]
  show ?thesis unfolding demo_after_fields by (auto simp: demo_world_def)
qed

lemma demo_text_read:
  "\<exists>r. read_restart_record (Ok (Some demo_text)) = Ok (Some r) \<and> rr_state r = state_restarting"
proof (intro exI conjI)
  let ?r = "demo_cutover\<lparr>rr_previous_generation := [], rr_previous_weaver := []\<rparr>"
  have "probe_succeeded ?r" by (simp add: probe_succeeded_def demo_cutover_def demo_probe_def)
  then have v: "validate_restart_record ForWrite ?r = None"
    by (simp add: record_accepted demo_probe_valid) (simp add: demo_cutover_def restart_states_def is_space_def demo_probe_valid)
  show "read_restart_record (Ok (Some demo_text)) = Ok (Some (as_read ''2026'' ?r))"
  proof (rule record_read_back)
    show "write_restart_record ''2026'' True ?r None = (None, Some demo_text)"
      unfolding write_restart_record_def v by (simp add: demo_cutover_def demo_probe_def demo_text_def)
    show "plain_record ?r"
      by (simp add: plain_record_def demo_cutover_def demo_probe_def plain_probe_def utf8_valid_ascii state_defs
          strict_sorted_on_def is_space_def)
  qed (rule demo_cutover_plain)+
  show "rr_state (as_read ''2026'' ?r) = state_restarting" by (simp add: as_read_def demo_cutover_def)
qed

theorem failed_retry_cannot_be_retried_witness:
  "fst (restart_admit demo_inputs ''t2'' ''x'' demo_world
      (drive [(demo_inputs, ''k'', ''g''), (demo_inputs, ''k'', ''g''), (demo_inputs, ''k'', ''g'')] ''t''
        (demo_after (ProbeFailing None ''e'')))) = Refused NoRunningWeaver"
proof -
  let ?m = "demo_after (ProbeFailing None ''e'')"
  obtain r where r: "read_restart_record (Ok (Some demo_text)) = Ok (Some r)" "rr_state r = state_restarting"
    using demo_text_read by blast
  have rec: "record_outcome demo_inputs ?m (t_world (demo_transition\<lparr>t_cutover := True\<rparr>)) = Ok (Some r)"
    unfolding demo_after_fields using r(1) by (simp add: record_outcome_def demo_inputs_def demo_after_def demo_world_def)
  have f: "t_retry (demo_transition\<lparr>t_cutover := True\<rparr>)" "t_old_stopped (demo_transition\<lparr>t_cutover := True\<rparr>)"
    "map_of (m_transitions ?m) (w_config_dir (t_world (demo_transition\<lparr>t_cutover := True\<rparr>))) = Some ''t''"
    "w_config_dir (t_world (demo_transition\<lparr>t_cutover := True\<rparr>)) \<notin> set (m_claims ?m)"
    "map_of (children ?m) (w_config_dir (t_world (demo_transition\<lparr>t_cutover := True\<rparr>))) = None"
    unfolding demo_after_fields by (simp_all add: demo_transition_def demo_world_def)
  have g: "in_metadata demo_inputs = NoMetadata" "in_metadata2 demo_inputs = NoMetadata" by (simp_all add: demo_inputs_def)
  show ?thesis by (rule failed_retry_cannot_be_retried [OF demo_after_fields(2,1) f rec r(2) g, unfolded demo_after_fields])
qed

theorem retry_write_failure_wedges_witness:
  "restart_admit demo_inputs ''t2'' ''x'' demo_world
     (drive [(demo_inputs\<lparr>in_io := False\<rparr>, ''k'', ''g''), (demo_inputs, ''k'', ''g'')] ''t'' demo_registered)
   = (JoinTransition ''t'', drive [(demo_inputs\<lparr>in_io := False\<rparr>, ''k'', ''g''), (demo_inputs, ''k'', ''g'')] ''t'' demo_registered)"
proof -
  have f: "map_of (m_runs demo_registered) ''t'' = Some Registered" "map_of (m_heap demo_registered) ''t'' = Some demo_transition"
    "t_retry demo_transition" "\<not> in_io (demo_inputs\<lparr>in_io := False\<rparr>)" "w_config_dir demo_world = w_config_dir (t_world demo_transition)"
    by (simp_all add: demo_registered_def demo_transition_def)
  show ?thesis by (rule retry_write_failure_wedges [OF demo_mill_reachable f(1-4) rtranclp.rtrancl_refl f(5)])
qed

end
