(* ===== verification/Forward.thy ===== *)
theory Forward
  imports Restart
begin

text \<open>
  Forwarding of invocations to the Weaver of a workspace (\<open>cli/cmd/mill/forward.go\<close>): the choice of the
  target, the boundary that tells a planned cut-over from a failure, the relay of the response, and the
  loop of \<open>handleInvoke\<close> as a machine that shares the admission lock of the workspace with the restarts.

  Only workspaces without a live pool host are in the machine; \<open>admitted_invoke_target\<close> has them as an
  argument.  The socket, the caller's connection and the decoded lines reach a step through its arguments.
\<close>

section \<open>The target of an invocation\<close>

datatype invoke_error =
    NoSelectedWeaver
  | StaleSelected "status_value option"
  | AdmissionInvalid admission_error
  | SelectedRestartFailed string "status option"

datatype choice = Target status | WaitFor string | Reject invoke_error

definition json_entry :: "status \<Rightarrow> string \<Rightarrow> json" where
  "json_entry st k = (case map_of st k of Some (SV v) \<Rightarrow> v | _ \<Rightarrow> JNull)"

text \<open>The metadata of the selected Weaver, absent, stale or fresh.\<close>

definition select_view :: "view \<Rightarrow> (invoke_error, status) result" where
  "select_view v =
     (case v of
        (None, _) \<Rightarrow> Err NoSelectedWeaver
      | (Some st, stale) \<Rightarrow> if stale then Err (StaleSelected (map_of st ''stale_reason'')) else Ok st)"

definition open_admission :: "json \<Rightarrow> admission_error option" where
  "open_admission generation =
     validate_admission_state [(''state'', JStr ''open''), (''generation_id'', generation)]"

definition closed_admission :: "string \<Rightarrow> admission_error option" where
  "closed_admission ident =
     validate_admission_state [(''state'', JStr ''closed''), (''transition_id'', JStr ident)]"

text \<open>\<open>decorateTemporaryStatus\<close>.\<close>

definition decorate_temporary :: "weaver_child option \<Rightarrow> status \<Rightarrow> status" where
  "decorate_temporary c st =
     put (case c of None \<Rightarrow> False | Some c \<Rightarrow> child_temporary c) ''temporary'' (SV (JBool True)) st"

text \<open>A target during the probe of a restart: a legacy Weaver is given the generation the transition drew.\<close>

definition probing_target :: "transition \<Rightarrow> view \<Rightarrow> choice" where
  "probing_target t v =
     (case fresh_status v of
        None \<Rightarrow> Reject (StaleSelected (case fst v of None \<Rightarrow> None | Some st \<Rightarrow> map_of st ''stale_reason''))
      | Some st \<Rightarrow>
          let st = (case t_old t of
                      None \<Rightarrow> st
                    | Some c \<Rightarrow> put (string_status st ''generation_id'' = []) ''generation_id'' (SV (JStr (child_generation c))) st)
          in case open_admission (json_entry st ''generation_id'') of
               Some e \<Rightarrow> Reject (AdmissionInvalid e)
             | None \<Rightarrow> Target st)"

definition plain_target :: "view \<Rightarrow> choice" where
  "plain_target v =
     (case select_view v of
        Inl e \<Rightarrow> Reject e
      | Inr st \<Rightarrow>
          (case text_entry (map_of st ''generation_id'') of
             None \<Rightarrow> Target st
           | Some generation \<Rightarrow>
               (case open_admission (JStr generation) of Some e \<Rightarrow> Reject (AdmissionInvalid e) | None \<Rightarrow> Target st)))"

definition transition_target :: "inputs \<Rightarrow> mill \<Rightarrow> world \<Rightarrow> choice" where
  "transition_target i m w =
     (let v = read_status i (in_metadata i) m w in
      case (case map_of (m_transitions m) (w_config_dir w) of
              None \<Rightarrow> None | Some e \<Rightarrow> map_option (Pair e) (map_of (m_heap m) e)) of
        None \<Rightarrow> plain_target v
      | Some (e, t) \<Rightarrow>
          if t_state t = state_probing then probing_target t v
          else if t_state t = state_restarting then WaitFor e
          else if t_state t = state_failed then
            (case closed_admission (t_id t) of
               Some err \<Rightarrow> Reject (AdmissionInvalid err)
             | None \<Rightarrow> Reject (SelectedRestartFailed (t_id t) (t_result t)))
          else plain_target v)"

text \<open>
  \<open>admittedInvokeTargetLocked\<close>; \<open>pooled\<close> is what \<open>poolStatusForMember\<close> answers for the live host of the
  workspace, if there is one.
\<close>

definition admitted_invoke_target :: "inputs \<Rightarrow> status option option \<Rightarrow> mill \<Rightarrow> world \<Rightarrow> choice" where
  "admitted_invoke_target i pooled m w =
     (case map_of (children m) (w_config_dir w) of
        Some c \<Rightarrow>
          if child_temporary c then
            (case select_view (read_status i (in_metadata i) m (child_world c)) of
               Inl e \<Rightarrow> Reject e
             | Inr st \<Rightarrow> Target (decorate_temporary (Some c) st))
          else (case pooled of
                  Some v \<Rightarrow> (case v of None \<Rightarrow> Reject NoSelectedWeaver | Some st \<Rightarrow> Target st)
                | None \<Rightarrow> transition_target i m w)
      | None \<Rightarrow> (case pooled of
                  Some v \<Rightarrow> (case v of None \<Rightarrow> Reject NoSelectedWeaver | Some st \<Rightarrow> Target st)
                | None \<Rightarrow> transition_target i m w))"

text \<open>
  \<open>admissionBoundaryLocked\<close>, \<open>transitionMatchesStatus\<close>, \<open>plannedCutoverInterrupted\<close>: the transition under
  which a request was admitted, and whether it has begun its cut-over.
\<close>

record boundary =
  bd_epoch :: nat
  bd_transition :: "string option"

definition transition_matches :: "weaver_child \<Rightarrow> status \<Rightarrow> bool" where
  "transition_matches c st \<longleftrightarrow>
     (id_weaver (child_identity c) = [] \<or> id_weaver (child_identity c) = string_status st ''weaver_id'')
     \<and> (child_generation c = [] \<or> child_generation c = string_status st ''generation_id'')"

definition epoch_of :: "mill \<Rightarrow> string \<Rightarrow> nat" where
  "epoch_of m dir = (case map_of (m_epochs m) dir of None \<Rightarrow> 0 | Some n \<Rightarrow> n)"

definition admission_boundary :: "mill \<Rightarrow> string \<Rightarrow> status \<Rightarrow> boundary" where
  "admission_boundary m dir st =
     \<lparr>bd_epoch = epoch_of m dir,
      bd_transition =
        (case map_of (m_transitions m) dir of
           None \<Rightarrow> None
         | Some e \<Rightarrow>
             (case map_of (m_heap m) e of
                None \<Rightarrow> None
              | Some t \<Rightarrow>
                  (case t_old t of
                     None \<Rightarrow> None
                   | Some c \<Rightarrow> if t_epoch t = epoch_of m dir \<and> transition_matches c st then Some e else None)))\<rparr>"

definition planned_cutover :: "mill \<Rightarrow> boundary \<Rightarrow> string option" where
  "planned_cutover m b =
     (case bd_transition b of
        None \<Rightarrow> None
      | Some e \<Rightarrow>
          (case map_of (m_heap m) e of
             None \<Rightarrow> None
           | Some t \<Rightarrow> if t_epoch t = bd_epoch b \<and> t_cutover t then Some e else None))"

section \<open>The relay of a response\<close>

text \<open>A read of the response: a complete line with what it parses as, or the end, after some bytes or none.\<close>

datatype read_end = Eof | ReadError string

datatype chunk = Complete string "json option" | Cut bool read_end

fun stream_flag :: "object \<Rightarrow> bool \<Rightarrow> bool option" where
  "stream_flag [] b = Some b"
| "stream_flag ((k, v) # es) b =
     (if field_of [''stream''] k = None then stream_flag es b
      else case decode_bool b v of None \<Rightarrow> None | Some b' \<Rightarrow> stream_flag es b')"

definition is_stream_header :: "json option \<Rightarrow> bool" where
  "is_stream_header frame = (case frame of Some (JObj es) \<Rightarrow> stream_flag es False = Some True | _ \<Rightarrow> False)"

definition has_exact_keys :: "object \<Rightarrow> (string \<times> bool) list \<Rightarrow> bool" where
  "has_exact_keys frame expected \<longleftrightarrow>
     length frame = length (filter snd expected)
     \<and> list_all (\<lambda>(k, required). (map_of frame k \<noteq> None) = required) expected"

definition is_stream_terminator :: "json option \<Rightarrow> string \<Rightarrow> bool" where
  "is_stream_terminator line request_id =
     (case line of
        Some (JObj es) \<Rightarrow>
          let frame = object_map es in
          (case map_of frame ''done'' of
             Some (JBool True) \<Rightarrow>
               (case (case map_of frame ''success'' of None \<Rightarrow> None | Some v \<Rightarrow> decode_bool False v) of
                  None \<Rightarrow> False
                | Some success \<Rightarrow>
                    has_exact_keys frame
                      [(''protocol_version'', True), (''request_id'', True), (''done'', True), (''success'', True),
                       (''result'', success), (''error'', \<not> success)]
                    \<and> json_int (map_of frame ''protocol_version'') = Some protocol_version
                    \<and> request_id \<noteq> [] \<and> as_string (map_of frame ''request_id'') = Some request_id)
           | _ \<Rightarrow> False)
      | _ \<Rightarrow> False)"

record relay_outcome =
  ro_delivery :: bool
  ro_response :: bool
  ro_client_failed :: bool
  ro_err :: "string option"

text \<open>
  The loop of \<open>relayInvokeWithAdmission\<close> after the request was written: the lines passed on and the
  outcome, \<open>None\<close> while the loop waits for more.  \<open>writes\<close> are the outcomes of passing on the lines.
\<close>

fun relay :: "string \<Rightarrow> string option list \<Rightarrow> chunk list \<Rightarrow> bool \<Rightarrow> bool \<Rightarrow> string list \<times> relay_outcome option" where
  "relay request_id writes [] streaming response = ([], None)"
| "relay request_id writes (Complete line frame # cs) streaming response =
     (let streaming' = (streaming \<or> is_stream_header frame);
          terminated = (streaming' \<and> is_stream_terminator frame request_id)
      in case writes of
           Some e # _ \<Rightarrow>
             ([], Some \<lparr>ro_delivery = True, ro_response = True, ro_client_failed = True, ro_err = Some e\<rparr>)
         | _ \<Rightarrow>
             if \<not> streaming' \<or> terminated
             then ([line], Some \<lparr>ro_delivery = True, ro_response = True, ro_client_failed = False, ro_err = None\<rparr>)
             else (let (ls, out) = relay request_id (tl writes) cs streaming' True in (line # ls, out)))"
| "relay request_id writes (Cut bytes e # cs) streaming response =
     ([], Some \<lparr>ro_delivery = True, ro_response = response, ro_client_failed = False,
               ro_err = (if bytes then Some ''weaver closed connection before a complete response frame''
                         else case e of
                           Eof \<Rightarrow> if \<not> response \<or> streaming
                                  then Some ''weaver closed connection without a response frame'' else None
                         | ReadError msg \<Rightarrow> Some msg)\<rparr>)"

text \<open>A complete response: one line that is no stream header, or a stream up to its terminator.\<close>

definition complete_response :: "string \<Rightarrow> json option list \<Rightarrow> bool" where
  "complete_response request_id frames \<longleftrightarrow>
     (case frames of
        [] \<Rightarrow> False
      | f # fs \<Rightarrow>
          if is_stream_header f
          then is_stream_terminator (last frames) request_id
               \<and> list_all (\<lambda>g. \<not> is_stream_terminator g request_id) (butlast frames)
          else fs = [])"

section \<open>Invocations and restarts\<close>

text \<open>
  A call of \<open>handleInvoke\<close>: it selects its target, waits for a transition, sends its request to the target
  under the admission lock, relays the response, and is answered.
\<close>

datatype reply =
    Delivered
  | CallerGone
  | Rejected invoke_error
  | RestartRefused string
  | ForwardFailed bool
  | Interrupted string

datatype call_phase =
    Selecting world
  | Parked world string
  | Sending world status boundary
  | Relaying world boundary
  | Unanswered bool boundary
  | Replied reply

datatype holder = ByRestart string | ByCall string

record gateway =
  g_mill :: mill
  g_locks :: "(string \<times> holder) list" \<comment> \<open>the admission locks that are held, by config directory\<close>
  g_calls :: "(string \<times> call_phase) list"

definition put_call :: "string \<Rightarrow> call_phase \<Rightarrow> gateway \<Rightarrow> gateway" where
  "put_call c ph g = g\<lparr>g_calls := AList.update c ph (g_calls g)\<rparr>"

definition lock :: "string \<Rightarrow> holder \<Rightarrow> gateway \<Rightarrow> gateway" where
  "lock dir h g = g\<lparr>g_locks := AList.update dir h (g_locks g)\<rparr>"

definition unlock :: "string \<Rightarrow> gateway \<Rightarrow> gateway" where
  "unlock dir g = g\<lparr>g_locks := AList.delete dir (g_locks g)\<rparr>"

text \<open>Taking the lock, the choice of the target under the mutex, and what follows it.\<close>

definition select_step :: "inputs \<Rightarrow> string \<Rightarrow> world \<Rightarrow> gateway \<Rightarrow> gateway" where
  "select_step i c w g =
     (case admitted_invoke_target i None (g_mill g) w of
        Target st \<Rightarrow>
          lock (w_config_dir w) (ByCall c)
            (put_call c (Sending w st (admission_boundary (g_mill g) (w_config_dir w) st)) g)
      | WaitFor e \<Rightarrow> put_call c (Parked w e) g
      | Reject e \<Rightarrow> put_call c (Replied (Rejected e)) g)"

text \<open>The end of the wait for a transition: it ended, the time is up (\<open>timeout\<close>), or the caller is gone.\<close>

definition wake_step :: "bool \<Rightarrow> bool \<Rightarrow> string \<Rightarrow> string \<Rightarrow> world \<Rightarrow> gateway \<Rightarrow> gateway" where
  "wake_step gone timeout c e w g =
     (if gone then put_call c (Replied CallerGone) g
      else if timeout then put_call c (Replied (RestartRefused ''weaver restart did not become ready before timeout'')) g
      else (case map_of (m_heap (g_mill g)) e of
              None \<Rightarrow> g
            | Some t \<Rightarrow>
                if t_closed t = 0 then g
                else (case t_err t of
                        None \<Rightarrow> put_call c (Selecting w) g
                      | Some err \<Rightarrow> put_call c (Replied (RestartRefused err)) g)))"

text \<open>The answer to a call without a response, made after the lock was given back.\<close>

definition failed_reply :: "gateway \<Rightarrow> bool \<Rightarrow> boundary \<Rightarrow> reply" where
  "failed_reply g delivery b =
     (if delivery then (case planned_cutover (g_mill g) b of Some e \<Rightarrow> Interrupted e | None \<Rightarrow> ForwardFailed True)
      else ForwardFailed False)"

text \<open>The request frame: written, or failed before or after it may have reached the Weaver.\<close>

datatype send_result = Sent | SendFailed bool | SendCancelled

definition send_step :: "send_result \<Rightarrow> string \<Rightarrow> world \<Rightarrow> boundary \<Rightarrow> gateway \<Rightarrow> gateway" where
  "send_step r c w b g =
     (let g' = unlock (w_config_dir w) g in
      case r of
        Sent \<Rightarrow> put_call c (Relaying w b) g'
      | SendFailed delivery \<Rightarrow> put_call c (Unanswered delivery b) g'
      | SendCancelled \<Rightarrow> put_call c (Replied CallerGone) g')"

definition relay_step :: "relay_outcome \<Rightarrow> bool \<Rightarrow> string \<Rightarrow> boundary \<Rightarrow> gateway \<Rightarrow> gateway" where
  "relay_step out gone c b g =
     put_call c
       (if ro_err out = None \<or> ro_client_failed out then Replied Delivered
        else if gone then Replied CallerGone else Unanswered (ro_delivery out) b) g"

text \<open>
  The steps of calls and of the Mill.  A restart takes the lock of its workspace before the first step of
  its cut-over and gives it back after its end.
\<close>

definition with_mill :: "mill \<Rightarrow> gateway \<Rightarrow> gateway" where
  "with_mill m g = g\<lparr>g_mill := m\<rparr>"

inductive gate_step :: "gateway \<Rightarrow> gateway \<Rightarrow> bool" where
  handler: "handler_step (g_mill g) m \<Longrightarrow> gate_step g (with_mill m g)"
| run: "map_of (m_runs (g_mill g)) e = Some ph \<Longrightarrow> (\<And>p. ph \<noteq> CutOver p) \<Longrightarrow>
        gate_step g (with_mill (run_step i token generation e (g_mill g)) g)"
| cut: "map_of (m_runs (g_mill g)) e = Some (CutOver p) \<Longrightarrow> map_of (m_heap (g_mill g)) e = Some t \<Longrightarrow>
        map_of (g_locks g) (w_config_dir (t_world t)) = None \<Longrightarrow>
        gate_step g (lock (w_config_dir (t_world t)) (ByRestart e) (with_mill (run_step i token generation e (g_mill g)) g))"
| release: "map_of (m_runs (g_mill g)) e = Some Finished \<Longrightarrow> map_of (g_locks g) dir = Some (ByRestart e) \<Longrightarrow>
        gate_step g (unlock dir g)"
| call: "map_of (g_calls g) c = None \<Longrightarrow> gate_step g (put_call c (Selecting w) g)"
| select: "map_of (g_calls g) c = Some (Selecting w) \<Longrightarrow> map_of (g_locks g) (w_config_dir w) = None \<Longrightarrow>
        gate_step g (select_step i c w g)"
| wake: "map_of (g_calls g) c = Some (Parked w e) \<Longrightarrow> gate_step g (wake_step gone timeout c e w g)"
| send: "map_of (g_calls g) c = Some (Sending w st b) \<Longrightarrow> gate_step g (send_step r c w b g)"
| relay: "map_of (g_calls g) c = Some (Relaying w b) \<Longrightarrow> gate_step g (relay_step out gone c b g)"
| answer: "map_of (g_calls g) c = Some (Unanswered delivery b) \<Longrightarrow> gate_step g (put_call c (Replied (failed_reply g delivery b)) g)"

definition gate_initial :: "gateway \<Rightarrow> bool" where
  "gate_initial g \<longleftrightarrow> initial (g_mill g) \<and> g_locks g = [] \<and> g_calls g = []"

inductive reachable_gate :: "gateway \<Rightarrow> bool" where
  start: "gate_initial g \<Longrightarrow> reachable_gate g"
| step: "reachable_gate g \<Longrightarrow> gate_step g g' \<Longrightarrow> reachable_gate g'"

section \<open>Exclusion\<close>

text \<open>
  The contract of a table of locks: in every state that keeps it, whoever works on a resource is entered as
  its holder.  Then no two work on the same resource.
\<close>

locale lock_table =
  fixes kept :: "'s \<Rightarrow> bool" and works :: "'s \<Rightarrow> 'a \<Rightarrow> 'r \<Rightarrow> bool" and entered :: "'s \<Rightarrow> 'r \<Rightarrow> 'a option"
  assumes works_entered: "kept s \<Longrightarrow> works s a r \<Longrightarrow> entered s r = Some a"
begin

lemma exclusive: "kept s \<Longrightarrow> works s a r \<Longrightarrow> works s b r \<Longrightarrow> a = b"
  by (metis works_entered option.inject)

lemma free: "kept s \<Longrightarrow> entered s r = None \<Longrightarrow> \<not> works s a r"
  by (auto dest: works_entered)

end

text \<open>The phases from the stop of the old generation to the readiness of the new one.\<close>

definition cutting :: "phase \<Rightarrow> bool" where
  "cutting ph \<longleftrightarrow> phase_probe ph \<noteq> None \<and> rank ph \<le> 9"

fun gate_works :: "gateway \<Rightarrow> holder \<Rightarrow> string \<Rightarrow> bool" where
  "gate_works g (ByRestart e) dir \<longleftrightarrow>
     (\<exists>ph t. map_of (m_runs (g_mill g)) e = Some ph \<and> map_of (m_heap (g_mill g)) e = Some t
        \<and> w_config_dir (t_world t) = dir \<and> cutting ph)"
| "gate_works g (ByCall c) dir \<longleftrightarrow>
     (\<exists>w st b. map_of (g_calls g) c = Some (Sending w st b) \<and> w_config_dir w = dir)"

definition gate_ok :: "gateway \<Rightarrow> bool" where
  "gate_ok g \<longleftrightarrow> (\<forall>h dir. gate_works g h dir \<longrightarrow> map_of (g_locks g) dir = Some h)"

interpretation gate: lock_table gate_ok gate_works "\<lambda>g. map_of (g_locks g)"
  by unfold_locales (simp add: gate_ok_def)

lemma gate_simps [simp]:
  "g_mill (put_call c ph g) = g_mill g" "g_locks (put_call c ph g) = g_locks g"
  "map_of (g_calls (put_call c ph g)) = (map_of (g_calls g))(c \<mapsto> ph)"
  "g_mill (lock dir h g) = g_mill g" "map_of (g_locks (lock dir h g)) = (map_of (g_locks g))(dir \<mapsto> h)" "g_calls (lock dir h g) = g_calls g"
  "g_mill (unlock dir g) = g_mill g" "map_of (g_locks (unlock dir g)) = (map_of (g_locks g))(dir := None)" "g_calls (unlock dir g) = g_calls g"
  "g_mill (with_mill m g) = m" "g_locks (with_mill m g) = g_locks g" "g_calls (with_mill m g) = g_calls g"
  by (simp_all add: put_call_def lock_def unlock_def with_mill_def update_conv' delete_conv')

text \<open>Who works after a step, by the kind of step.\<close>

lemma works_put_call:
  "(\<And>w st b. ph \<noteq> Sending w st b) \<Longrightarrow> gate_works (put_call c ph g) h dir \<Longrightarrow> gate_works g h dir \<and> h \<noteq> ByCall c"
  by (cases h) (auto split: if_splits)

lemma works_lock [simp]: "gate_works (lock dir' h' g) h dir = gate_works g h dir"
  and works_unlock [simp]: "gate_works (unlock dir' g) h dir = gate_works g h dir"
  by (cases h; simp)+

lemma gate_ok_fewer:
  assumes "gate_ok g" "g_locks g' = g_locks g" "\<And>h dir. gate_works g' h dir \<Longrightarrow> gate_works g h dir"
  shows "gate_ok g'"
  using assms unfolding gate_ok_def by simp

lemma gate_ok_put_call:
  assumes "gate_ok g" and ph: "\<And>w st b. ph \<noteq> Sending w st b"
  shows "gate_ok (put_call c ph g)"
proof (rule gate_ok_fewer [OF assms(1)])
  show "gate_works g h dir" if "gate_works (put_call c ph g) h dir" for h dir
    using works_put_call [OF ph that] by simp
qed simp

lemma gate_ok_unlock:
  "gate_ok g \<Longrightarrow> (\<And>h. gate_works g h dir \<Longrightarrow> False) \<Longrightarrow> gate_ok (unlock dir g)"
  unfolding gate_ok_def by auto

lemma run_cutting:
  assumes r: "map_of (m_runs m) e = Some ph" and h: "map_of (m_heap m) e = Some t" and nc: "\<And>p. ph \<noteq> CutOver p"
    and r': "map_of (m_runs (run_step i token generation e m)) e = Some ph'" and c: "cutting ph'"
  shows "cutting ph"
proof (rule ccontr)
  assume n: "\<not> cutting ph"
  show False
  proof (cases ph)
    case Registered
    show ?thesis using r' c by (auto simp: run_step_def h r Registered begin_step_def Let_def cutting_def split: prod.splits if_splits)
  next
    case Verifying
    show ?thesis using r' c by (auto simp: run_step_def h r Verifying verify_step_def cutting_def split: option.splits if_splits)
  next
    case (ProbeFailing probe message)
    show ?thesis
      using r' c by (auto simp: run_step_def h r ProbeFailing probe_failing_step_def Let_def cutting_def split: prod.splits if_splits)
  next
    case (Failing stage message log dependency)
    show ?thesis using r' c by (auto simp: run_step_def h r Failing failing_step_def Let_def cutting_def split: prod.splits)
  next
    case (Completing result err retain)
    show ?thesis using r' c by (auto simp: run_step_def h r Completing complete_step_def cutting_def)
  next
    case Finished
    show ?thesis using r' c r n by (simp add: run_idle Finished)
  qed (use n nc in \<open>simp_all add: cutting_def\<close>)
qed

lemma run_others:
  assumes ok: "mill_ok m" and r: "map_of (m_runs m) e = Some ph"
  obtains t t' ph' where "map_of (m_heap m) e = Some t" "t_world t' = t_world t"
    "map_of (m_heap (run_step i token generation e m)) = (map_of (m_heap m))(e \<mapsto> t')"
    "map_of (m_runs (run_step i token generation e m)) = (map_of (m_runs m))(e \<mapsto> ph')"
proof -
  from ok r obtain t where h: "map_of (m_heap m) e = Some t" and l: "local_ok t ph" by (rule mill_ok_run)
  show thesis
  proof (cases "ph = Finished")
    case True
    then have "run_step i token generation e m = m" using r run_idle by simp
    then show thesis using that [OF h, of t ph] h r by (simp add: fun_upd_idem)
  next
    case False
    then show thesis using run_effect [OF r h l False, of i token generation] that [OF h] unfolding step_effect_def by blast
  qed
qed

lemma works_run:
  assumes ok: "mill_ok (g_mill g)" and r: "map_of (m_runs (g_mill g)) e = Some ph"
    and w: "gate_works (with_mill (run_step i token generation e (g_mill g)) g) h dir"
  shows "gate_works g h dir \<or> h = ByRestart e \<and> (\<exists>p. ph = CutOver p)
    \<and> (\<exists>t. map_of (m_heap (g_mill g)) e = Some t \<and> w_config_dir (t_world t) = dir)"
proof (cases h)
  case (ByCall c)
  then show ?thesis using w by simp
next
  case (ByRestart x)
  from ok r obtain t t' ph' where s: "map_of (m_heap (g_mill g)) e = Some t" "t_world t' = t_world t"
    "map_of (m_heap (run_step i token generation e (g_mill g))) = (map_of (m_heap (g_mill g)))(e \<mapsto> t')"
    "map_of (m_runs (run_step i token generation e (g_mill g))) = (map_of (m_runs (g_mill g)))(e \<mapsto> ph')"
    by (rule run_others)
  show ?thesis
  proof (cases "x = e")
    case False
    then show ?thesis using w by (simp add: ByRestart s)
  next
    case True
    then have c: "cutting ph'" and dir: "w_config_dir (t_world t) = dir" using w s(2) by (simp_all add: ByRestart s(3,4))
    show ?thesis
    proof (cases "\<exists>p. ph = CutOver p")
      case True
      then show ?thesis using \<open>x = e\<close> ByRestart s(1) dir by simp
    next
      case False
      then have "cutting ph" using run_cutting [OF r s(1), of i token generation ph'] c by (simp add: s(4))
      then show ?thesis using \<open>x = e\<close> ByRestart s(1) dir r by simp
    qed
  qed
qed

lemma handler_works:
  assumes ok: "mill_ok (g_mill g)" and h: "handler_step (g_mill g) m" and w: "gate_works (with_mill m g) h' dir"
  shows "gate_works g h' dir"
  using h
proof cases
  case (admit e i generation w')
  have new: "map_of (m_heap (g_mill g)) e = None" using admit by (simp add: map_of_eq_None_iff)
  then have new': "map_of (m_runs (g_mill g)) e = None" using mill_ok_dom [OF ok] by simp
  from restart_admit_effect [of i e generation w' "g_mill g"] consider
      "m_heap m = m_heap (g_mill g)" "m_runs m = m_runs (g_mill g)"
    | t where "map_of (m_heap m) = (map_of (m_heap (g_mill g)))(e \<mapsto> t)"
      "map_of (m_runs m) = (map_of (m_runs (g_mill g)))(e \<mapsto> Registered)"
    unfolding admit(1) by blast
  then show ?thesis
  proof cases
    case 1
    then show ?thesis using w by (cases h') simp_all
  next
    case (2 t)
    have "\<not> cutting Registered" by (simp add: cutting_def)
    then show ?thesis using w 2 by (cases h') (auto split: if_splits)
  qed
qed (use w in \<open>cases h'; simp\<close>)+

lemma gate_ok_select:
  assumes ok: "gate_ok g" and l: "map_of (g_locks g) (w_config_dir w) = None"
  shows "gate_ok (select_step i c w g)"
proof (cases "admitted_invoke_target i None (g_mill g) w")
  case (Target st)
  let ?g = "lock (w_config_dir w) (ByCall c) (put_call c (Sending w st (admission_boundary (g_mill g) (w_config_dir w) st)) g)"
  have "map_of (g_locks ?g) dir = Some h" if s: "gate_works ?g h dir" for h dir
  proof -
    have "h = ByCall c \<and> dir = w_config_dir w \<or> gate_works g h dir" using s by (cases h) (auto split: if_splits)
    moreover have "dir \<noteq> w_config_dir w" if "gate_works g h dir" using that gate.free [OF ok l] by blast
    moreover have "map_of (g_locks g) dir = Some h" if "gate_works g h dir" using ok that unfolding gate_ok_def by blast
    ultimately show ?thesis by auto
  qed
  then show ?thesis unfolding gate_ok_def select_step_def Target choice.case by blast
qed (simp_all add: select_step_def gate_ok_put_call [OF ok])

lemma gate_ok_send:
  assumes ok: "gate_ok g" and c: "map_of (g_calls g) c = Some (Sending w st b)"
  shows "gate_ok (send_step r c w b g)"
proof -
  have mine: "h = ByCall c" if "gate_works g h (w_config_dir w)" for h
  proof -
    have "gate_works g (ByCall c) (w_config_dir w)" using c by simp
    with gate.exclusive [OF ok that] show ?thesis by blast
  qed
  have "gate_ok (put_call c ph (unlock (w_config_dir w) g))" if ph: "\<And>w st b. ph \<noteq> Sending w st b" for ph
    unfolding gate_ok_def
  proof (intro allI impI)
    fix h dir assume "gate_works (put_call c ph (unlock (w_config_dir w) g)) h dir"
    from works_put_call [OF ph this] have "gate_works g h dir" "h \<noteq> ByCall c" by simp_all
    with mine have "dir \<noteq> w_config_dir w" "map_of (g_locks g) dir = Some h" using ok unfolding gate_ok_def by blast+
    then show "map_of (g_locks (put_call c ph (unlock (w_config_dir w) g))) dir = Some h" by simp
  qed
  then show ?thesis unfolding send_step_def Let_def by (cases r) simp_all
qed

lemma gate_step_ok:
  assumes step: "gate_step g g'" and m: "mill_ok (g_mill g)" and ok: "gate_ok g"
  shows "gate_ok g'"
  using step
proof cases
  case (handler m')
  show ?thesis unfolding handler(1) by (rule gate_ok_fewer [OF ok]) (use handler_works [OF m handler(2)] in simp_all)
next
  case (run e ph i token generation)
  have sub: "gate_works g h dir" if "gate_works g' h dir" for h dir
    using works_run [OF m run(2), of i token generation h dir] that run(3) unfolding run(1) by blast
  show ?thesis by (rule gate_ok_fewer [OF ok]) (simp add: run(1), rule sub)
next
  case (cut e p t i token generation)
  show ?thesis
    unfolding gate_ok_def cut(1)
  proof (intro allI impI)
    fix h dir
    assume "gate_works (lock (w_config_dir (t_world t)) (ByRestart e) (with_mill (run_step i token generation e (g_mill g)) g)) h dir"
    then have "gate_works g h dir \<or> h = ByRestart e \<and> w_config_dir (t_world t) = dir"
      using works_run [OF m cut(2), of i token generation h dir] cut(3) by auto
    moreover have "dir \<noteq> w_config_dir (t_world t)" if "gate_works g h dir"
      using that gate.free [OF ok cut(4)] by blast
    moreover have "map_of (g_locks g) dir = Some h" if "gate_works g h dir" using ok that unfolding gate_ok_def by blast
    ultimately show "map_of (g_locks (lock (w_config_dir (t_world t)) (ByRestart e) (with_mill (run_step i token generation e (g_mill g)) g))) dir
        = Some h"
      by auto
  qed
next
  case (release e dir)
  have "\<not> cutting Finished" by (simp add: cutting_def)
  then have "\<not> gate_works g (ByRestart e) d" for d using release(2) by simp
  moreover have "h = ByRestart e" if "gate_works g h dir" for h using ok that release(3) unfolding gate_ok_def by fastforce
  ultimately show ?thesis unfolding release(1) by (intro gate_ok_unlock [OF ok]) blast
next
  case (call c w)
  show ?thesis unfolding call(1) by (rule gate_ok_put_call [OF ok]) simp
next
  case (select c w i)
  show ?thesis unfolding select(1) by (rule gate_ok_select [OF ok select(3)])
next
  case (wake c w e gone timeout)
  show ?thesis
    unfolding wake(1) wake_step_def using ok by (simp add: gate_ok_put_call split: option.split)
next
  case (send c w st b r)
  show ?thesis unfolding send(1) by (rule gate_ok_send [OF ok send(2)])
next
  case (relay c w b out gone)
  show ?thesis unfolding relay(1) relay_step_def by (rule gate_ok_put_call [OF ok]) simp
next
  case (answer c delivery b)
  show ?thesis unfolding answer(1) by (rule gate_ok_put_call [OF ok]) simp
qed

lemma gate_mill: "reachable_gate g \<Longrightarrow> reachable_mill (g_mill g)"
proof (induction rule: reachable_gate.induct)
  case (start g)
  then show ?case by (simp add: gate_initial_def reachable_mill.start)
next
  case (step g g')
  from step.hyps(2) show ?case
  proof cases
    case (handler m)
    then show ?thesis using reachable_mill.step [OF step.IH mill_step.handler] by simp
  next
    case (run e ph i token generation)
    then show ?thesis using reachable_run [OF step.IH] by simp
  next
    case (cut e p t i token generation)
    then show ?thesis using reachable_run [OF step.IH] by simp
  next
    case (wake c w e gone timeout)
    then show ?thesis using step.IH by (simp add: wake_step_def split: option.split)
  qed (use step.IH in \<open>simp_all add: select_step_def send_step_def relay_step_def Let_def split: choice.split send_result.split\<close>)
qed

lemma reachable_gate_ok: "reachable_gate g \<Longrightarrow> gate_ok g"
proof (induction rule: reachable_gate.induct)
  case (start g)
  have "\<not> gate_works g h dir" for h dir using start by (cases h) (simp_all add: gate_initial_def initial_def)
  then show ?case by (simp add: gate_ok_def)
next
  case (step g g')
  show ?case by (rule gate_step_ok [OF step.hyps(2) reachable_ok [OF gate_mill [OF step.hyps(1)]] step.IH])
qed

section \<open>Properties\<close>

text \<open>
  While a transition is cutting over, an invocation of its workspace waits for it: no Weaver is chosen
  between the stop of the old generation and the readiness of the new one.
\<close>

lemma target_waits:
  assumes "reachable_mill m" "map_of (m_runs m) e = Some ph" "cutting ph" "map_of (m_heap m) e = Some t"
    and "w_config_dir w = w_config_dir (t_world t)"
  shows "admitted_invoke_target i None m w = WaitFor e"
proof -
  have ok: "mill_ok m" by (rule reachable_ok) (fact assms(1))
  have "working ph" using assms(3) by (cases ph) (simp_all add: cutting_def working_def)
  then have l: "local_ok t ph" and reg: "map_of (m_transitions m) (w_config_dir w) = Some e"
    using ok assms(2,4,5) unfolding mill_ok_def by auto
  have "t_state t = state_restarting" using l assms(3) unfolding local_ok_def cutting_def by blast
  then have "transition_target i m w = WaitFor e"
    using reg assms(4) by (simp add: transition_target_def Let_def state_restarting_def state_probing_def)
  moreover have "lasting (map_of (children m) (w_config_dir w))"
    using reachable_persistent [OF assms(1)] reg unfolding persistent_def by blast
  ultimately show ?thesis by (simp add: admitted_invoke_target_def lasting_def split: option.splits)
qed

text \<open>C2:
  A restart never cuts over underneath an invocation: in every interleaving, while the request of a call is
  being sent to a Weaver, no transition of its workspace is between the stop of the old generation and the
  readiness of the new one, and no other call of the workspace is being sent; and a call that selects its
  target while a transition is there waits for it.
\<close>

theorem no_cutover_under_invocation:
  assumes "reachable_gate g" "map_of (m_runs (g_mill g)) e = Some ph" "map_of (m_heap (g_mill g)) e = Some t" "cutting ph"
    and "w_config_dir w = w_config_dir (t_world t)"
  shows "map_of (g_calls g) c \<noteq> Some (Sending w st b) \<and> admitted_invoke_target i None (g_mill g) w = WaitFor e"
proof
  have ok: "gate_ok g" by (rule reachable_gate_ok) (fact assms(1))
  have mine: "gate_works g (ByRestart e) (w_config_dir w)" using assms by simp
  show "map_of (g_calls g) c \<noteq> Some (Sending w st b)"
  proof
    assume "map_of (g_calls g) c = Some (Sending w st b)"
    then have "gate_works g (ByCall c) (w_config_dir w)" by simp
    with gate.exclusive [OF ok mine] show False by blast
  qed
  show "admitted_invoke_target i None (g_mill g) w = WaitFor e"
    by (rule target_waits [OF gate_mill [OF assms(1)] assms(2,4,3,5)])
qed

text \<open>What the relay of a stream passes on, up to its terminator.\<close>

definition chunks_of :: "(string \<times> json option) list \<Rightarrow> chunk list" where
  "chunks_of frames = map (\<lambda>(l, f). Complete l f) frames"

fun ends_stream :: "string \<Rightarrow> (string \<times> json option) list \<Rightarrow> bool" where
  "ends_stream request_id [] = False"
| "ends_stream request_id [x] = is_stream_terminator (snd x) request_id"
| "ends_stream request_id (x # xs) = (\<not> is_stream_terminator (snd x) request_id \<and> ends_stream request_id xs)"

lemma chunks_of_simps [simp]: "chunks_of [] = []" "chunks_of ((l, f) # xs) = Complete l f # chunks_of xs"
  by (simp_all add: chunks_of_def)

lemma ends_stream_iff:
  "ends_stream request_id xs \<longleftrightarrow>
     xs \<noteq> [] \<and> is_stream_terminator (last (map snd xs)) request_id
     \<and> list_all (\<lambda>f. \<not> is_stream_terminator f request_id) (butlast (map snd xs))"
  by (induction request_id xs rule: ends_stream.induct) auto

lemma complete_ends:
  "complete_response request_id (map snd xs) \<longleftrightarrow>
     (case xs of [] \<Rightarrow> False | x # xs' \<Rightarrow> if is_stream_header (snd x) then ends_stream request_id xs else xs' = [])"
  unfolding complete_response_def ends_stream_iff by (cases xs) auto

text \<open>The relay of a stream passes on a prefix of the lines of the Weaver, each as it is.\<close>

lemma relay_stream:
  assumes "relay request_id (replicate n None) cs True True = (ls, Some out)" "length cs \<le> n"
  shows "\<exists>frames rest. cs = chunks_of frames @ rest \<and> ls = map fst frames
    \<and> (ro_err out = None \<longleftrightarrow> ends_stream request_id frames)"
  using assms
proof (induction cs arbitrary: n ls)
  case (Cons c cs)
  then obtain n' where n: "n = Suc n'" "length cs \<le> n'" by (cases n) auto
  show ?case
  proof (cases c)
    case (Cut bytes e)
    then have "ls = []" "ro_err out \<noteq> None" using Cons.prems(1) by (auto split: read_end.splits if_splits)
    then show ?thesis by (intro exI [of _ "[]"] exI [of _ "c # cs"]) simp
  next
    case (Complete line f)
    show ?thesis
    proof (cases "is_stream_terminator f request_id")
      case True
      then have "ls = [line]" "ro_err out = None" using Cons.prems(1) n by (auto simp: Complete Let_def)
      then show ?thesis using True by (intro exI [of _ "[(line, f)]"] exI [of _ cs]) (simp add: Complete)
    next
      case False
      then obtain ls' where r: "relay request_id (replicate n' None) cs True True = (ls', Some out)" and ls: "ls = line # ls'"
        using Cons.prems(1) n by (auto simp: Complete Let_def split: prod.splits)
      from Cons.IH [OF r n(2)] obtain frames rest
        where IH: "cs = chunks_of frames @ rest" "ls' = map fst frames" "ro_err out = None \<longleftrightarrow> ends_stream request_id frames"
        by (elim exE conjE) (rule that)
      have "ends_stream request_id ((line, f) # frames) \<longleftrightarrow> ends_stream request_id frames"
        using False by (cases frames) simp_all
      then show ?thesis
        by (intro exI [of _ "(line, f) # frames"] exI [of _ rest]) (simp add: Complete ls IH)
    qed
  qed
qed simp

lemma relay_lines:
  assumes "relay request_id (replicate n None) cs False False = (ls, Some out)" "length cs \<le> n"
  shows "\<exists>frames rest. cs = chunks_of frames @ rest \<and> ls = map fst frames
    \<and> (ro_err out = None \<longleftrightarrow> complete_response request_id (map snd frames))"
proof (cases cs)
  case Nil
  with assms(1) show ?thesis by simp
next
  case (Cons c cs')
  then obtain n' where n: "n = Suc n'" "length cs' \<le> n'" using assms(2) by (cases n) auto
  show ?thesis
  proof (cases c)
    case (Cut bytes e)
    then have "ls = []" "ro_err out \<noteq> None" using assms(1) Cons by (auto split: read_end.splits if_splits)
    then show ?thesis by (intro exI [of _ "[]"] exI [of _ cs]) (simp add: complete_response_def)
  next
    case (Complete line f)
    show ?thesis
    proof (cases "\<not> is_stream_header f \<or> is_stream_terminator f request_id")
      case True
      then have "ls = [line]" "ro_err out = None" using assms(1) n by (auto simp: Cons Complete Let_def)
      then show ?thesis using True
        by (intro exI [of _ "[(line, f)]"] exI [of _ cs']) (auto simp: Cons Complete complete_response_def)
    next
      case False
      then obtain ls' where r: "relay request_id (replicate n' None) cs' True True = (ls', Some out)" and ls: "ls = line # ls'"
        using assms(1) n by (auto simp: Cons Complete Let_def split: prod.splits)
      from relay_stream [OF r n(2)] obtain frames rest
        where IH: "cs' = chunks_of frames @ rest" "ls' = map fst frames" "ro_err out = None \<longleftrightarrow> ends_stream request_id frames"
        by (elim exE conjE) (rule that)
      have "complete_response request_id (map snd ((line, f) # frames)) \<longleftrightarrow> ends_stream request_id frames"
        unfolding complete_ends using False by (cases frames) simp_all
      then show ?thesis
        by (intro exI [of _ "(line, f) # frames"] exI [of _ rest]) (simp add: Cons Complete ls IH)
    qed
  qed
qed

text \<open>The relay passes on lines of the Weaver in order and as they are, and ends without an error exactly when
  what it passed on is a complete response: one line that is no stream header, or a stream header up to the
  first terminator of the request.  A truncated line is never passed on, and a stream that ends early is
  reported, so that the caller is never left with an incomplete response that looks complete.
\<close>

theorem relay_exact:
  assumes "relay request_id (replicate n None) cs False False = (ls, Some out)" "length cs \<le> n"
  shows "\<exists>frames rest. cs = map (\<lambda>(l, f). Complete l f) frames @ rest \<and> ls = map fst frames
    \<and> (ro_err out = None \<longleftrightarrow> complete_response request_id (map snd frames))"
  using relay_lines [OF assms] unfolding chunks_of_def .

text \<open>A concrete stream, cut before its terminator.\<close>

definition demo_frames :: "chunk list" where
  "demo_frames = [Complete ''h'' (Some (JObj [(''stream'', JBool True)])), Complete ''r'' (Some (JObj [(''row'', JNull)])),
     Cut False Eof]"

theorem relay_exact_witness:
  "\<exists>out. relay ''7'' (replicate 3 None) demo_frames False False = ([''h'', ''r''], Some out) \<and> ro_err out \<noteq> None"
proof -
  obtain out where r: "relay ''7'' (replicate 3 None) demo_frames False False = ([''h'', ''r''], Some out)" "ro_err out \<noteq> None"
  proof
    show "relay ''7'' (replicate 3 None) demo_frames False False = ([''h'', ''r''],
      Some \<lparr>ro_delivery = True, ro_response = True, ro_client_failed = False,
            ro_err = Some ''weaver closed connection without a response frame''\<rparr>)"
      by code_simp
  qed simp
  have "length demo_frames \<le> 3" by (simp add: demo_frames_def)
  from relay_exact [OF r(1) this] have "\<exists>frames rest. demo_frames = map (\<lambda>(l, f). Complete l f) frames @ rest" by blast
  with r show ?thesis by blast
qed

text \<open>A call that arrives while the retry of the restart theory cuts over, in a Mill that has no other call.\<close>

definition demo_gate :: "mill \<Rightarrow> gateway" where
  "demo_gate m = \<lparr>g_mill = m, g_locks = [], g_calls = []\<rparr>"

definition demo_cutting :: gateway where
  "demo_cutting = put_call ''c'' (Selecting demo_world)
     (lock ''/w'' (ByRestart ''t'') (demo_gate (demo_after (Launching demo_probe))))"

lemma demo_cutting_reachable: "reachable_gate demo_cutting"
proof -
  have mill: "g_mill (demo_gate m) = m" "g_locks (demo_gate m) = []" "with_mill m' (demo_gate m) = demo_gate m'" for m m'
    by (simp_all add: demo_gate_def with_mill_def)
  have run: "reachable_gate (demo_gate m) \<Longrightarrow> map_of (m_runs m) e = Some ph \<Longrightarrow> (\<And>p. ph \<noteq> CutOver p) \<Longrightarrow>
      reachable_gate (demo_gate (run_step i token generation e m))" for m e ph i token generation
    using reachable_gate.step [OF _ gate_step.run [of "demo_gate m"]] by (simp add: mill)
  have "gate_initial (demo_gate demo_mill)" by (simp add: gate_initial_def demo_gate_def initial_def demo_mill_def)
  then have "reachable_gate (demo_gate demo_mill)" by (rule reachable_gate.start)
  moreover have "handler_step demo_mill (snd (restart_admit demo_inputs ''t'' ''x'' demo_world demo_mill))"
    by (rule handler_step.admit) (simp add: demo_mill_def)
  ultimately have "reachable_gate (demo_gate demo_registered)"
    using reachable_gate.step [OF _ gate_step.handler [of "demo_gate demo_mill"]] unfolding demo_admitted mill snd_conv by blast
  then have "reachable_gate (demo_gate (demo_after Verifying))"
    using run [of demo_registered "''t''" Registered demo_inputs "[]" "[]"]
    by (simp add: demo_steps) (simp add: demo_registered_def)
  then have cut: "reachable_gate (demo_gate (demo_after (CutOver demo_probe)))"
    using run [OF _ demo_after_fields(2), of _ demo_inputs "[]" "[]"] demo_steps(2) [of "[]" "[]"] by (metis phase.distinct)
  have "reachable_gate (lock ''/w'' (ByRestart ''t'') (demo_gate (demo_after (Launching demo_probe))))"
    using reachable_gate.step [OF cut gate_step.cut [of "demo_gate (demo_after (CutOver demo_probe))" "''t''" demo_probe
      "demo_transition\<lparr>t_cutover := True\<rparr>" demo_inputs "[]" "[]"]]
    unfolding mill demo_after_fields demo_steps by (simp add: demo_world_def)
  then show ?thesis unfolding demo_cutting_def
    by (rule reachable_gate.step) (rule gate_step.call, simp add: lock_def demo_gate_def)
qed

theorem no_cutover_under_invocation_witness:
  "admitted_invoke_target demo_inputs None (g_mill demo_cutting) demo_world = WaitFor ''t''"
proof -
  have m: "g_mill demo_cutting = demo_after (Launching demo_probe)" by (simp add: demo_cutting_def) (simp add: demo_gate_def)
  have "cutting (Launching demo_probe)" by (simp add: cutting_def)
  from no_cutover_under_invocation [OF demo_cutting_reachable, unfolded m, OF demo_after_fields(2,1) this, of demo_world "''c''"]
  show ?thesis unfolding m by (simp add: demo_after_fields)
qed

end
