(* ===== verification/Pool_Lifecycle.thy ===== *)
theory Pool_Lifecycle
  imports Pool_Host Forward
begin

text \<open>
  The lifecycle of pool hosts (\<open>cli/cmd/mill/pool_lifecycle.go\<close>, \<open>poolProbeManifestForHost\<close> of
  \<open>pool_probe.go\<close>): start, stop, restart and discovery of the host of a pool, as the machine of the goroutines
  that handle the requests.  A host is a cell of a heap, since \<open>poolHosts\<close>, \<open>poolMembers\<close> and the handlers
  share it.  A phase tells where a goroutine stands; a step is a section under the mutex, an access to a
  file, or work of the goroutine on its own.

  The start claim of a pool and its admission lock are tables of locks: both interpret \<open>lock_table\<close>.
\<close>

section \<open>State\<close>

datatype pool_fault =
    PoolRegistry reg_error
  | NotInPool string string
  | StartCancelled
  | RestartRequired string string "string list" "string list" int string
    \<comment> \<open>pool, selected workspace, live and pending members, process and generation of the host\<close>
  | AlreadyRunning string
  | HostUnmade snapshot_error
  | ManifestRefused launch_error
  | ReadyUnread "ready_error file_error"
  | AdmissionRefused pool_admission_error
  | StatusUnproved string identity_error
  | MemberNotReady string
  | NoManifest
  | RestartPathDiffers string
  | PoolDir reg_error
  | ExitedEarly string
  | NotReadyInTime
  | RecordUnwritten pool_error
  | ProbeRefused manifest_error
  | BaselineUnread string
  | BaselineInvalid string
  | CleanupFailed string
  | MarkerPathBlank
  | NoRunningHost
  | Broken string \<comment> \<open>the error of a file, the process, the source or the configuration\<close>

type_synonym pool_answer = "status option \<times> pool_fault option"

text \<open>What \<open>restartPooledWeaver\<close> keeps over its cut-over.\<close>

record cutover =
  k_world :: world
  k_pool :: string
  k_old :: nat
  k_snapshot :: pool_snapshot
  k_transition :: string
  k_manifest :: probe_manifest
  k_result :: pool_probe_result
  k_probe :: probe_result

text \<open>Who goes on when a start is over: the caller, a restart that found no host, or a cut-over.\<close>

datatype after = ToCaller | ToRestart world | ToCutover cutover

record job =
  j_world :: world
  j_pool :: string
  j_shutdown :: bool \<comment> \<open>the request carries the channel of the shutdown\<close>
  j_after :: after

datatype purpose = ForStart job pool_snapshot | ForStop world | ForRestart job | ForView

datatype pool_phase =
    Snapshot job
  | Enter job pool_snapshot
  | Wait job nat
  | Look job pool_snapshot
  | Find purpose string
  | Adopt purpose string pool_host
  | Prepare job pool_snapshot
  | Register job pool_snapshot nat
  | Spawn job pool_snapshot nat
  | Number job pool_snapshot nat
  | Await job pool_snapshot nat
  | Abort job nat pool_fault
  | Forget job nat pool_fault
  | Route job pool_snapshot nat "string \<Rightarrow> status option"
  | Mark job pool_snapshot nat
  | Record job pool_snapshot nat
  | Unclaim job pool_answer
  | StopChoose world
  | StopLookup world string
  | StopLock world nat
  | StopKill world nat
  | StopDead world nat
  | StopClean world nat
  | StopMarker world nat
  | StopRecord world nat
  | StopForget world nat
  | RestartChoose job
  | Decide job "nat option"
  | Probing cutover
  | Probe cutover
  | ProbeFailed cutover pool_answer string
  | Keep cutover
  | ProbeClean cutover
  | Cut cutover
  | CutLock cutover
  | CutKill cutover
  | CutDead cutover
  | CutStopped cutover
  | CutClean cutover
  | CutMarker cutover
  | CutForget cutover
  | Replaced cutover pool_answer
  | CutFailed cutover string pool_fault string string \<comment> \<open>stage, fault, its text, log path\<close>
  | Unlock string pool_answer
  | Answered pool_answer

record pool_mill =
  p_heap :: "nat \<Rightarrow> pool_host option"
  p_next :: nat
  p_hosts :: "string \<Rightarrow> nat option"
  p_members :: "string \<Rightarrow> nat option"
  p_claims :: "string \<Rightarrow> nat option" \<comment> \<open>the goroutine that holds the start claim of a pool\<close>
  p_locks :: "string \<Rightarrow> nat option" \<comment> \<open>the goroutine that holds the admission lock of a pool\<close>
  p_ready :: "string \<Rightarrow> ready_marker option option" \<comment> \<open>files by path; \<open>Some None\<close> is not a marker\<close>
  p_manifests :: "string \<Rightarrow> launch_manifest option option"
  p_records :: "string \<Rightarrow> document_text option"
  p_signals :: "signal_sent list"
  p_phase :: "nat \<Rightarrow> pool_phase option"

text \<open>What a step finds out or is given: the answer of the system, of the registry, and of the Weavers.\<close>

record probe_env =
  pv_identity :: "string option"
  pv_name :: "string option"
  pv_source :: "string option"
  pv_weaver :: string
  pv_generation :: string

record probe_ids =
  pi_probe :: string
  pi_host :: string
  pi_generation :: string

record step_input =
  si_fails :: bool \<comment> \<open>the file or the process of the step fails\<close>
  si_text :: string \<comment> \<open>the text of the error of the step\<close>
  si_registry :: reg_file
  si_resolve :: "string \<Rightarrow> (string, effective_config) result"
  si_recorded :: "(reg_error, string option) result"
  si_effective :: "(string, string option) result"
  si_configured :: "(unit, string) result"
  si_sha :: "string \<Rightarrow> 8 word list"
  si_root :: "string option" \<comment> \<open>the canonical state root\<close>
  si_source :: "string option"
  si_version :: string
  si_ids :: host_ids
  si_env :: "string \<Rightarrow> member_env"
  si_transition :: string
  si_now :: string
  si_pid :: int
  si_alive :: "int \<Rightarrow> bool"
  si_world :: "string \<Rightarrow> world option"
  si_view :: "world \<Rightarrow> view"
  si_endpoint :: "weaver_identity \<Rightarrow> bool"
  si_glob :: "string list option"
  si_exited :: bool
  si_late :: bool
  si_shutdown :: bool
  si_nolog :: bool \<comment> \<open>the log cannot be opened or kept\<close>
  si_killed :: bool \<comment> \<open>the process outlived the time it was given\<close>
  si_artifact :: "world \<Rightarrow> artifact_file"
  si_removable :: "string \<Rightarrow> bool"
  si_probe_ids :: probe_ids
  si_probe_env :: "string \<Rightarrow> probe_env"
  si_baseline :: "weaver_identity \<Rightarrow> status option"
  si_probe :: "pool_probe_result \<times> string option" \<comment> \<open>the outcome of \<open>executePooledProbe\<close>\<close>

definition goto :: "nat \<Rightarrow> pool_phase \<Rightarrow> pool_mill \<Rightarrow> pool_mill" where
  "goto t ph s = s\<lparr>p_phase := (p_phase s)(t \<mapsto> ph)\<rparr>"

definition host_at :: "pool_mill \<Rightarrow> nat \<Rightarrow> pool_host" where
  "host_at s a = the (p_heap s a)"

definition set_host :: "nat \<Rightarrow> pool_host \<Rightarrow> pool_mill \<Rightarrow> pool_mill" where
  "set_host a h s = s\<lparr>p_heap := (p_heap s)(a \<mapsto> h)\<rparr>"

definition pool_snapshot_of :: "step_input \<Rightarrow> string \<Rightarrow> (pool_fault, pool_snapshot) result" where
  "pool_snapshot_of i pool =
     (case validate_pool pool (Some (si_resolve i)) (si_registry i) of Inl e \<Rightarrow> Err (PoolRegistry e) | Inr snap \<Rightarrow> Ok snap)"

text \<open>\<open>removePoolHost\<close>.\<close>

definition remove_pool_host :: "nat \<Rightarrow> pool_mill \<Rightarrow> pool_mill" where
  "remove_pool_host a s =
     (let h = host_at s a in
      s\<lparr>p_hosts := (if p_hosts s (host_pool h) = Some a then (p_hosts s)(host_pool h := None) else p_hosts s),
        p_members := (\<lambda>d. if d \<in> set (pool_config_dirs (host_members h)) \<and> p_members s d = Some a then None else p_members s d)\<rparr>)"

text \<open>\<open>poolPendingError\<close>.\<close>

definition pool_pending_error :: "pool_host \<Rightarrow> pool_snapshot \<Rightarrow> string \<Rightarrow> pool_fault" where
  "pool_pending_error h snap selected =
     RestartRequired (host_pool h) selected (pool_config_dirs (host_members h)) (pool_pending_dirs h (snapshot_dirs snap))
       (host_pid h) (host_generation h)"

text \<open>The answer about a host that serves the pool.\<close>

definition host_status :: "step_input \<Rightarrow> pool_host \<Rightarrow> pool_snapshot \<Rightarrow> string \<Rightarrow> status option" where
  "host_status i h snap dir =
     map_option (\<lambda>st. add_pool_pending st h snap) (pool_status_for_member (si_configured i) (si_view i) h dir)"

definition serving_answer :: "step_input \<Rightarrow> pool_host \<Rightarrow> pool_snapshot \<Rightarrow> string \<Rightarrow> pool_answer" where
  "serving_answer i h snap dir =
     (if pool_host_has_member h dir then (host_status i h snap dir, None) else (None, Some (pool_pending_error h snap dir)))"

section \<open>Discovery\<close>

definition read_ready :: "step_input \<Rightarrow> pool_mill \<Rightarrow> string \<Rightarrow> (ready_error file_error, ready_marker) result" where
  "read_ready i s path =
     read_pool_ready (case p_ready s path of None \<Rightarrow> Inl NoFile | Some d \<Rightarrow> if si_fails i then Inl FileUnreadable else Inr d)"

definition matching_manifest :: "pool_mill \<Rightarrow> string \<Rightarrow> string list \<Rightarrow> launch_manifest option" where
  "matching_manifest s host paths =
     (case List.find (\<lambda>r. case r of Inl _ \<Rightarrow> False | Inr m \<Rightarrow> la_host m = host)
        (map (\<lambda>p. read_launch_manifest (case p_manifests s p of None \<Rightarrow> Inl NoFile | Some d \<Rightarrow> Inr d)) paths) of
        Some (Inr m) \<Rightarrow> Some m
      | _ \<Rightarrow> None)"

text \<open>The member of a discovered host for a member of its manifest, with its status.\<close>

definition discover_member :: "step_input \<Rightarrow> launch_member \<Rightarrow> (pool_fault, pool_member \<times> status) result" where
  "discover_member i l =
     (case si_world i (lm_config_dir l) of
        None \<Rightarrow> Err (Broken (si_text i))
      | Some w \<Rightarrow>
          (case fresh_status (si_view i w) of
             None \<Rightarrow> Err (MemberNotReady (lm_config_dir l))
           | Some st \<Rightarrow>
               (case identity_from_status st of
                  Inl e \<Rightarrow> Err (StatusUnproved (lm_config_dir l) e)
                | Inr who \<Rightarrow>
                    Ok (\<lparr>pm_world = w, pm_source_cwd = lm_source_cwd l, pm_name = lm_name l, pm_weaver = lm_weaver l,
                         pm_generation = lm_generation l,
                         pm_basis = (case text_entry (map_of st ''member_basis_fingerprint'') of None \<Rightarrow> [] | Some b \<Rightarrow> b),
                         pm_identity = who\<rparr>, st))))"

fun discover_members :: "step_input \<Rightarrow> launch_member list \<Rightarrow> (pool_fault, (pool_member \<times> status) list) result" where
  "discover_members i [] = Ok []"
| "discover_members i (l # ls) =
     (case discover_member i l of
        Inl e \<Rightarrow> Err e
      | Inr x \<Rightarrow> (case discover_members i ls of Inl e \<Rightarrow> Err e | Inr xs \<Rightarrow> Ok (x # xs)))"

definition discovered_host :: "string \<Rightarrow> string \<Rightarrow> ready_marker \<Rightarrow> launch_manifest \<Rightarrow> string list \<Rightarrow> pool_member list \<Rightarrow> pool_host" where
  "discovered_host dir pool marker manifest paths members =
     \<lparr>host_pool = pool, host_id = re_host marker, host_generation = re_host_generation marker, host_basis = re_basis marker,
      host_membership_rev = re_revision marker, host_cmd = Some (re_pid marker), host_pid = re_pid marker,
      host_launch_token = [], host_members = members,
      host_allowances = map (\<lambda>m. (pm_weaver m, pm_world m)) members, host_live = True,
      ph_ready_path = join_path [dir, ''ready.json''], ph_manifest_path = join_path [dir, base_path (hd paths)],
      ph_log_path = join_path [dir, ''host.log''], ph_restart_path = la_restart_path manifest\<rparr>"

text \<open>\<open>discoverPoolHost\<close> before it takes the mutex.\<close>

definition discover_pool_host :: "step_input \<Rightarrow> pool_mill \<Rightarrow> string \<Rightarrow> (pool_fault, pool_host option) result" where
  "discover_pool_host i s pool =
     (case si_root i of
        None \<Rightarrow> Err (Broken (si_text i))
      | Some root \<Rightarrow>
          (case pool_host_dir (si_sha i) root pool of
             Inl e \<Rightarrow> Err (PoolDir e)
           | Inr dir \<Rightarrow>
               (case read_ready i s (join_path [dir, ''ready.json'']) of
                  Inl NoFile \<Rightarrow> Ok None
                | Inl e \<Rightarrow> Err (ReadyUnread e)
                | Inr marker \<Rightarrow>
                    if \<not> si_alive i (re_pid marker) then Ok None
                    else (case si_glob i of
                      None \<Rightarrow> Err (Broken (si_text i))
                    | Some paths \<Rightarrow>
                        (case matching_manifest s (re_host marker) paths of
                           None \<Rightarrow> Err NoManifest
                         | Some manifest \<Rightarrow>
                             if la_restart_path manifest \<noteq> join_path [dir, pool_restart_file]
                             then Err (RestartPathDiffers (la_restart_path manifest))
                             else (case discover_members i (la_members manifest) of
                               Inl e \<Rightarrow> Err e
                             | Inr rows \<Rightarrow>
                                 let h = discovered_host dir pool marker manifest paths (map fst rows) in
                                 (case validate_pool_admission (si_alive i) (si_endpoint i) h marker
                                         (map_of (rev (map2 (\<lambda>l r. (lm_config_dir l, snd r)) (la_members manifest) rows))) of
                                    Some e \<Rightarrow> Err (AdmissionRefused e)
                                  | None \<Rightarrow> Ok (Some h))))))))"

section \<open>Start\<close>

text \<open>A start is over: a restart shapes the answer (\<open>pooledRestartResult\<close>) or goes on.\<close>

definition pooled_restart_result :: "world \<Rightarrow> status \<Rightarrow> status" where
  "pooled_restart_result w st =
     put True ''workspace'' (SV (JStr (w_config_dir w))) (put True ''operation'' (SV (JStr ''restart'')) st)"

definition conclude :: "job \<Rightarrow> pool_answer \<Rightarrow> pool_phase" where
  "conclude j ans =
     (case j_after j of
        ToCaller \<Rightarrow> Answered ans
      | ToRestart w \<Rightarrow> Answered (if snd ans \<noteq> None then ans else (map_option (pooled_restart_result w) (fst ans), None))
      | ToCutover k \<Rightarrow> Replaced k ans)"

definition snapshot_step :: "step_input \<Rightarrow> nat \<Rightarrow> job \<Rightarrow> pool_mill \<Rightarrow> pool_mill" where
  "snapshot_step i t j s =
     (case pool_snapshot_of i (j_pool j) of
        Inl e \<Rightarrow> goto t (conclude j (None, Some e)) s
      | Inr snap \<Rightarrow> goto t (Enter j snap) s)"

definition enter_step :: "nat \<Rightarrow> job \<Rightarrow> pool_snapshot \<Rightarrow> pool_mill \<Rightarrow> pool_mill" where
  "enter_step t j snap s =
     (case member_for_pool snap (w_config_dir (j_world j)) of
        None \<Rightarrow> goto t (conclude j (None, Some (NotInPool (w_config_dir (j_world j)) (j_pool j)))) s
      | Some _ \<Rightarrow>
          (case p_claims s (j_pool j) of
             Some owner \<Rightarrow> goto t (Wait j owner) s
           | None \<Rightarrow> goto t (Look j snap) (s\<lparr>p_claims := (p_claims s)(j_pool j \<mapsto> t)\<rparr>)))"

text \<open>After the wait for a claim the snapshot is read again.\<close>

definition wait_step :: "step_input \<Rightarrow> nat \<Rightarrow> job \<Rightarrow> nat \<Rightarrow> pool_mill \<Rightarrow> pool_mill" where
  "wait_step i t j owner s =
     (if p_claims s (j_pool j) \<noteq> Some owner then goto t (Snapshot j) s
      else if j_shutdown j \<and> si_shutdown i then goto t (conclude j (None, Some StartCancelled)) s
      else s)"

definition look_step :: "step_input \<Rightarrow> nat \<Rightarrow> job \<Rightarrow> pool_snapshot \<Rightarrow> pool_mill \<Rightarrow> pool_mill" where
  "look_step i t j snap s =
     (case p_hosts s (j_pool j) of
        None \<Rightarrow> goto t (Find (ForStart j snap) (j_pool j)) s
      | Some a \<Rightarrow>
          let h = host_at s a in
          if host_live h \<and> host_cmd h \<noteq> None \<and> si_alive i (host_pid h)
          then goto t (Unclaim j (serving_answer i h snap (w_config_dir (j_world j)))) s
          else goto t (Find (ForStart j snap) (j_pool j)) s)"

text \<open>What follows a discovery, by its purpose.\<close>

definition find_failed :: "purpose \<Rightarrow> pool_fault \<Rightarrow> pool_phase" where
  "find_failed p e =
     (case p of
        ForStart j snap \<Rightarrow> Unclaim j (None, Some e)
      | _ \<Rightarrow> Answered (None, Some e))"

definition nothing_found :: "purpose \<Rightarrow> string \<Rightarrow> pool_phase" where
  "nothing_found p pool =
     (case p of
        ForStart j snap \<Rightarrow> Prepare j snap
      | ForStop w \<Rightarrow> StopLookup w pool
      | ForRestart j \<Rightarrow> Decide j None
      | ForView \<Rightarrow> Answered (None, None))"

definition host_found :: "step_input \<Rightarrow> purpose \<Rightarrow> nat \<Rightarrow> pool_host \<Rightarrow> pool_phase" where
  "host_found i p a h =
     (case p of
        ForStart j snap \<Rightarrow> Unclaim j (serving_answer i h snap (w_config_dir (j_world j)))
      | ForStop w \<Rightarrow> StopLock w a
      | ForRestart j \<Rightarrow> Decide j (Some a)
      | ForView \<Rightarrow> Answered (None, None))"

definition find_step :: "step_input \<Rightarrow> nat \<Rightarrow> purpose \<Rightarrow> string \<Rightarrow> pool_mill \<Rightarrow> pool_mill" where
  "find_step i t p pool s =
     (case discover_pool_host i s pool of
        Inl e \<Rightarrow> goto t (find_failed p e) s
      | Inr None \<Rightarrow> goto t (nothing_found p pool) s
      | Inr (Some h) \<Rightarrow> goto t (Adopt p pool h) s)"

text \<open>\<open>discoverPoolHost\<close> under the mutex.\<close>

definition install :: "string \<Rightarrow> pool_host \<Rightarrow> pool_mill \<Rightarrow> pool_mill" where
  "install pool h s =
     (let a = p_next s in
      s\<lparr>p_heap := (p_heap s)(a \<mapsto> h), p_next := Suc a, p_hosts := (p_hosts s)(pool \<mapsto> a),
        p_members := (\<lambda>d. if d \<in> set (pool_config_dirs (host_members h)) then Some a else p_members s d)\<rparr>)"

definition adopt_step :: "step_input \<Rightarrow> nat \<Rightarrow> purpose \<Rightarrow> string \<Rightarrow> pool_host \<Rightarrow> pool_mill \<Rightarrow> pool_mill" where
  "adopt_step i t p pool h s =
     (case p_hosts s pool of
        Some a \<Rightarrow>
          if host_live (host_at s a) then goto t (host_found i p a (host_at s a)) s
          else goto t (host_found i p (p_next s) h) (install pool h s)
      | None \<Rightarrow> goto t (host_found i p (p_next s) h) (install pool h s))"

text \<open>The host is made, its manifest written and its log opened.\<close>

definition prepare_step :: "step_input \<Rightarrow> nat \<Rightarrow> job \<Rightarrow> pool_snapshot \<Rightarrow> pool_mill \<Rightarrow> pool_mill" where
  "prepare_step i t j snap s =
     (case (si_source i, si_root i) of
        (Some source, Some root) \<Rightarrow>
          (case pool_host_from_snapshot (si_sha i) root (si_version i) (si_ids i) (si_env i) source snap of
             Inl e \<Rightarrow> goto t (Unclaim j (None, Some (HostUnmade e))) s
           | Inr (manifest, h) \<Rightarrow>
               (case validate_launch_manifest manifest of
                  Some e \<Rightarrow> goto t (Unclaim j (None, Some (ManifestRefused e))) s
                | None \<Rightarrow>
                    if si_fails i then goto t (Unclaim j (None, Some (Broken (si_text i)))) s
                    else let s' = s\<lparr>p_manifests := (p_manifests s)(ph_manifest_path h \<mapsto> Some manifest)\<rparr> in
                      if si_nolog i
                      then goto t (Unclaim j (None, Some (Broken (si_text i)))) s'
                      else goto t (Register j snap (p_next s))
                             (s'\<lparr>p_heap := (p_heap s)(p_next s \<mapsto> h), p_next := Suc (p_next s)\<rparr>)))
      | _ \<Rightarrow> goto t (Unclaim j (None, Some (Broken (si_text i)))) s)"

text \<open>\<open>launchWeaver\<close>: the registration under the mutex, the start of the process, and its number.\<close>

definition register_step :: "nat \<Rightarrow> job \<Rightarrow> pool_snapshot \<Rightarrow> nat \<Rightarrow> pool_mill \<Rightarrow> pool_mill" where
  "register_step t j snap a s =
     (if (case p_hosts s (j_pool j) of None \<Rightarrow> False | Some old \<Rightarrow> host_live (host_at s old))
      then goto t (Forget j a (AlreadyRunning (j_pool j))) s
      else goto t (Spawn j snap a) (s\<lparr>p_hosts := (p_hosts s)(j_pool j \<mapsto> a)\<rparr>))"

definition spawn_step :: "step_input \<Rightarrow> nat \<Rightarrow> job \<Rightarrow> pool_snapshot \<Rightarrow> nat \<Rightarrow> pool_mill \<Rightarrow> pool_mill" where
  "spawn_step i t j snap a s =
     (if si_fails i then goto t (Forget j a (Broken (si_text i))) s
      else goto t (Number j snap a) (set_host a ((host_at s a)\<lparr>host_cmd := Some (si_pid i)\<rparr>) s))"

definition number_step :: "nat \<Rightarrow> job \<Rightarrow> pool_snapshot \<Rightarrow> nat \<Rightarrow> pool_mill \<Rightarrow> pool_mill" where
  "number_step t j snap a s =
     (let h = host_at s a in
      goto t (Await j snap a)
        (if p_hosts s (j_pool j) = Some a
         then set_host a (h\<lparr>host_pid := (case host_cmd h of None \<Rightarrow> 0 | Some pid \<Rightarrow> pid)\<rparr>) s else s))"

text \<open>One round of \<open>waitForPoolReady\<close>.\<close>

definition member_statuses :: "step_input \<Rightarrow> pool_host \<Rightarrow> (string \<Rightarrow> status option) option" where
  "member_statuses i h =
     (if list_all (\<lambda>m. fresh_status (si_view i (pm_world m)) \<noteq> None) (host_members h)
      then Some (map_of (rev (map (\<lambda>m. (member_dir m, the (fresh_status (si_view i (pm_world m))))) (host_members h))))
      else None)"

definition poll_ready_step :: "step_input \<Rightarrow> nat \<Rightarrow> job \<Rightarrow> pool_snapshot \<Rightarrow> nat \<Rightarrow> pool_mill \<Rightarrow> pool_mill" where
  "poll_ready_step i t j snap a s =
     (let h = host_at s a;
          ready = (case read_ready i s (ph_ready_path h) of Inl _ \<Rightarrow> None | Inr marker \<Rightarrow> map_option (Pair marker) (member_statuses i h))
      in case ready of
           Some (marker, sts) \<Rightarrow>
             (case validate_pool_admission (si_alive i) (si_endpoint i) h marker sts of
                Some e \<Rightarrow> goto t (Abort j a (AdmissionRefused e)) s
              | None \<Rightarrow> goto t (Route j snap a sts) s)
         | None \<Rightarrow>
             if si_exited i \<or> \<not> si_alive i (host_pid h) then goto t (Abort j a (ExitedEarly (si_text i))) s
             else if si_late i then goto t (Abort j a NotReadyInTime) s
             else if j_shutdown j \<and> si_shutdown i then goto t (Abort j a StartCancelled) s
             else s)"

text \<open>A start that failed after the process started: \<open>terminateProcess\<close>, \<open>waitForStartedChild\<close>, \<open>removePoolHost\<close>.\<close>

definition signal_host :: "bool \<Rightarrow> pool_host \<Rightarrow> signal_sent list" where
  "signal_host outlived h =
     (case host_cmd h of
        None \<Rightarrow> []
      | Some pid \<Rightarrow> terminate_pid pid @ [ToPid pid Term] @ (if outlived then [ToPid pid Kill] else []))"

definition abort_step :: "step_input \<Rightarrow> nat \<Rightarrow> job \<Rightarrow> nat \<Rightarrow> pool_fault \<Rightarrow> pool_mill \<Rightarrow> pool_mill" where
  "abort_step i t j a e s =
     goto t (Forget j a e) (s\<lparr>p_signals := p_signals s @ signal_host (si_killed i) (host_at s a)\<rparr>)"

definition forget_step :: "nat \<Rightarrow> job \<Rightarrow> nat \<Rightarrow> pool_fault \<Rightarrow> pool_mill \<Rightarrow> pool_mill" where
  "forget_step t j a e s = goto t (Unclaim j (None, Some e)) (remove_pool_host a s)"

text \<open>The members are routed to the ready host, in turn, until the status of one does not give an identity.\<close>

fun route_members ::
    "(string \<Rightarrow> status option) \<Rightarrow> pool_member list \<Rightarrow> pool_member list \<times> string list \<times> identity_error option" where
  "route_members sts [] = ([], [], None)"
| "route_members sts (m # ms) =
     (let st = (case sts (member_dir m) of None \<Rightarrow> [] | Some st \<Rightarrow> st) in
      case identity_from_status st of
        Inl e \<Rightarrow> (m # ms, [], Some e)
      | Inr who \<Rightarrow>
          (let (ms', dirs, e) = route_members sts ms in
           (m\<lparr>pm_identity := who,
              pm_basis := (case text_entry (map_of st ''member_basis_fingerprint'') of None \<Rightarrow> [] | Some b \<Rightarrow> b)\<rparr> # ms',
            member_dir m # dirs, e)))"

definition route_step :: "nat \<Rightarrow> job \<Rightarrow> pool_snapshot \<Rightarrow> nat \<Rightarrow> (string \<Rightarrow> status option) \<Rightarrow> pool_mill \<Rightarrow> pool_mill" where
  "route_step t j snap a sts s =
     (let h = host_at s a;
          (ms, dirs, e) = route_members sts (host_members h);
          s' = (set_host a (h\<lparr>host_live := True, host_members := ms\<rparr>) s)
                 \<lparr>p_members := (\<lambda>d. if d \<in> set dirs then Some a else p_members s d)\<rparr>
      in goto t (case e of None \<Rightarrow> Mark j snap a | Some e \<Rightarrow> Unclaim j (None, Some (StatusUnproved [] e))) s')"

definition mark_step :: "step_input \<Rightarrow> nat \<Rightarrow> job \<Rightarrow> pool_snapshot \<Rightarrow> nat \<Rightarrow> pool_mill \<Rightarrow> pool_mill" where
  "mark_step i t j snap a s =
     (let h = host_at s a in
      case read_ready i s (ph_ready_path h) of
        Inl e \<Rightarrow> goto t (Unclaim j (None, Some (ReadyUnread e))) s
      | Inr marker \<Rightarrow> goto t (Record j snap a) (set_host a (h\<lparr>host_basis := re_basis marker\<rparr>) s))"

text \<open>\<open>writePoolRestartRecordForHost\<close> on the files of the Mill.\<close>

definition write_host_record ::
    "step_input \<Rightarrow> nat \<Rightarrow> pool_snapshot \<Rightarrow> string \<Rightarrow> string \<Rightarrow> probe_result option \<Rightarrow> restart_failure option \<Rightarrow> bool \<Rightarrow> nat option
     \<Rightarrow> pool_mill \<Rightarrow> pool_error option \<times> pool_mill" where
  "write_host_record i a snap state transition probe failure old_stopped previous s =
     (let path = ph_restart_path (host_at s a);
          (err, text) = write_record_for_host (si_now i) (\<not> si_fails i) (host_at s a) snap state transition probe failure old_stopped
                         (map_option (host_at s) previous) (p_records s path)
      in (err, s\<lparr>p_records := (p_records s)(path := text)\<rparr>))"

definition record_step :: "step_input \<Rightarrow> nat \<Rightarrow> job \<Rightarrow> pool_snapshot \<Rightarrow> nat \<Rightarrow> pool_mill \<Rightarrow> pool_mill" where
  "record_step i t j snap a s =
     (case write_host_record i a snap state_running (si_transition i) None None False None s of
        (Some e, s') \<Rightarrow> goto t (Unclaim j (None, Some (RecordUnwritten e))) s'
      | (None, s') \<Rightarrow> goto t (Unclaim j (host_status i (host_at s' a) snap (w_config_dir (j_world j)), None)) s')"

definition unclaim_step :: "nat \<Rightarrow> job \<Rightarrow> pool_answer \<Rightarrow> pool_mill \<Rightarrow> pool_mill" where
  "unclaim_step t j ans s =
     goto t (conclude j ans)
       (if p_claims s (j_pool j) = Some t then s\<lparr>p_claims := (p_claims s)(j_pool j := None)\<rparr> else s)"

section \<open>Stop\<close>

definition stop_choose_step :: "step_input \<Rightarrow> nat \<Rightarrow> world \<Rightarrow> pool_mill \<Rightarrow> pool_mill" where
  "stop_choose_step i t w s =
     (case p_members s (w_config_dir w) of
        Some a \<Rightarrow> goto t (StopLock w a) s
      | None \<Rightarrow>
          (case si_recorded i of
             Inl e \<Rightarrow> goto t (Answered (None, Some (PoolRegistry e))) s
           | Inr (Some pool) \<Rightarrow> goto t (Find (ForStop w) pool) s
           | Inr None \<Rightarrow> goto t (Answered (Some (base_status (si_configured i) w ''stopped''), None)) s))"

definition stop_lookup_step :: "step_input \<Rightarrow> nat \<Rightarrow> world \<Rightarrow> string \<Rightarrow> pool_mill \<Rightarrow> pool_mill" where
  "stop_lookup_step i t w pool s =
     (case p_hosts s pool of
        Some a \<Rightarrow> goto t (StopLock w a) s
      | None \<Rightarrow> goto t (Answered (Some (base_status (si_configured i) w ''stopped''), None)) s)"

text \<open>\<open>Lock\<close> of the admission lock of the pool; the goroutine stays where it is while the lock is held.\<close>

definition lock_step :: "nat \<Rightarrow> string \<Rightarrow> pool_phase \<Rightarrow> pool_mill \<Rightarrow> pool_mill" where
  "lock_step t pool ph s =
     (if p_locks s pool = None then goto t ph (s\<lparr>p_locks := (p_locks s)(pool \<mapsto> t)\<rparr>) else s)"

text \<open>\<open>stopPoolProcess\<close>.\<close>

definition stop_pool_process :: "step_input \<Rightarrow> nat \<Rightarrow> pool_mill \<Rightarrow> pool_mill" where
  "stop_pool_process i a s =
     (let h = host_at s a in
      if host_cmd h = None \<or> \<not> si_alive i (host_pid h) then s
      else s\<lparr>p_signals := p_signals s @ signal_host False h
               @ (if si_killed i \<and> 0 < host_pid h then [ToPid (host_pid h) Kill] else [])\<rparr>)"

definition retire :: "nat \<Rightarrow> pool_mill \<Rightarrow> pool_mill" where
  "retire a s = set_host a ((host_at s a)\<lparr>host_live := False\<rparr>) s"

text \<open>The artifacts of the members, in turn; the first member whose artifacts cannot be removed.\<close>

definition clean_members :: "step_input \<Rightarrow> pool_host \<Rightarrow> string option" where
  "clean_members i h =
     map_option member_dir
       (List.find (\<lambda>m. id_weaver (pm_identity m) \<noteq> []
            \<and> \<not> fst (cleanup_artifacts (pm_world m) (pm_identity m) (si_artifact i (pm_world m)) (si_removable i))) (host_members h))"

text \<open>\<open>removePoolReadyMarker\<close>: whether it succeeds, and the files.\<close>

definition remove_ready_marker :: "step_input \<Rightarrow> nat \<Rightarrow> pool_mill \<Rightarrow> pool_fault option \<times> pool_mill" where
  "remove_ready_marker i a s =
     (let path = ph_ready_path (host_at s a) in
      if blank path then (Some MarkerPathBlank, s)
      else if si_fails i \<and> p_ready s path \<noteq> None then (Some (Broken (si_text i)), s)
      else (None, s\<lparr>p_ready := (p_ready s)(path := None)\<rparr>))"

text \<open>
  What the shutdown of the Mill (\<open>stopAll\<close>) does to the hosts, without their admission locks: the process of each host in
  the table is stopped, its ready marker removed if that succeeds, and the host taken out; then no workspace has a
  route.  Each pool has inputs of its own.
\<close>

fun shut_pool_hosts :: "(string \<Rightarrow> step_input) \<Rightarrow> string list \<Rightarrow> pool_mill \<Rightarrow> pool_mill" where
  "shut_pool_hosts i [] s = s\<lparr>p_members := (\<lambda>_. None)\<rparr>"
| "shut_pool_hosts i (pool # pools) s =
     (case p_hosts s pool of
        None \<Rightarrow> shut_pool_hosts i pools s
      | Some a \<Rightarrow>
          (let s' = stop_pool_process (i pool) a s;
               ready = (if si_fails (i pool) then p_ready s' else (p_ready s')(ph_ready_path (host_at s a) := None))
           in shut_pool_hosts i pools (s'\<lparr>p_ready := ready, p_hosts := (p_hosts s')(pool := None)\<rparr>)))"

definition stopped_status :: "step_input \<Rightarrow> world \<Rightarrow> pool_host \<Rightarrow> status" where
  "stopped_status i w h =
     put True ''restart_required'' (SV (JBool False))
      (put True ''pending_members'' (strs [])
       (put True ''live_members'' (strs [])
        (put True ''registered_members'' (strs (pool_config_dirs (host_members h)))
         (put True ''jvm_pool'' (SV (JStr (host_pool h))) (base_status (si_configured i) w ''stopped'')))))"

definition unlocking :: "pool_mill \<Rightarrow> nat \<Rightarrow> pool_answer \<Rightarrow> pool_phase" where
  "unlocking s a ans = Unlock (host_pool (host_at s a)) ans"

definition stop_clean_step :: "step_input \<Rightarrow> nat \<Rightarrow> world \<Rightarrow> nat \<Rightarrow> pool_mill \<Rightarrow> pool_mill" where
  "stop_clean_step i t w a s =
     (case clean_members i (host_at s a) of
        Some dir \<Rightarrow> goto t (unlocking s a (None, Some (CleanupFailed dir))) s
      | None \<Rightarrow> goto t (StopMarker w a) s)"

definition stop_marker_step :: "step_input \<Rightarrow> nat \<Rightarrow> world \<Rightarrow> nat \<Rightarrow> pool_mill \<Rightarrow> pool_mill" where
  "stop_marker_step i t w a s =
     (case remove_ready_marker i a s of
        (Some e, s') \<Rightarrow> goto t (unlocking s a (None, Some e)) s'
      | (None, s') \<Rightarrow> goto t (StopRecord w a) s')"

definition stop_record_step :: "step_input \<Rightarrow> nat \<Rightarrow> world \<Rightarrow> nat \<Rightarrow> pool_mill \<Rightarrow> pool_mill" where
  "stop_record_step i t w a s =
     (let path = ph_restart_path (host_at s a) in
      if si_fails i \<and> p_records s path \<noteq> None then goto t (unlocking s a (None, Some (Broken (si_text i)))) s
      else goto t (StopForget w a) (s\<lparr>p_records := (p_records s)(path := None)\<rparr>))"

definition stop_forget_step :: "step_input \<Rightarrow> nat \<Rightarrow> world \<Rightarrow> nat \<Rightarrow> pool_mill \<Rightarrow> pool_mill" where
  "stop_forget_step i t w a s =
     goto t (unlocking s a (Some (stopped_status i w (host_at s a)), None)) (remove_pool_host a s)"

definition unlock_step :: "nat \<Rightarrow> string \<Rightarrow> pool_answer \<Rightarrow> pool_mill \<Rightarrow> pool_mill" where
  "unlock_step t pool ans s = goto t (Answered ans) (s\<lparr>p_locks := (p_locks s)(pool := None)\<rparr>)"

section \<open>Restart\<close>

text \<open>\<open>poolProbeManifestForHost\<close>; the baseline of a member is the projection the running host reports of it.\<close>

definition baseline_of :: "step_input \<Rightarrow> pool_member \<Rightarrow> (pool_fault, object) result" where
  "baseline_of i m =
     (case si_baseline i (pm_identity m) of
        None \<Rightarrow> Err (BaselineUnread (member_dir m))
      | Some st \<Rightarrow>
          (case as_object (case map_of st ''registry_projection'' of Some (SV v) \<Rightarrow> Some v | _ \<Rightarrow> None) of
             None \<Rightarrow> Err (BaselineInvalid (member_dir m))
           | Some p \<Rightarrow>
               if valid_registry_projection p then Ok [(''status'', JStr ''admitted''), (''projection'', JObj p)]
               else Err (BaselineInvalid (member_dir m))))"

fun last_baseline :: "step_input \<Rightarrow> string \<Rightarrow> object option \<Rightarrow> pool_member list \<Rightarrow> (pool_fault, object option) result" where
  "last_baseline i dir b [] = Ok b"
| "last_baseline i dir b (m # ms) =
     (if member_dir m \<noteq> dir then last_baseline i dir b ms
      else case baseline_of i m of Inl e \<Rightarrow> Err e | Inr b' \<Rightarrow> last_baseline i dir (Some b') ms)"

definition probe_member_for :: "step_input \<Rightarrow> pool_host \<Rightarrow> string \<Rightarrow> member \<Rightarrow> (pool_fault, probe_member) result" where
  "probe_member_for i h probe_root m =
     (let e = si_probe_env i (config_dir m) in
      case pv_identity e of
        None \<Rightarrow> Err (Broken (si_text i))
      | Some dir \<Rightarrow>
          let root = join_path [probe_root, ''members'', ''member-'' @ take 32 (hex_encode (si_sha i dir))] in
          (case last_baseline i dir None (host_members h) of
             Inl f \<Rightarrow> Err f
           | Inr b \<Rightarrow>
               (case (si_world i dir, pv_name e, pv_source e) of
                  (Some _, Some name, Some source) \<Rightarrow>
                    Ok \<lparr>bm_config_dir = dir, bm_source_cwd = source, bm_probe_config = join_path [root, ''config''],
                        bm_probe_state = join_path [root, ''state''], bm_probe_data = join_path [root, ''data''],
                        bm_diagnostic = join_path [root, ''diagnostic.jsonl''], bm_name = name, bm_weaver = pv_weaver e,
                        bm_generation = pv_generation e, bm_baseline = b\<rparr>
                | _ \<Rightarrow> Err (Broken (si_text i)))))"

fun probe_members_for :: "step_input \<Rightarrow> pool_host \<Rightarrow> string \<Rightarrow> member list \<Rightarrow> (pool_fault, probe_member list) result" where
  "probe_members_for i h root [] = Ok []"
| "probe_members_for i h root (m # ms) =
     (case probe_member_for i h root m of
        Inl e \<Rightarrow> Err e
      | Inr x \<Rightarrow> (case probe_members_for i h root ms of Inl e \<Rightarrow> Err e | Inr xs \<Rightarrow> Ok (x # xs)))"

definition pool_probe_manifest_for_host ::
    "step_input \<Rightarrow> pool_host \<Rightarrow> pool_snapshot \<Rightarrow> (pool_fault, probe_manifest) result" where
  "pool_probe_manifest_for_host i h snap =
     (case (si_root i, si_source i) of
        (Some root, Some source) \<Rightarrow>
          (let ids = si_probe_ids i; probe_root = join_path [root, ''jvm-pools'', ''pool-probes'', pi_probe ids] in
           case probe_members_for i h probe_root (snap_members snap) of
             Inl e \<Rightarrow> Err e
           | Inr ms \<Rightarrow>
               let m = \<lparr>bp_format = pool_probe_format, bp_pool = host_pool h, bp_probe = pi_probe ids, bp_host = pi_host ids,
                        bp_generation = pi_generation ids, bp_root = probe_root, bp_source = source,
                        bp_result = join_path [probe_root, ''result.json''],
                        bp_collective = join_path [probe_root, ''collective.jsonl''], bp_members = ms\<rparr>
               in (case validate_probe_manifest m of Some e \<Rightarrow> Err (ProbeRefused e) | None \<Rightarrow> Ok m))
      | _ \<Rightarrow> Err (Broken (si_text i)))"

definition restart_choose_step :: "nat \<Rightarrow> job \<Rightarrow> pool_mill \<Rightarrow> pool_mill" where
  "restart_choose_step t j s =
     (case p_members s (w_config_dir (j_world j)) of
        Some a \<Rightarrow> goto t (Decide j (Some a)) s
      | None \<Rightarrow>
          if j_pool j = [] then goto t (Decide j None) s
          else (case p_hosts s (j_pool j) of
                  Some a \<Rightarrow> goto t (Decide j (Some a)) s
                | None \<Rightarrow> goto t (Find (ForRestart j) (j_pool j)) s))"

definition wanted_pool :: "step_input \<Rightarrow> job \<Rightarrow> string" where
  "wanted_pool i j = (if j_pool j \<noteq> [] then j_pool j else case configured_pool (si_effective i) of Inl _ \<Rightarrow> [] | Inr p \<Rightarrow> p)"

text \<open>Without a live host a restart is a start; otherwise the probe of the replacement is prepared.\<close>

definition start_instead :: "step_input \<Rightarrow> job \<Rightarrow> pool_phase" where
  "start_instead i j =
     (let pool = wanted_pool i j in
      if pool = [] then Answered (None, Some NoRunningHost)
      else case pool_snapshot_of i pool of
        Inl e \<Rightarrow> Answered (None, Some e)
      | Inr snap \<Rightarrow> Enter (j\<lparr>j_pool := pool, j_shutdown := False, j_after := ToRestart (j_world j)\<rparr>) snap)"

definition begin_cutover :: "step_input \<Rightarrow> job \<Rightarrow> nat \<Rightarrow> pool_host \<Rightarrow> pool_phase" where
  "begin_cutover i j a h =
     (let pool = (if j_pool j = [] then host_pool h else j_pool j) in
      case pool_snapshot_of i pool of
        Inl e \<Rightarrow> Answered (None, Some e)
      | Inr snap \<Rightarrow>
          (case pool_probe_manifest_for_host i h snap of
             Inl e \<Rightarrow> Answered (None, Some e)
           | Inr m \<Rightarrow> Probing \<lparr>k_world = j_world j, k_pool = pool, k_old = a, k_snapshot = snap, k_transition = si_transition i,
                        k_manifest = m, k_result = zero_result, k_probe = pooled_restart_probe m zero_result None\<rparr>))"

definition decide_step :: "step_input \<Rightarrow> nat \<Rightarrow> job \<Rightarrow> nat option \<Rightarrow> pool_mill \<Rightarrow> pool_mill" where
  "decide_step i t j found s =
     (case found of
        None \<Rightarrow> goto t (start_instead i j) s
      | Some a \<Rightarrow>
          if host_live (host_at s a) then goto t (begin_cutover i j a (host_at s a)) s
          else goto t (start_instead i j) s)"

text \<open>The records a restart writes, by the stage it has reached.\<close>

definition write_cutover ::
    "step_input \<Rightarrow> cutover \<Rightarrow> string \<Rightarrow> probe_result option \<Rightarrow> restart_failure option \<Rightarrow> bool \<Rightarrow> bool \<Rightarrow> pool_mill
     \<Rightarrow> pool_error option \<times> pool_mill" where
  "write_cutover i k state probe failure old_stopped previous s =
     write_host_record i (k_old k) (k_snapshot k) state (k_transition k) probe failure old_stopped
       (if previous then Some (k_old k) else None) s"

definition failure_at :: "string \<Rightarrow> string \<Rightarrow> string \<Rightarrow> restart_failure" where
  "failure_at stage message log = \<lparr>rf_stage = stage, rf_message = message, rf_log = log, rf_evidence = []\<rparr>"

definition written :: "nat \<Rightarrow> pool_error option \<times> pool_mill \<Rightarrow> (pool_fault \<Rightarrow> pool_phase) \<Rightarrow> pool_phase \<Rightarrow> pool_mill" where
  "written t r failed next = (case r of (Some e, s) \<Rightarrow> goto t (failed (RecordUnwritten e)) s | (None, s) \<Rightarrow> goto t next s)"

definition probing_step :: "step_input \<Rightarrow> nat \<Rightarrow> cutover \<Rightarrow> pool_mill \<Rightarrow> pool_mill" where
  "probing_step i t k s =
     written t (write_cutover i k state_probing None None False False s) (\<lambda>e. Answered (None, Some e)) (Probe k)"

definition failed_probe_status :: "step_input \<Rightarrow> cutover \<Rightarrow> pool_host \<Rightarrow> status" where
  "failed_probe_status i k h =
     add_pool_pending
       (case pool_status_for_member (si_configured i) (si_view i) h (w_config_dir (k_world k)) of
          Some st \<Rightarrow> st
        | None \<Rightarrow> put True ''live_members'' (strs (pool_config_dirs (host_members h)))
            (put True ''jvm_pool'' (SV (JStr (host_pool h))) (base_status (si_configured i) (k_world k) ''pending'')))
       h (k_snapshot k)"

definition probe_step :: "step_input \<Rightarrow> nat \<Rightarrow> cutover \<Rightarrow> pool_mill \<Rightarrow> pool_mill" where
  "probe_step i t k s =
     (let (r, err) = si_probe i;
          k' = k\<lparr>k_result := r, k_probe := pooled_restart_probe (k_manifest k) r err\<rparr>
      in case err of
           Some e \<Rightarrow> goto t (ProbeFailed k' (Some (failed_probe_status i k (host_at s (k_old k))), None) e) s
         | None \<Rightarrow> goto t (Keep k') s)"

definition probe_failure_status :: "cutover \<Rightarrow> string \<Rightarrow> status \<Rightarrow> status" where
  "probe_failure_status k e st =
     (let generation = (case map_of st ''generation_id'' of Some (SV v) \<Rightarrow> v | _ \<Rightarrow> JNull) in
      boundary_status (k_world k)
        (put True ''diagnostics'' (SV (JArr [JObj [(''stage'', JStr ''probe''), (''status'', JStr ''failed''),
           (''data'', JObj [(''message'', JStr e), (''generation_id'', generation), (''transition_id'', JStr (k_transition k))])]]))
          (put True ''restart_state'' (SV (JStr state_failed)) (put True ''probe_error'' (SV (JStr e)) st))))"

definition probe_failed_step :: "step_input \<Rightarrow> nat \<Rightarrow> cutover \<Rightarrow> pool_answer \<Rightarrow> string \<Rightarrow> pool_mill \<Rightarrow> pool_mill" where
  "probe_failed_step i t k ans e s =
     (if blank (pr_log (k_probe k)) \<or> si_nolog i then goto t (Answered (fst ans, Some (Broken e))) s
      else written t
        (write_cutover i k state_running (Some (k_probe k)) (Some (failure_at ''probe'' e (pr_log (k_probe k)))) False False s)
        (\<lambda>f. Answered (fst ans, Some f))
        (Answered (map_option (probe_failure_status k e) (fst ans), None)))"

definition keep_step :: "step_input \<Rightarrow> nat \<Rightarrow> cutover \<Rightarrow> pool_mill \<Rightarrow> pool_mill" where
  "keep_step i t k s = goto t (if si_fails i then Answered (None, Some (Broken (si_text i))) else ProbeClean k) s"

text \<open>\<open>cleanupPoolProbe\<close>; its failure is recorded with the host as the previous one.\<close>

definition probe_clean_step :: "step_input \<Rightarrow> nat \<Rightarrow> cutover \<Rightarrow> pool_mill \<Rightarrow> pool_mill" where
  "probe_clean_step i t k s =
     (if blank (bp_root (k_manifest k)) \<or> si_nolog i
      then written t
        (write_cutover i k state_failed (Some (k_probe k)) (Some (failure_at ''probe-cleanup'' (si_text i) (pr_log (k_probe k)))) False True s)
        (\<lambda>f. Answered (None, Some f)) (Answered (None, Some (Broken (si_text i))))
      else goto t (Cut k) s)"

definition cut_step :: "step_input \<Rightarrow> nat \<Rightarrow> cutover \<Rightarrow> pool_mill \<Rightarrow> pool_mill" where
  "cut_step i t k s =
     written t (write_cutover i k state_restarting (Some (k_probe k)) None False True s) (\<lambda>e. Answered (None, Some e)) (CutLock k)"

definition cut_stopped_step :: "step_input \<Rightarrow> nat \<Rightarrow> cutover \<Rightarrow> pool_mill \<Rightarrow> pool_mill" where
  "cut_stopped_step i t k s =
     written t (write_cutover i k state_restarting (Some (k_probe k)) None True True s)
       (\<lambda>e. unlocking s (k_old k) (None, Some e)) (CutClean k)"

definition cut_clean_step :: "step_input \<Rightarrow> nat \<Rightarrow> cutover \<Rightarrow> pool_mill \<Rightarrow> pool_mill" where
  "cut_clean_step i t k s =
     (let h = host_at s (k_old k) in
      case clean_members i h of
        Some dir \<Rightarrow> goto t (CutFailed k ''artifact-cleanup'' (CleanupFailed dir) (si_text i) (ph_log_path h)) s
      | None \<Rightarrow> goto t (CutMarker k) s)"

definition cut_marker_step :: "step_input \<Rightarrow> nat \<Rightarrow> cutover \<Rightarrow> pool_mill \<Rightarrow> pool_mill" where
  "cut_marker_step i t k s =
     (case remove_ready_marker i (k_old k) s of
        (Some e, s') \<Rightarrow> goto t (CutFailed k ''marker-cleanup'' e (si_text i) (ph_log_path (host_at s (k_old k)))) s'
      | (None, s') \<Rightarrow> goto t (CutForget k) s')"

definition cut_failed_step :: "step_input \<Rightarrow> nat \<Rightarrow> cutover \<Rightarrow> string \<Rightarrow> pool_fault \<Rightarrow> string \<Rightarrow> string \<Rightarrow> pool_mill \<Rightarrow> pool_mill" where
  "cut_failed_step i t k stage f message log s =
     written t (write_cutover i k state_failed (Some (k_probe k)) (Some (failure_at stage message log)) True True s)
       (\<lambda>e. unlocking s (k_old k) (None, Some e)) (unlocking s (k_old k) (None, Some f))"

definition cut_job :: "cutover \<Rightarrow> job" where
  "cut_job k = \<lparr>j_world = k_world k, j_pool = k_pool k, j_shutdown = False, j_after = ToCutover k\<rparr>"

definition cut_forget_step :: "nat \<Rightarrow> cutover \<Rightarrow> pool_mill \<Rightarrow> pool_mill" where
  "cut_forget_step t k s = goto t (Enter (cut_job k) (k_snapshot k)) (remove_pool_host (k_old k) s)"

definition replaced_step :: "step_input \<Rightarrow> nat \<Rightarrow> cutover \<Rightarrow> pool_answer \<Rightarrow> pool_mill \<Rightarrow> pool_mill" where
  "replaced_step i t k ans s =
     (case snd ans of
        Some f \<Rightarrow>
          written t
            (write_cutover i k state_failed (Some (pooled_restart_probe (k_manifest k) (k_result k) (Some (si_text i))))
              (Some (failure_at ''launch'' (si_text i) (ph_log_path (host_at s (k_old k))))) True True s)
            (\<lambda>e. unlocking s (k_old k) (fst ans, Some e)) (unlocking s (k_old k) (fst ans, Some f))
      | None \<Rightarrow>
          (let shaped = unlocking s (k_old k) (map_option (pooled_restart_result (k_world k)) (fst ans), None) in
           case p_members s (w_config_dir (k_world k)) of
             None \<Rightarrow> goto t shaped s
           | Some b \<Rightarrow>
               written t
                 (write_host_record i b (k_snapshot k) state_running (k_transition k) (Some (k_probe k)) None True (Some (k_old k)) s)
                 (\<lambda>e. unlocking s (k_old k) (fst ans, Some e)) shaped))"

section \<open>The machine\<close>

fun pool_act :: "step_input \<Rightarrow> nat \<Rightarrow> pool_phase \<Rightarrow> pool_mill \<Rightarrow> pool_mill" where
  "pool_act i t (Snapshot j) s = snapshot_step i t j s"
| "pool_act i t (Enter j snap) s = enter_step t j snap s"
| "pool_act i t (Wait j owner) s = wait_step i t j owner s"
| "pool_act i t (Look j snap) s = look_step i t j snap s"
| "pool_act i t (Find p pool) s = find_step i t p pool s"
| "pool_act i t (Adopt p pool h) s = adopt_step i t p pool h s"
| "pool_act i t (Prepare j snap) s = prepare_step i t j snap s"
| "pool_act i t (Register j snap a) s = register_step t j snap a s"
| "pool_act i t (Spawn j snap a) s = spawn_step i t j snap a s"
| "pool_act i t (Number j snap a) s = number_step t j snap a s"
| "pool_act i t (Await j snap a) s = poll_ready_step i t j snap a s"
| "pool_act i t (Abort j a e) s = abort_step i t j a e s"
| "pool_act i t (Forget j a e) s = forget_step t j a e s"
| "pool_act i t (Route j snap a sts) s = route_step t j snap a sts s"
| "pool_act i t (Mark j snap a) s = mark_step i t j snap a s"
| "pool_act i t (Record j snap a) s = record_step i t j snap a s"
| "pool_act i t (Unclaim j ans) s = unclaim_step t j ans s"
| "pool_act i t (StopChoose w) s = stop_choose_step i t w s"
| "pool_act i t (StopLookup w pool) s = stop_lookup_step i t w pool s"
| "pool_act i t (StopLock w a) s = lock_step t (host_pool (host_at s a)) (StopKill w a) s"
| "pool_act i t (StopKill w a) s = goto t (StopDead w a) (stop_pool_process i a s)"
| "pool_act i t (StopDead w a) s = goto t (StopClean w a) (retire a s)"
| "pool_act i t (StopClean w a) s = stop_clean_step i t w a s"
| "pool_act i t (StopMarker w a) s = stop_marker_step i t w a s"
| "pool_act i t (StopRecord w a) s = stop_record_step i t w a s"
| "pool_act i t (StopForget w a) s = stop_forget_step i t w a s"
| "pool_act i t (RestartChoose j) s = restart_choose_step t j s"
| "pool_act i t (Decide j found) s = decide_step i t j found s"
| "pool_act i t (Probing k) s = probing_step i t k s"
| "pool_act i t (Probe k) s = probe_step i t k s"
| "pool_act i t (ProbeFailed k ans e) s = probe_failed_step i t k ans e s"
| "pool_act i t (Keep k) s = keep_step i t k s"
| "pool_act i t (ProbeClean k) s = probe_clean_step i t k s"
| "pool_act i t (Cut k) s = cut_step i t k s"
| "pool_act i t (CutLock k) s = lock_step t (host_pool (host_at s (k_old k))) (CutKill k) s"
| "pool_act i t (CutKill k) s = goto t (CutDead k) (stop_pool_process i (k_old k) s)"
| "pool_act i t (CutDead k) s = goto t (CutStopped k) (retire (k_old k) s)"
| "pool_act i t (CutStopped k) s = cut_stopped_step i t k s"
| "pool_act i t (CutClean k) s = cut_clean_step i t k s"
| "pool_act i t (CutMarker k) s = cut_marker_step i t k s"
| "pool_act i t (CutForget k) s = cut_forget_step t k s"
| "pool_act i t (Replaced k ans) s = replaced_step i t k ans s"
| "pool_act i t (CutFailed k stage f message log) s = cut_failed_step i t k stage f message log s"
| "pool_act i t (Unlock pool ans) s = unlock_step t pool ans s"
| "pool_act i t (Answered ans) s = s"

end
