(* ===== verification/Pool_Steps.thy ===== *)
theory Pool_Steps
  imports Pool_Lifecycle
begin

text \<open>
  The interleavings of the lifecycle of pool hosts, and what one step of a goroutine may change: the tables of
  claims, hosts and routes, the cells of the heap, and what the phase after the step refers to.
\<close>

section \<open>Interleavings\<close>

text \<open>
  A request begins with the first phase of its handler; hosts and what they publish are the environment.  The shutdown
  of the Mill stops every host of the table, without the admission locks.  It waits for the starts under way, but not
  for stops and restarts; here it may come at any moment, which covers more runs.
\<close>

definition first_phase :: "pool_phase \<Rightarrow> bool" where
  "first_phase ph \<longleftrightarrow>
     (case ph of
        Snapshot j \<Rightarrow> j_after j = ToCaller
      | StopChoose w \<Rightarrow> True
      | RestartChoose j \<Rightarrow> j_after j = ToCaller
      | Find p pool \<Rightarrow> p = ForView
      | _ \<Rightarrow> False)"

text \<open>The directory of a registered workspace is canonical and stays so: its world is the one of that directory.\<close>

definition faithful_worlds :: "step_input \<Rightarrow> bool" where
  "faithful_worlds i \<longleftrightarrow> (\<forall>d w. si_world i d = Some w \<longrightarrow> w_config_dir w = d)"

inductive pool_step :: "pool_mill \<Rightarrow> pool_mill \<Rightarrow> bool" where
  request: "p_phase s t = None \<Longrightarrow> first_phase ph \<Longrightarrow> pool_step s (goto t ph s)"
| act: "p_phase s t = Some ph \<Longrightarrow> faithful_worlds i \<Longrightarrow> pool_step s (pool_act i t ph s)"
| publish: "pool_step s (s\<lparr>p_ready := (p_ready s)(path := content)\<rparr>)"
| shutdown: "{pool. p_hosts s pool \<noteq> None} \<subseteq> set pools \<Longrightarrow> pool_step s (shut_pool_hosts i pools s)"

definition pool_initial :: "pool_mill \<Rightarrow> bool" where
  "pool_initial s \<longleftrightarrow> p_heap s = (\<lambda>_. None) \<and> p_hosts s = (\<lambda>_. None) \<and> p_members s = (\<lambda>_. None)
     \<and> p_claims s = (\<lambda>_. None) \<and> p_locks s = (\<lambda>_. None) \<and> p_phase s = (\<lambda>_. None)"

inductive reachable_pools :: "pool_mill \<Rightarrow> bool" where
  start: "pool_initial s \<Longrightarrow> reachable_pools s"
| step: "reachable_pools s \<Longrightarrow> pool_step s s' \<Longrightarrow> reachable_pools s'"

section \<open>What a step may change\<close>

lemma goto_simps [simp]:
  "p_heap (goto t ph s) = p_heap s" "p_next (goto t ph s) = p_next s" "p_hosts (goto t ph s) = p_hosts s"
  "p_members (goto t ph s) = p_members s" "p_claims (goto t ph s) = p_claims s" "p_locks (goto t ph s) = p_locks s"
  "p_ready (goto t ph s) = p_ready s" "p_records (goto t ph s) = p_records s" "p_manifests (goto t ph s) = p_manifests s"
  "p_phase (goto t ph s) = (p_phase s)(t \<mapsto> ph)"
  by (simp_all add: goto_def)

lemma set_host_simps [simp]:
  "p_heap (set_host a h s) = (p_heap s)(a \<mapsto> h)" "p_next (set_host a h s) = p_next s" "p_hosts (set_host a h s) = p_hosts s"
  "p_members (set_host a h s) = p_members s" "p_claims (set_host a h s) = p_claims s" "p_locks (set_host a h s) = p_locks s"
  "p_ready (set_host a h s) = p_ready s" "p_phase (set_host a h s) = p_phase s"
  by (simp_all add: set_host_def)

lemma remove_pool_host_simps [simp]:
  "p_heap (remove_pool_host a s) = p_heap s" "p_next (remove_pool_host a s) = p_next s"
  "p_claims (remove_pool_host a s) = p_claims s" "p_locks (remove_pool_host a s) = p_locks s"
  "p_ready (remove_pool_host a s) = p_ready s" "p_phase (remove_pool_host a s) = p_phase s"
  by (simp_all add: remove_pool_host_def Let_def)

lemma stop_pool_process_simps [simp]:
  "p_heap (stop_pool_process i a s) = p_heap s" "p_next (stop_pool_process i a s) = p_next s"
  "p_hosts (stop_pool_process i a s) = p_hosts s" "p_members (stop_pool_process i a s) = p_members s"
  "p_claims (stop_pool_process i a s) = p_claims s" "p_locks (stop_pool_process i a s) = p_locks s"
  "p_ready (stop_pool_process i a s) = p_ready s" "p_phase (stop_pool_process i a s) = p_phase s"
  by (simp_all add: stop_pool_process_def Let_def)

lemma shut_pool_hosts_simps [simp]:
  "p_heap (shut_pool_hosts i pools s) = p_heap s" "p_next (shut_pool_hosts i pools s) = p_next s"
  "p_members (shut_pool_hosts i pools s) = (\<lambda>_. None)" "p_claims (shut_pool_hosts i pools s) = p_claims s"
  "p_locks (shut_pool_hosts i pools s) = p_locks s" "p_phase (shut_pool_hosts i pools s) = p_phase s"
  by (induction i pools s rule: shut_pool_hosts.induct) (simp_all add: Let_def split: option.split)

lemma shut_pool_hosts_fewer: "p_hosts (shut_pool_hosts i pools s) p = Some a \<Longrightarrow> p_hosts s p = Some a"
proof (induction pools arbitrary: s)
  case (Cons pool pools)
  then show ?case
    by (cases "p_hosts s pool") (auto simp: Let_def dest!: Cons.IH split: if_splits)
qed simp

lemma write_host_record_frame:
  "write_host_record i a snap st tr pr f os prev s = (e, s') \<Longrightarrow>
     p_heap s' = p_heap s \<and> p_next s' = p_next s \<and> p_hosts s' = p_hosts s \<and> p_members s' = p_members s
     \<and> p_claims s' = p_claims s \<and> p_locks s' = p_locks s \<and> p_phase s' = p_phase s \<and> p_ready s' = p_ready s"
  by (auto simp: write_host_record_def Let_def split: prod.splits)

lemma remove_ready_marker_frame:
  "remove_ready_marker i a s = (e, s') \<Longrightarrow>
     p_heap s' = p_heap s \<and> p_next s' = p_next s \<and> p_hosts s' = p_hosts s \<and> p_members s' = p_members s
     \<and> p_claims s' = p_claims s \<and> p_locks s' = p_locks s \<and> p_phase s' = p_phase s"
  by (auto simp: remove_ready_marker_def Let_def split: if_splits)

lemma written_simps:
  "written t (write_host_record i a snap st tr pr f os prev s) failed next =
     (let (e, s') = write_host_record i a snap st tr pr f os prev s
      in goto t (case e of None \<Rightarrow> next | Some e \<Rightarrow> failed (RecordUnwritten e)) s')"
  by (simp add: written_def split: prod.split option.split)

text \<open>A goroutine only changes its own phase, and it always has one.\<close>

lemmas start_steps = snapshot_step_def enter_step_def wait_step_def look_step_def find_step_def adopt_step_def install_def
  prepare_step_def register_step_def spawn_step_def number_step_def poll_ready_step_def abort_step_def forget_step_def
  route_step_def mark_step_def record_step_def unclaim_step_def

lemmas stop_steps = stop_choose_step_def stop_lookup_step_def lock_step_def retire_def stop_clean_step_def
  stop_marker_step_def stop_record_step_def stop_forget_step_def unlock_step_def

lemmas cut_steps = restart_choose_step_def decide_step_def probing_step_def probe_step_def probe_failed_step_def keep_step_def
  probe_clean_step_def cut_step_def cut_stopped_step_def cut_clean_step_def cut_marker_step_def cut_forget_step_def
  replaced_step_def cut_failed_step_def

lemmas act_splits = option.splits sum.splits prod.splits if_splits

lemmas act_frames = write_host_record_frame remove_ready_marker_frame

lemmas act_defs = start_steps stop_steps cut_steps write_cutover_def written_simps Let_def

text \<open>A goroutine changes only its own phase, and it keeps having one.\<close>

lemma act_phases:
  assumes "p_phase s t = Some ph"
  shows "p_phase (pool_act i t ph s) = (p_phase s)(t := p_phase (pool_act i t ph s) t)"
    and "p_phase (pool_act i t ph s) t \<noteq> None"
  using assms
  by (cases ph; auto simp: act_defs split: act_splits dest!: act_frames)+

lemma act_phases_other:
  "p_phase s t = Some ph \<Longrightarrow> u \<noteq> t \<Longrightarrow> p_phase (pool_act i t ph s) u = p_phase s u"
  by (subst act_phases(1)) auto

lemma act_claims:
  assumes "p_phase s t = Some ph" "p_claims (pool_act i t ph s) p \<noteq> p_claims s p"
  shows "p_claims s p = None \<or> p_claims s p = Some t"
  using assms
  by (cases ph) (auto simp: act_defs split: act_splits dest!: act_frames)

section \<open>Claims\<close>

text \<open>The pool whose start claim a goroutine has.\<close>

fun purpose_job :: "purpose \<Rightarrow> job option" where
  "purpose_job (ForStart j snap) = Some j"
| "purpose_job p = None"

fun claim_of :: "pool_phase \<Rightarrow> string option" where
  "claim_of (Look j snap) = Some (j_pool j)"
| "claim_of (Find p pool) = map_option j_pool (purpose_job p)"
| "claim_of (Adopt p pool h) = map_option j_pool (purpose_job p)"
| "claim_of (Prepare j snap) = Some (j_pool j)"
| "claim_of (Register j snap a) = Some (j_pool j)"
| "claim_of (Spawn j snap a) = Some (j_pool j)"
| "claim_of (Number j snap a) = Some (j_pool j)"
| "claim_of (Await j snap a) = Some (j_pool j)"
| "claim_of (Abort j a e) = Some (j_pool j)"
| "claim_of (Forget j a e) = Some (j_pool j)"
| "claim_of (Route j snap a sts) = Some (j_pool j)"
| "claim_of (Mark j snap a) = Some (j_pool j)"
| "claim_of (Record j snap a) = Some (j_pool j)"
| "claim_of (Unclaim j ans) = Some (j_pool j)"
| "claim_of ph = None"

definition claims_ok :: "pool_mill \<Rightarrow> bool" where
  "claims_ok s \<longleftrightarrow> (\<forall>t ph p. p_phase s t = Some ph \<and> claim_of ph = Some p \<longrightarrow> p_claims s p = Some t)"

lemma claim_of_end [simp]: "claim_of (conclude j ans) = None" "claim_of (begin_cutover i j a h) = None"
  "claim_of (start_instead i j) = None" "claim_of (unlocking s a ans) = None"
  by (auto simp: conclude_def begin_cutover_def start_instead_def unlocking_def Let_def split: act_splits after.splits)

lemma claim_of_found [simp]:
  "claim_of (find_failed p e) = map_option j_pool (purpose_job p)"
  "claim_of (nothing_found p pool) = map_option j_pool (purpose_job p)"
  "claim_of (host_found i p a h) = map_option j_pool (purpose_job p)"
  by (cases p; simp add: find_failed_def nothing_found_def host_found_def)+

lemma act_claimed:
  assumes "p_phase s t = Some ph" "\<And>p. claim_of ph = Some p \<Longrightarrow> p_claims s p = Some t"
    and "p_phase (pool_act i t ph s) t = Some ph'" "claim_of ph' = Some p"
  shows "p_claims (pool_act i t ph s) p = Some t"
  using assms
  by (cases ph) (auto simp: act_defs split: act_splits dest!: act_frames)

lemma claims_ok_step:
  assumes "claims_ok s" "pool_step s s'"
  shows "claims_ok s'"
  using assms(2)
proof cases
  case (request t ph)
  then show ?thesis
    using assms(1) by (auto simp: claims_ok_def first_phase_def split: pool_phase.splits purpose.splits)
next
  case (act t ph i)
  show ?thesis
    unfolding claims_ok_def
  proof (intro allI impI)
    fix u ph' p
    assume u: "p_phase s' u = Some ph' \<and> claim_of ph' = Some p"
    show "p_claims s' p = Some u"
    proof (cases "u = t")
      case True
      then show ?thesis
        using act u assms(1) act_claimed [of s t ph i ph' p] unfolding claims_ok_def by blast
    next
      case False
      then have own: "p_claims s p = Some u"
        using act u assms(1) act_phases_other [of s t ph u i] unfolding claims_ok_def by metis
      then show ?thesis
        using act_claims [of s t ph i p] act False by (cases "p_claims s' p = p_claims s p") auto
    qed
  qed
next
  case (publish path content)
  then show ?thesis
    using assms(1) by (simp add: claims_ok_def)
next
  case (shutdown pools i)
  then show ?thesis
    using assms(1) by (simp add: claims_ok_def)
qed

definition claims_work :: "pool_mill \<Rightarrow> nat \<Rightarrow> string \<Rightarrow> bool" where
  "claims_work s t p \<longleftrightarrow> (\<exists>ph. p_phase s t = Some ph \<and> claim_of ph = Some p)"

interpretation claim: lock_table claims_ok claims_work p_claims
  by unfold_locales (auto simp: claims_ok_def claims_work_def)

section \<open>Cells\<close>

text \<open>The cells a phase refers to: the host a start makes, the host a stop ends, the old host of a cut-over.\<close>

fun job_of :: "pool_phase \<Rightarrow> job option" where
  "job_of (Snapshot j) = Some j"
| "job_of (Enter j snap) = Some j"
| "job_of (Wait j owner) = Some j"
| "job_of (Look j snap) = Some j"
| "job_of (Find p pool) = purpose_job p"
| "job_of (Adopt p pool h) = purpose_job p"
| "job_of (Prepare j snap) = Some j"
| "job_of (Register j snap a) = Some j"
| "job_of (Spawn j snap a) = Some j"
| "job_of (Number j snap a) = Some j"
| "job_of (Await j snap a) = Some j"
| "job_of (Abort j a e) = Some j"
| "job_of (Forget j a e) = Some j"
| "job_of (Route j snap a sts) = Some j"
| "job_of (Mark j snap a) = Some j"
| "job_of (Record j snap a) = Some j"
| "job_of (Unclaim j ans) = Some j"
| "job_of ph = None"

fun own_of :: "pool_phase \<Rightarrow> nat option" where
  "own_of (Register j snap a) = Some a"
| "own_of (Spawn j snap a) = Some a"
| "own_of (Number j snap a) = Some a"
| "own_of (Await j snap a) = Some a"
| "own_of (Abort j a e) = Some a"
| "own_of (Forget j a e) = Some a"
| "own_of (Route j snap a sts) = Some a"
| "own_of (Mark j snap a) = Some a"
| "own_of (Record j snap a) = Some a"
| "own_of ph = None"

fun stop_of :: "pool_phase \<Rightarrow> nat option" where
  "stop_of (StopLock w a) = Some a"
| "stop_of (StopKill w a) = Some a"
| "stop_of (StopDead w a) = Some a"
| "stop_of (StopClean w a) = Some a"
| "stop_of (StopMarker w a) = Some a"
| "stop_of (StopRecord w a) = Some a"
| "stop_of (StopForget w a) = Some a"
| "stop_of (Decide j found) = found"
| "stop_of ph = None"

definition job_cut :: "job \<Rightarrow> cutover option" where
  "job_cut j = (case j_after j of ToCutover k \<Rightarrow> Some k | _ \<Rightarrow> None)"

fun cut_of :: "pool_phase \<Rightarrow> cutover option" where
  "cut_of (Probing k) = Some k"
| "cut_of (Probe k) = Some k"
| "cut_of (ProbeFailed k ans e) = Some k"
| "cut_of (Keep k) = Some k"
| "cut_of (ProbeClean k) = Some k"
| "cut_of (Cut k) = Some k"
| "cut_of (CutLock k) = Some k"
| "cut_of (CutKill k) = Some k"
| "cut_of (CutDead k) = Some k"
| "cut_of (CutStopped k) = Some k"
| "cut_of (CutClean k) = Some k"
| "cut_of (CutMarker k) = Some k"
| "cut_of (CutForget k) = Some k"
| "cut_of (Replaced k ans) = Some k"
| "cut_of (CutFailed k stage f message log) = Some k"
| "cut_of ph = (case job_of ph of None \<Rightarrow> None | Some j \<Rightarrow> job_cut j)"

definition refers :: "pool_phase \<Rightarrow> nat \<Rightarrow> bool" where
  "refers ph a \<longleftrightarrow> own_of ph = Some a \<or> stop_of ph = Some a \<or> map_option k_old (cut_of ph) = Some a"

definition cells_ok :: "pool_mill \<Rightarrow> bool" where
  "cells_ok s \<longleftrightarrow>
     (\<forall>a. p_heap s a \<noteq> None \<longrightarrow> a < p_next s) \<and> (\<forall>p a. p_hosts s p = Some a \<longrightarrow> p_heap s a \<noteq> None)
     \<and> (\<forall>d a. p_members s d = Some a \<longrightarrow> p_heap s a \<noteq> None)
     \<and> (\<forall>t ph a. p_phase s t = Some ph \<and> refers ph a \<longrightarrow> p_heap s a \<noteq> None)"

lemma cut_of_end [simp]: "cut_of (conclude j ans) = job_cut j" "own_of (conclude j ans) = None" "stop_of (conclude j ans) = None"
  "cut_of (start_instead i j) = None" "own_of (start_instead i j) = None" "stop_of (start_instead i j) = None"
  "own_of (begin_cutover i j a h) = None" "stop_of (begin_cutover i j a h) = None"
  "cut_of (unlocking s a ans) = None" "own_of (unlocking s a ans) = None" "stop_of (unlocking s a ans) = None"
  by (auto simp: conclude_def job_cut_def begin_cutover_def start_instead_def unlocking_def Let_def split: act_splits after.splits)

lemma begin_cutover_old: "cut_of (begin_cutover i j a h) = Some k \<Longrightarrow> k_old k = a"
  by (auto simp: begin_cutover_def Let_def split: act_splits)

lemma found_refers [simp]:
  "own_of (find_failed p e) = None" "stop_of (find_failed p e) = None" "cut_of (find_failed p e) = cut_of (Find p [])"
  "own_of (nothing_found p pool) = None" "stop_of (nothing_found p pool) = None" "cut_of (nothing_found p pool) = cut_of (Find p [])"
  "own_of (host_found i p a h) = None" "cut_of (host_found i p a h) = cut_of (Find p [])"
  by (cases p; simp add: find_failed_def nothing_found_def host_found_def)+

lemma host_found_stop: "stop_of (host_found i p a h) = Some b \<Longrightarrow> b = a"
  by (cases p; simp add: host_found_def)

lemma job_cut_cut_job [simp]: "job_cut (cut_job k) = Some k"
  by (simp add: job_cut_def cut_job_def)

text \<open>No cell is lost, and what a cell is made of stays: pool, members and their ids.\<close>

definition frozen :: "pool_host \<Rightarrow> string \<times> (string \<times> string \<times> string) list" where
  "frozen h = (host_pool h, map (\<lambda>m. (member_dir m, pm_weaver m, pm_generation m)) (host_members h))"

lemma route_members_frozen:
  "route_members sts ms = (ms', dirs, e) \<Longrightarrow>
     map (\<lambda>m. (member_dir m, pm_weaver m, pm_generation m)) ms' = map (\<lambda>m. (member_dir m, pm_weaver m, pm_generation m)) ms
     \<and> set dirs \<subseteq> member_dir ` set ms"
  by (induction sts ms arbitrary: ms' dirs e rule: route_members.induct)
    (auto simp: Let_def member_dir_def split: act_splits)

lemma act_frozen:
  assumes "p_phase s t = Some ph" "p_heap s a = Some h" "\<And>a. p_heap s a \<noteq> None \<Longrightarrow> a < p_next s"
  shows "\<exists>h'. p_heap (pool_act i t ph s) a = Some h' \<and> frozen h' = frozen h"
proof -
  have "p_heap s (p_next s) = None"
    using assms(3) by blast
  then show ?thesis
    using assms(1,2)
    by (cases ph) (auto simp: act_defs frozen_def host_at_def split: act_splits
      dest!: act_frames route_members_frozen)
qed

lemma act_heap:
  assumes "p_phase s t = Some ph" "\<not> refers ph a" "a \<noteq> p_next s"
  shows "p_heap (pool_act i t ph s) a = p_heap s a"
  using assms(2,3)
  by (induction ph) (auto simp: refers_def act_defs split: act_splits dest!: act_frames)

lemma act_next:
  assumes "p_phase s t = Some ph"
  shows "p_next s \<le> p_next (pool_act i t ph s)"
    and "\<not> refers ph (p_next s) \<Longrightarrow> p_heap (pool_act i t ph s) (p_next s) = p_heap s (p_next s) \<or> p_next s < p_next (pool_act i t ph s)"
  by (induction ph; auto simp: refers_def act_defs split: act_splits dest!: act_frames)+

lemma act_tables:
  assumes "p_phase s t = Some ph" "\<And>a. refers ph a \<Longrightarrow> p_heap s a \<noteq> None"
  shows "p_hosts (pool_act i t ph s) p = Some a \<Longrightarrow> p_hosts s p = Some a \<or> p_heap (pool_act i t ph s) a \<noteq> None"
    and "p_members (pool_act i t ph s) d = Some a \<Longrightarrow> p_members s d = Some a \<or> p_heap (pool_act i t ph s) a \<noteq> None"
  using assms(2-)
  by (induction ph; auto simp: act_defs refers_def remove_pool_host_def split: act_splits if_splits dest!: act_frames)+

lemma act_own:
  assumes "p_phase s t = Some ph" "p_phase (pool_act i t ph s) t = Some ph'" "own_of ph' = Some a"
  shows "own_of ph = Some a \<or> (\<exists>j snap. ph = Prepare j snap \<and> ph' = Register j snap a) \<and> a = p_next s"
  using assms
  by (cases ph) (auto simp: act_defs split: act_splits dest!: act_frames)

lemma act_stop:
  assumes "p_phase s t = Some ph" "p_phase (pool_act i t ph s) t = Some ph'" "stop_of ph' = Some a"
  shows "stop_of ph = Some a \<or> (\<exists>p. p_hosts s p = Some a) \<or> (\<exists>d. p_members s d = Some a) \<or> a = p_next s \<and> p_heap (pool_act i t ph s) a \<noteq> None"
  using assms
  by (cases ph) (auto simp: act_defs nothing_found_def find_failed_def host_found_def split: act_splits purpose.splits dest!: act_frames)

text \<open>A cut-over keeps the host, the pool and the members it was begun with.\<close>

definition same_cut :: "cutover \<Rightarrow> cutover \<Rightarrow> bool" where
  "same_cut k l \<longleftrightarrow> k_old k = k_old l \<and> k_pool k = k_pool l \<and> k_snapshot k = k_snapshot l"

lemma pool_snapshot_of_pool: "pool_snapshot_of i pool = Inr snap \<Longrightarrow> snap_pool snap = pool"
  by (auto simp: pool_snapshot_of_def validate_pool_def Let_def split: act_splits)

lemma begin_cutover_cut:
  "cut_of (begin_cutover i j a h) = Some k \<Longrightarrow> k_old k = a \<and> snap_pool (k_snapshot k) = k_pool k \<and> begin_cutover i j a h = Probing k"
  by (auto simp: begin_cutover_def Let_def split: act_splits dest: pool_snapshot_of_pool)

lemma act_cut:
  assumes "p_phase s t = Some ph" "p_phase (pool_act i t ph s) t = Some ph'" "cut_of ph' = Some k"
  shows "(\<exists>l. cut_of ph = Some l \<and> same_cut k l)
         \<or> (\<exists>j. ph = Decide j (Some (k_old k)) \<and> host_live (host_at s (k_old k)) \<and> snap_pool (k_snapshot k) = k_pool k \<and> ph' = Probing k)"
  using assms
  by (cases ph) (auto simp: act_defs same_cut_def split: act_splits dest!: act_frames begin_cutover_cut)

lemma cells_ok_act:
  assumes ok: "cells_ok s" and t: "p_phase s t = Some ph"
  shows "cells_ok (pool_act i t ph s)"
proof -
  let ?s = "pool_act i t ph s"
  have refs: "\<And>a. refers ph a \<Longrightarrow> p_heap s a \<noteq> None" and next': "\<And>a. p_heap s a \<noteq> None \<Longrightarrow> a < p_next s"
    using ok t by (auto simp: cells_ok_def)
  have in_hosts: "\<And>p a. p_hosts s p = Some a \<Longrightarrow> p_heap s a \<noteq> None" and in_members: "\<And>d a. p_members s d = Some a \<Longrightarrow> p_heap s a \<noteq> None"
    using ok by (auto simp: cells_ok_def)
  have kept: "p_heap s a \<noteq> None \<Longrightarrow> p_heap ?s a \<noteq> None" for a
    using act_frozen [OF t _ next'] by blast
  have bound: "a < p_next ?s" if "p_heap ?s a \<noteq> None" for a
  proof (cases "p_heap s a = None")
    case True
    then have nr: "\<not> refers ph a" using refs by blast
    then show ?thesis
      using act_heap [OF t nr] act_next(2) [OF t, where i = i] True that by (cases "a = p_next s") auto
  next
    case False
    then show ?thesis using next' act_next(1) [OF t, where i = i] by (meson less_le_trans)
  qed
  have tables: "p_hosts ?s p = Some a \<Longrightarrow> p_heap ?s a \<noteq> None" "p_members ?s p = Some a \<Longrightarrow> p_heap ?s a \<noteq> None" for p a
    using act_tables [OF t refs] ok kept unfolding cells_ok_def by blast+
  have phases: "p_heap ?s a \<noteq> None" if u: "p_phase ?s u = Some ph'" and r: "refers ph' a" for u ph' a
  proof (cases "u = t")
    case False
    then show ?thesis
      using u r ok kept act_phases_other [OF t False] unfolding cells_ok_def by metis
  next
    case True
    with u have u: "p_phase ?s t = Some ph'" by simp
    consider (own) "own_of ph' = Some a" | (stop) "stop_of ph' = Some a" | (cut) k where "cut_of ph' = Some k" "k_old k = a"
      using r by (auto simp: refers_def)
    then show ?thesis
    proof cases
      case own
      then consider "refers ph a" | j snap where "ph = Prepare j snap" "ph' = Register j snap a" "a = p_next s"
        using act_own [OF t u] by (auto simp: refers_def)
      then show ?thesis
      proof cases
        case 2
        then show ?thesis
          using u by (auto simp: prepare_step_def Let_def split: act_splits)
      qed (use refs kept in blast)
    next
      case stop
      then show ?thesis
        using act_stop [OF t u stop] refs [unfolded refers_def] in_hosts in_members kept by blast
    next
      case cut
      then have "refers ph a"
        using act_cut [OF t u] by (auto simp: refers_def same_cut_def)
      then show ?thesis using refs kept by blast
    qed
  qed
  show ?thesis
    using bound tables phases unfolding cells_ok_def by blast
qed

section \<open>Hosts and routes\<close>

text \<open>The members of a host carry the identities its admission proved; the statuses that would prove them.\<close>

definition fits :: "pool_host \<Rightarrow> pool_member \<Rightarrow> weaver_identity \<Rightarrow> bool" where
  "fits h m who \<longleftrightarrow> id_pid who = host_pid h \<and> id_weaver who = pm_weaver m \<and> id_generation who = pm_generation m
     \<and> id_config_dir who = member_dir m"

definition host_proved :: "pool_host \<Rightarrow> bool" where
  "host_proved h \<longleftrightarrow> (\<forall>m \<in> set (host_members h). fits h m (pm_identity m))"

definition statuses_prove :: "pool_host \<Rightarrow> (string \<Rightarrow> status option) \<Rightarrow> bool" where
  "statuses_prove h sts \<longleftrightarrow>
     (\<forall>m \<in> set (host_members h). \<exists>st who. sts (member_dir m) = Some st \<and> identity_from_status st = Inr who \<and> fits h m who)"

lemma admission_proves:
  assumes "validate_pool_admission alive endpoint h marker sts = None"
  shows "statuses_prove h sts"
  unfolding statuses_prove_def
proof
  fix m assume m: "m \<in> set (host_members h)"
  have len: "length (host_members h) = length (re_members marker)"
    using assms by (auto simp: validate_pool_admission_def split: if_splits)
  obtain r where "(m, r) \<in> set (zip (host_members h) (re_members marker))"
    using m len by (metis in_set_impl_in_set_zip1)
  then have "admit_member alive endpoint h marker sts m r = None"
    using assms by (auto simp: validate_pool_admission_def split: if_splits)
  then show "\<exists>st who. sts (member_dir m) = Some st \<and> identity_from_status st = Inr who \<and> fits h m who"
    by (auto simp: admit_member_None member_proved_def fits_def)
qed

lemma route_members_all:
  assumes "\<And>m. m \<in> set ms \<Longrightarrow> \<exists>st who. sts (member_dir m) = Some st \<and> identity_from_status st = Inr who \<and> fits h m who"
    and "route_members sts ms = (ms', dirs, e)"
  shows "e = None \<and> dirs = map member_dir ms \<and> (\<forall>m \<in> set ms'. fits h m (pm_identity m))"
  using assms
proof (induction sts ms arbitrary: ms' dirs e rule: route_members.induct)
  case (2 sts m ms)
  obtain st who where m: "sts (member_dir m) = Some st" "identity_from_status st = Inr who" "fits h m who"
    using "2.prems"(1) [of m] by auto
  obtain ms2 dirs2 e2 where r: "route_members sts ms = (ms2, dirs2, e2)" by (cases "route_members sts ms")
  have "e2 = None \<and> dirs2 = map member_dir ms \<and> (\<forall>m \<in> set ms2. fits h m (pm_identity m))"
    using "2.IH" [OF _ _ _ r] "2.prems"(1) m by auto
  moreover have "fits h (m\<lparr>pm_identity := who, pm_basis := b\<rparr>) who" for b
    using m(3) by (simp add: fits_def member_dir_def)
  ultimately show ?case
    using "2.prems"(2) m r by auto
qed simp

lemma fits_cong: "host_pid h = host_pid h' \<Longrightarrow> fits h m who = fits h' m who"
  by (simp add: fits_def)

lemma matching_manifest_valid:
  assumes "matching_manifest s host paths = Some m"
  shows "validate_launch_manifest m = None"
proof -
  obtain r where "List.find (\<lambda>r. case r of Inl _ \<Rightarrow> False | Inr m \<Rightarrow> la_host m = host)
      (map (\<lambda>p. read_launch_manifest (case p_manifests s p of None \<Rightarrow> Inl NoFile | Some d \<Rightarrow> Inr d)) paths) = Some (Inr m)"
    using assms by (auto simp: matching_manifest_def split: act_splits)
  then obtain p where "read_launch_manifest (case p_manifests s p of None \<Rightarrow> Inl NoFile | Some d \<Rightarrow> Inr d) = Inr m"
    by (auto simp: find_Some_iff)
  then show ?thesis
    by (auto simp: read_launch_manifest_def read_checked_def split: act_splits)
qed

lemma launch_dirs_distinct:
  assumes "validate_launch_manifest m = None"
  shows "distinct (map lm_config_dir (la_members m))"
  using assms
  by (auto simp: validate_launch_manifest_def check_sorted_None strict_sorted_on_iff split: option.splits)

text \<open>A discovered host is that of the pool, and its members carry what its admission proved.\<close>

lemma discover_members_rows:
  assumes "faithful_worlds i" "discover_members i ls = Inr rows"
  shows "length rows = length ls
    \<and> (\<forall>(l, m, st) \<in> set (zip ls rows). member_dir m = lm_config_dir l \<and> identity_from_status st = Inr (pm_identity m))"
  using assms(2)
proof (induction ls arbitrary: rows)
  case (Cons l ls)
  then show ?case
    using assms(1) by (auto simp: discover_member_def faithful_worlds_def member_dir_def split: act_splits)
qed simp

lemma discovered_proved:
  assumes "faithful_worlds i" "discover_pool_host i s pool = Inr (Some h)"
  shows "host_pool h = pool \<and> host_proved h"
proof -
  note d = assms(2) [unfolded discover_pool_host_def Let_def]
  obtain root where root: "si_root i = Some root"
    using d by (cases "si_root i") auto
  obtain dir where dir: "pool_host_dir (si_sha i) root pool = Inr dir"
    using d by (cases "pool_host_dir (si_sha i) root pool") (auto simp: root)
  obtain marker where marker: "read_ready i s (join_path [dir, ''ready.json'']) = Inr marker"
    using d by (cases "read_ready i s (join_path [dir, ''ready.json''])") (auto simp: root dir split: file_error.splits)
  obtain paths where paths: "si_glob i = Some paths"
    using d by (cases "si_glob i") (auto simp: root dir marker split: if_splits)
  obtain manifest where m: "matching_manifest s (re_host marker) paths = Some manifest"
    using d by (cases "matching_manifest s (re_host marker) paths") (auto simp: root dir marker paths split: if_splits)
  obtain rows where r: "discover_members i (la_members manifest) = Inr rows"
    using d by (cases "discover_members i (la_members manifest)") (auto simp: root dir marker paths m split: if_splits)
  have h: "discovered_host dir pool marker manifest paths (map fst rows) = h"
    and ok: "validate_pool_admission (si_alive i) (si_endpoint i) h marker
               (map_of (rev (map2 (\<lambda>l r. (lm_config_dir l, snd r)) (la_members manifest) rows))) = None"
    using d by (auto simp: root dir marker paths m r split: if_splits option.splits)
  let ?sts = "map_of (rev (map2 (\<lambda>l r. (lm_config_dir l, snd r)) (la_members manifest) rows))"
  have rows: "length rows = length (la_members manifest)"
      "\<And>l m st. (l, m, st) \<in> set (zip (la_members manifest) rows) \<Longrightarrow>
         member_dir m = lm_config_dir l \<and> identity_from_status st = Inr (pm_identity m)"
    using discover_members_rows [OF assms(1) r] by auto
  have "map fst (map2 (\<lambda>l r. (lm_config_dir l, snd r)) (la_members manifest) rows) = map lm_config_dir (la_members manifest)"
    using rows(1) by (auto intro!: nth_equalityI)
  then have dist: "distinct (map fst (rev (map2 (\<lambda>l r. (lm_config_dir l, snd r)) (la_members manifest) rows)))"
    using launch_dirs_distinct [OF matching_manifest_valid [OF m]] by (simp add: rev_map [symmetric])
  have "fits h m (pm_identity m)" if "m \<in> set (host_members h)" for m
  proof -
    have "m \<in> fst ` set rows"
      using that unfolding h [symmetric] by (simp add: discovered_host_def)
    then obtain st where "(m, st) \<in> set rows" by auto
    then obtain l where row: "(l, m, st) \<in> set (zip (la_members manifest) rows)"
      using rows(1) by (metis in_set_impl_in_set_zip2)
    have "(member_dir m, st) \<in> set (rev (map2 (\<lambda>l r. (lm_config_dir l, snd r)) (la_members manifest) rows))"
      using row rows(2) [OF row] by force
    then have "?sts (member_dir m) = Some st"
      using dist by (simp add: map_of_eq_Some_iff)
    then show ?thesis
      using admission_proves [OF ok] that rows(2) [OF row] by (auto simp: statuses_prove_def)
  qed
  then show ?thesis
    unfolding h [symmetric] by (simp add: host_proved_def discovered_host_def)
qed

text \<open>What a phase relies on.\<close>

fun purpose_snap :: "purpose \<Rightarrow> (job \<times> pool_snapshot) option" where
  "purpose_snap (ForStart j snap) = Some (j, snap)"
| "purpose_snap p = None"

fun snap_of :: "pool_phase \<Rightarrow> (job \<times> pool_snapshot) option" where
  "snap_of (Enter j snap) = Some (j, snap)"
| "snap_of (Look j snap) = Some (j, snap)"
| "snap_of (Find p pool) = purpose_snap p"
| "snap_of (Adopt p pool h) = purpose_snap p"
| "snap_of (Prepare j snap) = Some (j, snap)"
| "snap_of ph = None"

fun unrouted :: "pool_phase \<Rightarrow> nat option" where
  "unrouted (Mark j snap a) = None"
| "unrouted (Record j snap a) = None"
| "unrouted ph = own_of ph"

fun cut_dead :: "pool_phase \<Rightarrow> cutover option" where
  "cut_dead (Probing k) = None"
| "cut_dead (Probe k) = None"
| "cut_dead (ProbeFailed k ans e) = None"
| "cut_dead (Keep k) = None"
| "cut_dead (ProbeClean k) = None"
| "cut_dead (Cut k) = None"
| "cut_dead (CutLock k) = None"
| "cut_dead (CutKill k) = None"
| "cut_dead (CutDead k) = None"
| "cut_dead ph = cut_of ph"

fun route_of :: "pool_phase \<Rightarrow> (nat \<times> (string \<Rightarrow> status option)) option" where
  "route_of (Route j snap a sts) = Some (a, sts)"
| "route_of ph = None"

fun adopt_of :: "pool_phase \<Rightarrow> (string \<times> pool_host) option" where
  "adopt_of (Adopt p pool h) = Some (pool, h)"
| "adopt_of ph = None"

lemma adopt_of_end [simp]: "adopt_of (conclude j ans) = None" "adopt_of (start_instead i j) = None"
  "adopt_of (begin_cutover i j a h) = None" "adopt_of (unlocking s a ans) = None"
  "adopt_of (find_failed p e) = None" "adopt_of (nothing_found p pool) = None" "adopt_of (host_found i p a h) = None"
  by (auto simp: conclude_def start_instead_def begin_cutover_def unlocking_def find_failed_def nothing_found_def host_found_def Let_def
    split: act_splits after.splits purpose.splits)

lemma route_of_None [simp]: "own_of ph = None \<Longrightarrow> route_of ph = None"
  by (cases ph) simp_all

definition phase_ok :: "pool_mill \<Rightarrow> pool_phase \<Rightarrow> bool" where
  "phase_ok s ph \<longleftrightarrow>
     (\<forall>j snap. snap_of ph = Some (j, snap) \<longrightarrow> snap_pool snap = j_pool j)
     \<and> (\<forall>j a. job_of ph = Some j \<and> own_of ph = Some a \<longrightarrow> host_pool (host_at s a) = j_pool j)
     \<and> (\<forall>k. cut_of ph = Some k \<longrightarrow> snap_pool (k_snapshot k) = k_pool k)
     \<and> (\<forall>pool h. adopt_of ph = Some (pool, h) \<longrightarrow> host_pool h = pool \<and> host_proved h)
     \<and> (\<forall>a. unrouted ph = Some a \<longrightarrow> \<not> host_live (host_at s a))
     \<and> (\<forall>a sts. route_of ph = Some (a, sts) \<longrightarrow> statuses_prove (host_at s a) sts)
     \<and> (\<forall>k. cut_dead ph = Some k \<longrightarrow> \<not> host_live (host_at s (k_old k)))"

lemma unrouted_None [simp]: "own_of ph = None \<Longrightarrow> unrouted ph = None"
  by (cases ph) simp_all

lemma unrouted_own: "unrouted ph = Some a \<Longrightarrow> own_of ph = Some a"
  by (cases ph) simp_all

lemma cut_dead_cut: "cut_dead ph = Some k \<Longrightarrow> cut_of ph = Some k"
  by (cases ph) simp_all

lemma cut_dead_end [simp]: "cut_dead (conclude j ans) = job_cut j" "cut_dead (begin_cutover i j a h) = None"
  "cut_of ph = None \<Longrightarrow> cut_dead ph = None"
  by (auto simp: conclude_def job_cut_def begin_cutover_def Let_def split: act_splits after.splits) (cases ph; simp)

lemma cut_dead_found [simp]: "cut_dead (find_failed p e) = cut_of (Find p [])" "cut_dead (nothing_found p pool) = cut_of (Find p [])"
  "cut_dead (host_found i p a h) = cut_of (Find p [])"
  by (cases p; simp add: find_failed_def nothing_found_def host_found_def)+

lemma snap_of_end [simp]: "snap_of (conclude j ans) = None" "snap_of (unlocking s a ans) = None"
  "snap_of (begin_cutover i j a h) = None"
  by (auto simp: conclude_def unlocking_def begin_cutover_def Let_def split: act_splits after.splits)

lemma snap_of_found [simp]:
  "snap_of (find_failed p e) = None" "snap_of (nothing_found p pool) = purpose_snap p" "snap_of (host_found i p a h) = None"
  by (cases p; simp add: find_failed_def nothing_found_def host_found_def)+

lemma start_instead_snap: "snap_of (start_instead i j) = Some (j', snap) \<Longrightarrow> snap_pool snap = j_pool j'"
  by (auto simp: start_instead_def Let_def split: act_splits dest: pool_snapshot_of_pool)

lemma act_snap:
  assumes "p_phase s t = Some ph" "p_phase (pool_act i t ph s) t = Some ph'" "snap_of ph' = Some (j, snap)"
  shows "snap_of ph = Some (j, snap) \<or> snap_pool snap = j_pool j
         \<or> (\<exists>k. cut_of ph = Some k \<and> snap = k_snapshot k \<and> j_pool j = k_pool k)"
  using assms
  by (cases ph) (auto simp: act_defs cut_job_def split: act_splits dest!: act_frames start_instead_snap pool_snapshot_of_pool)

lemma pool_host_from_snapshot_fresh:
  "pool_host_from_snapshot sha root version ids env source snap = Inr (m, h) \<Longrightarrow> host_pool h = snap_pool snap \<and> \<not> host_live h"
  by (auto simp: pool_host_from_snapshot_def Let_def split: act_splits)

lemma prepare_registers:
  assumes "p_phase (prepare_step i t j snap s) t = Some ph" "own_of ph = Some a"
  shows "ph = Register j snap a \<and> a = p_next s \<and> (\<exists>h. p_heap (prepare_step i t j snap s) a = Some h \<and> host_pool h = snap_pool snap \<and> \<not> host_live h)"
  using assms
  by (auto simp: prepare_step_def Let_def split: act_splits dest: pool_host_from_snapshot_fresh)

lemma act_job:
  assumes "p_phase s t = Some ph" "p_phase (pool_act i t ph s) t = Some ph'" "own_of ph' = Some a"
  shows "(own_of ph = Some a \<and> job_of ph' = job_of ph) \<or> (\<exists>j snap. ph = Prepare j snap \<and> ph' = Register j snap a \<and> a = p_next s)"
  using assms
  by (cases ph) (auto simp: act_defs split: act_splits dest!: act_frames)

lemma act_unrouted:
  assumes "p_phase s t = Some ph" "p_phase (pool_act i t ph s) t = Some ph'" "unrouted ph' = Some a"
  shows "unrouted ph = Some a \<and> host_live (host_at (pool_act i t ph s) a) = host_live (host_at s a) \<or> (\<exists>j snap. ph = Prepare j snap \<and> ph' = Register j snap a)"
  using assms
  by (cases ph) (auto simp: act_defs host_at_def split: act_splits dest!: act_frames)

lemma act_dead:
  assumes "p_phase s t = Some ph" "p_phase (pool_act i t ph s) t = Some ph'" "cut_dead ph' = Some k"
  shows "cut_dead ph = Some k \<or> ph = CutDead k"
  using assms
  by (cases ph) (auto simp: act_defs split: act_splits dest!: act_frames)

lemma act_route:
  assumes "p_phase s t = Some ph" "p_phase (pool_act i t ph s) t = Some ph'" "route_of ph' = Some (a, sts)"
  shows "statuses_prove (host_at (pool_act i t ph s) a) sts"
  using assms
  by (cases ph) (auto simp: act_defs host_at_def split: act_splits dest!: act_frames dest: admission_proves)

text \<open>What a step makes of a cell: a stop only takes its life; a start works on its own.\<close>

lemma act_cell:
  assumes "p_phase s t = Some ph" "own_of ph \<noteq> Some a" "p_heap s a = Some h" "p_heap (pool_act i t ph s) a = Some h'" "a \<noteq> p_next s"
  shows "h' = h \<or> h' = h\<lparr>host_live := False\<rparr>"
  using assms
  by (cases ph) (auto simp: act_defs host_at_def split: act_splits if_splits dest!: act_frames)

lemma route_proved:
  assumes "statuses_prove h sts" "route_members sts (host_members h) = (ms, dirs, e)"
  shows "e = None \<and> dirs = map member_dir (host_members h) \<and> host_proved (h\<lparr>host_live := True, host_members := ms\<rparr>)"
  using route_members_all [OF _ assms(2), of h] assms(1)
  by (auto simp: statuses_prove_def host_proved_def fits_def)

lemma host_proved_simps [simp]: "host_proved (h\<lparr>host_live := b\<rparr>) = host_proved h" "host_proved (h\<lparr>host_basis := c\<rparr>) = host_proved h"
  "host_proved (h\<lparr>host_cmd := c'\<rparr>) = host_proved h"
  by (simp_all add: host_proved_def fits_def)

lemma act_proved:
  assumes "p_phase s t = Some ph" "phase_ok s ph" "p_heap (pool_act i t ph s) a = Some h" "host_live h"
    and "\<And>a h. p_heap s a = Some h \<Longrightarrow> host_live h \<Longrightarrow> host_proved h"
    and "\<And>a. refers ph a \<Longrightarrow> p_heap s a \<noteq> None"
  shows "host_proved h"
  using assms
  by (cases ph; auto simp: act_defs phase_ok_def host_at_def refers_def split: act_splits if_splits
    dest!: act_frames dest: route_proved pool_host_from_snapshot_fresh; fail)

lemma act_adopt:
  assumes "p_phase s t = Some ph" "faithful_worlds i" "p_phase (pool_act i t ph s) t = Some ph'" "adopt_of ph' = Some (pool, h)"
  shows "adopt_of ph = Some (pool, h) \<or> host_pool h = pool \<and> host_proved h"
  using assms
  by (cases ph) (auto simp: act_defs split: act_splits dest!: act_frames dest: discovered_proved)

lemma act_hosts:
  assumes "p_phase s t = Some ph" "p_hosts (pool_act i t ph s) p = Some a"
  shows "p_hosts s p = Some a \<or> own_of ph = Some a \<and> map_option j_pool (job_of ph) = Some p
         \<or> (\<exists>h. adopt_of ph = Some (p, h) \<and> a = p_next s \<and> p_heap (pool_act i t ph s) a = Some h)"
  using assms
  by (cases ph) (auto simp: act_defs remove_pool_host_def split: act_splits if_splits dest!: act_frames)

lemma act_members:
  assumes "p_phase s t = Some ph" "p_members (pool_act i t ph s) d = Some a" "\<And>b. refers ph b \<Longrightarrow> p_heap s b \<noteq> None"
  shows "p_members s d = Some a \<or> own_of ph = Some a \<and> d \<in> set (pool_config_dirs (host_members (host_at s a)))
         \<or> (\<exists>p h. adopt_of ph = Some (p, h) \<and> d \<in> set (pool_config_dirs (host_members h)) \<and> a = p_next s \<and> p_heap (pool_act i t ph s) a = Some h)"
  using assms
  by (cases ph) (auto simp: act_defs remove_pool_host_def refers_def host_at_def pool_config_dirs_def
    split: act_splits if_splits dest!: act_frames route_members_frozen)

end
