(* ===== verification/Pool_Safety.thy ===== *)
theory Pool_Safety
  imports Pool_Steps
begin

text \<open>
  What holds in every reachable state of the lifecycle of pool hosts, whatever goroutines do in whatever
  order: who may work on a pool, where the routes lead, what a live host has proved, and who displaces it.
\<close>

section \<open>The invariant\<close>

text \<open>The invariant of the hosts and of the routes to them.\<close>

definition routes_ok :: "pool_mill \<Rightarrow> bool" where
  "routes_ok s \<longleftrightarrow>
     (\<forall>p a. p_hosts s p = Some a \<longrightarrow> host_pool (host_at s a) = p)
     \<and> (\<forall>d a. p_members s d = Some a \<longrightarrow> d \<in> set (pool_config_dirs (host_members (host_at s a))))"

definition cuts_apart :: "pool_mill \<Rightarrow> bool" where
  "cuts_apart s \<longleftrightarrow> (\<forall>t u ph ph' k. p_phase s t = Some ph \<and> p_phase s u = Some ph' \<and> cut_of ph = Some k \<longrightarrow> unrouted ph' \<noteq> Some (k_old k))"

definition pool_ok :: "pool_mill \<Rightarrow> bool" where
  "pool_ok s \<longleftrightarrow> cells_ok s \<and> claims_ok s \<and> routes_ok s \<and> cuts_apart s
     \<and> (\<forall>a h. p_heap s a = Some h \<and> host_live h \<longrightarrow> host_proved h)
     \<and> (\<forall>t ph. p_phase s t = Some ph \<longrightarrow> phase_ok s ph)"

lemma pool_okD:
  assumes "pool_ok s"
  shows "cells_ok s" "claims_ok s" "routes_ok s" "cuts_apart s"
    "\<And>a h. p_heap s a = Some h \<Longrightarrow> host_live h \<Longrightarrow> host_proved h" "\<And>t ph. p_phase s t = Some ph \<Longrightarrow> phase_ok s ph"
  using assms unfolding pool_ok_def by blast+

lemma own_claim: "own_of ph = Some a \<Longrightarrow> claim_of ph = map_option j_pool (job_of ph) \<and> job_of ph \<noteq> None"
  by (cases ph) auto

text \<open>Two goroutines never make the same cell: both would have the claim of its pool.\<close>

lemma own_unique:
  assumes "pool_ok s" "p_phase s t = Some ph" "p_phase s u = Some ph'" "own_of ph = Some a" "own_of ph' = Some a"
  shows "t = u"
proof -
  have "claim_of ph = Some (host_pool (host_at s a))" "claim_of ph' = Some (host_pool (host_at s a))"
    using own_claim [OF assms(4)] own_claim [OF assms(5)] pool_okD(6) [OF assms(1,2)] pool_okD(6) [OF assms(1,3)] assms(4,5)
    by (auto simp: phase_ok_def)
  then show ?thesis
    using claim.exclusive [OF pool_okD(2) [OF assms(1)]] assms(2,3) by (auto simp: claims_work_def)
qed

lemma frozen_eqD: "frozen h = frozen h' \<Longrightarrow> host_pool h = host_pool h'"
  "frozen h = frozen h' \<Longrightarrow> pool_config_dirs (host_members h) = pool_config_dirs (host_members h')"
  by (auto simp: frozen_def pool_config_dirs_def comp_def dest!: arg_cong [where f = "map fst"] simp del: map_eq_conv)

lemma act_live:
  assumes "p_phase s t = Some ph" "unrouted ph \<noteq> Some a" "a \<noteq> p_next s" "host_live (host_at (pool_act i t ph s) a)"
  shows "host_live (host_at s a)"
  using assms
  by (cases ph) (auto simp: act_defs host_at_def split: act_splits if_splits dest!: act_frames)

lemma act_cut_dead: "\<not> host_live (host_at (pool_act i t (CutDead k) s) (k_old k))"
  by (simp add: retire_def host_at_def)

lemma refersI: "own_of ph = Some a \<Longrightarrow> refers ph a" "cut_of ph = Some k \<Longrightarrow> refers ph (k_old k)"
  "stop_of ph = Some a \<Longrightarrow> refers ph a"
  by (simp_all add: refers_def)

text \<open>A goroutine at work in a state that keeps the invariant.\<close>

definition at_work :: "pool_mill \<Rightarrow> nat \<Rightarrow> pool_phase \<Rightarrow> bool" where
  "at_work s t ph \<longleftrightarrow> pool_ok s \<and> p_phase s t = Some ph"

lemma at_workD:
  assumes "at_work s t ph"
  shows "pool_ok s" "p_phase s t = Some ph" "phase_ok s ph"
  using assms pool_okD(6) by (auto simp: at_work_def)

lemma known: "pool_ok s \<Longrightarrow> p_phase s u = Some ph' \<Longrightarrow> refers ph' a \<Longrightarrow> p_heap s a \<noteq> None"
  using pool_okD(1) unfolding cells_ok_def by blast

lemma below: "pool_ok s \<Longrightarrow> p_heap s a \<noteq> None \<Longrightarrow> a < p_next s"
  using pool_okD(1) unfolding cells_ok_def by blast

lemma kept_cell:
  assumes "at_work s t ph" "p_heap s a \<noteq> None"
  shows "frozen (host_at (pool_act i t ph s) a) = frozen (host_at s a)"
proof -
  obtain h where h: "p_heap s a = Some h" using assms(2) by blast
  show ?thesis
    using act_frozen [OF at_workD(2) [OF assms(1)] h, where i = i] below [OF at_workD(1) [OF assms(1)]] h by (auto simp: host_at_def)
qed

lemma routes_ok_act:
  assumes w: "at_work s t ph"
  shows "routes_ok (pool_act i t ph s)"
proof -
  note ok = at_workD(1) [OF w] and t = at_workD(2) [OF w] and ph = at_workD(3) [OF w]
  have "host_pool (host_at (pool_act i t ph s) a) = p" if "p_hosts (pool_act i t ph s) p = Some a" for p a
    using act_hosts [OF t that]
  proof (elim disjE exE conjE)
    assume "p_hosts s p = Some a"
    then show ?thesis
      using pool_okD(1,3) [OF ok] frozen_eqD(1) [OF kept_cell [OF w]] unfolding cells_ok_def routes_ok_def by metis
  next
    assume a: "own_of ph = Some a" "map_option j_pool (job_of ph) = Some p"
    then show ?thesis
      using ph frozen_eqD(1) [OF kept_cell [OF w known [OF ok t refersI(1) [OF a(1)]]]] by (auto simp: phase_ok_def)
  next
    fix h assume "adopt_of ph = Some (p, h)" "p_heap (pool_act i t ph s) a = Some h"
    then show ?thesis
      using ph by (auto simp: phase_ok_def host_at_def)
  qed
  moreover have "d \<in> set (pool_config_dirs (host_members (host_at (pool_act i t ph s) a)))"
    if "p_members (pool_act i t ph s) d = Some a" for d a
  proof -
    note m = that
    consider "p_members s d = Some a" | "own_of ph = Some a" "d \<in> set (pool_config_dirs (host_members (host_at s a)))"
      | p h where "adopt_of ph = Some (p, h)" "d \<in> set (pool_config_dirs (host_members h))" "p_heap (pool_act i t ph s) a = Some h"
      using act_members [OF t m] known [OF ok t] by blast
    then show ?thesis
  proof cases
    case 1
    then show ?thesis
      using pool_okD(1,3) [OF ok] frozen_eqD(2) [OF kept_cell [OF w]] unfolding cells_ok_def routes_ok_def by metis
  next
    case 2
    then show ?thesis
      using frozen_eqD(2) [OF kept_cell [OF w known [OF ok t refersI(1)]]] by auto
  qed (simp_all add: host_at_def)
  qed
  ultimately show ?thesis unfolding routes_ok_def by blast
qed

lemma cut_origin:
  assumes w: "at_work s t ph" and u: "p_phase (pool_act i t ph s) u = Some ph'" and k: "cut_of ph' = Some k"
  shows "(\<exists>v ph0 l. p_phase s v = Some ph0 \<and> cut_of ph0 = Some l \<and> k_old l = k_old k)
         \<or> u = t \<and> own_of ph' = None \<and> host_live (host_at s (k_old k)) \<and> p_heap s (k_old k) \<noteq> None"
proof (cases "u = t")
  case True
  note t = at_workD(2) [OF w]
  consider l where "cut_of ph = Some l" "same_cut k l"
    | j where "ph = Decide j (Some (k_old k))" "host_live (host_at s (k_old k))" "ph' = Probing k"
    using act_cut [OF t _ k] u True by blast
  then show ?thesis
  proof cases
    case 1
    then show ?thesis using t unfolding same_cut_def by auto
  next
    case 2
    then show ?thesis using True known [OF at_workD(1) [OF w] t refersI(3)] by simp
  qed
next
  case False
  then show ?thesis using act_phases_other [OF at_workD(2) [OF w] False] u k by metis
qed

lemma unrouted_origin:
  assumes w: "at_work s t ph" and u: "p_phase (pool_act i t ph s) u = Some ph'" and a: "unrouted ph' = Some a"
  shows "(\<exists>ph0. p_phase s u = Some ph0 \<and> unrouted ph0 = Some a) \<or> a = p_next s"
proof (cases "u = t")
  case True
  then show ?thesis
    using act_unrouted [OF at_workD(2) [OF w] _ a, where i = i] act_own [OF at_workD(2) [OF w] _ unrouted_own [OF a], where i = i] u at_workD(2) [OF w]
    by auto
next
  case False
  then show ?thesis using act_phases_other [OF at_workD(2) [OF w] False] u a by metis
qed

lemma cuts_apart_act:
  assumes w: "at_work s t ph"
  shows "cuts_apart (pool_act i t ph s)"
  unfolding cuts_apart_def
proof (intro allI impI notI, elim conjE)
  fix v u ph1 ph2 k
  assume v: "p_phase (pool_act i t ph s) v = Some ph1" and u: "p_phase (pool_act i t ph s) u = Some ph2"
    and k: "cut_of ph1 = Some k" and a: "unrouted ph2 = Some (k_old k)"
  note ok = at_workD(1) [OF w] and t = at_workD(2) [OF w]
  have "k_old k < p_next s"
    using cut_origin [OF w v k] known [OF ok _ refersI(2)] below [OF ok] by metis
  then obtain ph0 where ph0: "p_phase s u = Some ph0" "unrouted ph0 = Some (k_old k)"
    using unrouted_origin [OF w u a] by auto
  from cut_origin [OF w v k] show False
  proof (elim disjE exE conjE)
    fix x ph3 l assume "p_phase s x = Some ph3" "cut_of ph3 = Some l" "k_old l = k_old k"
    then show False using pool_okD(4) [OF ok] ph0 unfolding cuts_apart_def by metis
  next
    assume "host_live (host_at s (k_old k))"
    then show False using pool_okD(6) [OF ok ph0(1)] ph0(2) by (auto simp: phase_ok_def)
  qed
qed

lemma phase_okI:
  assumes "\<And>j snap. snap_of ph = Some (j, snap) \<Longrightarrow> snap_pool snap = j_pool j"
    and "\<And>j a. job_of ph = Some j \<Longrightarrow> own_of ph = Some a \<Longrightarrow> host_pool (host_at s a) = j_pool j"
    and "\<And>k. cut_of ph = Some k \<Longrightarrow> snap_pool (k_snapshot k) = k_pool k"
    and "\<And>pool h. adopt_of ph = Some (pool, h) \<Longrightarrow> host_pool h = pool \<and> host_proved h"
    and "\<And>a. unrouted ph = Some a \<Longrightarrow> \<not> host_live (host_at s a)"
    and "\<And>a sts. route_of ph = Some (a, sts) \<Longrightarrow> statuses_prove (host_at s a) sts"
    and "\<And>k. cut_dead ph = Some k \<Longrightarrow> \<not> host_live (host_at s (k_old k))"
  shows "phase_ok s ph"
  using assms unfolding phase_ok_def by blast

lemma phase_okD:
  assumes "phase_ok s ph"
  shows "snap_of ph = Some (j, snap) \<Longrightarrow> snap_pool snap = j_pool j"
    and "job_of ph = Some j \<Longrightarrow> own_of ph = Some a \<Longrightarrow> host_pool (host_at s a) = j_pool j"
    and "cut_of ph = Some k \<Longrightarrow> snap_pool (k_snapshot k) = k_pool k"
    and "adopt_of ph = Some (pool, h) \<Longrightarrow> host_pool h = pool \<and> host_proved h"
    and "unrouted ph = Some a \<Longrightarrow> \<not> host_live (host_at s a)"
    and "route_of ph = Some (b, sts) \<Longrightarrow> statuses_prove (host_at s b) sts"
    and "cut_dead ph = Some k \<Longrightarrow> \<not> host_live (host_at s (k_old k))"
  using assms unfolding phase_ok_def by blast+

lemma route_own: "route_of ph = Some (a, sts) \<Longrightarrow> own_of ph = Some a"
  by (cases ph) auto

text \<open>What the phase of another goroutine relies on.\<close>

lemma phase_ok_other:
  assumes w: "at_work s t ph" and u: "p_phase s u = Some ph'" "u \<noteq> t"
  shows "phase_ok (pool_act i t ph s) ph'"
proof -
  note ok = at_workD(1) [OF w] and t = at_workD(2) [OF w]
  note old = pool_okD(6) [OF ok u(1)]
  let ?s = "pool_act i t ph s"
  have own: "host_at ?s a = host_at s a \<or> host_at ?s a = (host_at s a)\<lparr>host_live := False\<rparr>" if a: "own_of ph' = Some a" for a
  proof -
    have "own_of ph \<noteq> Some a" using own_unique [OF ok t u(1) _ a] u(2) by blast
    moreover have h: "p_heap s a \<noteq> None" using known [OF ok u(1) refersI(1) [OF a]] .
    moreover have "p_heap ?s a \<noteq> None"
      using act_frozen [OF t _ below [OF ok], of a] h by fastforce
    ultimately show ?thesis
      using act_cell [OF t, of a] below [OF ok h] by (auto simp: host_at_def)
  qed
  have dead: "\<not> host_live (host_at ?s (k_old k))" if k: "cut_dead ph' = Some k" for k
  proof -
    have c: "cut_of ph' = Some k" using cut_dead_cut [OF k] .
    have "unrouted ph \<noteq> Some (k_old k)" using pool_okD(4) [OF ok] u(1) t c unfolding cuts_apart_def by blast
    moreover have "k_old k \<noteq> p_next s" using below [OF ok known [OF ok u(1) refersI(2) [OF c]]] by simp
    ultimately show ?thesis using act_live [OF t, of "k_old k"] old k unfolding phase_ok_def by blast
  qed
  have pool: "host_pool (host_at ?s a) = host_pool (host_at s a)" and live: "\<not> host_live (host_at s a) \<Longrightarrow> \<not> host_live (host_at ?s a)"
    and proves: "statuses_prove (host_at s a) sts \<Longrightarrow> statuses_prove (host_at ?s a) sts" if "own_of ph' = Some a" for a sts
    using own [OF that] by (auto simp: statuses_prove_def fits_def)
  show ?thesis
  proof (rule phase_okI)
    show "host_pool (host_at ?s a) = j_pool j" if "job_of ph' = Some j" "own_of ph' = Some a" for j a
      using pool [OF that(2)] phase_okD(2) [OF old that] by simp
    show "\<not> host_live (host_at ?s a)" if "unrouted ph' = Some a" for a
      using live [OF unrouted_own [OF that]] phase_okD(5) [OF old that] .
    show "statuses_prove (host_at ?s a) sts" if "route_of ph' = Some (a, sts)" for a sts
      using proves [OF route_own [OF that]] phase_okD(6) [OF old that] .
  qed (use phase_okD [OF old] dead in blast)+
qed

text \<open>What the phase a step leads to relies on.\<close>

lemma phase_ok_next:
  assumes w: "at_work s t ph" and i: "faithful_worlds i" and n: "p_phase (pool_act i t ph s) t = Some ph'"
  shows "phase_ok (pool_act i t ph s) ph'"
proof -
  note ok = at_workD(1) [OF w] and t = at_workD(2) [OF w] and old = at_workD(3) [OF w]
  let ?s = "pool_act i t ph s"
  have fresh: "host_pool (host_at ?s a) = j_pool j \<and> \<not> host_live (host_at ?s a)" if "ph = Prepare j snap" "ph' = Register j snap a" for j snap a
    using prepare_registers [of i t j snap s ph' a] that n phase_okD(1) [OF old, of j snap] by (auto simp: host_at_def)
  show ?thesis
  proof (rule phase_okI)
    show "snap_pool snap = j_pool j" if "snap_of ph' = Some (j, snap)" for j snap
      using act_snap [OF t n that] phase_okD(1,3) [OF old] by auto
    show "host_pool (host_at ?s a) = j_pool j" if j: "job_of ph' = Some j" "own_of ph' = Some a" for j a
      using act_job [OF t n j(2)]
    proof (elim disjE exE conjE)
      assume o: "own_of ph = Some a" "job_of ph' = job_of ph"
      then show ?thesis
        using phase_okD(2) [OF old _ o(1)] j(1) frozen_eqD(1) [OF kept_cell [OF w known [OF ok t refersI(1) [OF o(1)]]]] by simp
    qed (use fresh j in auto)
    show "snap_pool (k_snapshot k) = k_pool k" if "cut_of ph' = Some k" for k
      using act_cut [OF t n that] phase_okD(3) [OF old] unfolding same_cut_def by auto
    show "host_pool h = pool \<and> host_proved h" if "adopt_of ph' = Some (pool, h)" for pool h
      using act_adopt [OF t i n that] phase_okD(4) [OF old] by blast
    show "\<not> host_live (host_at ?s a)" if "unrouted ph' = Some a" for a
      using act_unrouted [OF t n that] phase_okD(5) [OF old] fresh by auto
    show "statuses_prove (host_at ?s a) sts" if "route_of ph' = Some (a, sts)" for a sts
      using act_route [OF t n that] .
    show "\<not> host_live (host_at ?s (k_old k))" if "cut_dead ph' = Some k" for k
      using act_dead [OF t n that]
    proof
      assume k: "cut_dead ph = Some k"
      note c = cut_dead_cut [OF k]
      have "unrouted ph \<noteq> Some (k_old k)" using pool_okD(4) [OF ok] t c unfolding cuts_apart_def by blast
      moreover have "k_old k \<noteq> p_next s" using below [OF ok known [OF ok t refersI(2) [OF c]]] by simp
      ultimately show ?thesis using act_live [OF t, of "k_old k"] phase_okD(7) [OF old k] by blast
    qed (use act_cut_dead in simp)
  qed
qed

lemma pool_ok_act:
  assumes w: "at_work s t ph" and i: "faithful_worlds i"
  shows "pool_ok (pool_act i t ph s)"
proof -
  note ok = at_workD(1) [OF w] and t = at_workD(2) [OF w]
  have "claims_ok (pool_act i t ph s)"
    using claims_ok_step [OF pool_okD(2) [OF ok]] t i pool_step.act by blast
  moreover have "host_proved h" if "p_heap (pool_act i t ph s) a = Some h" "host_live h" for a h
    using act_proved [OF t at_workD(3) [OF w] that] pool_okD(5) [OF ok] known [OF ok t] by blast
  moreover have "phase_ok (pool_act i t ph s) ph'" if "p_phase (pool_act i t ph s) u = Some ph'" for u ph'
    using that phase_ok_next [OF w i] phase_ok_other [OF w] act_phases_other [OF t] by (cases "u = t") metis+
  ultimately show ?thesis
    using cells_ok_act [OF pool_okD(1) [OF ok] t] routes_ok_act [OF w] cuts_apart_act [OF w] unfolding pool_ok_def by blast
qed

lemma first_phase_refs:
  assumes "first_phase ph"
  shows "cut_of ph = None" "own_of ph = None" "stop_of ph = None" "snap_of ph = None" "adopt_of ph = None" "claim_of ph = None"
  using assms by (auto simp: first_phase_def job_cut_def split: pool_phase.splits purpose.splits)

lemma pool_ok_request:
  assumes "pool_ok s" "p_phase s t = None" "first_phase ph"
  shows "pool_ok (goto t ph s)"
  unfolding pool_ok_def
proof (intro conjI allI impI)
  note f = first_phase_refs [OF assms(3)]
  show "cells_ok (goto t ph s)" "claims_ok (goto t ph s)" "routes_ok (goto t ph s)" "cuts_apart (goto t ph s)"
    using pool_okD(1-4) [OF assms(1)] f
    by (auto simp: cells_ok_def claims_ok_def routes_ok_def cuts_apart_def refers_def host_at_def split: if_splits)
  show "host_proved h" if "p_heap (goto t ph s) a = Some h \<and> host_live h" for a h
    using that pool_okD(5) [OF assms(1)] unfolding goto_simps by blast
  show "phase_ok (goto t ph s) ph'" if "p_phase (goto t ph s) u = Some ph'" for u ph'
    using that pool_okD(6) [OF assms(1)] f cut_dead_cut [of ph] by (auto simp: phase_ok_def host_at_def split: if_splits)
qed

lemma pool_ok_cong:
  assumes "pool_ok s" "p_heap s' = p_heap s" "p_next s' = p_next s" "p_claims s' = p_claims s" "p_phase s' = p_phase s"
    and "\<And>p a. p_hosts s' p = Some a \<Longrightarrow> p_hosts s p = Some a" "\<And>d a. p_members s' d = Some a \<Longrightarrow> p_members s d = Some a"
  shows "pool_ok s'"
  unfolding pool_ok_def
proof (intro conjI allI impI)
  note ok = pool_okD [OF assms(1)]
  have at: "host_at s' = host_at s" by (simp add: host_at_def assms(2) fun_eq_iff)
  show "cells_ok s'"
    unfolding cells_ok_def assms(2,3,5)
  proof (intro conjI allI impI)
    show "p_heap s a \<noteq> None" if "p_hosts s' p = Some a" for p a using assms(6) [OF that] ok(1) unfolding cells_ok_def by blast
    show "p_heap s a \<noteq> None" if "p_members s' d = Some a" for d a using assms(7) [OF that] ok(1) unfolding cells_ok_def by blast
  qed (use ok(1) in \<open>auto simp: cells_ok_def\<close>)
  show "claims_ok s'" using ok(2) unfolding claims_ok_def assms(4,5) .
  show "routes_ok s'" using ok(3) assms(6,7) unfolding routes_ok_def at by blast
  show "cuts_apart s'" using ok(4) unfolding cuts_apart_def assms(5) .
  show "host_proved h" if "p_heap s' a = Some h \<and> host_live h" for a h using ok(5) that unfolding assms(2) by blast
  show "phase_ok s' ph" if "p_phase s' t = Some ph" for t ph using ok(6) that unfolding phase_ok_def at assms(5) by blast
qed

lemma pool_ok_step: "pool_step s s' \<Longrightarrow> pool_ok s \<Longrightarrow> pool_ok s'"
proof (induction rule: pool_step.induct)
  case (act s t ph i)
  then show ?case by (simp add: pool_ok_act at_work_def)
next
  case (publish s path content)
  then show ?case by (rule pool_ok_cong) simp_all
next
  case (shutdown s pools i)
  show ?case by (rule pool_ok_cong [OF shutdown(2) _ _ _ _ shut_pool_hosts_fewer]) simp_all
qed (rule pool_ok_request)

theorem reachable_pool_ok: "reachable_pools s \<Longrightarrow> pool_ok s"
proof (induction rule: reachable_pools.induct)
  case (start s)
  then show ?case
    by (auto simp: pool_initial_def pool_ok_def cells_ok_def claims_ok_def routes_ok_def cuts_apart_def)
qed (rule pool_ok_step)

section \<open>Admission locks\<close>

text \<open>The host whose pool a goroutine has locked, and the pool.\<close>

fun lock_host :: "pool_phase \<Rightarrow> nat option" where
  "lock_host (StopKill w a) = Some a"
| "lock_host (StopDead w a) = Some a"
| "lock_host (StopClean w a) = Some a"
| "lock_host (StopMarker w a) = Some a"
| "lock_host (StopRecord w a) = Some a"
| "lock_host (StopForget w a) = Some a"
| "lock_host (CutKill k) = Some (k_old k)"
| "lock_host (CutDead k) = Some (k_old k)"
| "lock_host ph = map_option k_old (cut_dead ph)"

fun lock_of :: "pool_mill \<Rightarrow> pool_phase \<Rightarrow> string option" where
  "lock_of s (Unlock pool ans) = Some pool"
| "lock_of s ph = map_option (\<lambda>a. host_pool (host_at s a)) (lock_host ph)"

definition locks_ok :: "pool_mill \<Rightarrow> bool" where
  "locks_ok s \<longleftrightarrow> pool_ok s \<and> (\<forall>t ph p. p_phase s t = Some ph \<and> lock_of s ph = Some p \<longrightarrow> p_locks s p = Some t)"

definition locks_work :: "pool_mill \<Rightarrow> nat \<Rightarrow> string \<Rightarrow> bool" where
  "locks_work s t p \<longleftrightarrow> (\<exists>ph. p_phase s t = Some ph \<and> lock_of s ph = Some p)"

interpretation admission: lock_table locks_ok locks_work p_locks
  by unfold_locales (auto simp: locks_ok_def locks_work_def)

lemma lock_host_refers: "lock_host ph = Some a \<Longrightarrow> refers ph a"
  by (cases ph) (auto simp: refers_def)

lemma lock_of_end [simp]:
  "lock_of s (conclude j ans) = map_option (\<lambda>k. host_pool (host_at s (k_old k))) (job_cut j)"
  "lock_of s (unlocking s' a ans) = Some (host_pool (host_at s' a))"
  "lock_of s (begin_cutover i j a h) = None" "lock_of s (start_instead i j) = None"
  "lock_of s (find_failed p e) = map_option (\<lambda>k. host_pool (host_at s (k_old k))) (cut_of (Find p []))"
  "lock_of s (nothing_found p pool) = map_option (\<lambda>k. host_pool (host_at s (k_old k))) (cut_of (Find p []))"
  "lock_of s (host_found i p a h) = map_option (\<lambda>k. host_pool (host_at s (k_old k))) (cut_of (Find p []))"
  by (auto simp: conclude_def unlocking_def begin_cutover_def start_instead_def find_failed_def nothing_found_def host_found_def
      job_cut_def Let_def option.map_comp comp_def split: act_splits after.splits purpose.splits)

lemma act_locks:
  assumes "p_phase s t = Some ph" "p_locks (pool_act i t ph s) p \<noteq> p_locks s p"
  shows "p_locks s p = None \<or> lock_of s ph = Some p"
  using assms
  by (cases ph) (auto simp: act_defs split: act_splits if_splits dest!: act_frames)

lemma act_locked:
  assumes "p_phase s t = Some ph" "\<And>p. lock_of s ph = Some p \<Longrightarrow> p_locks s p = Some t"
    and "p_phase (pool_act i t ph s) t = Some ph'" "lock_of s ph' = Some p"
  shows "p_locks (pool_act i t ph s) p = Some t"
  using assms
  by (cases ph) (auto simp: act_defs split: act_splits dest!: act_frames)

lemma lock_host_end [simp]:
  "lock_host (conclude j ans) = map_option k_old (job_cut j)" "lock_host (unlocking s a ans) = None"
  "lock_host (begin_cutover i j a h) = None" "lock_host (start_instead i j) = None"
  "lock_host (find_failed p e) = map_option k_old (cut_of (Find p []))"
  "lock_host (nothing_found p pool) = map_option k_old (cut_of (Find p []))"
  "lock_host (host_found i p a h) = map_option k_old (cut_of (Find p []))"
  by (auto simp: conclude_def unlocking_def begin_cutover_def start_instead_def find_failed_def nothing_found_def host_found_def
      job_cut_def Let_def split: act_splits after.splits purpose.splits)

lemma act_lock_host:
  assumes "p_phase s t = Some ph" "p_phase (pool_act i t ph s) t = Some ph'" "lock_host ph' = Some a"
  shows "refers ph a"
proof -
  have "lock_host ph = Some a \<or> stop_of ph = Some a \<or> map_option k_old (cut_of ph) = Some a"
    using assms
    by (cases ph) (auto simp: act_defs split: act_splits dest!: act_frames)
  then show ?thesis using lock_host_refers by (auto simp: refers_def)
qed

lemma lock_of_cong:
  "(\<And>a. lock_host ph = Some a \<Longrightarrow> host_pool (host_at s' a) = host_pool (host_at s a)) \<Longrightarrow> lock_of s' ph = lock_of s ph"
  by (cases ph) (auto simp: map_option_case split: option.splits)

lemma lock_of_kept:
  assumes w: "at_work s t ph" and "\<And>a. lock_host ph' = Some a \<Longrightarrow> p_heap s a \<noteq> None"
  shows "lock_of (pool_act i t ph s) ph' = lock_of s ph'"
  using assms(2) frozen_eqD(1) [OF kept_cell [OF w]] by (intro lock_of_cong) blast

lemma locks_ok_act:
  assumes "locks_ok s" "p_phase s t = Some ph" "faithful_worlds i"
  shows "locks_ok (pool_act i t ph s)"
  unfolding locks_ok_def
proof (intro conjI allI impI, goal_cases)
  case 1
  then show ?case using assms by (auto simp: locks_ok_def at_work_def intro: pool_ok_act)
next
  case (2 u ph' p)
  have w: "at_work s t ph" using assms by (simp add: locks_ok_def at_work_def)
  note held = assms(1) [unfolded locks_ok_def, THEN conjunct2, rule_format, OF conjI]
  show ?case
  proof (cases "u = t")
    case True
    have "lock_of s ph' = Some p"
      using lock_of_kept [OF w] known [OF at_workD(1) [OF w] assms(2)] act_lock_host [OF assms(2)] 2 True by metis
    then show ?thesis
      using act_locked [OF assms(2) held [OF assms(2)]] 2 True by blast
  next
    case False
    then have u: "p_phase s u = Some ph'" using 2 act_phases_other [OF assms(2) False] by metis
    then have "p_locks s p = Some u"
      using held lock_of_kept [OF w] known [OF at_workD(1) [OF w] u lock_host_refers] 2 by metis
    then show ?thesis
      using act_locks [OF assms(2), of i p] held [OF assms(2)] False by (cases "p_locks (pool_act i t ph s) p = p_locks s p") auto
  qed
qed

lemma locks_ok_step: "pool_step s s' \<Longrightarrow> locks_ok s \<Longrightarrow> locks_ok s'"
proof (induction rule: pool_step.induct)
  case (request s t ph)
  have "lock_of s ph = None" "lock_of (goto t ph s) ph' = lock_of s ph'" for ph'
    using request(2) by (auto simp: first_phase_def job_cut_def host_at_def split: pool_phase.splits purpose.splits intro: lock_of_cong)
  then show ?case
    using request pool_ok_request by (auto simp: locks_ok_def split: if_splits)
next
  case (publish s path content)
  then have "lock_of (s\<lparr>p_ready := (p_ready s)(path := content)\<rparr>) ph = lock_of s ph" for ph
    by (intro lock_of_cong) (simp add: host_at_def)
  then show ?case using publish pool_ok_step [OF pool_step.publish] by (simp add: locks_ok_def)
next
  case (shutdown s pools i)
  have "lock_of (shut_pool_hosts i pools s) ph = lock_of s ph" for ph
    by (intro lock_of_cong) (simp add: host_at_def)
  then show ?case using shutdown pool_ok_step [OF pool_step.shutdown] by (simp add: locks_ok_def)
qed (rule locks_ok_act)

theorem reachable_locks_ok: "reachable_pools s \<Longrightarrow> locks_ok s"
proof (induction rule: reachable_pools.induct)
  case (start s)
  then show ?case using reachable_pool_ok [OF reachable_pools.start] by (auto simp: locks_ok_def pool_initial_def)
qed (rule locks_ok_step)

section \<open>What a live host is safe from\<close>

lemma act_displaces:
  assumes "p_phase s t = Some ph" "p_hosts s p = Some a" "p_hosts (pool_act i t ph s) p \<noteq> Some a"
  shows "(\<exists>w. ph = StopForget w a) \<or> unrouted ph = Some a \<or> (\<exists>k. cut_dead ph = Some k \<and> k_old k = a) \<or> \<not> host_live (host_at s a)"
  using assms
  by (cases ph) (auto simp: act_defs remove_pool_host_def split: act_splits if_splits dest!: act_frames)

lemma live_host_displaced:
  assumes r: "reachable_pools s" and st: "pool_step s s'" and a: "p_hosts s p = Some a" "host_live (host_at s a)"
  shows "p_hosts s' p = Some a
    \<or> (\<exists>t w i. p_phase s t = Some (StopForget w a) \<and> p_locks s p = Some t \<and> s' = pool_act i t (StopForget w a) s)
    \<or> (\<exists>i pools. s' = shut_pool_hosts i pools s)"
  using st
proof cases
  case (act t ph i)
  have ok: "pool_ok s" and "locks_ok s" using reachable_pool_ok [OF r] reachable_locks_ok [OF r] .
  show ?thesis
  proof (cases "p_hosts s' p = Some a")
    case False
    then obtain w where w: "ph = StopForget w a"
      using act_displaces [OF act(2) a(1)] act(1) a(2) phase_okD(5,7) [OF pool_okD(6) [OF ok act(2)]] by blast
    have "host_pool (host_at s a) = p" using pool_okD(3) [OF ok] a(1) unfolding routes_ok_def by blast
    then have "p_locks s p = Some t"
      using reachable_locks_ok [OF r] act(2) w unfolding locks_ok_def by fastforce
    then show ?thesis using act(1,2) w by blast
  qed simp
qed (use a in auto)

text \<open>
  While the replacement of a host is started, from the moment its process was stopped, the old host is not
  live again, and the goroutine has the admission lock of the pool.
\<close>

theorem replaced_host_dead:
  assumes "reachable_pools s" "p_phase s t = Some ph" "cut_dead ph = Some k"
  shows "\<not> host_live (host_at s (k_old k)) \<and> p_locks s (host_pool (host_at s (k_old k))) = Some t"
proof
  note ok = reachable_pool_ok [OF assms(1)]
  show "\<not> host_live (host_at s (k_old k))"
    using phase_okD(7) [OF pool_okD(6) [OF ok assms(2)] assms(3)] .
  have "lock_of s ph = Some (host_pool (host_at s (k_old k)))"
    using assms(3) by (cases ph) auto
  then show "p_locks s (host_pool (host_at s (k_old k))) = Some t"
    using reachable_locks_ok [OF assms(1)] assms(2) unfolding locks_ok_def by blast
qed

end
