(* ===== verification/Pool_Runs.thy ===== *)
theory Pool_Runs
  imports Pool_Safety
begin

text \<open>
  Runs of the lifecycle of pool hosts: every goroutine ends or waits for another one, what a goroutine does on
  its own, and the properties of the reachable states with a run that reaches a live host.
\<close>

section \<open>Progress\<close>

fun purpose_rank :: "purpose \<Rightarrow> nat" where
  "purpose_rank (ForStart j snap) = 0"
| "purpose_rank (ForStop w) = 0"
| "purpose_rank (ForRestart j) = 20"
| "purpose_rank ForView = 0"

text \<open>How many steps a goroutine has before it at most, but for rounds of waiting.\<close>

fun steps_left :: "pool_phase \<Rightarrow> nat" where
  "steps_left (Snapshot j) = 18"
| "steps_left (Enter j snap) = 17"
| "steps_left (Wait j owner) = 19"
| "steps_left (Look j snap) = 16"
| "steps_left (Find p pool) = 15 + purpose_rank p"
| "steps_left (Adopt p pool h) = 14 + purpose_rank p"
| "steps_left (Prepare j snap) = 13"
| "steps_left (Register j snap a) = 12"
| "steps_left (Spawn j snap a) = 11"
| "steps_left (Number j snap a) = 10"
| "steps_left (Await j snap a) = 9"
| "steps_left (Route j snap a sts) = 8"
| "steps_left (Abort j a e) = 6"
| "steps_left (Forget j a e) = 5"
| "steps_left (Mark j snap a) = 6"
| "steps_left (Record j snap a) = 5"
| "steps_left (Unclaim j ans) = 4"
| "steps_left (StopChoose w) = 16"
| "steps_left (StopLookup w pool) = 10"
| "steps_left (StopLock w a) = 9"
| "steps_left (StopKill w a) = 8"
| "steps_left (StopDead w a) = 7"
| "steps_left (StopClean w a) = 6"
| "steps_left (StopMarker w a) = 5"
| "steps_left (StopRecord w a) = 4"
| "steps_left (StopForget w a) = 3"
| "steps_left (RestartChoose j) = 36"
| "steps_left (Decide j found) = 32"
| "steps_left (Probing k) = 31"
| "steps_left (Probe k) = 30"
| "steps_left (ProbeFailed k ans e) = 1"
| "steps_left (Keep k) = 29"
| "steps_left (ProbeClean k) = 28"
| "steps_left (Cut k) = 27"
| "steps_left (CutLock k) = 26"
| "steps_left (CutKill k) = 25"
| "steps_left (CutDead k) = 24"
| "steps_left (CutStopped k) = 23"
| "steps_left (CutClean k) = 22"
| "steps_left (CutMarker k) = 21"
| "steps_left (CutForget k) = 20"
| "steps_left (CutFailed k stage f message log) = 2"
| "steps_left (Replaced k ans) = 3"
| "steps_left (Unlock pool ans) = 1"
| "steps_left (Answered ans) = 0"

text \<open>What a goroutine may wait for: the claim or the lock of another, or the host it started.\<close>

fun waits_for :: "pool_mill \<Rightarrow> pool_phase \<Rightarrow> bool" where
  "waits_for s (Enter j snap) \<longleftrightarrow> p_claims s (j_pool j) \<noteq> None"
| "waits_for s (Wait j owner) \<longleftrightarrow> p_claims s (j_pool j) = Some owner"
| "waits_for s (StopLock w a) \<longleftrightarrow> p_locks s (host_pool (host_at s a)) \<noteq> None"
| "waits_for s (CutLock k) \<longleftrightarrow> p_locks s (host_pool (host_at s (k_old k))) \<noteq> None"
| "waits_for s ph \<longleftrightarrow> False"

fun polls_host :: "step_input \<Rightarrow> pool_mill \<Rightarrow> pool_phase \<Rightarrow> bool" where
  "polls_host i s (Await j snap a) \<longleftrightarrow> \<not> si_late i \<and> \<not> si_exited i \<and> si_alive i (host_pid (host_at s a))"
| "polls_host i s ph \<longleftrightarrow> False"

lemma conclude_left: "steps_left (conclude j ans) \<le> 3"
  by (auto simp: conclude_def split: after.splits)

lemma steps_left_end [simp]:
  "steps_left (conclude j ans) < 4" "steps_left (unlocking s a ans) = 1"
  "steps_left (begin_cutover i j a h) < 32" "steps_left (start_instead i j) < 32"
  "steps_left (find_failed p e) < 15 + purpose_rank p" "steps_left (nothing_found p pool) < 15 + purpose_rank p"
  "steps_left (host_found i p a h) < 14 + purpose_rank p"
  using conclude_left [of j ans]
  by (auto simp: unlocking_def begin_cutover_def start_instead_def find_failed_def nothing_found_def host_found_def Let_def
    split: act_splits purpose.splits)

lemma steps_left_conclude [simp]: "m \<ge> 4 \<Longrightarrow> steps_left (conclude j ans) < m"
  using steps_left_end(1) [of j ans] by linarith

lemma act_progress:
  assumes "p_phase s t = Some ph" "p_phase (pool_act i t ph s) t = Some ph'"
    and "\<not> waits_for s ph" "\<not> polls_host i s ph" "steps_left ph \<noteq> 0"
  shows "steps_left ph' < steps_left ph"
  using assms
  by (cases ph) (auto simp: act_defs split: act_splits dest!: act_frames)

text \<open>A goroutine that runs while the others stand still, and one that finds nothing to wait for.\<close>

fun run_alone :: "nat \<Rightarrow> step_input list \<Rightarrow> pool_mill \<Rightarrow> pool_mill" where
  "run_alone t [] s = s"
| "run_alone t (i # is) s = (case p_phase s t of None \<Rightarrow> s | Some ph \<Rightarrow> run_alone t is (pool_act i t ph s))"

fun unhindered :: "nat \<Rightarrow> step_input list \<Rightarrow> pool_mill \<Rightarrow> bool" where
  "unhindered t [] s \<longleftrightarrow> True"
| "unhindered t (i # is) s \<longleftrightarrow>
     (case p_phase s t of
        None \<Rightarrow> True
      | Some ph \<Rightarrow> \<not> waits_for s ph \<and> \<not> polls_host i s ph \<and> unhindered t is (pool_act i t ph s))"

lemma steps_left_0: "steps_left ph = 0 \<longleftrightarrow> (\<exists>ans. ph = Answered ans)"
  by (cases ph) auto

lemma run_alone_answered [simp]: "p_phase s t = Some (Answered ans) \<Longrightarrow> run_alone t is s = s"
  by (induction "is") simp_all

lemma run_alone_ends:
  assumes "p_phase s t = Some ph" "unhindered t is s" "steps_left ph \<le> length is"
  shows "\<exists>ans. p_phase (run_alone t is s) t = Some (Answered ans)"
  using assms
proof (induction t "is" s arbitrary: ph rule: run_alone.induct)
  case (1 t s)
  then show ?case by (simp add: steps_left_0)
next
  case (2 t i "is" s)
  show ?case
  proof (cases "steps_left ph = 0")
    case True
    then show ?thesis using 2(2) by (auto simp: steps_left_0)
  next
    case False
    obtain ph' where ph': "p_phase (pool_act i t ph s) t = Some ph'"
      using act_phases(2) [OF 2(2), of i] by blast
    have "steps_left ph' < steps_left ph"
      using act_progress [OF 2(2) ph'] 2(2,3) False by simp
    then show ?thesis
      using "2.IH" [OF 2(2) ph'] 2(2,3,4) by simp
  qed
qed

section \<open>A host whose process died\<close>

text \<open>The phases of a start whose pool has a host that still counts as live.\<close>

definition blocked :: "job \<Rightarrow> pool_snapshot \<Rightarrow> nat \<Rightarrow> pool_mill \<Rightarrow> pool_phase \<Rightarrow> bool" where
  "blocked j snap a s ph \<longleftrightarrow>
     ph = Enter j snap \<and> p_claims s (j_pool j) = None \<or> ph = Look j snap \<or> ph = Find (ForStart j snap) (j_pool j) \<or> ph = Prepare j snap
     \<or> (\<exists>b. b \<noteq> a \<and> ph = Register j snap b) \<or> (\<exists>b e. b \<noteq> a \<and> ph = Forget j b e)
     \<or> (\<exists>e. ph = Unclaim j (None, Some e)) \<or> (\<exists>e. ph = Answered (None, Some e))"

text \<open>The ready marker of the pool, if there is one, names a process that is gone.\<close>

definition dead_marker :: "step_input \<Rightarrow> string \<Rightarrow> pool_mill \<Rightarrow> bool" where
  "dead_marker i pool s \<longleftrightarrow>
     \<not> (\<exists>root dir m. si_root i = Some root \<and> pool_host_dir (si_sha i) root pool = Ok dir
          \<and> p_ready s (join_path [dir, ''ready.json'']) = Some (Some m) \<and> si_alive i (re_pid m))"

lemma dead_marker_discover: "dead_marker i pool s \<Longrightarrow> discover_pool_host i s pool \<noteq> Inr (Some h)"
  by (auto simp: discover_pool_host_def dead_marker_def read_ready_def read_pool_ready_def read_checked_def split: act_splits file_error.splits)

definition stuck_host :: "job \<Rightarrow> nat \<Rightarrow> pool_host \<Rightarrow> pool_mill \<Rightarrow> bool" where
  "stuck_host j a h s \<longleftrightarrow> p_hosts s (j_pool j) = Some a \<and> p_heap s a = Some h \<and> host_live h \<and> a < p_next s"

lemma blocked_step:
  assumes "p_phase s t = Some ph" "blocked j snap a s ph" "stuck_host j a h s" "j_after j = ToCaller"
    and i: "\<not> si_alive i (host_pid h)" "dead_marker i (j_pool j) s"
  shows "stuck_host j a h (pool_act i t ph s) \<and> p_ready (pool_act i t ph s) = p_ready s
         \<and> (\<exists>ph'. p_phase (pool_act i t ph s) t = Some ph' \<and> blocked j snap a (pool_act i t ph s) ph')"
  using assms(1-4) i dead_marker_discover [OF i(2)]
  unfolding blocked_def
  by (elim disjE exE conjE; simp add: stuck_host_def enter_step_def look_step_def find_step_def prepare_step_def register_step_def
    forget_step_def unclaim_step_def remove_pool_host_def host_at_def conclude_def find_failed_def nothing_found_def Let_def split: act_splits; auto)

lemma blocked_run:
  assumes "p_phase s t = Some ph" "blocked j snap a s ph" "stuck_host j a h s" "j_after j = ToCaller"
    and "\<And>i. i \<in> set is \<Longrightarrow> \<not> si_alive i (host_pid h) \<and> dead_marker i (j_pool j) s" "steps_left ph \<le> length is"
  shows "stuck_host j a h (run_alone t is s) \<and> (\<exists>e. p_phase (run_alone t is s) t = Some (Answered (None, Some e)))"
  using assms
proof (induction t "is" s arbitrary: ph rule: run_alone.induct)
  case (1 t s)
  then show ?case by (auto simp: steps_left_0 blocked_def)
next
  case (2 t i "is" s)
  show ?case
  proof (cases "steps_left ph = 0")
    case True
    then show ?thesis using 2(2-4) by (auto simp: steps_left_0 blocked_def)
  next
    case False
    let ?s = "pool_act i t ph s"
    have i: "\<not> si_alive i (host_pid h)" "dead_marker i (j_pool j) s" using 2(6) by simp_all
    obtain ph' where ph': "p_phase ?s t = Some ph'" "blocked j snap a ?s ph'" and kept: "stuck_host j a h ?s" "p_ready ?s = p_ready s"
      using blocked_step [OF 2(2-5) i] by blast
    have "\<not> waits_for s ph" "\<not> polls_host i s ph" using 2(3) by (auto simp: blocked_def)
    then have "steps_left ph' < steps_left ph"
      using act_progress [OF 2(2) ph'(1)] False by simp
    moreover have "dead_marker k (j_pool j) ?s \<longleftrightarrow> dead_marker k (j_pool j) s" for k
      using kept(2) by (simp add: dead_marker_def)
    ultimately show ?thesis
      using "2.IH" [OF 2(2) ph' kept(1) 2(5)] 2(2,6,7) by simp
  qed
qed

text \<open>C18:
  A start of a pool whose host process died by itself is refused when it runs with no other goroutine of the pool in
  between, finds the start claim free, and finds in the ready marker of this pool, if there is one, a process that is
  gone: the dead host stays in the table as a live one, since only a stop or a restart takes its life, the look at the
  table and the discovery both see that the process is gone, and the registration of the new host then finds the dead
  one and fails with the error that a host is already running.  So it goes however often the start is tried.
\<close>

theorem crashed_host_blocks_start:
  assumes "p_phase s t = Some (Enter j snap)" "j_after j = ToCaller" "p_claims s (j_pool j) = None"
    and "stuck_host j a h s"
    and "\<forall>i \<in> set is. \<not> si_alive i (host_pid h) \<and> dead_marker i (j_pool j) s" "17 \<le> length is"
  shows "stuck_host j a h (run_alone t is s) \<and> (\<exists>e. p_phase (run_alone t is s) t = Some (Answered (None, Some e)))"
  using assms by (intro blocked_run [of s t "Enter j snap" j snap]) (auto simp: blocked_def)

section \<open>A stop that waited\<close>

lemma run_alone_step: "p_phase s t = Some ph \<Longrightarrow> run_alone t (i # is) s = run_alone t is (pool_act i t ph s)"
  by simp

text \<open>
  The host of a stop is chosen before the admission lock is taken and not looked at again.  When the pool has
  got another host meanwhile, the stop removes the ready marker and the restart record of that one, which have
  the same paths, and answers that the pool is stopped while the other host is live and serves it.
\<close>

theorem late_stop_strips_replacement:
  assumes t: "p_phase s t = Some (StopLock w a)" and a: "p_heap s a = Some h" "host_pool h = p" "p_locks s p = None"
    and b: "p_hosts s p = Some b" "p_heap s b = Some h'" "host_live h'" "a \<noteq> b" "\<And>d. p_members s d \<noteq> Some a"
    and paths: "ph_ready_path h = ph_ready_path h'" "ph_restart_path h = ph_restart_path h'" "\<not> blank (ph_ready_path h)"
    and i: "\<not> si_alive i (host_pid h)" "\<not> si_fails i" "clean_members i h = None"
  shows "let s' = run_alone t (replicate 8 i) s in
     (\<exists>st. p_phase s' t = Some (Answered (Some st, None)))
     \<and> p_hosts s' p = Some b \<and> p_heap s' b = Some h' \<and> p_ready s' (ph_ready_path h') = None \<and> p_records s' (ph_restart_path h') = None"
proof -
  have c: "clean_members i (h\<lparr>host_live := False\<rparr>) = None" using i(3) by (simp add: clean_members_def)
  have e: "replicate 8 i = [i, i, i, i, i, i, i, i]" by (simp add: eval_nat_numeral)
  show ?thesis
    unfolding e Let_def
    by (simp add: t a b paths(3) i c lock_step_def host_at_def stop_pool_process_def retire_def stop_clean_step_def stop_marker_step_def
      remove_ready_marker_def stop_record_step_def stop_forget_step_def unlocking_def unlock_step_def remove_pool_host_def Let_def
      b(4) [symmetric] paths(1,2) [symmetric])
qed

section \<open>A run to a live host\<close>

text \<open>The files of a host that serves the workspace \<open>/w\<close> in the pool \<open>p\<close>, found by a Mill that just began.\<close>

definition ex_pool_dir :: string where "ex_pool_dir = join_path [''/r'', ''jvm-pools'', ''hosts'', artifact_key (\<lambda>_. []) ''p'']"
definition ex_pool_ready_path :: string where "ex_pool_ready_path = join_path [ex_pool_dir, ''ready.json'']"
definition ex_pool_launch_path :: string where "ex_pool_launch_path = join_path [ex_pool_dir, ''launch-h.json'']"
definition ex_pool_restart_path :: string where "ex_pool_restart_path = join_path [ex_pool_dir, pool_restart_file]"
definition ex_pool_basis :: string where "ex_pool_basis = ''sha256:'' @ replicate 64 CHR ''a''"

definition ex_pool_marker :: ready_marker where
  "ex_pool_marker = \<lparr>re_format = ready_format, re_pool = ''p'', re_host = ''h'', re_host_generation = ''g'', re_revision = ''r'', re_pid = 7,
     re_basis = ex_pool_basis, re_members = [\<lparr>re_config_dir = ''/w'', re_weaver = ''v'', re_generation = ''g'', re_socket = ''/x'',
       re_nrepl_host = ''l'', re_nrepl_port = 1\<rparr>]\<rparr>"

definition ex_pool_launch :: launch_manifest where
  "ex_pool_launch = \<lparr>la_format = launch_format, la_pool = ''p'', la_host = ''h'', la_generation = ''g'', la_revision = ''r'',
     la_restart_path = ex_pool_restart_path, la_source = ''/m'', la_version = ''1'',
     la_members = [\<lparr>lm_config_dir = ''/w'', lm_source_cwd = ''/w'', lm_state_dir = ''/t'', lm_data_dir = ''/d'', lm_name = ''n'',
       lm_weaver = ''v'', lm_generation = ''g'', lm_dependency = ''/q''\<rparr>]\<rparr>"

definition ex_pool_status :: status where
  "ex_pool_status = [(''pid'', SInt 7), (''weaver_id'', SV (JStr ''v'')), (''generation_id'', SV (JStr ''g'')), (''started_at'', SV (JStr ''s'')),
     (''socket_path'', SV (JStr ''/x'')), (''config_dir'', SV (JStr ''/w'')), (''state_dir'', SV (JStr ''/t'')), (''data_dir'', SV (JStr ''/d'')),
     (''jvm_pool'', SV (JStr ''p'')), (''host_id'', SV (JStr ''h'')), (''host_generation_id'', SV (JStr ''g'')),
     (''basis_fingerprint'', SV (JStr ex_pool_basis)), (''member_basis_fingerprint'', SV (JStr ''b'')),
     (''pool_restart_path'', SV (JStr ex_pool_restart_path))]"

definition ex_pool_identity :: weaver_identity where
  "ex_pool_identity = \<lparr>id_pid = 7, id_weaver = ''v'', id_generation = ''g'', id_started_at = ''s'', id_socket = ''/x'', id_config_dir = ''/w'',
     id_state_dir = ''/t'', id_data_dir = ''/d''\<rparr>"

definition ex_pool_world :: world where
  "ex_pool_world = \<lparr>w_config_dir = ''/w'', w_state_dir = ''/t'', w_data_dir = ''/d'', w_config_file = [], w_db_path = []\<rparr>"

definition ex_pool_input :: "bool \<Rightarrow> step_input" where
  "ex_pool_input alive = \<lparr>si_fails = False, si_text = [], si_registry = Absent, si_resolve = (\<lambda>_. Inl []), si_recorded = Ok None,
     si_effective = Ok None, si_configured = Ok [], si_sha = (\<lambda>_. []), si_root = Some ''/r'', si_source = None, si_version = [],
     si_ids = \<lparr>hi_host = [], hi_generation = [], hi_token = []\<rparr>, si_env = demo_member_env, si_transition = [], si_now = [], si_pid = 0,
     si_alive = (\<lambda>_. alive), si_world = (\<lambda>d. if d = ''/w'' then Some ex_pool_world else None), si_view = (\<lambda>_. (Some ex_pool_status, False)),
     si_endpoint = (\<lambda>_. True), si_glob = Some [ex_pool_launch_path], si_exited = False, si_late = False, si_shutdown = False,
     si_nolog = False, si_killed = False, si_artifact = (\<lambda>_. ArtifactGone), si_removable = (\<lambda>_. True),
     si_probe_ids = \<lparr>pi_probe = [], pi_host = [], pi_generation = []\<rparr>,
     si_probe_env = (\<lambda>_. \<lparr>pv_identity = None, pv_name = None, pv_source = None, pv_weaver = [], pv_generation = []\<rparr>),
     si_baseline = (\<lambda>_. None), si_probe = (zero_result, None)\<rparr>"

definition ex_pool_member :: pool_member where
  "ex_pool_member = \<lparr>pm_world = ex_pool_world, pm_source_cwd = ''/w'', pm_name = ''n'', pm_weaver = ''v'', pm_generation = ''g'', pm_basis = ''b'',
     pm_identity = ex_pool_identity\<rparr>"

definition ex_pool_live :: pool_host where
  "ex_pool_live = discovered_host ex_pool_dir ''p'' ex_pool_marker ex_pool_launch [ex_pool_launch_path] [ex_pool_member]"

definition ex_pool_start :: pool_mill where
  "ex_pool_start = \<lparr>p_heap = (\<lambda>_. None), p_next = 0, p_hosts = (\<lambda>_. None), p_members = (\<lambda>_. None), p_claims = (\<lambda>_. None), p_locks = (\<lambda>_. None),
     p_ready = [ex_pool_ready_path \<mapsto> Some ex_pool_marker], p_manifests = [ex_pool_launch_path \<mapsto> Some ex_pool_launch], p_records = (\<lambda>_. None),
     p_signals = [], p_phase = (\<lambda>_. None)\<rparr>"

lemma ex_pool_canonical: "canonical ex_pool_restart_path" "canonical ''/w''" "canonical ''/m''" "canonical ''/t''" "canonical ''/d''" "canonical ''/q''"
  "canonical ''/r''"
proof -
  show c: "canonical ''/w''" "canonical ''/m''" "canonical ''/t''" "canonical ''/d''" "canonical ''/q''" "canonical ''/r''"
    by code_simp+
  show "canonical ex_pool_restart_path"
    unfolding ex_pool_restart_path_def ex_pool_dir_def by (intro canonical_join c)
qed

lemma ex_pool_paths: "pool_host_dir (\<lambda>_. []) ''/r'' ''p'' = Inr ex_pool_dir"
  using ex_pool_canonical(7)
  by (simp add: pool_host_dir_def validate_canonical_path_def validate_pool_name_def canonical_def trim_space_empty_iff ex_pool_dir_def is_space_def)

lemma ex_pool_basis_valid: "valid_basis_fingerprint ex_pool_basis"
  by code_simp

lemma ex_pool_restart_named: "\<not> blank ex_pool_restart_path"
  using ex_pool_canonical(1) by (rule canonical_not_blank)

lemma ex_pool_launch_valid: "validate_launch_manifest ex_pool_launch = None"
  using ex_pool_canonical ex_pool_restart_named
  by (simp add: validate_launch_manifest_def ex_pool_launch_def validate_launch_member_def launch_paths_def canonical_def guards.simps is_space_def)

lemma ex_pool_marker_valid: "validate_ready ex_pool_marker = None"
  using ex_pool_basis_valid
  by (simp add: validate_ready_def ex_pool_marker_def validate_ready_member_def is_space_def)

lemma ex_pool_identified: "identity_from_status ex_pool_status = Inr ex_pool_identity"
  by (simp add: identity_from_status_def ex_pool_status_def string_status_def ex_pool_identity_def Let_def)

lemma ex_pool_text:
  "text_is ex_pool_status ''jvm_pool'' ''p''" "text_is ex_pool_status ''host_id'' ''h''" "text_is ex_pool_status ''host_generation_id'' ''g''"
  "text_is ex_pool_status ''basis_fingerprint'' ex_pool_basis" "\<not> text_is ex_pool_status ''member_basis_fingerprint'' []"
  "text_is ex_pool_status ''pool_restart_path'' ex_pool_restart_path" "text_entry (map_of ex_pool_status ''member_basis_fingerprint'') = Some ''b''"
  by (simp_all add: text_is_def ex_pool_status_def)

lemma ex_pool_live_fields:
  "host_pool ex_pool_live = ''p''" "host_id ex_pool_live = ''h''" "host_generation ex_pool_live = ''g''" "host_membership_rev ex_pool_live = ''r''"
  "host_pid ex_pool_live = 7" "host_members ex_pool_live = [ex_pool_member]" "host_live ex_pool_live" "ph_restart_path ex_pool_live = ex_pool_restart_path"
  "ph_ready_path ex_pool_live = ex_pool_ready_path" "host_cmd ex_pool_live = Some 7"
  by (simp_all add: ex_pool_live_def discovered_host_def ex_pool_marker_def ex_pool_launch_def ex_pool_ready_path_def)

lemma ex_pool_member_fields: "member_dir ex_pool_member = ''/w''" "pm_weaver ex_pool_member = ''v''" "pm_generation ex_pool_member = ''g''"
  "pm_world ex_pool_member = ex_pool_world" "pm_identity ex_pool_member = ex_pool_identity"
  by (simp_all add: ex_pool_member_def member_dir_def ex_pool_world_def)

lemma ex_pool_admitted:
  "validate_pool_admission (\<lambda>_. True) (\<lambda>_. True) ex_pool_live ex_pool_marker [''/w'' \<mapsto> ex_pool_status] = None"
proof -
  have "member_proved (\<lambda>_. True) (\<lambda>_. True) ex_pool_live ex_pool_basis [''/w'' \<mapsto> ex_pool_status] ex_pool_member (hd (re_members ex_pool_marker))"
    by (simp add: member_proved_def ex_pool_live_fields ex_pool_member_fields ex_pool_text ex_pool_identified)
      (simp add: ex_pool_marker_def ex_pool_identity_def)
  then show ?thesis
    by (simp add: validate_pool_admission_def ex_pool_live_fields) (simp add: ex_pool_marker_def admit_member_None)
qed

lemma ex_pool_discovered: "discover_pool_host (ex_pool_input True) ex_pool_start ''p'' = Inr (Some ex_pool_live)"
proof -
  have ready: "read_ready (ex_pool_input True) ex_pool_start ex_pool_ready_path = Inr ex_pool_marker"
    by (simp add: read_ready_def ex_pool_start_def read_pool_ready_def read_checked_def ex_pool_marker_valid ex_pool_input_def)
  have manifest: "matching_manifest ex_pool_start ''h'' [ex_pool_launch_path] = Some ex_pool_launch"
    by (simp add: matching_manifest_def ex_pool_start_def read_launch_manifest_def read_checked_def ex_pool_launch_valid)
      (simp add: ex_pool_launch_def)
  have "discover_member (ex_pool_input True) (hd (la_members ex_pool_launch)) = Ok (ex_pool_member, ex_pool_status)"
    by (simp add: discover_member_def ex_pool_launch_def ex_pool_input_def fresh_status_def ex_pool_identified ex_pool_text ex_pool_member_def)
  then have rows: "discover_members (ex_pool_input True) (la_members ex_pool_launch) = Ok [(ex_pool_member, ex_pool_status)]"
    by (simp add: ex_pool_launch_def)
  have fields: "si_root (ex_pool_input True) = Some ''/r''" "si_sha (ex_pool_input True) = (\<lambda>_. [])" "si_alive (ex_pool_input True) = (\<lambda>_. True)"
    "si_glob (ex_pool_input True) = Some [ex_pool_launch_path]" "si_endpoint (ex_pool_input True) = (\<lambda>_. True)" "re_host ex_pool_marker = ''h''"
    "la_restart_path ex_pool_launch = ex_pool_restart_path" "map lm_config_dir (la_members ex_pool_launch) = [''/w'']"
    by (simp_all add: ex_pool_input_def ex_pool_marker_def ex_pool_launch_def)
  obtain l where l: "la_members ex_pool_launch = [l]" "lm_config_dir l = ''/w''" by (simp add: ex_pool_launch_def)
  show ?thesis
    using ex_pool_admitted rows l
    by (simp add: discover_pool_host_def fields ex_pool_paths ready [unfolded ex_pool_ready_path_def] manifest ex_pool_live_def [symmetric] ex_pool_restart_path_def)
qed

text \<open>The Mill looks for the host of the pool and installs it.\<close>

definition ex_pool_serving :: pool_mill where
  "ex_pool_serving = pool_act (ex_pool_input True) 0 (Adopt ForView ''p'' ex_pool_live)
     (pool_act (ex_pool_input True) 0 (Find ForView ''p'') (goto 0 (Find ForView ''p'') ex_pool_start))"

lemma ex_pool_faithful: "faithful_worlds (ex_pool_input b)"
  by (simp add: faithful_worlds_def ex_pool_input_def ex_pool_world_def)

lemma discover_goto [simp]:
  "read_ready i (goto t ph s) = read_ready i s" "matching_manifest (goto t ph s) = matching_manifest s"
  "discover_pool_host i (goto t ph s) = discover_pool_host i s"
proof -
  show r: "read_ready i (goto t ph s) = read_ready i s" and m: "matching_manifest (goto t ph s) = matching_manifest s"
    by (intro ext, simp add: read_ready_def matching_manifest_def)+
  show "discover_pool_host i (goto t ph s) = discover_pool_host i s"
    unfolding discover_pool_host_def r m ..
qed

lemma ex_pool_found: "pool_act (ex_pool_input True) 0 (Find ForView ''p'') (goto 0 (Find ForView ''p'') ex_pool_start)
    = goto 0 (Adopt ForView ''p'' ex_pool_live) (goto 0 (Find ForView ''p'') ex_pool_start)"
  by (simp add: find_step_def ex_pool_discovered)

lemma ex_pool_reachable: "reachable_pools ex_pool_serving"
proof -
  have "reachable_pools ex_pool_start"
    by (rule reachable_pools.start) (simp add: pool_initial_def ex_pool_start_def)
  then have "reachable_pools (goto 0 (Find ForView ''p'') ex_pool_start)"
    by (rule reachable_pools.step, intro pool_step.request) (simp_all add: ex_pool_start_def first_phase_def)
  then have "reachable_pools (goto 0 (Adopt ForView ''p'' ex_pool_live) (goto 0 (Find ForView ''p'') ex_pool_start))"
    unfolding ex_pool_found [symmetric] by (rule reachable_pools.step, intro pool_step.act ex_pool_faithful) simp
  then show ?thesis
    unfolding ex_pool_serving_def ex_pool_found by (rule reachable_pools.step, intro pool_step.act ex_pool_faithful) simp
qed

lemma ex_pool_serving_fields:
  "p_hosts ex_pool_serving ''p'' = Some 0" "p_heap ex_pool_serving 0 = Some ex_pool_live" "p_members ex_pool_serving ''/w'' = Some 0"
  "p_phase ex_pool_serving = [0 \<mapsto> Answered (None, None)]" "p_next ex_pool_serving = 1" "p_claims ex_pool_serving = (\<lambda>_. None)"
  "p_locks ex_pool_serving = (\<lambda>_. None)" "p_ready ex_pool_serving = [ex_pool_ready_path \<mapsto> Some ex_pool_marker]"
  unfolding ex_pool_serving_def ex_pool_found
  by (simp_all add: adopt_step_def install_def ex_pool_start_def host_found_def Let_def pool_config_dirs_def ex_pool_live_fields ex_pool_member_fields)

section \<open>Properties\<close>

text \<open>C10:
  Whatever goroutines do in whatever order, a live host has been admitted: each of its members carries an identity
  that names the process of the host, the Weaver and the generation of its launch, and the workspace.  This holds
  of the hosts the Mill started and of those it found again after a restart.
\<close>

theorem live_host_proved:
  assumes "reachable_pools s" "p_heap s a = Some h" "host_live h" "m \<in> set (host_members h)"
  shows "id_pid (pm_identity m) = host_pid h \<and> id_weaver (pm_identity m) = pm_weaver m
     \<and> id_generation (pm_identity m) = pm_generation m \<and> id_config_dir (pm_identity m) = member_dir m"
  using pool_okD(5) [OF reachable_pool_ok [OF assms(1)] assms(2,3)] assms(4) by (auto simp: host_proved_def fits_def)

theorem live_host_proved_witness: "id_pid ex_pool_identity = 7 \<and> id_config_dir ex_pool_identity = ''/w''"
  using live_host_proved [OF ex_pool_reachable ex_pool_serving_fields(2) ex_pool_live_fields(7), of ex_pool_member]
  by (simp add: ex_pool_live_fields ex_pool_member_fields)

text \<open>C19:
  The tables lead where they say: the host of a pool is a host of that pool, and the host a workspace is routed
  to has the workspace among its members.
\<close>

theorem routes_lead_to_members:
  assumes "reachable_pools s"
  shows "(p_hosts s p = Some a \<longrightarrow> (\<exists>h. p_heap s a = Some h \<and> host_pool h = p))
     \<and> (p_members s d = Some b \<longrightarrow> (\<exists>h. p_heap s b = Some h \<and> pool_host_has_member h d))"
proof -
  note ok = pool_okD(1,3) [OF reachable_pool_ok [OF assms]]
  have "d \<in> set (pool_config_dirs (host_members h)) \<longleftrightarrow> pool_host_has_member h d" for h
    by (auto simp: pool_config_dirs_def pool_host_has_member_def list_ex_iff)
  then show ?thesis
    using ok unfolding cells_ok_def routes_ok_def host_at_def by (metis not_None_eq option.sel)
qed

theorem routes_lead_to_members_witness:
  "(\<exists>h. p_heap ex_pool_serving 0 = Some h \<and> host_pool h = ''p'') \<and> (\<exists>h. p_heap ex_pool_serving 0 = Some h \<and> pool_host_has_member h ''/w'')"
  using routes_lead_to_members [OF ex_pool_reachable, of "''p''" 0 "''/w''" 0] ex_pool_serving_fields(1,3) by blast

text \<open>C9:
  Nothing but a stop or the shutdown of the Mill takes a live host out of the table: in every step from a reachable
  state the pool keeps its live host, unless the step is the end of the stop of that very host, by a goroutine that has
  the admission lock of the pool, or the shutdown, which empties the tables without any lock.  No start, discovery or
  restart puts another host in its place while it counts as live.
\<close>

theorem live_host_kept:
  assumes "reachable_pools s" "pool_step s s'" "p_hosts s p = Some a" "host_live (host_at s a)"
  shows "p_hosts s' p = Some a
    \<or> (\<exists>t w i. p_phase s t = Some (StopForget w a) \<and> p_locks s p = Some t \<and> s' = pool_act i t (StopForget w a) s)
    \<or> (\<exists>i pools. s' = shut_pool_hosts i pools s)"
  using assms by (rule live_host_displaced)

theorem live_host_kept_witness:
  "\<exists>s'. pool_step ex_pool_serving s' \<and> p_hosts s' ''p'' = Some 0
    \<and> (p_hosts s' ''p'' = Some 0
      \<or> (\<exists>t w i. p_phase ex_pool_serving t = Some (StopForget w 0) \<and> p_locks ex_pool_serving ''p'' = Some t
           \<and> s' = pool_act i t (StopForget w 0) ex_pool_serving)
      \<or> (\<exists>i pools. s' = shut_pool_hosts i pools ex_pool_serving))"
proof -
  let ?s' = "goto 1 (StopChoose ex_pool_world) ex_pool_serving"
  have step: "pool_step ex_pool_serving ?s'"
    by (rule pool_step.request) (simp_all add: ex_pool_serving_fields first_phase_def)
  have "p_hosts ?s' ''p'' = Some 0" by (simp add: ex_pool_serving_fields)
  with step live_host_kept [OF ex_pool_reachable step ex_pool_serving_fields(1)] show ?thesis
    by (intro exI [of _ ?s']) (simp add: host_at_def ex_pool_serving_fields ex_pool_live_fields)
qed

text \<open>At most one goroutine is between taking the start claim of a pool and giving it back, and at most one between
  locking and unlocking the admission of a pool, where stops and the cut-over of restarts are; a restart has the
  lock of the pool throughout the start of the replacement.
\<close>

theorem pool_work_exclusive:
  assumes "reachable_pools s"
  shows "(claims_work s t p \<and> claims_work s u p \<longrightarrow> t = u) \<and> (locks_work s t p \<longrightarrow> (\<forall>u. locks_work s u p \<longleftrightarrow> u = t))"
  using claim.exclusive [OF pool_okD(2) [OF reachable_pool_ok [OF assms]]] admission.exclusive [OF reachable_locks_ok [OF assms]]
  by blast

text \<open>A stop of the host of the run that has taken the lock.\<close>

definition ex_pool_stopping :: pool_mill where
  "ex_pool_stopping = pool_act (ex_pool_input True) 1 (StopLock ex_pool_world 0)
     (pool_act (ex_pool_input True) 1 (StopChoose ex_pool_world) (goto 1 (StopChoose ex_pool_world) ex_pool_serving))"

lemma ex_pool_chosen: "pool_act (ex_pool_input True) 1 (StopChoose ex_pool_world) (goto 1 (StopChoose ex_pool_world) ex_pool_serving)
    = goto 1 (StopLock ex_pool_world 0) (goto 1 (StopChoose ex_pool_world) ex_pool_serving)"
  by (simp add: stop_choose_step_def ex_pool_world_def ex_pool_serving_fields)

lemma ex_pool_stopping_reachable: "reachable_pools ex_pool_stopping"
proof -
  have "reachable_pools (goto 1 (StopChoose ex_pool_world) ex_pool_serving)"
    by (rule reachable_pools.step [OF ex_pool_reachable], intro pool_step.request) (simp_all add: ex_pool_serving_fields first_phase_def)
  then have "reachable_pools (goto 1 (StopLock ex_pool_world 0) (goto 1 (StopChoose ex_pool_world) ex_pool_serving))"
    unfolding ex_pool_chosen [symmetric] by (rule reachable_pools.step, intro pool_step.act ex_pool_faithful) simp
  then show ?thesis
    unfolding ex_pool_stopping_def ex_pool_chosen by (rule reachable_pools.step, intro pool_step.act ex_pool_faithful) simp
qed

lemma ex_pool_stopping_works: "locks_work ex_pool_stopping 1 ''p''"
  unfolding ex_pool_stopping_def ex_pool_chosen
  by (simp add: locks_work_def lock_step_def host_at_def ex_pool_serving_fields ex_pool_live_fields)

theorem pool_work_exclusive_witness: "\<forall>u. locks_work ex_pool_stopping u ''p'' \<longleftrightarrow> u = 1"
  using pool_work_exclusive [OF ex_pool_stopping_reachable] ex_pool_stopping_works by blast

text \<open>C20:
  A goroutine ends: each of its steps brings it nearer to its answer, unless it waits for the claim or the lock of
  another goroutine or asks once more whether the host it started is ready.  So with nothing to wait for it has
  answered after as many steps as its phase has left, which are at most thirty-six.
\<close>

theorem unhindered_goroutine_ends:
  assumes "p_phase s t = Some ph" "unhindered t is s" "36 \<le> length is"
  shows "\<exists>ans. p_phase (run_alone t is s) t = Some (Answered ans)"
proof -
  have rank: "purpose_rank p \<le> 20" for p by (cases p) simp_all
  have "steps_left ph \<le> 36"
  proof (cases ph)
    case (Find p pool)
    then show ?thesis using rank [of p] by simp
  next
    case (Adopt p pool h)
    then show ?thesis using rank [of p] by simp
  qed simp_all
  then show ?thesis using run_alone_ends [OF assms(1,2)] assms(3) by simp
qed

theorem unhindered_goroutine_ends_witness:
  "\<exists>ans. p_phase (run_alone 1 (replicate 36 (ex_pool_input True)) (goto 1 (StopLookup ex_pool_world ''q'') ex_pool_start)) 1 = Some (Answered ans)"
proof (rule unhindered_goroutine_ends)
  have "unhindered 1 (replicate n i) s" if "p_phase s 1 = Some (Answered ans)" for n i s ans
    using that by (induction n) simp_all
  then have "unhindered 1 (replicate (Suc 35) (ex_pool_input True)) (goto 1 (StopLookup ex_pool_world ''q'') ex_pool_start)"
    unfolding replicate_Suc by (simp add: stop_lookup_step_def ex_pool_start_def)
  then show "unhindered 1 (replicate 36 (ex_pool_input True)) (goto 1 (StopLookup ex_pool_world ''q'') ex_pool_start)" by simp
qed simp_all

text \<open>The host of the run has died: every start of the pool ends with an error, and the host stays.\<close>

definition ex_pool_job :: job where
  "ex_pool_job = \<lparr>j_world = ex_pool_world, j_pool = ''p'', j_shutdown = False, j_after = ToCaller\<rparr>"

theorem crashed_host_blocks_start_witness:
  "\<exists>e. p_phase (run_alone 1 (replicate 17 (ex_pool_input False)) (goto 1 (Enter ex_pool_job demo_snap) ex_pool_serving)) 1 = Some (Answered (None, Some e))"
proof -
  let ?s = "goto 1 (Enter ex_pool_job demo_snap) ex_pool_serving"
  have "stuck_host ex_pool_job 0 ex_pool_live ?s"
    by (simp add: stuck_host_def ex_pool_job_def ex_pool_serving_fields ex_pool_live_fields)
  moreover have "\<not> si_alive (ex_pool_input False) pid" for pid by (simp add: ex_pool_input_def)
  ultimately show ?thesis
    using crashed_host_blocks_start [of ?s 1 ex_pool_job demo_snap 0 ex_pool_live "replicate 17 (ex_pool_input False)"]
    by (simp add: ex_pool_job_def ex_pool_serving_fields dead_marker_def)
qed

end
