(* ===== verification/Lifecycle.thy ===== *)
theory Lifecycle
  imports Restart Pool_Host Forward
begin

text \<open>
  Start and stop of Weavers (\<open>cli/cmd/mill/lifecycle.go\<close>, \<open>temporary.go\<close>, \<open>dependency_diagnostic.go\<close>): the
  goroutines that handle the requests \<open>weaver-start\<close>, \<open>weaver-start-temp\<close> and \<open>weaver-stop\<close>, the observers of
  the launched processes and the shutdown of the Mill, as a machine over the state of the restart machine.  A phase
  tells where a goroutine stands; a step is a section under the mutex, an access to a file, or work of the goroutine
  on its own.

  A start claim is a channel made by one goroutine, which is its name here; a child is named by its launch token, as
  in the restart machine.
\<close>

section \<open>State\<close>

text \<open>
  What \<open>resolveLaunchSource\<close> finds: the environment variable, the installed source, the root of the checkout around
  the working directory, the validation of a source and of its release.
\<close>

record source_env =
  se_variable :: string
  se_installed :: string
  se_root :: "(string, string) result"
  se_validate :: "string \<Rightarrow> string \<Rightarrow> (string, string) result"
  se_release :: "string \<Rightarrow> string option"

datatype source_error =
    SourceInvalid string
  | ReleaseInvalid string string
  | NoCheckout string
  | InstalledUnusable source_error source_error
  | NoSource

datatype dependency_error =
    DiagnosticUnreadable string
  | DiagnosticMalformed string
  | DiagnosticStatus
  | DiagnosticStage
  | DiagnosticBlank
  | DiagnosticCoordinate

record dependency_diagnostic =
  dd_status :: string
  dd_stage :: string
  dd_source_path :: string
  dd_message :: string
  dd_cause :: string
  dd_coordinate :: "(string \<times> json) option"

datatype life_fault =
    ShutdownCancelled
  | WorldUnresolved string
  | TimeoutNegative int
  | ModeDiffers
  | CustodyTeardown string
  | ArtifactTeardown
  | NotTemporaryDir string
  | DirNotRemoved string
  | HostUnresolved string
  | TemporaryMembership
  | TemporaryPool string
  | TemporaryMember string string
  | PoolStopFirst string string
  | TemporaryDuringRestart string
  | RestartNotInTime
  | RestartError string
  | RecordBroken record_error
  | StaleRestartState "status_value option"
  | StaleWeaver "status_value option"
  | PersistentRunning
  | SourceUnresolved source_error
  | NameUnresolved
  | FileFault string
  | EntryExists string
  | LaunchFault string
  | NotReady "Weaver_Status.ready_error"
  | NotReadyLogged "Weaver_Status.ready_error" string \<comment> \<open>with the tail of the log\<close>
  | DependencyFault dependency_diagnostic "Weaver_Status.ready_error"
  | DependencyUnread dependency_error
  | ReadyIdentityInvalid identity_error
  | ReadyPidDiffers int int
  | StopDuringRestart string
  | StopIdentity identity_error
  | StopFault stop_error
  | StopTeardown
  | NilProcess \<comment> \<open>a nil pointer is dereferenced: the Mill crashes\<close>

text \<open>An answer is a status or joined errors.\<close>

datatype life_answer = Reply status | Fails "life_fault list"

record start_request =
  q_temporary :: bool
  q_name :: string
  q_timeout :: int

datatype life_phase =
    Arrive start_request
  | Attempt start_request
  | AwaitClaim start_request string nat
  | CheckMode start_request world
  | ChooseHost start_request world
  | PooledStart
  | CheckTransition start_request world
  | JoinRestart string
  | CheckRecord start_request world
  | AdmitStart start_request world
  | PrepareStart start_request world
  | MakeDirs start_request world string
  | EnterChild weaver_child
  | StartChild weaver_child
  | AwaitReady weaver_child
  | KillStarted weaver_child life_fault
  | DiscardStarted weaver_child "life_fault list"
  | PublishChild weaver_child status
  | UndoDir world "life_fault list"
  | ReleaseClaim string life_answer
  | StopArrive
  | StopChoose world
  | PooledStop
  | StopClaim world
  | StopWait string nat
  | StopCheck world
  | StopSection world
  | ShutArrive
  | ShutJoin
  | ShutStop
  | Replied life_answer

text \<open>The observer of a launched process, with the goroutine whose claim the launch holds.\<close>

datatype observer = Watching weaver_child nat | Ended weaver_child nat | Settled

record life =
  lf_mill :: mill
  lf_owner :: "string \<Rightarrow> nat option" \<comment> \<open>the goroutine whose claim \<open>startClaims\<close> holds, by config directory\<close>
  lf_starting :: "nat list" \<comment> \<open>the goroutines \<open>startWG\<close> counts\<close>
  lf_tokens :: "string list" \<comment> \<open>the launch tokens drawn\<close>
  lf_reaped :: "string list" \<comment> \<open>the children whose \<open>waitDone\<close> is closed\<close>
  lf_cleanup :: "string \<Rightarrow> life_fault option" \<comment> \<open>\<open>cleanupErr\<close>\<close>
  lf_observers :: "string \<Rightarrow> observer option"
  lf_dirs :: "string list" \<comment> \<open>the temporary runtime directories on disk\<close>
  lf_signals :: "signal_sent list"
  lf_removed :: "string list" \<comment> \<open>the files and directories removed\<close>
  lf_shut :: "string list" \<comment> \<open>the state directories whose custody was shut down\<close>
  lf_phase :: "nat \<Rightarrow> life_phase option"

text \<open>
  What a step finds out or is given; \<open>li_base\<close> holds the inputs shared with the restart machine.  A failing file
  operation or launch is \<open>in_fails\<close>, its text \<open>in_text\<close>.
\<close>

record life_input =
  li_base :: inputs
  li_world :: "(string, world) result" \<comment> \<open>\<open>resolveLifecycleWorld\<close>\<close>
  li_host :: "(string, host_ref option) result" \<comment> \<open>the live pool host of the workspace\<close>
  li_pool :: "(string, string) result" \<comment> \<open>\<open>configuredPool\<close>\<close>
  li_registered :: "(string, string option) result"
  li_recorded :: bool
  li_membership :: "(string, bool) result"
  li_pooled :: life_answer \<comment> \<open>the answer of the pool machine\<close>
  li_source :: source_env
  li_suffix :: "(string, string) result" \<comment> \<open>the random end \<open>MkdirTemp\<close> found\<close>
  li_root :: "string option"
  li_token :: string
  li_generation :: string
  li_nolog :: bool
  li_tail :: string
  li_late :: bool \<comment> \<open>a timer fired, or a select preferred the other channel\<close>
  li_exited :: bool
  li_custody :: "string \<Rightarrow> string option" \<comment> \<open>the error of \<open>Shutdown\<close> of a custody\<close>
  li_artifact :: "world \<Rightarrow> artifact_file"
  li_undeletable :: "string \<Rightarrow> bool"
  li_dependency :: "(dependency_error, dependency_diagnostic option) result"
  li_malformed :: bool \<comment> \<open>the metadata is still malformed when it is read again\<close>
  li_ready_path :: "string \<Rightarrow> string"

definition lift_mill :: "(mill \<Rightarrow> mill) \<Rightarrow> life \<Rightarrow> life" where
  "lift_mill f s = s\<lparr>lf_mill := f (lf_mill s)\<rparr>"

definition send :: "signal_sent list \<Rightarrow> life \<Rightarrow> life" where
  "send sent s = s\<lparr>lf_signals := lf_signals s @ sent\<rparr>"

definition removes :: "string list \<Rightarrow> life \<Rightarrow> life" where
  "removes paths s = s\<lparr>lf_removed := lf_removed s @ paths\<rparr>"

definition child_at :: "life \<Rightarrow> string \<Rightarrow> weaver_child option" where
  "child_at s dir = map_of (children (lf_mill s)) dir"

definition reaped :: "life \<Rightarrow> weaver_child \<Rightarrow> bool" where
  "reaped s c \<longleftrightarrow> child_launch_token c \<in> set (lf_reaped s)"

text \<open>The transition registered for a workspace.\<close>

definition transition_at :: "life \<Rightarrow> string \<Rightarrow> (string \<times> transition) option" where
  "transition_at s dir =
     (case map_of (m_transitions (lf_mill s)) dir of
        None \<Rightarrow> None
      | Some e \<Rightarrow> map_option (Pair e) (map_of (m_heap (lf_mill s)) e))"

section \<open>Sources and diagnostics\<close>

definition validate_launch_source :: "source_env \<Rightarrow> string \<Rightarrow> string \<Rightarrow> (source_error, string) result" where
  "validate_launch_source e label source =
     (case se_validate e label source of
        Inl err \<Rightarrow> Err (SourceInvalid err)
      | Inr resolved \<Rightarrow>
          (case se_release e resolved of
             Some err \<Rightarrow> Err (ReleaseInvalid label err)
           | None \<Rightarrow> Ok resolved))"

text \<open>\<open>resolveLaunchSource\<close>: the source, and the warning about an installed source that is bypassed.\<close>

definition resolve_launch_source :: "source_env \<Rightarrow> (source_error, string \<times> (string \<times> source_error) option) result" where
  "resolve_launch_source e =
     (if se_variable e \<noteq> [] then
        (case validate_launch_source e ''MILLSTRAND_SOURCE'' (se_variable e) of
           Inl err \<Rightarrow> Err err
         | Inr r \<Rightarrow> Ok (r, None))
      else
        let installed = (if se_installed e = [] then None
                         else Some (validate_launch_source e ''installed Millstrand source'' (se_installed e)));
            checkout = (case se_root e of
                          Inl err \<Rightarrow> Err (NoCheckout err)
                        | Inr root \<Rightarrow> validate_launch_source e ''canonical Millstrand checkout cwd'' root)
        in (case installed of
              Some (Inr r) \<Rightarrow> Ok (r, None)
            | Some (Inl err) \<Rightarrow>
                (case checkout of
                   Inr r \<Rightarrow> Ok (r, Some (se_installed e, err))
                 | Inl root_err \<Rightarrow> Err (InstalledUnusable err root_err))
            | None \<Rightarrow>
                (case checkout of
                   Inr r \<Rightarrow> Ok (r, None)
                 | Inl root_err \<Rightarrow> Err NoSource)))"

definition validate_dependency_diagnostic :: "dependency_diagnostic \<Rightarrow> dependency_error option" where
  "validate_dependency_diagnostic d = guards
     [(dd_status d \<noteq> ''invalid-dependency-config'', DiagnosticStatus),
      (dd_stage d \<noteq> ''deps-read'' \<and> dd_stage d \<noteq> ''deps-resolve'', DiagnosticStage),
      (blank (dd_source_path d) \<or> blank (dd_message d) \<or> blank (dd_cause d), DiagnosticBlank),
      (case dd_coordinate d of None \<Rightarrow> False | Some (lib, v) \<Rightarrow> blank lib \<or> v = JNull, DiagnosticCoordinate)]"

text \<open>
  \<open>readDependencyDiagnostic\<close>: \<open>None\<close> when there is no such file; a file that is read is decoded or not.
\<close>

definition read_dependency_diagnostic ::
    "(string, (string, dependency_diagnostic) result) result option \<Rightarrow> (dependency_error, dependency_diagnostic option) result" where
  "read_dependency_diagnostic found =
     (case found of
        None \<Rightarrow> Ok None
      | Some (Inl err) \<Rightarrow> Err (DiagnosticUnreadable err)
      | Some (Inr (Inl err)) \<Rightarrow> Err (DiagnosticMalformed err)
      | Some (Inr (Inr d)) \<Rightarrow> (case validate_dependency_diagnostic d of Some e \<Rightarrow> Err e | None \<Rightarrow> Ok (Some d)))"

definition weaver_startup_error :: "life_input \<Rightarrow> Weaver_Status.ready_error \<Rightarrow> life_fault list" where
  "weaver_startup_error i e =
     (case li_dependency i of
        Inl err \<Rightarrow> [NotReady e, DependencyUnread err]
      | Inr (Some d) \<Rightarrow> [DependencyFault d e]
      | Inr None \<Rightarrow> [if li_tail i \<noteq> [] then NotReadyLogged e (li_tail i) else NotReady e])"

section \<open>Children\<close>

text \<open>\<open>terminateProcess\<close> and the kill of a process that outlived the time it was given.\<close>

definition terminate_process :: "bool \<Rightarrow> int option \<Rightarrow> signal_sent list" where
  "terminate_process outlived process =
     (case process of
        None \<Rightarrow> []
      | Some pid \<Rightarrow> terminate_pid pid @ [ToPid pid Term] @ (if outlived then [ToPid pid Kill] else []))"

text \<open>
  \<open>stopStartedChild\<close> with \<open>waitForStartedChild\<close>: the child is signalled and joined, unless it was reaped before.  A
  child whose process was not started yet is neither.
\<close>

definition stop_started_child :: "life_input \<Rightarrow> weaver_child \<Rightarrow> life \<Rightarrow> life" where
  "stop_started_child i c s =
     (if reaped s c then s
      else case child_cmd c of
        None \<Rightarrow> s
      | Some pid \<Rightarrow>
          (send (terminate_process (li_late i) (Some pid)) s)
            \<lparr>lf_reaped := child_launch_token c # lf_reaped s\<rparr>)"

text \<open>\<open>removeTemporaryRuntimeWorld\<close>: a removal of the directory that fails may have removed parts of it.\<close>

definition remove_temporary_world :: "life_input \<Rightarrow> world \<Rightarrow> life \<Rightarrow> life_fault option \<times> life" where
  "remove_temporary_world i w s =
     (let dir = w_state_dir w in
      if \<not> is_temporary_runtime_dir (li_root i) dir then (Some (NotTemporaryDir dir), s)
      else let s1 = removes [dir] s in
        if li_undeletable i dir then (Some (DirNotRemoved dir), s1)
        else (None, s1\<lparr>lf_dirs := filter (\<lambda>d. d \<noteq> dir) (lf_dirs s1)\<rparr>))"

text \<open>The \<open>Shutdown\<close> of the custody of a state directory, if it has one.\<close>

definition shut_custody :: "string \<Rightarrow> life \<Rightarrow> life" where
  "shut_custody dir s =
     (case map_of (custodies (lf_mill s)) dir of
        None \<Rightarrow> s
      | Some cu \<Rightarrow>
          (lift_mill (\<lambda>m. m\<lparr>custodies := AList.update dir (shutdown_begin cu) (custodies m)\<rparr>) s)
            \<lparr>lf_shut := lf_shut s @ [dir]\<rparr>)"

text \<open>\<open>cleanupWorldArtifactsOwned\<close> for a child that published an identity.\<close>

definition clean_artifacts :: "life_input \<Rightarrow> world \<Rightarrow> weaver_identity \<Rightarrow> life \<Rightarrow> bool \<times> life" where
  "clean_artifacts i w who s =
     (case cleanup_artifacts w who (li_artifact i w) (in_removable (li_base i)) of (ok, paths) \<Rightarrow> (ok, removes paths s))"

definition clean_published :: "life_input \<Rightarrow> weaver_child \<Rightarrow> life \<Rightarrow> bool \<times> life" where
  "clean_published i c s =
     (if id_weaver (child_identity c) = [] then (True, s) else clean_artifacts i (child_world c) (child_identity c) s)"

text \<open>\<open>cleanupTemporaryChildLocked\<close>.\<close>

definition forget_temporary :: "weaver_child \<Rightarrow> life \<Rightarrow> life" where
  "forget_temporary c =
     lift_mill (\<lambda>m. m\<lparr>custodies := AList.delete (w_state_dir (child_world c)) (custodies m),
                     children := AList.delete (w_config_dir (child_world c)) (children m)\<rparr>)"

definition cleanup_temporary :: "life_input \<Rightarrow> weaver_child \<Rightarrow> life \<Rightarrow> life_fault option \<times> life" where
  "cleanup_temporary i c s =
     (let dir = w_state_dir (child_world c);
          s1 = shut_custody dir s;
          noted = (\<lambda>f x. (f, x\<lparr>lf_cleanup := (lf_cleanup x)(child_launch_token c := f)\<rparr>));
          refused = (if map_of (custodies (lf_mill s)) dir = None then None else li_custody i dir)
      in case refused of
           Some e \<Rightarrow> noted (Some (CustodyTeardown e)) s1
         | None \<Rightarrow>
             (case clean_published i c s1 of
                (ok, s2) \<Rightarrow>
                  if \<not> ok then noted (Some ArtifactTeardown) s2
                  else (case remove_temporary_world i (child_world c) s2 of
                    (Some f, s3) \<Rightarrow> noted (Some f) s3
                  | (None, s3) \<Rightarrow> noted None (forget_temporary c s3))))"

text \<open>\<open>checkStartModeLocked\<close>.\<close>

definition check_start_mode :: "life_input \<Rightarrow> world \<Rightarrow> bool \<Rightarrow> life \<Rightarrow> life_fault option \<times> life" where
  "check_start_mode i w temporary s =
     (case child_at s (w_config_dir w) of
        None \<Rightarrow> (None, s)
      | Some c \<Rightarrow>
          if lf_owner s (w_config_dir w) \<noteq> None then (None, s)
          else if \<not> child_temporary c \<and> \<not> living (li_base i) c then (None, s)
          else if child_temporary c \<and> reaped s c then cleanup_temporary i c s
          else if child_temporary c \<noteq> temporary then (Some ModeDiffers, s)
          else (None, s))"

section \<open>Start\<close>

type_synonym life_result = "life_phase \<times> life"

definition refuse :: "life_fault \<Rightarrow> life \<Rightarrow> life_result" where
  "refuse f s = (Replied (Fails [f]), s)"

text \<open>\<open>startWeaverMode\<close> up to the attempt.\<close>

definition arrive_act :: "nat \<Rightarrow> start_request \<Rightarrow> life \<Rightarrow> life_result" where
  "arrive_act t q s =
     (if stopping (lf_mill s) then refuse ShutdownCancelled s
      else (Attempt q, s\<lparr>lf_starting := t # lf_starting s\<rparr>))"

text \<open>\<open>startWeaverAttempt\<close> up to the wait for the claim of another start.\<close>

definition attempt_act :: "life_input \<Rightarrow> start_request \<Rightarrow> life \<Rightarrow> life_result" where
  "attempt_act i q s =
     (case li_world i of
        Inl e \<Rightarrow> refuse (WorldUnresolved e) s
      | Inr w \<Rightarrow>
          if q_timeout q < 0 then refuse (TimeoutNegative (q_timeout q)) s
          else (case lf_owner s (w_config_dir w) of
                  Some owner \<Rightarrow> (AwaitClaim q (w_config_dir w) owner, s)
                | None \<Rightarrow> (CheckMode q w, s)))"

text \<open>\<open>waitForStartClaimWithShutdown\<close>; when both channels are ready the choice is arbitrary.\<close>

definition await_claim_act :: "life_input \<Rightarrow> start_request \<Rightarrow> string \<Rightarrow> nat \<Rightarrow> life \<Rightarrow> life_result" where
  "await_claim_act i q dir owner s =
     (let released = (lf_owner s dir \<noteq> Some owner); shut = stopping (lf_mill s) in
      if released \<and> \<not> (shut \<and> li_late i) then (Attempt q, s)
      else if shut then refuse ShutdownCancelled s
      else (AwaitClaim q dir owner, s))"

definition check_mode_act :: "life_input \<Rightarrow> start_request \<Rightarrow> world \<Rightarrow> life \<Rightarrow> life_result" where
  "check_mode_act i q w s =
     (case check_start_mode i w (q_temporary q) s of
        (Some f, s') \<Rightarrow> refuse f s'
      | (None, s') \<Rightarrow> (ChooseHost q w, s'))"

text \<open>The pool the workspace belongs to decides who starts it.\<close>

definition choose_host_act :: "life_input \<Rightarrow> start_request \<Rightarrow> world \<Rightarrow> life \<Rightarrow> life_result" where
  "choose_host_act i q w s =
     (case li_host i of
        Inl e \<Rightarrow> refuse (HostUnresolved e) s
      | Inr live \<Rightarrow>
          (case li_pool i of
             Inl e \<Rightarrow> refuse (HostUnresolved e) s
           | Inr pool \<Rightarrow>
               if q_temporary q then
                 (case li_registered i of
                    Inl e \<Rightarrow> refuse (HostUnresolved e) s
                  | Inr (Some _) \<Rightarrow> refuse TemporaryMembership s
                  | Inr None \<Rightarrow>
                      if pool \<noteq> [] then refuse (TemporaryPool pool) s
                      else (case live of
                              Some (p, _) \<Rightarrow> refuse (TemporaryMember (w_config_dir w) p) s
                            | None \<Rightarrow> (CheckTransition q w, s)))
               else
                 (case live of
                    Some (p, h) \<Rightarrow>
                      if p \<noteq> pool then refuse (PoolStopFirst p h) s
                      else if pool \<noteq> [] then (PooledStart, s) else (CheckTransition q w, s)
                  | None \<Rightarrow> if pool \<noteq> [] then (PooledStart, s) else (CheckTransition q w, s))))"

text \<open>A start during a restart: the old generation serves while it is probed, and a cut-over is joined.\<close>

definition transition_answer :: "life_input \<Rightarrow> start_request \<Rightarrow> string \<Rightarrow> transition \<Rightarrow> life \<Rightarrow> life_result" where
  "transition_answer i q ident t s =
     (if q_temporary q then refuse (TemporaryDuringRestart (t_state t)) s
      else if t_state t = state_probing then (Replied (Reply (admitted_generation_status (li_base i) (lf_mill s) t)), s)
      else (JoinRestart ident, s))"

definition check_transition_act :: "life_input \<Rightarrow> start_request \<Rightarrow> world \<Rightarrow> life \<Rightarrow> life_result" where
  "check_transition_act i q w s =
     (case transition_at s (w_config_dir w) of
        Some (ident, t) \<Rightarrow> transition_answer i q ident t s
      | None \<Rightarrow> (CheckRecord q w, s))"

text \<open>\<open>waitForLifecycleTransitionShutdown\<close>.\<close>

definition join_restart_act :: "life_input \<Rightarrow> string \<Rightarrow> life \<Rightarrow> life_result" where
  "join_restart_act i ident s =
     (case map_of (m_heap (lf_mill s)) ident of
        None \<Rightarrow> refuse RestartNotInTime s
      | Some t \<Rightarrow>
          if 0 < t_closed t \<and> \<not> li_late i then
            (case t_err t of
               Some e \<Rightarrow> refuse (RestartError e) s
             | None \<Rightarrow> (Replied (case t_result t of None \<Rightarrow> Fails [] | Some st \<Rightarrow> Reply st), s))
          else if stopping (lf_mill s) then refuse ShutdownCancelled s
          else if li_late i then refuse RestartNotInTime s
          else (JoinRestart ident, s))"

text \<open>A failed restart is kept for an explicit recovery.\<close>

definition check_record_act :: "life_input \<Rightarrow> start_request \<Rightarrow> world \<Rightarrow> life \<Rightarrow> life_result" where
  "check_record_act i q w s =
     (if q_temporary q then (AdmitStart q w, s)
      else case record_outcome (li_base i) (lf_mill s) w of
        Inl e \<Rightarrow> refuse (RecordBroken e) s
      | Inr None \<Rightarrow> (AdmitStart q w, s)
      | Inr (Some r) \<Rightarrow>
          if rr_state r = state_failed
          then (Replied (Reply (put True ''operation'' (SV (JStr ''start'')) (record_status (in_configured (li_base i)) w r))), s)
          else (AdmitStart q w, s))"

text \<open>The answer about a child that lives.\<close>

definition running_answer :: "life_input \<Rightarrow> weaver_child \<Rightarrow> life \<Rightarrow> life_answer" where
  "running_answer i c s =
     (case read_status (li_base i) (in_metadata (li_base i)) (lf_mill s) (child_world c) of
        (Some st, False) \<Rightarrow>
          Reply (decorate_temporary (Some c) (put True ''generation_id'' (SV (JStr (child_generation c))) st))
      | (Some st, True) \<Rightarrow> Fails [StaleRestartState (map_of st ''stale_reason'')]
      | (None, _) \<Rightarrow>
          Reply (put True ''pid'' (SInt (case child_cmd c of None \<Rightarrow> 0 | Some pid \<Rightarrow> pid))
            (decorate_temporary (Some c)
              (base_status_with_name (in_configured (li_base i)) (child_world c) ''starting'' (child_name c)))))"

definition install_claim :: "nat \<Rightarrow> string \<Rightarrow> life \<Rightarrow> life" where
  "install_claim t dir s =
     (lift_mill (\<lambda>m. m\<lparr>m_claims := dir # m_claims m\<rparr>) s)\<lparr>lf_owner := (lf_owner s)(dir \<mapsto> t)\<rparr>"

text \<open>The section that admits a start: everything is checked again, and the claim is installed.\<close>

definition admit_start_act :: "life_input \<Rightarrow> nat \<Rightarrow> start_request \<Rightarrow> world \<Rightarrow> life \<Rightarrow> life_result" where
  "admit_start_act i t q w s =
     (let dir = w_config_dir w in
      case lf_owner s dir of
        Some owner \<Rightarrow> (AwaitClaim q dir owner, s)
      | None \<Rightarrow>
          (case check_start_mode i w (q_temporary q) s of
             (Some f, s') \<Rightarrow> refuse f s'
           | (None, s') \<Rightarrow>
               (case transition_at s' dir of
                  Some (ident, tr) \<Rightarrow> transition_answer i q ident tr s'
                | None \<Rightarrow>
                    (case (case child_at s' dir of None \<Rightarrow> None | Some c \<Rightarrow> if living (li_base i) c then Some c else None) of
                       Some c \<Rightarrow> (Replied (running_answer i c s'), s')
                     | None \<Rightarrow>
                         (case read_status (li_base i) (in_metadata (li_base i)) (lf_mill s') w of
                            (Some st, stale) \<Rightarrow>
                              if stale then refuse (StaleWeaver (map_of st ''stale_reason'')) s'
                              else if q_temporary q then refuse PersistentRunning s'
                              else (Replied (Reply st), s')
                          | (None, _) \<Rightarrow> (PrepareStart q w, install_claim t dir s'))))))"

text \<open>
  The work under the claim.  \<open>TemporaryRuntimeWorld\<close> keeps the config directory, which is canonical already, and
  takes a directory that did not exist.
\<close>

definition temporary_world :: "string \<Rightarrow> string \<Rightarrow> world \<Rightarrow> world" where
  "temporary_world root ending w =
     (let dir = join_path [root, ''weavers'', temporary_prefix @ ending]; data = join_path [dir, ''data''] in
      w\<lparr>w_state_dir := dir, w_data_dir := data, w_db_path := join_path [data, ''millstrand.sqlite'']\<rparr>)"

definition prepare_start_act :: "life_input \<Rightarrow> start_request \<Rightarrow> world \<Rightarrow> life \<Rightarrow> life_result" where
  "prepare_start_act i q w s =
     (let give_up = (\<lambda>f. (ReleaseClaim (w_config_dir w) (Fails [f]), s)) in
      if stopping (lf_mill s) then give_up ShutdownCancelled
      else case resolve_launch_source (li_source i) of
        Inl e \<Rightarrow> give_up (SourceUnresolved e)
      | Inr _ \<Rightarrow>
          (case friendly_name (in_configured (li_base i)) w (q_name q) of
             None \<Rightarrow> give_up NameUnresolved
           | Some name \<Rightarrow>
               if \<not> q_temporary q then (MakeDirs q w name, s)
               else (case li_root i of
                 None \<Rightarrow> give_up (FileFault (in_text (li_base i)))
               | Some root \<Rightarrow>
                   (case li_suffix i of
                      Inl e \<Rightarrow> give_up (FileFault e)
                    | Inr ending \<Rightarrow>
                        let w' = temporary_world root ending w in
                        (MakeDirs q w' name, s\<lparr>lf_dirs := w_state_dir w' # lf_dirs s\<rparr>)))))"

text \<open>A failure before the launch: the directory allocated for a temporary Weaver is removed.\<close>

definition undo_start :: "bool \<Rightarrow> world \<Rightarrow> life_fault \<Rightarrow> life \<Rightarrow> life_result" where
  "undo_start temporary w f s =
     (if temporary then (UndoDir w [f], s) else (ReleaseClaim (w_config_dir w) (Fails [f]), s))"

definition fresh_child :: "life_input \<Rightarrow> start_request \<Rightarrow> world \<Rightarrow> string \<Rightarrow> weaver_child" where
  "fresh_child i q w name =
     \<lparr>child_cmd = None, child_world = w, child_name = name,
      child_identity = \<lparr>id_pid = 0, id_weaver = [], id_generation = [], id_started_at = [], id_socket = [],
                        id_config_dir = [], id_state_dir = [], id_data_dir = []\<rparr>,
      child_temporary = q_temporary q, child_unsupervised = False, child_generation = li_generation i,
      child_launch_token = li_token i, child_startup_weaver = []\<rparr>"

definition make_dirs_act :: "life_input \<Rightarrow> start_request \<Rightarrow> world \<Rightarrow> string \<Rightarrow> life \<Rightarrow> life_result" where
  "make_dirs_act i q w name s =
     (if in_fails (li_base i) then undo_start (q_temporary q) w (FileFault (in_text (li_base i))) s
      else if stopping (lf_mill s) then undo_start (q_temporary q) w ShutdownCancelled s
      else if li_nolog i then undo_start (q_temporary q) w (FileFault (in_text (li_base i))) s
      else (EnterChild (fresh_child i q w name), s\<lparr>lf_tokens := li_token i # lf_tokens s\<rparr>))"

text \<open>
  The registration, as the launch runs it before it starts the process.  An entry whose process is not alive gives
  way.
\<close>

definition enter_child_act :: "life_input \<Rightarrow> weaver_child \<Rightarrow> life \<Rightarrow> life_result" where
  "enter_child_act i c s =
     (let w = child_world c; dir = w_config_dir w in
      if (case child_at s dir of None \<Rightarrow> False | Some c' \<Rightarrow> living (li_base i) c')
      then undo_start (child_temporary c) w (EntryExists dir) s
      else (StartChild c, lift_mill (\<lambda>m. m\<lparr>children := AList.update dir c (children m)\<rparr>) s))"

text \<open>The start of the process; one that started is observed.\<close>

definition start_child_act :: "life_input \<Rightarrow> nat \<Rightarrow> weaver_child \<Rightarrow> life \<Rightarrow> life_result" where
  "start_child_act i t c s =
     (let w = child_world c; dir = w_config_dir w in
      if in_fails (li_base i)
      then undo_start (child_temporary c) w (LaunchFault (in_text (li_base i))) (lift_mill (\<lambda>m. snd (release_child dir c m)) s)
      else
        let c' = c\<lparr>child_cmd := Some (in_pid (li_base i))\<rparr> in
        (AwaitReady c', (lift_mill (update_child dir c') s)
           \<lparr>lf_observers := (lf_observers s)(child_launch_token c \<mapsto> Watching c' t)\<rparr>))"

definition await_ready_act :: "life_input \<Rightarrow> weaver_child \<Rightarrow> life \<Rightarrow> life_result" where
  "await_ready_act i c s =
     (let pid = (case child_cmd c of None \<Rightarrow> 0 | Some pid \<Rightarrow> pid) in
      case wait_ready pid (in_polls (li_base i)) of
        (Inl e, sent) \<Rightarrow> (KillStarted c (NotReady e), send sent s)
      | (Inr st, sent) \<Rightarrow>
          (case identity_from_status st of
             Inl e \<Rightarrow> (KillStarted c (ReadyIdentityInvalid e), s)
           | Inr who \<Rightarrow>
               if id_pid who \<noteq> pid then (KillStarted c (ReadyPidDiffers (id_pid who) pid), s)
               else (PublishChild (c\<lparr>child_identity := who, child_generation := id_generation who\<rparr>) st, s)))"

text \<open>
  \<open>discardStartedChild\<close>: the process is killed and joined, the diagnostics of a start that was not ready are read
  before the files go, and the entry is removed if it is still this child's.
\<close>

definition kill_started_act :: "life_input \<Rightarrow> weaver_child \<Rightarrow> life_fault \<Rightarrow> life \<Rightarrow> life_result" where
  "kill_started_act i c f s =
     (DiscardStarted c (case f of NotReady e \<Rightarrow> weaver_startup_error i e | _ \<Rightarrow> [f]), stop_started_child i c s)"

definition opt_list :: "'a option \<Rightarrow> 'a list" where
  "opt_list x = (case x of None \<Rightarrow> [] | Some y \<Rightarrow> [y])"

definition discard_started_act :: "life_input \<Rightarrow> weaver_child \<Rightarrow> life_fault list \<Rightarrow> life \<Rightarrow> life_result" where
  "discard_started_act i c fs s =
     (let dir = w_config_dir (child_world c) in
      case child_at s dir of
        None \<Rightarrow> (ReleaseClaim dir (Fails fs), s)
      | Some c' \<Rightarrow>
          if child_launch_token c' \<noteq> child_launch_token c then (ReleaseClaim dir (Fails fs), s)
          else if child_temporary c' then
            (case cleanup_temporary i c' s of (f, s') \<Rightarrow> (ReleaseClaim dir (Fails (fs @ opt_list f)), s'))
          else
            (case clean_published i c' (lift_mill (\<lambda>m. m\<lparr>children := AList.delete dir (children m)\<rparr>) s) of
               (ok, s') \<Rightarrow> (ReleaseClaim dir (Fails (fs @ (if ok then [] else [ArtifactTeardown]))), s')))"

definition publish_child_act :: "weaver_child \<Rightarrow> status \<Rightarrow> life \<Rightarrow> life_result" where
  "publish_child_act c st s =
     (let dir = w_config_dir (child_world c) in
      (ReleaseClaim dir
         (Reply (decorate_temporary (Some c) (put True ''generation_id'' (SV (JStr (child_generation c))) st))),
       lift_mill (update_child dir c) s))"

definition undo_dir_act :: "life_input \<Rightarrow> world \<Rightarrow> life_fault list \<Rightarrow> life \<Rightarrow> life_result" where
  "undo_dir_act i w fs s =
     (case remove_temporary_world i w s of (f, s') \<Rightarrow> (ReleaseClaim (w_config_dir w) (Fails (fs @ opt_list f)), s'))"

text \<open>\<open>releaseStartClaim\<close>.\<close>

definition release_claim_act :: "nat \<Rightarrow> string \<Rightarrow> life_answer \<Rightarrow> life \<Rightarrow> life_result" where
  "release_claim_act t dir ans s =
     (Replied ans,
      if lf_owner s dir = Some t
      then (lift_mill (\<lambda>m. m\<lparr>m_claims := filter (\<lambda>d. d \<noteq> dir) (m_claims m)\<rparr>) s)\<lparr>lf_owner := (lf_owner s)(dir := None)\<rparr>
      else s)"

section \<open>Stop\<close>

text \<open>\<open>stopWeaver\<close> up to its section: a temporary Weaver is selected with its own world.\<close>

definition stop_arrive_act :: "life_input \<Rightarrow> life \<Rightarrow> life_result" where
  "stop_arrive_act i s =
     (case li_world i of
        Inl e \<Rightarrow> refuse (WorldUnresolved e) s
      | Inr w \<Rightarrow>
          (case child_at s (w_config_dir w) of
             None \<Rightarrow> (StopChoose w, s)
           | Some c \<Rightarrow> if child_temporary c then (StopClaim (child_world c), s) else (StopChoose w, s)))"

definition stop_choose_act :: "life_input \<Rightarrow> world \<Rightarrow> life \<Rightarrow> life_result" where
  "stop_choose_act i w s =
     (case li_pool i of
        Inl e \<Rightarrow> refuse (HostUnresolved e) s
      | Inr pool \<Rightarrow>
          if pool \<noteq> [] \<or> li_recorded i then (PooledStop, s)
          else (case li_membership i of
                  Inl e \<Rightarrow> refuse (HostUnresolved e) s
                | Inr True \<Rightarrow> (PooledStop, s)
                | Inr False \<Rightarrow> (StopClaim w, s)))"

definition stop_claim_act :: "world \<Rightarrow> life \<Rightarrow> life_result" where
  "stop_claim_act w s =
     (case lf_owner s (w_config_dir w) of
        Some owner \<Rightarrow> (StopWait (w_config_dir w) owner, s)
      | None \<Rightarrow> (StopCheck w, s))"

definition stop_wait_act :: "string \<Rightarrow> nat \<Rightarrow> life \<Rightarrow> life_result" where
  "stop_wait_act dir owner s = (if lf_owner s dir = Some owner then (StopWait dir owner, s) else (StopArrive, s))"

definition stop_check_act :: "world \<Rightarrow> life \<Rightarrow> life_result" where
  "stop_check_act w s =
     (case transition_at s (w_config_dir w) of
        Some (_, t) \<Rightarrow> refuse (StopDuringRestart (t_state t)) s
      | None \<Rightarrow> (StopSection w, s))"

definition stopped_status :: "life_input \<Rightarrow> world \<Rightarrow> int option \<Rightarrow> status" where
  "stopped_status i w pid =
     (let st = base_status (in_configured (li_base i)) w ''stopped'' in
      case pid of None \<Rightarrow> st | Some n \<Rightarrow> put True ''pid'' (SInt n) st)"

text \<open>A temporary Weaver.\<close>

definition stop_temporary :: "life_input \<Rightarrow> weaver_child \<Rightarrow> life \<Rightarrow> life_answer \<times> life" where
  "stop_temporary i c s =
     (case cleanup_temporary i c (stop_started_child i c s) of
        (Some f, s') \<Rightarrow> (Fails [f], s')
      | (None, s') \<Rightarrow>
          (case child_cmd c of
             None \<Rightarrow> (Fails [NilProcess], s')
           | Some pid \<Rightarrow> (Reply (decorate_temporary (Some c) (stopped_status i (child_world c) (Some pid))), s')))"

text \<open>
  No supervised process: what the metadata names.  Stale metadata goes if it is still the one that was read, or still
  malformed; a live Weaver of a previous Mill is stopped through its endpoint.
\<close>

definition stop_unsupervised :: "life_input \<Rightarrow> world \<Rightarrow> life \<Rightarrow> life_answer \<times> life" where
  "stop_unsupervised i w s =
     (case read_status (li_base i) (in_metadata (li_base i)) (lf_mill s) w of
        (None, _) \<Rightarrow> (Reply (stopped_status i w None), s)
      | (Some st, True) \<Rightarrow>
          (case identity_from_status st of
             Inr who \<Rightarrow>
               (case clean_artifacts i w who s of
                  (ok, s') \<Rightarrow> if ok then (Reply (stopped_status i w None), s') else (Fails [ArtifactTeardown], s'))
           | Inl _ \<Rightarrow>
               (Reply (stopped_status i w None),
                if li_malformed i then removes [join_path [w_state_dir w, ''weaver.json'']] s else s))
      | (Some st, False) \<Rightarrow>
          (case identity_from_status st of
             Inl e \<Rightarrow> (Fails [StopIdentity e], s)
           | Inr who \<Rightarrow>
               (let c = \<lparr>child_cmd = Some (id_pid who), child_world = w, child_name = sprint (map_of st ''name''),
                         child_identity = who, child_temporary = False, child_unsupervised = True,
                         child_generation = [], child_launch_token = [], child_startup_weaver = []\<rparr>;
                    (see, see1, see2) = in_sights (li_base i);
                    (err, sent, paths) = stop_recorded_generation (Some c) w see see1 (fst (in_gone (li_base i))) see2
                      (snd (in_gone (li_base i))) (li_artifact i w) (in_removable (li_base i));
                    s' = removes paths (send sent s)
                in case err of
                     Some e \<Rightarrow> (Fails [StopFault e], s')
                   | None \<Rightarrow> (Reply (stopped_status i w (Some (id_pid who))), s'))))"

text \<open>A supervised process that lives.\<close>

definition stop_supervised :: "life_input \<Rightarrow> world \<Rightarrow> weaver_child \<Rightarrow> life \<Rightarrow> life_answer \<times> life" where
  "stop_supervised i w c s =
     (let s1 = (send (terminate_process (li_late i) (child_cmd c)) s)\<lparr>lf_reaped := child_launch_token c # lf_reaped s\<rparr> in
      case clean_artifacts i (child_world c) (child_identity c) s1 of
        (False, s2) \<Rightarrow> (Fails [StopTeardown], s2)
      | (True, s2) \<Rightarrow>
          (Reply (stopped_status i (child_world c) (child_cmd c)),
           lift_mill (\<lambda>m. m\<lparr>children := AList.delete (w_config_dir w) (children m)\<rparr>) s2))"

text \<open>The section of \<open>stopWeaver\<close>.\<close>

definition stop_section :: "life_input \<Rightarrow> world \<Rightarrow> life \<Rightarrow> life_answer \<times> life" where
  "stop_section i w s =
     (let dir = w_config_dir w;
          dropped = lift_mill (\<lambda>m. m\<lparr>children := AList.delete dir (children m)\<rparr>) s
      in case child_at s dir of
           None \<Rightarrow> stop_unsupervised i w dropped
         | Some c \<Rightarrow>
             if child_temporary c then stop_temporary i c s
             else if living (li_base i) c then stop_supervised i w c s
             else stop_unsupervised i w dropped)"

definition stop_section_act :: "life_input \<Rightarrow> world \<Rightarrow> life \<Rightarrow> life_result" where
  "stop_section_act i w s = (case stop_section i w s of (ans, s') \<Rightarrow> (Replied ans, s'))"

section \<open>Shutdown\<close>

text \<open>The children, in the order the map is walked, each if it is still there; a persistent one keeps its entry.\<close>

definition shut_child :: "life_input \<Rightarrow> weaver_child \<Rightarrow> life \<Rightarrow> life_fault list \<times> life" where
  "shut_child i c s =
     (if child_temporary c then
        (case cleanup_temporary i c (stop_started_child i c s) of (f, s') \<Rightarrow> (opt_list f, s'))
      else
        let s1 = (if living (li_base i) c
                  then (send (terminate_process (li_late i) (child_cmd c)) s)\<lparr>lf_reaped := child_launch_token c # lf_reaped s\<rparr>
                  else s)
        in (case clean_published i c s1 of (ok, s2) \<Rightarrow> (if ok then [] else [ArtifactTeardown], s2)))"

fun shut_children :: "life_input \<Rightarrow> string list \<Rightarrow> life \<Rightarrow> life_fault list \<times> life" where
  "shut_children i [] s = ([], s)"
| "shut_children i (dir # dirs) s =
     (case (case child_at s dir of None \<Rightarrow> ([], s) | Some c \<Rightarrow> shut_child i c s) of
        (fs, s1) \<Rightarrow> (case shut_children i dirs s1 of (gs, s2) \<Rightarrow> (fs @ gs, s2)))"

text \<open>The custodies of other Weavers than temporary ones, whose custodies are joined with them.\<close>

fun shut_custodies :: "life_input \<Rightarrow> string list \<Rightarrow> life \<Rightarrow> life_fault list \<times> life" where
  "shut_custodies i [] s = ([], s)"
| "shut_custodies i (dir # dirs) s =
     (if is_temporary_runtime_dir (li_root i) dir then shut_custodies i dirs s
      else (case shut_custodies i dirs (shut_custody dir s) of
              (fs, s') \<Rightarrow> (opt_list (map_option CustodyTeardown (li_custody i dir)) @ fs, s')))"

text \<open>The members of a host that published an identity lose their artifacts.\<close>

fun shut_members :: "life_input \<Rightarrow> pool_member list \<Rightarrow> life \<Rightarrow> life_fault list \<times> life" where
  "shut_members i [] s = ([], s)"
| "shut_members i (mb # ms) s =
     (case (if id_weaver (pm_identity mb) = [] then (True, s) else clean_artifacts i (pm_world mb) (pm_identity mb) s) of
        (ok, s1) \<Rightarrow> (case shut_members i ms s1 of (fs, s2) \<Rightarrow> ((if ok then [] else [ArtifactTeardown]) @ fs, s2)))"

text \<open>\<open>stopPoolProcess\<close>.\<close>

definition stop_host :: "life_input \<Rightarrow> weaver_host \<Rightarrow> life \<Rightarrow> life" where
  "stop_host i h s =
     (if host_cmd h = None \<or> \<not> env_alive (in_env (li_base i)) (host_pid h) then s
      else send (terminate_process False (host_cmd h) @ (if li_late i \<and> 0 < host_pid h then [ToPid (host_pid h) Kill] else [])) s)"

definition forget_host :: "string \<Rightarrow> life \<Rightarrow> life" where
  "forget_host pool = lift_mill (\<lambda>m. m\<lparr>pool_hosts := AList.delete pool (pool_hosts m)\<rparr>)"

fun shut_hosts :: "life_input \<Rightarrow> (string \<times> weaver_host) list \<Rightarrow> life \<Rightarrow> life_fault list \<times> life" where
  "shut_hosts i [] s = ([], s)"
| "shut_hosts i ((pool, h) # hs) s =
     (case shut_members i (host_members h) (stop_host i h s) of
        (fs, s1) \<Rightarrow>
          (case shut_hosts i hs (forget_host pool (removes [li_ready_path i pool] s1)) of (gs, s2) \<Rightarrow> (fs @ gs, s2)))"

text \<open>The section of \<open>stopAll\<close>.\<close>

definition stop_all_section :: "life_input \<Rightarrow> life \<Rightarrow> life_fault list \<times> life" where
  "stop_all_section i s =
     (case shut_custodies i (map fst (custodies (lf_mill s))) s of
        (fs, s1) \<Rightarrow>
          (case shut_hosts i (pool_hosts (lf_mill s1)) s1 of
             (gs, s2) \<Rightarrow>
               (case shut_children i (map fst (children (lf_mill s2))) s2 of (hs, s3) \<Rightarrow> (fs @ gs @ hs, s3))))"

text \<open>\<open>signalShutdown\<close>, the wait for the starts, and the section.\<close>

definition shut_arrive_act :: "life \<Rightarrow> life_result" where
  "shut_arrive_act s = (ShutJoin, lift_mill (\<lambda>m. m\<lparr>stopping := True\<rparr>) s)"

definition shut_join_act :: "life \<Rightarrow> life_result" where
  "shut_join_act s = (if lf_starting s = [] then ShutStop else ShutJoin, s)"

definition shut_stop_act :: "life_input \<Rightarrow> life \<Rightarrow> life_result" where
  "shut_stop_act i s = (case stop_all_section i s of (fs, s') \<Rightarrow> (Replied (if fs = [] then Reply [] else Fails fs), s'))"

section \<open>The machine\<close>

fun life_act :: "life_input \<Rightarrow> nat \<Rightarrow> life_phase \<Rightarrow> life \<Rightarrow> life_result" where
  "life_act i t (Arrive q) s = arrive_act t q s"
| "life_act i t (Attempt q) s = attempt_act i q s"
| "life_act i t (AwaitClaim q dir owner) s = await_claim_act i q dir owner s"
| "life_act i t (CheckMode q w) s = check_mode_act i q w s"
| "life_act i t (ChooseHost q w) s = choose_host_act i q w s"
| "life_act i t PooledStart s = (Replied (li_pooled i), s)"
| "life_act i t (CheckTransition q w) s = check_transition_act i q w s"
| "life_act i t (JoinRestart ident) s = join_restart_act i ident s"
| "life_act i t (CheckRecord q w) s = check_record_act i q w s"
| "life_act i t (AdmitStart q w) s = admit_start_act i t q w s"
| "life_act i t (PrepareStart q w) s = prepare_start_act i q w s"
| "life_act i t (MakeDirs q w name) s = make_dirs_act i q w name s"
| "life_act i t (EnterChild c) s = enter_child_act i c s"
| "life_act i t (StartChild c) s = start_child_act i t c s"
| "life_act i t (AwaitReady c) s = await_ready_act i c s"
| "life_act i t (KillStarted c f) s = kill_started_act i c f s"
| "life_act i t (DiscardStarted c fs) s = discard_started_act i c fs s"
| "life_act i t (PublishChild c st) s = publish_child_act c st s"
| "life_act i t (UndoDir w fs) s = undo_dir_act i w fs s"
| "life_act i t (ReleaseClaim dir ans) s = release_claim_act t dir ans s"
| "life_act i t StopArrive s = stop_arrive_act i s"
| "life_act i t (StopChoose w) s = stop_choose_act i w s"
| "life_act i t PooledStop s = (Replied (li_pooled i), s)"
| "life_act i t (StopClaim w) s = stop_claim_act w s"
| "life_act i t (StopWait dir owner) s = stop_wait_act dir owner s"
| "life_act i t (StopCheck w) s = stop_check_act w s"
| "life_act i t (StopSection w) s = stop_section_act i w s"
| "life_act i t ShutArrive s = shut_arrive_act s"
| "life_act i t ShutJoin s = shut_join_act s"
| "life_act i t ShutStop s = shut_stop_act i s"
| "life_act i t (Replied ans) s = (Replied ans, s)"

text \<open>A goroutine takes its next step; a start that is over leaves \<open>startWG\<close>.\<close>

definition enter_phase :: "nat \<Rightarrow> life_phase \<Rightarrow> life \<Rightarrow> life" where
  "enter_phase t ph s =
     s\<lparr>lf_phase := (lf_phase s)(t \<mapsto> ph),
       lf_starting := (case ph of Replied _ \<Rightarrow> filter (\<lambda>u. u \<noteq> t) (lf_starting s) | _ \<Rightarrow> lf_starting s)\<rparr>"

definition life_run :: "life_input \<Rightarrow> nat \<Rightarrow> life \<Rightarrow> life" where
  "life_run i t s =
     (case lf_phase s t of
        None \<Rightarrow> s
      | Some ph \<Rightarrow> (case life_act i t ph s of (ph', s') \<Rightarrow> enter_phase t ph' s'))"

text \<open>
  \<open>observeWeaverChild\<close>: the exit is reaped; a temporary Weaver is torn down once the claim of its start is released,
  if its entry is still its own, that is, of its token and, as the child is, temporary.
\<close>

definition observe_end :: "life_input \<Rightarrow> string \<Rightarrow> weaver_child \<Rightarrow> life \<Rightarrow> life" where
  "observe_end i token c s =
     (let s' = (case child_at s (w_config_dir (child_world c)) of
                  None \<Rightarrow> s
                | Some c' \<Rightarrow>
                    if child_launch_token c' = token \<and> child_temporary c' then snd (cleanup_temporary i c' s) else s)
      in s'\<lparr>lf_observers := (lf_observers s')(token \<mapsto> Settled)\<rparr>)"

definition observer_step :: "life_input \<Rightarrow> string \<Rightarrow> life \<Rightarrow> life" where
  "observer_step i token s =
     (case lf_observers s token of
        Some (Watching c t) \<Rightarrow>
          if li_exited i \<or> reaped s c then
            s\<lparr>lf_reaped := child_launch_token c # lf_reaped s,
              lf_observers := (lf_observers s)(token \<mapsto> if child_temporary c then Ended c t else Settled)\<rparr>
          else s
      | Some (Ended c t) \<Rightarrow>
          if lf_owner s (w_config_dir (child_world c)) = Some t then s else observe_end i token c s
      | _ \<Rightarrow> s)"

fun first_request :: "life_phase \<Rightarrow> bool" where
  "first_request (Arrive q) = True"
| "first_request StopArrive = True"
| "first_request ShutArrive = True"
| "first_request ph = False"

text \<open>
  The steps of the Mill: requests, the goroutines of starts and stops, the observers, restarts with their goroutines,
  and the work of process control and of pools on the maps they own.  Ids and directories are drawn fresh.
\<close>

inductive life_step :: "life \<Rightarrow> life \<Rightarrow> bool" where
  request: "lf_phase s t = None \<Longrightarrow> first_request ph \<Longrightarrow> life_step s (s\<lparr>lf_phase := (lf_phase s)(t \<mapsto> ph)\<rparr>)"
| act: "li_token i \<notin> set (lf_tokens s)
        \<Longrightarrow> (\<And>root ending. li_root i = Some root \<Longrightarrow> li_suffix i = Inr ending \<Longrightarrow> join_path [root, ''weavers'', temporary_prefix @ ending] \<notin> set (lf_dirs s))
        \<Longrightarrow> life_step s (life_run i t s)"
| observe: "life_step s (observer_step i token s)"
| admit: "ident \<notin> fst ` set (m_heap (lf_mill s))
          \<Longrightarrow> life_step s (lift_mill (\<lambda>m. snd (restart_admit b ident generation w m)) s)"
| restart: "token \<notin> set (lf_tokens s)
            \<Longrightarrow> life_step s ((lift_mill (run_step b token generation ident) s)\<lparr>lf_tokens := token # lf_tokens s\<rparr>)"
| others: "life_step s (lift_mill (\<lambda>m. m\<lparr>custodies := cs, pool_hosts := hs\<rparr>) s)"

definition life_start :: "life \<Rightarrow> bool" where
  "life_start s \<longleftrightarrow>
     initial (lf_mill s) \<and> children (lf_mill s) = [] \<and> m_claims (lf_mill s) = [] \<and> \<not> stopping (lf_mill s)
     \<and> lf_owner s = Map.empty \<and> lf_starting s = [] \<and> lf_observers s = Map.empty \<and> lf_dirs s = [] \<and> lf_phase s = Map.empty"

inductive reachable_life :: "life \<Rightarrow> bool" where
  start: "life_start s \<Longrightarrow> reachable_life s"
| step: "reachable_life s \<Longrightarrow> life_step s s' \<Longrightarrow> reachable_life s'"

end
