(* ===== verification/Life_Steps.thy ===== *)
theory Life_Steps
  imports Lifecycle
begin

text \<open>
  What the steps of the lifecycle machine do to the state of the restart machine: every section is made of the
  handler steps the restart machine allows, so the composed machine runs the restart machine.
\<close>

section \<open>Quiet changes\<close>

text \<open>
  A quiet change keeps the goroutines, the claims and the restarts; entries of children and directories may only go.
\<close>

definition quiet :: "life \<Rightarrow> life \<Rightarrow> bool" where
  "quiet s s' \<longleftrightarrow>
     lf_owner s' = lf_owner s \<and> lf_phase s' = lf_phase s \<and> lf_starting s' = lf_starting s \<and> lf_tokens s' = lf_tokens s
     \<and> m_claims (lf_mill s') = m_claims (lf_mill s) \<and> m_transitions (lf_mill s') = m_transitions (lf_mill s)
     \<and> m_heap (lf_mill s') = m_heap (lf_mill s) \<and> m_runs (lf_mill s') = m_runs (lf_mill s)
     \<and> stopping (lf_mill s') = stopping (lf_mill s)
     \<and> (\<forall>d. child_at s' d = child_at s d \<or> child_at s' d = None)
     \<and> set (lf_dirs s') \<subseteq> set (lf_dirs s)
     \<and> set (lf_reaped s) \<subseteq> set (lf_reaped s')
     \<and> handler_step\<^sup>*\<^sup>* (lf_mill s) (lf_mill s')"

named_theorems quiets

lemma quiet_refl [quiets, simp]: "quiet s s"
  by (simp add: quiet_def)

lemma quiet_trans: "quiet s1 s2 \<Longrightarrow> quiet s2 s3 \<Longrightarrow> quiet s1 s3"
  unfolding quiet_def by (metis (no_types, lifting) rtranclp_trans subset_trans)

lemma quietD:
  assumes "quiet s s'"
  shows "lf_owner s' = lf_owner s" "lf_phase s' = lf_phase s" "lf_starting s' = lf_starting s" "lf_tokens s' = lf_tokens s"
    "m_claims (lf_mill s') = m_claims (lf_mill s)" "m_transitions (lf_mill s') = m_transitions (lf_mill s)"
    "m_heap (lf_mill s') = m_heap (lf_mill s)" "stopping (lf_mill s') = stopping (lf_mill s)"
    "child_at s' d = child_at s d \<or> child_at s' d = None" "set (lf_dirs s') \<subseteq> set (lf_dirs s)"
    "handler_step\<^sup>*\<^sup>* (lf_mill s) (lf_mill s')"
  using assms by (simp_all add: quiet_def)

lemma quiet_send [quiets]: "quiet s (send sent s)"
  by (simp add: quiet_def send_def child_at_def)

lemma quiet_removes [quiets]: "quiet s (removes paths s)"
  by (simp add: quiet_def removes_def child_at_def)

lemma quiet_reaped [quiets]: "quiet s (s\<lparr>lf_reaped := k # lf_reaped s\<rparr>)"
  by (auto simp: quiet_def child_at_def)

lemma quiet_note [quiets]: "quiet s (s\<lparr>lf_cleanup := f\<rparr>)"
  by (simp add: quiet_def child_at_def)

lemma quiet_shut [quiets]: "quiet s (s\<lparr>lf_shut := f\<rparr>)"
  by (simp add: quiet_def child_at_def)

lemma quiet_observers [quiets]: "quiet s (s\<lparr>lf_observers := f\<rparr>)"
  by (simp add: quiet_def child_at_def)

lemma handler_others: "handler_step m (m\<lparr>custodies := cs, pool_hosts := hs\<rparr>)"
  using handler_step.others [where m = m and cs = cs and hs = hs and b = "stopping m"] by simp

lemma handler_custodies: "handler_step m (m\<lparr>custodies := cs\<rparr>)"
  using handler_others [where m = m and cs = cs and hs = "pool_hosts m"] by simp

lemma handler_hosts: "handler_step m (m\<lparr>pool_hosts := hs\<rparr>)"
  using handler_others [where m = m and cs = "custodies m" and hs = hs] by simp

lemma quiet_custodies [quiets]: "quiet s (lift_mill (\<lambda>m. m\<lparr>custodies := cs m\<rparr>) s)"
  using handler_custodies [of "lf_mill s" "cs (lf_mill s)"] by (auto simp: quiet_def lift_mill_def child_at_def)

lemma quiet_shut_custody [quiets]: "quiet s (shut_custody dir s)"
proof (cases "map_of (custodies (lf_mill s)) dir")
  case None
  then show ?thesis by (simp add: shut_custody_def lift_mill_def)
next
  case (Some cu)
  then show ?thesis
    using quiet_trans [OF quiet_custodies [of s "\<lambda>m. AList.update dir (shutdown_begin cu) (custodies m)"] quiet_shut]
    by (simp add: shut_custody_def)
qed

lemma quiet_hosts [quiets]: "quiet s (forget_host pool s)"
  using handler_hosts [of "lf_mill s" "AList.delete pool (pool_hosts (lf_mill s))"]
  by (auto simp: quiet_def forget_host_def lift_mill_def child_at_def)

lemma child_at_lift [simp]: "child_at (lift_mill f s) d = map_of (children (f (lf_mill s))) d"
  by (simp add: child_at_def lift_mill_def)

lemma quiet_drop [quiets]: "quiet s (lift_mill (\<lambda>m. m\<lparr>children := AList.delete dir (children m)\<rparr>) s)"
  using handler_step.gone [of "lf_mill s" dir]
  by (auto simp: quiet_def lift_mill_def child_at_def delete_conv')

lemma quiet_forget [quiets]: "quiet s (forget_temporary c s)"
proof -
  let ?s = "lift_mill (\<lambda>m. m\<lparr>custodies := AList.delete (w_state_dir (child_world c)) (custodies m)\<rparr>) s"
  have "forget_temporary c s = lift_mill (\<lambda>m. m\<lparr>children := AList.delete (w_config_dir (child_world c)) (children m)\<rparr>) ?s"
    by (simp add: forget_temporary_def lift_mill_def)
  then show ?thesis using quiet_trans [OF quiet_custodies quiet_drop] by simp
qed

lemma quiet_release [quiets]: "quiet s (lift_mill (\<lambda>m. snd (release_child dir c m)) s)"
proof (cases "fst (release_child dir c (lf_mill s))")
  case True
  then have "lift_mill (\<lambda>m. snd (release_child dir c m)) s = lift_mill (\<lambda>m. m\<lparr>children := AList.delete dir (children m)\<rparr>) s"
    by (auto simp: release_child_def lift_mill_def split: option.splits)
  then show ?thesis by (simp add: quiet_drop)
next
  case False
  then have "lift_mill (\<lambda>m. snd (release_child dir c m)) s = s"
    by (auto simp: release_child_def lift_mill_def split: option.splits)
  then show ?thesis by simp
qed

lemma quiet_dirs [quiets]: "quiet s (s\<lparr>lf_dirs := filter P (lf_dirs s)\<rparr>)"
  by (auto simp: quiet_def child_at_def)

lemma quiet_remove_world: "quiet s (snd (remove_temporary_world i w s))"
  using quiet_trans [OF quiet_removes quiet_dirs]
  by (simp add: remove_temporary_world_def Let_def quiet_removes)

lemma quiet_signalled [quiets]: "quiet s ((send sent s)\<lparr>lf_reaped := k # lf_reaped s\<rparr>)"
  by (auto simp: quiet_def send_def child_at_def)

lemma quiet_stop_started [quiets]: "quiet s (stop_started_child i c s)"
proof (cases "reaped s c \<or> child_cmd c = None")
  case False
  then obtain pid where "child_cmd c = Some pid" "\<not> reaped s c" by auto
  then show ?thesis
    using quiet_signalled [where s = s and sent = "terminate_process (li_late i) (Some pid)" and k = "child_launch_token c"]
    by (simp add: stop_started_child_def)
qed (auto simp: stop_started_child_def split: option.split)

lemma quiet_clean_artifacts: "quiet s (snd (clean_artifacts i w who s))"
  by (simp add: clean_artifacts_def quiet_removes split: prod.split)

lemma quiet_clean_published: "quiet s (snd (clean_published i c s))"
  by (simp add: clean_published_def quiet_clean_artifacts)

lemma quiet_cleanup: "quiet s (snd (cleanup_temporary i c s))"
proof -
  obtain ok s2 where p: "clean_published i c (shut_custody (w_state_dir (child_world c)) s) = (ok, s2)" by fastforce
  obtain f s3 where r: "remove_temporary_world i (child_world c) s2 = (f, s3)" by fastforce
  have 2: "quiet s s2"
    using quiet_trans [OF quiet_shut_custody quiet_clean_published] by (metis p snd_conv)
  have 3: "quiet s s3"
    using quiet_trans [OF 2 quiet_remove_world] by (metis r snd_conv)
  show ?thesis
    using quiet_shut_custody 2 3 quiet_trans [OF 3 quiet_forget]
    by (auto simp: cleanup_temporary_def Let_def p r intro!: quiet_trans [OF _ quiet_note] split: option.split)
qed

lemma quiet_check_mode: "quiet s (snd (check_start_mode i w temporary s))"
  by (auto simp: check_start_mode_def quiet_cleanup split: option.split)

section \<open>Goroutines\<close>

text \<open>The workspace whose claim a phase holds.\<close>

fun claimed :: "life_phase \<Rightarrow> string option" where
  "claimed (PrepareStart q w) = Some (w_config_dir w)"
| "claimed (MakeDirs q w name) = Some (w_config_dir w)"
| "claimed (EnterChild c) = Some (w_config_dir (child_world c))"
| "claimed (StartChild c) = Some (w_config_dir (child_world c))"
| "claimed (AwaitReady c) = Some (w_config_dir (child_world c))"
| "claimed (KillStarted c f) = Some (w_config_dir (child_world c))"
| "claimed (DiscardStarted c fs) = Some (w_config_dir (child_world c))"
| "claimed (PublishChild c st) = Some (w_config_dir (child_world c))"
| "claimed (UndoDir w fs) = Some (w_config_dir w)"
| "claimed (ReleaseClaim dir ans) = Some dir"
| "claimed ph = None"

text \<open>
  What a step of a goroutine does besides quiet changes: it installs a claim, registers or updates its child, makes a
  directory, counts a start, or closes the Mill.
\<close>

lemma quiet_stop_unsupervised: "quiet s (snd (stop_unsupervised i w s))"
proof -
  note q = quiet_clean_artifacts quiet_removes quiet_trans [OF quiet_send quiet_removes]
  obtain v b where v: "read_status (li_base i) (in_metadata (li_base i)) (lf_mill s) w = (v, b)" by fastforce
  show ?thesis
  proof (cases v)
    case None
    then show ?thesis by (simp add: stop_unsupervised_def v)
  next
    case (Some st)
    show ?thesis
    proof (cases b)
      case True
      have c': "clean_artifacts i w who s = (ok, s') \<Longrightarrow> quiet s s'" for who ok s'
        using quiet_clean_artifacts [of s i w who] by simp
      show ?thesis
        by (auto simp: stop_unsupervised_def v Some True quiet_removes split: sum.split prod.split dest: c')
    next
      case False
      then show ?thesis
        by (auto simp: stop_unsupervised_def v Some Let_def intro: quiet_trans [OF quiet_send quiet_removes]
            split: sum.split prod.split option.split)
    qed
  qed
qed

lemma quiet_stop_temporary: "quiet s (snd (stop_temporary i c s))"
proof -
  obtain f s' where c: "cleanup_temporary i c (stop_started_child i c s) = (f, s')" by fastforce
  have "quiet s s'" using quiet_trans [OF quiet_stop_started quiet_cleanup] by (metis c snd_conv)
  then show ?thesis by (simp add: stop_temporary_def c split: option.split)
qed

lemma quiet_stop_supervised: "quiet s (snd (stop_supervised i w c s))"
proof -
  let ?s = "(send (terminate_process (li_late i) (child_cmd c)) s)\<lparr>lf_reaped := child_launch_token c # lf_reaped s\<rparr>"
  obtain ok s2 where c: "clean_artifacts i (child_world c) (child_identity c) ?s = (ok, s2)" by fastforce
  have "quiet s s2" using quiet_trans [OF quiet_signalled quiet_clean_artifacts] by (metis c snd_conv)
  then show ?thesis using quiet_trans [OF _ quiet_drop] by (simp add: stop_supervised_def Let_def c split: bool.split)
qed

lemma quiet_stop_section: "quiet s (snd (stop_section i w s))"
  using quiet_stop_temporary quiet_stop_supervised quiet_trans [OF quiet_drop quiet_stop_unsupervised]
    quiet_stop_unsupervised [of "lift_mill (\<lambda>m. m\<lparr>children := AList.delete (w_config_dir w) (children m)\<rparr>) s" i w]
  by (auto simp: stop_section_def Let_def split: option.split)

lemma quiet_shut_child: "quiet s (snd (shut_child i c s))"
proof (cases "child_temporary c")
  case True
  obtain f s' where c: "cleanup_temporary i c (stop_started_child i c s) = (f, s')" by fastforce
  have "quiet s s'" using quiet_trans [OF quiet_stop_started quiet_cleanup] by (metis c snd_conv)
  then show ?thesis by (simp add: shut_child_def True c)
next
  case False
  let ?s = "if living (li_base i) c
    then (send (terminate_process (li_late i) (child_cmd c)) s)\<lparr>lf_reaped := child_launch_token c # lf_reaped s\<rparr> else s"
  have "quiet s ?s" by (simp add: quiet_signalled)
  then have "quiet s (snd (clean_published i c ?s))" by (rule quiet_trans [OF _ quiet_clean_published])
  moreover obtain ok s2 where "clean_published i c ?s = (ok, s2)" by fastforce
  ultimately show ?thesis using False by (simp add: shut_child_def Let_def)
qed

lemma quiet_shut_children: "quiet s (snd (shut_children i dirs s))"
proof (induction dirs arbitrary: s)
  case (Cons dir dirs)
  obtain fs s1 where 1: "(case child_at s dir of None \<Rightarrow> ([], s) | Some c \<Rightarrow> shut_child i c s) = (fs, s1)" by fastforce
  have "quiet s s1" using 1 quiet_shut_child [of s i] by (auto split: option.splits) (metis snd_conv)
  then show ?case
    using quiet_trans [OF _ Cons.IH [of s1]] unfolding shut_children.simps 1 by (simp split: prod.split) (metis snd_conv)
qed simp

lemma quiet_shut_custodies: "quiet s (snd (shut_custodies i dirs s))"
proof (induction dirs arbitrary: s)
  case (Cons d dirs)
  then show ?case
    using quiet_trans [OF quiet_shut_custody Cons.IH, of s d] by (simp add: split: prod.split) (metis snd_conv)
qed simp

lemma quiet_shut_members: "quiet s (snd (shut_members i ms s))"
proof (induction ms arbitrary: s)
  case (Cons mb ms)
  obtain ok s1 where 1: "(if id_weaver (pm_identity mb) = [] then (True, s)
      else clean_artifacts i (pm_world mb) (pm_identity mb) s) = (ok, s1)" by fastforce
  have "quiet s s1" using 1 quiet_clean_artifacts [of s i "pm_world mb" "pm_identity mb"] by (auto split: if_splits)
  then show ?case
    using quiet_trans [OF _ Cons.IH [of s1]] unfolding shut_members.simps 1 by (simp split: prod.split) (metis snd_conv)
qed simp

lemma quiet_stop_host: "quiet s (stop_host i h s)"
  by (simp add: stop_host_def quiet_send)

lemma quiet_shut_hosts: "quiet s (snd (shut_hosts i hs s))"
proof (induction hs arbitrary: s)
  case (Cons x hs)
  obtain pool h where x: "x = (pool, h)" by fastforce
  obtain fs s1 where 1: "shut_members i (host_members h) (stop_host i h s) = (fs, s1)" by fastforce
  have "quiet s s1" using quiet_trans [OF quiet_stop_host quiet_shut_members] by (metis 1 snd_conv)
  then have 2: "quiet s (forget_host pool (removes [li_ready_path i pool] s1))"
    by (meson quiet_trans quiet_removes quiet_hosts)
  then show ?case using quiet_trans [OF 2 Cons.IH] by (simp add: x 1 split: prod.split) (metis snd_conv)
qed simp

lemma quiet_stop_all: "quiet s (snd (stop_all_section i s))"
proof -
  obtain fs s1 where 1: "shut_custodies i (map fst (custodies (lf_mill s))) s = (fs, s1)" by fastforce
  obtain gs s2 where 2: "shut_hosts i (pool_hosts (lf_mill s1)) s1 = (gs, s2)" by fastforce
  have "quiet s s1" using quiet_shut_custodies by (metis 1 snd_conv)
  moreover have "quiet s1 s2" using quiet_shut_hosts by (metis 2 snd_conv)
  moreover have "quiet s2 (snd (shut_children i (map fst (children (lf_mill s2))) s2))" by (rule quiet_shut_children)
  ultimately have "quiet s (snd (shut_children i (map fst (children (lf_mill s2))) s2))" by (meson quiet_trans)
  then show ?thesis by (simp add: stop_all_section_def 1 2 case_prod_beta)
qed

text \<open>The same facts for the results of the operations.\<close>

lemma quiet_results:
  "check_start_mode i w b s = (f, s') \<Longrightarrow> quiet s s'"
  "cleanup_temporary i c s = (f, s') \<Longrightarrow> quiet s s'"
  "remove_temporary_world i w s = (f, s') \<Longrightarrow> quiet s s'"
  "clean_published i c s = (ok, s') \<Longrightarrow> quiet s s'"
  "stop_section i w s = (ans, s') \<Longrightarrow> quiet s s'"
  "stop_all_section i s = (fs, s') \<Longrightarrow> quiet s s'"
  using quiet_check_mode [of s i w b] quiet_cleanup [of s i c] quiet_remove_world [of s i w] quiet_clean_published [of s i c]
    quiet_stop_section [of s i w] quiet_stop_all [of s i]
  by simp_all

text \<open>
  A step of a goroutine is quiet, but for the ones that follow: counting a start, installing or releasing a claim,
  making a directory, drawing a token, entering or updating the child, and closing the Mill.
\<close>

fun loud :: "life_phase \<Rightarrow> bool" where
  "loud (Arrive q) = True"
| "loud (AdmitStart q w) = True"
| "loud (PrepareStart q w) = True"
| "loud (MakeDirs q w name) = True"
| "loud (EnterChild c) = True"
| "loud (StartChild c) = True"
| "loud (PublishChild c st) = True"
| "loud (ReleaseClaim dir ans) = True"
| "loud ShutArrive = True"
| "loud ph = False"

named_theorems acts

lemmas [acts] = refuse_def attempt_act_def await_claim_act_def check_mode_act_def choose_host_act_def transition_answer_def
  check_transition_act_def join_restart_act_def check_record_act_def undo_start_def await_ready_act_def kill_started_act_def
  discard_started_act_def undo_dir_act_def stop_arrive_act_def stop_choose_act_def stop_claim_act_def stop_wait_act_def
  stop_check_act_def stop_section_act_def shut_join_act_def shut_stop_act_def

lemma quiet_act:
  assumes "life_act i t ph s = (ph', s')" "\<not> loud ph"
  shows "quiet s s' \<and> claimed ph' = claimed ph"
proof (cases ph)
  case (DiscardStarted c fs)
  let ?dir = "w_config_dir (child_world c)"
  let ?s = "lift_mill (\<lambda>m. m\<lparr>children := AList.delete ?dir (children m)\<rparr>) s"
  have p: "clean_published i c' ?s = (ok, s2) \<Longrightarrow> quiet s s2" for c' ok s2
    using quiet_trans [OF quiet_drop quiet_results(4)] by blast
  then show ?thesis
    using assms by (auto simp: DiscardStarted discard_started_act_def Let_def split: option.splits if_splits prod.splits
        dest: quiet_results(2))
qed (use assms in \<open>auto simp: acts Let_def quiet_send quiet_stop_started dest: quiet_results
       split: sum.splits option.splits if_splits prod.splits bool.splits\<close>)

text \<open>The loud steps.\<close>

lemma transition_at_free: "mill_ok (lf_mill s) \<Longrightarrow> transition_at s dir = None \<Longrightarrow> map_of (m_transitions (lf_mill s)) dir = None"
  by (auto simp: transition_at_def elim: mill_ok_registered split: option.splits)

lemma admit_start_cases [consumes 1]:
  assumes "admit_start_act i t q w s = (ph', s')"
  obtains (quiet) "quiet s s'" "claimed ph' = None"
    | (claim) s1 where "quiet s s1" "ph' = PrepareStart q w" "s' = install_claim t (w_config_dir w) s1"
        "lf_owner s (w_config_dir w) = None" "transition_at s1 (w_config_dir w) = None"
        "check_start_mode i w (q_temporary q) s = (None, s1)"
proof -
  obtain f s1 where c: "check_start_mode i w (q_temporary q) s = (f, s1)" by fastforce
  note q = quiet_results(1) [OF c]
  show thesis
    using assms q that
    by (auto simp: admit_start_act_def Let_def c refuse_def transition_answer_def split: option.splits if_splits prod.splits)
qed

section \<open>Claims\<close>

text \<open>
  The entries of \<open>startClaims\<close> are the claims of the goroutines in the phases under a claim, and of no others.
\<close>

definition life_ok :: "life \<Rightarrow> bool" where
  "life_ok s \<longleftrightarrow>
     (\<forall>t ph dir. lf_phase s t = Some ph \<longrightarrow> claimed ph = Some dir \<longrightarrow> lf_owner s dir = Some t)
     \<and> (\<forall>dir t. lf_owner s dir = Some t \<longrightarrow> (\<exists>ph. lf_phase s t = Some ph \<and> claimed ph = Some dir))
     \<and> (\<forall>dir. dir \<in> set (m_claims (lf_mill s)) \<longleftrightarrow> lf_owner s dir \<noteq> None)"

lemma life_okD:
  assumes "life_ok s"
  shows "lf_phase s t = Some ph \<Longrightarrow> claimed ph = Some dir \<Longrightarrow> lf_owner s dir = Some t"
    and "lf_owner s dir = Some t \<Longrightarrow> \<exists>ph. lf_phase s t = Some ph \<and> claimed ph = Some dir"
    and "dir \<in> set (m_claims (lf_mill s)) \<longleftrightarrow> lf_owner s dir \<noteq> None"
  using assms unfolding life_ok_def by blast+

lemma life_okI:
  assumes "\<And>t ph dir. lf_phase s t = Some ph \<Longrightarrow> claimed ph = Some dir \<Longrightarrow> lf_owner s dir = Some t"
    and "\<And>dir t. lf_owner s dir = Some t \<Longrightarrow> \<exists>ph. lf_phase s t = Some ph \<and> claimed ph = Some dir"
    and "\<And>dir. dir \<in> set (m_claims (lf_mill s)) \<longleftrightarrow> lf_owner s dir \<noteq> None"
  shows "life_ok s"
  using assms unfolding life_ok_def by blast

lemma life_ok_cong:
  assumes "life_ok s" "lf_owner s' = lf_owner s" "lf_phase s' = lf_phase s" "m_claims (lf_mill s') = m_claims (lf_mill s)"
  shows "life_ok s'"
  using assms(1) unfolding life_ok_def assms(2-4) .

lemma enter_phase_simps [simp]:
  "lf_mill (enter_phase t ph s) = lf_mill s" "lf_owner (enter_phase t ph s) = lf_owner s"
  "lf_phase (enter_phase t ph s) = (lf_phase s)(t \<mapsto> ph)" "lf_dirs (enter_phase t ph s) = lf_dirs s"
  "lf_tokens (enter_phase t ph s) = lf_tokens s" "child_at (enter_phase t ph s) d = child_at s d"
  "lf_observers (enter_phase t ph s) = lf_observers s" "lf_reaped (enter_phase t ph s) = lf_reaped s"
  by (simp_all add: enter_phase_def child_at_def)

lemma life_ok_enter:
  assumes "life_ok s" "lf_owner s' = lf_owner s" "lf_phase s' = lf_phase s" "m_claims (lf_mill s') = m_claims (lf_mill s)"
    "lf_phase s t = Some ph" "claimed ph' = claimed ph"
  shows "life_ok (enter_phase t ph' s')"
proof (rule life_okI)
  fix u q dir assume "lf_phase (enter_phase t ph' s') u = Some q" "claimed q = Some dir"
  then show "lf_owner (enter_phase t ph' s') dir = Some u"
    using life_okD(1) [OF assms(1)] assms(2,3,5,6) by (cases "u = t") auto
next
  fix dir u assume "lf_owner (enter_phase t ph' s') dir = Some u"
  then obtain q where "lf_phase s u = Some q" "claimed q = Some dir"
    using life_okD(2) [OF assms(1)] assms(2) by fastforce
  then show "\<exists>q. lf_phase (enter_phase t ph' s') u = Some q \<and> claimed q = Some dir"
    using assms(3,5,6) by (cases "u = t") auto
next
  fix dir show "dir \<in> set (m_claims (lf_mill (enter_phase t ph' s'))) \<longleftrightarrow> lf_owner (enter_phase t ph' s') dir \<noteq> None"
    using life_okD(3) [OF assms(1)] assms(2,4) by simp
qed

text \<open>Every step but the two that install and release a claim leaves the claims and the phases alone.\<close>

fun claiming :: "life_phase \<Rightarrow> bool" where
  "claiming (AdmitStart q w) = True"
| "claiming (ReleaseClaim dir ans) = True"
| "claiming ph = False"

lemma release_child_claims [simp]:
  "m_claims (snd (release_child dir c m)) = m_claims m" "stopping (snd (release_child dir c m)) = stopping m"
  by (auto simp: release_child_def split: option.split)

lemma update_child_claims [simp]:
  "m_claims (update_child dir c m) = m_claims m" "stopping (update_child dir c m) = stopping m"
  by (auto simp: update_child_def split: option.split)

lemma lift_mill_simps [simp]:
  "lf_mill (lift_mill f s) = f (lf_mill s)" "lf_owner (lift_mill f s) = lf_owner s" "lf_phase (lift_mill f s) = lf_phase s"
  "lf_dirs (lift_mill f s) = lf_dirs s" "lf_tokens (lift_mill f s) = lf_tokens s" "lf_starting (lift_mill f s) = lf_starting s"
  "lf_observers (lift_mill f s) = lf_observers s" "lf_reaped (lift_mill f s) = lf_reaped s"
  by (simp_all add: lift_mill_def)

lemmas loud_defs = arrive_act_def prepare_start_act_def make_dirs_act_def enter_child_act_def start_child_act_def
  publish_child_act_def shut_arrive_act_def undo_start_def refuse_def fresh_child_def temporary_world_def

lemma life_act_claims:
  assumes "life_act i t ph s = (ph', s')" "\<not> claiming ph"
  shows "lf_owner s' = lf_owner s \<and> lf_phase s' = lf_phase s \<and> m_claims (lf_mill s') = m_claims (lf_mill s) \<and> claimed ph' = claimed ph"
proof (cases "loud ph")
  case False
  from quiet_act [OF assms(1) this] show ?thesis using quietD(1,2,5) by blast
next
  case True
  then show ?thesis
    using assms by (cases ph) (auto simp: loud_defs Let_def split: if_splits sum.splits option.splits)
qed

lemma life_ok_run:
  assumes ok: "life_ok s"
  shows "life_ok (life_run i t s)"
proof (cases "lf_phase s t")
  case None
  then show ?thesis using ok by (simp add: life_run_def)
next
  case p: (Some ph)
  obtain ph' s' where a: "life_act i t ph s = (ph', s')" by fastforce
  have r: "life_run i t s = enter_phase t ph' s'" by (simp add: life_run_def p a)
  show ?thesis
  proof (cases "claiming ph")
    case False
    from life_act_claims [OF a this] show ?thesis unfolding r using life_ok_enter [OF ok _ _ _ p] by blast
  next
    case True
    then consider q w where "ph = AdmitStart q w" | dir ans where "ph = ReleaseClaim dir ans" by (cases ph) auto
    then show ?thesis
    proof cases
      case 1
      from a have "admit_start_act i t q w s = (ph', s')" by (simp add: 1)
      then show ?thesis
      proof (cases rule: admit_start_cases)
        case quiet
        then show ?thesis unfolding r by (intro life_ok_enter [OF ok _ _ _ p]) (simp_all add: quietD 1)
      next
        case (claim s1)
        note q = quietD [OF claim(1)]
        show ?thesis
          unfolding r claim(2,3)
        proof (rule life_okI)
          fix u q' dir assume u: "lf_phase (enter_phase t (PrepareStart q w) (install_claim t (w_config_dir w) s1)) u = Some q'" "claimed q' = Some dir"
          show "lf_owner (enter_phase t (PrepareStart q w) (install_claim t (w_config_dir w) s1)) dir = Some u"
            using u life_okD(1) [OF ok, of u q' dir] claim(4) q(1,2) by (cases "u = t") (auto simp: install_claim_def)
        next
          fix dir u assume u: "lf_owner (enter_phase t (PrepareStart q w) (install_claim t (w_config_dir w) s1)) dir = Some u"
          show "\<exists>q'. lf_phase (enter_phase t (PrepareStart q w) (install_claim t (w_config_dir w) s1)) u = Some q' \<and> claimed q' = Some dir"
            using u life_okD(2) [OF ok, of dir u] q(1,2) p 1
            by (cases "dir = w_config_dir w") (auto simp: install_claim_def)
        next
          fix dir
          show "dir \<in> set (m_claims (lf_mill (enter_phase t (PrepareStart q w) (install_claim t (w_config_dir w) s1))))
              \<longleftrightarrow> lf_owner (enter_phase t (PrepareStart q w) (install_claim t (w_config_dir w) s1)) dir \<noteq> None"
            using life_okD(3) [OF ok, of dir] q(1,5) by (auto simp: install_claim_def)
        qed
      qed
    next
      case 2
      have own: "lf_owner s dir = Some t" using life_okD(1) [OF ok p] by (simp add: 2)
      have s': "ph' = Replied ans" "lf_owner s' = (lf_owner s)(dir := None)" "lf_phase s' = lf_phase s"
        "m_claims (lf_mill s') = filter (\<lambda>d. d \<noteq> dir) (m_claims (lf_mill s))"
        using a own by (auto simp: 2 release_claim_act_def)
      show ?thesis
        unfolding r
      proof (rule life_okI)
        fix u q' d assume "lf_phase (enter_phase t ph' s') u = Some q'" "claimed q' = Some d"
        then show "lf_owner (enter_phase t ph' s') d = Some u"
          using life_okD(1) [OF ok, of u q' d] own s' by (cases "u = t") auto
      next
        fix d u assume "lf_owner (enter_phase t ph' s') d = Some u"
        then show "\<exists>q'. lf_phase (enter_phase t ph' s') u = Some q' \<and> claimed q' = Some d"
          using life_okD(2) [OF ok, of d u] s' p 2 by (cases "d = dir") auto
      next
        fix d show "d \<in> set (m_claims (lf_mill (enter_phase t ph' s'))) \<longleftrightarrow> lf_owner (enter_phase t ph' s') d \<noteq> None"
          using life_okD(3) [OF ok, of d] s' by auto
      qed
    qed
  qed
qed

section \<open>The restart machine inside\<close>

lemma claimed_steps:
  assumes "dir \<in> set (m_claims m)"
  shows "handler_step\<^sup>*\<^sup>* m (m\<lparr>children := AList.update dir c (children m)\<rparr>)"
  using handler_step.claimed [OF assms] by blast

lemma update_child_steps':
  assumes "dir \<in> set (m_claims m)"
  shows "handler_step\<^sup>*\<^sup>* m (update_child dir c m)"
  using claimed_steps [OF assms] by (auto simp: update_child_def split: option.split)

lemma stopping_step: "handler_step\<^sup>*\<^sup>* m (m\<lparr>stopping := b\<rparr>)"
  using handler_step.others [where m = m and cs = "custodies m" and hs = "pool_hosts m" and b = b] by simp

lemma act_mill:
  assumes a: "life_act i t ph s = (ph', s')" and ok: "life_ok s" and mok: "mill_ok (lf_mill s)" and p: "lf_phase s t = Some ph"
  shows "handler_step\<^sup>*\<^sup>* (lf_mill s) (lf_mill s')"
proof (cases "loud ph")
  case False
  from quiet_act [OF a this] show ?thesis using quietD(11) by blast
next
  case True
  have mine: "dir \<in> set (m_claims (lf_mill s))" if "claimed ph = Some dir" for dir
    using life_okD(1) [OF ok p that] life_okD(3) [OF ok] by simp
  show ?thesis
  proof (cases ph)
    case (AdmitStart q w)
    from a have "admit_start_act i t q w s = (ph', s')" by (simp add: AdmitStart)
    then show ?thesis
    proof (cases rule: admit_start_cases)
      case quiet
      then show ?thesis using quietD(11) by blast
    next
      case (claim s1)
      note q = quietD [OF claim(1)]
      have "transition_at s (w_config_dir w) = None" using claim(5) unfolding transition_at_def q(6,7) .
      then have "map_of (m_transitions (lf_mill s1)) (w_config_dir w) = None" unfolding q(6) by (rule transition_at_free [OF mok])
      then have "handler_step (lf_mill s1) (lf_mill s')" by (simp add: claim(3) install_claim_def handler_step.claim)
      with q(11) show ?thesis by simp
    qed
  next
    case (EnterChild c)
    then show ?thesis using a claimed_steps [OF mine] by (auto simp: enter_child_act_def undo_start_def Let_def split: if_splits)
  next
    case (StartChild c)
    show ?thesis
      using a update_child_steps' [OF mine] quietD(11) [OF quiet_release, of s "w_config_dir (child_world c)" c]
      by (auto simp: StartChild start_child_act_def undo_start_def Let_def split: if_splits)
  next
    case (PublishChild c st)
    then show ?thesis using a update_child_steps' [OF mine] by (auto simp: publish_child_act_def Let_def)
  next
    case (ReleaseClaim dir ans)
    then show ?thesis
      using a handler_step.unclaim [of "lf_mill s" dir] by (auto simp: release_claim_act_def split: if_splits)
  next
    case ShutArrive
    then show ?thesis using a stopping_step by (auto simp: shut_arrive_act_def)
  qed (use True a in \<open>auto simp: loud_defs Let_def split: if_splits sum.splits option.splits\<close>)
qed

lemma run_mill:
  assumes "life_ok s" "mill_ok (lf_mill s)"
  shows "handler_step\<^sup>*\<^sup>* (lf_mill s) (lf_mill (life_run i t s))"
proof (cases "lf_phase s t")
  case None
  then show ?thesis by (simp add: life_run_def)
next
  case (Some ph)
  obtain ph' s' where a: "life_act i t ph s = (ph', s')" by fastforce
  then show ?thesis using act_mill [OF a assms Some] by (simp add: life_run_def Some a)
qed

lemma quiet_observe_end: "quiet s (observe_end i token c s)"
  by (auto simp: observe_end_def Let_def intro!: quiet_trans [OF _ quiet_observers] quiet_cleanup split: option.split)

lemma quiet_observer: "quiet s (observer_step i token s)"
proof -
  have "quiet s (s\<lparr>lf_reaped := r # lf_reaped s, lf_observers := f\<rparr>)" for r f
    using quiet_trans [OF quiet_reaped quiet_observers] by simp
  then show ?thesis
    by (auto simp: observer_step_def quiet_observe_end split: option.split observer.split)
qed

lemma run_step_claims: "mill_ok m \<Longrightarrow> m_claims (run_step i token generation ident m) = m_claims m"
proof (cases "\<exists>r e b. map_of (m_runs m) ident = Some (Completing r e b)")
  case True
  then obtain r e b where r: "map_of (m_runs m) ident = Some (Completing r e b)" by blast
  then show ?thesis
    by (cases "map_of (m_heap m) ident") (simp_all add: run_step_def complete_frame)
next
  case False
  then show ?thesis using claims_of_frame(1) [OF run_frame_plain] by blast
qed

lemma restart_fresh_claims: "m_claims (snd (restart_fresh i ident generation w m)) = m_claims m"
  unfolding restart_fresh_def Let_def
  by (simp add: put_phase_def put_transition_def split: sum.split prod.split option.split)

lemma restart_admit_claims: "m_claims (snd (restart_admit i ident generation w m)) = m_claims m"
  unfolding restart_admit_def Let_def by (simp add: restart_fresh_claims split: option.split prod.split)

text \<open>Steps of the lifecycle machine: what they are for the restart machine, and that they keep the claims.\<close>

lemma step_mill:
  assumes "life_step s s'" "life_ok s" "mill_ok (lf_mill s)"
  shows "mill_step\<^sup>*\<^sup>* (lf_mill s) (lf_mill s')"
proof -
  have up: "mill_step\<^sup>*\<^sup>* m m'" if "handler_step\<^sup>*\<^sup>* m m'" for m m'
    using that by (rule rtranclp_mono [THEN predicate2D, rotated]) (auto intro: mill_step.handler)
  show ?thesis
    using assms(1)
  proof cases
    case (request t ph)
    then show ?thesis by simp
  next
    case (act i t)
    then show ?thesis using up run_mill [OF assms(2,3)] by simp
  next
    case (observe i token)
    then show ?thesis using up quietD(11) [OF quiet_observer] by simp
  next
    case (admit ident b generation w)
    have "handler_step (lf_mill s) (lf_mill s')" unfolding admit(1) by (simp add: handler_step.admit admit(2))
    then show ?thesis by (intro r_into_rtranclp mill_step.handler)
  next
    case (restart token b generation ident)
    have "mill_step (lf_mill s) (lf_mill s')" unfolding restart(1) by (simp add: mill_step.run)
    then show ?thesis by (rule r_into_rtranclp)
  next
    case (others cs hs)
    have "handler_step (lf_mill s) (lf_mill s')" unfolding others by (simp add: handler_others)
    then show ?thesis by (intro r_into_rtranclp mill_step.handler)
  qed
qed

lemma step_life_ok:
  assumes "life_step s s'" "life_ok s" "mill_ok (lf_mill s)"
  shows "life_ok s'"
  using assms(1)
proof cases
  case (request t ph)
  then have none: "claimed ph = None" by (cases ph) auto
  show ?thesis
  proof (rule life_okI)
    fix u q dir assume "lf_phase s' u = Some q" "claimed q = Some dir"
    then show "lf_owner s' dir = Some u"
      using life_okD(1) [OF assms(2), of u q dir] request none by (cases "u = t") auto
  next
    fix dir u assume "lf_owner s' dir = Some u"
    then show "\<exists>q. lf_phase s' u = Some q \<and> claimed q = Some dir"
      using life_okD(2) [OF assms(2), of dir u] request by (cases "u = t") auto
  qed (use life_okD(3) [OF assms(2)] request in simp)
next
  case (act i t)
  then show ?thesis using life_ok_run [OF assms(2)] by simp
next
  case (observe i token)
  then show ?thesis using life_ok_cong [OF assms(2)] quietD(1,2,5) [OF quiet_observer] by simp
qed (use life_ok_cong [OF assms(2)] restart_admit_claims run_step_claims [OF assms(3)] in auto)

lemma mill_steps_ok: "mill_step\<^sup>*\<^sup>* m m' \<Longrightarrow> mill_ok m \<Longrightarrow> mill_ok m'"
  by (induction rule: rtranclp_induct) (auto intro: mill_step_ok)

lemma reachable_steps: "mill_step\<^sup>*\<^sup>* m m' \<Longrightarrow> reachable_mill m \<Longrightarrow> reachable_mill m'"
  by (induction rule: rtranclp_induct) (auto intro: reachable_mill.step)

lemma reachable_life_facts:
  assumes "reachable_life s"
  shows "reachable_mill (lf_mill s) \<and> life_ok s"
  using assms
proof induction
  case (start s)
  then show ?case by (auto simp: life_start_def life_ok_def intro: reachable_mill.start)
next
  case (step s s')
  then have r: "reachable_mill (lf_mill s)" and ok: "life_ok s" by auto
  then have m: "mill_ok (lf_mill s)" by (simp add: reachable_ok)
  show ?case
    using reachable_steps [OF step_mill [OF step.hyps(2) ok m] r] step_life_ok [OF step.hyps(2) ok m] by simp
qed

lemmas reachable_life_mill = reachable_life_facts [THEN conjunct1] and reachable_life_ok = reachable_life_facts [THEN conjunct2]

text \<open>The start claims are a table of locks, like the locks of the admission.\<close>

definition start_works :: "life \<Rightarrow> nat \<Rightarrow> string \<Rightarrow> bool" where
  "start_works s t dir \<longleftrightarrow> (case lf_phase s t of None \<Rightarrow> False | Some ph \<Rightarrow> claimed ph = Some dir)"

interpretation starting: lock_table life_ok start_works lf_owner
  by unfold_locales (auto simp: start_works_def dest: life_okD split: option.splits)

end
