(* ===== verification/Life_Temporary.thy ===== *)
theory Life_Temporary
  imports Life_Steps
begin

text \<open>
  Temporary Weavers over the lifecycle machine: their entries stay with the start that made them, restarts leave them
  alone, and the directory made for one is owned until it is removed.
\<close>

section \<open>What restarts do to the entries\<close>

text \<open>The child a transition has launched belongs to the workspace of the transition.\<close>

definition homes :: "mill \<Rightarrow> bool" where
  "homes m \<longleftrightarrow>
     (\<forall>ident ph c t. map_of (m_runs m) ident = Some ph \<longrightarrow> phase_child ph = Some c \<longrightarrow> map_of (m_heap m) ident = Some t \<longrightarrow>
        w_config_dir (child_world c) = w_config_dir (t_world t))"

lemma run_phase_child:
  assumes r: "map_of (m_runs m) ident = Some ph" and h: "map_of (m_heap m) ident = Some t"
    and n: "map_of (m_runs (run_step i token generation ident m)) ident = Some ph'" "phase_child ph' = Some c'"
  shows "child_world c' = t_world t \<or> (\<exists>c. phase_child ph = Some c \<and> child_world c' = child_world c)"
proof -
  have s: "m_runs m1 = m_runs m" if "set_transition_state i ident st p f t1 m = (ok, t', m1)" for st p f t1 ok t' m1
    using set_state_effect(3) [OF that] .
  have x: "m_runs (snd (stop_failed_replacement i c m)) = m_runs m" for c by simp
  show ?thesis
  proof (cases ph)
    case (Awaiting p c)
    obtain g m1 where e: "stop_failed_replacement i c m = (g, m1)" by fastforce
    show ?thesis
      using n by (auto simp: run_step_def r h Awaiting await_step_def Let_def e split: sum.splits if_splits)
  qed (use n in \<open>auto simp: run_step_def r h begin_step_def verify_step_def cut_over_step_def stop_step_def stopped_step_def
         release_step_def launch_step_def start_step_def publish_step_def probe_failing_step_def failing_step_def complete_step_def
         Let_def split: prod.splits option.splits if_splits dest: s\<close>)
qed

lemma homes_run:
  assumes m: "mill_ok m" and hm: "homes m"
  shows "homes (run_step i token generation ident m)"
proof (cases "map_of (m_runs m) ident")
  case None
  then show ?thesis using hm by (simp add: run_step_def)
next
  case r: (Some ph)
  from m r obtain t where h: "map_of (m_heap m) ident = Some t" and l: "local_ok t ph" by (rule mill_ok_run)
  show ?thesis
  proof (cases "ph = Finished")
    case True
    then show ?thesis using hm r run_idle by simp
  next
    case False
    from run_effect [OF r h l False, of i token generation] obtain t' ph' where
      e: "map_of (m_heap (run_step i token generation ident m)) = (map_of (m_heap m))(ident \<mapsto> t')"
         "map_of (m_runs (run_step i token generation ident m)) = (map_of (m_runs m))(ident \<mapsto> ph')" "t_world t' = t_world t"
      unfolding step_effect_def by blast
    show ?thesis
      unfolding homes_def
    proof (intro allI impI)
      fix x q c u
      assume a: "map_of (m_runs (run_step i token generation ident m)) x = Some q" "phase_child q = Some c"
        "map_of (m_heap (run_step i token generation ident m)) x = Some u"
      show "w_config_dir (child_world c) = w_config_dir (t_world u)"
      proof (cases "x = ident")
        case True
        with a e(1) have u: "u = t'" by simp
        from run_phase_child [OF r h] a True
        consider "child_world c = t_world t" | c0 where "phase_child ph = Some c0" "child_world c = child_world c0" by blast
        then show ?thesis using hm r h u e(3) unfolding homes_def by cases auto
      next
        case False
        then show ?thesis using a e(1,2) hm unfolding homes_def by auto
      qed
    qed
  qed
qed

lemma homes_admit:
  assumes "homes m" "map_of (m_heap m) ident = None" "mill_ok m"
  shows "homes (snd (restart_admit i ident generation w m))"
proof -
  note e = restart_admit_effect [of i ident generation w m]
  have "map_of (m_runs m) ident = None" using mill_ok_dom [OF assms(3)] assms(2) by simp
  then show ?thesis
    using e assms(1) unfolding homes_def by (auto split: if_splits)
qed

lemma homes_step:
  assumes "mill_step m m'" "mill_ok m" "homes m"
  shows "homes m'"
  using assms(1)
proof (cases rule: mill_step_elim)
  case (admit ident i generation w)
  then have "map_of (m_heap m) ident = None" by (simp add: map_of_eq_None_iff)
  then show ?thesis using homes_admit assms(2,3) admit by blast
next
  case (run i token generation ident)
  then show ?thesis using homes_run [OF assms(2,3)] by simp
qed (use assms(3) in \<open>simp_all add: homes_def\<close>)

lemma reachable_homes: "reachable_mill m \<Longrightarrow> homes m"
proof (induction rule: reachable_mill.induct)
  case (start m)
  then show ?case by (simp add: homes_def initial_def)
next
  case (step m m')
  then show ?case using homes_step reachable_ok by blast
qed

text \<open>
  An entry after a step of a restart: the one before, or another of a persistent Weaver, with the token the step drew
  or the token of the entry before.
\<close>

definition restart_entry :: "string \<Rightarrow> weaver_child option \<Rightarrow> weaver_child option \<Rightarrow> bool" where
  "restart_entry token c c' \<longleftrightarrow>
     c' = c \<or> lasting c \<and> lasting c'
       \<and> (\<forall>x. c' = Some x \<longrightarrow> child_launch_token x = token \<or> (\<exists>y. c = Some y \<and> child_launch_token x = child_launch_token y))"

lemma restart_entry_refl [simp]: "restart_entry token c c"
  by (simp add: restart_entry_def)

lemma release_entry:
  assumes "lasting (map_of (children m) dir)"
  shows "restart_entry token (map_of (children m) d) (map_of (children (snd (release_child dir c m))) d)"
  using assms by (cases "d = dir") (auto simp: restart_entry_def release_child_def delete_conv' split: option.split)

lemma update_entry:
  assumes "lasting (map_of (children m) dir)" "\<not> child_temporary c"
  shows "restart_entry token (map_of (children m) d) (map_of (children (update_child dir c m)) d)"
  using assms by (cases "d = dir") (auto simp: restart_entry_def update_child_def update_conv' split: option.split)

lemma stop_failed_entry:
  assumes "lasting (map_of (children m) (w_config_dir (child_world c)))"
  shows "restart_entry token (map_of (children m) d) (map_of (children (snd (stop_failed_replacement i c m))) d)"
proof -
  obtain gone m' where r: "release_child (w_config_dir (child_world c)) c m = (gone, m')" by fastforce
  then have m': "m' = snd (release_child (w_config_dir (child_world c)) c m)" by simp
  have "snd (stop_failed_replacement i c m) \<in> {m, m'}"
    by (auto simp: stop_failed_replacement_def Let_def r split: prod.splits sum.splits bool.splits)
  then show ?thesis using release_entry [OF assms] m' by auto
qed

lemma run_entries:
  assumes m: "mill_ok m" and p: "persistent m" and hm: "homes m"
  shows "restart_entry token (map_of (children m) d) (map_of (children (run_step i token generation ident m)) d)"
proof (cases "map_of (m_runs m) ident")
  case None
  then show ?thesis by (simp add: run_step_def)
next
  case r: (Some ph)
  from m r obtain t where h: "map_of (m_heap m) ident = Some t"
    and reg: "working ph \<Longrightarrow> map_of (m_transitions m) (w_config_dir (t_world t)) = Some ident"
    using mill_ok_run [OF m r] by metis
  have last: "lasting (map_of (children m) (w_config_dir (t_world t)))" if "working ph"
    using reg [OF that] p unfolding persistent_def by simp
  have mine: "lasting (phase_child ph)" using p r unfolding persistent_def by blast
  have s: "children m1 = children m" if "set_transition_state i ident st q f t1 m = (ok, t', m1)" for st q f t1 ok t' m1
    using set_state_children [OF that] .
  show ?thesis
  proof (cases ph)
    case (Releasing q)
    show ?thesis
      using last release_entry by (auto simp: run_step_def r h Releasing release_step_def working_def split: option.split)
  next
    case (Launching q)
    show ?thesis
      using last by (auto simp: run_step_def r h Launching launch_step_def Let_def working_def update_conv' restart_entry_def)
  next
    case (Starting q c)
    show ?thesis
      using last mine release_entry update_entry
      by (auto simp: run_step_def r h Starting start_step_def Let_def working_def)
  next
    case (Awaiting q c)
    have w: "w_config_dir (child_world c) = w_config_dir (t_world t)" using hm r h Awaiting unfolding homes_def by auto
    obtain g m1 where e: "stop_failed_replacement i c m = (g, m1)" by fastforce
    have l: "lasting (map_of (children m) (w_config_dir (t_world t)))" using last Awaiting by (simp add: working_def)
    have c: "\<not> child_temporary c" using mine Awaiting by simp
    have 1: "restart_entry token (map_of (children m) d) (map_of (children m1) d)"
      using stop_failed_entry [of m c token d i] l by (simp add: e w)
    have 2: "restart_entry token (map_of (children m) d) (map_of (children (update_child (w_config_dir (t_world t)) c' m)) d)"
      if "\<not> child_temporary c'" for c'
      by (rule update_entry [OF l that])
    show ?thesis
      using 1 2 c by (auto simp: run_step_def r h Awaiting await_step_def Let_def e split: sum.split)
  next
    case (Completing result err retain)
    have "children (complete_transition ident result err retain t m) = children m"
      by (simp add: complete_transition_def Let_def put_transition_def)
    then show ?thesis by (simp add: run_step_def r h Completing complete_step_def)
  next
    case Registered
    show ?thesis
      by (cases "set_transition_state i ident (t_state t) (if t_retry t then t_probe t else None) None t m")
         (auto simp: run_step_def r h Registered begin_step_def Let_def dest: s)
  next
    case Verifying
    show ?thesis by (auto simp: run_step_def r h Verifying verify_step_def split: option.split)
  next
    case (CutOver p)
    show ?thesis
      by (cases "set_transition_state i ident state_restarting (Some p) None t m")
         (auto simp: run_step_def r h CutOver cut_over_step_def dest: s)
  next
    case (Stopping p)
    show ?thesis by (auto simp: run_step_def r h Stopping stop_step_def split: prod.split option.split)
  next
    case (Stopped p)
    show ?thesis
      by (cases "set_transition_state i ident state_restarting (Some p) None t m")
         (auto simp: run_step_def r h Stopped stopped_step_def dest: s)
  next
    case (Publishing p c st)
    show ?thesis
      by (cases "set_transition_state i ident state_running (Some p) None (t\<lparr>t_generation := child_generation c\<rparr>) m")
         (auto simp: run_step_def r h Publishing publish_step_def Let_def dest: s)
  next
    case (ProbeFailing probe message)
    let ?p = "case probe of None \<Rightarrow> transport_probe (t_world t) message | Some p \<Rightarrow> p"
    show ?thesis
      by (cases "set_transition_state i ident state_running (Some ?p) (Some (plain_failure_of ''probe'' message [])) t m")
         (simp add: run_step_def r h ProbeFailing probe_failing_step_def Let_def s)
  next
    case (Failing stage message log dependency)
    show ?thesis
      by (cases "set_transition_state i ident state_failed None (Some (plain_failure_of stage message log)) t m")
         (simp add: run_step_def r h Failing failing_step_def Let_def s)
  next
    case Finished
    then show ?thesis using r by (simp add: run_idle)
  qed
qed

lemma fresh_entries: "restart_entry token (map_of (children m) d) (map_of (children (snd (restart_fresh i ident generation w m))) d)"
proof -
  let ?dir = "w_config_dir w"
  let ?m = "case map_of (children m) ?dir of None \<Rightarrow> m
    | Some c \<Rightarrow> if living i c then m else m\<lparr>children := AList.delete ?dir (children m)\<rparr>"
  show ?thesis
  proof (cases "case map_of (children m) ?dir of None \<Rightarrow> False | Some c \<Rightarrow> child_temporary c")
    case True
    then show ?thesis by (simp add: restart_fresh_def)
  next
    case False
    then have mine: "lasting (map_of (children m) ?dir)" by (simp add: lasting_def split: option.splits)
    have kept: "restart_entry token (map_of (children m) d) (map_of (children ?m) d)"
      using mine by (auto simp: restart_entry_def delete_conv' split: option.split)
    show ?thesis
    proof (cases "restart_subject i w ?m")
      case (Inl e)
      show ?thesis unfolding restart_fresh_def Let_def if_not_P [OF False] Inl using kept by simp
    next
      case (Inr found)
      obtain old retry where found: "found = (old, retry)" by fastforce
      have old: "map_of (children ?m) ?dir = Some c \<or> child_unsupervised c" if "old = Some c" for c
        using Inr that unfolding found restart_subject_def Let_def
        by (auto simp: adopt_def Let_def split: option.splits sum.splits if_splits)
      have same: "map_of (children ?m) ?dir = Some c \<Longrightarrow> map_of (children m) ?dir = Some c" for c
        by (auto simp: delete_conv' split: option.splits if_splits)
      have kids: "children (snd (restart_fresh i ident generation w m))
          = (case map_option (\<lambda>c. if child_generation c = [] then c\<lparr>child_generation := generation\<rparr> else c) old of
               Some c \<Rightarrow> if child_unsupervised c then children ?m else AList.update ?dir c (children ?m)
             | None \<Rightarrow> children ?m)"
        unfolding restart_fresh_def Let_def if_not_P [OF False] Inr found sum.case prod.case snd_conv
          put_phase_simps put_transition_simps by simp
      show ?thesis
      proof (cases old)
        case None
        then show ?thesis unfolding kids using kept by simp
      next
        case (Some c)
        then consider "child_unsupervised c" | "\<not> child_unsupervised c" "map_of (children m) ?dir = Some c" using old same by blast
        then show ?thesis
        proof cases
          case 1
          then show ?thesis unfolding kids Some using kept by simp
        next
          case 2
          have "\<not> child_temporary c" using mine 2 by simp
          then show ?thesis
            unfolding kids Some using kept 2 by (cases "d = ?dir") (auto simp: update_conv' restart_entry_def)
        qed
      qed
    qed
  qed
qed

lemma admit_entries: "restart_entry token (map_of (children m) d) (map_of (children (snd (restart_admit i ident generation w m))) d)"
  using fresh_entries [of token m d i ident generation w]
    fresh_entries [of token "m\<lparr>m_transitions := AList.delete (w_config_dir w) (m_transitions m)\<rparr>" d i ident generation w]
  by (simp add: restart_admit_def Let_def split: option.split)

section \<open>Entries and the children of the goroutines\<close>

fun held :: "life_phase \<Rightarrow> weaver_child option" where
  "held (EnterChild c) = Some c"
| "held (StartChild c) = Some c"
| "held (AwaitReady c) = Some c"
| "held (KillStarted c f) = Some c"
| "held (DiscardStarted c fs) = Some c"
| "held (PublishChild c st) = Some c"
| "held ph = None"

text \<open>Two views of one child: its identity, command and generation may be set in between.\<close>

definition same :: "weaver_child \<Rightarrow> weaver_child \<Rightarrow> bool" where
  "same c c' \<longleftrightarrow> child_launch_token c' = child_launch_token c \<and> child_temporary c' = child_temporary c
     \<and> (child_temporary c \<longrightarrow> child_world c' = child_world c)"

lemma same_refl [simp]: "same c c"
  by (simp add: same_def)

definition temps_ok :: "life \<Rightarrow> bool" where
  "temps_ok s \<longleftrightarrow>
     (\<forall>d c. child_at s d = Some c \<longrightarrow>
        (child_temporary c \<longrightarrow> w_config_dir (child_world c) = d) \<and> child_launch_token c \<in> set (lf_tokens s))
     \<and> (\<forall>t ph c. lf_phase s t = Some ph \<longrightarrow> held ph = Some c \<longrightarrow>
          child_launch_token c \<in> set (lf_tokens s)
          \<and> (\<forall>d c'. child_at s d = Some c' \<longrightarrow> child_launch_token c' = child_launch_token c \<longrightarrow> same c c'))
     \<and> (\<forall>t u ph qh c c'. t \<noteq> u \<longrightarrow> lf_phase s t = Some ph \<longrightarrow> held ph = Some c \<longrightarrow> lf_phase s u = Some qh \<longrightarrow> held qh = Some c' \<longrightarrow>
          child_launch_token c \<noteq> child_launch_token c')"

lemma temps_okD:
  assumes "temps_ok s"
  shows "child_at s d = Some c \<Longrightarrow> child_temporary c \<Longrightarrow> w_config_dir (child_world c) = d"
    and "child_at s d = Some c \<Longrightarrow> child_launch_token c \<in> set (lf_tokens s)"
    and "lf_phase s t = Some ph \<Longrightarrow> held ph = Some c \<Longrightarrow> child_launch_token c \<in> set (lf_tokens s)"
    and "lf_phase s t = Some ph \<Longrightarrow> held ph = Some c \<Longrightarrow> child_at s d = Some c' \<Longrightarrow> child_launch_token c' = child_launch_token c \<Longrightarrow> same c c'"
    and "t \<noteq> u \<Longrightarrow> lf_phase s t = Some ph \<Longrightarrow> held ph = Some c \<Longrightarrow> lf_phase s u = Some qh \<Longrightarrow> held qh = Some c' \<Longrightarrow>
      child_launch_token c \<noteq> child_launch_token c'"
  using assms unfolding temps_ok_def by (blast+)

lemma temps_okI:
  assumes "\<And>d c. child_at s d = Some c \<Longrightarrow> child_temporary c \<Longrightarrow> w_config_dir (child_world c) = d"
    and "\<And>d c. child_at s d = Some c \<Longrightarrow> child_launch_token c \<in> set (lf_tokens s)"
    and "\<And>t ph c. lf_phase s t = Some ph \<Longrightarrow> held ph = Some c \<Longrightarrow> child_launch_token c \<in> set (lf_tokens s)"
    and "\<And>t ph c d c'. lf_phase s t = Some ph \<Longrightarrow> held ph = Some c \<Longrightarrow> child_at s d = Some c' \<Longrightarrow>
      child_launch_token c' = child_launch_token c \<Longrightarrow> same c c'"
    and "\<And>t u ph qh c c'. t \<noteq> u \<Longrightarrow> lf_phase s t = Some ph \<Longrightarrow> held ph = Some c \<Longrightarrow> lf_phase s u = Some qh \<Longrightarrow> held qh = Some c' \<Longrightarrow>
      child_launch_token c \<noteq> child_launch_token c'"
  shows "temps_ok s"
  using assms unfolding temps_ok_def by blast

text \<open>How an entry may follow another without a start entering its child; \<open>S\<close> holds the token drawn by a restart.\<close>

definition follows :: "string set \<Rightarrow> weaver_child option \<Rightarrow> weaver_child option \<Rightarrow> bool" where
  "follows S c c' \<longleftrightarrow>
     (\<forall>y. c' = Some y \<longrightarrow> (\<exists>x. c = Some x \<and> same x y) \<or> \<not> child_temporary y \<and> child_launch_token y \<in> S)"

lemma temps_follow:
  assumes ok: "temps_ok s" and f: "\<And>d. follows S (child_at s d) (child_at s' d)"
    and fresh: "\<And>k. k \<in> S \<Longrightarrow> k \<notin> set (lf_tokens s)" and toks: "set (lf_tokens s') = S \<union> set (lf_tokens s)"
    and ph: "\<And>t ph' c'. lf_phase s' t = Some ph' \<Longrightarrow> held ph' = Some c' \<Longrightarrow>
      \<exists>ph c. lf_phase s t = Some ph \<and> held ph = Some c \<and> same c c'"
  shows "temps_ok s'"
proof (rule temps_okI)
  fix d c assume c: "child_at s' d = Some c"
  then consider x where "child_at s d = Some x" "same x c" | "\<not> child_temporary c" "child_launch_token c \<in> S"
    using f [of d] unfolding follows_def by blast
  note cases = this
  show "w_config_dir (child_world c) = d" if "child_temporary c"
    using cases that by cases (use temps_okD(1) [OF ok] in \<open>auto simp: same_def\<close>)
  show "child_launch_token c \<in> set (lf_tokens s')"
    using cases by cases (use temps_okD(2) [OF ok] in \<open>auto simp: same_def toks\<close>)
next
  fix t ph' c' assume "lf_phase s' t = Some ph'" "held ph' = Some c'"
  from ph [OF this] obtain ph0 c where p: "lf_phase s t = Some ph0" "held ph0 = Some c" "same c c'" by blast
  then show tok: "child_launch_token c' \<in> set (lf_tokens s')"
    using temps_okD(3) [OF ok p(1,2)] by (auto simp: same_def toks)
  fix d x assume x: "child_at s' d = Some x" "child_launch_token x = child_launch_token c'"
  then consider y where "child_at s d = Some y" "same y x" | "child_launch_token x \<in> S"
    using f [of d] unfolding follows_def by blast
  then show "same c' x"
  proof cases
    case 1
    then have "same c y" using temps_okD(4) [OF ok p(1,2) 1(1)] x(2) p(3) by (auto simp: same_def)
    then show ?thesis using 1(2) p(3) by (auto simp: same_def)
  next
    case 2
    then show ?thesis using fresh temps_okD(3) [OF ok p(1,2)] x(2) p(3) by (auto simp: same_def)
  qed
next
  fix t u ph' qh' c c'
  assume "t \<noteq> u" "lf_phase s' t = Some ph'" "held ph' = Some c" "lf_phase s' u = Some qh'" "held qh' = Some c'"
  with ph obtain p1 c1 p2 c2 where
    "lf_phase s t = Some p1" "held p1 = Some c1" "same c1 c" "lf_phase s u = Some p2" "held p2 = Some c2" "same c2 c'" by metis
  with temps_okD(5) [OF ok \<open>t \<noteq> u\<close>] show "child_launch_token c \<noteq> child_launch_token c'" by (auto simp: same_def)
qed

lemma follows_refl [simp]: "follows S c c"
  by (simp add: follows_def)

lemma follows_quiet: "quiet s s' \<Longrightarrow> follows {} (child_at s d) (child_at s' d)"
  using quietD(9) [of s s' d] by (auto simp: follows_def)

lemma follows_restart: "restart_entry token c c' \<Longrightarrow> follows {token} c c'"
  by (auto simp: restart_entry_def follows_def same_def lasting_def split: option.splits)

lemma follows_admit: "(\<And>token. restart_entry token c c') \<Longrightarrow> follows {} c c'"
proof -
  assume r: "\<And>token. restart_entry token c c'"
  show "follows {} c c'"
  proof (cases "c' = c \<or> c' = None")
    case False
    then obtain y where y: "c' = Some y" by auto
    with r [of "CHR ''x'' # child_launch_token y"] False obtain x where
      "c = Some x" "child_launch_token y = child_launch_token x" "lasting c" "lasting c'" by (auto simp: restart_entry_def)
    then show ?thesis by (auto simp: follows_def same_def y)
  qed (auto simp: follows_def)
qed

text \<open>The child a goroutine holds stays the same child.\<close>

lemma act_held:
  assumes "life_act i t ph s = (ph', s')" "held ph' = Some c'" "\<And>q w n. ph \<noteq> MakeDirs q w n"
  shows "\<exists>c. held ph = Some c \<and> same c c'"
  using assms
  by (cases ph)
     (auto simp: acts loud_defs admit_start_act_def release_claim_act_def Let_def same_def
       split: sum.splits option.splits if_splits prod.splits bool.splits)

lemma update_follows:
  assumes "\<And>x. map_of (children m) dir = Some x \<Longrightarrow> child_launch_token x = child_launch_token c \<Longrightarrow> same c x"
  shows "follows {} (map_of (children m) d) (map_of (children (update_child dir c m)) d)"
  using assms by (auto simp: follows_def update_child_def update_conv' same_def split: option.splits if_splits)

lemma same_sym: "same c c' \<Longrightarrow> same c' c"
  by (auto simp: same_def)

lemma install_claim_child [simp]: "child_at (install_claim t dir s) d = child_at s d" "lf_tokens (install_claim t dir s) = lf_tokens s"
  by (simp_all add: install_claim_def child_at_def)

text \<open>Besides the two steps that draw a token and enter the child, entries follow each other.\<close>

lemma act_follows:
  assumes a: "life_act i t ph s = (ph', s')" and ok: "temps_ok s" and p: "lf_phase s t = Some ph"
    and ph: "\<And>q w n. ph \<noteq> MakeDirs q w n" "\<And>c. ph \<noteq> EnterChild c"
  shows "follows {} (child_at s d) (child_at s' d) \<and> lf_tokens s' = lf_tokens s"
proof (cases "loud ph")
  case False
  from quiet_act [OF a this] have "quiet s s'" by blast
  then show ?thesis using follows_quiet quietD(4) by blast
next
  case True
  have mine: "same c x" if "held ph = Some c" "map_of (children (lf_mill s)) (w_config_dir (child_world c)) = Some x"
    "child_launch_token x = child_launch_token c" for c x
    using temps_okD(4) [OF ok p that(1)] that(2,3) by (simp add: child_at_def)
  show ?thesis
  proof (cases ph)
    case (AdmitStart q w)
    from a have "admit_start_act i t q w s = (ph', s')" by (simp add: AdmitStart)
    then show ?thesis
      by (cases rule: admit_start_cases) (auto simp: follows_quiet quietD(4))
  next
    case (StartChild c)
    let ?dir = "w_config_dir (child_world c)"
    show ?thesis
    proof (cases "in_fails (li_base i)")
      case True
      then have "s' = lift_mill (\<lambda>m. snd (release_child ?dir c m)) s"
        using a by (auto simp: StartChild start_child_act_def Let_def undo_start_def split: if_splits)
      then show ?thesis using follows_quiet [OF quiet_release] quietD(4) [OF quiet_release] by simp
    next
      case False
      let ?c = "c\<lparr>child_cmd := Some (in_pid (li_base i))\<rparr>"
      have "child_at s' d = map_of (children (update_child ?dir ?c (lf_mill s))) d" "lf_tokens s' = lf_tokens s"
        using a False by (auto simp: StartChild start_child_act_def Let_def child_at_def)
      moreover have "follows {} (map_of (children (lf_mill s)) d) (map_of (children (update_child ?dir ?c (lf_mill s))) d)"
        by (rule update_follows) (use mine [of c] in \<open>auto simp: StartChild same_def\<close>)
      ultimately show ?thesis by (simp add: child_at_def)
    qed
  next
    case (PublishChild c st)
    let ?dir = "w_config_dir (child_world c)"
    have "s' = lift_mill (update_child ?dir c) s" using a by (auto simp: PublishChild publish_child_act_def Let_def)
    moreover have "follows {} (map_of (children (lf_mill s)) d) (map_of (children (update_child ?dir c (lf_mill s))) d)"
      by (rule update_follows) (use mine [of c] in \<open>auto simp: PublishChild\<close>)
    ultimately show ?thesis by (simp add: child_at_def)
  qed (use True ph a in \<open>auto simp: loud_defs release_claim_act_def Let_def child_at_def
         split: if_splits sum.splits option.splits\<close>)
qed

lemma act_temps:
  assumes a: "life_act i t ph s = (ph', s')" and ok: "temps_ok s" and p: "lf_phase s t = Some ph"
    and fresh: "li_token i \<notin> set (lf_tokens s)"
  shows "temps_ok (enter_phase t ph' s')"
proof -
  have phases: "lf_phase s' = lf_phase s"
  proof (cases "claiming ph")
    case True
    then show ?thesis
      using a by (cases ph) (auto simp: release_claim_act_def install_claim_def elim!: admit_start_cases dest: quietD(2))
  next
    case False
    with life_act_claims [OF a] show ?thesis by blast
  qed
  consider (make) q w n where "ph = MakeDirs q w n" | (enter) c where "ph = EnterChild c"
    | (other) "\<And>q w n. ph \<noteq> MakeDirs q w n" "\<And>c. ph \<noteq> EnterChild c" by (cases ph) auto
  then show ?thesis
  proof cases
    case other
    show ?thesis
    proof (rule temps_follow [OF ok, where S = "{}"])
      show "follows {} (child_at s d) (child_at (enter_phase t ph' s') d)" for d
        using act_follows [OF a ok p other] by simp
      show "set (lf_tokens (enter_phase t ph' s')) = {} \<union> set (lf_tokens s)"
        using act_follows [OF a ok p other] by simp
      fix u q c' assume "lf_phase (enter_phase t ph' s') u = Some q" "held q = Some c'"
      then show "\<exists>ph c. lf_phase s u = Some ph \<and> held ph = Some c \<and> same c c'"
        using act_held [OF a _ other(1), of c'] p phases by (cases "u = t") auto
    qed simp
  next
    case (make q w n)
    consider "held ph' = None" "s' = s" | "ph' = EnterChild (fresh_child i q w n)" "s' = s\<lparr>lf_tokens := li_token i # lf_tokens s\<rparr>"
      using a by (auto simp: make make_dirs_act_def undo_start_def split: if_splits)
    then show ?thesis
    proof cases
      case 1
      show ?thesis
        by (rule temps_follow [OF ok, where S = "{}"]) (use 1 in \<open>auto split: if_splits intro: same_refl\<close>)
    next
      case 2
      have tok: "child_launch_token (fresh_child i q w n) = li_token i" by (simp add: fresh_child_def)
      have at: "child_at s' d = child_at s d" for d by (simp add: 2 child_at_def)
      show ?thesis
      proof (rule temps_okI)
        fix u x c d c' assume "lf_phase (enter_phase t ph' s') u = Some x" "held x = Some c"
          "child_at (enter_phase t ph' s') d = Some c'" "child_launch_token c' = child_launch_token c"
        then show "same c c'"
          using temps_okD(4) [OF ok, of u x c d c'] temps_okD(2) [OF ok, of d c'] fresh tok at 2 by (auto split: if_splits)
      next
        fix u v x y c c' assume "u \<noteq> v" "lf_phase (enter_phase t ph' s') u = Some x" "held x = Some c"
          "lf_phase (enter_phase t ph' s') v = Some y" "held y = Some c'"
        then show "child_launch_token c \<noteq> child_launch_token c'"
          using temps_okD(5) [OF ok, of u v x c y c'] temps_okD(3) [OF ok, of u x c] temps_okD(3) [OF ok, of v y c'] fresh tok 2 by (auto split: if_splits)
      qed (use temps_okD(1-3) [OF ok] tok at 2 in \<open>auto split: if_splits\<close>)
    qed
  next
    case (enter c)
    let ?dir = "w_config_dir (child_world c)"
    consider "held ph' = None" "s' = s"
      | "ph' = StartChild c" "s' = lift_mill (\<lambda>m. m\<lparr>children := AList.update ?dir c (children m)\<rparr>) s"
      using a by (auto simp: enter enter_child_act_def undo_start_def Let_def split: if_splits)
    then show ?thesis
    proof cases
      case 1
      show ?thesis
        by (rule temps_follow [OF ok, where S = "{}"]) (use 1 in \<open>auto split: if_splits intro: same_refl\<close>)
    next
      case 2
      have at: "child_at s' d = (if d = ?dir then Some c else child_at s d)" for d
        by (simp add: 2 update_conv' child_at_def)
      have h: "lf_phase s t = Some ph" "held ph = Some c" using p enter by simp_all
      show ?thesis
      proof (rule temps_okI)
        fix u x c1 d c' assume "lf_phase (enter_phase t ph' s') u = Some x" "held x = Some c1"
          "child_at (enter_phase t ph' s') d = Some c'" "child_launch_token c' = child_launch_token c1"
        then show "same c1 c'"
          using temps_okD(4) [OF ok, of u x c1 d c'] temps_okD(4) [OF ok h, of d c'] temps_okD(5) [OF ok _ h, of u x c1]
            at 2 phases by (auto split: if_splits)
      next
        fix u v x y c1 c2 assume "u \<noteq> v" "lf_phase (enter_phase t ph' s') u = Some x" "held x = Some c1"
          "lf_phase (enter_phase t ph' s') v = Some y" "held y = Some c2"
        then show "child_launch_token c1 \<noteq> child_launch_token c2"
          using temps_okD(5) [OF ok, of u v] h phases 2 by (auto split: if_splits)
      qed (use temps_okD(1-3) [OF ok] h at 2 phases in \<open>auto split: if_splits\<close>)
    qed
  qed
qed

lemma step_temps:
  assumes "life_step s s'" "temps_ok s" "reachable_mill (lf_mill s)"
  shows "temps_ok s'"
  using assms(1)
proof cases
  case (request t ph)
  then have "held ph = None" by (cases ph) auto
  then show ?thesis
    by (intro temps_follow [OF assms(2), where S = "{}"]) (use request in \<open>auto simp: child_at_def split: if_splits intro: same_refl\<close>)
next
  case (act i t)
  show ?thesis
  proof (cases "lf_phase s t")
    case None
    then show ?thesis using assms(2) by (simp add: act life_run_def)
  next
    case (Some ph)
    obtain ph' s1 where a: "life_act i t ph s = (ph', s1)" by fastforce
    show ?thesis using act_temps [OF a assms(2) Some act(2)] by (simp add: act(1) life_run_def Some a)
  qed
next
  case (observe i token)
  have q: "quiet s s'" unfolding observe by (rule quiet_observer)
  show ?thesis
    by (rule temps_follow [OF assms(2), where S = "{}"])
       (use follows_quiet [OF q] quietD(2,4) [OF q] in \<open>auto intro: same_refl\<close>)
next
  case (admit ident b generation w)
  show ?thesis
    by (rule temps_follow [OF assms(2), where S = "{}"])
       (use admit in \<open>auto simp: child_at_def intro: follows_admit admit_entries same_refl\<close>)
next
  case (restart token b generation ident)
  have r: "restart_entry token (child_at s d) (child_at s' d)" for d
    using run_entries [OF reachable_ok [OF assms(3)] reachable_persistent [OF assms(3)] reachable_homes [OF assms(3)]]
    by (simp add: restart child_at_def)
  show ?thesis
    by (rule temps_follow [OF assms(2), where S = "{token}"])
       (use restart r in \<open>auto intro: follows_restart same_refl\<close>)
next
  case (others cs hs)
  then show ?thesis
    by (intro temps_follow [OF assms(2), where S = "{}"]) (auto simp: child_at_def intro: same_refl)
qed

lemma reachable_temps: "reachable_life s \<Longrightarrow> temps_ok s"
proof (induction rule: reachable_life.induct)
  case (start s)
  then show ?case by (simp add: temps_ok_def life_start_def child_at_def)
next
  case (step s s')
  then show ?case using step_temps reachable_life_mill by blast
qed

end
