(* ===== verification/Life_Dirs.thy ===== *)
theory Life_Dirs
  imports Life_Temporary
begin

text \<open>
  The runtime directories of temporary Weavers: each one on disk has an owner, the goroutine that makes it, the entry
  of its Weaver, or the answer that reports that it could not be removed.
\<close>

section \<open>Tidy changes\<close>

text \<open>A tidy change is quiet, and the directory of a temporary Weaver goes before its entry.\<close>

definition tidy :: "life \<Rightarrow> life \<Rightarrow> bool" where
  "tidy s s' \<longleftrightarrow> quiet s s'
     \<and> (\<forall>dir c. child_at s dir = Some c \<longrightarrow> child_temporary c \<longrightarrow> child_at s' dir = None \<longrightarrow>
          w_state_dir (child_world c) \<notin> set (lf_dirs s'))"

lemma tidy_refl [simp]: "tidy s s"
  by (simp add: tidy_def)

lemma tidyD:
  "tidy s s' \<Longrightarrow> quiet s s'"
  "tidy s s' \<Longrightarrow> child_at s dir = Some c \<Longrightarrow> child_temporary c \<Longrightarrow> child_at s' dir = Some c \<or> w_state_dir (child_world c) \<notin> set (lf_dirs s')"
  using quietD(9) [of s s' dir] by (auto simp: tidy_def)

lemma tidy_trans:
  assumes "tidy s1 s2" "tidy s2 s3"
  shows "tidy s1 s3"
proof -
  note q = quietD(9,10) [OF tidyD(1) [OF assms(2)]]
  show ?thesis
    unfolding tidy_def
  proof (intro conjI allI impI)
    show "quiet s1 s3" using assms quiet_trans tidyD(1) by blast
    fix dir c assume c: "child_at s1 dir = Some c" "child_temporary c" "child_at s3 dir = None"
    from tidyD(2) [OF assms(1) c(1,2)] show "w_state_dir (child_world c) \<notin> set (lf_dirs s3)"
      using tidyD(2) [OF assms(2), of dir c] c(2,3) q(2) by auto
  qed
qed

lemma tidy_same: "quiet s s' \<Longrightarrow> (\<And>d. child_at s' d = child_at s d) \<Longrightarrow> tidy s s'"
  by (simp add: tidy_def)

definition home :: "life \<Rightarrow> bool" where
  "home s \<longleftrightarrow> (\<forall>d c. child_at s d = Some c \<longrightarrow> child_temporary c \<longrightarrow> w_config_dir (child_world c) = d)"

lemma temps_home: "temps_ok s \<Longrightarrow> home s"
  unfolding home_def using temps_okD(1) by blast

lemma quiet_home: "quiet s s' \<Longrightarrow> home s \<Longrightarrow> home s'"
  unfolding home_def by (metis quietD(9) option.distinct(1))

text \<open>Operations that leave the entries alone.\<close>

lemma child_at_simps [simp]:
  "child_at (send sent s) d = child_at s d" "child_at (removes paths s) d = child_at s d"
  "child_at (s\<lparr>lf_reaped := r\<rparr>) d = child_at s d" "child_at (s\<lparr>lf_cleanup := f\<rparr>) d = child_at s d"
  "child_at (s\<lparr>lf_observers := g\<rparr>) d = child_at s d" "child_at (s\<lparr>lf_dirs := ds\<rparr>) d = child_at s d"
  "child_at (shut_custody dir s) d = child_at s d" "child_at (forget_host pool s) d = child_at s d"
  "child_at (s\<lparr>lf_shut := ds\<rparr>) d = child_at s d"
  by (auto simp: child_at_def send_def removes_def shut_custody_def forget_host_def lift_mill_def split: option.split)

lemma lf_dirs_simps [simp]:
  "lf_dirs (send sent s) = lf_dirs s" "lf_dirs (removes paths s) = lf_dirs s" "lf_dirs (shut_custody dir s) = lf_dirs s"
  by (simp_all add: send_def removes_def shut_custody_def split: option.split)

lemma child_at_clean [simp]: "child_at (snd (clean_artifacts i w who s)) d = child_at s d"
  by (simp add: clean_artifacts_def split: prod.split)

lemma child_at_published [simp]: "child_at (snd (clean_published i c s)) d = child_at s d"
  by (simp add: clean_published_def)

lemma child_at_stop_started [simp]: "child_at (stop_started_child i c s) d = child_at s d"
  by (simp add: stop_started_child_def split: option.split)

lemma child_at_remove_world [simp]: "child_at (snd (remove_temporary_world i w s)) d = child_at s d"
  by (simp add: remove_temporary_world_def Let_def)

lemma tidy_stop_started: "tidy s (stop_started_child i c s)"
  by (simp add: tidy_same quiet_stop_started)

lemma tidy_send: "tidy s (send sent s)"
  by (simp add: tidy_same quiet_send)

lemma tidy_clean_published: "tidy s (snd (clean_published i c s))"
  by (simp add: tidy_same quiet_clean_published)

lemma tidy_drop:
  assumes "\<And>c. child_at s dir = Some c \<Longrightarrow> \<not> child_temporary c"
  shows "tidy s (lift_mill (\<lambda>m. m\<lparr>children := AList.delete dir (children m)\<rparr>) s)"
  using assms by (auto simp: tidy_def quiet_drop delete_conv' child_at_def [symmetric])

section \<open>Teardown\<close>

lemma forget_child_at [simp]:
  "child_at (forget_temporary c s) d = (if d = w_config_dir (child_world c) then None else child_at s d)"
  by (simp add: forget_temporary_def child_at_def [of s] delete_conv')

lemma forget_dirs [simp]: "lf_dirs (forget_temporary c s) = lf_dirs s"
  by (simp add: forget_temporary_def)

text \<open>
  A teardown removes the entry of the child, after its directory, or reports why not; other entries stay.
\<close>

lemma cleanup_cases:
  assumes "cleanup_temporary i c s = (f, s')"
  shows "(f \<noteq> None \<longrightarrow> (\<forall>d. child_at s' d = child_at s d))
     \<and> (f = None \<longrightarrow> w_state_dir (child_world c) \<notin> set (lf_dirs s')
         \<and> (\<forall>d. child_at s' d = (if d = w_config_dir (child_world c) then None else child_at s d)))"
proof -
  obtain ok s2 where p: "clean_published i c (shut_custody (w_state_dir (child_world c)) s) = (ok, s2)" by fastforce
  obtain g s3 where r: "remove_temporary_world i (child_world c) s2 = (g, s3)" by fastforce
  have 2: "child_at s2 d = child_at s d" for d using child_at_published by (metis p snd_conv child_at_simps(7))
  have 3: "child_at s3 d = child_at s d" for d using child_at_remove_world by (metis r snd_conv 2)
  have gone: "w_state_dir (child_world c) \<notin> set (lf_dirs s3)" if "g = None"
    using r that by (auto simp: remove_temporary_world_def Let_def split: if_splits)
  show ?thesis
    using assms 2 3 gone by (auto simp: cleanup_temporary_def Let_def p r split: option.splits if_splits)
qed

lemma tidy_cleanup:
  assumes "cleanup_temporary i c s = (f, s')" "child_at s (w_config_dir (child_world c)) = Some c"
  shows "tidy s s'"
proof (cases f)
  case (Some e)
  then show ?thesis using cleanup_cases [OF assms(1)] quiet_results(2) [OF assms(1)] by (intro tidy_same) simp_all
next
  case None
  then show ?thesis
    using cleanup_cases [OF assms(1)] quiet_results(2) [OF assms(1)] assms(2) by (auto simp: tidy_def split: if_splits)
qed

lemma tidy_check_mode:
  assumes "check_start_mode i w temporary s = (f, s')" "home s"
  shows "tidy s s'"
proof (cases "s' = s")
  case False
  then obtain c where c: "child_at s (w_config_dir w) = Some c" "child_temporary c" "cleanup_temporary i c s = (f, s')"
    using assms(1) by (auto simp: check_start_mode_def split: option.splits if_splits)
  with assms(2) have "child_at s (w_config_dir (child_world c)) = Some c" by (simp add: home_def)
  with c(3) show ?thesis by (rule tidy_cleanup)
qed simp

lemma tidy_torn_down:
  assumes "cleanup_temporary i c (stop_started_child i c s) = (f, s')" "child_at s dir = Some c" "child_temporary c" "home s"
  shows "tidy s s'"
proof -
  have "child_at s (w_config_dir (child_world c)) = Some c" using assms(2-4) by (simp add: home_def)
  then show ?thesis using tidy_trans [OF tidy_stop_started tidy_cleanup [OF assms(1)]] by simp
qed

lemma tidy_shut_child:
  assumes "shut_child i c s = (fs, s')" "child_at s dir = Some c" "home s"
  shows "tidy s s'"
proof (cases "child_temporary c")
  case True
  obtain f s1 where e: "cleanup_temporary i c (stop_started_child i c s) = (f, s1)" by fastforce
  show ?thesis using tidy_torn_down [OF e assms(2) True assms(3)] assms(1) by (simp add: shut_child_def True e)
next
  case False
  have q: "quiet s s'" using quiet_shut_child [of s i c] assms(1) by simp
  have "child_at s' d = child_at s d" for d
    using assms(1) False by (auto simp: shut_child_def Let_def case_prod_beta)
  then show ?thesis by (intro tidy_same q)
qed

lemma tidy_shut_children:
  assumes "home s"
  shows "tidy s (snd (shut_children i dirs s))"
  using assms
proof (induction dirs arbitrary: s)
  case (Cons dir dirs)
  obtain fs s1 where 1: "(case child_at s dir of None \<Rightarrow> ([], s) | Some c \<Rightarrow> shut_child i c s) = (fs, s1)" by fastforce
  have t: "tidy s s1" using 1 tidy_shut_child [OF _ _ Cons.prems] by (auto split: option.splits)
  have "tidy s1 (snd (shut_children i dirs s1))" using Cons.IH quiet_home [OF tidyD(1) [OF t] Cons.prems] by blast
  with t have "tidy s (snd (shut_children i dirs s1))" by (rule tidy_trans)
  then show ?case unfolding shut_children.simps 1 by (simp split: prod.split) (metis snd_conv)
qed simp

lemma shut_custodies_child: "child_at (snd (shut_custodies i dirs s)) d = child_at s d"
proof (induction dirs arbitrary: s)
  case (Cons dir dirs)
  show ?case
    using Cons.IH [of s] Cons.IH [of "shut_custody dir s"] by (simp add: case_prod_beta)
qed simp

lemma shut_members_child: "child_at (snd (shut_members i ms s)) d = child_at s d"
proof (induction ms arbitrary: s)
  case (Cons mb ms)
  obtain ok s1 where 1: "(if id_weaver (pm_identity mb) = [] then (True, s)
      else clean_artifacts i (pm_world mb) (pm_identity mb) s) = (ok, s1)" by fastforce
  have "child_at s1 d = child_at s d"
    using 1 by (auto split: if_splits) (metis child_at_clean snd_conv)
  then show ?case using Cons.IH [of s1] unfolding shut_members.simps 1 by (simp split: prod.split) (metis snd_conv)
qed simp

lemma child_at_stop_host [simp]: "child_at (stop_host i h s) d = child_at s d"
  by (simp add: stop_host_def)

lemma shut_hosts_child: "child_at (snd (shut_hosts i hs s)) d = child_at s d"
proof (induction hs arbitrary: s)
  case (Cons x hs)
  obtain pool h where x: "x = (pool, h)" by fastforce
  obtain fs s1 where 1: "shut_members i (host_members h) (stop_host i h s) = (fs, s1)" by fastforce
  have "child_at s1 d = child_at s d"
    using shut_members_child [of i "host_members h" "stop_host i h s" d] by (simp add: 1)
  then show ?case using Cons.IH by (simp add: x 1 split: prod.split) (metis snd_conv child_at_simps(2,8))
qed simp

lemma tidy_stop_all:
  assumes "stop_all_section i s = (fs, s')" "home s"
  shows "tidy s s'"
proof -
  obtain fs s1 where 1: "shut_custodies i (map fst (custodies (lf_mill s))) s = (fs, s1)" by fastforce
  obtain gs s2 where 2: "shut_hosts i (pool_hosts (lf_mill s1)) s1 = (gs, s2)" by fastforce
  have "quiet s s1" using quiet_shut_custodies by (metis 1 snd_conv)
  moreover have "quiet s1 s2" using quiet_shut_hosts by (metis 2 snd_conv)
  ultimately have q: "quiet s s2" by (rule quiet_trans)
  have "child_at s2 d = child_at s d" for d using shut_custodies_child shut_hosts_child by (metis 1 2 snd_conv)
  with q have t: "tidy s s2" by (rule tidy_same)
  have "tidy s2 (snd (shut_children i (map fst (children (lf_mill s2))) s2))"
    by (rule tidy_shut_children [OF quiet_home [OF q assms(2)]])
  from tidy_trans [OF t this] show ?thesis using assms(1) by (auto simp: stop_all_section_def 1 2 case_prod_beta)
qed

lemma child_at_unsupervised: "child_at (snd (stop_unsupervised i w s)) d = child_at s d"
proof -
  obtain v b where v: "read_status (li_base i) (in_metadata (li_base i)) (lf_mill s) w = (v, b)" by fastforce
  have c: "clean_artifacts i w who s = (ok, s') \<Longrightarrow> child_at s' d = child_at s d" for who ok s'
    using child_at_clean [of i w who s d] by simp
  show ?thesis
  proof (cases v)
    case None
    then show ?thesis by (simp add: stop_unsupervised_def v)
  next
    case (Some st)
    show ?thesis
      by (cases b) (auto simp: stop_unsupervised_def v Some Let_def split: sum.split prod.split option.split dest: c)
  qed
qed

text \<open>The section of a stop removes an entry only if it is not of a temporary Weaver, or tears the Weaver down.\<close>

lemma tidy_stop_section:
  assumes "stop_section i w s = (ans, s')" "home s"
  shows "tidy s s'"
proof (cases "child_at s (w_config_dir w)")
  case None
  let ?s = "lift_mill (\<lambda>m. m\<lparr>children := AList.delete (w_config_dir w) (children m)\<rparr>) s"
  have "tidy s ?s" by (rule tidy_drop) (simp add: None)
  moreover have "tidy ?s (snd (stop_unsupervised i w ?s))" by (intro tidy_same quiet_stop_unsupervised child_at_unsupervised)
  ultimately have "tidy s (snd (stop_unsupervised i w ?s))" by (rule tidy_trans)
  then show ?thesis using assms(1) by (simp add: stop_section_def None)
next
  case (Some c)
  show ?thesis
  proof (cases "child_temporary c")
    case True
    obtain f s1 where e: "cleanup_temporary i c (stop_started_child i c s) = (f, s1)" by fastforce
    have "tidy s s1" by (rule tidy_torn_down [OF e Some True assms(2)])
    then show ?thesis
      using assms(1) by (auto simp: stop_section_def Some True stop_temporary_def e split: option.splits)
  next
    case False
    let ?s = "lift_mill (\<lambda>m. m\<lparr>children := AList.delete (w_config_dir w) (children m)\<rparr>) s"
    have d: "tidy s ?s" by (rule tidy_drop) (simp add: Some False)
    have "tidy ?s (snd (stop_unsupervised i w ?s))" by (intro tidy_same quiet_stop_unsupervised child_at_unsupervised)
    with d have u: "tidy s (snd (stop_unsupervised i w ?s))" by (rule tidy_trans)
    let ?k = "(send (terminate_process (li_late i) (child_cmd c)) s)\<lparr>lf_reaped := child_launch_token c # lf_reaped s\<rparr>"
    obtain ok s2 where e: "clean_artifacts i (child_world c) (child_identity c) ?k = (ok, s2)" by fastforce
    have at: "child_at s2 d = child_at s d" for d
      using child_at_clean [of i "child_world c" "child_identity c" ?k d] by (simp add: e)
    have "quiet s s2" using quiet_trans [OF quiet_signalled quiet_clean_artifacts] by (metis e snd_conv)
    then have k: "tidy s s2" using at by (rule tidy_same)
    have "tidy s2 (lift_mill (\<lambda>m. m\<lparr>children := AList.delete (w_config_dir w) (children m)\<rparr>) s2)"
      by (rule tidy_drop) (simp add: at Some False)
    with k have "tidy s (lift_mill (\<lambda>m. m\<lparr>children := AList.delete (w_config_dir w) (children m)\<rparr>) s2)" by (rule tidy_trans)
    then show ?thesis
      using assms(1) k u by (auto simp: stop_section_def Some False stop_supervised_def Let_def e split: if_splits bool.splits)
  qed
qed

section \<open>Owners\<close>

text \<open>The directory a goroutine is making, and the directories an answer reports as left behind.\<close>

fun making :: "life_phase \<Rightarrow> string option" where
  "making (MakeDirs q w name) = (if q_temporary q then Some (w_state_dir w) else None)"
| "making (EnterChild c) = (if child_temporary c then Some (w_state_dir (child_world c)) else None)"
| "making (UndoDir w fs) = Some (w_state_dir w)"
| "making ph = None"

fun reports :: "life_phase \<Rightarrow> string \<Rightarrow> bool" where
  "reports (ReleaseClaim dir (Fails fs)) d = (DirNotRemoved d \<in> set fs \<or> NotTemporaryDir d \<in> set fs)"
| "reports (Replied (Fails fs)) d = (DirNotRemoved d \<in> set fs \<or> NotTemporaryDir d \<in> set fs)"
| "reports ph d = False"

definition owned :: "life \<Rightarrow> string \<Rightarrow> bool" where
  "owned s d \<longleftrightarrow>
     (\<exists>t ph. lf_phase s t = Some ph \<and> (making ph = Some d \<or> reports ph d))
     \<or> (\<exists>dir c. child_at s dir = Some c \<and> child_temporary c \<and> w_state_dir (child_world c) = d)"

definition dirs_ok :: "life \<Rightarrow> bool" where
  "dirs_ok s \<longleftrightarrow> (\<forall>d\<in>set (lf_dirs s). owned s d)"

text \<open>
  A start enters its child in the place of a temporary Weaver that is dead and not yet torn down: possible only when
  the process ends between the checks of the section that admits the start.
\<close>

definition displaced :: "life \<Rightarrow> life \<Rightarrow> bool" where
  "displaced s s' \<longleftrightarrow>
     (\<exists>d c c'. child_at s d = Some c \<and> child_temporary c \<and> child_at s' d = Some c' \<and> child_launch_token c' \<noteq> child_launch_token c)"

inductive orderly :: "life \<Rightarrow> bool" where
  start: "life_start s \<Longrightarrow> orderly s"
| step: "orderly s \<Longrightarrow> life_step s s' \<Longrightarrow> \<not> displaced s s' \<Longrightarrow> orderly s'"

lemma orderly_reachable: "orderly s \<Longrightarrow> reachable_life s"
  by (induction rule: orderly.induct) (auto intro: reachable_life.intros)

text \<open>
  How ownership passes on: a directory that stays is still made or reported by its goroutine, and a temporary Weaver
  keeps its entry with its directory, or the directory goes, or a goroutine takes it over.
\<close>

definition passes :: "life \<Rightarrow> life \<Rightarrow> bool" where
  "passes s s' \<longleftrightarrow>
     (\<forall>d\<in>set (lf_dirs s'). d \<in> set (lf_dirs s) \<longrightarrow> owned s d \<longrightarrow> owned s' d)
     \<and> (\<forall>d\<in>set (lf_dirs s'). d \<notin> set (lf_dirs s) \<longrightarrow> owned s' d)"

lemma passes_ok: "passes s s' \<Longrightarrow> dirs_ok s \<Longrightarrow> dirs_ok s'"
  by (auto simp: passes_def dirs_ok_def)

lemma passesI:
  assumes "\<And>d. d \<in> set (lf_dirs s') \<Longrightarrow> d \<notin> set (lf_dirs s) \<Longrightarrow> owned s' d"
    and "\<And>t ph d. lf_phase s t = Some ph \<Longrightarrow> making ph = Some d \<Longrightarrow> d \<in> set (lf_dirs s') \<Longrightarrow> owned s' d"
    and "\<And>t ph d. lf_phase s t = Some ph \<Longrightarrow> reports ph d \<Longrightarrow> owned s' d"
    and "\<And>dir c. child_at s dir = Some c \<Longrightarrow> child_temporary c \<Longrightarrow> w_state_dir (child_world c) \<in> set (lf_dirs s') \<Longrightarrow>
      owned s' (w_state_dir (child_world c))"
  shows "passes s s'"
proof -
  have "owned s' d" if "d \<in> set (lf_dirs s')" "owned s d" for d
  proof -
    from that(2) consider t ph where "lf_phase s t = Some ph" "making ph = Some d" | t ph where "lf_phase s t = Some ph" "reports ph d"
      | dir c where "child_at s dir = Some c" "child_temporary c" "w_state_dir (child_world c) = d"
      unfolding owned_def by blast
    then show ?thesis using assms(2-4) that(1) by cases auto
  qed
  then show ?thesis using assms(1) unfolding passes_def by blast
qed

lemma owned_phase: "lf_phase s t = Some ph \<Longrightarrow> making ph = Some d \<or> reports ph d \<Longrightarrow> owned s d"
  unfolding owned_def by blast

lemma owned_child: "child_at s dir = Some c \<Longrightarrow> child_temporary c \<Longrightarrow> owned s (w_state_dir (child_world c))"
  unfolding owned_def by blast

text \<open>A step of a goroutine, by what becomes of its own directory and of the entries.\<close>

lemma passes_enter:
  assumes p: "lf_phase s t = Some ph" and ph: "lf_phase s' = lf_phase s"
    and own: "\<And>d. making ph = Some d \<Longrightarrow> d \<in> set (lf_dirs s') \<Longrightarrow> owned (enter_phase t ph' s') d"
    and rep: "\<And>d. reports ph d \<Longrightarrow> reports ph' d"
    and new: "\<And>d. d \<in> set (lf_dirs s') \<Longrightarrow> d \<notin> set (lf_dirs s) \<Longrightarrow> making ph' = Some d"
    and kept: "\<And>dir c. child_at s dir = Some c \<Longrightarrow> child_temporary c \<Longrightarrow> w_state_dir (child_world c) \<in> set (lf_dirs s') \<Longrightarrow>
      making ph' = Some (w_state_dir (child_world c))
      \<or> (\<exists>c'. child_at s' dir = Some c' \<and> child_temporary c' \<and> w_state_dir (child_world c') = w_state_dir (child_world c))"
  shows "passes s (enter_phase t ph' s')"
proof (rule passesI)
  fix d assume "d \<in> set (lf_dirs (enter_phase t ph' s'))" "d \<notin> set (lf_dirs s)"
  then have "making ph' = Some d" using new by simp
  then show "owned (enter_phase t ph' s') d" by (intro owned_phase [of _ t ph']) simp_all
next
  fix u q d assume u: "lf_phase s u = Some q" "making q = Some d" "d \<in> set (lf_dirs (enter_phase t ph' s'))"
  show "owned (enter_phase t ph' s') d"
  proof (cases "u = t")
    case True
    then show ?thesis using u p own by simp
  next
    case False
    then show ?thesis using u by (intro owned_phase [of _ u q]) (simp_all add: ph)
  qed
next
  fix u q d assume u: "lf_phase s u = Some q" "reports q d"
  show "owned (enter_phase t ph' s') d"
  proof (cases "u = t")
    case True
    then show ?thesis using u p rep by (intro owned_phase [of _ t ph']) auto
  next
    case False
    then show ?thesis using u by (intro owned_phase [of _ u q]) (simp_all add: ph)
  qed
next
  fix dir c assume "child_at s dir = Some c" "child_temporary c" "w_state_dir (child_world c) \<in> set (lf_dirs (enter_phase t ph' s'))"
  then consider "making ph' = Some (w_state_dir (child_world c))"
    | c' where "child_at s' dir = Some c'" "child_temporary c'" "w_state_dir (child_world c') = w_state_dir (child_world c)"
    using kept by auto
  then show "owned (enter_phase t ph' s') (w_state_dir (child_world c))"
  proof cases
    case 1
    then show ?thesis by (intro owned_phase [of _ t ph']) simp_all
  next
    case 2
    then show ?thesis using owned_child [of "enter_phase t ph' s'" dir c'] by simp
  qed
qed

lemma act_tidy:
  assumes "life_act i t ph s = (ph', s')" "\<not> loud ph" "home s"
  shows "tidy s s'"
proof (cases ph)
  case (CheckMode q w)
  then show ?thesis using assms by (auto simp: acts split: prod.splits option.splits dest: tidy_check_mode)
next
  case (KillStarted c f)
  then show ?thesis using assms by (auto simp: acts tidy_stop_started)
next
  case (AwaitReady c)
  then show ?thesis using assms by (auto simp: acts Let_def tidy_send split: prod.splits sum.splits if_splits)
next
  case (DiscardStarted c fs)
  let ?dir = "w_config_dir (child_world c)"
  let ?s = "lift_mill (\<lambda>m. m\<lparr>children := AList.delete ?dir (children m)\<rparr>) s"
  show ?thesis
  proof (cases "s' = s")
    case False
    then obtain c' where c': "child_at s ?dir = Some c'" "child_launch_token c' = child_launch_token c"
      using assms by (auto simp: DiscardStarted discard_started_act_def Let_def split: option.splits if_splits)
    show ?thesis
    proof (cases "child_temporary c'")
      case True
      obtain f s1 where e: "cleanup_temporary i c' s = (f, s1)" by fastforce
      have "child_at s (w_config_dir (child_world c')) = Some c'" using assms(3) c' True by (simp add: home_def)
      then have "tidy s s1" by (rule tidy_cleanup [OF e])
      then show ?thesis using assms c' True by (simp add: DiscardStarted discard_started_act_def Let_def e)
    next
      case False
      obtain ok s1 where e: "clean_published i c' ?s = (ok, s1)" by fastforce
      have "tidy s ?s" by (rule tidy_drop) (simp add: c' False)
      moreover have "tidy ?s s1" using tidy_clean_published [of ?s i c'] by (simp add: e)
      ultimately have "tidy s s1" by (rule tidy_trans)
      then show ?thesis using assms c' False by (simp add: DiscardStarted discard_started_act_def Let_def e)
    qed
  qed simp
next
  case (UndoDir w fs)
  have "quiet s s'" using quiet_act assms(1,2) by blast
  moreover have "child_at s' d = child_at s d" for d
    using assms(1) by (auto simp: UndoDir undo_dir_act_def split: prod.splits) (metis child_at_remove_world snd_conv)
  ultimately show ?thesis by (rule tidy_same)
next
  case (StopSection w)
  then show ?thesis using assms tidy_stop_section by (auto simp: stop_section_act_def split: prod.splits)
next
  case ShutStop
  then show ?thesis using assms tidy_stop_all by (auto simp: shut_stop_act_def split: prod.splits)
qed (use assms in \<open>auto simp: acts Let_def split: sum.splits option.splits if_splits prod.splits bool.splits\<close>)

lemma act_making:
  assumes "life_act i t ph s = (ph', s')" "\<not> loud ph" "making ph = Some d" "d \<in> set (lf_dirs s')"
  shows "reports ph' d"
proof -
  obtain w fs where ph: "ph = UndoDir w fs" "d = w_state_dir w" using assms(2,3) by (cases ph) auto
  then show ?thesis
    using assms(1,4) by (auto simp: undo_dir_act_def remove_temporary_world_def Let_def opt_list_def split: if_splits)
qed

lemma act_reports:
  assumes "life_act i t ph s = (ph', s')" "reports ph d"
  shows "reports ph' d"
proof -
  obtain fs where "(\<exists>dir. ph = ReleaseClaim dir (Fails fs)) \<or> ph = Replied (Fails fs)"
    using assms(2) by (cases "(ph, d)" rule: reports.cases) auto
  then show ?thesis using assms by (auto simp: release_claim_act_def)
qed

lemma passes_act:
  assumes a: "life_act i t ph s = (ph', s')" and ok: "temps_ok s" and p: "lf_phase s t = Some ph"
    and calm: "\<not> displaced s (enter_phase t ph' s')"
  shows "passes s (enter_phase t ph' s')"
proof (cases "loud ph")
  case False
  have td: "tidy s s'" by (rule act_tidy [OF a False temps_home [OF ok]])
  note q = quietD [OF tidyD(1) [OF td]]
  show ?thesis
  proof (rule passes_enter [OF p q(2)])
    fix d assume "making ph = Some d" "d \<in> set (lf_dirs s')"
    then have "reports ph' d" by (rule act_making [OF a False])
    then show "owned (enter_phase t ph' s') d" by (intro owned_phase [of _ t ph']) simp_all
  next
    fix dir c assume "child_at s dir = Some c" "child_temporary c" "w_state_dir (child_world c) \<in> set (lf_dirs s')"
    with tidyD(2) [OF td] show "making ph' = Some (w_state_dir (child_world c))
        \<or> (\<exists>c'. child_at s' dir = Some c' \<and> child_temporary c' \<and> w_state_dir (child_world c') = w_state_dir (child_world c))"
      by blast
  qed (use act_reports [OF a] q(10) in auto)
next
  case True
  have rep: "reports ph d \<Longrightarrow> reports ph' d" for d by (rule act_reports [OF a])
  have own: "owned (enter_phase t ph' s') d" if "making ph' = Some d" for d
    using that by (intro owned_phase [of _ t ph']) simp_all
  have mine: "same c c'" if "held ph = Some c" "child_at s dir = Some c'" "child_launch_token c' = child_launch_token c" for c c' dir
    using temps_okD(4) [OF ok p that] .
  show ?thesis
  proof (cases ph)
    case (AdmitStart q w)
    from a have adm: "admit_start_act i t q w s = (ph', s')" by (simp add: AdmitStart)
    obtain f s1 where c: "check_start_mode i w (q_temporary q) s = (f, s1)" by fastforce
    have td: "tidy s s1" by (rule tidy_check_mode [OF c temps_home [OF ok]])
    note q1 = quietD [OF tidyD(1) [OF td]]
    have "lf_phase s' = lf_phase s \<and> lf_dirs s' = lf_dirs s1 \<and> (\<forall>d. child_at s' d = child_at s1 d) \<or> s' = s"
      using adm q1(2)
      by (auto simp: admit_start_act_def Let_def c refuse_def transition_answer_def install_claim_def child_at_def
          split: option.splits if_splits prod.splits)
    moreover have "\<exists>c'. child_at s1 dir = Some c' \<and> child_temporary c' \<and> w_state_dir (child_world c') = w_state_dir (child_world c)"
      if "child_at s dir = Some c" "child_temporary c" "w_state_dir (child_world c) \<in> set (lf_dirs s1)" for dir c
      using tidyD(2) [OF td that(1,2)] that by blast
    ultimately show ?thesis
      using q1(10) by (intro passes_enter [OF p]) (auto simp: AdmitStart)
  next
    case (EnterChild c)
    let ?dir = "w_config_dir (child_world c)"
    consider "ph' = StartChild c" "s' = lift_mill (\<lambda>m. m\<lparr>children := AList.update ?dir c (children m)\<rparr>) s"
      | "s' = s" "making ph = making ph' \<or> making ph = None"
      using a by (auto simp: EnterChild enter_child_act_def undo_start_def Let_def split: if_splits)
    then show ?thesis
    proof cases
      case 1
      have at: "child_at s' d = (if d = ?dir then Some c else child_at s d)" for d
        by (simp add: 1 update_conv' child_at_def)
      show ?thesis
      proof (rule passes_enter [OF p])
        fix dir c0 assume c0: "child_at s dir = Some c0" "child_temporary c0"
        have "child_launch_token c = child_launch_token c0" if "dir = ?dir"
          using calm c0 that at [of dir] unfolding displaced_def by auto
        then have "same c c0" if "dir = ?dir" using mine [of c dir c0] c0(1) that by (simp add: EnterChild)
        then show "making ph' = Some (w_state_dir (child_world c0))
            \<or> (\<exists>c'. child_at s' dir = Some c' \<and> child_temporary c' \<and> w_state_dir (child_world c') = w_state_dir (child_world c0))"
          using c0 at by (auto simp: same_def)
      next
        fix d assume "making ph = Some d"
        then have c: "child_temporary c" "d = w_state_dir (child_world c)" by (simp_all add: EnterChild split: if_splits)
        then show "owned (enter_phase t ph' s') d" using at [of ?dir] owned_child [of "enter_phase t ph' s'" ?dir c] by simp
      qed (use 1 EnterChild in \<open>auto simp: EnterChild\<close>)
    next
      case 2
      show ?thesis by (rule passes_enter [OF p]) (use 2 own rep in auto)
    qed
  next
    case (StartChild c)
    let ?dir = "w_config_dir (child_world c)"
    show ?thesis
    proof (cases "in_fails (li_base i)")
      case True
      then have s': "s' = lift_mill (\<lambda>m. snd (release_child ?dir c m)) s"
        and ph': "child_temporary c \<Longrightarrow> making ph' = Some (w_state_dir (child_world c))"
        using a by (auto simp: StartChild start_child_act_def Let_def undo_start_def split: if_splits)
      have at: "child_at s' d = (if d = ?dir \<and> (\<exists>x. child_at s d = Some x \<and> child_launch_token x = child_launch_token c)
          then None else child_at s d)" for d
        by (auto simp: s' release_child_def delete_conv' child_at_def split: option.splits)
      show ?thesis
      proof (rule passes_enter [OF p])
        fix dir c0 assume c0: "child_at s dir = Some c0" "child_temporary c0"
        show "making ph' = Some (w_state_dir (child_world c0))
            \<or> (\<exists>c'. child_at s' dir = Some c' \<and> child_temporary c' \<and> w_state_dir (child_world c') = w_state_dir (child_world c0))"
        proof (cases "child_launch_token c0 = child_launch_token c")
          case True
          have "same c c0" by (rule mine [OF _ c0(1) True]) (simp add: StartChild)
          then show ?thesis using ph' c0(2) by (auto simp: same_def)
        next
          case False
          then show ?thesis using at c0 by auto
        qed
      qed (use s' StartChild in auto)
    next
      case False
      let ?c = "c\<lparr>child_cmd := Some (in_pid (li_base i))\<rparr>"
      have s': "lf_phase s' = lf_phase s" "lf_dirs s' = lf_dirs s"
        "child_at s' d = map_of (children (update_child ?dir ?c (lf_mill s))) d" for d
        using a False by (auto simp: StartChild start_child_act_def Let_def child_at_def)
      show ?thesis
      proof (rule passes_enter [OF p s'(1)])
        fix dir c0 assume c0: "child_at s dir = Some c0" "child_temporary c0"
        have "same c c0" if "child_launch_token c0 = child_launch_token c" by (rule mine [OF _ c0(1) that]) (simp add: StartChild)
        then have "\<exists>c'. child_at s' dir = Some c' \<and> child_temporary c' \<and> w_state_dir (child_world c') = w_state_dir (child_world c0)"
          using c0 unfolding s'(3) by (auto simp: update_child_def update_conv' child_at_def same_def split: option.splits)
        then show "making ph' = Some (w_state_dir (child_world c0))
            \<or> (\<exists>c'. child_at s' dir = Some c' \<and> child_temporary c' \<and> w_state_dir (child_world c') = w_state_dir (child_world c0))"
          by blast
      qed (use s' StartChild in auto)
    qed
  next
    case (PublishChild c st)
    let ?dir = "w_config_dir (child_world c)"
    have s': "s' = lift_mill (update_child ?dir c) s" using a by (auto simp: PublishChild publish_child_act_def Let_def)
    show ?thesis
    proof (rule passes_enter [OF p])
      fix dir c0 assume c0: "child_at s dir = Some c0" "child_temporary c0"
      have "same c c0" if "child_launch_token c0 = child_launch_token c" by (rule mine [OF _ c0(1) that]) (simp add: PublishChild)
      then have "\<exists>c'. child_at s' dir = Some c' \<and> child_temporary c' \<and> w_state_dir (child_world c') = w_state_dir (child_world c0)"
        using c0 by (auto simp: s' update_child_def update_conv' child_at_def same_def split: option.splits)
      then show "making ph' = Some (w_state_dir (child_world c0))
          \<or> (\<exists>c'. child_at s' dir = Some c' \<and> child_temporary c' \<and> w_state_dir (child_world c') = w_state_dir (child_world c0))"
        by blast
    qed (use s' PublishChild in auto)
  next
    case (MakeDirs q w n)
    then show ?thesis
      using a own rep by (intro passes_enter [OF p]) (auto simp: make_dirs_act_def undo_start_def fresh_child_def child_at_def split: if_splits)
  next
    case (PrepareStart q w)
    then show ?thesis
      using a own rep by (intro passes_enter [OF p])
        (auto simp: prepare_start_act_def temporary_world_def Let_def child_at_def split: if_splits sum.splits option.splits)
  next
    case (ReleaseClaim dir ans)
    then show ?thesis
      using a rep by (intro passes_enter [OF p]) (auto simp: release_claim_act_def child_at_def split: if_splits)
  qed (use True a in \<open>(intro passes_enter [OF p]; auto simp: arrive_act_def shut_arrive_act_def refuse_def child_at_def split: if_splits)+\<close>)
qed

lemma passes_restart:
  assumes "\<And>d. restart_entry token (child_at s d) (child_at s' d)" "lf_phase s' = lf_phase s" "lf_dirs s' = lf_dirs s"
  shows "passes s s'"
proof (rule passesI)
  fix dir c assume "child_at s dir = Some c" "child_temporary c"
  then have "child_at s' dir = Some c" using assms(1) [of dir] by (auto simp: restart_entry_def)
  then show "owned s' (w_state_dir (child_world c))" using \<open>child_temporary c\<close> owned_child by blast
next
  fix u x d assume "lf_phase s u = Some x" "making x = Some d"
  then show "owned s' d" by (intro owned_phase [of _ u x]) (simp_all add: assms(2))
next
  fix u x d assume "lf_phase s u = Some x" "reports x d"
  then show "owned s' d" by (intro owned_phase [of _ u x]) (simp_all add: assms(2))
qed (simp add: assms(3))

lemma dirs_step:
  assumes step: "life_step s s'" and ok: "temps_ok s" and m: "reachable_mill (lf_mill s)" and calm: "\<not> displaced s s'"
  shows "passes s s'"
  using step
proof cases
  case (request t ph)
  show ?thesis
  proof (rule passesI)
    fix u q d assume "lf_phase s u = Some q" "making q = Some d"
    then show "owned s' d" using request by (intro owned_phase [of _ u q]) auto
  next
    fix u q d assume "lf_phase s u = Some q" "reports q d"
    then show "owned s' d" using request by (intro owned_phase [of _ u q]) auto
  next
    fix dir c assume "child_at s dir = Some c" "child_temporary c"
    then show "owned s' (w_state_dir (child_world c))" using owned_child [of s' dir c] request by (simp add: child_at_def)
  qed (simp add: request)
next
  case (act i t)
  show ?thesis
  proof (cases "lf_phase s t")
    case None
    then show ?thesis by (simp add: act life_run_def passes_def)
  next
    case (Some ph)
    obtain ph' s1 where a: "life_act i t ph s = (ph', s1)" by fastforce
    have s': "s' = enter_phase t ph' s1" by (simp add: act(1) life_run_def Some a)
    show ?thesis unfolding s' by (rule passes_act [OF a ok Some]) (use calm s' in simp)
  qed
next
  case (observe i token)
  have away: "tidy s (observe_end i token c s)" for c
  proof -
    have o: "tidy s1 (s1\<lparr>lf_observers := f\<rparr>)" for s1 f by (simp add: tidy_same quiet_observers)
    have "tidy s s1" if "child_at s (w_config_dir (child_world c)) = Some c'" "child_temporary c'"
        "cleanup_temporary i c' s = (f, s1)" for c' f s1
      using tidy_cleanup [OF that(3)] temps_okD(1) [OF ok that(1,2)] that(1) by simp
    then show ?thesis
      using tidy_trans [OF _ o] o by (auto simp: observe_end_def Let_def split: option.split if_splits prod.splits)
        (metis prod.collapse)
  qed
  have still: "tidy s (s\<lparr>lf_reaped := r # lf_reaped s, lf_observers := f\<rparr>)" for r f
    by (rule tidy_same) (use quiet_trans [OF quiet_reaped quiet_observers] in \<open>simp_all add: child_at_def\<close>)
  have td: "tidy s s'"
    using away still by (auto simp: observe observer_step_def split: option.split observer.split)
  note q = quietD [OF tidyD(1) [OF td]]
  show ?thesis
  proof (rule passesI)
    fix dir c assume c: "child_at s dir = Some c" "child_temporary c" "w_state_dir (child_world c) \<in> set (lf_dirs s')"
    with tidyD(2) [OF td] have "child_at s' dir = Some c" by blast
    then show "owned s' (w_state_dir (child_world c))" using c(2) owned_child by blast
  next
    fix u x d assume "lf_phase s u = Some x" "making x = Some d"
    then show "owned s' d" by (intro owned_phase [of _ u x]) (simp_all add: q(2))
  next
    fix u x d assume "lf_phase s u = Some x" "reports x d"
    then show "owned s' d" by (intro owned_phase [of _ u x]) (simp_all add: q(2))
  qed (use q(10) in auto)
next
  case (admit ident b generation w)
  show ?thesis
  proof (rule passes_restart)
    show "restart_entry [] (child_at s d) (child_at s' d)" for d unfolding admit(1) by (simp add: child_at_def admit_entries)
  qed (simp_all add: admit)
next
  case (restart token b generation ident)
  show ?thesis
  proof (rule passes_restart)
    show "restart_entry token (child_at s d) (child_at s' d)" for d
      using run_entries [OF reachable_ok [OF m] reachable_persistent [OF m] reachable_homes [OF m]]
      by (simp add: restart child_at_def)
  qed (simp_all add: restart)
next
  case (others cs hs)
  show ?thesis by (rule passes_restart [where token = "[]"]) (simp_all add: others child_at_def)
qed

lemma orderly_dirs: "orderly s \<Longrightarrow> dirs_ok s"
proof (induction rule: orderly.induct)
  case (start s)
  then show ?case by (simp add: dirs_ok_def life_start_def)
next
  case (step s s')
  have r: "reachable_life s" by (rule orderly_reachable [OF step.hyps(1)])
  show ?case
    by (rule passes_ok [OF dirs_step [OF step.hyps(2) reachable_temps [OF r] reachable_life_mill [OF r] step.hyps(3)] step.IH])
qed

end
