(* ===== verification/Life_Runs.thy ===== *)
theory Life_Runs
  imports Life_Dirs
begin

text \<open>
  The properties of starts, stops and the shutdown of the Mill, with concrete runs.
\<close>

section \<open>The end of a start\<close>

fun claim_rank :: "life_phase \<Rightarrow> nat" where
  "claim_rank (PrepareStart q w) = 9"
| "claim_rank (MakeDirs q w name) = 8"
| "claim_rank (EnterChild c) = 7"
| "claim_rank (StartChild c) = 6"
| "claim_rank (AwaitReady c) = 5"
| "claim_rank (KillStarted c f) = 4"
| "claim_rank (DiscardStarted c fs) = 3"
| "claim_rank (PublishChild c st) = 3"
| "claim_rank (UndoDir w fs) = 2"
| "claim_rank (ReleaseClaim dir ans) = 1"
| "claim_rank ph = 0"

lemma claim_rank_pos: "claimed ph \<noteq> None \<longleftrightarrow> 0 < claim_rank ph" "claim_rank ph \<le> 9"
  by (cases ph; simp)+

lemma act_rank:
  assumes "life_act i t ph s = (ph', s')" "claimed ph \<noteq> None"
  shows "claim_rank ph' < claim_rank ph"
  using assms
  by (cases ph)
     (auto simp: acts loud_defs release_claim_act_def Let_def split: sum.splits option.splits if_splits prod.splits)

text \<open>The steps of one goroutine, each with inputs of its own.\<close>

definition own_steps :: "nat \<Rightarrow> life_input list \<Rightarrow> life \<Rightarrow> life" where
  "own_steps t is s = foldl (\<lambda>s i. life_run i t s) s is"

lemma own_steps_simps [simp]:
  "own_steps t [] s = s" "own_steps t (i # is) s = own_steps t is (life_run i t s)"
  by (simp_all add: own_steps_def)

lemma replied_stays:
  assumes "lf_phase s t = Some (Replied ans)"
  shows "lf_phase (own_steps t is s) t = Some (Replied ans) \<and> lf_owner (own_steps t is s) = lf_owner s"
  using assms by (induction "is" arbitrary: s) (auto simp: life_run_def)

lemma claim_ends:
  assumes "life_ok s" "lf_phase s t = Some ph" "claimed ph = Some dir" "claim_rank ph \<le> length is"
  shows "(\<exists>ans. lf_phase (own_steps t is s) t = Some (Replied ans)) \<and> lf_owner (own_steps t is s) dir = None"
  using assms
proof (induction "is" arbitrary: s ph)
  case Nil
  then show ?case using claim_rank_pos(1) [of ph] by simp
next
  case (Cons i "is")
  obtain ph' s' where a: "life_act i t ph s = (ph', s')" by fastforce
  have r: "life_run i t s = enter_phase t ph' s'" by (simp add: life_run_def Cons.prems(2) a)
  have rank: "claim_rank ph' < claim_rank ph" by (rule act_rank [OF a]) (simp add: Cons.prems(3))
  show ?case
  proof (cases "\<exists>d ans. ph = ReleaseClaim d ans")
    case True
    then obtain ans where ph: "ph = ReleaseClaim dir ans" using Cons.prems(3) by auto
    have "lf_owner s dir = Some t" using life_okD(1) [OF Cons.prems(1,2,3)] .
    then have "ph' = Replied ans" "lf_owner s' dir = None" using a by (auto simp: ph release_claim_act_def)
    then show ?thesis using replied_stays [of "life_run i t s" t ans "is"] by (simp add: r)
  next
    case False
    then have "\<not> claiming ph" using Cons.prems(3) by (cases ph) auto
    then have c: "claimed ph' = Some dir" using life_act_claims [OF a] Cons.prems(3) by simp
    have "life_ok (life_run i t s)" by (rule life_ok_run [OF Cons.prems(1)])
    then show ?thesis using Cons.IH [of "life_run i t s" ph'] c rank Cons.prems(4) by (simp add: r)
  qed
qed

section \<open>What a stop signals and removes\<close>

lemma terminate_signals: "set (terminate_process b (Some pid)) \<subseteq> {ToGroup pid Term, ToPid pid Term, ToPid pid Kill}"
  by (auto simp: terminate_process_def terminate_pid_def)

lemma cleanup_removed: "cleanup_artifacts w who file removable = (ok, paths) \<Longrightarrow> set paths \<subseteq> set (artifact_paths w)"
  by (auto simp: cleanup_artifacts_def split: artifact_file.splits if_splits)

definition logs :: "life \<Rightarrow> life \<Rightarrow> signal_sent list \<Rightarrow> string list \<Rightarrow> bool" where
  "logs s s' sent paths \<longleftrightarrow> lf_signals s' = lf_signals s @ sent \<and> lf_removed s' = lf_removed s @ paths"

text \<open>
  What a section does to custodies and runtime directories: those of the state directories \<open>ds\<close>, and no others, are shut
  down, dropped or removed.
\<close>

definition spares :: "string set \<Rightarrow> life \<Rightarrow> life \<Rightarrow> bool" where
  "spares ds s s' \<longleftrightarrow>
     (\<exists>shut. lf_shut s' = lf_shut s @ shut \<and> set shut \<subseteq> ds)
     \<and> (\<forall>d. d \<notin> ds \<longrightarrow> map_of (custodies (lf_mill s')) d = map_of (custodies (lf_mill s)) d)
     \<and> (\<forall>d. d \<notin> ds \<longrightarrow> (d \<in> set (lf_dirs s') \<longleftrightarrow> d \<in> set (lf_dirs s)))"

lemma logs_refl [simp]: "logs s s [] []"
  by (simp add: logs_def)

lemma logs_trans: "logs s s1 a p \<Longrightarrow> logs s1 s2 b q \<Longrightarrow> logs s s2 (a @ b) (p @ q)"
  by (simp add: logs_def)

lemma spares_refl [simp]: "spares ds s s"
  by (simp add: spares_def)

lemma spares_trans: "spares ds s s1 \<Longrightarrow> spares ds s1 s2 \<Longrightarrow> spares ds s s2"
  unfolding spares_def by (metis append_assoc le_sup_iff set_append)

lemma spares_same:
  "lf_shut s' = lf_shut s \<Longrightarrow> custodies (lf_mill s') = custodies (lf_mill s) \<Longrightarrow> lf_dirs s' = lf_dirs s \<Longrightarrow> spares ds s s'"
  by (simp add: spares_def)

lemma log_simps [simp]:
  "lf_signals (lift_mill f s) = lf_signals s" "lf_removed (lift_mill f s) = lf_removed s" "lf_shut (lift_mill f s) = lf_shut s"
  "lf_signals (send sent s) = lf_signals s @ sent" "lf_removed (send sent s) = lf_removed s" "lf_shut (send sent s) = lf_shut s"
  "lf_signals (removes paths s) = lf_signals s" "lf_removed (removes paths s) = lf_removed s @ paths"
  "lf_shut (removes paths s) = lf_shut s" "lf_mill (send sent s) = lf_mill s" "lf_mill (removes paths s) = lf_mill s"
  "lf_signals (shut_custody dir s) = lf_signals s" "lf_removed (shut_custody dir s) = lf_removed s"
  "lf_signals (forget_temporary c s) = lf_signals s" "lf_removed (forget_temporary c s) = lf_removed s"
  by (simp_all add: lift_mill_def send_def removes_def shut_custody_def forget_temporary_def split: option.split)

lemma spares_custody: "spares {dir} s (shut_custody dir s)"
  by (auto simp: spares_def shut_custody_def update_conv' split: option.split)

lemma spares_forget: "spares {w_state_dir (child_world c)} s (forget_temporary c s)"
  by (auto simp: spares_def forget_temporary_def lift_mill_def delete_conv')

lemma logs_artifacts:
  assumes "clean_artifacts i w who s = (ok, s')"
  shows "\<exists>paths. logs s s' [] paths \<and> set paths \<subseteq> set (artifact_paths w) \<and> spares ds s s'"
  using assms cleanup_removed by (auto simp: clean_artifacts_def logs_def spares_same split: prod.splits)

lemma logs_published:
  assumes "clean_published i c s = (ok, s')"
  shows "\<exists>paths. logs s s' [] paths \<and> set paths \<subseteq> set (artifact_paths (child_world c)) \<and> spares ds s s'"
proof (cases "id_weaver (child_identity c) = []")
  case True
  then have "s' = s" using assms by (simp add: clean_published_def)
  then have "logs s s' [] [] \<and> set [] \<subseteq> set (artifact_paths (child_world c)) \<and> spares ds s s'" by simp
  then show ?thesis by blast
next
  case False
  then show ?thesis using assms logs_artifacts by (simp add: clean_published_def)
qed

lemma logs_cleanup:
  assumes "cleanup_temporary i c s = (f, s')"
  shows "\<exists>paths. logs s s' [] paths
     \<and> (\<forall>p\<in>set paths. p \<in> set (artifact_paths (child_world c))
          \<or> p = w_state_dir (child_world c) \<and> is_temporary_runtime_dir (li_root i) p)
     \<and> spares {w_state_dir (child_world c)} s s'"
proof -
  let ?dir = "w_state_dir (child_world c)"
  let ?ok = "\<lambda>s' paths. logs s s' [] paths
     \<and> (\<forall>p\<in>set paths. p \<in> set (artifact_paths (child_world c)) \<or> p = ?dir \<and> is_temporary_runtime_dir (li_root i) p)
     \<and> spares {?dir} s s'"
  obtain ok s2 where p: "clean_published i c (shut_custody ?dir s) = (ok, s2)" by fastforce
  obtain g s3 where r: "remove_temporary_world i (child_world c) s2 = (g, s3)" by fastforce
  obtain paths where l: "logs (shut_custody ?dir s) s2 [] paths" "set paths \<subseteq> set (artifact_paths (child_world c))"
    "spares {?dir} (shut_custody ?dir s) s2" using logs_published [OF p] by blast
  have 1: "?ok (shut_custody ?dir s) []" using spares_custody by (simp add: logs_def)
  have 2: "?ok s2 paths" using l spares_trans [OF spares_custody l(3)] by (auto simp: logs_def)
  have "\<exists>q. logs s2 s3 [] q \<and> (\<forall>x\<in>set q. x = ?dir \<and> is_temporary_runtime_dir (li_root i) x) \<and> spares {?dir} s2 s3"
    using r by (auto simp: remove_temporary_world_def Let_def logs_def spares_def split: if_splits)
  then obtain q where q: "logs s2 s3 [] q" "\<forall>x\<in>set q. x = ?dir \<and> is_temporary_runtime_dir (li_root i) x" "spares {?dir} s2 s3"
    by blast
  have 3: "?ok s3 (paths @ q)"
    using 2 q(2) logs_trans [OF conjunct1 [OF 2] q(1)] spares_trans [OF _ q(3)] by auto
  then have 4: "?ok (forget_temporary c s3) (paths @ q)"
    using spares_trans [OF _ spares_forget] by (auto simp: logs_def)
  have noted: "?ok (s1\<lparr>lf_cleanup := x\<rparr>) ps" if "?ok s1 ps" for s1 x ps
    using that by (auto simp: logs_def spares_def)
  have "(\<exists>x. s' = (shut_custody ?dir s)\<lparr>lf_cleanup := x\<rparr>) \<or> (\<exists>x. s' = s2\<lparr>lf_cleanup := x\<rparr>) \<or> (\<exists>x. s' = s3\<lparr>lf_cleanup := x\<rparr>)
      \<or> (\<exists>x. s' = (forget_temporary c s3)\<lparr>lf_cleanup := x\<rparr>)"
    using assms unfolding cleanup_temporary_def Let_def p prod.case r by (auto split: option.splits if_splits)
  then show ?thesis using noted [OF 1] noted [OF 2] noted [OF 3] noted [OF 4] by blast
qed

text \<open>The processes a stop may signal: the child of the workspace, or the recorded process that proved itself.\<close>

definition own_signal :: "weaver_child \<Rightarrow> signal_sent \<Rightarrow> bool" where
  "own_signal c x \<longleftrightarrow> (\<exists>pid k. child_cmd c = Some pid \<and> (x = ToPid pid k \<or> x = ToGroup pid Term))"

definition proved_signal :: "life_input \<Rightarrow> world \<Rightarrow> signal_sent \<Rightarrow> bool" where
  "proved_signal i w x \<longleftrightarrow>
     (\<exists>c k. child_unsupervised c \<and> child_world c = w \<and> x = ToPid (id_pid (child_identity c)) k
        \<and> confirmed c (fst (in_sights (li_base i))) \<and> confirmed c (fst (snd (in_sights (li_base i))))
        \<and> (k = Kill \<longrightarrow> confirmed c (snd (snd (in_sights (li_base i))))))"

lemma recorded_signals:
  assumes u: "child_unsupervised c"
    and st: "stop_recorded_generation (Some c) w see see1 gone1 see2 gone2 file removable = (err, sent, paths)"
  shows "(\<forall>x\<in>set sent. \<exists>k. x = ToPid (id_pid (child_identity c)) k \<and> confirmed c see \<and> confirmed c see1 \<and> (k = Kill \<longrightarrow> confirmed c see2))
     \<and> set paths \<subseteq> set (artifact_paths w)"
proof (cases "child_cmd c")
  case None
  then show ?thesis using st by (auto simp: stop_recorded_generation_def)
next
  case (Some pid)
  obtain r sg where t: "terminate_and_confirm c pid see1 gone1 see2 gone2 = (r, sg)" by fastforce
  show ?thesis
  proof (cases "pid \<le> 0 \<or> verify_unsupervised (Some c) see \<noteq> None")
    case True
    then show ?thesis using st Some by (auto simp: stop_recorded_generation_def split: if_splits)
  next
    case False
    then have v: "verify_unsupervised (Some c) see = None" "0 < pid" by auto
    note c = verify_confirmed [OF u v(1)]
    have sg: "\<forall>x\<in>set sg. \<exists>k. x = ToPid (id_pid (child_identity c)) k \<and> confirmed c see1 \<and> (k = Kill \<longrightarrow> confirmed c see2)"
      using t verify_confirmed [OF u] c Some u
      by (auto simp: terminate_and_confirm_def signal_recorded_pid_def Let_def split: option.splits if_splits)
    have "sent = sg \<and> set paths \<subseteq> set (artifact_paths w)"
      using st v Some by (auto simp: stop_recorded_generation_def t cleanup_removed split: sum.splits bool.splits prod.splits
          dest: cleanup_removed)
    then show ?thesis using sg c by blast
  qed
qed

lemma logs_unsupervised:
  assumes "stop_unsupervised i w s = (ans, s')"
  shows "\<exists>sent paths. logs s s' sent paths \<and> (\<forall>x\<in>set sent. proved_signal i w x) \<and> set paths \<subseteq> set (artifact_paths w)
     \<and> spares ds s s'"
proof -
  obtain v b where v: "read_status (li_base i) (in_metadata (li_base i)) (lf_mill s) w = (v, b)" by fastforce
  consider "s' = s" | who ok where "clean_artifacts i w who s = (ok, s')" | "s' = removes [join_path [w_state_dir w, ''weaver.json'']] s"
    | c err sent paths where "child_unsupervised c" "child_world c = w" "stop_recorded_generation (Some c) w (fst (in_sights (li_base i)))
          (fst (snd (in_sights (li_base i)))) (fst (in_gone (li_base i))) (snd (snd (in_sights (li_base i))))
          (snd (in_gone (li_base i))) (li_artifact i w) (in_removable (li_base i)) = (err, sent, paths)"
        "s' = removes paths (send sent s)"
  proof (cases v)
    case None
    then show ?thesis using assms that(1) by (simp add: stop_unsupervised_def v)
  next
    case (Some st)
    show ?thesis
    proof (cases b)
      case True
      then show ?thesis
        using assms that(1-3) by (auto simp: stop_unsupervised_def v Some split: sum.splits prod.splits if_splits)
    next
      case False
      show ?thesis
      proof (cases "identity_from_status st")
        case (Inl e)
        then show ?thesis using assms that(1) by (simp add: stop_unsupervised_def v Some False)
      next
        case (Inr who)
        let ?c = "\<lparr>child_cmd = Some (id_pid who), child_world = w, child_name = sprint (map_of st ''name''),
                         child_identity = who, child_temporary = False, child_unsupervised = True,
                         child_generation = [], child_launch_token = [], child_startup_weaver = []\<rparr>"
        obtain err sent paths where e: "stop_recorded_generation (Some ?c) w (fst (in_sights (li_base i)))
          (fst (snd (in_sights (li_base i)))) (fst (in_gone (li_base i))) (snd (snd (in_sights (li_base i))))
          (snd (in_gone (li_base i))) (li_artifact i w) (in_removable (li_base i)) = (err, sent, paths)" by (metis prod_cases3)
        have "s' = removes paths (send sent s)"
          using assms e by (auto simp: stop_unsupervised_def v Some False Inr Let_def case_prod_beta split: option.splits)
        then show ?thesis using that(4) [OF _ _ e] by simp
      qed
    qed
  qed
  then show ?thesis
  proof cases
    case 1
    then show ?thesis by (intro exI [of _ "[]"]) simp
  next
    case 2
    then obtain paths where "logs s s' [] paths" "set paths \<subseteq> set (artifact_paths w)" "spares ds s s'" using logs_artifacts by blast
    then show ?thesis by (intro exI [of _ "[]"] exI [of _ paths]) simp
  next
    case 3
    then show ?thesis
      by (intro exI [of _ "[]"] exI [of _ "[join_path [w_state_dir w, ''weaver.json'']]"]) (simp add: logs_def artifact_paths_def spares_same)
  next
    case 4
    have "\<forall>x\<in>set sent. proved_signal i w x" using recorded_signals [OF 4(1,3)] 4(1,2) unfolding proved_signal_def by blast
    then show ?thesis
      using recorded_signals [OF 4(1,3)] 4(4) by (intro exI [of _ sent] exI [of _ paths]) (simp add: logs_def spares_same)
  qed
qed

lemma logs_stop_started:
  "\<exists>sent. logs s (stop_started_child i c s) sent [] \<and> (\<forall>x\<in>set sent. own_signal c x) \<and> spares ds s (stop_started_child i c s)"
proof (cases "reaped s c \<or> child_cmd c = None")
  case True
  then show ?thesis by (intro exI [of _ "[]"]) (auto simp: stop_started_child_def split: option.split)
next
  case False
  then obtain pid where pid: "child_cmd c = Some pid" by auto
  have "logs s (stop_started_child i c s) (terminate_process (li_late i) (Some pid)) []"
    using False pid by (simp add: stop_started_child_def logs_def send_def)
  moreover have "spares ds s (stop_started_child i c s)" using False pid by (simp add: stop_started_child_def spares_same)
  moreover have "\<forall>x\<in>set (terminate_process (li_late i) (Some pid)). own_signal c x"
    using terminate_signals [of "li_late i" pid] by (auto simp: own_signal_def pid)
  ultimately show ?thesis by blast
qed

text \<open>
  The section of a stop, as a whole: what it signals and removes, which custodies it shuts down and which runtime
  directories go.  A temporary child may lose its custody and its directory; nothing else does.
\<close>

definition own_dirs :: "world \<Rightarrow> life \<Rightarrow> string set" where
  "own_dirs w s = {d. \<exists>c. child_at s (w_config_dir w) = Some c \<and> child_temporary c \<and> d = w_state_dir (child_world c)}"

definition own_path :: "life_input \<Rightarrow> world \<Rightarrow> life \<Rightarrow> string \<Rightarrow> bool" where
  "own_path i w s p \<longleftrightarrow>
     p \<in> set (artifact_paths w)
     \<or> (\<exists>c. child_at s (w_config_dir w) = Some c \<and> p \<in> set (artifact_paths (child_world c)))
     \<or> p \<in> own_dirs w s \<and> is_temporary_runtime_dir (li_root i) p"

definition sound_stop :: "life_input \<Rightarrow> world \<Rightarrow> life \<Rightarrow> life \<Rightarrow> bool" where
  "sound_stop i w s s' \<longleftrightarrow>
     (\<exists>sent paths. logs s s' sent paths
        \<and> (\<forall>x\<in>set sent. (\<exists>c. child_at s (w_config_dir w) = Some c \<and> own_signal c x) \<or> proved_signal i w x)
        \<and> (\<forall>p\<in>set paths. own_path i w s p))
     \<and> spares (own_dirs w s) s s'"

lemma sound_stopI:
  "logs s s' sent paths \<Longrightarrow>
   (\<And>x. x \<in> set sent \<Longrightarrow> (\<exists>c. child_at s (w_config_dir w) = Some c \<and> own_signal c x) \<or> proved_signal i w x) \<Longrightarrow>
   (\<And>p. p \<in> set paths \<Longrightarrow> own_path i w s p) \<Longrightarrow> spares (own_dirs w s) s s' \<Longrightarrow> sound_stop i w s s'"
  unfolding sound_stop_def by blast

lemma stop_unsupervised_sound:
  assumes "stop_unsupervised i w (lift_mill (\<lambda>m. m\<lparr>children := f m\<rparr>) s) = (ans, s')"
  shows "sound_stop i w s s'"
proof -
  let ?s = "lift_mill (\<lambda>m. m\<lparr>children := f m\<rparr>) s"
  obtain sent paths where "logs ?s s' sent paths" "\<forall>x\<in>set sent. proved_signal i w x"
    "set paths \<subseteq> set (artifact_paths w)" "spares (own_dirs w s) ?s s'" using logs_unsupervised [OF assms] by blast
  moreover have "spares (own_dirs w s) s ?s" by (rule spares_same) simp_all
  ultimately show ?thesis
    using spares_trans by (intro sound_stopI [of s s' sent paths]) (auto simp: logs_def own_path_def)
qed

lemma stop_section_effect:
  assumes st: "stop_section i w s = (ans, s')" and hm: "home s"
  shows "sound_stop i w s s' \<and> (\<forall>d. d \<noteq> w_config_dir w \<longrightarrow> child_at s' d = child_at s d)
     \<and> (\<forall>v. ans = Reply v \<longrightarrow> child_at s' (w_config_dir w) = None)"
proof -
  let ?dir = "w_config_dir w"
  let ?drop = "\<lambda>m::mill. m\<lparr>children := AList.delete ?dir (children m)\<rparr>"
  have drop: "child_at (lift_mill ?drop s1) d = (if d = ?dir then None else child_at s1 d)" for s1 d
    by (simp add: child_at_def [of s1] delete_conv')
  have un: ?thesis if "stop_unsupervised i w (lift_mill ?drop s) = (ans, s')"
  proof -
    have "child_at s' d = child_at (lift_mill ?drop s) d" for d
      using child_at_unsupervised [of i w "lift_mill ?drop s" d] unfolding that snd_conv .
    then show ?thesis using stop_unsupervised_sound [OF that] drop by auto
  qed
  show ?thesis
  proof (cases "child_at s ?dir")
    case None
    then show ?thesis using st un by (simp add: stop_section_def Let_def)
  next
    case (Some c)
    consider "child_temporary c" | "\<not> child_temporary c" "living (li_base i) c" | "\<not> child_temporary c" "\<not> living (li_base i) c" by blast
    then show ?thesis
    proof cases
      case 1
      have cfg: "w_config_dir (child_world c) = ?dir" using hm Some 1 by (simp add: home_def)
      obtain f s1 where e: "cleanup_temporary i c (stop_started_child i c s) = (f, s1)" by fastforce
      have s1: "s' = s1" "f \<noteq> None \<Longrightarrow> ans = Fails [the f]"
        using st by (auto simp: stop_section_def Some 1 stop_temporary_def e Let_def split: option.splits)
      have own: "own_dirs w s = {w_state_dir (child_world c)}" using Some 1 by (simp add: own_dirs_def)
      obtain sent where l1: "logs s (stop_started_child i c s) sent []" "\<forall>x\<in>set sent. own_signal c x"
        "spares (own_dirs w s) s (stop_started_child i c s)" using logs_stop_started by blast
      obtain paths where l2: "logs (stop_started_child i c s) s1 [] paths"
        "\<forall>p\<in>set paths. p \<in> set (artifact_paths (child_world c))
           \<or> p = w_state_dir (child_world c) \<and> is_temporary_runtime_dir (li_root i) p"
        "spares (own_dirs w s) (stop_started_child i c s) s1" using logs_cleanup [OF e] unfolding own by blast
      have "sound_stop i w s s'"
        using logs_trans [OF l1(1) l2(1)] l1(2) l2(2) spares_trans [OF l1(3) l2(3)] Some
        by (intro sound_stopI [of s s' sent paths]) (auto simp: s1(1) own_path_def own)
      moreover have "child_at s' d = child_at s d" if "d \<noteq> ?dir" for d
        using cleanup_cases [OF e] that cfg by (cases f) (simp_all add: s1(1))
      moreover have "child_at s' ?dir = None" if "ans = Reply v" for v
        using cleanup_cases [OF e] that cfg s1 by (cases f) simp_all
      ultimately show ?thesis by blast
    next
      case 2
      let ?k = "(send (terminate_process (li_late i) (child_cmd c)) s)\<lparr>lf_reaped := child_launch_token c # lf_reaped s\<rparr>"
      obtain ok s2 where e: "clean_artifacts i (child_world c) (child_identity c) ?k = (ok, s2)" by fastforce
      have at: "child_at s2 d = child_at s d" for d
        using child_at_clean [of i "child_world c" "child_identity c" ?k d] unfolding e by simp
      have s': "s' = s2 \<and> ans = Fails [StopTeardown] \<or> s' = lift_mill ?drop s2"
        using st by (cases ok) (auto simp: stop_section_def Some 2 stop_supervised_def Let_def e)
      obtain pid where pid: "child_cmd c = Some pid" using 2(2) by (auto simp: living_def split: option.splits)
      obtain paths where l: "logs ?k s2 [] paths" "set paths \<subseteq> set (artifact_paths (child_world c))" "spares (own_dirs w s) ?k s2"
        using logs_artifacts [OF e] by blast
      have "spares (own_dirs w s) s ?k" by (rule spares_same) simp_all
      then have sp: "spares (own_dirs w s) s s2" by (rule spares_trans [OF _ l(3)])
      have "spares (own_dirs w s) s2 (lift_mill ?drop s2)" by (rule spares_same) simp_all
      then have sp': "spares (own_dirs w s) s s'" using s' sp spares_trans by blast
      have "logs s s' (terminate_process (li_late i) (Some pid)) paths" using l(1) s' by (auto simp: logs_def pid)
      moreover have "own_signal c x" if "x \<in> set (terminate_process (li_late i) (Some pid))" for x
        using terminate_signals [of "li_late i" pid] that by (auto simp: own_signal_def pid)
      ultimately have "sound_stop i w s s'" using l(2) Some sp' by (intro sound_stopI) (auto simp: own_path_def)
      then show ?thesis using s' at drop by auto
    next
      case 3
      then show ?thesis using st un by (simp add: stop_section_def Some Let_def)
    qed
  qed
qed

section \<open>A stop that comes late\<close>

text \<open>The phases of a start that lost its entry, while it still succeeds, and once it fails.\<close>

fun orphan_phase :: "string \<Rightarrow> life_phase \<Rightarrow> bool" where
  "orphan_phase dir (AwaitReady c) = (w_config_dir (child_world c) = dir)"
| "orphan_phase dir (PublishChild c st) = (w_config_dir (child_world c) = dir)"
| "orphan_phase dir (ReleaseClaim d (Reply st)) = True"
| "orphan_phase dir (Replied (Reply st)) = True"
| "orphan_phase dir ph = False"

fun failing :: "life_phase \<Rightarrow> bool" where
  "failing (KillStarted c f) = True"
| "failing (DiscardStarted c fs) = True"
| "failing (ReleaseClaim d (Fails fs)) = True"
| "failing (Replied (Fails fs)) = True"
| "failing ph = False"

lemma failing_stays: "failing ph \<Longrightarrow> life_act i t ph s = (ph', s') \<Longrightarrow> failing ph'"
  by (cases ph rule: failing.cases)
     (auto simp: acts loud_defs release_claim_act_def Let_def split: option.splits if_splits prod.splits)

lemma failing_run: "lf_phase s t = Some ph \<Longrightarrow> failing ph \<Longrightarrow> \<exists>ph'. lf_phase (own_steps t is s) t = Some ph' \<and> failing ph'"
proof (induction "is" arbitrary: s ph)
  case (Cons i "is")
  obtain ph' s' where a: "life_act i t ph s = (ph', s')" by fastforce
  have "lf_phase (life_run i t s) t = Some ph'" by (simp add: life_run_def Cons.prems(1) a)
  from Cons.IH [OF this failing_stays [OF Cons.prems(2) a]] show ?case by simp
qed simp

lemma orphan_act:
  assumes "life_act i t ph s = (ph', s')" "orphan_phase dir ph" "child_at s dir = None"
  shows "failing ph' \<or> orphan_phase dir ph' \<and> child_at s' dir = None \<and> lf_signals s' = lf_signals s \<and> lf_observers s' = lf_observers s
     \<and> (\<forall>u. lf_phase s' u = lf_phase s u)"
  using assms
  by (cases "(dir, ph)" rule: orphan_phase.cases)
     (auto simp: acts loud_defs release_claim_act_def update_child_def Let_def child_at_def split: option.splits if_splits prod.splits sum.splits)

lemma orphan_run:
  assumes "lf_phase s t = Some ph" "orphan_phase dir ph" "child_at s dir = None" "lf_phase (own_steps t is s) t = Some (Replied (Reply st))"
  shows "child_at (own_steps t is s) dir = None \<and> lf_signals (own_steps t is s) = lf_signals s
     \<and> lf_observers (own_steps t is s) = lf_observers s \<and> (\<forall>u. u \<noteq> t \<longrightarrow> lf_phase (own_steps t is s) u = lf_phase s u)"
  using assms
proof (induction "is" arbitrary: s ph)
  case (Cons i "is")
  obtain ph' s' where a: "life_act i t ph s = (ph', s')" by fastforce
  have r: "life_run i t s = enter_phase t ph' s'" by (simp add: life_run_def Cons.prems(1) a)
  have "\<not> failing ph'" using failing_run [of "life_run i t s" t ph' "is"] Cons.prems(4) by (auto simp: r)
  then have o: "orphan_phase dir ph'" "child_at s' dir = None" "lf_signals s' = lf_signals s" "lf_observers s' = lf_observers s"
    "\<forall>u. lf_phase s' u = lf_phase s u"
    using orphan_act [OF a Cons.prems(2,3)] by auto
  have e: "lf_signals (enter_phase t ph' s') = lf_signals s'" "lf_observers (enter_phase t ph' s') = lf_observers s'"
    by (simp_all add: enter_phase_def)
  have "lf_phase (life_run i t s) t = Some ph'" "child_at (life_run i t s) dir = None" using o(2) by (simp_all add: r child_at_def enter_phase_def)
  from Cons.IH [OF this(1) o(1) this(2)] Cons.prems(4) show ?case using o by (simp add: r e)
qed simp

section \<open>Concrete runs\<close>

text \<open>Inputs under which everything succeeds, and states with no Weaver.\<close>

definition ex_source :: source_env where
  "ex_source = \<lparr>se_variable = ''/src'', se_installed = [], se_root = Err [], se_validate = (\<lambda>_. Ok), se_release = (\<lambda>_. None)\<rparr>"

definition ex_status :: status where
  "ex_status = [(''pid'', SInt 7), (''weaver_id'', SV (JStr ''w'')), (''started_at'', SV (JStr ''now'')),
     (''socket_path'', SV (JStr ''/s/weaver.sock'')), (''config_dir'', SV (JStr ''/w'')), (''state_dir'', SV (JStr ''/s'')),
     (''data_dir'', SV (JStr ''/d''))]"

definition ex_poll :: poll where
  "ex_poll = \<lparr>po_shutdown = False, po_view = (Some ex_status, False), po_done = False, po_alive = True, po_late = False, po_cancelled = False\<rparr>"

definition ex_base :: inputs where
  "ex_base = demo_inputs\<lparr>in_pid := 7, in_polls := [ex_poll]\<rparr>"

definition ex_input :: "string \<Rightarrow> life_input" where
  "ex_input token =
     \<lparr>li_base = ex_base, li_world = Ok demo_world, li_host = Ok None, li_pool = Ok [], li_registered = Ok None, li_recorded = False,
      li_membership = Ok False, li_pooled = Fails [], li_source = ex_source, li_suffix = Ok ''x'', li_root = Some ''/r'',
      li_token = token, li_generation = ''g'', li_nolog = False, li_tail = [], li_late = False, li_exited = False,
      li_custody = (\<lambda>_. None), li_artifact = (\<lambda>_. ArtifactGone), li_undeletable = (\<lambda>_. False), li_dependency = Ok None,
      li_malformed = False, li_ready_path = (\<lambda>_. [])\<rparr>"

definition ex_mill :: "(string \<times> document_text) list \<Rightarrow> life" where
  "ex_mill disk =
     \<lparr>lf_mill = demo_mill\<lparr>m_disk := disk\<rparr>, lf_owner = Map.empty, lf_starting = [], lf_tokens = [], lf_reaped = [], lf_cleanup = Map.empty,
      lf_observers = Map.empty, lf_dirs = [], lf_signals = [], lf_removed = [], lf_shut = [], lf_phase = Map.empty\<rparr>"

definition ex_request :: "bool \<Rightarrow> start_request" where
  "ex_request temporary = \<lparr>q_temporary = temporary, q_name = [], q_timeout = 0\<rparr>"

fun ex_run :: "(string \<times> nat) list \<Rightarrow> life \<Rightarrow> life" where
  "ex_run [] s = s"
| "ex_run ((token, t) # xs) s = ex_run xs (life_run (ex_input token) t s)"

definition ex_both :: life where
  "ex_both = (ex_mill [])\<lparr>lf_phase := [0 \<mapsto> Arrive (ex_request False), 1 \<mapsto> StopArrive]\<rparr>"

lemmas ex_defs = life_run_def enter_phase_def acts loud_defs admit_start_act_def check_start_mode_def transition_at_def
  record_outcome_def read_restart_record_def read_status_def read_status_with_def install_claim_def release_claim_act_def
  lift_mill_def child_at_def stop_section_def stop_unsupervised_def stopped_status_def living_def update_child_def
  resolve_launch_source_def validate_launch_source_def friendly_name_def base_path_def wait_ready.simps fresh_status_def
  identity_from_status_def string_status_def is_space_def


lemmas ex_data = ex_both_def ex_mill_def ex_input_def ex_base_def demo_inputs_def demo_world_def demo_mill_def
  ex_source_def ex_request_def ex_status_def ex_poll_def

lemma ex_mill_start: "life_start (ex_mill disk)"
  by (simp add: life_start_def ex_mill_def initial_def demo_mill_def)

text \<open>The steps of such a run draw fresh tokens and directories and displace nobody.\<close>

fun ex_fits :: "(string \<times> nat) list \<Rightarrow> life \<Rightarrow> bool" where
  "ex_fits [] s = True"
| "ex_fits ((token, t) # xs) s =
     (token \<notin> set (lf_tokens s) \<and> lf_dirs s = [] \<and> list_all (\<lambda>(d, c). \<not> child_temporary c) (children (lf_mill s))
      \<and> ex_fits xs (life_run (ex_input token) t s))"

lemma no_temporary: "list_all (\<lambda>(d, c). \<not> child_temporary c) (children (lf_mill s)) \<Longrightarrow> \<not> displaced s s'"
  by (auto simp: displaced_def child_at_def list_all_iff dest: map_of_SomeD)

lemma orderly_request:
  assumes "orderly s" "lf_phase s t = None" "first_request ph"
  shows "orderly (s\<lparr>lf_phase := (lf_phase s)(t \<mapsto> ph)\<rparr>)"
  by (rule orderly.step [OF assms(1) life_step.request [OF assms(2,3)]]) (simp add: displaced_def child_at_def)

lemma ex_run_orderly: "orderly s \<Longrightarrow> ex_fits xs s \<Longrightarrow> orderly (ex_run xs s)"
proof (induction xs arbitrary: s)
  case (Cons x xs)
  obtain token t where x: "x = (token, t)" by fastforce
  have "life_step s (life_run (ex_input token) t s)"
    by (rule life_step.act) (use Cons.prems(2) in \<open>simp_all add: x ex_input_def\<close>)
  moreover have "\<not> displaced s (life_run (ex_input token) t s)" by (rule no_temporary) (use Cons.prems(2) in \<open>simp add: x\<close>)
  ultimately have "orderly (life_run (ex_input token) t s)" by (rule orderly.step [OF Cons.prems(1)])
  then show ?case using Cons by (simp add: x)
qed simp

text \<open>A start and a stop of one workspace, and a start of a temporary Weaver.\<close>

definition ex_temporary :: life where
  "ex_temporary = (ex_mill [])\<lparr>lf_phase := [0 \<mapsto> Arrive (ex_request True)]\<rparr>"

lemma ex_orderly: "orderly ex_both" "orderly ex_temporary"
proof -
  have s: "orderly (ex_mill [])" by (rule orderly.start [OF ex_mill_start])
  have n: "lf_phase (ex_mill []) = Map.empty" by (simp add: ex_mill_def)
  have one: "orderly ((ex_mill [])\<lparr>lf_phase := [0 \<mapsto> Arrive q]\<rparr>)" for q
    using orderly_request [OF s, of 0 "Arrive q"] by (simp add: n)
  show "orderly ex_temporary" unfolding ex_temporary_def by (rule one)
  let ?s = "(ex_mill [])\<lparr>lf_phase := [0 \<mapsto> Arrive (ex_request False)]\<rparr>"
  have "orderly (?s\<lparr>lf_phase := (lf_phase ?s)(1 \<mapsto> StopArrive)\<rparr>)" by (rule orderly_request [OF one]) simp_all
  then show "orderly ex_both" by (simp add: ex_both_def)
qed

definition ex_claimed :: life where
  "ex_claimed = ex_run (replicate 7 (''k'', 0)) ex_both"

lemma ex_claimed_phase: "lf_phase ex_claimed 0 = Some (PrepareStart (ex_request False) demo_world)"
  and ex_claimed_orderly: "orderly ex_claimed"
proof -
  have r: "replicate 7 x = [x, x, x, x, x, x, x]" for x :: "string \<times> nat" by (simp add: numeral_eq_Suc)
  show "lf_phase ex_claimed 0 = Some (PrepareStart (ex_request False) demo_world)"
    unfolding ex_claimed_def r by (simp add: ex_data ex_defs Let_def)
  have "ex_fits (replicate 7 (''k'', 0)) ex_both" unfolding r by (simp add: ex_data ex_defs Let_def)
  then show "orderly ex_claimed" unfolding ex_claimed_def by (rule ex_run_orderly [OF ex_orderly(1)])
qed

definition ex_making :: life where
  "ex_making = ex_run (replicate 8 (''k'', 0)) ex_temporary"

lemma ex_making_orderly: "orderly ex_making" and ex_making_dirs: "lf_dirs ex_making = [join_path [''/r'', ''weavers'', ''temp-x'']]"
proof -
  have r: "replicate 8 x = [x, x, x, x, x, x, x, x]" for x :: "string \<times> nat" by (simp add: numeral_eq_Suc)
  have "ex_fits (replicate 8 (''k'', 0)) ex_temporary" unfolding r by (simp add: ex_temporary_def ex_data ex_defs Let_def)
  then show "orderly ex_making" unfolding ex_making_def by (rule ex_run_orderly [OF ex_orderly(2)])
  show "lf_dirs ex_making = [join_path [''/r'', ''weavers'', ''temp-x'']]"
    unfolding ex_making_def r by (simp add: ex_temporary_def ex_data ex_defs Let_def temporary_prefix_def)
qed

text \<open>The temporary Weaver of that start, running; its directory is not allocated again.\<close>

definition ex_next :: "string \<Rightarrow> life_input" where
  "ex_next token = (ex_input token)\<lparr>li_suffix := Err []\<rparr>"

fun own_fits :: "nat \<Rightarrow> life_input list \<Rightarrow> life \<Rightarrow> bool" where
  "own_fits t [] s = True"
| "own_fits t (i # is) s = (li_token i \<notin> set (lf_tokens s) \<and> li_suffix i = Err [] \<and> own_fits t is (life_run i t s))"

lemma own_reachable: "reachable_life s \<Longrightarrow> own_fits t is s \<Longrightarrow> reachable_life (own_steps t is s)"
proof (induction "is" arbitrary: s)
  case (Cons i "is")
  have "life_step s (life_run i t s)" by (rule life_step.act) (use Cons.prems(2) in simp_all)
  then show ?case using Cons reachable_life.step by simp
qed simp

definition ex_up :: life where
  "ex_up = own_steps 0 (ex_next ''k'' # replicate 5 (ex_next ''l'')) ex_making"

lemma ex_up_reachable: "reachable_life ex_up"
  and ex_up_child: "\<exists>c. child_at ex_up ''/w'' = Some c \<and> child_temporary c \<and> child_cmd c = Some 7"
  and ex_up_stopped:
    "lf_signals (snd (stop_section (ex_next ''m'') demo_world ex_up)) = [ToGroup 7 Term, ToPid 7 Term, ToPid 7 Term]
     \<and> lf_removed (snd (stop_section (ex_next ''m'') demo_world ex_up)) = [join_path [''/r'', ''weavers'', ''temp-x'']]"
proof -
  have r: "replicate 8 x = [x, x, x, x, x, x, x, x]" for x :: "string \<times> nat" by (simp add: numeral_eq_Suc)
  have r': "replicate 5 x = [x, x, x, x, x]" for x :: life_input by (simp add: numeral_eq_Suc)
  have own: "is_temporary_runtime_dir (Some ''/r'') (join_path [''/r'', ''weavers'', ''temp-x''])" by code_simp
  have "own_fits 0 (ex_next ''k'' # replicate 5 (ex_next ''l'')) ex_making"
    unfolding ex_making_def r r' ex_next_def by (simp add: ex_temporary_def ex_data ex_defs Let_def)
  then show "reachable_life ex_up"
    unfolding ex_up_def by (intro own_reachable orderly_reachable [OF ex_making_orderly])
  show "\<exists>c. child_at ex_up ''/w'' = Some c \<and> child_temporary c \<and> child_cmd c = Some 7"
    unfolding ex_up_def ex_making_def r r' ex_next_def by (simp add: ex_temporary_def ex_data ex_defs Let_def)
  show "lf_signals (snd (stop_section (ex_next ''m'') demo_world ex_up)) = [ToGroup 7 Term, ToPid 7 Term, ToPid 7 Term]
     \<and> lf_removed (snd (stop_section (ex_next ''m'') demo_world ex_up)) = [join_path [''/r'', ''weavers'', ''temp-x'']]"
    unfolding ex_up_def ex_making_def r r' ex_next_def
    by (simp add: ex_temporary_def ex_data ex_defs Let_def own stop_temporary_def stop_started_child_def cleanup_temporary_def
        clean_published_def clean_artifacts_def cleanup_artifacts_def remove_temporary_world_def forget_temporary_def reaped_def
        terminate_process_def terminate_pid_def temporary_prefix_def)
qed

section \<open>Properties\<close>

text \<open>C3:
  Starts, stops and the shutdown run the restart machine: every step of theirs is made of admissions, claims, changes of
  entries under a claim and removals of entries, as the restart machine allows them, so that what holds of restarts
  holds among starts and stops.
\<close>

theorem lifecycle_runs_restarts:
  assumes "reachable_life s" "life_step s s'"
  shows "reachable_mill (lf_mill s) \<and> mill_step\<^sup>*\<^sup>* (lf_mill s) (lf_mill s')"
  using step_mill [OF assms(2) reachable_life_ok [OF assms(1)] reachable_ok [OF reachable_life_mill [OF assms(1)]]]
    reachable_life_mill [OF assms(1)] by simp

lemmas ex_claimed_reachable = orderly_reachable [OF ex_claimed_orderly]

theorem lifecycle_runs_restarts_witness: "reachable_mill (lf_mill ex_claimed)"
  using lifecycle_runs_restarts [OF ex_claimed_reachable life_step.observe [where i = "ex_input ''k''" and token = "[]"]] by simp

text \<open>C4:
  While a goroutine starts a Weaver of a workspace under its claim, no other does, and no restart of the workspace is
  registered or at work.
\<close>

theorem starts_exclusive:
  assumes "reachable_life s" "start_works s t dir"
  shows "\<not> (start_works s u dir \<and> u \<noteq> t) \<and> map_of (m_transitions (lf_mill s)) dir = None
     \<and> \<not> (\<exists>ident ph tr. map_of (m_runs (lf_mill s)) ident = Some ph \<and> map_of (m_heap (lf_mill s)) ident = Some tr
            \<and> w_config_dir (t_world tr) = dir \<and> working ph)"
proof -
  have ok: "life_ok s" and m: "mill_ok (lf_mill s)"
    using assms(1) reachable_life_ok reachable_ok reachable_life_mill by blast+
  have free: "map_of (m_transitions (lf_mill s)) dir = None"
    using starting.works_entered [OF ok assms(2)] life_okD(3) [OF ok, of dir] m by (auto simp: mill_ok_def)
  moreover have "\<not> working ph" if "map_of (m_runs (lf_mill s)) ident = Some ph" "map_of (m_heap (lf_mill s)) ident = Some tr"
      "w_config_dir (t_world tr) = dir" for ident ph tr
    using that m free unfolding mill_ok_def by (metis option.distinct(1))
  moreover have "u = t" if "start_works s u dir" using starting.exclusive [OF ok that assms(2)] .
  ultimately show ?thesis by blast
qed

theorem starts_exclusive_witness: "\<not> start_works ex_claimed 1 ''/w'' \<and> map_of (m_transitions (lf_mill ex_claimed)) ''/w'' = None"
proof -
  have "start_works ex_claimed 0 ''/w''" by (simp add: start_works_def ex_claimed_phase demo_world_def)
  from starts_exclusive [OF ex_claimed_reachable this, of 1] show ?thesis by simp
qed

text \<open>C27:
  No claim is held for ever: whatever its steps find out, a goroutine that holds the claim of a workspace has given it
  back and answered after at most nine of its own steps, none of which waits for another goroutine.
\<close>

theorem claims_are_released:
  assumes "reachable_life s" "lf_phase s t = Some ph" "claimed ph = Some dir" "9 \<le> length is"
  shows "(\<exists>ans. lf_phase (own_steps t is s) t = Some (Replied ans)) \<and> lf_owner (own_steps t is s) dir = None"
  by (rule claim_ends [OF reachable_life_ok [OF assms(1)] assms(2,3)]) (use assms(4) claim_rank_pos(2) [of ph] in linarith)

theorem claims_are_released_witness: "lf_owner (own_steps 0 (replicate 9 (ex_input ''k'')) ex_claimed) ''/w'' = None"
  using claims_are_released [OF ex_claimed_reachable ex_claimed_phase, of "''/w''" "replicate 9 (ex_input ''k'')"]
  by (simp add: demo_world_def)

text \<open>C25:
  No runtime directory of a temporary Weaver is lost: while no start enters its child in the place of a temporary
  Weaver that is dead and not torn down, each such directory on disk is being made or removed by a start, belongs to the
  entry of a temporary Weaver, or is named by an answer as one that could not be removed.
\<close>

theorem temporary_dirs_owned:
  assumes "orderly s" "d \<in> set (lf_dirs s)"
  shows "owned s d"
  using orderly_dirs [OF assms(1)] assms(2) by (simp add: dirs_ok_def)

theorem temporary_dirs_owned_witness: "owned ex_making (join_path [''/r'', ''weavers'', ''temp-x''])"
  by (rule temporary_dirs_owned [OF ex_making_orderly]) (simp add: ex_making_dirs)

text \<open>C26:
  The section of a stop signals only the child of its workspace, or a recorded process whose metadata and endpoint
  proved twice that it is the one recorded.  It removes only published files of the workspace or of its child and, if
  that child is temporary, its runtime directory; it shuts down and drops no custody but that of such a child.  The
  entries of other workspaces stay, and if it answers with a status its own workspace has none.
\<close>

theorem stop_section_sound:
  assumes "reachable_life s" "stop_section i w s = (ans, s')"
  shows "sound_stop i w s s' \<and> \<not> (\<exists>d. d \<noteq> w_config_dir w \<and> child_at s' d \<noteq> child_at s d)
     \<and> \<not> (\<exists>v. ans = Reply v \<and> child_at s' (w_config_dir w) \<noteq> None)"
  using stop_section_effect [OF assms(2) temps_home [OF reachable_temps [OF assms(1)]]] by auto

theorem stop_section_sound_witness:
  "sound_stop (ex_next ''m'') demo_world ex_up (snd (stop_section (ex_next ''m'') demo_world ex_up))
     \<and> lf_signals (snd (stop_section (ex_next ''m'') demo_world ex_up)) = [ToGroup 7 Term, ToPid 7 Term, ToPid 7 Term]
     \<and> lf_removed (snd (stop_section (ex_next ''m'') demo_world ex_up)) = [join_path [''/r'', ''weavers'', ''temp-x'']]"
proof -
  let ?x = "stop_section (ex_next ''m'') demo_world ex_up"
  have "?x = (fst ?x, snd ?x)" by simp
  from stop_section_sound [OF ex_up_reachable this] ex_up_stopped show ?thesis by blast
qed


definition ex_late :: life where
  "ex_late = ex_run (replicate 4 (''k'', 1) @ replicate 9 (''k'', 0) @ [(''l'', 0)]) ex_both"


text \<open>A restart under way when the Mill is shut down.\<close>

definition ex_at :: "mill \<Rightarrow> string list \<Rightarrow> (nat \<Rightarrow> life_phase option) \<Rightarrow> life" where
  "ex_at m ks ph = (ex_mill [])\<lparr>lf_mill := m, lf_tokens := ks, lf_phase := ph\<rparr>"

lemma ex_at_start: "reachable_life (ex_at demo_mill [] Map.empty)"
  by (rule reachable_life.start) (simp add: life_start_def ex_at_def ex_mill_def initial_def demo_mill_def)

lemma ex_at_restart:
  assumes "reachable_life (ex_at m ks ph)" "token \<notin> set ks" "run_step b token generation ident m = m'"
  shows "reachable_life (ex_at m' (token # ks) ph)"
proof -
  have "life_step (ex_at m ks ph) ((lift_mill (run_step b token generation ident) (ex_at m ks ph))\<lparr>lf_tokens := token # lf_tokens (ex_at m ks ph)\<rparr>)"
    by (rule life_step.restart) (simp add: ex_at_def assms(2))
  then show ?thesis
    using reachable_life.step [OF assms(1)] assms(3) by (simp add: ex_at_def lift_mill_def ex_mill_def)
qed

lemma ex_at_act:
  assumes "reachable_life (ex_at m ks ph)" "ex_fits [(token, t)] (ex_at m ks ph)"
  shows "reachable_life (life_run (ex_input token) t (ex_at m ks ph))"
  by (rule reachable_life.step [OF assms(1) life_step.act]) (use assms(2) in \<open>simp_all add: ex_input_def\<close>)

lemma ex_at_launching: "reachable_life (ex_at (demo_after (Launching demo_probe)) [''c'', ''b'', ''a''] Map.empty)"
proof -
  have "life_step (ex_at demo_mill [] Map.empty) (lift_mill (\<lambda>m. snd (restart_admit demo_inputs ''t'' ''x'' demo_world m)) (ex_at demo_mill [] Map.empty))"
    by (rule life_step.admit) (simp add: ex_at_def demo_mill_def)
  then have "reachable_life (ex_at demo_registered [] Map.empty)"
    using reachable_life.step [OF ex_at_start] by (simp add: ex_at_def lift_mill_def demo_admitted ex_mill_def)
  then have "reachable_life (ex_at (demo_after Verifying) [''a''] Map.empty)"
    by (rule ex_at_restart [OF _ _ demo_steps(1) [of "''a''" "[]"]]) simp_all
  then have "reachable_life (ex_at (demo_after (CutOver demo_probe)) [''b'', ''a''] Map.empty)"
    by (rule ex_at_restart [OF _ _ demo_steps(2) [of "''b''" "[]"]]) simp_all
  then show ?thesis by (rule ex_at_restart [OF _ _ demo_steps(3) [of "''c''" "[]"]]) simp_all
qed

text \<open>The Mill shut down, and the restart going on.\<close>

definition ex_shut :: "(string \<times> weaver_child) list \<Rightarrow> phase \<Rightarrow> mill" where
  "ex_shut cs ph = (demo_after ph)\<lparr>stopping := True, children := cs\<rparr>"

lemma ex_shut_reached:
  "reachable_life (ex_at (ex_shut [] (Launching demo_probe)) [''c'', ''b'', ''a''] [0 \<mapsto> Replied (Reply [])])"
proof -
  let ?m = "demo_after (Launching demo_probe)"
  let ?ks = "[''c'', ''b'', ''a'']"
  have m: "children ?m = []" "custodies ?m = []" "pool_hosts ?m = []" by (simp_all add: demo_after_def demo_registered_def demo_mill_def)
  have fits: "ex_fits [(''d'', 0)] (ex_at (x\<lparr>stopping := b\<rparr>) ?ks ph)" if "x = ?m" for b ph x
    using m that by (simp add: ex_at_def ex_mill_def)
  have "life_step (ex_at ?m ?ks Map.empty) ((ex_at ?m ?ks Map.empty)\<lparr>lf_phase := (lf_phase (ex_at ?m ?ks Map.empty))(0 \<mapsto> ShutArrive)\<rparr>)"
    by (rule life_step.request) (simp_all add: ex_at_def)
  then have 1: "reachable_life (ex_at ?m ?ks [0 \<mapsto> ShutArrive])"
    using reachable_life.step [OF ex_at_launching] by (simp add: ex_at_def)
  have same: "?m = ?m\<lparr>stopping := False\<rparr>" by (simp add: demo_after_def demo_registered_def demo_mill_def)
  have "ex_fits [(''d'', 0)] (ex_at ?m ?ks [0 \<mapsto> ShutArrive])" using m by (simp add: ex_at_def ex_mill_def)
  from ex_at_act [OF 1 this] have 2: "reachable_life (ex_at (?m\<lparr>stopping := True\<rparr>) ?ks [0 \<mapsto> ShutJoin])"
    by (simp add: ex_at_def ex_mill_def life_run_def shut_arrive_act_def enter_phase_def lift_mill_def)
  from ex_at_act [OF 2 fits] have 3: "reachable_life (ex_at (?m\<lparr>stopping := True\<rparr>) ?ks [0 \<mapsto> ShutStop])"
    by (simp add: ex_at_def ex_mill_def life_run_def shut_join_act_def enter_phase_def)
  from ex_at_act [OF 3 fits] have "reachable_life (ex_at (?m\<lparr>stopping := True\<rparr>) ?ks [0 \<mapsto> Replied (Reply [])])"
    by (simp add: ex_at_def ex_mill_def life_run_def shut_stop_act_def stop_all_section_def m enter_phase_def)
  moreover have "?m\<lparr>stopping := True\<rparr> = ex_shut [] (Launching demo_probe)"
    by (simp add: ex_shut_def demo_after_def demo_registered_def demo_mill_def)
  ultimately show ?thesis by simp
qed

text \<open>
  The shutdown of the Mill waits for starts and stops every child, but no restart that is under way: one between the
  removal of the old generation and the start of its replacement goes on, and starts a Weaver that nothing stops after
  the shutdown is over.
\<close>

theorem shutdown_misses_restart:
  "\<exists>s s' c. reachable_life s \<and> lf_phase s 0 = Some (Replied (Reply [])) \<and> stopping (lf_mill s) \<and> children (lf_mill s) = []
     \<and> life_step\<^sup>*\<^sup>* s s' \<and> child_at s' ''/w'' = Some c \<and> child_cmd c = Some 9 \<and> lf_phase s' = lf_phase s \<and> lf_signals s' = []"
proof -
  let ?ph = "[0 \<mapsto> Replied (Reply [])]"
  let ?c = "\<lparr>child_cmd = None, child_world = demo_world, child_name = ''w'',
      child_identity = \<lparr>id_pid = 0, id_weaver = [], id_generation = [], id_started_at = [], id_socket = [],
        id_config_dir = [], id_state_dir = [], id_data_dir = []\<rparr>,
      child_temporary = False, child_unsupervised = False, child_generation = [], child_launch_token = ''d'',
      child_startup_weaver = []\<rparr>"
  have r: "map_of (m_runs (ex_shut cs ph)) ''t'' = Some ph" "map_of (m_heap (ex_shut cs ph)) ''t'' = Some (demo_transition\<lparr>t_cutover := True\<rparr>)"
    "children (ex_shut cs ph) = cs" for cs ph by (simp_all add: ex_shut_def demo_after_fields)
  have w: "t_world (demo_transition\<lparr>t_cutover := True\<rparr>) = demo_world" by (rule demo_after_fields)
  have 1: "run_step demo_inputs ''d'' [] ''t'' (ex_shut [] (Launching demo_probe)) = ex_shut [(''/w'', ?c)] (Starting demo_probe ?c)"
    by (simp add: run_step_def r w launch_step_def)
       (simp add: ex_shut_def demo_after_def put_phase_def demo_inputs_def demo_world_def Let_def friendly_name_def base_path_def
          is_space_def demo_registered_def demo_mill_def)
  have 2: "run_step demo_inputs ''e'' [] ''t'' (ex_shut [(''/w'', ?c)] (Starting demo_probe ?c))
      = ex_shut [(''/w'', ?c\<lparr>child_cmd := Some 9\<rparr>)] (Awaiting demo_probe (?c\<lparr>child_cmd := Some 9\<rparr>))"
    by (simp add: run_step_def r w start_step_def update_child_def)
       (simp add: ex_shut_def demo_after_def put_phase_def demo_inputs_def demo_world_def demo_registered_def demo_mill_def
          Let_def update_child_def)
  have step: "life_step (ex_at m ks ?ph) (ex_at m' (k # ks) ?ph)"
    if "k \<notin> set ks" "run_step demo_inputs k [] ''t'' m = m'" for m m' k ks
    using life_step.restart [of k "ex_at m ks ?ph" demo_inputs "[]" "''t''"] that by (simp add: ex_at_def lift_mill_def ex_mill_def)
  let ?s = "ex_at (ex_shut [] (Launching demo_probe)) [''c'', ''b'', ''a''] ?ph"
  let ?s' = "ex_at (ex_shut [(''/w'', ?c\<lparr>child_cmd := Some 9\<rparr>)] (Awaiting demo_probe (?c\<lparr>child_cmd := Some 9\<rparr>)))
      [''e'', ''d'', ''c'', ''b'', ''a''] ?ph"
  have steps: "life_step\<^sup>*\<^sup>* ?s ?s'"
    by (rule converse_rtranclp_into_rtranclp [where r = life_step, OF step [OF _ 1] r_into_rtranclp [where r = life_step, OF step [OF _ 2]]]) simp_all
  have f: "lf_phase (ex_at m ks ph) = ph" "lf_signals (ex_at m ks ph) = []" "lf_mill (ex_at m ks ph) = m" for m ks ph
    by (simp_all add: ex_at_def ex_mill_def)
  have c: "child_at ?s' ''/w'' = Some (?c\<lparr>child_cmd := Some 9\<rparr>)" by (simp add: child_at_def f r)
  have down: "stopping (ex_shut cs ph)" for cs ph by (simp add: ex_shut_def)
  show ?thesis
    by (rule exI [of _ ?s], rule exI [of _ ?s'], rule exI [of _ "?c\<lparr>child_cmd := Some 9\<rparr>"])
       (intro conjI ex_shut_reached steps c; simp add: f r down)
qed

end
