(* ===== verification/Life_Status.thy ===== *)
theory Life_Status
  imports Lifecycle
begin

text \<open>
  What the Mill answers about its Weavers (\<open>cli/cmd/mill/lifecycle.go\<close>): the status of a workspace in its two
  forms, the list of all Weavers, and the cache of the summaries of restart records.
\<close>

section \<open>The cache of summaries\<close>

text \<open>
  What \<open>os.Stat\<close> tells of a file: its identity, size and modification time.  A summary is what reading the record
  gives, without the probe.
\<close>

type_synonym file_info = "nat \<times> nat \<times> nat"

type_synonym record_outcome = "(record_error, restart_record option) result"

type_synonym summary_cache = "(string \<times> file_info \<times> record_outcome) list"

definition summary_of :: "record_outcome \<Rightarrow> record_outcome" where
  "summary_of r = (case r of Inl e \<Rightarrow> Err e | Inr found \<Rightarrow> Ok (map_option compact_record found))"

datatype file_stat = StatFails | NoSuchFile | FileInfo file_info

text \<open>\<open>readRestartRecordSummaryCached\<close>; \<open>detailed\<close> is what reading the record gives now.\<close>

definition read_summary_cached :: "file_stat \<Rightarrow> record_outcome \<Rightarrow> string \<Rightarrow> summary_cache \<Rightarrow> record_outcome \<times> summary_cache" where
  "read_summary_cached stat detailed path cache =
     (case stat of
        StatFails \<Rightarrow> (Err record_error.ReadFailed, AList.delete path cache)
      | NoSuchFile \<Rightarrow> (Ok None, AList.delete path cache)
      | FileInfo info \<Rightarrow>
          (case map_of cache path of
             Some (known, r) \<Rightarrow>
               if known = info then (r, cache)
               else (summary_of detailed, AList.update path (info, summary_of detailed) cache)
           | None \<Rightarrow> (summary_of detailed, AList.update path (info, summary_of detailed) cache)))"

text \<open>
  A reading names a file, what \<open>os.Stat\<close> tells of it then, and what reading it then gives; nothing ties the last two.
  A reading without the cache, and a sequence of readings through it.
\<close>

type_synonym reading = "string \<times> file_stat \<times> record_outcome"

definition read_summary :: "file_stat \<Rightarrow> record_outcome \<Rightarrow> record_outcome" where
  "read_summary stat detailed =
     (case stat of StatFails \<Rightarrow> Err record_error.ReadFailed | NoSuchFile \<Rightarrow> Ok None | FileInfo info \<Rightarrow> summary_of detailed)"

fun cached_readings :: "reading list \<Rightarrow> summary_cache \<Rightarrow> record_outcome list" where
  "cached_readings [] cache = []"
| "cached_readings ((path, stat, detailed) # xs) cache =
     (case read_summary_cached stat detailed path cache of (r, cache') \<Rightarrow> r # cached_readings xs cache')"

text \<open>
  The readings of one file, the latest first, and of these the latest ones that found the same information: the last
  of them is the first reading since the information changed.
\<close>

definition readings_of :: "string \<Rightarrow> reading list \<Rightarrow> (file_stat \<times> record_outcome) list" where
  "readings_of path xs = rev (map snd (filter (\<lambda>(p, _). p = path) xs))"

definition since_change :: "file_stat \<Rightarrow> (file_stat \<times> record_outcome) list \<Rightarrow> (file_stat \<times> record_outcome) list" where
  "since_change stat = takeWhile (\<lambda>(st, _). st = stat)"

section \<open>The status of a workspace\<close>

text \<open>What a status is read from; \<open>vi_summary\<close> is the cached summary, \<open>vi_record\<close> the record itself.\<close>

record view_input =
  vi_base :: inputs
  vi_metadata :: "world \<Rightarrow> metadata_file"
  vi_record :: "world \<Rightarrow> record_outcome"
  vi_summary :: "world \<Rightarrow> record_outcome"
  vi_host :: "string \<Rightarrow> pool_host option" \<comment> \<open>\<open>poolMembers\<close>\<close>

definition view_detailed :: "view_input \<Rightarrow> world \<Rightarrow> view" where
  "view_detailed v w =
     read_status_with (in_configured (vi_base v)) (in_env (vi_base v)) w (vi_metadata v w) (Some (vi_record v w))"

text \<open>\<open>readStatusCached\<close>.\<close>

definition view_cached :: "view_input \<Rightarrow> world \<Rightarrow> view" where
  "view_cached v w =
     read_status_with (in_configured (vi_base v)) (in_env (vi_base v)) w (vi_metadata v w) (Some (vi_summary v w))"

definition marked_stale :: "view \<Rightarrow> status option" where
  "marked_stale x = map_option (\<lambda>st. if snd x then put True ''state'' (SV (JStr ''stale'')) st else st) (fst x)"

text \<open>\<open>temporaryChildStatusLocked\<close>; \<open>clean\<close> is the error of the last teardown, as a text.\<close>

definition temporary_child_status :: "view_input \<Rightarrow> string option \<Rightarrow> weaver_child \<Rightarrow> status" where
  "temporary_child_status v clean c =
     (case marked_stale (view_detailed v (child_world c)) of
        Some st \<Rightarrow> decorate_temporary (Some c) st
      | None \<Rightarrow>
          (let up = living (vi_base v) c;
               st = base_status_with_name (in_configured (vi_base v)) (child_world c) (if up then ''starting'' else ''stopped'') (child_name c);
               st = (if up then put True ''generation_id'' (SV (JStr (child_generation c)))
                       (put True ''pid'' (SInt (case child_cmd c of None \<Rightarrow> 0 | Some pid \<Rightarrow> pid)) st) else st);
               st = decorate_temporary (Some c) st
           in case clean of None \<Rightarrow> st | Some e \<Rightarrow> put True ''cleanup_error'' (SV (JStr e)) st))"

definition restart_in_record :: "restart_record \<Rightarrow> bool" where
  "restart_in_record r \<longleftrightarrow> rr_state r = state_probing \<or> rr_state r = state_restarting \<or> rr_state r = state_failed"

definition unreadable_status :: "view_input \<Rightarrow> world \<Rightarrow> record_error \<Rightarrow> status" where
  "unreadable_status v w e =
     put True ''stale_reason'' (SReason (RecordInvalid e)) (base_status (in_configured (vi_base v)) w ''stale'')"

text \<open>The status of a registered transition.\<close>

definition transition_view :: "view_input \<Rightarrow> mill \<Rightarrow> world \<Rightarrow> transition \<Rightarrow> status option" where
  "transition_view v m w t =
     (if t_state t = state_probing then Some (admitted_generation_status (vi_base v) m t)
      else if t_state t = state_restarting then
        Some (put True ''transition_id'' (SV (JStr (t_id t))) (base_status_with_name (in_configured (vi_base v)) w state_restarting []))
      else if t_state t = state_failed then Some (transition_result_status (in_configured (vi_base v)) t)
      else None)"

text \<open>What the record, the metadata and the table of children tell, when no transition does.\<close>

definition settled_status :: "view_input \<Rightarrow> life \<Rightarrow> world \<Rightarrow> status" where
  "settled_status v s w =
     (let configured = in_configured (vi_base v) in
      case vi_summary v w of
        Inl e \<Rightarrow> unreadable_status v w e
      | Inr found \<Rightarrow>
          (case (case found of None \<Rightarrow> None | Some r \<Rightarrow> if restart_in_record r then Some r else None) of
             Some r \<Rightarrow> compact_status configured w r
           | None \<Rightarrow>
               (case marked_stale (view_cached v w) of
                  Some st \<Rightarrow> st
                | None \<Rightarrow>
                    (case child_at s (w_config_dir w) of
                       None \<Rightarrow> base_status configured w ''none''
                     | Some c \<Rightarrow>
                         if living (vi_base v) c then
                           put True ''generation_id'' (SV (JStr (child_generation c)))
                             (put True ''pid'' (SInt (case child_cmd c of None \<Rightarrow> 0 | Some pid \<Rightarrow> pid))
                               (base_status_with_name configured w ''starting'' (child_name c)))
                         else base_status_with_name configured w ''stopped'' (child_name c)))))"

text \<open>\<open>weaverStatusForWorldLocked\<close>.\<close>

definition weaver_status_locked :: "view_input \<Rightarrow> (string \<Rightarrow> string option) \<Rightarrow> life \<Rightarrow> world \<Rightarrow> status" where
  "weaver_status_locked v clean s w =
     (let dir = w_config_dir w;
          pooled = (case vi_host v dir of
                      None \<Rightarrow> None
                    | Some h \<Rightarrow>
                        if host_live h then pool_status_for_member (in_configured (vi_base v)) (view_detailed v) h dir else None);
          moving = (case transition_at s dir of None \<Rightarrow> None | Some (_, t) \<Rightarrow> transition_view v (lf_mill s) w t)
      in case (case child_at s dir of None \<Rightarrow> None | Some c \<Rightarrow> if child_temporary c then Some c else None) of
           Some c \<Rightarrow> temporary_child_status v (clean (child_launch_token c)) c
         | None \<Rightarrow>
             (case pooled of
                Some st \<Rightarrow> st
              | None \<Rightarrow> (case moving of Some st \<Rightarrow> st | None \<Rightarrow> settled_status v s w)))"

text \<open>\<open>weaverStatusDetailedForWorld\<close>.\<close>

definition weaver_status_detailed :: "view_input \<Rightarrow> (string \<Rightarrow> string option) \<Rightarrow> life \<Rightarrow> world \<Rightarrow> status" where
  "weaver_status_detailed v clean s w =
     (let dir = w_config_dir w; configured = in_configured (vi_base v) in
      case (case child_at s dir of None \<Rightarrow> None | Some c \<Rightarrow> if child_temporary c then Some c else None) of
        Some c \<Rightarrow> temporary_child_status v (clean (child_launch_token c)) c
      | None \<Rightarrow>
          (case (case transition_at s dir of None \<Rightarrow> None | Some (_, t) \<Rightarrow> if t_state t = state_failed then Some t else None) of
             Some t \<Rightarrow> transition_result_status_detailed configured t
           | None \<Rightarrow>
               (case vi_record v w of
                  Inl e \<Rightarrow> unreadable_status v w e
                | Inr found \<Rightarrow>
                    (case (case found of None \<Rightarrow> None | Some r \<Rightarrow> if restart_in_record r then Some r else None) of
                       Some r \<Rightarrow> record_status configured w r
                     | None \<Rightarrow>
                         (case view_detailed v w of
                            (None, _) \<Rightarrow> base_status configured w ''none''
                          | (Some st, True) \<Rightarrow> put True ''state'' (SV (JStr ''stale'')) st
                          | (Some st, False) \<Rightarrow>
                              (case found of
                                 Some r \<Rightarrow> if rr_state r = state_running then merge_record_status st r else st
                               | None \<Rightarrow> st))))))"

text \<open>
  \<open>weaverStatus\<close>; \<open>pooled\<close> is the answer of \<open>poolStatusForWorldWithDetails\<close>: whether the workspace is pooled, and
  its status.
\<close>

definition weaver_status ::
    "view_input \<Rightarrow> (string \<Rightarrow> string option) \<Rightarrow> bool \<Rightarrow> bool \<times> (pool_status_error, status option) result
     \<Rightarrow> (string, world) result \<Rightarrow> life \<Rightarrow> (string + pool_status_error, status option) result" where
  "weaver_status v clean details pooled selected s =
     (case selected of
        Inl e \<Rightarrow> Err (Inl e)
      | Inr w \<Rightarrow>
          (case (case child_at s (w_config_dir w) of None \<Rightarrow> None | Some c \<Rightarrow> if child_temporary c then Some c else None) of
             Some c \<Rightarrow> Ok (Some (temporary_child_status v (clean (child_launch_token c)) c))
           | None \<Rightarrow>
               (case pooled of
                  (_, Inl e) \<Rightarrow> Err (Inr e)
                | (True, Inr st) \<Rightarrow> Ok st
                | (False, Inr _) \<Rightarrow>
                    Ok (Some (if details then weaver_status_detailed v clean s w else weaver_status_locked v clean s w)))))"

text \<open>\<open>poolStatusForWorldWithDetails\<close>; \<open>merge\<close> is \<open>merge_pooled_status\<close> with the files of the records.\<close>

definition pool_status_with_details ::
    "(bool \<Rightarrow> status \<Rightarrow> status) \<Rightarrow> bool \<Rightarrow> bool \<times> (pool_status_error, status option) result
     \<Rightarrow> bool \<times> (pool_status_error, status option) result" where
  "pool_status_with_details merge details raw =
     (case raw of
        (True, Inr (Some st)) \<Rightarrow> (True, Ok (Some (merge details st)))
      | _ \<Rightarrow> raw)"

text \<open>\<open>weaverReplContext\<close>.\<close>

definition weaver_repl_context ::
    "view_input \<Rightarrow> (string \<Rightarrow> string option) \<Rightarrow> source_env \<Rightarrow> (string, world) result \<Rightarrow> life \<Rightarrow> (string + source_error, status) result" where
  "weaver_repl_context v clean e selected s =
     (case selected of
        Inl err \<Rightarrow> Err (Inl err)
      | Inr w \<Rightarrow>
          (let st = weaver_status_locked v clean s w in
           if text_entry (map_of st ''state'') \<noteq> Some ''running'' then Ok st
           else (case resolve_launch_source e of
                   Inl err \<Rightarrow> Err (Inr err)
                 | Inr (source, _) \<Rightarrow> Ok (put True ''source'' (SV (JStr source)) st))))"

section \<open>The list of Weavers\<close>

text \<open>\<open>durablePoolSnapshots\<close>: the members of the registry by pool, in the order of the registry.\<close>

fun pools_of_members :: "string \<Rightarrow> member list \<Rightarrow> (string \<times> pool_snapshot) list \<Rightarrow> (string \<times> pool_snapshot) list" where
  "pools_of_members revision [] acc = acc"
| "pools_of_members revision (mb # ms) acc =
     (let old = (case map_of acc (jvm_pool mb) of None \<Rightarrow> [] | Some x \<Rightarrow> snap_members x);
          snap = \<lparr>snap_pool = jvm_pool mb, snap_revision = revision, snap_members = old @ [mb]\<rparr>
      in pools_of_members revision ms (AList.update (jvm_pool mb) snap acc))"

definition durable_pool_snapshots :: "document \<Rightarrow> (string \<times> pool_snapshot) list" where
  "durable_pool_snapshots doc =
     pools_of_members (doc_revision doc) (case doc_members doc of None \<Rightarrow> [] | Some ms \<Rightarrow> ms) []"

text \<open>\<open>mergeDiscoveredRestartStatus\<close>.\<close>

definition merge_discovered :: "view_input \<Rightarrow> world \<Rightarrow> status \<Rightarrow> status" where
  "merge_discovered v w st =
     (if text_entry (map_of st ''state'') = Some ''stale'' then st
      else case vi_summary v w of
        Inl e \<Rightarrow> put True ''stale_reason'' (SReason (RecordInvalid e)) (put True ''state'' (SV (JStr ''stale'')) st)
      | Inr None \<Rightarrow> st
      | Inr (Some r) \<Rightarrow>
          if rr_state r = state_running then merge_compact_status st r
          else
            (let compact = compact_status (in_configured (vi_base v)) w r in
             foldl (\<lambda>st k. case map_of compact k of Some x \<Rightarrow> put True k x st | None \<Rightarrow> AList.delete k st)
               (put True ''state'' (entry compact ''state'') st)
               [''generation_id'', ''previous_generation_id'', ''transition_id'', ''old_generation_stopped'', ''restart_failure'']))"

text \<open>
  What the list is read from: the hosts the Mill has when it looks, what discovering a host gives, the registered
  members of a pool that is not in the registry, the worlds of pending members, the restart records of the pools, and
  the metadata files found under the state root.
\<close>

record list_input =
  wi_view :: view_input
  wi_hosts :: "string \<Rightarrow> pool_host option"
  wi_discover :: "string \<Rightarrow> (string, pool_host option) result"
  wi_registered :: "string \<Rightarrow> (string, pool_snapshot) result"
  wi_world :: "string \<Rightarrow> (string, world) result"
  wi_sha :: "string \<Rightarrow> 8 word list"
  wi_records :: "string \<Rightarrow> (unit, document_text option) result" \<comment> \<open>the restart record at a path\<close>
  wi_reason :: "pool_error option \<Rightarrow> string"
  wi_found :: "(string, (string \<times> metadata_file) list) result" \<comment> \<open>by state directory\<close>

definition pooled_row :: "list_input \<Rightarrow> status \<Rightarrow> status" where
  "pooled_row i st = merge_pooled_status (wi_sha i) (wi_records i) (wi_reason i) False st"

text \<open>The host of a pool, discovered again when it is not live or its process is gone.\<close>

definition list_host :: "list_input \<Rightarrow> string \<Rightarrow> (string, pool_host option) result" where
  "list_host i pool =
     (case wi_hosts i pool of
        None \<Rightarrow> wi_discover i pool
      | Some h \<Rightarrow>
          if \<not> host_live h \<or> (0 < host_pid h \<and> \<not> env_alive (in_env (vi_base (wi_view i))) (host_pid h)) then wi_discover i pool else Ok (Some h))"

definition member_rows :: "list_input \<Rightarrow> pool_host \<Rightarrow> pool_snapshot \<Rightarrow> status list" where
  "member_rows i h snap =
     concat (map (\<lambda>m. case pool_status_for_member (in_configured (vi_base (wi_view i))) (view_detailed (wi_view i)) h (member_dir m) of
        None \<Rightarrow> []
      | Some st \<Rightarrow> [pooled_row i (add_pool_pending st h snap)]) (host_members h))"

text \<open>The rows of registered members that are not live, with the state directories they have.\<close>

fun pending_rows :: "list_input \<Rightarrow> pool_host \<Rightarrow> pool_snapshot \<Rightarrow> string list \<Rightarrow> string list \<Rightarrow> (string, (string \<times> status) list) result" where
  "pending_rows i h snap pending [] = Ok []"
| "pending_rows i h snap pending (dir # dirs) =
     (case wi_world i dir of
        Inl e \<Rightarrow> Err e
      | Inr w \<Rightarrow>
          (let st = base_status (in_configured (vi_base (wi_view i))) w ''pending'';
               st = put True ''jvm_pool'' (SV (JStr (host_pool h))) st;
               st = put True ''registered_members'' (strs (snapshot_dirs snap)) st;
               st = put True ''live_members'' (strs (pool_config_dirs (host_members h))) st;
               st = put True ''pending_members'' (strs pending) st;
               st = put True ''restart_required'' (SV (JBool True)) st;
               st = put True ''pool_restart_path'' (SV (JStr (ph_restart_path h))) st
           in case pending_rows i h snap pending dirs of
                Inl e \<Rightarrow> Err e
              | Inr rows \<Rightarrow> Ok ((w_state_dir w, pooled_row i st) # rows)))"

definition pool_rows ::
    "list_input \<Rightarrow> (string \<times> pool_snapshot) list \<Rightarrow> string \<Rightarrow> (string, status list \<times> string list) result" where
  "pool_rows i stored pool =
     (case (case map_of stored pool of Some snap \<Rightarrow> Ok snap | None \<Rightarrow> wi_registered i pool) of
        Inl e \<Rightarrow> Err e
      | Inr snap \<Rightarrow>
          (case list_host i pool of
             Inl e \<Rightarrow> Err e
           | Inr None \<Rightarrow> Ok ([], [])
           | Inr (Some h) \<Rightarrow>
               if \<not> host_live h \<or> host_members h = [] then Ok ([], [])
               else
                 (let live = map member_dir (host_members h);
                      pending = filter (\<lambda>d. d \<notin> set live) (map config_dir (snap_members snap))
                  in case pending_rows i h snap pending pending of
                       Inl e \<Rightarrow> Err e
                     | Inr rows \<Rightarrow>
                         Ok (member_rows i h snap @ map snd rows,
                             map (\<lambda>m. w_state_dir (pm_world m)) (host_members h) @ map fst rows))))"

fun all_pool_rows ::
    "list_input \<Rightarrow> (string \<times> pool_snapshot) list \<Rightarrow> string list \<Rightarrow> (string, status list \<times> string list) result" where
  "all_pool_rows i stored [] = Ok ([], [])"
| "all_pool_rows i stored (pool # pools) =
     (case pool_rows i stored pool of
        Inl e \<Rightarrow> Err e
      | Inr (rows, seen) \<Rightarrow>
          (case all_pool_rows i stored pools of
             Inl e \<Rightarrow> Err e
           | Inr (rows', seen') \<Rightarrow> Ok (rows @ rows', seen @ seen')))"

text \<open>The Weavers found on disk that no row stands for yet.\<close>

fun found_rows :: "list_input \<Rightarrow> string list \<Rightarrow> (string \<times> metadata_file) list \<Rightarrow> (stale_reason, status list) result" where
  "found_rows i seen [] = Ok []"
| "found_rows i seen ((dir, file) # fs) =
     (if dir \<in> set seen then found_rows i seen fs
      else case read_status_file (in_env (vi_base (wi_view i))) file of
        Inl e \<Rightarrow> Err e
      | Inr (st, w) \<Rightarrow>
          (case found_rows i seen fs of
             Inl e \<Rightarrow> Err e
           | Inr rows \<Rightarrow> Ok (merge_discovered (wi_view i) w st # rows)))"

text \<open>\<open>weaverList\<close>; the registry may not be readable.\<close>

definition weaver_list ::
    "list_input \<Rightarrow> (string \<Rightarrow> string option) \<Rightarrow> (string, document) result \<Rightarrow> string list \<Rightarrow> life \<Rightarrow> (string + stale_reason, status list) result" where
  "weaver_list i clean registry hosted s =
     (case registry of
        Inl e \<Rightarrow> Err (Inl e)
      | Inr doc \<Rightarrow>
          (let stored = durable_pool_snapshots doc in
           case all_pool_rows i stored (sort (remdups (map fst stored @ hosted))) of
             Inl e \<Rightarrow> Err (Inl e)
           | Inr (rows, seen) \<Rightarrow>
               (let kids = map snd (children (lf_mill s));
                    rows' = map (\<lambda>c. weaver_status_locked (wi_view i) clean s (child_world c)) kids
                in case wi_found i of
                     Inl e \<Rightarrow> Err (Inl e)
                   | Inr files \<Rightarrow>
                       (case found_rows i (seen @ map (\<lambda>c. w_state_dir (child_world c)) kids) files of
                          Inl e \<Rightarrow> Err (Inr e)
                        | Inr others \<Rightarrow> Ok (rows @ rows' @ others)))))"

section \<open>Facts\<close>

lemma readings_of_snoc [simp]:
  "readings_of path [] = []"
  "readings_of path (xs @ [(p, st, d)]) = (if p = path then (st, d) # readings_of path xs else readings_of path xs)"
  by (simp_all add: readings_of_def)

lemma since_change_simps [simp]:
  "since_change stat [] = []"
  "since_change stat ((st, d) # xs) = (if st = stat then (st, d) # since_change stat xs else [])"
  by (simp_all add: since_change_def)

text \<open>What the cache knows of a file after its readings, and that every reading keeps it so.\<close>

definition cache_view :: "(file_stat \<times> record_outcome) list \<Rightarrow> (file_info \<times> record_outcome) option" where
  "cache_view xs =
     (case xs of
        (FileInfo info, d) # _ \<Rightarrow> Some (info, summary_of (snd (last (since_change (FileInfo info) xs))))
      | _ \<Rightarrow> None)"

definition cache_knows :: "reading list \<Rightarrow> summary_cache \<Rightarrow> bool" where
  "cache_knows past cache \<longleftrightarrow> (\<forall>path. map_of cache path = cache_view (readings_of path past))"

lemma cached_reading:
  assumes k: "cache_knows past cache" and r: "read_summary_cached stat d path cache = (r, cache')"
  shows "r = read_summary stat (snd (last (since_change stat (readings_of path (past @ [(path, stat, d)])))))"
    and "cache_knows (past @ [(path, stat, d)]) cache'"
proof -
  have at: "map_of cache p = cache_view (readings_of p past)" for p using k by (simp add: cache_knows_def)
  have "r = read_summary stat (snd (last (since_change stat ((stat, d) # readings_of path past))))
      \<and> (\<forall>p. map_of cache' p = (if p = path then cache_view ((stat, d) # readings_of path past) else map_of cache p))"
  proof (cases stat)
    case (FileInfo info)
    show ?thesis
    proof (cases "readings_of path past")
      case Nil
      then show ?thesis using r at [of path]
        by (auto simp: read_summary_cached_def FileInfo read_summary_def cache_view_def update_conv')
    next
      case (Cons y ys)
      obtain st d' where y: "y = (st, d')" by fastforce
      show ?thesis using r at [of path]
        by (cases st) (auto simp: read_summary_cached_def FileInfo read_summary_def cache_view_def update_conv' Cons y split: if_splits)
    qed
  qed (use r in \<open>auto simp: read_summary_cached_def read_summary_def cache_view_def delete_conv'\<close>)
  then show "r = read_summary stat (snd (last (since_change stat (readings_of path (past @ [(path, stat, d)])))))"
    "cache_knows (past @ [(path, stat, d)]) cache'" by (simp_all add: cache_knows_def at)
qed

lemma cached_readings_known:
  assumes "cache_knows past cache" "k < length xs" "xs ! k = (path, stat, d)"
  shows "cached_readings xs cache ! k
     = read_summary stat (snd (last (since_change stat (readings_of path (past @ take (Suc k) xs)))))"
  using assms
proof (induction xs arbitrary: past cache k)
  case (Cons x xs)
  obtain p st e where x: "x = (p, st, e)" by (cases x) auto
  obtain r cache' where c: "read_summary_cached st e p cache = (r, cache')" by fastforce
  note read = cached_reading [OF Cons.prems(1) c]
  show ?case
  proof (cases k)
    case 0
    then have e: "p = path" "st = stat" "e = d" using Cons.prems(3) by (simp_all add: x)
    show ?thesis using read(1) c by (simp add: x e 0)
  next
    case (Suc j)
    then show ?thesis using Cons.IH [OF read(2), of j] Cons.prems(2,3) by (simp add: x c)
  qed
qed simp

text \<open>C37:
  A summary read through the cache is as old as the information about its file, and no older: it is the summary of what
  the record held at the first reading since its identity, size or modification time last changed or the file was
  missing.  So it is fresh whenever the information changed, and a rewrite that keeps the information is not seen.
\<close>

theorem summary_as_old_as_info:
  assumes "k < length xs" "xs ! k = (path, stat, detailed)"
  shows "cached_readings xs [] ! k
     = read_summary stat (snd (last (since_change stat (readings_of path (take (Suc k) xs)))))"
  using cached_readings_known [OF _ assms, of "[]" "[]"] by (simp add: cache_knows_def cache_view_def)

theorem summary_as_old_as_info_witness:
  "cached_readings [(''/r'', FileInfo (1, 2, 3), Err TransitionBlank), (''/r'', FileInfo (1, 2, 3), Ok None)] [] ! 1 = Err TransitionBlank"
  using summary_as_old_as_info [of 1 "[(''/r'', FileInfo (1, 2, 3), Err TransitionBlank), (''/r'', FileInfo (1, 2, 3), Ok None)]"]
  by (simp add: readings_of_def read_summary_def summary_of_def)

text \<open>No Weaver found on disk is left out whose state directory has no row yet.\<close>

lemma found_rows_cover:
  "found_rows i seen fs = Ok rows \<Longrightarrow> (dir, found) \<in> set fs \<Longrightarrow> dir \<notin> set seen \<Longrightarrow>
   \<exists>st w. read_status_file (in_env (vi_base (wi_view i))) found = Ok (st, w) \<and> merge_discovered (wi_view i) w st \<in> set rows"
proof (induction fs arbitrary: rows)
  case (Cons f fs)
  obtain dir' found' where f: "f = (dir', found')" by fastforce
  from Cons.prems(1) show ?case
    using Cons.IH Cons.prems(2,3)
    by (fastforce simp: f split: if_splits sum.splits prod.splits)
qed simp

end
