(* ===== verification/Proc_Stat.thy ===== *)
theory Proc_Stat
  imports Prelude
begin

text \<open>
  The process table (\<open>cli/internal/process/process.go\<close> and \<open>reap_observer_linux.go\<close>): whether a
  process lives, waiting for an exit without reaping, the group and state of a process read from
  its \<open>stat\<close> file, and whether a process group still has a member that counts as live.

  System calls deliver their outcome through arguments.
\<close>

section \<open>Liveness of one process\<close>

datatype probe_error = EPERM | ESRCH | OtherErrno string

definition signal_probe_alive :: "probe_error option \<Rightarrow> bool" where
  "signal_probe_alive err \<longleftrightarrow> err = None \<or> err = Some EPERM"

text \<open>\<open>found\<close> is the error of \<open>os.FindProcess\<close>, \<open>probe\<close> that of signal 0.\<close>

definition alive :: "string option \<Rightarrow> probe_error option \<Rightarrow> int \<Rightarrow> bool" where
  "alive found probe pid =
     (if pid \<le> 0 then False
      else if found \<noteq> None then False
      else signal_probe_alive probe)"

section \<open>Observing an exit\<close>

datatype waitid_outcome = WaitOk | WaitEINTR | WaitError string

text \<open>The loop retries while the call is interrupted; \<open>None\<close>: the outcomes given are used up.\<close>

fun observe_process_exit :: "int \<Rightarrow> waitid_outcome list \<Rightarrow> (int \<times> string, unit) result option" where
  "observe_process_exit pid [] = None"
| "observe_process_exit pid (WaitEINTR # rest) = observe_process_exit pid rest"
| "observe_process_exit pid (WaitError e # rest) = Some (Err (pid, e))"
| "observe_process_exit pid (WaitOk # rest) = Some (Ok ())"

section \<open>The process table\<close>

datatype stat_error = StatNotExist | StatUnreadable string | StatBoundary | StatShort | StatGroup string

text \<open>What follows the last closing parenthesis, the index of \<open>strings.LastIndexByte\<close>.\<close>

fun after_last :: "char \<Rightarrow> string \<Rightarrow> string option" where
  "after_last c [] = None"
| "after_last c (d # s) =
     (case after_last c s of Some t \<Rightarrow> Some t | None \<Rightarrow> if d = c then Some s else None)"

datatype stat_file = StatMissing | StatFailed string | StatContent string

definition linux_process_group_state :: "stat_file \<Rightarrow> (stat_error, char \<times> int) result" where
  "linux_process_group_state file =
     (case file of
        StatMissing \<Rightarrow> Err StatNotExist
      | StatFailed e \<Rightarrow> Err (StatUnreadable e)
      | StatContent value \<Rightarrow>
          (case after_last (CHR '')'') value of
             None \<Rightarrow> Err StatBoundary
           | Some tail \<Rightarrow>
               if length tail < 2 then Err StatBoundary
               else let fs = fields (drop 1 tail) in
                 if length fs < 3 \<or> length (fs ! 0) \<noteq> 1 then Err StatShort
                 else (case atoi (fs ! 2) of
                         None \<Rightarrow> Err (StatGroup (fs ! 2))
                       | Some pgid \<Rightarrow> Ok (fs ! 0 ! 0, pgid))))"

text \<open>The entries of \<open>/proc\<close> in the order read, each with its \<open>stat\<close> file.\<close>

fun live_member :: "int \<Rightarrow> int \<Rightarrow> (string \<times> stat_file) list \<Rightarrow> (stat_error, bool) result" where
  "live_member pgid leader [] = Ok False"
| "live_member pgid leader ((name, file) # entries) =
     (case atoi name of
        None \<Rightarrow> live_member pgid leader entries
      | Some pid \<Rightarrow>
          if pid \<le> 0 then live_member pgid leader entries
          else (case linux_process_group_state file of
                  Inl StatNotExist \<Rightarrow> live_member pgid leader entries
                | Inl e \<Rightarrow> Err e
                | Inr (state, member) \<Rightarrow>
                    if member = pgid \<and> (pid \<noteq> leader \<or> state \<noteq> CHR ''Z'') then Ok True
                    else live_member pgid leader entries))"

definition process_group_has_live_members ::
    "(string, (string \<times> stat_file) list) result \<Rightarrow> int \<Rightarrow> int \<Rightarrow> (stat_error, bool) result" where
  "process_group_has_live_members table pgid leader =
     (case table of Inl e \<Rightarrow> Err (StatUnreadable e) | Inr entries \<Rightarrow> live_member pgid leader entries)"

section \<open>Lemmas\<close>

text \<open>The specification of a member that keeps the group alive.\<close>

definition counts :: "int \<Rightarrow> int \<Rightarrow> string \<times> stat_file \<Rightarrow> bool" where
  "counts pgid leader = (\<lambda>(name, file).
     case atoi name of
       None \<Rightarrow> False
     | Some pid \<Rightarrow> 0 < pid \<and>
         (case linux_process_group_state file of
            Inl e \<Rightarrow> False
          | Inr (state, member) \<Rightarrow> member = pgid \<and> \<not> (pid = leader \<and> state = CHR ''Z'')))"

lemma live_member_Cons:
  "live_member pgid leader (e # es) = Ok v \<Longrightarrow>
   counts pgid leader e \<and> v \<or> \<not> counts pgid leader e \<and> live_member pgid leader es = Ok v"
  by (cases e) (auto simp: counts_def split: option.splits sum.splits stat_error.splits if_splits)

lemma live_member_exact: "live_member pgid leader es = Ok v \<Longrightarrow> v \<longleftrightarrow> list_ex (counts pgid leader) es"
  by (induction es) (auto dest: live_member_Cons simp del: live_member.simps(2))

lemma after_last_append:
  "c \<notin> set t \<Longrightarrow> after_last c (s @ c # t) = Some t"
proof (induction s)
  case Nil
  then have "after_last c t = None" by (induction t) auto
  then show ?case by simp
qed simp

section \<open>Properties\<close>

text \<open>
  From the line the kernel writes for a process, the state and the process group are read
  whatever the command name holds, parentheses and spaces included.
\<close>
theorem stat_line_read:
  assumes "byte state < 0x80" and "\<not> is_space (byte state)" and "state \<noteq> CHR '')''"
    and "pgrp < 2 ^ 63" and "CHR '')'' \<notin> set rest"
  shows "linux_process_group_state (StatContent (show_nat pid @ '' ('' @ comm @ '') '' @ [state] @ '' ''
           @ show_nat ppid @ '' '' @ show_nat pgrp @ '' '' @ rest)) = Ok (state, int pgrp)"
proof -
  let ?tail = "'' '' @ [state] @ '' '' @ show_nat ppid @ '' '' @ show_nat pgrp @ '' '' @ rest"
  have digits: "CHR '')'' \<notin> set (show_nat n)" for n
    using show_nat_digits by (fastforce simp: is_digit_def)
  have num: "\<forall>c \<in> set (show_nat n). byte c < 0x80 \<and> \<not> is_space (byte c)" for n
    using show_nat_digits digit_field by blast
  have line: "show_nat pid @ '' ('' @ comm @ '') '' @ [state] @ '' '' @ show_nat ppid @ '' ''
              @ show_nat pgrp @ '' '' @ rest = (show_nat pid @ '' ('' @ comm) @ CHR '')'' # ?tail"
    by simp
  have "after_last (CHR '')'') ((show_nat pid @ '' ('' @ comm) @ CHR '')'' # ?tail) = Some ?tail"
    by (rule after_last_append) (use assms(3,5) digits in simp)
  moreover have "fields (drop 1 ?tail) = [state] # show_nat ppid # show_nat pgrp # fields rest"
    using fields_word_space [of "[state]"] fields_word_space [OF num show_nat_ne] assms(1,2) by simp
  ultimately show ?thesis
    unfolding line using atoi_show_nat [OF assms(4)] by (simp add: linux_process_group_state_def Let_def)
qed

theorem stat_line_read_witness:
  "linux_process_group_state (StatContent (show_nat 7 @ '' ('' @ '') S 1 2 '' @ '') '' @ [CHR ''Z''] @ '' ''
     @ show_nat 1 @ '' '' @ show_nat 7 @ '' '' @ ''0'')) = Ok (CHR ''Z'', 7)"
  using stat_line_read [of "CHR ''Z''" 7 "''0''" 7 "'') S 1 2 ''" 1] by (simp add: is_space_def)

text \<open>
  The answer that a process group has no live member is never given while the table shows one,
  and the answer that it has one is never given without one.  The leader counts unless it is the
  zombie that keeps the group number in use; a zombie descendant counts.
\<close>
theorem live_members_exact:
  "(process_group_has_live_members (Ok entries) pgid leader = Ok True \<longrightarrow> list_ex (counts pgid leader) entries)
   \<and> (process_group_has_live_members (Ok entries) pgid leader = Ok False \<longrightarrow> \<not> list_ex (counts pgid leader) entries)"
  using live_member_exact [of pgid leader entries] by (auto simp: process_group_has_live_members_def)

theorem live_members_exact_witness:
  "process_group_has_live_members (Ok [(''7'', StatContent ''7 (a) Z 1 7 0'')]) 7 7 = Ok False
   \<and> \<not> list_ex (counts 7 7) [(''7'', StatContent ''7 (a) Z 1 7 0'')]"
proof -
  have "process_group_has_live_members (Ok [(''7'', StatContent ''7 (a) Z 1 7 0'')]) 7 7 = Ok False"
    by (simp add: process_group_has_live_members_def linux_process_group_state_def atoi_def unsigned_def
        digits_value_def is_digit_def fields_def rune_chunks_Cons is_space_def Let_def)
  then show ?thesis
    using live_members_exact [of "[(''7'', StatContent ''7 (a) Z 1 7 0'')]" 7 7] by simp
qed

end
