(* ===== verification/Process_Control.thy ===== *)
theory Process_Control
  imports Mill_State
begin

text \<open>
  Process control requests (\<open>cli/cmd/mill/process_control.go\<close>): decoding a frame, admitting the
  caller, choosing the workspace's custody, dispatching the operation and classifying errors.
\<close>

section \<open>Decoding\<close>

record control_request =
  cr_request_id :: string
  cr_weaver_id :: string
  cr_launch_token :: string
  cr_operation :: string
  cr_arguments :: "object option"

datatype decode_error =
    UnknownControlField string
  | MissingField string
  | FieldMalformed string
  | VersionUnsupported
  | FieldsBlank
  | TokenBlank
  | ArgumentsNotObject

datatype control_error =
    LaunchUnknownField string
  | LaunchIncomplete
  | HandleUnknownField string
  | HandleBlank
  | OwnerHandleUnknownField string
  | OwnerBlank
  | ListUnknownField string
  | UnsupportedOperation
  | CustodyFailed custody_error

definition mill_protocol_version :: int where
  "mill_protocol_version = 3"

definition control_operations :: "string list" where
  "control_operations =
     [''process.launch'', ''process.get'', ''process.list-owned'', ''process.cancel'', ''process.acknowledge'']"

text \<open>
  \<open>json.Unmarshal\<close> into a string, an integer or an object: \<open>null\<close> leaves the target as it is, a
  value of another type is an error.
\<close>

definition control_string :: "object \<Rightarrow> string \<Rightarrow> string" where
  "control_string raw key = (case map_of raw key of Some (JStr s) \<Rightarrow> s | _ \<Rightarrow> [])"

definition unmarshal_string :: "object \<Rightarrow> string \<Rightarrow> string \<Rightarrow> (decode_error, string) result" where
  "unmarshal_string raw key old =
     (case map_of raw key of
        None \<Rightarrow> Err (MissingField key)
      | Some (JStr s) \<Rightarrow> Ok s
      | Some JNull \<Rightarrow> Ok old
      | Some _ \<Rightarrow> Err (FieldMalformed key))"

definition unmarshal_int :: "object \<Rightarrow> string \<Rightarrow> (decode_error, int) result" where
  "unmarshal_int raw key =
     (case map_of raw key of
        None \<Rightarrow> Err (MissingField key)
      | Some JNull \<Rightarrow> Ok 0
      | Some (JNum text) \<Rightarrow> (case atoi text of Some i \<Rightarrow> Ok i | None \<Rightarrow> Err (FieldMalformed key))
      | Some _ \<Rightarrow> Err (FieldMalformed key))"

definition unmarshal_object :: "object \<Rightarrow> string \<Rightarrow> (decode_error, object option) result" where
  "unmarshal_object raw key =
     (case map_of raw key of
        None \<Rightarrow> Err (MissingField key)
      | Some JNull \<Rightarrow> Ok None
      | Some (JObj entries) \<Rightarrow> Ok (Some entries)
      | Some _ \<Rightarrow> Err (FieldMalformed key))"

text \<open>The loop over the three required strings, in the order the map iteration takes.\<close>

fun decode_strings :: "object \<Rightarrow> string list \<Rightarrow> control_request \<Rightarrow> control_request \<times> decode_error option" where
  "decode_strings raw [] request = (request, None)"
| "decode_strings raw (key # keys) request =
     (let old = (if key = ''request_id'' then cr_request_id request
                 else if key = ''weaver_id'' then cr_weaver_id request else cr_operation request)
      in case unmarshal_string raw key old of
           Inl e \<Rightarrow> (request, Some e)
         | Inr s \<Rightarrow> decode_strings raw keys
             (if key = ''request_id'' then request\<lparr>cr_request_id := s\<rparr>
              else if key = ''weaver_id'' then request\<lparr>cr_weaver_id := s\<rparr>
              else request\<lparr>cr_operation := s\<rparr>))"

definition decode_token :: "object \<Rightarrow> (decode_error, string) result" where
  "decode_token raw =
     (if map_of raw ''launch_token'' = None then Ok []
      else case unmarshal_string raw ''launch_token'' [] of
             Inl e \<Rightarrow> Err e
           | Inr token \<Rightarrow> if trim_space token = [] then Err TokenBlank else Ok token)"

definition control_fields :: "string list" where
  "control_fields =
     [''protocol_version'', ''request_id'', ''weaver_id'', ''launch_token'', ''operation'', ''arguments'']"

definition decode_control_request ::
    "string list \<Rightarrow> object \<Rightarrow> control_request \<times> decode_error option" where
  "decode_control_request order raw =
     (let request = \<lparr>cr_request_id = control_string raw ''request_id'', cr_weaver_id = [],
                     cr_launch_token = [], cr_operation = [], cr_arguments = None\<rparr>
      in case unknown_key control_fields raw of
           Some key \<Rightarrow> (request, Some (UnknownControlField key))
         | None \<Rightarrow>
             (case unmarshal_int raw ''protocol_version'' of
                Inl e \<Rightarrow> (request, Some e)
              | Inr version \<Rightarrow>
                  if version \<noteq> mill_protocol_version then (request, Some VersionUnsupported)
                  else (case decode_strings raw order request of
                          (request, Some e) \<Rightarrow> (request, Some e)
                        | (request, None) \<Rightarrow>
                            if trim_space (cr_request_id request) = [] \<or> trim_space (cr_weaver_id request) = []
                               \<or> trim_space (cr_operation request) = []
                            then (request, Some FieldsBlank)
                            else (case decode_token raw of
                                    Inl e \<Rightarrow> (request, Some e)
                                  | Inr token \<Rightarrow>
                                      let request = request\<lparr>cr_launch_token := token\<rparr>
                                      in (case unmarshal_object raw ''arguments'' of
                                            Inl e \<Rightarrow> (request, Some e)
                                          | Inr None \<Rightarrow> (request, Some ArgumentsNotObject)
                                          | Inr (Some entries) \<Rightarrow>
                                              (request\<lparr>cr_arguments := Some entries\<rparr>, None))))))"

section \<open>Arguments and dispatch\<close>

definition launch_arguments :: "object \<Rightarrow> (control_error, string \<times> string \<times> object) result" where
  "launch_arguments arguments =
     (case unknown_key [''owner'', ''key'', ''launch_spec''] arguments of
        Some key \<Rightarrow> Err (LaunchUnknownField key)
      | None \<Rightarrow>
          (case (as_string (map_of arguments ''owner''), as_string (map_of arguments ''key''),
                 as_object (map_of arguments ''launch_spec'')) of
             (Some owner, Some key, Some spec) \<Rightarrow>
               if trim_space owner = [] \<or> trim_space key = [] then Err LaunchIncomplete
               else Ok (owner, key, spec)
           | _ \<Rightarrow> Err LaunchIncomplete))"

definition handle_argument :: "object \<Rightarrow> (control_error, string) result" where
  "handle_argument arguments =
     (case unknown_key [''handle''] arguments of
        Some key \<Rightarrow> Err (HandleUnknownField key)
      | None \<Rightarrow>
          (case as_string (map_of arguments ''handle'') of
             None \<Rightarrow> Err HandleBlank
           | Some handle \<Rightarrow> if trim_space handle = [] then Err HandleBlank else Ok handle))"

definition owner_handle_arguments :: "object \<Rightarrow> (control_error, string \<times> string) result" where
  "owner_handle_arguments arguments =
     (case unknown_key [''owner'', ''handle''] arguments of
        Some key \<Rightarrow> Err (OwnerHandleUnknownField key)
      | None \<Rightarrow>
          (case as_string (map_of arguments ''owner'') of
             None \<Rightarrow> Err OwnerBlank
           | Some owner \<Rightarrow>
               if trim_space owner = [] then Err OwnerBlank
               else (case as_string (map_of arguments ''handle'') of
                       None \<Rightarrow> Err HandleBlank
                     | Some handle \<Rightarrow>
                         if trim_space handle = [] then Err HandleBlank else Ok (owner, handle))))"

datatype control_result =
    ResultRecord custody_row
  | ResultRecords "custody_row list"
  | ResultAcknowledged string

record dispatch_env =
  de_launch :: launch_env
  de_terminate :: terminate_env
  de_timed_out :: bool
  de_remove :: "string option"

definition lift_record ::
    "custody \<times> (custody_error, custody_row) result \<Rightarrow> custody \<times> (control_error, control_result) result" where
  "lift_record x = (fst x, case snd x of Inl e \<Rightarrow> Err (CustodyFailed e) | Inr row \<Rightarrow> Ok (ResultRecord row))"

definition dispatch_process_control ::
    "dispatch_env \<Rightarrow> string \<Rightarrow> object \<Rightarrow> custody \<Rightarrow> custody \<times> (control_error, control_result) result" where
  "dispatch_process_control env operation arguments c =
     (if operation = ''process.launch'' then
        (case launch_arguments arguments of
           Inl e \<Rightarrow> (c, Err e)
         | Inr (owner, key, spec_map) \<Rightarrow>
             (case parse_launch_spec (Some spec_map) of
                Inl e \<Rightarrow> (c, Err (CustodyFailed e))
              | Inr spec \<Rightarrow> lift_record (launch (de_launch env) owner key spec c)))
      else if operation = ''process.get'' then
        (case handle_argument arguments of
           Inl e \<Rightarrow> (c, Err e)
         | Inr handle \<Rightarrow> lift_record (c, get handle c))
      else if operation = ''process.list-owned'' then
        (case unknown_key [''owner''] arguments of
           Some key \<Rightarrow> (c, Err (ListUnknownField key))
         | None \<Rightarrow>
             (case as_string (map_of arguments ''owner'') of
                None \<Rightarrow> (c, Err OwnerBlank)
              | Some owner \<Rightarrow>
                  if trim_space owner = [] then (c, Err OwnerBlank)
                  else (c, Ok (ResultRecords (list_owned owner c)))))
      else if operation = ''process.cancel'' then
        (case owner_handle_arguments arguments of
           Inl e \<Rightarrow> (c, Err e)
         | Inr (owner, handle) \<Rightarrow>
             lift_record (cancel (de_terminate env) (de_timed_out env) owner handle c))
      else if operation = ''process.acknowledge'' then
        (case owner_handle_arguments arguments of
           Inl e \<Rightarrow> (c, Err e)
         | Inr (owner, handle) \<Rightarrow>
             (case acknowledge (de_remove env) owner handle c of
                (c', Inl e) \<Rightarrow> (c', Err (CustodyFailed e))
              | (c', Inr _) \<Rightarrow> (c', Ok (ResultAcknowledged handle))))
      else (c, Err UnsupportedOperation))"

section \<open>Error codes\<close>

text \<open>The text of each error; \<open>q\<close> is what \<open>%q\<close> puts between the quotes.\<close>

definition quoted :: "(string \<Rightarrow> string) \<Rightarrow> string \<Rightarrow> string" where
  "quoted q s = CHR 0x22 # q s @ [CHR 0x22]"

fun custody_error_text :: "(string \<Rightarrow> string) \<Rightarrow> custody_error \<Rightarrow> string" where
  "custody_error_text q BlankRoot = ''custody output root must not be blank''"
| "custody_error_text q (RootUnavailable e) = ''create custody output root: '' @ e"
| "custody_error_text q SpecNotObject = ''launch_spec must be an object''"
| "custody_error_text q (SpecUnknownField k) = ''launch_spec contains unknown field '' @ quoted q k"
| "custody_error_text q ArgvEmpty = ''launch_spec argv must be a non-empty array''"
| "custody_error_text q (ArgvBlank i) = ''launch_spec argv['' @ show_nat i @ ''] must be a non-blank string''"
| "custody_error_text q CwdNotAbsolute = ''launch_spec cwd must be an absolute string''"
| "custody_error_text q EnvNotObject = ''launch_spec env must be an object''"
| "custody_error_text q EnvKeyBlank = ''launch_spec env keys must not be blank''"
| "custody_error_text q (EnvValueNotString k) = ''launch_spec env['' @ quoted q k @ ''] must be a string''"
| "custody_error_text q StdinNotString = ''launch_spec stdin must be a string or null''"
| "custody_error_text q OwnerKeyBlank = ''custody owner and key must not be blank''"
| "custody_error_text q SpecIncomplete = ''launch spec requires a non-empty argv and absolute cwd''"
| "custody_error_text q (SpecArgBlank i) = ''launch spec argv['' @ show_nat i @ ''] must not be blank''"
| "custody_error_text q CwdNotDirectory = ''launch spec cwd must be a directory''"
| "custody_error_text q (CwdUnavailable e) = ''launch spec cwd is unavailable: '' @ e"
| "custody_error_text q SpecEnvKeyBlank = ''launch spec env keys must not be blank''"
| "custody_error_text q CustodyClosed = ''custody service is closed''"
| "custody_error_text q (AlreadyAcknowledged k ow) =
     ''custody key '' @ quoted q k @ '' for owner '' @ quoted q ow
       @ '' was already acknowledged and cannot be relaunched''"
| "custody_error_text q (ConflictingSpec k ow) =
     ''custody key '' @ quoted q k @ '' for owner '' @ quoted q ow
       @ '' was already reserved with a different launch spec''"
| "custody_error_text q (HandleFailed e) = ''allocate custody handle: '' @ e"
| "custody_error_text q (OutputDirFailed e) = ''create custody output directory: '' @ e"
| "custody_error_text q (StdoutFailed e) = ''create custody stdout: '' @ e"
| "custody_error_text q (StderrFailed e) = ''create custody stderr: '' @ e"
| "custody_error_text q (UnknownHandle h) = ''unknown custody handle '' @ quoted q h"
| "custody_error_text q DifferentOwner = ''custody handle belongs to a different owner''"
| "custody_error_text q (NotReaped h) = ''custody process for handle '' @ quoted q h @ '' did not finish reaping''"
| "custody_error_text q (CancelUnfinished h) =
     ''cancel custody process group for handle '' @ quoted q h @ '' did not finish''"
| "custody_error_text q (CancelFailed h e) =
     ''cancel custody process group for handle '' @ quoted q h @ '': '' @ e"
| "custody_error_text q NotTerminal = ''custody handle is not terminal''"
| "custody_error_text q (RemoveFailed e) = ''remove custody output directory: '' @ e"

fun control_error_text :: "(string \<Rightarrow> string) \<Rightarrow> control_error \<Rightarrow> string" where
  "control_error_text q (LaunchUnknownField k) = ''launch arguments contain unknown field '' @ quoted q k"
| "control_error_text q LaunchIncomplete = ''launch arguments require non-blank owner, key, and launch_spec''"
| "control_error_text q (HandleUnknownField k) = ''handle arguments contain unknown field '' @ quoted q k"
| "control_error_text q HandleBlank = ''handle must be a non-blank string''"
| "control_error_text q (OwnerHandleUnknownField k) = ''owner/handle arguments contain unknown field '' @ quoted q k"
| "control_error_text q OwnerBlank = ''owner must be a non-blank string''"
| "control_error_text q (ListUnknownField k) = ''list-owned arguments contain unknown field '' @ quoted q k"
| "control_error_text q UnsupportedOperation = ''unsupported process operation''"
| "control_error_text q (CustodyFailed e) = custody_error_text q e"

definition process_error_code :: "(nat \<Rightarrow> string) \<Rightarrow> string \<Rightarrow> string" where
  "process_error_code lower_rune text =
     (let message = to_lower lower_rune text in
      if contains message ''unknown custody handle'' then ''process/unknown-handle''
      else if contains message ''different owner'' then ''process/owner-mismatch''
      else if contains message ''already reserved'' then ''process/conflicting-key''
      else if contains message ''tombstone'' \<or> contains message ''already acknowledged'' then ''process/conflicting-key''
      else if contains message ''malformed'' \<or> contains message ''must be'' \<or> contains message ''launch spec''
      then ''process/malformed-launch''
      else ''process/error'')"

section \<open>Admission\<close>

definition launch_token_env :: "string \<Rightarrow> string list" where
  "launch_token_env token =
     (if trim_space token = [] then [] else [''MILLSTRAND_MILL_LAUNCH_TOKEN='' @ token])"

datatype admit_error =
    PoolTokenMismatch
  | UnknownPoolMember string
  | PeerMismatch string int int
  | NoRunningWeaver string
  | TokenBelongsTo string string
  | TokenNotRunning
  | TokenBound string

text \<open>The three loops of \<open>admitControlCaller\<close>; \<open>None\<close>: the loop ends without an answer.\<close>

fun admit_pool ::
    "(int \<Rightarrow> bool) \<Rightarrow> string \<Rightarrow> string \<Rightarrow> int \<Rightarrow> (string \<times> weaver_host) list
     \<Rightarrow> (admit_error, world) result option" where
  "admit_pool live weaver token caller [] = None"
| "admit_pool live weaver token caller ((pool, host) # hosts) =
     (if host_cmd host = None \<or> host_pid host \<noteq> caller \<or> \<not> live (host_pid host)
      then admit_pool live weaver token caller hosts
      else case map_of (host_allowances host) weaver of
             Some w \<Rightarrow>
               if host_live host \<and> token = [] then Some (Ok w)
               else if host_launch_token host \<noteq> token then Some (Err PoolTokenMismatch)
               else Some (Ok w)
           | None \<Rightarrow>
               if host_launch_token host = token \<and> trim_space weaver \<noteq> []
               then Some (Err (UnknownPoolMember weaver))
               else admit_pool live weaver token caller hosts)"

fun admit_identity ::
    "string \<Rightarrow> int \<Rightarrow> (string \<times> weaver_child) list \<Rightarrow> (admit_error, world) result option" where
  "admit_identity weaver caller [] = None"
| "admit_identity weaver caller ((dir, child) # rest) =
     (if id_weaver (child_identity child) = weaver then
        (if id_pid (child_identity child) \<noteq> caller
         then Some (Err (PeerMismatch weaver caller (id_pid (child_identity child))))
         else Some (Ok (child_world child)))
      else admit_identity weaver caller rest)"

fun admit_token ::
    "(int \<Rightarrow> bool) \<Rightarrow> string \<Rightarrow> string \<Rightarrow> int \<Rightarrow> (string \<times> weaver_child) list
     \<Rightarrow> (string \<times> weaver_child) list \<times> (admit_error, world) result" where
  "admit_token live weaver token caller [] = ([], Err (NoRunningWeaver weaver))"
| "admit_token live weaver token caller ((dir, child) # rest) =
     (if child_unsupervised child \<or> child_launch_token child = [] \<or> child_launch_token child \<noteq> token then
        (case admit_token live weaver token caller rest of (rest', res) \<Rightarrow> ((dir, child) # rest', res))
      else if id_weaver (child_identity child) \<noteq> [] then
        ((dir, child) # rest, Err (TokenBelongsTo (id_weaver (child_identity child)) weaver))
      else if (case child_cmd child of None \<Rightarrow> True | Some pid \<Rightarrow> pid \<noteq> caller \<or> \<not> live pid) then
        ((dir, child) # rest, Err TokenNotRunning)
      else if child_startup_weaver child = [] then
        ((dir, child\<lparr>child_startup_weaver := weaver\<rparr>) # rest, Ok (child_world child))
      else if child_startup_weaver child \<noteq> weaver then
        ((dir, child) # rest, Err (TokenBound (child_startup_weaver child)))
      else ((dir, child) # rest, Ok (child_world child)))"

definition admit_control_caller ::
    "(int \<Rightarrow> bool) \<Rightarrow> string \<Rightarrow> string \<Rightarrow> int \<Rightarrow> server \<Rightarrow> server \<times> (admit_error, world) result" where
  "admit_control_caller live weaver token caller s =
     (case admit_pool live weaver token caller (pool_hosts s) of
        Some res \<Rightarrow> (s, res)
      | None \<Rightarrow>
          (case admit_identity weaver caller (children s) of
             Some res \<Rightarrow> (s, res)
           | None \<Rightarrow>
               if trim_space token = [] then (s, Err (NoRunningWeaver weaver))
               else (case admit_token live weaver token caller (children s) of
                       (cs, res) \<Rightarrow> (s\<lparr>children := cs\<rparr>, res))))"

section \<open>Choosing the custody\<close>

datatype custody_for_error = ShuttingDown | TemporaryEnded | NewCustodyFailed custody_error

definition custody_for ::
    "(int \<Rightarrow> bool) \<Rightarrow> string option \<Rightarrow> string option \<Rightarrow> world \<Rightarrow> server
     \<Rightarrow> server \<times> (custody_for_error, custody) result" where
  "custody_for live root mkdir_err w s =
     (if stopping s then (s, Err ShuttingDown)
      else if is_temporary_runtime_dir root (w_state_dir w)
              \<and> (case map_of (children s) (w_config_dir w) of
                   None \<Rightarrow> True
                 | Some child \<Rightarrow>
                     \<not> child_temporary child \<or> w_state_dir (child_world child) \<noteq> w_state_dir w
                     \<or> (case child_cmd child of None \<Rightarrow> True | Some pid \<Rightarrow> \<not> live pid))
      then (s, Err TemporaryEnded)
      else case map_of (custodies s) (w_state_dir w) of
             Some c \<Rightarrow> (s, Ok c)
           | None \<Rightarrow>
               (case new_custody mkdir_err (join_path [w_state_dir w, ''processes'']) of
                  Inl e \<Rightarrow> (s, Err (NewCustodyFailed e))
                | Inr c \<Rightarrow> (s\<lparr>custodies := AList.update (w_state_dir w) c (custodies s)\<rparr>, Ok c)))"

section \<open>The handler\<close>

datatype control_response =
    ControlOk string control_result
  | ControlError string string string \<comment> \<open>request, type, code\<close>

record control_env =
  ce_peer :: "(string, int) result"
  ce_order :: "string list"
  ce_live :: "int \<Rightarrow> bool"
  ce_root :: "string option"
  ce_mkdir :: "string option"
  ce_dispatch :: dispatch_env
  ce_lower :: "nat \<Rightarrow> string"
  ce_quote :: "string \<Rightarrow> string"

definition handle_process_control :: "control_env \<Rightarrow> object \<Rightarrow> server \<Rightarrow> server \<times> control_response" where
  "handle_process_control env raw s =
     (case ce_peer env of
        Inl e \<Rightarrow> (s, ControlError (control_string raw ''request_id'') ''domain'' ''process/stale-weaver'')
      | Inr caller \<Rightarrow>
          (case decode_control_request (ce_order env) raw of
             (request, Some e) \<Rightarrow>
               (s, ControlError (cr_request_id request) ''protocol'' ''process/malformed-request'')
           | (request, None) \<Rightarrow>
               if cr_operation request \<notin> set control_operations
               then (s, ControlError (cr_request_id request) ''protocol'' ''process/operation-not-allowed'')
               else
                 (case admit_control_caller (ce_live env) (cr_weaver_id request) (cr_launch_token request) caller s of
                    (s1, Inl e) \<Rightarrow> (s1, ControlError (cr_request_id request) ''domain'' ''process/stale-weaver'')
                  | (s1, Inr w) \<Rightarrow>
                      (case custody_for (ce_live env) (ce_root env) (ce_mkdir env) w s1 of
                         (s2, Inl e) \<Rightarrow> (s2, ControlError (cr_request_id request) ''domain'' ''process/unavailable'')
                       | (s2, Inr c) \<Rightarrow>
                           (case dispatch_process_control (ce_dispatch env) (cr_operation request)
                                   (case cr_arguments request of Some args \<Rightarrow> args | None \<Rightarrow> []) c of
                              (c', res) \<Rightarrow>
                                (s2\<lparr>custodies := AList.update (w_state_dir w) c' (custodies s2)\<rparr>,
                                 case res of
                                   Inl e \<Rightarrow> ControlError (cr_request_id request) ''domain''
                                              (process_error_code (ce_lower env) (control_error_text (ce_quote env) e))
                                 | Inr r \<Rightarrow> ControlOk (cr_request_id request) r))))))"

section \<open>Lemmas\<close>

lemma admit_pool_ok:
  "admit_pool live weaver token caller hosts = Some (Ok w) \<Longrightarrow>
   \<exists>(pool, host) \<in> set hosts. host_cmd host \<noteq> None \<and> host_pid host = caller \<and> live caller
     \<and> map_of (host_allowances host) weaver = Some w
     \<and> (host_live host \<and> token = [] \<or> host_launch_token host = token)"
  by (induction live weaver token caller hosts rule: admit_pool.induct) (fastforce split: if_splits option.splits)+

lemma admit_identity_ok:
  "admit_identity weaver caller cs = Some (Ok w) \<Longrightarrow>
   \<exists>(dir, child) \<in> set cs. id_weaver (child_identity child) = weaver \<and> id_pid (child_identity child) = caller
     \<and> child_world child = w"
  by (induction weaver caller cs rule: admit_identity.induct) (auto split: if_splits)

text \<open>The child a launch token speaks for.\<close>

definition speaks_for :: "(int \<Rightarrow> bool) \<Rightarrow> string \<Rightarrow> string \<Rightarrow> int \<Rightarrow> weaver_child \<Rightarrow> bool" where
  "speaks_for live weaver token caller child \<longleftrightarrow>
     \<not> child_unsupervised child \<and> child_launch_token child = token \<and> token \<noteq> []
     \<and> id_weaver (child_identity child) = [] \<and> child_cmd child = Some caller \<and> live caller
     \<and> child_startup_weaver child \<in> {[], weaver}"

lemma admit_token_ok:
  "admit_token live weaver token caller cs = (cs', Ok w) \<Longrightarrow>
   \<exists>pre dir child post. cs = pre @ (dir, child) # post \<and> speaks_for live weaver token caller child
     \<and> child_world child = w \<and> cs' = pre @ (dir, child\<lparr>child_startup_weaver := weaver\<rparr>) # post"
proof (induction cs arbitrary: cs')
  case (Cons x cs)
  obtain dir child where x: "x = (dir, child)" by (cases x)
  show ?case
  proof (cases "child_unsupervised child \<or> child_launch_token child = [] \<or> child_launch_token child \<noteq> token")
    case True
    obtain cs1 where "admit_token live weaver token caller cs = (cs1, Ok w)" "cs' = x # cs1"
      using True Cons.prems x by (auto split: prod.splits)
    with Cons.IH obtain pre dir' child' post where "cs = pre @ (dir', child') # post"
      "speaks_for live weaver token caller child'" "child_world child' = w"
      "cs1 = pre @ (dir', child'\<lparr>child_startup_weaver := weaver\<rparr>) # post"
      by blast
    with \<open>cs' = x # cs1\<close> show ?thesis
      by (intro exI [of _ "x # pre"]) auto
  next
    case False
    with Cons.prems x have "speaks_for live weaver token caller child \<and> child_world child = w
        \<and> cs' = (dir, child\<lparr>child_startup_weaver := weaver\<rparr>) # cs"
      by (auto simp: speaks_for_def split: if_splits option.splits)
    with x show ?thesis by (intro exI [of _ "[]"] exI [of _ dir] exI [of _ child] exI [of _ cs]) simp
  qed
qed simp

lemma admit_token_err: "admit_token live weaver token caller cs = (cs', Err e) \<Longrightarrow> cs' = cs"
  by (induction cs arbitrary: cs') (auto split: if_splits prod.splits)


lemma admit_token_pin:
  assumes "(dir, child) \<in> set (fst (admit_token live weaver token caller cs))" and "distinct (map fst cs)"
    and "map_of cs dir = Some old" and "child_startup_weaver old \<noteq> []"
  shows "child = old"
proof (cases "snd (admit_token live weaver token caller cs)")
  case (Inl e)
  then have "fst (admit_token live weaver token caller cs) = cs"
    by (metis admit_token_err prod.collapse)
  with assms show ?thesis by (metis map_of_is_SomeI option.inject)
next
  case (Inr w)
  then obtain pre d c post where cs: "cs = pre @ (d, c) # post" "speaks_for live weaver token caller c"
    and out: "fst (admit_token live weaver token caller cs) = pre @ (d, c\<lparr>child_startup_weaver := weaver\<rparr>) # post"
    using admit_token_ok [of live weaver token caller cs "fst (admit_token live weaver token caller cs)" w]
    by (metis prod.collapse)
  have old: "(dir, old) \<in> set cs" using assms(3) by (rule map_of_SomeD)
  show ?thesis
  proof (cases "dir = d")
    case True
    then have "old = c" using assms(2,3) cs(1) by (metis in_set_conv_decomp map_of_is_SomeI option.inject)
    then have "child_startup_weaver c = weaver" using assms(4) cs(2) by (auto simp: speaks_for_def)
    then have "c\<lparr>child_startup_weaver := weaver\<rparr> = c" by simp
    with out cs(1) assms(1,2,3) show ?thesis by (metis map_of_is_SomeI option.inject)
  next
    case False
    then have "(dir, child) \<in> set cs" using assms(1) out cs(1) by auto
    then show ?thesis using assms(2,3) by (metis map_of_is_SomeI option.inject)
  qed
qed

lemma admit_token_keys: "map fst (fst (admit_token live weaver token caller cs)) = map fst cs"
  by (induction cs) (auto split: prod.splits if_splits option.splits)

lemma admit_keys: "map fst (children (fst (admit_control_caller live weaver token caller s))) = map fst (children s)"
  using admit_token_keys [of live weaver token caller "children s"]
  by (auto simp: admit_control_caller_def split: option.splits prod.splits)

lemma admit_children:
  "children (fst (admit_control_caller live weaver token caller s)) \<in>
     {children s, fst (admit_token live weaver token caller (children s))}"
  by (auto simp: admit_control_caller_def split: option.splits prod.splits)

lemma admit_other [simp]:
  "custodies (fst (admit_control_caller live weaver token caller s)) = custodies s"
  by (auto simp: admit_control_caller_def split: option.splits prod.splits)

text \<open>Custody sections the dispatcher runs, as steps of the interleaving.\<close>

lemma cancel_steps: "custody_steps obs c (fst (cancel env timed_out owner handle c))"
proof -
  have begin_step: "custody_step obs c (fst (cancel_begin owner handle c))" by (rule cancelling)
  obtain c1 nxt where b: "cancel_begin owner handle c = (c1, nxt)" by (cases "cancel_begin owner handle c")
  with begin_step have s1: "custody_step obs c c1" by simp
  show ?thesis
  proof (cases nxt)
    case (CancelTerminate row)
    obtain stop err where te: "terminate_process_tree env = (stop, err)" by (meson surj_pair)
    have row: "lookup c handle = Some row" "row_cancelled row = []" "row_started row"
      "c1 = update_row handle cancel_row c"
      using b CancelTerminate by (auto simp: cancel_begin_def split: option.splits if_splits)
    then have "lookup c1 handle = Some (cancel_row row)" "row_tree (cancel_row row) = TreeOpen"
      by (simp_all add: lookup_update_row cancel_row_def)
    then have "custody_step obs c1 (update_row handle (tree_end stop err) c1)"
      using te by (rule tree_ended)
    with s1 show ?thesis
      using b CancelTerminate te by (simp add: cancel_def)
  qed (use s1 b in \<open>simp_all add: cancel_def r_into_rtranclp\<close>)
qed

lemma cancel_other_rows:
  assumes "lookup c h = Some r" and "lookup (fst (cancel env timed_out owner handle c)) h \<noteq> Some r"
  shows "h = handle \<and> row_owner r = owner"
proof (cases "h = handle \<and> row_owner r = owner")
  case False
  then have "lookup (fst (cancel env timed_out owner handle c)) h = Some r"
    using assms(1)
    by (auto simp: cancel_def cancel_begin_def lookup_update_row split: option.splits prod.splits)
  with assms(2) show ?thesis by blast
qed

lemma acknowledge_other_rows:
  assumes "lookup c h = Some r" and "lookup (fst (acknowledge err owner handle c)) h \<noteq> Some r"
  shows "h = handle \<and> row_owner r = owner"
  using assms by (auto simp: acknowledge_def lookup_delete split: option.splits if_splits)

lemma launch_other_rows:
  assumes "handle_fresh env c" and "lookup c h = Some r"
  shows "lookup (fst (launch env owner key spec c)) h = Some r"
  using launch_state [of env owner key spec c] assms
  by (auto simp: handle_fresh_def lookup_insert)

lemma fst_lift_record [simp]: "fst (lift_record x) = fst x"
  by (simp add: lift_record_def)

lemma to_lower_quoted:
  "to_lower f (quoted q s @ t) = CHR 0x22 # to_lower f (q s) @ CHR 0x22 # to_lower f t"
  using to_lower_append_ascii [of "CHR 0x22" f "q s" t] by (simp add: quoted_def)

lemma contains_quoted:
  "CHR 0x22 \<notin> set sub \<Longrightarrow> contains (a @ CHR 0x22 # b @ CHR 0x22 # d) sub
     \<longleftrightarrow> contains a sub \<or> contains b sub \<or> contains d sub"
  by (simp add: contains_separator)

lemma contains_quoted_start:
  "CHR 0x22 \<notin> set sub \<Longrightarrow> sub \<noteq> [] \<Longrightarrow> contains (CHR 0x22 # b @ CHR 0x22 # d) sub
     \<longleftrightarrow> contains b sub \<or> contains d sub"
  using contains_quoted [of sub "[]" b d] by simp

lemma custody_for_others:
  "map_of (custodies (fst (custody_for live root err w s))) d \<noteq> map_of (custodies s) d \<Longrightarrow> d = w_state_dir w"
  by (auto simp: custody_for_def update_conv split: if_splits option.splits sum.splits)

section \<open>A small server\<close>

definition demo_world :: world where
  "demo_world = \<lparr>w_config_dir = ''/w'', w_state_dir = ''/s'', w_data_dir = ''/d'', w_config_file = ''/w/c'', w_db_path = ''/d/b''\<rparr>"

definition demo_child :: weaver_child where
  "demo_child = \<lparr>child_cmd = Some 9, child_world = demo_world, child_name = ''w'',
     child_identity = \<lparr>id_pid = 9, id_weaver = ''u'', id_generation = [], id_started_at = [], id_socket = [],
       id_config_dir = ''/w'', id_state_dir = ''/s'', id_data_dir = ''/d''\<rparr>,
     child_temporary = False, child_unsupervised = False, child_generation = ''g'', child_launch_token = ''t'',
     child_startup_weaver = ''u''\<rparr>"

definition demo_server :: server where
  "demo_server = \<lparr>children = [(''/w'', demo_child)], custodies = [], pool_hosts = [], stopping = False\<rparr>"

lemma demo_admit: "admit_control_caller (\<lambda>_. True) ''u'' [] 9 demo_server = (demo_server, Ok demo_world)"
  by (simp add: admit_control_caller_def demo_server_def demo_child_def)

definition demo_dispatch_env :: dispatch_env where
  "demo_dispatch_env = \<lparr>de_launch = demo_env None,
     de_terminate = \<lparr>term_signal = None, term_wait = Ok True, kill_signal = None, kill_wait = Ok True\<rparr>,
     de_timed_out = False, de_remove = None\<rparr>"

section \<open>Properties\<close>

text \<open>
  C13: A caller is admitted to a workspace only as a member of a running pool host that is the
  calling process, as the Weaver whose published identity names the calling process, or, before any
  identity is published, with the launch token of a running child that is the calling process.
\<close>
theorem admission_sound:
  assumes "admit_control_caller live weaver token caller s = (s', Ok w)"
  shows "(\<exists>(pool, host) \<in> set (pool_hosts s). host_cmd host \<noteq> None \<and> host_pid host = caller \<and> live caller
            \<and> map_of (host_allowances host) weaver = Some w
            \<and> (host_live host \<and> token = [] \<or> host_launch_token host = token))
         \<or> (\<exists>(dir, child) \<in> set (children s). id_weaver (child_identity child) = weaver
              \<and> id_pid (child_identity child) = caller \<and> child_world child = w)
         \<or> (\<exists>(dir, child) \<in> set (children s). speaks_for live weaver token caller child
              \<and> child_world child = w \<and> (dir, child\<lparr>child_startup_weaver := weaver\<rparr>) \<in> set (children s'))"
proof (cases "admit_pool live weaver token caller (pool_hosts s)")
  case (Some res)
  with assms admit_pool_ok [of live weaver token caller "pool_hosts s" w] show ?thesis
    by (simp add: admit_control_caller_def)
next
  case None
  show ?thesis
  proof (cases "admit_identity weaver caller (children s)")
    case (Some res)
    with None assms admit_identity_ok [of weaver caller "children s" w] show ?thesis
      by (simp add: admit_control_caller_def)
  next
    case None2: None
    obtain cs where "admit_token live weaver token caller (children s) = (cs, Ok w)" "children s' = cs"
      using None None2 assms by (auto simp: admit_control_caller_def split: if_splits prod.splits)
    with admit_token_ok [OF this(1)] show ?thesis by fastforce
  qed
qed

theorem admission_sound_witness:
  "\<exists>(dir, child) \<in> set (children demo_server). id_weaver (child_identity child) = ''u''
     \<and> id_pid (child_identity child) = 9 \<and> child_world child = demo_world"
  using admission_sound [OF demo_admit] by (simp add: demo_server_def demo_child_def speaks_for_def)

text \<open>
  A launch token speaks for one identity only: once a child is bound to a Weaver, every sequence
  of admissions, with any callers and tokens, leaves it bound to that Weaver.
\<close>
theorem token_pinned:
  assumes "distinct (map fst (children s))" and "map_of (children s) dir = Some child"
    and "child_startup_weaver child \<noteq> []"
  shows "map_of (children (fold (\<lambda>(live, weaver, token, caller) s.
            fst (admit_control_caller live weaver token caller s)) requests s)) dir = Some child"
  using assms
proof (induction requests arbitrary: s)
  case (Cons q qs)
  obtain live weaver token caller where q: "q = (live, weaver, token, caller)" by (cases q)
  let ?s = "fst (admit_control_caller live weaver token caller s)"
  have d: "distinct (map fst (children ?s))"
    using Cons.prems(1) by (simp only: admit_keys)
  have "dir \<in> fst ` set (children s)"
    using Cons.prems(2) by (metis map_of_eq_None_iff option.distinct(1))
  then have "dir \<in> set (map fst (children ?s))"
    by (simp only: admit_keys set_map)
  then obtain c where c: "(dir, c) \<in> set (children ?s)" by auto
  have "c = child"
    using admit_children [of live weaver token caller s] c admit_token_pin [OF _ Cons.prems]
      map_of_is_SomeI [OF Cons.prems(1)] Cons.prems(2) by fastforce
  with c d have "map_of (children ?s) dir = Some child" by simp
  from Cons.IH [OF d this Cons.prems(3)] show ?case by (simp add: q)
qed simp

theorem token_pinned_witness:
  "map_of (children (fst (admit_control_caller (\<lambda>_. True) ''v'' ''t'' 9 demo_server))) ''/w'' = Some demo_child"
proof -
  have "distinct (map fst (children demo_server))" "map_of (children demo_server) ''/w'' = Some demo_child"
    "child_startup_weaver demo_child \<noteq> []"
    by (simp_all add: demo_server_def demo_child_def)
  from token_pinned [OF this, of "[(\<lambda>_. True, ''v'', ''t'', 9)]"] show ?thesis by simp
qed

text \<open>
  An operation of one owner never changes or removes another owner's record: a record that
  differs after a request belongs to the owner the request names.
\<close>
theorem owners_isolated:
  assumes "handle_fresh (de_launch env) c" and "lookup c h = Some r"
    and "lookup (fst (dispatch_process_control env operation arguments c)) h \<noteq> Some r"
  shows "map_of arguments ''owner'' = Some (JStr (row_owner r))
         \<and> map_of arguments ''handle'' = Some (JStr h)
         \<and> operation \<in> {''process.cancel'', ''process.acknowledge''}"
proof -
  have own: "map_of arguments ''owner'' = Some (JStr owner) \<and> map_of arguments ''handle'' = Some (JStr handle)"
    if "owner_handle_arguments arguments = Ok (owner, handle)" for owner handle
    using that by (auto simp: owner_handle_arguments_def split: option.splits if_splits)
  have op: "operation \<in> {''process.cancel'', ''process.acknowledge''}"
    using assms launch_other_rows [OF assms(1,2)]
    by (auto simp: dispatch_process_control_def split: sum.splits option.splits if_splits prod.splits)
  then obtain owner handle where a: "owner_handle_arguments arguments = Ok (owner, handle)"
    using assms(2,3) by (auto simp: dispatch_process_control_def split: sum.splits)
  have "h = handle \<and> row_owner r = owner"
    using op a assms(2,3) cancel_other_rows [OF assms(2)] acknowledge_other_rows [OF assms(2)]
    by (auto simp: dispatch_process_control_def split: sum.splits prod.splits)
       (metis fst_conv)+
  with own [OF a] op show ?thesis by blast
qed

theorem owners_isolated_witness:
  "map_of [(''owner'', JStr ''o''), (''handle'', JStr ''process-1'')] ''owner''
   = Some (JStr (row_owner (demo_row (Some ''no'') [])))"
proof -
  let ?c = "demo_launched (Some ''no'') []" and ?a = "[(''owner'', JStr ''o''), (''handle'', JStr ''process-1'')]"
  let ?env = "demo_dispatch_env\<lparr>de_launch := (demo_env None)\<lparr>le_handle := Inr ''process-2''\<rparr>\<rparr>"
  have fresh: "handle_fresh (de_launch ?env) ?c"
    by (simp add: handle_fresh_def lookup_def reserved_def demo_launched_def demo_custody_def)
  have "owner_handle_arguments ?a = Ok (''o'', ''process-1'')"
    by (simp add: owner_handle_arguments_def trim_space_empty_iff is_space_def)
  moreover have "acknowledge None ''o'' ''process-1'' ?c = (?c\<lparr>by_handle := []\<rparr>, Ok ())"
    by (simp add: acknowledge_def demo_lookup) (simp add: demo_row_simps demo_launched_def)
  ultimately have "fst (dispatch_process_control ?env ''process.acknowledge'' ?a ?c) = ?c\<lparr>by_handle := []\<rparr>"
    by (simp add: dispatch_process_control_def demo_dispatch_env_def)
  then have "lookup (fst (dispatch_process_control ?env ''process.acknowledge'' ?a ?c)) ''process-1''
             \<noteq> Some (demo_row (Some ''no'') [])"
    by (simp add: lookup_def)
  from owners_isolated [OF fresh demo_lookup this] show ?thesis by blast
qed

text \<open>
  Every request the dispatcher handles is a run of custody sections, so all that holds in every
  interleaving of the custody holds for the custodies a server reaches by requests.
\<close>
theorem dispatch_refines_custody:
  assumes "handle_fresh (de_launch env) c"
  shows "custody_steps obs c (fst (dispatch_process_control env operation arguments c))"
proof -
  have l: "custody_steps obs c (fst (launch (de_launch env) owner key spec c))" for owner key spec
    using launched [OF assms] by (rule r_into_rtranclp)
  have a: "custody_steps obs c (fst (acknowledge (de_remove env) owner handle c))" for owner handle
    using acknowledged by (rule r_into_rtranclp)
  show ?thesis
    using l a cancel_steps
    by (auto simp: dispatch_process_control_def split: sum.splits option.splits prod.splits)
       (metis fst_conv)+
qed


theorem dispatch_refines_custody_witness:
  "custody_steps True demo_custody (fst (dispatch_process_control demo_dispatch_env ''process.list-owned'' [] demo_custody))"
  by (rule dispatch_refines_custody) (simp add: demo_dispatch_env_def demo_fresh)

text \<open>
  The error code of a conflicting launch depends on the text of the key and the owner: it is
  the code for conflicting keys only if neither contains the phrase of an unknown handle or of a
  different owner.
\<close>
theorem conflict_code_exact:
  "process_error_code f (custody_error_text q (ConflictingSpec key owner)) =
     (if contains (to_lower f (q key)) ''unknown custody handle''
         \<or> contains (to_lower f (q owner)) ''unknown custody handle'' then ''process/unknown-handle''
      else if contains (to_lower f (q key)) ''different owner''
              \<or> contains (to_lower f (q owner)) ''different owner'' then ''process/owner-mismatch''
      else ''process/conflicting-key'')"
proof -
  let ?k = "to_lower f (q key)" and ?o = "to_lower f (q owner)"
  have low: "to_lower f (custody_error_text q (ConflictingSpec key owner)) =
        ''custody key '' @ CHR 0x22 # ?k @ CHR 0x22 # ('' for owner '' @ CHR 0x22 # ?o @ CHR 0x22 #
          '' was already reserved with a different launch spec'')"
    by (simp add: to_lower_quoted)
  have c: "contains (to_lower f (custody_error_text q (ConflictingSpec key owner))) sub \<longleftrightarrow>
        contains ''custody key '' sub \<or> contains ?k sub \<or> contains '' for owner '' sub \<or> contains ?o sub
        \<or> contains '' was already reserved with a different launch spec'' sub"
    if "CHR 0x22 \<notin> set sub" for sub
    unfolding low by (simp only: contains_quoted [OF that])
  show ?thesis
    unfolding process_error_code_def Let_def
    by (subst c, simp)+ (simp add: has_prefix_def)
qed


text \<open>
  A process control request changes at most the custody of the workspace its caller was admitted
  to: when the custody kept for a state directory differs afterwards, the frame was well formed and
  its caller was admitted to a workspace with that state directory.
\<close>
theorem workspaces_isolated:
  assumes "map_of (custodies (fst (handle_process_control env raw s))) d \<noteq> map_of (custodies s) d"
  shows "\<exists>caller request s' w. ce_peer env = Ok caller
           \<and> decode_control_request (ce_order env) raw = (request, None)
           \<and> admit_control_caller (ce_live env) (cr_weaver_id request) (cr_launch_token request) caller s
             = (s', Ok w)
           \<and> w_state_dir w = d"
proof -
  obtain caller where p: "ce_peer env = Ok caller"
    using assms by (cases "ce_peer env") (auto simp: handle_process_control_def)
  obtain request where d: "decode_control_request (ce_order env) raw = (request, None)"
    using assms p by (auto simp: handle_process_control_def split: prod.splits option.splits)
  let ?a = "admit_control_caller (ce_live env) (cr_weaver_id request) (cr_launch_token request) caller s"
  have cs: "custodies (fst ?a) = custodies s" by simp
  obtain s1 w where a: "?a = (s1, Ok w)"
    using assms p d cs by (cases ?a; cases "snd ?a") (auto simp: handle_process_control_def split: if_splits)
  with cs have cs1: "custodies s1 = custodies s" by simp
  obtain s2 res where f: "custody_for (ce_live env) (ce_root env) (ce_mkdir env) w s1 = (s2, res)"
    by (meson surj_pair)
  have other: "map_of (custodies s2) k = map_of (custodies s) k" if "k \<noteq> w_state_dir w" for k
    using custody_for_others [of "ce_live env" "ce_root env" "ce_mkdir env" w s1 k] that f cs1 by auto
  have "w_state_dir w = d"
  proof (rule ccontr)
    assume ne: "w_state_dir w \<noteq> d"
    have "map_of (custodies (fst (handle_process_control env raw s))) d = map_of (custodies s) d"
      using other [of d] ne
      by (simp add: handle_process_control_def p d a f update_conv split: sum.split prod.split)
    with assms show False by blast
  qed
  with p d a show ?thesis by blast
qed

theorem workspaces_isolated_witness:
  "let raw = [(''protocol_version'', JNum ''3''), (''request_id'', JStr ''r''), (''weaver_id'', JStr ''u''),
              (''operation'', JStr ''process.list-owned''), (''arguments'', JObj [])];
       env = \<lparr>ce_peer = Ok 9, ce_order = [''request_id'', ''weaver_id'', ''operation''], ce_live = \<lambda>_. True,
              ce_root = None, ce_mkdir = None, ce_dispatch = demo_dispatch_env, ce_lower = \<lambda>_. [],
              ce_quote = \<lambda>s. s\<rparr>
   in map_of (custodies (fst (handle_process_control env raw demo_server))) ''/s'' \<noteq> None
      \<and> (\<exists>request. decode_control_request (ce_order env) raw = (request, None))"
proof -
  let ?raw = "[(''protocol_version'', JNum ''3''), (''request_id'', JStr ''r''), (''weaver_id'', JStr ''u''),
              (''operation'', JStr ''process.list-owned''), (''arguments'', JObj [])]"
  let ?env = "\<lparr>ce_peer = Ok 9, ce_order = [''request_id'', ''weaver_id'', ''operation''], ce_live = \<lambda>_. True,
              ce_root = None, ce_mkdir = None, ce_dispatch = demo_dispatch_env, ce_lower = \<lambda>_. [],
              ce_quote = \<lambda>s. s\<rparr>"
  have dec: "decode_control_request [''request_id'', ''weaver_id'', ''operation''] ?raw =
      (\<lparr>cr_request_id = ''r'', cr_weaver_id = ''u'', cr_launch_token = [], cr_operation = ''process.list-owned'',
        cr_arguments = Some []\<rparr>, None)"
    by (simp add: decode_control_request_def control_string_def control_fields_def unmarshal_int_def atoi_def
        unsigned_def digits_value_def is_digit_def mill_protocol_version_def unmarshal_string_def
        trim_space_empty_iff is_space_def decode_token_def unmarshal_object_def)
  have cu: "\<exists>c. custody_for (\<lambda>_. True) None None demo_world demo_server
            = (demo_server\<lparr>custodies := [(''/s'', c)]\<rparr>, Ok c)"
    by (simp add: custody_for_def demo_server_def demo_world_def is_temporary_runtime_dir_def new_custody_def
        join_path_def clean_path_def is_abs_def has_prefix_def trim_space_empty_iff is_space_def)
  have ne: "map_of (custodies (fst (handle_process_control ?env ?raw demo_server))) ''/s'' \<noteq> None"
    using cu by (auto simp: handle_process_control_def dec demo_admit control_operations_def update_conv
        demo_world_def split: prod.split)
  then have "map_of (custodies (fst (handle_process_control ?env ?raw demo_server))) ''/s''
             \<noteq> map_of (custodies demo_server) ''/s''"
    by (simp add: demo_server_def)
  from workspaces_isolated [OF this] ne show ?thesis
    unfolding Let_def by blast
qed

end
