(* ===== verification/Land_Quality.thy ===== *)
theory Land_Quality
  imports Prelude
begin

text \<open>
  The landing quality gate (\<open>tools/land-quality/main.go\<close>): a table of checks with dependencies and
  a limit on heavy checks, its validation, the scheduler and the summary.

  Durations are nanoseconds in a signed 64-bit integer.  What the environment decides is an
  argument: the context's error and the outcome of each write at each point of time, which of the
  running checks reports next, and what its execution did.
\<close>

section \<open>Data\<close>

record check =
  ck_name :: string
  ck_argv :: "string list"
  ck_heavy :: bool
  ck_deps :: "string list"
  ck_baseline :: int
  ck_timeout :: int

datatype cstate = Pending | Running | Pass | Warn | Fail | Timeout | Blocked
  \<comment> \<open>the strings of \<open>states\<close>; the last five, in upper case, are those of \<open>result.status\<close>\<close>

datatype check_error =
    Prerequisite string cstate
  | ContextError string
  | HardTimeout int "string option" \<comment> \<open>joined with the execution error\<close>
  | ExecutionError string

record result =
  rs_check :: check
  rs_status :: cstate
  rs_elapsed :: int
  rs_log_path :: string
  rs_err :: "check_error option"

section \<open>Budgets and classification\<close>

definition wrap64 :: "int \<Rightarrow> int" where
  "wrap64 i = (i + 2 ^ 63) mod 2 ^ 64 - 2 ^ 63"

text \<open>Go's division truncates towards zero.\<close>

definition growth_budget :: "int \<Rightarrow> int" where
  "growth_budget baseline = wrap64 (baseline + sgn baseline * (\<bar>baseline\<bar> div 10))"

datatype context_err = DeadlineExceeded | Canceled

definition classify_result ::
    "check \<Rightarrow> int \<Rightarrow> context_err option \<Rightarrow> string option \<Rightarrow> cstate \<times> check_error option" where
  "classify_result c elapsed context_error execution_err =
     (if context_error = Some DeadlineExceeded then (Timeout, Some (HardTimeout (ck_timeout c) execution_err))
      else if execution_err \<noteq> None then (Fail, Some (ExecutionError (the execution_err)))
      else if elapsed > growth_budget (ck_baseline c) then (Warn, None)
      else (Pass, None))"

definition default_heavy_limit :: int where
  "default_heavy_limit = 2"

definition heavy_limit_from_env :: "string \<Rightarrow> (string, int) Prelude.result" where
  "heavy_limit_from_env raw =
     (if raw = [] then Ok default_heavy_limit
      else case atoi raw of
             None \<Rightarrow> Err raw
           | Some limit \<Rightarrow> if limit < 1 then Err raw else Ok limit)"

section \<open>Validation\<close>

datatype check_fault =
    InvalidCheck check
  | BadBudget string
  | DuplicateCheck string
  | UnknownDependency string string
  | DependencyCycle string

fun validate_fields :: "string list \<Rightarrow> check list \<Rightarrow> check_fault option" where
  "validate_fields known [] = None"
| "validate_fields known (c # cs) =
     (if ck_name c = [] \<or> ck_argv c = [] then Some (InvalidCheck c)
      else if ck_baseline c \<le> 0 \<or> ck_timeout c \<le> growth_budget (ck_baseline c) then Some (BadBudget (ck_name c))
      else if ck_name c \<in> set known then Some (DuplicateCheck (ck_name c))
      else validate_fields (ck_name c # known) cs)"

definition validate_deps :: "check list \<Rightarrow> check_fault option" where
  "validate_deps checks =
     first_error (\<lambda>c. first_error (\<lambda>dep. if dep \<in> ck_name ` set checks then None
                                         else Some (UnknownDependency (ck_name c) dep)) (ck_deps c)) checks"

text \<open>Indexing \<open>byName\<close> with an unknown name yields a check without dependencies.\<close>

definition deps_of :: "check list \<Rightarrow> string \<Rightarrow> string list" where
  "deps_of checks name =
     (case map_of (map (\<lambda>c. (ck_name c, ck_deps c)) (rev checks)) name of None \<Rightarrow> [] | Some ds \<Rightarrow> ds)"

text \<open>
  \<open>visit\<close> on each name of a list.  The set \<open>visiting\<close> is scoped to the call: a name enters before
  its dependencies are visited and leaves afterwards.
\<close>

lemma deps_of_unknown: "name \<notin> ck_name ` set checks \<Longrightarrow> deps_of checks name = []"
proof -
  assume "name \<notin> ck_name ` set checks"
  then have "map_of (map (\<lambda>c. (ck_name c, ck_deps c)) (rev checks)) name = None"
    unfolding map_of_eq_None_iff by auto
  then show ?thesis by (simp add: deps_of_def)
qed

function visit_all ::
    "check list \<Rightarrow> string list \<Rightarrow> string list \<Rightarrow> string list \<Rightarrow> (check_fault, string list) Prelude.result" where
  "visit_all checks visiting visited [] = Ok visited"
| "visit_all checks visiting visited (name # names) =
     (if name \<in> set visiting then Err (DependencyCycle name)
      else if name \<in> set visited then visit_all checks visiting visited names
      else case visit_all checks (name # visiting) visited (deps_of checks name) of
             Inl e \<Rightarrow> Err e
           | Inr visited' \<Rightarrow> visit_all checks visiting (name # visited') names)"
  by pat_completeness auto
termination
proof (relation "measures [\<lambda>(checks, visiting, _, _). card (ck_name ` set checks - set visiting),
                            \<lambda>(_, _, _, names). length names]")
  fix checks :: "check list" and visiting visited names :: "string list" and name
  assume new: "name \<notin> set visiting"
  show "((checks, name # visiting, visited, deps_of checks name), checks, visiting, visited, name # names)
        \<in> measures [\<lambda>(checks, visiting, _, _). card (ck_name ` set checks - set visiting),
                    \<lambda>(_, _, _, names). length names]"
  proof (cases "name \<in> ck_name ` set checks")
    case True
    have "card (ck_name ` set checks - set (name # visiting)) < card (ck_name ` set checks - set visiting)"
      by (rule psubset_card_mono) (use True new in auto)
    then show ?thesis by simp
  next
    case False
    then have "ck_name ` set checks - insert name (set visiting) = ck_name ` set checks - set visiting" by auto
    then show ?thesis by (simp add: deps_of_unknown [OF False])
  qed
qed auto

definition validate_checks :: "check list \<Rightarrow> check_fault option" where
  "validate_checks checks =
     (case validate_fields [] checks of
        Some e \<Rightarrow> Some e
      | None \<Rightarrow>
          (case validate_deps checks of
             Some e \<Rightarrow> Some e
           | None \<Rightarrow> (case visit_all checks [] [] (map ck_name checks) of Inl e \<Rightarrow> Some e | Inr _ \<Rightarrow> None)))"

section \<open>The scheduler\<close>

datatype event = EvStart check | EvDone cstate check \<comment> \<open>the lines written while checks run\<close>

record sched =
  sc_states :: "string \<Rightarrow> cstate option"
  sc_completed :: "(string \<times> result) list"
  sc_running :: "check list"
  sc_heavy :: int
  sc_log :: "event list"
  sc_clock :: nat

record run_env =
  env_ctx :: "nat \<Rightarrow> string option" \<comment> \<open>\<open>ctx.Err()\<close>\<close>
  env_write :: "nat \<Rightarrow> string option"
  env_pick :: "nat \<Rightarrow> nat" \<comment> \<open>which running check reports\<close>
  env_exec :: "check \<Rightarrow> int \<times> context_err option \<times> string option"
  env_log_dir :: string

definition dependencies_passed :: "check \<Rightarrow> (string \<Rightarrow> cstate option) \<Rightarrow> bool" where
  "dependencies_passed c states = list_all (\<lambda>dep. states dep = Some Pass \<or> states dep = Some Warn) (ck_deps c)"

definition failed_dependency :: "check \<Rightarrow> (string \<Rightarrow> cstate option) \<Rightarrow> string option" where
  "failed_dependency c states =
     find (\<lambda>dep. states dep = Some Fail \<or> states dep = Some Timeout \<or> states dep = Some Blocked) (ck_deps c)"

definition init_sched :: "check list \<Rightarrow> sched" where
  "init_sched checks =
     \<lparr>sc_states = map_of (map (\<lambda>c. (ck_name c, Pending)) checks), sc_completed = [], sc_running = [],
      sc_heavy = 0, sc_log = [], sc_clock = 0\<rparr>"

definition block :: "check \<Rightarrow> check_error \<Rightarrow> sched \<Rightarrow> sched" where
  "block c e s =
     s\<lparr>sc_states := (sc_states s)(ck_name c \<mapsto> Blocked),
       sc_completed := AList.update (ck_name c)
         \<lparr>rs_check = c, rs_status = Blocked, rs_elapsed = 0, rs_log_path = [], rs_err = Some e\<rparr>
         (sc_completed s)\<rparr>"

definition start :: "check \<Rightarrow> sched \<Rightarrow> sched" where
  "start c s =
     s\<lparr>sc_states := (sc_states s)(ck_name c \<mapsto> Running), sc_running := sc_running s @ [c],
       sc_heavy := (if ck_heavy c then sc_heavy s + 1 else sc_heavy s)\<rparr>"

definition log_line :: "event \<Rightarrow> sched \<Rightarrow> sched" where
  "log_line ev s = s\<lparr>sc_log := sc_log s @ [ev], sc_clock := sc_clock s + 1\<rparr>"

definition tick :: "sched \<Rightarrow> sched" where
  "tick s = s\<lparr>sc_clock := sc_clock s + 1\<rparr>"

text \<open>The inner loop: one pass over the checks; the last component is a failed write.\<close>

fun pass :: "run_env \<Rightarrow> int \<Rightarrow> check list \<Rightarrow> sched \<Rightarrow> bool \<Rightarrow> sched \<times> bool \<times> string option" where
  "pass env limit [] s progress = (s, progress, None)"
| "pass env limit (c # cs) s progress =
     (if sc_states s (ck_name c) \<noteq> Some Pending then pass env limit cs s progress
      else case failed_dependency c (sc_states s) of
        Some dep \<Rightarrow> pass env limit cs (block c (Prerequisite dep (the (sc_states s dep))) s) True
      | None \<Rightarrow>
          if \<not> dependencies_passed c (sc_states s) \<or> ck_heavy c \<and> sc_heavy s \<ge> limit
          then pass env limit cs s progress
          else (case env_ctx env (sc_clock s) of
                  Some e \<Rightarrow> pass env limit cs (block c (ContextError e) (tick s)) True
                | None \<Rightarrow>
                    let s1 = start c (tick s) in
                    (case env_write env (sc_clock s1) of
                       Some e \<Rightarrow> (s1, True, Some e)
                     | None \<Rightarrow> pass env limit cs (log_line (EvStart c) s1) True)))"

text \<open>\<open>runOne\<close>: what a check that was started reports.\<close>

definition run_one :: "run_env \<Rightarrow> check \<Rightarrow> result" where
  "run_one env c =
     (case env_exec env c of
        (elapsed, context_error, execution_err) \<Rightarrow>
          (case classify_result c elapsed context_error execution_err of
             (status, err) \<Rightarrow>
               \<lparr>rs_check = c, rs_status = status, rs_elapsed = elapsed,
                rs_log_path = join_path [env_log_dir env, ck_name c @ ''.log''], rs_err = err\<rparr>))"

definition receive :: "result \<Rightarrow> sched \<Rightarrow> sched" where
  "receive outcome s =
     s\<lparr>sc_running := remove1 (rs_check outcome) (sc_running s),
       sc_heavy := (if ck_heavy (rs_check outcome) then sc_heavy s - 1 else sc_heavy s),
       sc_states := (sc_states s)(ck_name (rs_check outcome) \<mapsto> rs_status outcome),
       sc_completed := AList.update (ck_name (rs_check outcome)) outcome (sc_completed s)\<rparr>"

definition zero_result :: result where
  "zero_result = \<lparr>rs_check = \<lparr>ck_name = [], ck_argv = [], ck_heavy = False, ck_deps = [], ck_baseline = 0,
     ck_timeout = 0\<rparr>, rs_status = Pending, rs_elapsed = 0, rs_log_path = [], rs_err = None\<rparr>"

definition ordered_results :: "check list \<Rightarrow> (string \<times> result) list \<Rightarrow> result list" where
  "ordered_results checks completed =
     map (\<lambda>c. case map_of completed (ck_name c) of None \<Rightarrow> zero_result | Some r \<Rightarrow> r) checks"

datatype run_error =
    ChecksInvalid check_fault
  | LimitNotPositive
  | WriteStart string
  | WriteCompletion string
  | NoProgress
  | RunContext string

text \<open>The outer loop, each round one unit of fuel; \<open>None\<close>: the fuel is used up.\<close>

fun run_loop :: "nat \<Rightarrow> run_env \<Rightarrow> int \<Rightarrow> check list \<Rightarrow> sched \<Rightarrow> (sched \<times> run_error option) option" where
  "run_loop 0 env limit checks s = None"
| "run_loop (Suc fuel) env limit checks s =
     (if length (sc_completed s) \<ge> length checks
      then Some (s, map_option RunContext (env_ctx env (sc_clock s)))
      else case pass env limit checks s False of
        (s1, progress, Some e) \<Rightarrow> Some (s1, Some (WriteStart e))
      | (s1, progress, None) \<Rightarrow>
          if sc_running s1 = [] then
            (if \<not> progress \<and> length (sc_completed s1) < length checks then Some (s1, Some NoProgress)
             else run_loop fuel env limit checks s1)
          else
            let c = sc_running s1 ! (env_pick env (sc_clock s1) mod length (sc_running s1));
                outcome = run_one env c;
                s2 = receive outcome s1
            in (case env_write env (sc_clock s2) of
                  Some e \<Rightarrow> Some (s2, Some (WriteCompletion e))
                | None \<Rightarrow> run_loop fuel env limit checks (log_line (EvDone (rs_status outcome) c) s2)))"

definition run :: "run_env \<Rightarrow> int \<Rightarrow> check list \<Rightarrow> nat \<Rightarrow> (event list \<times> result list \<times> run_error option) option" where
  "run env limit checks fuel =
     (case validate_checks checks of
        Some e \<Rightarrow> Some ([], [], Some (ChecksInvalid e))
      | None \<Rightarrow>
          if limit < 1 then Some ([], [], Some LimitNotPositive)
          else map_option (\<lambda>(s, e). (sc_log s, ordered_results checks (sc_completed s), e))
                 (run_loop fuel env limit checks (init_sched checks)))"

section \<open>The summary\<close>

definition pad_right :: "nat \<Rightarrow> string \<Rightarrow> string" where
  "pad_right w s = s @ replicate (w - length (runes s)) (CHR '' '')"

fun status_text :: "cstate \<Rightarrow> string" where
  "status_text Pass = ''PASS''"
| "status_text Warn = ''WARN''"
| "status_text Fail = ''FAIL''"
| "status_text Timeout = ''TIMEOUT''"
| "status_text Blocked = ''BLOCKED''"
| "status_text Pending = []"
| "status_text Running = []"

fun state_text :: "cstate \<Rightarrow> string" where
  "state_text Fail = ''fail''"
| "state_text Timeout = ''timeout''"
| "state_text Blocked = ''blocked''"
| "state_text Pass = ''pass''"
| "state_text Warn = ''warn''"
| "state_text Pending = ''pending''"
| "state_text Running = ''running''"

text \<open>\<open>fmt\<close> is \<open>formatDuration\<close>, the seconds with one decimal.\<close>

fun check_error_text :: "(int \<Rightarrow> string) \<Rightarrow> check_error \<Rightarrow> string" where
  "check_error_text fmt (Prerequisite d st) = ''prerequisite '' @ d @ '' '' @ state_text st"
| "check_error_text fmt (ContextError e) = e"
| "check_error_text fmt (HardTimeout limit e) =
     ''exceeded hard timeout '' @ fmt limit @ (case e of None \<Rightarrow> [] | Some x \<Rightarrow> [CHR 0x0A] @ x)"
| "check_error_text fmt (ExecutionError e) = e"

definition summary_line :: "(int \<Rightarrow> string) \<Rightarrow> result \<Rightarrow> string" where
  "summary_line fmt r =
     ''[land-quality] '' @ pad_right 7 (status_text (rs_status r)) @ '' '' @ pad_right 20 (ck_name (rs_check r))
       @ '' '' @ fmt (rs_elapsed r)
       @ (case rs_status r of
            Warn \<Rightarrow> '' budget='' @ fmt (growth_budget (ck_baseline (rs_check r)))
                    @ '' baseline='' @ fmt (ck_baseline (rs_check r))
          | Fail \<Rightarrow> '' log='' @ rs_log_path r
          | Timeout \<Rightarrow> '' limit='' @ fmt (ck_timeout (rs_check r)) @ '' log='' @ rs_log_path r
          | Blocked \<Rightarrow> '' reason='' @ (case rs_err r of Some e \<Rightarrow> check_error_text fmt e | None \<Rightarrow> [])
          | _ \<Rightarrow> [])"

record tally =
  n_passed :: nat
  n_warned :: nat
  n_failed :: nat
  n_timed_out :: nat
  n_blocked :: nat

fun count_result :: "cstate \<Rightarrow> tally \<Rightarrow> tally" where
  "count_result Pass y = y\<lparr>n_passed := n_passed y + 1\<rparr>"
| "count_result Warn y = y\<lparr>n_warned := n_warned y + 1\<rparr>"
| "count_result Fail y = y\<lparr>n_failed := n_failed y + 1\<rparr>"
| "count_result Timeout y = y\<lparr>n_timed_out := n_timed_out y + 1\<rparr>"
| "count_result Blocked y = y\<lparr>n_blocked := n_blocked y + 1\<rparr>"
| "count_result Pending y = y"
| "count_result Running y = y"

definition not_passed :: "tally \<Rightarrow> nat" where
  "not_passed y = n_failed y + n_timed_out y + n_blocked y"

text \<open>Output so far; \<open>wr n\<close> is the error of the write number \<open>n\<close>.\<close>

definition emit :: "(nat \<Rightarrow> string option) \<Rightarrow> string \<Rightarrow> string list \<Rightarrow> (string, string list) Prelude.result" where
  "emit wr text out = (case wr (length out) of Some e \<Rightarrow> Err e | None \<Rightarrow> Ok (out @ [text]))"

fun summary_rows ::
    "(nat \<Rightarrow> string option) \<Rightarrow> (int \<Rightarrow> string) \<Rightarrow> result list \<Rightarrow> tally \<Rightarrow> string list
     \<Rightarrow> tally \<times> (string, string list) Prelude.result" where
  "summary_rows wr fmt [] y out = (y, Ok out)"
| "summary_rows wr fmt (r # rs) y out =
     (let y' = count_result (rs_status r) y in
      case emit wr (summary_line fmt r @ [CHR 0x0A]) out of
        Inl e \<Rightarrow> (y', Err e)
      | Inr out' \<Rightarrow> summary_rows wr fmt rs y' out')"

fun failure_logs ::
    "(nat \<Rightarrow> string option) \<Rightarrow> (int \<Rightarrow> string) \<Rightarrow> (string \<Rightarrow> (string, string) Prelude.result) \<Rightarrow> result list
     \<Rightarrow> string list \<Rightarrow> (string, string list) Prelude.result" where
  "failure_logs wr fmt read [] out = Ok out"
| "failure_logs wr fmt read (r # rs) out =
     (if rs_status r \<noteq> Fail \<and> rs_status r \<noteq> Timeout then failure_logs wr fmt read rs out
      else case emit wr ([CHR 0x0A] @ ''[land-quality] '' @ status_text (rs_status r) @ '' ''
                         @ ck_name (rs_check r) @ '' ('' @ rs_log_path r @ '')'' @ [CHR 0x0A]) out of
        Inl e \<Rightarrow> Err e
      | Inr out1 \<Rightarrow>
          (case emit wr ((case rs_err r of Some e \<Rightarrow> check_error_text fmt e | None \<Rightarrow> ''<nil>'') @ [CHR 0x0A]) out1 of
             Inl e \<Rightarrow> Err e
           | Inr out2 \<Rightarrow>
               (case read (rs_log_path r) of
                  Inl e \<Rightarrow> Err (''read failure log '' @ rs_log_path r @ '': '' @ e)
                | Inr content \<Rightarrow>
                    (case emit wr content out2 of
                       Inl e \<Rightarrow> Err e
                     | Inr out3 \<Rightarrow>
                         if content \<noteq> [] \<and> last content \<noteq> CHR 0x0A
                         then (case emit wr [CHR 0x0A] out3 of
                                 Inl e \<Rightarrow> Err e
                               | Inr out4 \<Rightarrow> failure_logs wr fmt read rs out4)
                         else failure_logs wr fmt read rs out3))))"

definition overall_baseline :: int where
  "overall_baseline = 154400000000"

definition print_summary ::
    "(nat \<Rightarrow> string option) \<Rightarrow> (int \<Rightarrow> string) \<Rightarrow> (string \<Rightarrow> (string, string) Prelude.result) \<Rightarrow> result list
     \<Rightarrow> int \<Rightarrow> nat \<times> (string, string list) Prelude.result" where
  "print_summary wr fmt read results elapsed =
     (case emit wr ([CHR 0x0A] @ ''[land-quality] SUMMARY'' @ [CHR 0x0A]) [] of
        Inl e \<Rightarrow> (0, Err e)
      | Inr out0 \<Rightarrow>
          (case summary_rows wr fmt results
                  \<lparr>n_passed = 0, n_warned = 0, n_failed = 0, n_timed_out = 0, n_blocked = 0\<rparr> out0 of
             (y, Inl e) \<Rightarrow> (not_passed y, Err e)
           | (y, Inr out1) \<Rightarrow>
               (case emit wr (''[land-quality] ''
                       @ pad_right 7 (if elapsed > growth_budget overall_baseline then ''WARN'' else ''PASS'')
                       @ '' total                '' @ fmt elapsed @ '' budget='' @ fmt (growth_budget overall_baseline)
                       @ '' baseline='' @ fmt overall_baseline @ [CHR 0x0A]) out1 of
                  Inl e \<Rightarrow> (not_passed y, Err e)
                | Inr out2 \<Rightarrow>
                    (case emit wr (''[land-quality] '' @ show_nat (n_passed y) @ '' passed, '' @ show_nat (n_warned y)
                            @ '' warned, '' @ show_nat (n_failed y) @ '' failed, '' @ show_nat (n_timed_out y)
                            @ '' timed out, '' @ show_nat (n_blocked y) @ '' blocked'' @ [CHR 0x0A]) out2 of
                       Inl e \<Rightarrow> (not_passed y, Err e)
                     | Inr out3 \<Rightarrow> (not_passed y, failure_logs wr fmt read results out3)))))"

section \<open>The table\<close>

definition quality_checks :: "check list" where
  "quality_checks = [
     \<lparr>ck_name = ''clojure-test'', ck_argv = [''clojure'', ''-M:test''], ck_heavy = True, ck_deps = [],
      ck_baseline = 129600000000, ck_timeout = 480000000000\<rparr>,
     \<lparr>ck_name = ''go-test'', ck_argv = [''make'', ''test-go''], ck_heavy = True, ck_deps = [],
      ck_baseline = 59300000000, ck_timeout = 300000000000\<rparr>,
     \<lparr>ck_name = ''restart-acceptance'', ck_argv = [''make'', ''test-restart-acceptance''], ck_heavy = True, ck_deps = [''build''],
      ck_baseline = 260000000000, ck_timeout = 420000000000\<rparr>,
     \<lparr>ck_name = ''e2e'', ck_argv = [''make'', ''test-e2e''], ck_heavy = True, ck_deps = [],
      ck_baseline = 92400000000, ck_timeout = 480000000000\<rparr>,
     \<lparr>ck_name = ''format'', ck_argv = [''make'', ''fmt-check''], ck_heavy = False, ck_deps = [],
      ck_baseline = 29600000000, ck_timeout = 180000000000\<rparr>,
     \<lparr>ck_name = ''lint'', ck_argv = [''make'', ''lint''], ck_heavy = True, ck_deps = [],
      ck_baseline = 24900000000, ck_timeout = 240000000000\<rparr>,
     \<lparr>ck_name = ''reflection'', ck_argv = [''make'', ''reflect-check''], ck_heavy = False, ck_deps = [],
      ck_baseline = 19300000000, ck_timeout = 120000000000\<rparr>,
     \<lparr>ck_name = ''ci-config'', ck_argv = [''make'', ''ci-config-check''], ck_heavy = False, ck_deps = [],
      ck_baseline = 100000000, ck_timeout = 30000000000\<rparr>,
     \<lparr>ck_name = ''identity'', ck_argv = [''make'', ''identity-check''], ck_heavy = False, ck_deps = [],
      ck_baseline = 11600000000, ck_timeout = 120000000000\<rparr>,
     \<lparr>ck_name = ''build'', ck_argv = [''make'', ''build''], ck_heavy = False, ck_deps = [],
      ck_baseline = 1000000000, ck_timeout = 120000000000\<rparr>,
     \<lparr>ck_name = ''acceptance-kanban'', ck_argv = [''test/shell/acceptance/millstrand-millhouse-kanban.sh''], ck_heavy = False, ck_deps = [''build''],
      ck_baseline = 46500000000, ck_timeout = 240000000000\<rparr>,
     \<lparr>ck_name = ''acceptance-docs'', ck_argv = [''test/shell/acceptance/millstrand-docs.sh''], ck_heavy = False, ck_deps = [''build''],
      ck_baseline = 27300000000, ck_timeout = 180000000000\<rparr>,
     \<lparr>ck_name = ''acceptance-neovim'', ck_argv = [''test/shell/acceptance/millstrand-neovim.sh''], ck_heavy = False, ck_deps = [''build''],
      ck_baseline = 1300000000, ck_timeout = 30000000000\<rparr>,
     \<lparr>ck_name = ''docs'', ck_argv = [''make'', ''docs-check''], ck_heavy = False, ck_deps = [],
      ck_baseline = 28900000000, ck_timeout = 180000000000\<rparr>]"

text \<open>
  The whole gate: the exit code of \<open>main\<close> when no signal arrived, from the heavy limit's
  environment variable on.
\<close>

definition gate ::
    "run_env \<Rightarrow> (nat \<Rightarrow> string option) \<Rightarrow> (int \<Rightarrow> string) \<Rightarrow> (string \<Rightarrow> (string, string) Prelude.result)
     \<Rightarrow> string option \<Rightarrow> string \<Rightarrow> int \<Rightarrow> check list \<Rightarrow> nat \<Rightarrow> nat option" where
  "gate env wr fmt read remove_err limit_text elapsed checks fuel =
     (case heavy_limit_from_env limit_text of
        Inl e \<Rightarrow> Some 2
      | Inr limit \<Rightarrow>
          map_option (\<lambda>(log, results, run_err).
            case print_summary wr fmt read results elapsed of
              (failed, summary) \<Rightarrow>
                if failed = 0 \<and> run_err = None \<and> is_ok summary
                then (if remove_err \<noteq> None then 1 else 0) else 1)
            (run env limit checks fuel))"

section \<open>Facts on validation\<close>

definition depends :: "check list \<Rightarrow> (string \<times> string) set" where
  "depends checks = {(a, b). b \<in> set (deps_of checks a)}"

text \<open>Every name of the list has its dependencies further back in the list.\<close>

fun topological :: "check list \<Rightarrow> string list \<Rightarrow> bool" where
  "topological checks [] = True"
| "topological checks (n # ns) \<longleftrightarrow> set (deps_of checks n) \<subseteq> set ns \<and> n \<notin> set ns \<and> topological checks ns"

lemma visit_all_sound:
  "visit_all checks visiting visited names = Ok visited' \<Longrightarrow> topological checks visited \<Longrightarrow>
   set visiting \<inter> set visited = {} \<Longrightarrow>
   topological checks visited' \<and> set names \<subseteq> set visited' \<and> set visited \<subseteq> set visited'
   \<and> set visiting \<inter> set visited' = {}"
proof (induction checks visiting visited names arbitrary: visited' rule: visit_all.induct)
  case (2 checks visiting visited name names)
  show ?case
  proof (cases "name \<in> set visited")
    case True
    with 2 show ?thesis by (auto split: if_splits)
  next
    case False
    with 2(4) obtain mid where mid: "visit_all checks (name # visiting) visited (deps_of checks name) = Ok mid"
      and rest: "visit_all checks visiting (name # mid) names = Ok visited'" and new: "name \<notin> set visiting"
      by (auto split: if_splits sum.splits)
    have m: "topological checks mid" "set (deps_of checks name) \<subseteq> set mid" "set visited \<subseteq> set mid"
      "set (name # visiting) \<inter> set mid = {}"
      using 2(2) [OF new False mid 2(5)] False 2(6) by auto
    then have "topological checks (name # mid)" "set visiting \<inter> set (name # mid) = {}"
      using new by auto
    from 2(3) [OF new False mid rest this] m show ?thesis by auto
  qed
qed simp

lemma visit_all_cycle:
  "visit_all checks visiting visited names = Err e \<Longrightarrow>
   \<forall>x \<in> set visiting. \<forall>n \<in> set names. (x, n) \<in> (depends checks)\<^sup>+ \<Longrightarrow>
   \<exists>n. e = DependencyCycle n \<and> (n, n) \<in> (depends checks)\<^sup>+"
proof (induction checks visiting visited names rule: visit_all.induct)
  case (2 checks visiting visited name names)
  show ?case
  proof (cases "name \<in> set visiting")
    case True
    with 2(4,5) show ?thesis by auto
  next
    case new: False
    show ?thesis
    proof (cases "name \<in> set visited")
      case True
      with 2(1) [OF new True] 2(4,5) new show ?thesis by simp
    next
      case False
      have step: "(name, d) \<in> (depends checks)\<^sup>+" if "d \<in> set (deps_of checks name)" for d
        using that by (simp add: depends_def r_into_trancl)
      have paths: "\<forall>x \<in> set (name # visiting). \<forall>n \<in> set (deps_of checks name). (x, n) \<in> (depends checks)\<^sup>+"
        using step 2(5) by (auto intro: trancl_trans)
      show ?thesis
      proof (cases "visit_all checks (name # visiting) visited (deps_of checks name)")
        case (Inl e')
        moreover have "e' = e" using 2(4) new False Inl by simp
        ultimately show ?thesis using 2(2) [OF new False _ paths] by simp
      next
        case (Inr mid)
        with 2(3) [OF new False Inr] 2(4,5) new False show ?thesis by simp
      qed
    qed
  qed
qed simp

lemma topological_back:
  "topological checks (pre @ y # q) \<Longrightarrow> set (deps_of checks y) \<subseteq> set q \<and> y \<notin> set q"
  by (induction pre) auto

lemma topological_trancl:
  assumes "topological checks order"
  shows "(a, b) \<in> (depends checks)\<^sup>+ \<Longrightarrow> order = pre @ a # post \<Longrightarrow> b \<in> set post"
proof (induction rule: trancl_induct)
  case (base y)
  with topological_back [of checks pre a post] assms show ?case by (auto simp: depends_def)
next
  case (step y z)
  then obtain p q where post: "post = p @ y # q" by (meson split_list)
  with topological_back [of checks "pre @ a # p" y q] assms step.prems have "set (deps_of checks y) \<subseteq> set q"
    by simp
  with step.hyps(2) post show ?case by (auto simp: depends_def)
qed

lemma topological_acyclic:
  assumes "topological checks order" and "ck_name ` set checks \<subseteq> set order"
  shows "acyclic (depends checks)"
  unfolding acyclic_def
proof (rule allI, rule notI)
  fix n
  assume c: "(n, n) \<in> (depends checks)\<^sup>+"
  then obtain d where "(n, d) \<in> depends checks" by (meson tranclD)
  then have "n \<in> ck_name ` set checks"
    using deps_of_unknown by (fastforce simp: depends_def)
  then obtain pre post where o: "order = pre @ n # post"
    using assms(2) by (meson split_list subsetD)
  with topological_trancl [OF assms(1) c] topological_back [of checks pre n post] assms(1)
  show False by simp
qed

lemma validate_fields_None:
  "validate_fields known checks = None \<longleftrightarrow>
     distinct (map ck_name checks) \<and> ck_name ` set checks \<inter> set known = {}
     \<and> (\<forall>c \<in> set checks. ck_name c \<noteq> [] \<and> ck_argv c \<noteq> [] \<and> 0 < ck_baseline c
          \<and> growth_budget (ck_baseline c) < ck_timeout c)"
  by (induction known checks rule: validate_fields.induct) auto

lemma validate_deps_None:
  "validate_deps checks = None \<longleftrightarrow> (\<forall>c \<in> set checks. set (ck_deps c) \<subseteq> ck_name ` set checks)"
  by (auto simp: validate_deps_def split: if_splits)

lemma deps_of_check:
  assumes "distinct (map ck_name checks)" and "c \<in> set checks"
  shows "deps_of checks (ck_name c) = ck_deps c"
proof -
  have "distinct (map fst (map (\<lambda>c. (ck_name c, ck_deps c)) (rev checks)))"
    using assms(1) by (simp add: o_def rev_map [symmetric])
  moreover have "(ck_name c, ck_deps c) \<in> set (map (\<lambda>c. (ck_name c, ck_deps c)) (rev checks))"
    using assms(2) by auto
  ultimately show ?thesis by (simp add: deps_of_def del: set_map)
qed

definition well_formed :: "check list \<Rightarrow> bool" where
  "well_formed checks \<longleftrightarrow>
     distinct (map ck_name checks) \<and> (\<forall>c \<in> set checks. set (ck_deps c) \<subseteq> ck_name ` set checks)
     \<and> acyclic (depends checks)"

lemma visit_all_exact:
  "(\<exists>v. visit_all checks [] [] (map ck_name checks) = Ok v) \<longleftrightarrow> acyclic (depends checks)"
proof
  assume "\<exists>v. visit_all checks [] [] (map ck_name checks) = Ok v"
  then show "acyclic (depends checks)"
    using visit_all_sound [of checks "[]" "[]" "map ck_name checks"] topological_acyclic by fastforce
next
  assume a: "acyclic (depends checks)"
  show "\<exists>v. visit_all checks [] [] (map ck_name checks) = Ok v"
  proof (cases "visit_all checks [] [] (map ck_name checks)")
    case (Inl e)
    with visit_all_cycle [OF Inl] a show ?thesis by (auto simp: acyclic_def)
  qed simp
qed

lemma validate_checks_None:
  "validate_checks checks = None \<longleftrightarrow>
     well_formed checks
     \<and> (\<forall>c \<in> set checks. ck_name c \<noteq> [] \<and> ck_argv c \<noteq> [] \<and> 0 < ck_baseline c
          \<and> growth_budget (ck_baseline c) < ck_timeout c)"
  using validate_fields_None [of "[]" checks] validate_deps_None [of checks] visit_all_exact [of checks]
  by (cases "visit_all checks [] [] (map ck_name checks)")
     (auto simp: validate_checks_def well_formed_def split: option.splits)

section \<open>The invariant of the scheduler\<close>

abbreviation failing :: "cstate set" where
  "failing \<equiv> {Fail, Timeout, Blocked}"

definition result_ok :: "(string \<Rightarrow> cstate option) \<Rightarrow> result \<Rightarrow> bool" where
  "result_ok states r \<longleftrightarrow>
     (if rs_status r = Blocked then
        (case rs_err r of
           Some (ContextError e) \<Rightarrow> True
         | Some (Prerequisite d st) \<Rightarrow> d \<in> set (ck_deps (rs_check r)) \<and> st \<in> failing \<and> states d = Some st
         | _ \<Rightarrow> False)
      else dependencies_passed (rs_check r) states)"

definition sched_inv :: "check list \<Rightarrow> int \<Rightarrow> sched \<Rightarrow> bool" where
  "sched_inv checks limit s \<longleftrightarrow>
     distinct (sc_running s) \<and> set (sc_running s) \<subseteq> set checks
     \<and> distinct (map fst (sc_completed s))
     \<and> (\<forall>(n, r) \<in> set (sc_completed s). rs_check r \<in> set checks \<and> ck_name (rs_check r) = n
          \<and> rs_status r \<notin> {Pending, Running} \<and> sc_states s n = Some (rs_status r)
          \<and> result_ok (sc_states s) r)
     \<and> (\<forall>c \<in> set (sc_running s). sc_states s (ck_name c) = Some Running \<and> dependencies_passed c (sc_states s))
     \<and> (\<forall>c \<in> set checks. c \<notin> set (sc_running s) \<longrightarrow> ck_name c \<notin> fst ` set (sc_completed s)
          \<longrightarrow> sc_states s (ck_name c) = Some Pending)
     \<and> sc_heavy s = int (length (filter ck_heavy (sc_running s))) \<and> sc_heavy s \<le> limit"

lemma tick_simps [simp]:
  "sc_states (tick s) = sc_states s" "sc_heavy (tick s) = sc_heavy s" "sc_running (tick s) = sc_running s"
  "sc_completed (tick s) = sc_completed s" "sc_log (tick s) = sc_log s"
  by (simp_all add: tick_def)

lemma sched_inv_tick [simp]:
  "sched_inv checks limit (tick s) = sched_inv checks limit s"
  "sched_inv checks limit (log_line ev s) = sched_inv checks limit s"
  by (simp_all add: sched_inv_def tick_def log_line_def)

text \<open>A change of an entry that is not settled keeps what was recorded about the settled ones.\<close>

lemma passed_stable:
  "dependencies_passed c states \<Longrightarrow> states n \<in> {Some Pending, Some Running} \<Longrightarrow>
   dependencies_passed c (states(n \<mapsto> st))"
  by (auto simp: dependencies_passed_def list_all_iff)

lemma result_ok_stable:
  "result_ok states r \<Longrightarrow> states n \<in> {Some Pending, Some Running} \<Longrightarrow> result_ok (states(n \<mapsto> st)) r"
  by (auto simp: result_ok_def passed_stable split: if_splits option.splits check_error.splits)

lemma sched_inv_init: "0 \<le> limit \<Longrightarrow> sched_inv checks limit (init_sched checks)"
proof -
  assume "0 \<le> limit"
  moreover have "map_of (map (\<lambda>c. (ck_name c, Pending)) checks) (ck_name c) = Some Pending" if "c \<in> set checks" for c
    using that by (induction checks) auto
  ultimately show ?thesis by (simp add: sched_inv_def init_sched_def)
qed

lemma same_name:
  "distinct (map ck_name checks) \<Longrightarrow> c \<in> set checks \<Longrightarrow> c' \<in> set checks \<Longrightarrow> ck_name c = ck_name c' \<longleftrightarrow> c = c'"
  by (metis distinct_map inj_on_eq_iff)

lemma find_Some_prop: "find P xs = Some x \<Longrightarrow> x \<in> set xs \<and> P x"
  by (induction xs) (auto split: if_splits)

lemma pending_fresh:
  "sched_inv checks limit s \<Longrightarrow> sc_states s (ck_name c) = Some Pending \<Longrightarrow>
   c \<notin> set (sc_running s) \<and> ck_name c \<notin> fst ` set (sc_completed s)"
  by (fastforce simp: sched_inv_def)

lemma sched_inv_block:
  assumes inv: "sched_inv checks limit s" and d: "distinct (map ck_name checks)" and c: "c \<in> set checks"
    and p: "sc_states s (ck_name c) = Some Pending"
    and e: "(\<exists>x. e = ContextError x) \<or>
            (\<exists>dep st. e = Prerequisite dep st \<and> dep \<in> set (ck_deps c) \<and> st \<in> failing \<and> sc_states s dep = Some st)"
  shows "sched_inv checks limit (block c e s)"
proof -
  let ?st = "(sc_states s)(ck_name c \<mapsto> Blocked)"
  let ?r = "\<lparr>rs_check = c, rs_status = Blocked, rs_elapsed = 0, rs_log_path = [], rs_err = Some e\<rparr>"
  have fresh: "c \<notin> set (sc_running s)" "ck_name c \<notin> fst ` set (sc_completed s)"
    using pending_fresh [OF inv p] by auto
  have upd: "AList.update (ck_name c) ?r (sc_completed s) = sc_completed s @ [(ck_name c, ?r)]"
    using fresh(2) by (rule update_fresh)
  have ok: "result_ok ?st ?r"
    using e p by (auto simp: result_ok_def)
  have old: "result_ok ?st r" if "(n, r) \<in> set (sc_completed s)" for n r
    using inv that p by (intro result_ok_stable) (auto simp: sched_inv_def)
  have run: "dependencies_passed x ?st \<and> ck_name x \<noteq> ck_name c" if "x \<in> set (sc_running s)" for x
    using inv that p by (auto simp: sched_inv_def intro!: passed_stable)
  have keep: "n \<noteq> ck_name c" if "(n, r) \<in> set (sc_completed s)" for n r
    using fresh(2) that by force
  show ?thesis
    using inv c fresh ok old run keep
    unfolding sched_inv_def block_def
    by (auto simp: upd same_name [OF d] dest: old)
qed

lemma sched_inv_start:
  assumes inv: "sched_inv checks limit s" and d: "distinct (map ck_name checks)" and c: "c \<in> set checks"
    and p: "sc_states s (ck_name c) = Some Pending" and dp: "dependencies_passed c (sc_states s)"
    and h: "ck_heavy c \<Longrightarrow> sc_heavy s < limit"
  shows "sched_inv checks limit (start c s)"
proof -
  let ?st = "(sc_states s)(ck_name c \<mapsto> Running)"
  have fresh: "c \<notin> set (sc_running s)" "ck_name c \<notin> fst ` set (sc_completed s)"
    using pending_fresh [OF inv p] by auto
  have new: "dependencies_passed c ?st"
    using dp p by (intro passed_stable) auto
  have old: "result_ok ?st r" if "(n, r) \<in> set (sc_completed s)" for n r
    using inv that p by (intro result_ok_stable) (auto simp: sched_inv_def)
  have run: "dependencies_passed x ?st \<and> ck_name x \<noteq> ck_name c" if "x \<in> set (sc_running s)" for x
    using inv that p by (auto simp: sched_inv_def intro!: passed_stable)
  have keep: "n \<noteq> ck_name c" if "(n, r) \<in> set (sc_completed s)" for n r
    using fresh(2) that by force
  show ?thesis
    using inv c fresh new old run keep h
    unfolding sched_inv_def start_def
    by (auto simp: same_name [OF d] dest: old)
qed

lemma run_one_simps [simp]:
  "rs_check (run_one env c) = c" "rs_status (run_one env c) \<in> {Pass, Warn, Fail, Timeout}"
  by (auto simp: run_one_def classify_result_def split: prod.splits)

lemma run_one_settled: "rs_status (run_one env c) \<notin> {Pending, Running, Blocked}"
  using run_one_simps(2) [of env c] by auto

lemma sched_inv_receive:
  assumes inv: "sched_inv checks limit s" and d: "distinct (map ck_name checks)" and c: "c \<in> set (sc_running s)"
  shows "sched_inv checks limit (receive (run_one env c) s)"
proof -
  let ?st = "(sc_states s)(ck_name c \<mapsto> rs_status (run_one env c))"
  have p: "sc_states s (ck_name c) = Some Running" and cc: "c \<in> set checks" and dc: "dependencies_passed c (sc_states s)"
    using inv c by (auto simp: sched_inv_def)
  have fresh: "ck_name c \<notin> fst ` set (sc_completed s)"
    using inv p by (fastforce simp: sched_inv_def)
  have upd: "AList.update (ck_name c) (run_one env c) (sc_completed s) = sc_completed s @ [(ck_name c, run_one env c)]"
    using fresh by (rule update_fresh)
  have new: "result_ok ?st (run_one env c)"
    using run_one_settled [of env c] dc p by (auto simp: result_ok_def intro!: passed_stable)
  have old: "result_ok ?st r" if "(n, r) \<in> set (sc_completed s)" for n r
    using inv that p by (intro result_ok_stable) (auto simp: sched_inv_def)
  have dr: "distinct (sc_running s)" and sub: "set (sc_running s) \<subseteq> set checks"
    using inv by (simp_all add: sched_inv_def)
  have run: "dependencies_passed x ?st \<and> ck_name x \<noteq> ck_name c \<and> sc_states s (ck_name x) = Some Running"
    if "x \<in> set (sc_running s)" "x \<noteq> c" for x
    using inv that p same_name [OF d] cc sub by (auto simp: sched_inv_def intro!: passed_stable)
  have keep: "n \<noteq> ck_name c" if "(n, r) \<in> set (sc_completed s)" for n r
    using fresh that by force
  have heavy: "int (length (filter ck_heavy (remove1 c (sc_running s)))) =
      (if ck_heavy c then sc_heavy s - 1 else sc_heavy s)"
  proof (cases "ck_heavy c")
    case True
    then have "0 < length (filter ck_heavy (sc_running s))"
      using c by (intro length_pos_if_in_set [of c]) simp
    with True inv c show ?thesis
      by (auto simp: sched_inv_def filter_remove1 length_remove1 of_nat_diff Suc_leI)
  next
    case False
    with inv show ?thesis by (simp add: sched_inv_def filter_remove1 remove1_idem)
  qed
  show ?thesis
    using inv cc dr sub fresh new old run keep heavy run_one_settled [of env c]
    unfolding sched_inv_def receive_def run_one_simps
    by (auto simp: upd same_name [OF d] distinct_remove1 dest: old)
qed

section \<open>The log\<close>

definition heavy_open :: "event list \<Rightarrow> int" where
  "heavy_open log = sum_list (map (\<lambda>ev. case ev of EvStart c \<Rightarrow> if ck_heavy c then 1 else 0
                                          | EvDone st c \<Rightarrow> if ck_heavy c then - 1 else 0) log)"

text \<open>
  What a log must show: at no point more heavy checks in progress than the limit, no check started
  before all its dependencies were reported passed or warned, and none started twice.
\<close>

definition start_ok :: "event list \<Rightarrow> check \<Rightarrow> bool" where
  "start_ok before c \<longleftrightarrow>
     (\<forall>d \<in> set (ck_deps c). \<exists>dc st. EvDone st dc \<in> set before \<and> ck_name dc = d \<and> st \<in> {Pass, Warn})
     \<and> EvStart c \<notin> set before"

definition log_safe :: "int \<Rightarrow> event list \<Rightarrow> bool" where
  "log_safe limit log \<longleftrightarrow>
     (\<forall>n \<le> length log. heavy_open (take n log) \<le> limit)
     \<and> (\<forall>n < length log. \<forall>c. log ! n = EvStart c \<longrightarrow> start_ok (take n log) c)"

lemma log_safe_Nil: "0 \<le> limit \<Longrightarrow> log_safe limit []"
  by (simp add: log_safe_def heavy_open_def)

lemma heavy_open_snoc:
  "heavy_open (log @ [EvStart c]) = heavy_open log + (if ck_heavy c then 1 else 0)"
  "heavy_open (log @ [EvDone st c]) = heavy_open log - (if ck_heavy c then 1 else 0)"
  by (simp_all add: heavy_open_def)

lemma log_safe_snoc:
  "log_safe limit (log @ [ev]) \<longleftrightarrow>
     log_safe limit log \<and> heavy_open (log @ [ev]) \<le> limit \<and> (\<forall>c. ev = EvStart c \<longrightarrow> start_ok log c)"
proof -
  have le: "(\<forall>n \<le> length (log @ [ev]). Q n) \<longleftrightarrow> (\<forall>n \<le> length log. Q n) \<and> Q (Suc (length log))" for Q
    by (auto simp: le_Suc_eq)
  have lt: "(\<forall>n < length (log @ [ev]). Q n) \<longleftrightarrow> (\<forall>n < length log. Q n) \<and> Q (length log)" for Q
    by (auto simp: less_Suc_eq)
  have tk: "take n (log @ [ev]) = take n log" if "n \<le> length log" for n
    using that by simp
  have nt: "(log @ [ev]) ! n = log ! n" if "n < length log" for n
    using that by (simp add: nth_append)
  show ?thesis
    unfolding log_safe_def le lt by (auto simp: tk nt)
qed

definition log_inv :: "check list \<Rightarrow> int \<Rightarrow> sched \<Rightarrow> bool" where
  "log_inv checks limit s \<longleftrightarrow>
     log_safe limit (sc_log s) \<and> heavy_open (sc_log s) = sc_heavy s
     \<and> (\<forall>c \<in> set checks. sc_states s (ck_name c) = Some Pending \<longrightarrow> EvStart c \<notin> set (sc_log s))
     \<and> (\<forall>c \<in> set checks. \<forall>st \<in> {Pass, Warn}. sc_states s (ck_name c) = Some st \<longrightarrow> EvDone st c \<in> set (sc_log s))"

lemma log_inv_tick [simp]: "log_inv checks limit (tick s) = log_inv checks limit s"
  by (simp add: log_inv_def tick_def)

lemma log_inv_init: "0 \<le> limit \<Longrightarrow> log_inv checks limit (init_sched checks)"
  by (auto simp: log_inv_def init_sched_def log_safe_Nil heavy_open_def dest!: map_of_SomeD)

lemma log_inv_block:
  assumes "log_inv checks limit s" and "distinct (map ck_name checks)" and "c \<in> set checks"
  shows "log_inv checks limit (block c e s)"
  using assms by (auto simp: log_inv_def block_def)

lemma log_inv_start:
  assumes li: "log_inv checks limit s" and si: "sched_inv checks limit s"
    and d: "distinct (map ck_name checks)" and c: "c \<in> set checks"
    and deps: "set (ck_deps c) \<subseteq> ck_name ` set checks"
    and p: "sc_states s (ck_name c) = Some Pending" and dp: "dependencies_passed c (sc_states s)"
    and h: "ck_heavy c \<Longrightarrow> sc_heavy s < limit"
  shows "log_inv checks limit (log_line (EvStart c) (start c s))"
proof -
  have st: "start_ok (sc_log s) c"
    unfolding start_ok_def
  proof (intro conjI ballI)
    fix dep assume "dep \<in> set (ck_deps c)"
    moreover from this obtain dc where dc: "dc \<in> set checks" "ck_name dc = dep" using deps by auto
    ultimately obtain st where "st \<in> {Pass, Warn}" "sc_states s (ck_name dc) = Some st"
      using dp by (auto simp: dependencies_passed_def list_all_iff)
    with dc li show "\<exists>dc st. EvDone st dc \<in> set (sc_log s) \<and> ck_name dc = dep \<and> st \<in> {Pass, Warn}"
      unfolding log_inv_def by blast
  qed (use li c p in \<open>auto simp: log_inv_def\<close>)
  have ho: "heavy_open (sc_log s) \<le> limit" "heavy_open (sc_log s) = sc_heavy s"
    using li si by (auto simp: log_inv_def sched_inv_def)
  have safe: "log_safe limit (sc_log s @ [EvStart c])"
    using li st ho h by (auto simp: log_safe_snoc heavy_open_snoc log_inv_def)
  show ?thesis
    using li safe ho same_name [OF d] c
    unfolding log_inv_def log_line_def start_def
    by (auto simp: heavy_open_snoc split: if_splits)
qed

lemma log_inv_receive:
  assumes li: "log_inv checks limit s" and si: "sched_inv checks limit s"
    and d: "distinct (map ck_name checks)" and c: "c \<in> set (sc_running s)"
  shows "log_inv checks limit (log_line (EvDone (rs_status (run_one env c)) c) (receive (run_one env c) s))"
proof -
  have cc: "c \<in> set checks" using si c by (auto simp: sched_inv_def)
  have ho: "heavy_open (sc_log s) \<le> limit" "heavy_open (sc_log s) = sc_heavy s"
    using li si by (auto simp: log_inv_def sched_inv_def)
  have safe: "log_safe limit (sc_log s @ [EvDone st c])" for st
    using li ho by (auto simp: log_safe_snoc heavy_open_snoc log_inv_def)
  show ?thesis
    using li safe ho same_name [OF d] cc run_one_settled [of env c]
    unfolding log_inv_def log_line_def receive_def
    by (auto simp: heavy_open_snoc split: if_splits)
qed

section \<open>Passes and rounds\<close>

definition both_inv :: "check list \<Rightarrow> int \<Rightarrow> sched \<Rightarrow> bool" where
  "both_inv checks limit s \<longleftrightarrow> sched_inv checks limit s \<and> log_inv checks limit s"

definition idle :: "int \<Rightarrow> sched \<Rightarrow> check \<Rightarrow> bool" where
  "idle limit s c \<longleftrightarrow>
     sc_states s (ck_name c) \<noteq> Some Pending
     \<or> failed_dependency c (sc_states s) = None
       \<and> (\<not> dependencies_passed c (sc_states s) \<or> ck_heavy c \<and> limit \<le> sc_heavy s)"

definition grown :: "sched \<Rightarrow> sched \<Rightarrow> bool \<Rightarrow> bool" where
  "grown s s' strict \<longleftrightarrow>
     length (sc_running s) \<le> length (sc_running s') \<and> length (sc_completed s) \<le> length (sc_completed s')
     \<and> (strict \<longrightarrow> length (sc_running s) + length (sc_completed s)
                     < length (sc_running s') + length (sc_completed s'))"

lemma grown_refl [simp]: "grown s s False"
  by (simp add: grown_def)

lemma grown_trans: "grown s s1 x \<Longrightarrow> grown s1 s2 y \<Longrightarrow> grown s s2 (x \<or> y)"
  by (auto simp: grown_def)

lemma grown_weaken: "grown s s' x \<Longrightarrow> (y \<Longrightarrow> x) \<Longrightarrow> grown s s' y"
  by (auto simp: grown_def)

lemma grown_block:
  "sched_inv checks limit s \<Longrightarrow> sc_states s (ck_name c) = Some Pending \<Longrightarrow> grown s (block c e (tick s)) True"
  "sched_inv checks limit s \<Longrightarrow> sc_states s (ck_name c) = Some Pending \<Longrightarrow> grown s (block c e s) True"
  using pending_fresh [of checks limit s c] by (simp_all add: grown_def block_def tick_def update_fresh)

lemma grown_start: "grown s (log_line ev (start c (tick s))) True"
  by (simp add: grown_def start_def tick_def log_line_def)

lemma both_inv_block:
  assumes "both_inv checks limit s" and "well_formed checks" and "c \<in> set checks"
    and "sc_states s (ck_name c) = Some Pending"
  shows "both_inv checks limit (block c (ContextError x) (tick s))"
    and "failed_dependency c (sc_states s) = Some dep \<Longrightarrow>
         both_inv checks limit (block c (Prerequisite dep (the (sc_states s dep))) s)"
proof -
  have d: "distinct (map ck_name checks)" using assms(2) by (simp add: well_formed_def)
  have t: "sched_inv checks limit (tick s)" "log_inv checks limit (tick s)"
    "sc_states (tick s) (ck_name c) = Some Pending"
    using assms(1,4) by (simp_all add: both_inv_def)
  show "both_inv checks limit (block c (ContextError x) (tick s))"
    unfolding both_inv_def
    using sched_inv_block [OF t(1) d assms(3) t(3)] log_inv_block [OF t(2) d assms(3)] by blast
  assume "failed_dependency c (sc_states s) = Some dep"
  then have f: "dep \<in> set (ck_deps c)" "\<exists>st \<in> failing. sc_states s dep = Some st"
    unfolding failed_dependency_def using find_Some_prop [of _ "ck_deps c" dep] by fastforce+
  then show "both_inv checks limit (block c (Prerequisite dep (the (sc_states s dep))) s)"
    unfolding both_inv_def
    using assms(1) sched_inv_block [OF _ d assms(3,4)] log_inv_block [OF _ d assms(3)]
    by (auto simp: both_inv_def)
qed

lemma both_inv_start:
  assumes inv: "both_inv checks limit s" and wf: "well_formed checks" and c: "c \<in> set checks"
    and "sc_states s (ck_name c) = Some Pending" and "dependencies_passed c (sc_states s)"
    and "ck_heavy c \<Longrightarrow> sc_heavy s < limit"
  shows "both_inv checks limit (log_line (EvStart c) (start c (tick s)))"
    and "sched_inv checks limit (start c (tick s))"
proof -
  have d: "distinct (map ck_name checks)" and deps: "set (ck_deps c) \<subseteq> ck_name ` set checks"
    using wf c by (auto simp: well_formed_def)
  have t: "sched_inv checks limit (tick s)" "log_inv checks limit (tick s)"
    "sc_states (tick s) (ck_name c) = Some Pending" "dependencies_passed c (sc_states (tick s))"
    "ck_heavy c \<Longrightarrow> sc_heavy (tick s) < limit"
    using assms by (simp_all add: both_inv_def)
  show "sched_inv checks limit (start c (tick s))"
    using sched_inv_start [OF t(1) d c t(3,4,5)] by blast
  then show "both_inv checks limit (log_line (EvStart c) (start c (tick s)))"
    using log_inv_start [OF t(2,1) d c deps t(3,4,5)] by (simp add: both_inv_def)
qed

lemma pass_spec:
  "pass env limit cs s progress = (s', progress', werr) \<Longrightarrow> both_inv checks limit s \<Longrightarrow> well_formed checks \<Longrightarrow>
   set cs \<subseteq> set checks \<Longrightarrow>
   sched_inv checks limit s' \<and> log_safe limit (sc_log s')
   \<and> (werr = None \<longrightarrow> both_inv checks limit s' \<and> grown s s' (progress' \<and> \<not> progress)
        \<and> (\<not> progress' \<longrightarrow> s' = s \<and> list_all (idle limit s) cs))
   \<and> (progress \<longrightarrow> progress')"
proof (induction cs arbitrary: s progress)
  case Nil
  then show ?case by (auto simp: both_inv_def log_inv_def)
next
  case (Cons c cs)
  have sub: "set cs \<subseteq> set checks" and c: "c \<in> set checks" using Cons.prems(4) by auto
  note inv = Cons.prems(2) and wf = Cons.prems(3) and eq = Cons.prems(1)
  have si: "sched_inv checks limit s" using inv by (simp add: both_inv_def)
  have through: ?case if "idle limit s c" "pass env limit cs s progress = (s', progress', werr)"
    using Cons.IH [OF that(2) inv wf sub] that(1) by auto
  have moved: ?case if "pass env limit cs s1 True = (s', progress', werr)" "both_inv checks limit s1" "grown s s1 True" for s1
    using Cons.IH [OF that(1,2) wf sub] grown_trans [OF that(3), of s' "progress' \<and> \<not> True"]
    by (auto intro: grown_weaken)
  show ?case
  proof (cases "sc_states s (ck_name c) = Some Pending")
    case False
    with eq show ?thesis by (intro through) (auto simp: idle_def)
  next
    case p: True
    show ?thesis
    proof (cases "failed_dependency c (sc_states s)")
      case (Some dep)
      with eq p show ?thesis
        by (intro moved [OF _ both_inv_block(2) [OF inv wf c p] grown_block(2) [OF si p]]) auto
    next
      case ok: None
      show ?thesis
      proof (cases "\<not> dependencies_passed c (sc_states s) \<or> ck_heavy c \<and> limit \<le> sc_heavy s")
        case True
        with eq p ok show ?thesis by (intro through) (auto simp: idle_def)
      next
        case go: False
        then have dp: "dependencies_passed c (sc_states s)" and h: "ck_heavy c \<Longrightarrow> sc_heavy s < limit" by auto
        show ?thesis
        proof (cases "env_ctx env (sc_clock s)")
          case (Some e)
          with eq p ok go show ?thesis
            by (intro moved [OF _ both_inv_block(1) [OF inv wf c p] grown_block(1) [OF si p]]) auto
        next
          case None
          show ?thesis
          proof (cases "env_write env (sc_clock (start c (tick s)))")
            case (Some e)
            with eq p ok go None have out: "s' = start c (tick s)" "progress'" "werr = Some e"
              by (auto simp: Let_def)
            have "sc_log s' = sc_log s" by (simp add: out start_def tick_def)
            with out both_inv_start(2) [OF inv wf c p dp h] inv show ?thesis
              by (auto simp: both_inv_def log_inv_def)
          next
            case w: None
            with eq p ok go None show ?thesis
              by (intro moved [OF _ both_inv_start(1) [OF inv wf c p dp h] grown_start]) (auto simp: Let_def)
          qed
        qed
      qed
    qed
  qed
qed

lemma finite_depends: "finite (depends checks)"
proof (rule finite_subset)
  show "depends checks \<subseteq> Sigma (ck_name ` set checks) (\<lambda>n. set (deps_of checks n))"
    using deps_of_unknown by (fastforce simp: depends_def)
qed simp

lemma wf_depends: "well_formed checks \<Longrightarrow> wf ((depends checks)\<inverse>)"
  using finite_acyclic_wf_converse [OF finite_depends] by (simp add: well_formed_def)

text \<open>A check of a set of checks none of whose dependencies is in the set.\<close>

lemma first_of:
  assumes wf: "well_formed checks" and c: "c \<in> set checks" "P c"
  obtains m where "m \<in> set checks" and "P m" and "\<And>d dc. d \<in> set (ck_deps m) \<Longrightarrow> dc \<in> set checks \<Longrightarrow> ck_name dc = d \<Longrightarrow> \<not> P dc"
proof -
  let ?Q = "ck_name ` {c \<in> set checks. P c}"
  have "ck_name c \<in> ?Q" using c by auto
  from wfE_min [OF wf_depends [OF wf] this] obtain n where n: "n \<in> ?Q"
    and least: "\<And>y. (y, n) \<in> (depends checks)\<inverse> \<Longrightarrow> y \<notin> ?Q"
    by blast
  then obtain m where m: "m \<in> set checks" "P m" "ck_name m = n" by auto
  have "deps_of checks n = ck_deps m"
    using deps_of_check [of checks m] wf m by (simp add: well_formed_def)
  with m least that show thesis by (fastforce simp: depends_def)
qed

lemma completed_names:
  "sched_inv checks limit s \<Longrightarrow> fst ` set (sc_completed s) \<subseteq> ck_name ` set checks"
  by (fastforce simp: sched_inv_def)

lemma completed_card:
  "sched_inv checks limit s \<Longrightarrow> card (fst ` set (sc_completed s)) = length (sc_completed s)"
  by (metis sched_inv_def distinct_card length_map set_map)

lemma names_card: "distinct (map ck_name checks) \<Longrightarrow> card (ck_name ` set checks) = length checks"
  by (metis distinct_card length_map set_map)

lemma all_completed:
  assumes "sched_inv checks limit s" and "distinct (map ck_name checks)" and "length checks \<le> length (sc_completed s)"
  shows "fst ` set (sc_completed s) = ck_name ` set checks"
  using completed_names [OF assms(1)] completed_card [OF assms(1)] names_card [OF assms(2)] assms(3)
    card_mono [OF _ completed_names [OF assms(1)]]
  by (intro card_subset_eq) simp_all

lemma passed_or_failed:
  assumes "\<forall>dep \<in> set (ck_deps m). states dep \<in> {Some Pass, Some Warn, Some Fail, Some Timeout, Some Blocked}"
  shows "dependencies_passed m states \<or> failed_dependency m states \<noteq> None"
proof (cases "failed_dependency m states")
  case None
  then have "\<forall>dep \<in> set (ck_deps m). states dep \<notin> {Some Fail, Some Timeout, Some Blocked}"
    by (auto simp: failed_dependency_def find_None_iff)
  with assms show ?thesis by (fastforce simp: dependencies_passed_def list_all_iff)
qed simp

lemma some_not_idle:
  assumes inv: "sched_inv checks limit s" and wf: "well_formed checks" and l: "0 < limit"
    and r: "sc_running s = []" and less: "length (sc_completed s) < length checks"
  shows "\<exists>c \<in> set checks. \<not> idle limit s c"
proof -
  have d: "distinct (map ck_name checks)" using wf by (simp add: well_formed_def)
  have settled: "\<exists>st. sc_states s (ck_name c) = Some st \<and> st \<notin> {Pending, Running}"
    if "c \<in> set checks" "sc_states s (ck_name c) \<noteq> Some Pending" for c
    using that inv r by (fastforce simp: sched_inv_def)
  have "\<exists>c \<in> set checks. sc_states s (ck_name c) = Some Pending"
  proof (rule ccontr)
    assume "\<not> ?thesis"
    then have "ck_name ` set checks \<subseteq> fst ` set (sc_completed s)"
      using inv r by (fastforce simp: sched_inv_def)
    then have "length checks \<le> length (sc_completed s)"
      by (metis names_card [OF d] completed_card [OF inv] card_mono finite_imageI finite_set)
    with less show False by simp
  qed
  then obtain c where "c \<in> set checks" "sc_states s (ck_name c) = Some Pending" by blast
  from first_of [where P = "\<lambda>c. sc_states s (ck_name c) = Some Pending", OF wf this] obtain m where m: "m \<in> set checks" "sc_states s (ck_name m) = Some Pending"
    and least: "\<And>dep dc. dep \<in> set (ck_deps m) \<Longrightarrow> dc \<in> set checks \<Longrightarrow> ck_name dc = dep
                  \<Longrightarrow> sc_states s (ck_name dc) \<noteq> Some Pending"
    by blast
  have deps: "sc_states s dep \<in> {Some Pass, Some Warn, Some Fail, Some Timeout, Some Blocked}"
    if "dep \<in> set (ck_deps m)" for dep
  proof -
    have "dep \<in> ck_name ` set checks" using wf m(1) that unfolding well_formed_def by blast
    then obtain dc where "dc \<in> set checks" "ck_name dc = dep" by blast
    with least [OF that this] settled [of dc] obtain st where "sc_states s dep = Some st" "st \<notin> {Pending, Running}"
      by auto
    then show ?thesis by (cases st) auto
  qed
  have "dependencies_passed m (sc_states s) \<or> failed_dependency m (sc_states s) \<noteq> None"
    using passed_or_failed [of m "sc_states s"] deps by blast
  moreover have "sc_heavy s < limit"
    using inv r l by (simp add: sched_inv_def)
  ultimately have "\<not> idle limit s m"
    using m by (auto simp: idle_def)
  with m show ?thesis by blast
qed

definition results_from :: "run_env \<Rightarrow> sched \<Rightarrow> bool" where
  "results_from env s \<longleftrightarrow>
     (\<forall>(n, r) \<in> set (sc_completed s).
        if rs_status r = Blocked then (\<forall>e. rs_err r = Some (ContextError e) \<longrightarrow> (\<exists>k. env_ctx env k = Some e))
        else r = run_one env (rs_check r))"

lemma results_from_add:
  "results_from env s \<Longrightarrow> sc_completed s' = AList.update k r (sc_completed s) \<Longrightarrow>
   (if rs_status r = Blocked then (\<forall>e. rs_err r = Some (ContextError e) \<longrightarrow> (\<exists>k. env_ctx env k = Some e))
    else r = run_one env (rs_check r)) \<Longrightarrow> results_from env s'"
  unfolding results_from_def using set_update_subset [of k r "sc_completed s"] by fastforce

lemma results_from_same: "sc_completed s' = sc_completed s \<Longrightarrow> results_from env s' = results_from env s"
  by (simp add: results_from_def)

lemma results_from_receive: "results_from env s \<Longrightarrow> results_from env (receive (run_one env c) s)"
  by (erule results_from_add) (use run_one_settled [of env c] in \<open>auto simp: receive_def\<close>)

lemma results_from_log [simp]:
  "results_from env (log_line ev s) = results_from env s" "results_from env (tick s) = results_from env s"
  "results_from env (start c s) = results_from env s"
  by (simp_all add: results_from_def log_line_def tick_def start_def)

lemma results_from_pass:
  "results_from env s \<Longrightarrow> results_from env (fst (pass env limit cs s progress))"
proof (induction cs arbitrary: s progress)
  case (Cons c cs)
  have "results_from env (block c (Prerequisite dep st) s)" for dep st
    by (rule results_from_add [OF Cons.prems]) (auto simp: block_def)
  moreover have "results_from env (block c (ContextError e) (tick s))" if "env_ctx env (sc_clock s) = Some e" for e
    by (rule results_from_add [of _ "tick s"]) (use Cons.prems that in \<open>auto simp: block_def\<close>)
  ultimately show ?case
    using Cons by (auto simp: Let_def split: option.splits)
qed simp

section \<open>The loop\<close>

lemma both_inv_receive:
  assumes "both_inv checks limit s" and "well_formed checks" and "c \<in> set (sc_running s)"
  shows "both_inv checks limit (log_line (EvDone (rs_status (run_one env c)) c) (receive (run_one env c) s))"
    and "sched_inv checks limit (receive (run_one env c) s)"
    and "length (sc_completed (receive (run_one env c) s)) = Suc (length (sc_completed s))"
proof -
  have d: "distinct (map ck_name checks)" using assms(2) by (simp add: well_formed_def)
  have si: "sched_inv checks limit s" using assms(1) by (simp add: both_inv_def)
  show r: "sched_inv checks limit (receive (run_one env c) s)"
    by (rule sched_inv_receive [OF si d assms(3)])
  show "both_inv checks limit (log_line (EvDone (rs_status (run_one env c)) c) (receive (run_one env c) s))"
    using log_inv_receive [OF _ si d assms(3)] assms(1) r by (simp add: both_inv_def)
  have "ck_name c \<notin> fst ` set (sc_completed s)"
    using si assms(3) by (fastforce simp: sched_inv_def)
  then show "length (sc_completed (receive (run_one env c) s)) = Suc (length (sc_completed s))"
    by (simp add: receive_def update_fresh)
qed

lemma grown_completed:
  "grown s s' x \<Longrightarrow> sc_running s' = [] \<Longrightarrow> x \<Longrightarrow> length (sc_completed s) < length (sc_completed s')"
  by (auto simp: grown_def)

lemma pick_running: "sc_running s \<noteq> [] \<Longrightarrow> sc_running s ! (k mod length (sc_running s)) \<in> set (sc_running s)"
  by (intro nth_mem mod_less_divisor) simp

lemma pass_werr:
  "pass env limit cs s progress = (s', progress', Some e) \<Longrightarrow> \<exists>n. env_write env n = Some e"
  by (induction cs arbitrary: s progress) (auto simp: Let_def split: if_splits option.splits)

definition loop_post :: "run_env \<Rightarrow> check list \<Rightarrow> int \<Rightarrow> sched \<times> run_error option \<Rightarrow> bool" where
  "loop_post env checks limit = (\<lambda>(s, e).
     sched_inv checks limit s \<and> results_from env s \<and> log_safe limit (sc_log s)
     \<and> (case e of
          None \<Rightarrow> True
        | Some (WriteStart x) \<Rightarrow> \<exists>n. env_write env n = Some x
        | Some (WriteCompletion x) \<Rightarrow> \<exists>n. env_write env n = Some x
        | Some (RunContext x) \<Rightarrow> \<exists>n. env_ctx env n = Some x
        | _ \<Rightarrow> False)
     \<and> ((\<exists>x. e = Some (WriteStart x)) \<or> (\<exists>x. e = Some (WriteCompletion x))
        \<or> length checks \<le> length (sc_completed s)))"

lemma run_loop_total:
  assumes wf: "well_formed checks" and l: "0 < limit"
  shows "both_inv checks limit s \<Longrightarrow> results_from env s \<Longrightarrow> length checks - length (sc_completed s) < fuel \<Longrightarrow>
         \<exists>out. run_loop fuel env limit checks s = Some out \<and> loop_post env checks limit out"
proof (induction fuel arbitrary: s)
  case (Suc fuel)
  have si: "sched_inv checks limit s" "log_safe limit (sc_log s)"
    using Suc.prems(1) by (auto simp: both_inv_def log_inv_def)
  show ?case
  proof (cases "length checks \<le> length (sc_completed s)")
    case True
    with si Suc.prems(2) show ?thesis
      by (cases "env_ctx env (sc_clock s)") (auto simp: loop_post_def)
  next
    case more: False
    obtain s1 progress werr where pass: "pass env limit checks s False = (s1, progress, werr)"
      using prod_cases3 by blast
    note post = pass_spec [OF pass Suc.prems(1) wf subset_refl]
    have from1: "results_from env s1"
      using results_from_pass [OF Suc.prems(2), of limit checks False] by (simp add: pass)
    show ?thesis
    proof (cases werr)
      case (Some e)
      with more pass post from1 pass_werr [of env limit checks s False s1 progress e] show ?thesis
        by (auto simp: loop_post_def)
    next
      case None
      with post have b1: "both_inv checks limit s1" and g: "grown s s1 progress"
        and idle: "\<not> progress \<Longrightarrow> s1 = s \<and> list_all (idle limit s) checks" by auto
      show ?thesis
      proof (cases "sc_running s1 = []")
        case True
        have p: "progress"
        proof (rule ccontr)
          assume np: "\<not> progress"
          with idle have "s1 = s" "list_all (idle limit s) checks" by auto
          with some_not_idle [OF si(1) wf l] True more show False by (auto simp: list_all_iff)
        qed
        have "length checks - length (sc_completed s1) < fuel"
          using grown_completed [OF g True p] Suc.prems(3) more by simp
        from Suc.IH [OF b1 from1 this] show ?thesis
          using more pass None True p by simp
      next
        case False
        define c where "c = sc_running s1 ! (env_pick env (sc_clock s1) mod length (sc_running s1))"
        have c: "c \<in> set (sc_running s1)" unfolding c_def by (rule pick_running [OF False])
        define s2 where "s2 = receive (run_one env c) s1"
        have r2: "both_inv checks limit (log_line (EvDone (rs_status (run_one env c)) c) s2)"
          "sched_inv checks limit s2" "length (sc_completed s2) = Suc (length (sc_completed s1))"
          unfolding s2_def by (rule both_inv_receive [OF b1 wf c])+
        have from2: "results_from env s2" unfolding s2_def by (rule results_from_receive [OF from1])
        have log2: "sc_log s2 = sc_log s1" by (simp add: s2_def receive_def)
        have step: "run_loop (Suc fuel) env limit checks s =
            (case env_write env (sc_clock s2) of
               Some e \<Rightarrow> Some (s2, Some (WriteCompletion e))
             | None \<Rightarrow> run_loop fuel env limit checks (log_line (EvDone (rs_status (run_one env c)) c) s2))"
          using more pass None False by (simp add: Let_def c_def [symmetric] s2_def split: option.split)
        show ?thesis
        proof (cases "env_write env (sc_clock s2)")
          case (Some e)
          with step r2 from2 log2 b1 show ?thesis by (auto simp: loop_post_def both_inv_def log_inv_def)
        next
          case None
          have "length (sc_completed (log_line (EvDone (rs_status (run_one env c)) c) s2)) = Suc (length (sc_completed s1))"
            using r2(3) by (simp add: log_line_def)
          moreover have "length (sc_completed s) \<le> length (sc_completed s1)" using g by (simp add: grown_def)
          ultimately have "length checks - length (sc_completed (log_line (EvDone (rs_status (run_one env c)) c) s2)) < fuel"
            using Suc.prems(3) more by simp
          from Suc.IH [OF r2(1) _ this] from2 show ?thesis using step None by simp
        qed
      qed
    qed
  qed
qed simp

lemma run_total:
  assumes "validate_checks checks = None" and "0 < limit"
  shows "\<exists>s e. run env limit checks (Suc (length checks)) = Some (sc_log s, ordered_results checks (sc_completed s), e)
           \<and> loop_post env checks limit (s, e)"
proof -
  have wf: "well_formed checks" using assms(1) by (simp add: validate_checks_None)
  have "both_inv checks limit (init_sched checks)" "results_from env (init_sched checks)"
    using sched_inv_init [of limit checks] log_inv_init [of limit checks] assms(2)
    by (auto simp: both_inv_def results_from_def init_sched_def)
  from run_loop_total [OF wf assms(2) this, of "Suc (length checks)"]
  obtain s e where "run_loop (Suc (length checks)) env limit checks (init_sched checks) = Some (s, e)"
    "loop_post env checks limit (s, e)" by force
  with assms show ?thesis by (auto simp: run_def)
qed

lemma fuel_mono:
  "run_loop fuel env limit checks s = Some out \<Longrightarrow> fuel \<le> fuel' \<Longrightarrow> run_loop fuel' env limit checks s = Some out"
proof (induction fuel arbitrary: fuel' s)
  case (Suc fuel)
  then obtain f where f: "fuel' = Suc f" "fuel \<le> f" by (cases fuel') auto
  note IH = Suc.IH [OF _ f(2)]
  obtain s1 progress werr where pass: "pass env limit checks s False = (s1, progress, werr)"
    using prod_cases3 by blast
  show ?case
    using Suc.prems(1) IH
    by (cases "length checks \<le> length (sc_completed s)"; cases werr; cases "sc_running s1 = []";
        cases "\<not> progress \<and> length (sc_completed s1) < length checks")
       (auto simp: f(1) pass Let_def split: option.splits)
qed simp

section \<open>Properties\<close>

lemma not_passed_count: "not_passed (count_result st y) = not_passed y + (if st \<in> failing then 1 else 0)"
  by (cases st) (simp_all add: not_passed_def)

lemma summary_rows_count:
  "snd (summary_rows wr fmt rs y out) = Ok out' \<Longrightarrow>
   not_passed (fst (summary_rows wr fmt rs y out)) = not_passed y + length (filter (\<lambda>r. rs_status r \<in> failing) rs)"
  by (induction rs arbitrary: y out) (auto simp: Let_def not_passed_count simp del: count_result.simps split: sum.splits)

section \<open>A small table\<close>

definition demo_check :: "string \<Rightarrow> string list \<Rightarrow> check" where
  "demo_check name deps = \<lparr>ck_name = name, ck_argv = [''x''], ck_heavy = True, ck_deps = deps, ck_baseline = 10, ck_timeout = 20\<rparr>"

definition demo_checks :: "check list" where
  "demo_checks = [demo_check ''a'' [''b''], demo_check ''b'' []]"

definition demo_run_env :: run_env where
  "demo_run_env = \<lparr>env_ctx = \<lambda>_. None, env_write = \<lambda>_. None, env_pick = \<lambda>_. 0,
     env_exec = \<lambda>c. (5, None, if ck_name c = ''b'' then Some ''no'' else None), env_log_dir = ''/l''\<rparr>"

lemma demo_valid: "validate_checks demo_checks = None"
  by (simp add: validate_checks_def validate_deps_def demo_checks_def demo_check_def growth_budget_def wrap64_def
      deps_of_def)

text \<open>
  The validation accepts a table exactly when every check is complete, has a positive baseline
  and a timeout above its budget, all names are distinct, all dependencies are checks of the table,
  and the dependencies are acyclic.
\<close>
theorem validate_checks_exact:
  "validate_checks checks = None \<longleftrightarrow>
     distinct (map ck_name checks)
     \<and> list_all (\<lambda>c. set (ck_deps c) \<subseteq> ck_name ` set checks) checks
     \<and> acyclic (depends checks)
     \<and> list_all (\<lambda>c. ck_name c \<noteq> [] \<and> ck_argv c \<noteq> [] \<and> 0 < ck_baseline c
                      \<and> growth_budget (ck_baseline c) < ck_timeout c) checks"
  by (auto simp: validate_checks_None well_formed_def list_all_iff)

lemma scheduler_ends:
  "\<exists>log results err. run env limit checks (Suc (length checks)) = Some (log, results, err)
     \<and> err \<noteq> Some NoProgress
     \<and> (validate_checks checks \<noteq> None \<or> limit < 1 \<or> (\<exists>e. err = Some (WriteStart e))
        \<or> (\<exists>e. err = Some (WriteCompletion e))
        \<or> map rs_check results = checks \<and> list_all (\<lambda>r. rs_status r \<notin> {Pending, Running}) results)"
proof (cases "validate_checks checks = None \<and> 0 < limit")
  case False
  then show ?thesis by (auto simp: run_def split: option.splits)
next
  case True
  then obtain s e where r: "run env limit checks (Suc (length checks)) =
      Some (sc_log s, ordered_results checks (sc_completed s), e)" "loop_post env checks limit (s, e)"
    using run_total by blast
  then have inv: "sched_inv checks limit s" by (simp add: loop_post_def)
  have wf: "distinct (map ck_name checks)" using True by (simp add: validate_checks_None well_formed_def)
  have "map rs_check (ordered_results checks (sc_completed s)) = checks
        \<and> list_all (\<lambda>r. rs_status r \<notin> {Pending, Running}) (ordered_results checks (sc_completed s))"
    if "length checks \<le> length (sc_completed s)"
  proof -
    have "\<exists>r. map_of (sc_completed s) (ck_name c) = Some r \<and> rs_check r = c \<and> rs_status r \<notin> {Pending, Running}"
      if c: "c \<in> set checks" for c
    proof -
      have "ck_name c \<in> fst ` set (sc_completed s)"
        using all_completed [OF inv wf \<open>length checks \<le> length (sc_completed s)\<close>] c by auto
      then obtain r where r: "(ck_name c, r) \<in> set (sc_completed s)" by auto
      with inv c same_name [OF wf] show ?thesis by (auto simp: sched_inv_def)
    qed
    then show ?thesis
      by (auto simp: ordered_results_def list_all_iff intro!: map_idI split: option.splits) force+
  qed
  with r show ?thesis by (auto simp: loop_post_def)
qed

text \<open>
  The scheduler always ends within one round per check and one more, it never reports that it
  made no progress, and unless the table, the limit or a write is at fault it has a settled result
  for every check, in the order of the table.
\<close>
theorem scheduler_complete:
  "\<exists>log results err. run env limit checks (Suc (length checks)) = Some (log, results, err)
     \<and> err \<noteq> Some NoProgress
     \<and> (validate_checks checks \<noteq> None \<or> limit < 1 \<or> (\<exists>e. err = Some (WriteStart e))
        \<or> (\<exists>e. err = Some (WriteCompletion e))
        \<or> map rs_check results = checks \<and> list_all (\<lambda>r. rs_status r \<notin> {Pending, Running}) results)"
  by (rule scheduler_ends)

text \<open>
  C11: What the scheduler writes shows at every point at most as many heavy checks in progress as the
  limit allows, no check started before each of its dependencies was reported as passed or warned,
  and no check started twice; however long the checks take and in whatever order they report.
\<close>
theorem scheduler_safe:
  assumes "0 \<le> limit" and "run env limit checks (Suc (length checks)) = Some (log, results, err)"
  shows "log_safe limit log"
proof (cases "validate_checks checks = None \<and> 0 < limit")
  case True
  then obtain s e where "run env limit checks (Suc (length checks)) =
      Some (sc_log s, ordered_results checks (sc_completed s), e)" "loop_post env checks limit (s, e)"
    using run_total by blast
  with assms(2) show ?thesis by (auto simp: loop_post_def)
next
  case False
  with assms have "log = []" by (auto simp: run_def split: option.splits if_splits)
  with assms(1) show ?thesis by (simp add: log_safe_Nil)
qed

lemma emit_ok: "\<forall>n. wr n = None \<Longrightarrow> emit wr text out = Ok (out @ [text])"
  by (simp add: emit_def)

lemma summary_rows_ok: "\<forall>n. wr n = None \<Longrightarrow> \<exists>out'. snd (summary_rows wr fmt rs y out) = Ok out'"
  by (induction rs arbitrary: y out) (simp_all add: emit_ok Let_def)

lemma failure_logs_ok:
  "\<forall>n. wr n = None \<Longrightarrow> \<forall>path. is_ok (read path) \<Longrightarrow> is_ok (failure_logs wr fmt read rs out)"
proof (induction rs arbitrary: out)
  case (Cons r rs)
  from Cons.prems(2) obtain content where "read (rs_log_path r) = Ok content"
    by (cases "read (rs_log_path r)") (auto simp: is_ok_def split: sum.splits dest: spec [of _ "rs_log_path r"])
  with Cons show ?case by (simp add: emit_ok)
qed simp

lemma print_summary_ok:
  assumes "\<forall>n. wr n = None" and "\<forall>path. is_ok (read path)"
  shows "fst (print_summary wr fmt read rs elapsed) = length (filter (\<lambda>r. rs_status r \<in> failing) rs)
         \<and> is_ok (snd (print_summary wr fmt read rs elapsed))"
proof -
  let ?y = "\<lparr>n_passed = 0, n_warned = 0, n_failed = 0, n_timed_out = 0, n_blocked = 0\<rparr>"
  let ?out = "[[CHR 0x0A] @ ''[land-quality] SUMMARY'' @ [CHR 0x0A]]"
  obtain out' where ok: "snd (summary_rows wr fmt rs ?y ?out) = Ok out'"
    using summary_rows_ok [OF assms(1)] by blast
  obtain y where rows: "summary_rows wr fmt rs ?y ?out = (y, Ok out')"
    using ok by (cases "summary_rows wr fmt rs ?y ?out") simp
  have "not_passed y = length (filter (\<lambda>r. rs_status r \<in> failing) rs)"
    using summary_rows_count [OF ok] rows by (simp add: not_passed_def)
  then show ?thesis
    using rows failure_logs_ok [OF assms] by (simp add: print_summary_def emit_ok [OF assms(1)])
qed

lemma final_result:
  assumes inv: "sched_inv checks limit s" and wf: "well_formed checks" and all: "length checks \<le> length (sc_completed s)"
    and c: "c \<in> set checks"
  obtains r where "map_of (sc_completed s) (ck_name c) = Some r" and "(ck_name c, r) \<in> set (sc_completed s)"
    and "rs_check r = c" and "rs_status r \<notin> {Pending, Running}" and "result_ok (sc_states s) r"
    and "sc_states s (ck_name c) = Some (rs_status r)"
proof -
  have d: "distinct (map ck_name checks)" using wf by (simp add: well_formed_def)
  have "ck_name c \<in> fst ` set (sc_completed s)"
    using all_completed [OF inv d all] c by auto
  then obtain r where r: "(ck_name c, r) \<in> set (sc_completed s)" by auto
  with inv c same_name [OF d] that show thesis by (auto simp: sched_inv_def)
qed

lemma passed_iff_executed:
  assumes inv: "sched_inv checks limit s" and wf: "well_formed checks" and all: "length checks \<le> length (sc_completed s)"
    and rf: "results_from env s" and ctx: "\<forall>n. env_ctx env n = None"
  shows "(\<exists>c \<in> set checks. sc_states s (ck_name c) \<in> Some ` failing)
         \<longleftrightarrow> (\<exists>c \<in> set checks. rs_status (run_one env c) \<in> failing)"
proof
  assume "\<exists>c \<in> set checks. sc_states s (ck_name c) \<in> Some ` failing"
  then obtain c where "c \<in> set checks" "sc_states s (ck_name c) \<in> Some ` failing" by blast
  from first_of [where P = "\<lambda>c. sc_states s (ck_name c) \<in> Some ` failing", OF wf this] obtain m where m: "m \<in> set checks"
    "sc_states s (ck_name m) \<in> Some ` failing"
    and least: "\<And>d dc. d \<in> set (ck_deps m) \<Longrightarrow> dc \<in> set checks \<Longrightarrow> ck_name dc = d
                  \<Longrightarrow> sc_states s (ck_name dc) \<notin> Some ` failing"
    by blast
  obtain r where r: "(ck_name m, r) \<in> set (sc_completed s)" "rs_check r = m" "result_ok (sc_states s) r"
    "sc_states s (ck_name m) = Some (rs_status r)"
    using final_result [OF inv wf all m(1)] by metis
  have "rs_status r \<noteq> Blocked"
  proof
    assume b: "rs_status r = Blocked"
    have "rs_err r \<noteq> Some (ContextError e)" for e
      using rf r(1) b ctx by (fastforce simp: results_from_def)
    with r(3) b obtain d st where d: "d \<in> set (ck_deps m)" "sc_states s d = Some st" "st \<in> failing"
      by (auto simp: result_ok_def r(2) split: option.splits check_error.splits)
    moreover have "d \<in> ck_name ` set checks" using wf m(1) d(1) unfolding well_formed_def by blast
    ultimately show False using least by blast
  qed
  with rf r have "r = run_one env m" by (fastforce simp: results_from_def)
  with r m show "\<exists>c \<in> set checks. rs_status (run_one env c) \<in> failing" by auto
next
  assume "\<exists>c \<in> set checks. rs_status (run_one env c) \<in> failing"
  then obtain c where c: "c \<in> set checks" "rs_status (run_one env c) \<in> failing" by blast
  obtain r where r: "(ck_name c, r) \<in> set (sc_completed s)" "rs_check r = c"
    "sc_states s (ck_name c) = Some (rs_status r)"
    using final_result [OF inv wf all c(1)] by metis
  have "rs_status r \<in> failing"
  proof (cases "rs_status r = Blocked")
    case False
    with rf r(1,2) have "r = run_one env c" by (fastforce simp: results_from_def)
    with c show ?thesis by simp
  qed simp
  with r c show "\<exists>c \<in> set checks. sc_states s (ck_name c) \<in> Some ` failing" by blast
qed

theorem scheduler_complete_witness:
  "\<exists>log results err. run demo_run_env 1 demo_checks 3 = Some (log, results, err) \<and> err \<noteq> Some NoProgress
     \<and> ((\<exists>e. err = Some (WriteStart e)) \<or> (\<exists>e. err = Some (WriteCompletion e)) \<or> map rs_check results = demo_checks)"
proof -
  have three: "Suc (length demo_checks) = 3" by (simp add: demo_checks_def)
  show ?thesis using scheduler_complete [of demo_run_env 1 demo_checks] unfolding three by (auto simp: demo_valid)
qed

theorem scheduler_safe_witness:
  "\<exists>log. run demo_run_env 1 demo_checks 3 = Some log \<and> log_safe 1 (fst log)"
proof -
  obtain log results err where "run demo_run_env 1 demo_checks (Suc (length demo_checks)) = Some (log, results, err)"
    using scheduler_ends [of demo_run_env 1 demo_checks] by blast
  with scheduler_safe [of 1 demo_run_env demo_checks log results err] show ?thesis
    by (simp add: demo_checks_def numeral_3_eq_3)
qed



text \<open>The table of the repository is accepted by the validation.\<close>
theorem quality_checks_valid: "validate_checks quality_checks = None"
proof -
  have b: "growth_budget x = x + x div 10" if "0 \<le> x" "x \<le> 10 ^ 18" for x :: int
  proof -
    have "0 \<le> x + x div 10" "x + x div 10 \<le> 2 * 10 ^ 18" using that by auto
    then have "wrap64 (x + x div 10) = x + x div 10" by (simp add: wrap64_def)
    with that show ?thesis by (cases "x = 0") (simp_all add: growth_budget_def)
  qed
  have f: "validate_fields [] quality_checks = None"
    unfolding quality_checks_def by (simp add: b)
  have v: "\<exists>v. visit_all quality_checks [] [] (map ck_name quality_checks) = Ok v"
    unfolding quality_checks_def by (simp add: deps_of_def)
  have "validate_deps quality_checks = None"
    unfolding validate_deps_None quality_checks_def by simp
  with f v show ?thesis by (auto simp: validate_checks_def)
qed


end
