(* ===== verification/Kanban_Model.thy ===== *)
theory Kanban_Model
  imports Json "HOL-Library.Product_Lexorder"
begin

text \<open>
  The model behind the kanban tree (\<open>tools/kanban-tree/export.go\<close> and \<open>tree.go\<close>): validation of
  an export, its reduction to what is drawn, and the dependency layout of one container.

  A Go map is the list of its entries.  The order of iteration over a map never shows in the result:
  every list filled from a map is sorted by a total order.  A number of an attribute is the text
  \<open>FormatFloat\<close> prints for it.
\<close>

section \<open>Exports\<close>

record strand =
  st_id :: string
  st_title :: string
  st_state :: string
  st_created :: string
  st_attributes :: object

record edge =
  e_from :: string
  e_to :: string

record export =
  ex_root :: string
  ex_strands :: "strand list"
  ex_parent_of :: "edge list"
  ex_depends_on :: "edge list"

definition attr_card :: string where "attr_card = ''kanban/card''"
definition attr_task :: string where "attr_task = ''kanban/task''"
definition attr_type :: string where "attr_type = ''kanban/type''"
definition attr_lane :: string where "attr_lane = ''kanban/lane''"
definition attr_outcome :: string where "attr_outcome = ''kanban/outcome''"
definition attr_priority :: string where "attr_priority = ''kanban/priority''"
definition attr_owner :: string where "attr_owner = ''owner''"

definition display_attributes :: "string list" where
  "display_attributes =
     [attr_card, attr_task, attr_type, attr_lane, attr_outcome, attr_priority, attr_owner]"

definition state_active :: string where "state_active = ''active''"
definition state_closed :: string where "state_closed = ''closed''"
definition state_replaced :: string where "state_replaced = ''replaced''"

fun scalar_text :: "json \<Rightarrow> string option" where
  "scalar_text (JStr s) = Some s"
| "scalar_text (JBool b) = Some (if b then ''true'' else ''false'')"
| "scalar_text (JNum s) = Some s"
| "scalar_text v = None"

text \<open>
  \<open>attr\<close>; the code panics where \<open>attr_value\<close> is \<open>None\<close>, which no validated export reaches
  (\<open>validated_attributes\<close> below).
\<close>

definition attr_value :: "strand \<Rightarrow> string \<Rightarrow> string option" where
  "attr_value s key = (case map_of (st_attributes s) key of None \<Rightarrow> Some [] | Some v \<Rightarrow> scalar_text v)"

definition attr :: "strand \<Rightarrow> string \<Rightarrow> string" where
  "attr s key = (case attr_value s key of Some t \<Rightarrow> t | None \<Rightarrow> [])"

definition kanban :: "strand \<Rightarrow> bool" where
  "kanban s \<longleftrightarrow> attr s attr_card = ''true'' \<or> attr s attr_task = ''true''"

section \<open>Validation\<close>

datatype export_error =
    BlankId
  | DuplicateId string
  | BlankTitle string
  | BlankCreated string
  | BadState string string
  | RootMissing string
  | EdgeBlank string
  | EdgeSelf string string
  | EdgeUnknown string string string
  | EdgeDuplicate string string string
  | ManyParents string
  | ParentCycle string
  | AttributeUnsupported string string
  | AttributeInvalid string string string
  | RootIdBlank
  | PayloadUnreadable string
  | PayloadTrailing

definition allowed_value :: "string \<Rightarrow> string \<Rightarrow> bool" where
  "allowed_value key value =
     (if key = attr_lane then value \<in> set [''refinement'', ''pending'', ''claimed'', ''in_review'']
      else if key = attr_outcome then value \<in> set [''done'', ''abandoned'']
      else if key = attr_priority then value \<in> set [''p1'', ''p2'', ''p3'', ''p4'']
      else True)"

definition validate_attribute_value :: "string \<Rightarrow> string \<Rightarrow> string \<Rightarrow> export_error option" where
  "validate_attribute_value ident key value =
     (if allowed_value key value then None else Some (AttributeInvalid ident key value))"

definition validate_attributes :: "strand list \<Rightarrow> export_error option" where
  "validate_attributes strands =
     first_error (\<lambda>s. first_error (\<lambda>key.
       (case map_of (st_attributes s) key of
          None \<Rightarrow> None
        | Some v \<Rightarrow>
            (case scalar_text v of
               None \<Rightarrow> Some (AttributeUnsupported (st_id s) key)
             | Some text \<Rightarrow> validate_attribute_value (st_id s) key text))) display_attributes) strands"

fun validate_strands :: "string list \<Rightarrow> strand list \<Rightarrow> (export_error, string list) result" where
  "validate_strands ids [] = Ok ids"
| "validate_strands ids (s # ss) =
     (if st_id s = [] then Err BlankId
      else if st_id s \<in> set ids then Err (DuplicateId (st_id s))
      else if st_title s = [] then Err (BlankTitle (st_id s))
      else if st_created s = [] then Err (BlankCreated (st_id s))
      else if st_state s \<notin> {state_active, state_closed, state_replaced} then Err (BadState (st_id s) (st_state s))
      else validate_strands (st_id s # ids) ss)"

text \<open>The key of a seen edge joins its ends with a NUL byte.\<close>

definition edge_key :: "edge \<Rightarrow> string" where
  "edge_key e = e_from e @ [CHR 0x00] @ e_to e"

fun validate_edges :: "string \<Rightarrow> string list \<Rightarrow> string list \<Rightarrow> edge list \<Rightarrow> export_error option" where
  "validate_edges relation ids seen [] = None"
| "validate_edges relation ids seen (e # es) =
     (if e_from e = [] \<or> e_to e = [] then Some (EdgeBlank relation)
      else if e_from e = e_to e then Some (EdgeSelf relation (e_from e))
      else if e_from e \<notin> set ids \<or> e_to e \<notin> set ids then Some (EdgeUnknown relation (e_from e) (e_to e))
      else if edge_key e \<in> set seen then Some (EdgeDuplicate relation (e_from e) (e_to e))
      else validate_edges relation ids (edge_key e # seen) es)"

fun parent_map :: "(string \<times> string) list \<Rightarrow> edge list \<Rightarrow> (export_error, (string \<times> string) list) result" where
  "parent_map parents [] = Ok parents"
| "parent_map parents (e # es) =
     (case map_of parents (e_to e) of
        Some parent \<Rightarrow>
          if parent \<noteq> e_from e then Err (ManyParents (e_to e))
          else parent_map (AList.update (e_to e) (e_from e) parents) es
      | None \<Rightarrow> parent_map (AList.update (e_to e) (e_from e) parents) es)"

text \<open>Indexing the map of parents gives the empty string at the root.\<close>

definition parent_of :: "(string \<times> string) list \<Rightarrow> string \<Rightarrow> string" where
  "parent_of parents ident = (case map_of parents ident of None \<Rightarrow> [] | Some p \<Rightarrow> p)"

function parent_cycle :: "(string \<times> string) list \<Rightarrow> string list \<Rightarrow> string \<Rightarrow> export_error option" where
  "parent_cycle parents seen current =
     (if current = [] then None
      else if current \<in> set seen then Some (ParentCycle current)
      else parent_cycle parents (current # seen) (parent_of parents current))"
  by pat_completeness auto
termination
proof (relation "measures [\<lambda>(parents, seen, _). card (fst ` set parents - set seen),
                            \<lambda>(parents, seen, current). if current = [] then 0 else (1::nat)]")
  fix parents :: "(string \<times> string) list" and seen :: "string list" and current :: string
  assume ne: "current \<noteq> []" and new: "current \<notin> set seen"
  show "((parents, current # seen, parent_of parents current), parents, seen, current)
        \<in> measures [\<lambda>(parents, seen, _). card (fst ` set parents - set seen),
                    \<lambda>(parents, seen, current). if current = [] then 0 else (1::nat)]"
  proof (cases "current \<in> fst ` set parents")
    case True
    have "card (fst ` set parents - set (current # seen)) < card (fst ` set parents - set seen)"
      by (rule psubset_card_mono) (use True new in auto)
    then show ?thesis by simp
  next
    case False
    then have "fst ` set parents - insert current (set seen) = fst ` set parents - set seen" by auto
    moreover have "parent_of parents current = []"
      using False by (simp add: parent_of_def map_of_eq_None_iff [THEN iffD2])
    ultimately show ?thesis using ne by simp
  qed
qed auto

declare parent_cycle.simps [simp del]

definition validate_parents :: "edge list \<Rightarrow> export_error option" where
  "validate_parents edges =
     (case parent_map [] edges of
        Inl e \<Rightarrow> Some e
      | Inr parents \<Rightarrow> first_error (parent_cycle parents []) (map fst parents))"

definition validate_export :: "export \<Rightarrow> export_error option" where
  "validate_export out =
     (case validate_strands [] (ex_strands out) of
        Inl e \<Rightarrow> Some e
      | Inr ids \<Rightarrow>
          if ex_root out \<notin> set ids then Some (RootMissing (ex_root out))
          else (case validate_edges ''parent-of'' ids [] (ex_parent_of out) of
            Some e \<Rightarrow> Some e
          | None \<Rightarrow>
              (case validate_parents (ex_parent_of out) of
                 Some e \<Rightarrow> Some e
               | None \<Rightarrow>
                   (case validate_edges ''depends-on'' ids [] (ex_depends_on out) of
                      Some e \<Rightarrow> Some e
                    | None \<Rightarrow> validate_attributes (ex_strands out)))))"

text \<open>
  \<open>decode\<close>: what the two calls of the JSON decoder deliver, the value of the payload and whether
  the input ends after it.
\<close>

datatype trailing = TrailingEof | TrailingValue | TrailingError string

definition decode :: "(string, export) result \<Rightarrow> trailing \<Rightarrow> (export_error, export) result" where
  "decode payload rest =
     (case payload of
        Inl e \<Rightarrow> Err (PayloadUnreadable e)
      | Inr out \<Rightarrow>
          (case rest of
             TrailingValue \<Rightarrow> Err PayloadTrailing
           | TrailingError e \<Rightarrow> Err (PayloadUnreadable e)
           | TrailingEof \<Rightarrow>
               if ex_root out = [] then Err RootIdBlank
               else (case validate_export out of Some e \<Rightarrow> Err e | None \<Rightarrow> Ok out)))"

section \<open>The model\<close>

record filters =
  f_all :: bool
  f_tasks :: bool
  f_open :: bool

record model =
  m_root :: string
  m_nodes :: "(string \<times> strand) list"
  m_kids :: "string \<Rightarrow> string list"
  m_blockers :: "string \<Rightarrow> string list"
  m_counts :: "(string \<times> nat \<times> nat) list" \<comment> \<open>closed and total\<close>

definition zero_strand :: strand where
  "zero_strand = \<lparr>st_id = [], st_title = [], st_state = [], st_created = [], st_attributes = []\<rparr>"

definition node_of :: "model \<Rightarrow> string \<Rightarrow> strand" where
  "node_of m ident = (case map_of (m_nodes m) ident of None \<Rightarrow> zero_strand | Some s \<Rightarrow> s)"

text \<open>The chain of ancestors a loop with a bound on its steps visits, from \<open>current\<close> on.\<close>

fun walk_up :: "nat \<Rightarrow> (string \<times> string) list \<Rightarrow> string \<Rightarrow> string list" where
  "walk_up 0 parents current = []"
| "walk_up (Suc k) parents current =
     (if current = [] then [] else current # walk_up k parents (parent_of parents current))"

definition prune_closed ::
    "(string \<times> strand) list \<Rightarrow> (string \<times> string) list \<Rightarrow> string \<Rightarrow> (string \<times> strand) list" where
  "prune_closed keep parents root =
     (let live = root # concat (map (\<lambda>(ident, s). if st_state s \<noteq> state_active then []
                                               else walk_up (Suc (length keep)) parents ident) keep)
      in filter (\<lambda>(ident, s). ident \<in> set live) keep)"

definition nearest_kept ::
    "string \<Rightarrow> (string \<times> string) list \<Rightarrow> (string \<times> strand) list \<Rightarrow> string option" where
  "nearest_kept ident parents keep =
     find (\<lambda>current. current \<in> fst ` set keep) (walk_up (Suc (length parents)) parents (parent_of parents ident))"

text \<open>Oldest first, the id as tiebreak.\<close>

definition sort_ids :: "(string \<times> strand) list \<Rightarrow> string list \<Rightarrow> string list" where
  "sort_ids nodes =
     sort_key (\<lambda>ident. let s = (case map_of nodes ident of None \<Rightarrow> zero_strand | Some s \<Rightarrow> s) in (st_created s, st_id s))"

fun count_children :: "(string \<times> strand) list \<Rightarrow> edge list \<Rightarrow> (string \<times> nat \<times> nat) list \<Rightarrow> (string \<times> nat \<times> nat) list" where
  "count_children every [] counts = counts"
| "count_children every (e # es) counts =
     (case map_of every (e_to e) of
        None \<Rightarrow> count_children every es counts
      | Some child \<Rightarrow>
          if \<not> kanban child then count_children every es counts
          else let (closed, n) = (case map_of counts (e_from e) of None \<Rightarrow> (0, 0) | Some x \<Rightarrow> x)
               in count_children every es
                    (AList.update (e_from e)
                      (if st_state child \<noteq> state_active then closed + 1 else closed, n + 1) counts))"

text \<open>The maps \<open>all\<close>, \<open>parent\<close> and \<open>keep\<close> of \<open>build\<close>.\<close>

definition all_strands :: "strand list \<Rightarrow> (string \<times> strand) list" where
  "all_strands strands = fold (\<lambda>s. AList.update (st_id s) s) strands []"

definition parents_of :: "edge list \<Rightarrow> (string \<times> string) list" where
  "parents_of edges =
     fold (\<lambda>e. if e_from e \<noteq> e_to e then AList.update (e_to e) (e_from e) else (\<lambda>x. x)) edges []"

definition keep_strands ::
    "filters \<Rightarrow> string \<Rightarrow> (string \<times> strand) list \<Rightarrow> (string \<times> string) list \<Rightarrow> (string \<times> strand) list" where
  "keep_strands f root every parents =
     (let keep = filter (\<lambda>(ident, s). ident = root \<or> f_all f \<or> f_tasks f \<and> kanban s
                                    \<or> attr s attr_card = ''true'') every
      in if f_open f then prune_closed keep parents root else keep)"

definition build :: "export \<Rightarrow> filters \<Rightarrow> (export_error, model) result" where
  "build ex f =
     (let every = all_strands (ex_strands ex) in
      case map_of every (ex_root ex) of
        None \<Rightarrow> Err (RootMissing (ex_root ex))
      | Some root \<Rightarrow>
          let parents = parents_of (ex_parent_of ex);
              keep = keep_strands f (st_id root) every parents
          in Ok \<lparr>m_root = st_id root, m_nodes = keep,
                 m_kids = (\<lambda>c. sort_ids keep (filter (\<lambda>ident. ident \<noteq> st_id root \<and> nearest_kept ident parents keep = Some c)
                                                     (map fst keep))),
                 m_blockers = (\<lambda>ident. sort_ids keep
                   (map e_to (filter (\<lambda>e. e_from e = ident \<and> e_from e \<noteq> e_to e
                                        \<and> e_from e \<in> fst ` set keep \<and> e_to e \<in> fst ` set keep) (ex_depends_on ex)))),
                 m_counts = count_children every (ex_parent_of ex) []\<rparr>)"

section \<open>Layout\<close>

record scope =
  sc_tops :: "string list"
  sc_deps :: "(string \<times> string list) list"
  sc_shared :: "(string list \<times> string) list" \<comment> \<open>blockers and the child they block\<close>
  sc_shared_by :: "(string \<times> nat list) list"

definition entries :: "('k \<times> 'v list) list \<Rightarrow> 'k \<Rightarrow> 'v list" where
  "entries al k = (case map_of al k of None \<Rightarrow> [] | Some vs \<Rightarrow> vs)"

definition push :: "'k \<Rightarrow> 'v \<Rightarrow> ('k \<times> 'v list) list \<Rightarrow> ('k \<times> 'v list) list" where
  "push k v al = AList.update k (entries al k @ [v]) al"

definition layout_step :: "model \<Rightarrow> string list \<Rightarrow> string \<Rightarrow> scope \<Rightarrow> scope" where
  "layout_step m siblings ident sc =
     (case filter (\<lambda>b. b \<in> set siblings) (m_blockers m ident) of
        [] \<Rightarrow> sc\<lparr>sc_tops := sc_tops sc @ [ident]\<rparr>
      | [b] \<Rightarrow> sc\<lparr>sc_deps := push b ident (sc_deps sc)\<rparr>
      | within \<Rightarrow>
          sc\<lparr>sc_shared := sc_shared sc @ [(within, ident)],
             sc_shared_by := fold (\<lambda>b. push b (length (sc_shared sc))) within (sc_shared_by sc)\<rparr>)"

text \<open>What comes into the queue when \<open>ident\<close> is seen for the first time.\<close>

definition unblocked :: "scope \<Rightarrow> string \<Rightarrow> string list" where
  "unblocked sc ident =
     entries (sc_deps sc) ident
     @ map (\<lambda>i. snd (sc_shared sc ! i)) (filter (\<lambda>i. i < length (sc_shared sc)) (entries (sc_shared_by sc) ident))"

definition universe :: "scope \<Rightarrow> string set" where
  "universe sc = \<Union> (set ` snd ` set (sc_deps sc)) \<union> snd ` set (sc_shared sc)"

lemma unblocked_universe: "set (unblocked sc ident) \<subseteq> universe sc"
proof -
  have "set (entries (sc_deps sc) ident) \<subseteq> universe sc"
    by (cases "map_of (sc_deps sc) ident") (fastforce simp: entries_def universe_def dest: map_of_SomeD)+
  then show ?thesis
    by (auto simp: unblocked_def universe_def)
qed

lemma finite_universe [simp]: "finite (universe sc)"
  by (simp add: universe_def)

function walk :: "scope \<Rightarrow> string list \<Rightarrow> string list \<Rightarrow> string list" where
  "walk sc seen [] = seen"
| "walk sc seen (ident # queue) =
     (if ident \<in> set seen then walk sc seen queue
      else walk sc (ident # seen) (queue @ unblocked sc ident))"
  by pat_completeness auto
termination
proof (relation "measures [\<lambda>(sc, seen, queue). card ((universe sc \<union> set queue) - set seen),
                            \<lambda>(sc, seen, queue). length queue]")
  fix sc :: scope and seen queue :: "string list" and ident :: string
  assume "ident \<in> set seen"
  then have "universe sc \<union> set (ident # queue) - set seen = universe sc \<union> set queue - set seen" by auto
  then show "((sc, seen, queue), sc, seen, ident # queue)
        \<in> measures [\<lambda>(sc, seen, queue). card ((universe sc \<union> set queue) - set seen),
                    \<lambda>(sc, seen, queue). length queue]"
    by simp
next
  fix sc :: scope and seen queue :: "string list" and ident :: string
  assume new: "ident \<notin> set seen"
  have "card (universe sc \<union> set (queue @ unblocked sc ident) - set (ident # seen))
        < card (universe sc \<union> set (ident # queue) - set seen)"
    by (rule psubset_card_mono) (use new unblocked_universe [of sc ident] in auto)
  then show "((sc, ident # seen, queue @ unblocked sc ident), sc, seen, ident # queue)
        \<in> measures [\<lambda>(sc, seen, queue). card ((universe sc \<union> set queue) - set seen),
                    \<lambda>(sc, seen, queue). length queue]"
    by simp
qed simp

definition reachable :: "scope \<Rightarrow> string list" where
  "reachable sc = walk sc [] (sc_tops sc)"

text \<open>One round of the loop per child.\<close>

fun promote :: "string list \<Rightarrow> string list \<Rightarrow> scope \<Rightarrow> scope" where
  "promote [] children sc = sc"
| "promote (_ # rounds) children sc =
     (case find (\<lambda>ident. ident \<notin> set (reachable sc)) children of
        None \<Rightarrow> sc
      | Some ident \<Rightarrow> promote rounds children (sc\<lparr>sc_tops := sc_tops sc @ [ident]\<rparr>))"

definition promote_unreached :: "string list \<Rightarrow> scope \<Rightarrow> scope" where
  "promote_unreached children = promote children children"

definition layout :: "model \<Rightarrow> string \<Rightarrow> scope" where
  "layout m container =
     (let children = m_kids m container in
      promote_unreached children
        (fold (layout_step m children) children
           \<lparr>sc_tops = [], sc_deps = [], sc_shared = [], sc_shared_by = []\<rparr>))"

section \<open>What a line shows\<close>

definition external :: "model \<Rightarrow> string \<Rightarrow> string \<Rightarrow> string list" where
  "external m container ident = filter (\<lambda>b. b \<notin> set (m_kids m container)) (m_blockers m ident)"

definition kind :: "model \<Rightarrow> string \<Rightarrow> string" where
  "kind m ident =
     (let s = node_of m ident in
      if attr s attr_type = ''epic'' then ''epic''
      else if attr s attr_card = ''true'' then ''feat''
      else if attr s attr_task = ''true'' then ''task''
      else ''work'')"

definition status :: "model \<Rightarrow> string \<Rightarrow> string" where
  "status m ident =
     (let s = node_of m ident in
      if st_state s \<noteq> state_active then
        (let outcome = attr s attr_outcome in
         if outcome = ''abandoned'' then ''dropped''
         else if outcome = [] then (if st_state s = state_closed then ''done'' else st_state s)
         else outcome)
      else if attr s attr_task = ''true'' then
        (if list_ex (\<lambda>b. st_state (node_of m b) = state_active) (m_blockers m ident) then ''blocked'' else ''ready'')
      else if attr s attr_lane \<noteq> [] then
        (if attr s attr_lane = ''in_review'' then ''review'' else attr s attr_lane)
      else ''ready'')"

definition progress :: "model \<Rightarrow> string \<Rightarrow> nat \<times> nat" where
  "progress m ident = (case map_of (m_counts m) ident of None \<Rightarrow> (0, 0) | Some x \<Rightarrow> x)"

definition group_key :: "string list \<Rightarrow> string" where
  "group_key ids = ''('' @ join '', '' (map (\<lambda>ident. ''`'' @ ident @ ''`'') ids) @ '')''"

section \<open>Options\<close>

text \<open>\<open>resolveFilters\<close>: \<open>Inl True\<close> when \<open>--tasks\<close> is refused, \<open>Inl False\<close> without a root.\<close>

definition resolve_filters :: "export \<Rightarrow> bool \<Rightarrow> bool \<Rightarrow> bool \<Rightarrow> (bool, filters) result" where
  "resolve_filters ex all_opt tasks_opt open_opt =
     (let f = \<lparr>f_all = all_opt, f_tasks = tasks_opt \<or> all_opt, f_open = open_opt\<rparr> in
      case find (\<lambda>s. st_id s = ex_root ex) (ex_strands ex) of
        None \<Rightarrow> Err False
      | Some s \<Rightarrow>
          if attr s attr_type \<noteq> ''epic'' then (if tasks_opt then Err True else Ok (f\<lparr>f_tasks := True\<rparr>))
          else Ok f)"

section \<open>Facts on validation\<close>

lemma validate_attributes_None:
  "validate_attributes strands = None \<longleftrightarrow>
     (\<forall>s \<in> set strands. \<forall>key \<in> set display_attributes. \<forall>v. map_of (st_attributes s) key = Some v \<longrightarrow>
        (\<exists>text. scalar_text v = Some text \<and> allowed_value key text))"
  by (fastforce simp: validate_attributes_def validate_attribute_value_def split: option.splits if_splits)

lemma validate_strands_Ok:
  "validate_strands seen ss = Ok ids \<longleftrightarrow>
     ids = rev (map st_id ss) @ seen \<and> distinct (map st_id ss) \<and> st_id ` set ss \<inter> set seen = {}
     \<and> (\<forall>s \<in> set ss. st_id s \<noteq> [] \<and> st_title s \<noteq> [] \<and> st_created s \<noteq> []
          \<and> st_state s \<in> {state_active, state_closed, state_replaced})"
  by (induction seen ss rule: validate_strands.induct) auto

lemma validate_edges_None:
  "validate_edges relation ids seen es = None \<longleftrightarrow>
     (\<forall>e \<in> set es. e_from e \<noteq> [] \<and> e_to e \<noteq> [] \<and> e_from e \<noteq> e_to e \<and> e_from e \<in> set ids \<and> e_to e \<in> set ids)
     \<and> distinct (map edge_key es) \<and> edge_key ` set es \<inter> set seen = {}"
  by (induction relation ids seen es rule: validate_edges.induct) auto

lemma parent_map_Ok:
  "parent_map parents es = Ok out \<Longrightarrow>
   (\<forall>e \<in> set es. map_of out (e_to e) = Some (e_from e))
   \<and> (\<forall>k v. map_of parents k = Some v \<longrightarrow> map_of out k = Some v)
   \<and> (\<forall>k v. map_of out k = Some v \<longrightarrow> map_of parents k = Some v \<or> (\<exists>e \<in> set es. e_to e = k \<and> e_from e = v))"
proof (induction parents es rule: parent_map.induct)
  case (2 parents e es)
  have upd: "map_of (AList.update (e_to e) (e_from e) parents) = (map_of parents)(e_to e \<mapsto> e_from e)"
    by (simp add: update_conv')
  have old: "map_of parents (e_to e) \<in> {None, Some (e_from e)}"
    and rest: "parent_map (AList.update (e_to e) (e_from e) parents) es = Ok out"
    using 2(3) by (auto split: option.splits if_splits)
  have IH: "(\<forall>e \<in> set es. map_of out (e_to e) = Some (e_from e))"
    "\<forall>k v. ((map_of parents)(e_to e \<mapsto> e_from e)) k = Some v \<longrightarrow> map_of out k = Some v"
    "\<forall>k v. map_of out k = Some v \<longrightarrow> ((map_of parents)(e_to e \<mapsto> e_from e)) k = Some v
        \<or> (\<exists>e \<in> set es. e_to e = k \<and> e_from e = v)"
    using 2(1,2) old rest unfolding upd [symmetric] by (cases "map_of parents (e_to e)"; simp; fail)+
  have this_edge: "map_of out (e_to e) = Some (e_from e)" using IH(2) by simp
  show ?case
  proof (intro conjI ballI allI impI)
    fix k v assume "map_of parents k = Some v"
    with old IH(2) this_edge show "map_of out k = Some v" by (cases "k = e_to e") auto
  next
    fix k v assume "map_of out k = Some v"
    with IH(3) [rule_format, of k v] this_edge show "map_of parents k = Some v \<or> (\<exists>x \<in> set (e # es). e_to x = k \<and> e_from x = v)"
      by (cases "k = e_to e") auto
  qed (use IH(1) this_edge in auto)
qed simp

lemma parent_map_Err: "parent_map parents es = Err e \<Longrightarrow>
   (\<forall>k v. map_of parents k = Some v \<longrightarrow> P k v) \<Longrightarrow> (\<forall>e \<in> set es. P (e_to e) (e_from e)) \<Longrightarrow>
   \<exists>k v w. P k v \<and> P k w \<and> v \<noteq> w"
proof (induction parents es rule: parent_map.induct)
  case (2 parents x es)
  have upd: "\<forall>k v. map_of (AList.update (e_to x) (e_from x) parents) k = Some v \<longrightarrow> P k v"
    using 2(4,5) by (auto simp: update_conv' split: if_splits)
  show ?case
  proof (cases "map_of parents (e_to x)")
    case None
    with 2(1) [OF None] 2(3,5) upd show ?thesis by simp
  next
    case (Some p)
    show ?thesis
    proof (cases "p = e_from x")
      case True
      with 2(2) [OF Some] 2(3,5) upd Some show ?thesis by simp
    next
      case False
      with Some 2(4,5) show ?thesis by auto
    qed
  qed
qed simp

definition parent_relation :: "edge list \<Rightarrow> (string \<times> string) set" where
  "parent_relation es = {(e_to e, e_from e) | e. e \<in> set es}"

lemma parent_relation_image: "parent_relation es = (\<lambda>e. (e_to e, e_from e)) ` set es"
  by (auto simp: parent_relation_def)

definition up :: "(string \<times> string) list \<Rightarrow> (string \<times> string) set" where
  "up parents = {(a, b). map_of parents a = Some b}"

lemma up_iff [simp]: "(a, b) \<in> up parents \<longleftrightarrow> map_of parents a = Some b"
  by (simp add: up_def)

lemma Domain_up: "Domain (up parents) = fst ` set parents"
  by (simp add: Domain_unfold up_def dom_map_of_conv_image_fst [symmetric] dom_def)

text \<open>The loop ends without a finding exactly when the chain of parents does not come back.\<close>

lemma parent_cycle_spec:
  assumes nb: "\<forall>k v. map_of parents k = Some v \<longrightarrow> k \<noteq> [] \<and> v \<noteq> []"
  shows "(\<forall>x \<in> set seen. (x, current) \<in> (up parents)\<^sup>+) \<or> current = [] \<Longrightarrow>
         parent_cycle parents seen current = Some e \<Longrightarrow> \<exists>n. (n, n) \<in> (up parents)\<^sup>+"
proof (induction parents seen current rule: parent_cycle.induct)
  case (1 parents seen current)
  let ?R = "(up parents)"
  show ?case
  proof (cases "current = [] \<or> current \<in> set seen")
    case True
    with 1(2,3) show ?thesis by (auto simp: parent_cycle.simps [of parents seen current])
  next
    case False
    have next_ok: "(\<forall>x \<in> set (current # seen). (x, parent_of parents current) \<in> ?R\<^sup>+) \<or> parent_of parents current = []"
    proof (cases "map_of parents current")
      case (Some p)
      then have "(current, p) \<in> ?R" "parent_of parents current = p" by (simp_all add: parent_of_def)
      with 1(2) False show ?thesis by (auto intro: r_into_trancl trancl_into_trancl)
    qed (simp add: parent_of_def)
    with 1(1) False 1(3) show ?thesis by (simp add: parent_cycle.simps [of parents seen current])
  qed
qed

lemma parent_cycle_None:
  assumes nb: "\<forall>k v. map_of parents k = Some v \<longrightarrow> k \<noteq> []"
  shows "parent_cycle parents seen current = None \<Longrightarrow>
         (current, x) \<in> (up parents)\<^sup>* \<Longrightarrow> (x, x) \<notin> (up parents)\<^sup>+"
  using nb
proof (induction parents seen current rule: parent_cycle.induct)
  case (1 parents seen current)
  let ?R = "(up parents)"
  show ?case
  proof (cases "map_of parents current")
    case None
    then have stuck: "(current, y) \<notin> ?R" for y by simp
    with 1(3) have "x = current" by (metis converse_rtranclE)
    with stuck show ?thesis by (meson tranclD)
  next
    case (Some p)
    with 1(4) have ne: "current \<noteq> []" by blast
    have p: "parent_of parents current = p" using Some by (simp add: parent_of_def)
    have new: "current \<notin> set seen" "parent_cycle parents (current # seen) p = None"
      using 1(2) ne p by (auto simp: parent_cycle.simps [of parents seen current] split: if_splits)
    note IH = 1(1) [OF ne new(1), unfolded p, OF new(2) _ 1(4)]
    show ?thesis
    proof (cases "x = current")
      case True
      show ?thesis
      proof
        assume cyc: "(x, x) \<in> ?R\<^sup>+"
        then obtain q where "(x, q) \<in> ?R" "(q, x) \<in> ?R\<^sup>*" by (meson tranclD)
        with True Some have "(p, x) \<in> ?R\<^sup>*" by simp
        with IH cyc show False by blast
      qed
    next
      case False
      from 1(3) show ?thesis
      proof (cases rule: converse_rtranclE)
        case base
        with False show ?thesis by simp
      next
        case (step q)
        with Some have "(p, x) \<in> ?R\<^sup>*" by simp
        with IH show ?thesis by blast
      qed
    qed
  qed
qed

lemma validate_parents_None:
  assumes nb: "\<forall>e \<in> set es. e_from e \<noteq> [] \<and> e_to e \<noteq> []"
  shows "validate_parents es = None \<longleftrightarrow> single_valued (parent_relation es) \<and> acyclic (parent_relation es)"
proof (cases "parent_map [] es")
  case (Inl e)
  have "\<exists>k v w. (k, v) \<in> parent_relation es \<and> (k, w) \<in> parent_relation es \<and> v \<noteq> w"
    by (rule parent_map_Err [OF Inl]) (auto simp: parent_relation_def)
  then have "\<not> single_valued (parent_relation es)" by (auto simp: single_valued_def)
  with Inl show ?thesis by (simp add: validate_parents_def)
next
  case (Inr parents)
  let ?R = "(up parents)"
  have R: "parent_relation es = ?R"
    using parent_map_Ok [OF Inr] by (auto simp: parent_relation_def) metis
  have sv: "single_valued ?R" by (auto simp: single_valued_def)
  have nb': "\<forall>k v. map_of parents k = Some v \<longrightarrow> k \<noteq> [] \<and> v \<noteq> []"
    using parent_map_Ok [OF Inr] nb by fastforce
  have "(\<forall>k \<in> set (map fst parents). parent_cycle parents [] k = None) \<longleftrightarrow> acyclic ?R"
  proof
    assume all: "\<forall>k \<in> set (map fst parents). parent_cycle parents [] k = None"
    show "acyclic ?R"
      unfolding acyclic_def
    proof (rule allI, rule notI)
      fix x assume c: "(x, x) \<in> ?R\<^sup>+"
      then obtain y where "(x, y) \<in> ?R" by (meson tranclD)
      then have "x \<in> set (map fst parents)" by (auto dest!: map_of_SomeD intro: rev_image_eqI)
      with all have "parent_cycle parents [] x = None" by blast
      from parent_cycle_None [OF _ this rtrancl_refl] nb' c show False by blast
    qed
  next
    assume "acyclic ?R"
    then have "parent_cycle parents [] k = None" for k
      using parent_cycle_spec [OF nb', of "[]" k] by (cases "parent_cycle parents [] k") (auto simp: acyclic_def)
    then show "\<forall>k \<in> set (map fst parents). parent_cycle parents [] k = None" by blast
  qed
  then show ?thesis
    unfolding R using sv by (simp add: validate_parents_def Inr)
qed

section \<open>Facts on the layout\<close>

lemma walk_seen: "set seen \<subseteq> set (walk sc seen queue)"
  by (induction sc seen queue rule: walk.induct) auto

lemma walk_queue: "set queue \<subseteq> set (walk sc seen queue)"
proof (induction sc seen queue rule: walk.induct)
  case (2 sc seen ident queue)
  then show ?case using walk_seen [of seen sc queue] walk_seen [of "ident # seen" sc "queue @ unblocked sc ident"]
    by auto
qed simp

lemma walk_mono_closed:
  "(\<forall>x \<in> set seen. set (unblocked sc x) \<subseteq> set seen \<union> set queue) \<Longrightarrow>
   x \<in> set (walk sc seen queue) \<Longrightarrow> set (unblocked sc x) \<subseteq> set (walk sc seen queue)"
proof (induction sc seen queue rule: walk.induct)
  case (2 sc seen ident queue)
  show ?case
  proof (cases "ident \<in> set seen")
    case True
    with 2 show ?thesis by auto
  next
    case False
    have "\<forall>y \<in> set (ident # seen). set (unblocked sc y) \<subseteq> set (ident # seen) \<union> set (queue @ unblocked sc ident)"
      using 2(3) by auto
    from 2(2) [OF False this] 2(4) False show ?thesis by simp
  qed
qed auto

lemma walk_sound:
  "set seen \<union> set queue \<subseteq> A \<Longrightarrow> (\<And>x. x \<in> A \<Longrightarrow> set (unblocked sc x) \<subseteq> A) \<Longrightarrow> set (walk sc seen queue) \<subseteq> A"
  by (induction sc seen queue rule: walk.induct) auto

lemma reachable_tops: "set (sc_tops sc) \<subseteq> set (reachable sc)"
  by (simp add: reachable_def walk_queue)

lemma reachable_closed: "x \<in> set (reachable sc) \<Longrightarrow> set (unblocked sc x) \<subseteq> set (reachable sc)"
  unfolding reachable_def by (rule walk_mono_closed) simp

lemma unblocked_tops [simp]: "unblocked (sc\<lparr>sc_tops := ts\<rparr>) = unblocked sc"
  by (simp add: unblocked_def fun_eq_iff)

lemma reachable_snoc: "insert ident (set (reachable sc)) \<subseteq> set (reachable (sc\<lparr>sc_tops := sc_tops sc @ [ident]\<rparr>))"
proof -
  let ?sc = "sc\<lparr>sc_tops := sc_tops sc @ [ident]\<rparr>"
  have t: "set (sc_tops sc) \<subseteq> set (reachable ?sc)" "ident \<in> set (reachable ?sc)"
    using reachable_tops [of ?sc] by auto
  have "set (reachable sc) \<subseteq> set (reachable ?sc)"
    unfolding reachable_def [of sc]
    by (rule walk_sound) (use t reachable_closed [of _ ?sc] in auto)
  with t show ?thesis by simp
qed

text \<open>Each round either finds every child reachable or makes one more so.\<close>

lemma promote_reaches:
  "length (filter (\<lambda>ident. ident \<notin> set (reachable sc)) children) \<le> length rounds \<Longrightarrow>
   set children \<subseteq> set (reachable (promote rounds children sc))"
proof (induction rounds children sc rule: promote.induct)
  case (1 children sc)
  then show ?case by (auto simp: filter_empty_conv)
next
  case (2 r rounds children sc)
  show ?case
  proof (cases "find (\<lambda>ident. ident \<notin> set (reachable sc)) children")
    case None
    then have "set children \<subseteq> set (reachable sc)" by (auto simp: find_None_iff)
    then show ?thesis by (simp add: None)
  next
    case (Some ident)
    let ?sc = "sc\<lparr>sc_tops := sc_tops sc @ [ident]\<rparr>"
    have i: "ident \<in> set children" "ident \<notin> set (reachable sc)"
      using Some by (auto simp: find_Some_iff)
    have "length (filter (\<lambda>x. x \<notin> set (reachable ?sc)) children)
          < length (filter (\<lambda>x. x \<notin> set (reachable sc)) children)"
    proof -
      have "filter (\<lambda>x. x \<notin> set (reachable ?sc)) children =
            filter (\<lambda>x. x \<notin> set (reachable ?sc)) (filter (\<lambda>x. x \<notin> set (reachable sc)) children)"
        using reachable_snoc [of ident sc] by (induction children) auto
      moreover have "length (filter (\<lambda>x. x \<notin> set (reachable ?sc)) (filter (\<lambda>x. x \<notin> set (reachable sc)) children))
                     < length (filter (\<lambda>x. x \<notin> set (reachable sc)) children)"
        using i reachable_snoc [of ident sc] by (intro length_filter_less [of ident]) auto
      ultimately show ?thesis by simp
    qed
    with 2(2) have "length (filter (\<lambda>x. x \<notin> set (reachable ?sc)) children) \<le> length rounds" by simp
    from 2(1) [OF Some this] Some show ?thesis by simp
  qed
qed

lemma promote_unreached_reaches: "set children \<subseteq> set (reachable (promote_unreached children sc))"
  unfolding promote_unreached_def by (rule promote_reaches) simp

lemma layout_step_universe:
  "set siblings \<supseteq> A \<Longrightarrow> set (sc_tops sc) \<union> universe sc \<subseteq> A \<Longrightarrow> ident \<in> A \<Longrightarrow>
   set (sc_tops (layout_step m siblings ident sc)) \<union> universe (layout_step m siblings ident sc) \<subseteq> A"
proof -
  assume old: "set (sc_tops sc) \<union> universe sc \<subseteq> A" and i: "ident \<in> A"
  have old_vs: "set vs \<subseteq> A" if "(b, vs) \<in> set (sc_deps sc)" for b vs
  proof -
    have "set vs \<in> set ` snd ` set (sc_deps sc)" using that by force
    then show ?thesis using old unfolding universe_def by blast
  qed
  have ent: "set (entries (sc_deps sc) b) \<subseteq> A" for b
    using old_vs map_of_SomeD [of "sc_deps sc" b] by (cases "map_of (sc_deps sc) b") (auto simp: entries_def)
  have push: "set vs \<subseteq> A" if "(k, vs) \<in> set (push b ident (sc_deps sc))" for b k vs
  proof -
    have "(k, vs) = (b, entries (sc_deps sc) b @ [ident]) \<or> (k, vs) \<in> set (sc_deps sc)"
      using subsetD [OF set_update_subset that [unfolded push_def]] by (simp only: insert_iff)
    with ent [of b] old_vs [of k vs] i show ?thesis by auto
  qed
  have "universe (sc\<lparr>sc_deps := push b ident (sc_deps sc)\<rparr>) \<subseteq> A" for b
  proof -
    have "\<Union> (set ` snd ` set (push b ident (sc_deps sc))) \<subseteq> A" using push [of _ _ b] by fastforce
    then show ?thesis using old by (auto simp: universe_def)
  qed
  moreover have "universe (sc\<lparr>sc_shared := sc_shared sc @ [(within, ident)], sc_shared_by := x\<rparr>) \<subseteq> A" for within x
    using old i by (auto simp: universe_def)
  moreover have "universe (sc\<lparr>sc_tops := x\<rparr>) = universe sc" for x by (simp add: universe_def)
  ultimately show ?thesis
    using old i by (auto simp: layout_step_def split: list.splits)
qed

lemma promote_tops:
  "set children \<supseteq> set (sc_tops sc) \<Longrightarrow> set children \<supseteq> set (sc_tops (promote rounds children sc))
     \<and> universe (promote rounds children sc) = universe sc"
proof (induction rounds children sc rule: promote.induct)
  case (2 r rounds children sc)
  show ?case
  proof (cases "find (\<lambda>ident. ident \<notin> set (reachable sc)) children")
    case (Some ident)
    then have "ident \<in> set children" by (auto simp: find_Some_iff)
    with 2 Some show ?thesis by (simp add: universe_def)
  qed (use 2 in simp)
qed simp

lemma layout_within: "set (reachable (layout m container)) \<subseteq> set (m_kids m container)"
proof -
  let ?cs = "m_kids m container"
  let ?sc0 = "\<lparr>sc_tops = [], sc_deps = [], sc_shared = [], sc_shared_by = []\<rparr>"
  have fold: "set (sc_tops (fold (layout_step m ?cs) ids sc)) \<union> universe (fold (layout_step m ?cs) ids sc) \<subseteq> set ?cs"
    if "set ids \<subseteq> set ?cs" "set (sc_tops sc) \<union> universe sc \<subseteq> set ?cs" for ids sc
    using that
  proof (induction ids arbitrary: sc)
    case (Cons a ids)
    have "set (sc_tops (layout_step m ?cs a sc)) \<union> universe (layout_step m ?cs a sc) \<subseteq> set ?cs"
      by (rule layout_step_universe) (use Cons.prems in auto)
    with Cons show ?case by simp
  qed simp
  have start: "set (sc_tops ?sc0) \<union> universe ?sc0 \<subseteq> set ?cs" by (simp add: universe_def)
  let ?sc = "fold (layout_step m ?cs) ?cs ?sc0"
  have mid: "set (sc_tops ?sc) \<subseteq> set ?cs" "universe ?sc \<subseteq> set ?cs"
    using fold [OF subset_refl start] by auto
  have fin: "set (sc_tops (layout m container)) \<subseteq> set ?cs" "universe (layout m container) \<subseteq> set ?cs"
    using promote_tops [OF mid(1), of ?cs] mid(2) by (auto simp: layout_def promote_unreached_def Let_def)
  show ?thesis
    unfolding reachable_def
    by (rule walk_sound) (use fin unblocked_universe [of "layout m container"] in auto)
qed

lemma layout_reaches: "set (reachable (layout m container)) = set (m_kids m container)"
  using layout_within promote_unreached_reaches by (force simp: layout_def Let_def)

section \<open>Facts on the ancestors\<close>

lemma walk_up_sub: "x \<in> set (walk_up k parents c) \<Longrightarrow> (c, x) \<in> (up parents)\<^sup>*"
proof (induction k arbitrary: c)
  case (Suc k)
  show ?case
  proof (cases "x = c")
    case False
    with Suc.prems have w: "x \<in> set (walk_up k parents (parent_of parents c))" by (auto split: if_splits)
    show ?thesis
    proof (cases "map_of parents c")
      case None
      with w show ?thesis by (cases k) (auto simp: parent_of_def)
    next
      case (Some p)
      with w Suc.IH [of p] have "(p, x) \<in> (up parents)\<^sup>*" by (simp add: parent_of_def)
      with Some show ?thesis by (simp add: converse_rtrancl_into_rtrancl)
    qed
  qed simp
qed simp

lemma walk_up_later: "walk_up k parents c = xs @ a # ys \<Longrightarrow> d \<in> set ys \<Longrightarrow> (a, d) \<in> (up parents)\<^sup>+"
proof (induction k arbitrary: c xs)
  case (Suc k)
  have ne: "c \<noteq> []" using Suc.prems(1) by (cases "c = []") auto
  then have w: "c # walk_up k parents (parent_of parents c) = xs @ a # ys" using Suc.prems(1) by simp
  show ?case
  proof (cases xs)
    case Nil
    with w have a: "a = c" and d: "d \<in> set (walk_up k parents (parent_of parents c))" using Suc.prems(2) by auto
    show ?thesis
    proof (cases "map_of parents c")
      case None
      with d show ?thesis by (cases k) (auto simp: parent_of_def)
    next
      case (Some p)
      with d have "(p, d) \<in> (up parents)\<^sup>*" by (intro walk_up_sub) (simp add: parent_of_def)
      with Some a show ?thesis by (simp add: rtrancl_into_trancl2)
    qed
  next
    case (Cons y zs)
    with w have "walk_up k parents (parent_of parents c) = zs @ a # ys" by auto
    from Suc.IH [OF this Suc.prems(2)] show ?thesis .
  qed
qed simp

lemma walk_up_distinct: "acyclic (up parents) \<Longrightarrow> distinct (walk_up k parents c)"
proof (induction k arbitrary: c)
  case (Suc k)
  show ?case
  proof (cases "c = []")
    case False
    have "c \<notin> set (walk_up k parents (parent_of parents c))"
    proof
      assume "c \<in> set (walk_up k parents (parent_of parents c))"
      then obtain xs ys where "walk_up k parents (parent_of parents c) = xs @ c # ys" by (meson split_list)
      then have "walk_up (Suc k) parents c = [] @ c # (xs @ c # ys)" using False by simp
      from walk_up_later [OF this, of c] Suc.prems show False by (auto simp: acyclic_def)
    qed
    with Suc show ?thesis by simp
  qed simp
qed simp

lemma walk_up_short:
  assumes nb: "\<forall>k v. map_of parents k = Some v \<longrightarrow> k \<noteq> [] \<and> v \<noteq> []"
  shows "(c, x) \<in> (up parents)\<^sup>* \<Longrightarrow> c \<noteq> [] \<Longrightarrow> x \<notin> set (walk_up k parents c) \<Longrightarrow>
         length (walk_up k parents c) = k \<and> set (walk_up k parents c) \<subseteq> fst ` set parents"
proof (induction k arbitrary: c)
  case (Suc k)
  from Suc.prems have "x \<noteq> c" by auto
  with Suc.prems(1) obtain p where p: "map_of parents c = Some p" "(p, x) \<in> (up parents)\<^sup>*"
    by (metis converse_rtranclE up_iff)
  have "p \<noteq> []" using nb p(1) by blast
  moreover have "x \<notin> set (walk_up k parents p)" using Suc.prems(2,3) p(1) by (simp add: parent_of_def)
  ultimately have "length (walk_up k parents p) = k \<and> set (walk_up k parents p) \<subseteq> fst ` set parents"
    using Suc.IH p(2) by blast
  moreover have "c \<in> fst ` set parents" using p(1) by (auto dest!: map_of_SomeD intro: rev_image_eqI)
  ultimately show ?case using Suc.prems(2) p(1) by (simp add: parent_of_def)
qed simp

text \<open>Within as many steps as the map has keys the loop meets every ancestor.\<close>

lemma walk_up_complete:
  assumes nb: "\<forall>k v. map_of parents k = Some v \<longrightarrow> k \<noteq> [] \<and> v \<noteq> []" and ac: "acyclic (up parents)"
    and "(c, x) \<in> (up parents)\<^sup>*" and "c \<noteq> []" and big: "card (fst ` set parents) < k"
  shows "x \<in> set (walk_up k parents c)"
proof (rule ccontr)
  assume "x \<notin> set (walk_up k parents c)"
  from walk_up_short [OF nb assms(3,4) this]
  have "length (walk_up k parents c) = k" "set (walk_up k parents c) \<subseteq> fst ` set parents" by auto
  then have "k \<le> card (fst ` set parents)"
    using walk_up_distinct [OF ac, of k c] by (metis card_mono distinct_card finite_imageI finite_set)
  with big show False by simp
qed

lemma walk_ancestors:
  assumes nb: "\<forall>k v. map_of parents k = Some v \<longrightarrow> k \<noteq> [] \<and> v \<noteq> []" and ac: "acyclic (up parents)"
  shows "x \<in> set (walk_up (Suc (length parents)) parents (parent_of parents ident)) \<longleftrightarrow> (ident, x) \<in> (up parents)\<^sup>+"
    (is "x \<in> set ?w \<longleftrightarrow> _")
proof (cases "map_of parents ident")
  case None
  then have "(ident, x) \<notin> (up parents)\<^sup>+" by (metis option.distinct(1) tranclD up_iff)
  with None show ?thesis by (simp add: parent_of_def)
next
  case (Some p)
  then have p: "parent_of parents ident = p" "p \<noteq> []" using nb by (auto simp: parent_of_def)
  have "(ident, x) \<in> (up parents)\<^sup>+ \<longleftrightarrow> (p, x) \<in> (up parents)\<^sup>*"
    using Some by (metis option.inject rtrancl_into_trancl2 tranclD up_iff)
  moreover have "card (fst ` set parents) < Suc (length parents)"
    using card_length [of "map fst parents"] by simp
  then have "x \<in> set ?w \<longleftrightarrow> (p, x) \<in> (up parents)\<^sup>*"
    using walk_up_sub [of x "Suc (length parents)" parents p] walk_up_complete [OF nb ac _ p(2), of x "Suc (length parents)"]
    by (auto simp: p(1) simp del: walk_up.simps)
  ultimately show ?thesis by blast
qed

lemma nearest_kept_spec:
  assumes nb: "\<forall>k v. map_of parents k = Some v \<longrightarrow> k \<noteq> [] \<and> v \<noteq> []" and ac: "acyclic (up parents)"
  shows "nearest_kept ident parents keep = Some c \<longleftrightarrow>
           c \<in> fst ` set keep \<and> (ident, c) \<in> (up parents)\<^sup>+
           \<and> (\<forall>d \<in> fst ` set keep. (ident, d) \<in> (up parents)\<^sup>+ \<longrightarrow> d = c \<or> (c, d) \<in> (up parents)\<^sup>+)"
proof -
  let ?w = "walk_up (Suc (length parents)) parents (parent_of parents ident)"
  note mem = walk_ancestors [OF nb ac, of _ ident]
  show ?thesis
  proof
    assume "nearest_kept ident parents keep = Some c"
    then obtain i where i: "i < length ?w" "?w ! i \<in> fst ` set keep" "c = ?w ! i" "\<forall>j < i. ?w ! j \<notin> fst ` set keep"
      unfolding nearest_kept_def find_Some_iff by blast
    have split: "?w = take i ?w @ c # drop (Suc i) ?w" using i by (simp add: id_take_nth_drop)
    have early: "d \<notin> fst ` set keep" if "d \<in> set (take i ?w)" for d
      using that i(1,4) nth_image [of i ?w, symmetric] by (auto simp del: walk_up.simps)
    have "d = c \<or> (c, d) \<in> (up parents)\<^sup>+" if "d \<in> fst ` set keep" "(ident, d) \<in> (up parents)\<^sup>+" for d
    proof -
      have "d \<in> set ?w" using that(2) mem by blast
      then have "d \<in> set (take i ?w) \<or> d = c \<or> d \<in> set (drop (Suc i) ?w)"
        by (subst (asm) split) auto
      with early that(1) walk_up_later [OF split] show ?thesis by blast
    qed
    moreover have "(ident, c) \<in> (up parents)\<^sup>+" using i mem nth_mem by blast
    ultimately show "c \<in> fst ` set keep \<and> (ident, c) \<in> (up parents)\<^sup>+
        \<and> (\<forall>d \<in> fst ` set keep. (ident, d) \<in> (up parents)\<^sup>+ \<longrightarrow> d = c \<or> (c, d) \<in> (up parents)\<^sup>+)"
      using i by auto
  next
    assume r: "c \<in> fst ` set keep \<and> (ident, c) \<in> (up parents)\<^sup>+
        \<and> (\<forall>d \<in> fst ` set keep. (ident, d) \<in> (up parents)\<^sup>+ \<longrightarrow> d = c \<or> (c, d) \<in> (up parents)\<^sup>+)"
    then have "nearest_kept ident parents keep \<noteq> None"
      unfolding nearest_kept_def find_None_iff using mem by blast
    then obtain d where d: "nearest_kept ident parents keep = Some d" by blast
    then obtain i where i: "i < length ?w" "?w ! i \<in> fst ` set keep" "d = ?w ! i" "\<forall>j < i. ?w ! j \<notin> fst ` set keep"
      unfolding nearest_kept_def find_Some_iff by blast
    have split: "?w = take i ?w @ d # drop (Suc i) ?w" using i by (simp add: id_take_nth_drop)
    have "d = c"
    proof (rule ccontr)
      assume ne: "d \<noteq> c"
      have "(ident, d) \<in> (up parents)\<^sup>+" using i mem nth_mem by blast
      with r i ne have cd: "(c, d) \<in> (up parents)\<^sup>+" by auto
      have "c \<in> set ?w" using r mem by blast
      then have "c \<in> set (take i ?w) \<or> c \<in> set (drop (Suc i) ?w)"
        using ne by (subst (asm) split) auto
      moreover have "c \<notin> set (take i ?w)"
      proof
        assume "c \<in> set (take i ?w)"
        then have "c \<in> (!) ?w ` {0..<i}" using nth_image [of i ?w] i(1) by simp
        then obtain j where j: "j < i" "c = ?w ! j" unfolding image_iff by (metis atLeastLessThan_iff)
        have "?w ! j \<notin> fst ` set keep" using i(4) j(1) by blast
        with conjunct1 [OF r] show False by (simp only: j(2))
      qed
      ultimately have "(d, c) \<in> (up parents)\<^sup>+" using walk_up_later [OF split] by blast
      with cd ac show False by (meson acyclic_def trancl_trans)
    qed
    with d show "nearest_kept ident parents keep = Some c" by simp
  qed
qed

section \<open>Facts on the model\<close>

lemma fold_parents:
  "(\<forall>e \<in> set es. e_from e \<noteq> e_to e) \<Longrightarrow>
   let out = fold (\<lambda>e. if e_from e \<noteq> e_to e then AList.update (e_to e) (e_from e) else (\<lambda>x. x)) es ps
   in (\<forall>e \<in> set es. map_of out (e_to e) \<noteq> None)
      \<and> (\<forall>k. map_of ps k \<noteq> None \<longrightarrow> map_of out k \<noteq> None)
      \<and> (\<forall>k v. map_of out k = Some v \<longrightarrow> map_of ps k = Some v \<or> (k, v) \<in> parent_relation es)"
proof (induction es arbitrary: ps)
  case (Cons e es)
  let ?ps = "AList.update (e_to e) (e_from e) ps"
  have u: "map_of ?ps = (map_of ps)(e_to e \<mapsto> e_from e)" by (rule update_conv')
  have r: "parent_relation (e # es) = insert (e_to e, e_from e) (parent_relation es)"
    by (auto simp: parent_relation_def)
  from Cons.IH [of ?ps] Cons.prems show ?case
    unfolding Let_def u r by (auto split: if_splits)
qed (simp add: Let_def)

lemma parents_relation:
  assumes sv: "single_valued (parent_relation es)" and ne: "\<forall>e \<in> set es. e_from e \<noteq> e_to e"
  shows "up (parents_of es) = parent_relation es"
proof -
  have f: "\<forall>e \<in> set es. map_of (parents_of es) (e_to e) \<noteq> None"
    "\<And>k v. map_of (parents_of es) k = Some v \<Longrightarrow> (k, v) \<in> parent_relation es"
    using fold_parents [OF ne, of "[]"] unfolding Let_def parents_of_def by auto
  have g: "map_of (parents_of es) k = Some v" if kv: "(k, v) \<in> parent_relation es" for k v
  proof -
    obtain e where "e \<in> set es" "e_to e = k" using kv unfolding parent_relation_def by blast
    with f(1) obtain w where w: "map_of (parents_of es) k = Some w" by auto
    with f(2) [OF w] sv kv show ?thesis by (metis single_valuedD)
  qed
  show ?thesis by (intro equalityI subrelI) (rule f(2), simp, simp only: up_iff g)
qed

lemma all_strands_distinct:
  "distinct (map st_id strands) \<Longrightarrow> all_strands strands = map (\<lambda>s. (st_id s, s)) strands"
  using fold_update_distinct [of st_id strands "[]" "\<lambda>s. s"] by (simp add: all_strands_def)

lemma build_simps:
  assumes "build ex f = Ok m" and "distinct (map st_id (ex_strands ex))"
  shows "m_root m = ex_root ex"
    and "m_nodes m = keep_strands f (ex_root ex) (all_strands (ex_strands ex)) (parents_of (ex_parent_of ex))"
    and "set (m_kids m c) = {ident \<in> fst ` set (m_nodes m). ident \<noteq> m_root m
           \<and> nearest_kept ident (parents_of (ex_parent_of ex)) (m_nodes m) = Some c}"
    and "ex_root ex \<in> st_id ` set (ex_strands ex)"
proof -
  obtain root where root: "map_of (all_strands (ex_strands ex)) (ex_root ex) = Some root"
    using assms(1) unfolding build_def Let_def by (auto split: option.splits)
  then have "(ex_root ex, root) \<in> (\<lambda>s. (st_id s, s)) ` set (ex_strands ex)"
    using map_of_SomeD [OF root] all_strands_distinct [OF assms(2)] by simp
  then have r: "st_id root = ex_root ex" "ex_root ex \<in> st_id ` set (ex_strands ex)" by auto
  note m = assms(1) [unfolded build_def Let_def root option.case sum.inject, symmetric, unfolded r(1)]
  show "m_root m = ex_root ex" by (simp add: m)
  show n: "m_nodes m = keep_strands f (ex_root ex) (all_strands (ex_strands ex)) (parents_of (ex_parent_of ex))"
    by (simp add: m)
  show "set (m_kids m c) = {ident \<in> fst ` set (m_nodes m). ident \<noteq> m_root m
           \<and> nearest_kept ident (parents_of (ex_parent_of ex)) (m_nodes m) = Some c}"
    by (auto simp: m sort_ids_def)
  show "ex_root ex \<in> st_id ` set (ex_strands ex)" by (rule r(2))
qed

lemma keep_sub: "set (keep_strands f root every parents) \<subseteq> set every"
  by (auto simp: keep_strands_def prune_closed_def Let_def)

lemma root_kept: "root \<in> fst ` set every \<Longrightarrow> root \<in> fst ` set (keep_strands f root every parents)"
  by (force simp: keep_strands_def prune_closed_def Let_def)

section \<open>Facts on validated exports\<close>

lemma validate_export_None:
  "validate_export ex = None \<longleftrightarrow>
     distinct (map st_id (ex_strands ex))
     \<and> list_all (\<lambda>s. st_id s \<noteq> [] \<and> st_title s \<noteq> [] \<and> st_created s \<noteq> []
                    \<and> st_state s \<in> {state_active, state_closed, state_replaced}) (ex_strands ex)
     \<and> ex_root ex \<in> st_id ` set (ex_strands ex)
     \<and> list_all (\<lambda>es. distinct (map edge_key es)
                    \<and> list_all (\<lambda>e. e_from e \<noteq> [] \<and> e_to e \<noteq> [] \<and> e_from e \<noteq> e_to e
                         \<and> {e_from e, e_to e} \<subseteq> st_id ` set (ex_strands ex)) es) [ex_parent_of ex, ex_depends_on ex]
     \<and> single_valued (parent_relation (ex_parent_of ex)) \<and> acyclic (parent_relation (ex_parent_of ex))
     \<and> list_all (\<lambda>s. list_all (\<lambda>key. case map_of (st_attributes s) key of None \<Rightarrow> True
                    | Some v \<Rightarrow> (case scalar_text v of None \<Rightarrow> False | Some text \<Rightarrow> allowed_value key text))
                    display_attributes) (ex_strands ex)"
proof (cases "validate_strands [] (ex_strands ex)")
  case (Inl e)
  then have "\<not> (distinct (map st_id (ex_strands ex))
      \<and> (\<forall>s \<in> set (ex_strands ex). st_id s \<noteq> [] \<and> st_title s \<noteq> [] \<and> st_created s \<noteq> []
           \<and> st_state s \<in> {state_active, state_closed, state_replaced}))"
    using validate_strands_Ok [of "[]" "ex_strands ex" "rev (map st_id (ex_strands ex)) @ []"] by simp
  moreover have "validate_export ex \<noteq> None" by (simp add: validate_export_def Inl)
  ultimately show ?thesis unfolding list_all_iff by blast
next
  case (Inr ids)
  then have ids: "set ids = st_id ` set (ex_strands ex)" and ok: "distinct (map st_id (ex_strands ex))"
    "\<forall>s \<in> set (ex_strands ex). st_id s \<noteq> [] \<and> st_title s \<noteq> [] \<and> st_created s \<noteq> []
       \<and> st_state s \<in> {state_active, state_closed, state_replaced}"
    by (auto simp: validate_strands_Ok)
  have edges: "validate_edges relation ids [] es = None \<longleftrightarrow> distinct (map edge_key es)
      \<and> list_all (\<lambda>e. e_from e \<noteq> [] \<and> e_to e \<noteq> [] \<and> e_from e \<noteq> e_to e
                    \<and> {e_from e, e_to e} \<subseteq> st_id ` set (ex_strands ex)) es" for relation es
    unfolding validate_edges_None list_all_iff ids by auto
  have attrs: "validate_attributes (ex_strands ex) = None \<longleftrightarrow>
      list_all (\<lambda>s. list_all (\<lambda>key. case map_of (st_attributes s) key of None \<Rightarrow> True
                    | Some v \<Rightarrow> (case scalar_text v of None \<Rightarrow> False | Some text \<Rightarrow> allowed_value key text))
                    display_attributes) (ex_strands ex)"
    unfolding validate_attributes_None list_all_iff by (fastforce split: option.splits)
  have parents: "validate_parents (ex_parent_of ex) = None \<longleftrightarrow>
      single_valued (parent_relation (ex_parent_of ex)) \<and> acyclic (parent_relation (ex_parent_of ex))"
    if "validate_edges ''parent-of'' ids [] (ex_parent_of ex) = None"
    using that validate_parents_None [of "ex_parent_of ex"] unfolding edges list_all_iff by blast
  have ok': "list_all (\<lambda>s. st_id s \<noteq> [] \<and> st_title s \<noteq> [] \<and> st_created s \<noteq> []
                    \<and> st_state s \<in> {state_active, state_closed, state_replaced}) (ex_strands ex)"
    using ok(2) by (simp add: list_all_iff)
  have "validate_export ex = None \<longleftrightarrow>
      ex_root ex \<in> set ids \<and> validate_edges ''parent-of'' ids [] (ex_parent_of ex) = None
      \<and> validate_parents (ex_parent_of ex) = None \<and> validate_edges ''depends-on'' ids [] (ex_depends_on ex) = None
      \<and> validate_attributes (ex_strands ex) = None"
    by (auto simp: validate_export_def Inr split: option.splits)
  then show ?thesis
    using ok ok' edges attrs parents ids by (simp only: list_all_iff list.set) blast
qed

lemma validated_facts:
  assumes "validate_export ex = None"
  shows "distinct (map st_id (ex_strands ex))"
    and "up (parents_of (ex_parent_of ex)) = parent_relation (ex_parent_of ex)"
    and "acyclic (parent_relation (ex_parent_of ex))"
    and "\<forall>k v. map_of (parents_of (ex_parent_of ex)) k = Some v \<longrightarrow> k \<noteq> [] \<and> v \<noteq> []"
proof -
  note v = assms [unfolded validate_export_None]
  have e: "\<forall>e \<in> set (ex_parent_of ex). e_from e \<noteq> [] \<and> e_to e \<noteq> [] \<and> e_from e \<noteq> e_to e"
    using v by (auto simp: list_all_iff)
  show "distinct (map st_id (ex_strands ex))" "acyclic (parent_relation (ex_parent_of ex))" using v by blast+
  show up: "up (parents_of (ex_parent_of ex)) = parent_relation (ex_parent_of ex)"
    by (rule parents_relation) (use v e in blast)+
  show "\<forall>k v. map_of (parents_of (ex_parent_of ex)) k = Some v \<longrightarrow> k \<noteq> [] \<and> v \<noteq> []"
  proof (intro allI impI)
    fix k v assume "map_of (parents_of (ex_parent_of ex)) k = Some v"
    then have "(k, v) \<in> parent_relation (ex_parent_of ex)" unfolding up [symmetric] by simp
    with e show "k \<noteq> [] \<and> v \<noteq> []" by (auto simp: parent_relation_def)
  qed
qed

section \<open>Properties\<close>

text \<open>
  The validation accepts an export exactly when its strands are complete and have distinct ids,
  the root is one of them, all edges join distinct known strands and occur once, every strand has at
  most one parent and no ancestor of its own is below it, and every attribute shown has a scalar
  value from its vocabulary.
\<close>
theorem validate_export_exact:
  "validate_export ex = None \<longleftrightarrow>
     distinct (map st_id (ex_strands ex))
     \<and> list_all (\<lambda>s. st_id s \<noteq> [] \<and> st_title s \<noteq> [] \<and> st_created s \<noteq> []
                    \<and> st_state s \<in> {state_active, state_closed, state_replaced}) (ex_strands ex)
     \<and> ex_root ex \<in> st_id ` set (ex_strands ex)
     \<and> list_all (\<lambda>es. distinct (map edge_key es)
                    \<and> list_all (\<lambda>e. e_from e \<noteq> [] \<and> e_to e \<noteq> [] \<and> e_from e \<noteq> e_to e
                         \<and> {e_from e, e_to e} \<subseteq> st_id ` set (ex_strands ex)) es) [ex_parent_of ex, ex_depends_on ex]
     \<and> single_valued (parent_relation (ex_parent_of ex)) \<and> acyclic (parent_relation (ex_parent_of ex))
     \<and> list_all (\<lambda>s. list_all (\<lambda>key. case map_of (st_attributes s) key of None \<Rightarrow> True
                    | Some v \<Rightarrow> (case scalar_text v of None \<Rightarrow> False | Some text \<Rightarrow> allowed_value key text))
                    display_attributes) (ex_strands ex)"
  by (rule validate_export_None)

text \<open>Every strand shown has a node, and every node has its place.\<close>

lemma node_ids:
  assumes "validate_export ex = None" and "build ex f = Ok m"
  shows "fst ` set (m_nodes m) \<subseteq> st_id ` set (ex_strands ex)" and "ex_root ex \<in> fst ` set (m_nodes m)"
proof -
  note v = validated_facts [OF assms(1)] and b = build_simps [OF assms(2) validated_facts(1) [OF assms(1)]]
  show "fst ` set (m_nodes m) \<subseteq> st_id ` set (ex_strands ex)"
    unfolding b(2) using keep_sub all_strands_distinct [OF v(1)] by fastforce
  have "ex_root ex \<in> fst ` set (all_strands (ex_strands ex))"
    using b(4) all_strands_distinct [OF v(1)] by force
  then show "ex_root ex \<in> fst ` set (m_nodes m)" unfolding b(2) by (rule root_kept)
qed

text \<open>
  C12: In the model of a validated export the children of a container are exactly the strands that
  survive the filters and have the container as their nearest surviving ancestor; every surviving
  strand below the root has exactly one container, so filtering never orphans a strand, and the layout
  of that container, dependency cycles among siblings included, draws it.
\<close>
theorem survivors_are_drawn:
  assumes "validate_export ex = None" and "build ex f = Ok m"
    and "ident \<in> fst ` set (m_nodes m)" and "(ident, m_root m) \<in> (parent_relation (ex_parent_of ex))\<^sup>+"
  shows "(\<exists>!c. ident \<in> set (reachable (layout m c)))
     \<and> (ident \<in> set (reachable (layout m c)) \<longleftrightarrow>
           c \<in> fst ` set (m_nodes m) \<and> (ident, c) \<in> (parent_relation (ex_parent_of ex))\<^sup>+
           \<and> (\<forall>d \<in> fst ` set (m_nodes m). (ident, d) \<in> (parent_relation (ex_parent_of ex))\<^sup>+ \<longrightarrow>
                d = c \<or> (c, d) \<in> (parent_relation (ex_parent_of ex))\<^sup>+))"
proof -
  note v = validated_facts [OF assms(1)] and b = build_simps [OF assms(2) validated_facts(1) [OF assms(1)]]
  let ?P = "parents_of (ex_parent_of ex)"
  note spec = nearest_kept_spec [OF v(4), of ident "m_nodes m", unfolded v(2), OF v(3)]
  have root: "m_root m \<in> fst ` set (m_nodes m)" using node_ids(2) [OF assms(1,2)] by (simp add: b(1))
  have "nearest_kept ident ?P (m_nodes m) \<noteq> None"
    unfolding nearest_kept_def find_None_iff
    using walk_ancestors [OF v(4), unfolded v(2), OF v(3), of "m_root m" ident] root assms(4) by blast
  then obtain a where a: "nearest_kept ident ?P (m_nodes m) = Some a" by blast
  have ne: "ident \<noteq> m_root m" using assms(4) v(3) by (auto simp: acyclic_def)
  have drawn: "ident \<in> set (reachable (layout m d)) \<longleftrightarrow> nearest_kept ident ?P (m_nodes m) = Some d" for d
    unfolding layout_reaches b(3) using assms(3) ne by blast
  then have "\<exists>!d. ident \<in> set (reachable (layout m d))" using a by auto
  moreover note drawn [of c, unfolded spec]
  ultimately show ?thesis by blast
qed

section \<open>A concrete export\<close>

text \<open>
  A feature with a closed card \<open>c\<close>; below it three execution strands, and under the last of them a
  live task \<open>t\<close>.
\<close>

definition demo_strand :: "string \<Rightarrow> string \<Rightarrow> object \<Rightarrow> strand" where
  "demo_strand ident state attrs =
     \<lparr>st_id = ident, st_title = ''title'', st_state = state, st_created = ''2026'', st_attributes = attrs\<rparr>"

definition demo_export :: export where
  "demo_export =
     \<lparr>ex_root = ''r'',
      ex_strands = [demo_strand ''r'' state_active [(attr_card, JBool True)],
                    demo_strand ''c'' state_closed [(attr_card, JBool True)],
                    demo_strand ''x1'' state_closed [], demo_strand ''x2'' state_closed [],
                    demo_strand ''x3'' state_closed [],
                    demo_strand ''t'' state_active [(attr_task, JStr ''true'')]],
      ex_parent_of = [\<lparr>e_from = ''r'', e_to = ''c''\<rparr>, \<lparr>e_from = ''c'', e_to = ''x1''\<rparr>,
                      \<lparr>e_from = ''x1'', e_to = ''x2''\<rparr>, \<lparr>e_from = ''x2'', e_to = ''x3''\<rparr>,
                      \<lparr>e_from = ''x3'', e_to = ''t''\<rparr>],
      ex_depends_on = []\<rparr>"

definition demo_model :: "bool \<Rightarrow> bool \<Rightarrow> model" where
  "demo_model all_opt live_only =
     (case build demo_export \<lparr>f_all = all_opt, f_tasks = True, f_open = live_only\<rparr> of
        Inr m \<Rightarrow> m
      | Inl _ \<Rightarrow> \<lparr>m_root = [], m_nodes = [], m_kids = (\<lambda>_. []), m_blockers = (\<lambda>_. []), m_counts = []\<rparr>)"

lemma demo_export_valid: "validate_export demo_export = None"
  by code_simp

lemma demo_build: "build demo_export \<lparr>f_all = all_opt, f_tasks = True, f_open = live_only\<rparr> = Ok (demo_model all_opt live_only)"
proof -
  have "map_of (all_strands (ex_strands demo_export)) (ex_root demo_export) \<noteq> None" by code_simp
  then show ?thesis by (auto simp: demo_model_def build_def Let_def split: option.splits)
qed

lemma demo_nodes:
  "map fst (m_nodes (demo_model False False)) = [''r'', ''c'', ''t'']"
  "map fst (m_nodes (demo_model False True)) = [''r'', ''t'']"
  "m_root (demo_model all_opt live_only) = ''r''"
  by code_simp+

lemma demo_chain: "(''t'', ''c'') \<in> (parent_relation (ex_parent_of demo_export))\<^sup>+"
  "(''t'', ''r'') \<in> (parent_relation (ex_parent_of demo_export))\<^sup>+"
proof -
  let ?R = "parent_relation (ex_parent_of demo_export)"
  have e: "(''t'', ''x3'') \<in> ?R" "(''x3'', ''x2'') \<in> ?R" "(''x2'', ''x1'') \<in> ?R" "(''x1'', ''c'') \<in> ?R" "(''c'', ''r'') \<in> ?R"
    by (simp_all add: parent_relation_image demo_export_def)
  show "(''t'', ''c'') \<in> ?R\<^sup>+" using e(1-4) by (meson trancl.simps)
  then show "(''t'', ''r'') \<in> ?R\<^sup>+" using e(5) by (rule trancl_into_trancl)
qed

theorem survivors_are_drawn_witness:
  "\<exists>!c. ''t'' \<in> set (reachable (layout (demo_model False False) c))"
proof -
  have "''t'' \<in> fst ` set (m_nodes (demo_model False False))"
    unfolding set_map [symmetric] demo_nodes by simp
  from survivors_are_drawn [OF demo_export_valid demo_build [of False False] this, of "[]", unfolded demo_nodes(3), OF demo_chain(2)]
  show ?thesis by (rule conjunct1)
qed

text \<open>
  The view of open work can drop a closed card that has a live task below it: the walk from the
  task towards the root takes at most one step more than there are surviving strands, and steps over
  execution strands count although these do not survive.  The task is then drawn outside its card.
\<close>
theorem closed_card_dropped:
  "validate_export demo_export = None
   \<and> (''t'', ''c'') \<in> (parent_relation (ex_parent_of demo_export))\<^sup>+
   \<and> map fst (m_nodes (demo_model False False)) = [''r'', ''c'', ''t'']
   \<and> map fst (m_nodes (demo_model False True)) = [''r'', ''t'']
   \<and> map (m_kids (demo_model False True)) [''r'', ''c''] = [[''t''], []]"
proof -
  have "map (m_kids (demo_model False True)) [''r'', ''c''] = [[''t''], []]" by code_simp
  then show ?thesis using demo_export_valid demo_chain(1) demo_nodes by simp
qed

text \<open>
  When all strands are shown, the view of open work keeps exactly the root and the strands that are
  live or have a live strand below them.
\<close>
theorem open_view_exact:
  assumes "validate_export ex = None" and "build ex f = Ok m" and "f_all f" and "f_open f"
  shows "ident \<in> fst ` set (m_nodes m) \<longleftrightarrow>
           ident = ex_root ex
           \<or> (\<exists>s \<in> set (ex_strands ex). st_state s = state_active \<and> ident \<in> st_id ` set (ex_strands ex)
                \<and> (st_id s, ident) \<in> (parent_relation (ex_parent_of ex))\<^sup>*)"
proof -
  note v = validated_facts [OF assms(1)] and b = build_simps [OF assms(2) validated_facts(1) [OF assms(1)]]
  let ?P = "parents_of (ex_parent_of ex)" and ?all = "all_strands (ex_strands ex)"
  have all: "?all = map (\<lambda>s. (st_id s, s)) (ex_strands ex)" by (rule all_strands_distinct [OF v(1)])
  have keep: "keep_strands f (ex_root ex) ?all ?P = prune_closed ?all ?P (ex_root ex)"
    using assms(3,4) by (simp add: keep_strands_def Let_def)
  have up: "x \<in> set (walk_up (Suc (length ?all)) ?P (st_id s)) \<longleftrightarrow> (st_id s, x) \<in> (parent_relation (ex_parent_of ex))\<^sup>*"
    if s: "s \<in> set (ex_strands ex)" for s x
  proof -
    have "fst ` set ?P \<subseteq> st_id ` set (ex_strands ex)"
    proof -
      have "fst ` set ?P = e_to ` set (ex_parent_of ex)"
        using Domain_up [of ?P] unfolding v(2) parent_relation_image by (simp add: Domain_fst image_image)
      moreover have "\<forall>e \<in> set (ex_parent_of ex). e_to e \<in> st_id ` set (ex_strands ex)"
        using assms(1) [unfolded validate_export_None] by (simp add: list_all_iff)
      ultimately show ?thesis by (simp only: image_subset_iff)
    qed
    then have "card (fst ` set ?P) \<le> length ?all"
      using card_mono [of "st_id ` set (ex_strands ex)" "fst ` set ?P"] card_length [of "map st_id (ex_strands ex)"] by (simp add: all)
    moreover have "st_id s \<noteq> []" using s assms(1) [unfolded validate_export_None] by (simp add: list_all_iff)
    ultimately show ?thesis
      using walk_up_sub [of x _ ?P "st_id s"] walk_up_complete [OF v(4), unfolded v(2), OF v(3), of "st_id s" x "Suc (length ?all)"] v(2)
      by (metis less_Suc_eq_le)
  qed
  have "ident \<in> fst ` set (prune_closed ?all ?P (ex_root ex)) \<longleftrightarrow> ident \<in> st_id ` set (ex_strands ex)
      \<and> (ident = ex_root ex \<or> (\<exists>s \<in> set (ex_strands ex). st_state s = state_active
            \<and> ident \<in> set (walk_up (Suc (length ?all)) ?P (st_id s))))"
    by (fastforce simp: prune_closed_def all Let_def image_iff simp del: walk_up.simps)
  also have "\<dots> \<longleftrightarrow> ident \<in> st_id ` set (ex_strands ex)
      \<and> (ident = ex_root ex \<or> (\<exists>s \<in> set (ex_strands ex). st_state s = state_active
            \<and> (st_id s, ident) \<in> (parent_relation (ex_parent_of ex))\<^sup>*))"
    using up by (simp del: walk_up.simps cong: bex_cong)
  finally show ?thesis unfolding b(2) keep using b(4) by blast
qed


theorem open_view_exact_witness: "''x2'' \<in> fst ` set (m_nodes (demo_model True True))"
proof -
  let ?R = "parent_relation (ex_parent_of demo_export)"
  have e: "(''t'', ''x3'') \<in> ?R" "(''x3'', ''x2'') \<in> ?R" by (simp_all add: parent_relation_image demo_export_def)
  have s: "demo_strand ''t'' state_active [(attr_task, JStr ''true'')] \<in> set (ex_strands demo_export)"
    "''x2'' \<in> st_id ` set (ex_strands demo_export)"
    by (simp_all add: demo_export_def demo_strand_def)
  from open_view_exact [OF demo_export_valid demo_build [of True True], of "''x2''"] show ?thesis
    using bexI [OF _ s(1), of "\<lambda>s. st_state s = state_active \<and> (st_id s, ''x2'') \<in> ?R\<^sup>*"] s(2) e
    by (simp add: demo_strand_def) (meson rtrancl.simps)
qed

end
