(* ===== verification/Error_Format.thy ===== *)
theory Error_Format
  imports Json
begin

text \<open>
  The rendering of errors (\<open>cli/internal/errfmt\<close>): the plain line, the JSON line, the terminal layout, the
  choice among them, and the suggestions for a mistyped name.

  The details of an error are a Go map; it is an association list with distinct keys in the order of one
  iteration.  \<open>encode\<close> is the JSON encoder without HTML escapes, its failure the text of the error;
  \<open>lower_rune\<close> the Unicode case mapping outside ASCII.  Lengths of strings are far below the range of \<open>int\<close>.
\<close>

section \<open>Edit distance\<close>

text \<open>
  \<open>levenshtein\<close>.  The two rows are slices that are swapped, so the row that is filled still holds the row
  before the last; each cell is one assignment.
\<close>

definition lev_cell :: "'a \<Rightarrow> 'a list \<Rightarrow> nat list \<Rightarrow> nat \<Rightarrow> nat list \<Rightarrow> nat list" where
  "lev_cell x right previous j current =
     (let substitution = (if x \<noteq> right ! (j - 1) then previous ! (j - 1) + 1 else previous ! (j - 1))
      in current[j := min (previous ! j + 1) (min (current ! (j - 1) + 1) substitution)])"

definition lev_row :: "'a list \<Rightarrow> 'a list \<Rightarrow> nat \<Rightarrow> nat list \<times> nat list \<Rightarrow> nat list \<times> nat list" where
  "lev_row left right i rows =
     (let (previous, current) = rows;
          current = fold (lev_cell (left ! (i - 1)) right previous) [1..<Suc (length right)] (current[0 := i])
      in (current, previous))"

definition levenshtein_runes :: "'a list \<Rightarrow> 'a list \<Rightarrow> nat" where
  "levenshtein_runes left right =
     (let previous = fold (\<lambda>j row. row[j := j]) [0..<Suc (length right)] (replicate (length right + 1) 0);
          rows = fold (lev_row left right) [1..<Suc (length left)] (previous, replicate (length right + 1) 0)
      in fst rows ! length right)"

definition levenshtein :: "string \<Rightarrow> string \<Rightarrow> nat" where
  "levenshtein a b = levenshtein_runes (runes a) (runes b)"

section \<open>Suggestions\<close>

record error =
  er_type :: string
  er_code :: string
  er_message :: string
  er_details :: object
  er_command :: "string list"
  er_local :: bool

definition max_suggest_distance :: nat where "max_suggest_distance = 2"
definition max_suggestions :: nat where "max_suggestions = 3"

fun near :: "(nat \<Rightarrow> string) \<Rightarrow> string \<Rightarrow> string list \<Rightarrow> (string \<times> nat) list option" where
  "near lower_rune folded [] = Some []"
| "near lower_rune folded (name # names) =
     (let distance = levenshtein folded (to_lower lower_rune name) in
      if distance = 0 then None
      else map_option (\<lambda>ms. if distance \<le> max_suggest_distance then (name, distance) # ms else ms) (near lower_rune folded names))"

text \<open>\<open>rank\<close>; \<open>near\<close> is its loop, \<open>None\<close> when it meets the name itself.\<close>

definition rank :: "(nat \<Rightarrow> string) \<Rightarrow> string \<Rightarrow> string list \<Rightarrow> string list" where
  "rank lower_rune token names =
     (if token = [] then []
      else case near lower_rune (to_lower lower_rune token) names of
        None \<Rightarrow> []
      | Some ms \<Rightarrow> map fst (take (min (length ms) max_suggestions) (sort_key snd ms)))"

definition quoted_details :: "string \<Rightarrow> object \<Rightarrow> (string \<times> string) list" where
  "quoted_details message details =
     (if message = [] then []
      else concat (map (\<lambda>(k, v). case v of JStr t \<Rightarrow> if t \<noteq> [] \<and> contains message t then [(k, t)] else [] | _ \<Rightarrow> []) details))"

definition sorted_values :: "(string \<times> string) list \<Rightarrow> string list" where
  "sorted_values m = map snd (sort_key fst m)"

definition remaining_values :: "object \<Rightarrow> (string \<times> string) list \<Rightarrow> string list" where
  "remaining_values details quoted =
     (let by_key = concat (map (\<lambda>(k, v). case v of JStr t \<Rightarrow> if k \<in> fst ` set quoted then [] else [(k, t)] | _ \<Rightarrow> []) details)
      in rev (remdups (rev (sorted_values by_key))))"

fun first_ranked :: "(nat \<Rightarrow> string) \<Rightarrow> string list \<Rightarrow> string list \<Rightarrow> string list" where
  "first_ranked lower_rune [] names = []"
| "first_ranked lower_rune (t # ts) names =
     (let ranked = rank lower_rune t names in if ranked \<noteq> [] then ranked else first_ranked lower_rune ts names)"

fun agreed_from :: "(nat \<Rightarrow> string) \<Rightarrow> string list option \<Rightarrow> string list \<Rightarrow> string list \<Rightarrow> string list" where
  "agreed_from lower_rune chosen [] names = (case chosen of None \<Rightarrow> [] | Some c \<Rightarrow> c)"
| "agreed_from lower_rune chosen (t # ts) names =
     (let ranked = rank lower_rune t names in
      if ranked = [] then agreed_from lower_rune chosen ts names
      else if chosen \<noteq> None \<and> chosen \<noteq> Some ranked then []
      else agreed_from lower_rune (Some ranked) ts names)"

definition agreed :: "(nat \<Rightarrow> string) \<Rightarrow> string list \<Rightarrow> string list \<Rightarrow> string list" where
  "agreed lower_rune = agreed_from lower_rune None"

definition suggest :: "(nat \<Rightarrow> string) \<Rightarrow> error \<Rightarrow> string list \<Rightarrow> string list" where
  "suggest lower_rune e names =
     (let quoted = quoted_details (er_message e) (er_details e);
          first = first_ranked lower_rune (sorted_values quoted) names;
          typed = (if er_command e = [] then [] else rank lower_rune (last (er_command e)) names)
      in if first \<noteq> [] then first
         else if typed \<noteq> [] then typed
         else agreed lower_rune (remaining_values (er_details e) quoted) names)"

section \<open>The plain line\<close>

definition type_local :: string where "type_local = ''cli''"
definition type_transport :: string where "type_transport = ''transport''"
definition database_not_initialized :: string where "database_not_initialized = ''database/not-initialized''"
definition fallback_code :: string where "fallback_code = ''domain/error''"
definition code_invalid_invocation :: string where "code_invalid_invocation = ''cli/invalid-invocation''"

fun string_list :: "json option \<Rightarrow> string list" where
  "string_list (Some (JArr vs)) = concat (map (\<lambda>v. case v of JStr s \<Rightarrow> [s] | _ \<Rightarrow> []) vs)"
| "string_list _ = []"

definition local_error :: "string \<Rightarrow> string \<Rightarrow> string option \<Rightarrow> string list \<Rightarrow> error" where
  "local_error ty code err command =
     \<lparr>er_type = ty, er_code = code, er_message = (case err of None \<Rightarrow> [] | Some m \<Rightarrow> m), er_details = [], er_command = command,
      er_local = True\<rparr>"

definition from_error :: "string option \<Rightarrow> string list \<Rightarrow> error" where
  "from_error = local_error type_local code_invalid_invocation"

definition plain_message :: "(json \<Rightarrow> (string, string) result) \<Rightarrow> error \<Rightarrow> string" where
  "plain_message encode e =
     (if er_local e \<or> er_type e = type_local then er_message e
      else
        let message = er_message e;
            message = (case map_of (er_details e) ''canonical-query'' of
                         Some (JStr query) \<Rightarrow> if query \<noteq> [] then message @ '': '' @ query else message
                       | _ \<Rightarrow> message);
            names = string_list (map_of (er_details e) ''available'');
            message = (if names \<noteq> [] then message @ '' (available: '' @ join '', '' names @ '')'' else message)
        in if er_code e = database_not_initialized then message
           else
             let message = (if er_details e = [] then message
                            else case encode (JObj (er_details e)) of
                              Inl _ \<Rightarrow> message
                            | Inr text \<Rightarrow> message @ '' details='' @ text)
             in if er_code e \<noteq> [] then ''weaver '' @ er_type e @ '' error ('' @ er_code e @ ''): '' @ message
                else ''weaver '' @ er_type e @ '' error: '' @ message)"

section \<open>The JSON line\<close>

definition json_error :: "error \<Rightarrow> object \<Rightarrow> json" where
  "json_error e details =
     JObj [(''type'', JStr (er_type e)), (''code'', JStr (er_code e)), (''message'', JStr (er_message e)), (''details'', JObj details)]"

definition detail_keys :: "object \<Rightarrow> string list" where
  "detail_keys details = sort (map fst details)"

definition render_json :: "(json \<Rightarrow> (string, string) result) \<Rightarrow> error \<Rightarrow> string" where
  "render_json encode e =
     (case encode (json_error e (er_details e)) of
        Inr text \<Rightarrow> text @ [CHR 0x0A]
      | Inl err \<Rightarrow>
          (case encode (json_error e [(''errfmt/unrenderable-details'', JStr err),
                  (''errfmt/dropped-keys'', JArr (map JStr (detail_keys (er_details e))))]) of
             Inr text \<Rightarrow> text @ [CHR 0x0A]
           | Inl _ \<Rightarrow> ''error: '' @ plain_message encode e @ [CHR 0x0A]))"

section \<open>The terminal layout\<close>

definition headline_indent :: string where "headline_indent = repeat_str 2 '' ''"
definition label_indent :: string where "label_indent = repeat_str 4 '' ''"
definition entry_indent :: string where "entry_indent = repeat_str 6 '' ''"
definition default_width :: int where "default_width = 80"
definition minimum_width :: int where "minimum_width = 40"
definition available_key :: string where "available_key = ''available''"
definition try_key :: string where "try_key = ''try''"

text \<open>The palette: escapes unless \<open>NO_COLOR\<close> is set.\<close>

definition wrap :: "bool \<Rightarrow> string \<Rightarrow> string \<Rightarrow> string" where
  "wrap colour code txt = (if colour then [CHR 0x1B] @ code @ txt @ [CHR 0x1B] @ ''[0m'' else txt)"

definition red where "red colour = wrap colour ''[31m''"
definition bold where "bold colour = wrap colour ''[1m''"
definition dim where "dim colour = wrap colour ''[2m''"
definition cyan where "cyan colour = wrap colour ''[36m''"

definition remedy_line :: "bool \<Rightarrow> string \<Rightarrow> string" where
  "remedy_line colour remedy = label_indent @ cyan colour (''try: '' @ remedy)"

function spoken :: "string \<Rightarrow> string list \<Rightarrow> string list" where
  "spoken message command =
     (if 1 < length command \<and> message \<noteq> [] \<and> contains message (last command)
      then spoken message (butlast command) else command)"
  by pat_completeness auto
termination by (relation "measure (length \<circ> snd)") auto

declare spoken.simps [simp del]

definition spoken_command :: "error \<Rightarrow> string list" where
  "spoken_command e = spoken (er_message e) (er_command e)"

definition headline :: "bool \<Rightarrow> error \<Rightarrow> string" where
  "headline colour e =
     (let message = (if er_message e = [] then ''unknown error'' else er_message e);
          line = headline_indent @ red colour ''x'' @ '' '';
          command = join '' '' (spoken_command e);
          line = (if command \<noteq> [] then line @ command @ '': '' else line);
          line = line @ bold colour message
      in if er_code e \<noteq> [] \<and> er_code e \<noteq> fallback_code \<and> \<not> er_local e
         then line @ '' '' @ dim colour (''('' @ er_code e @ '')'') else line)"

text \<open>\<open>strings.ReplaceAll\<close> of a newline.\<close>

definition indent_continuation :: "string \<Rightarrow> nat \<Rightarrow> string" where
  "indent_continuation value width =
     concat (map (\<lambda>c. if c = CHR 0x0A then CHR 0x0A # entry_indent @ repeat_str width '' '' else [c]) value)"

text \<open>\<open>shown\<close> is what \<open>%v\<close> prints for a value the encoder refuses.\<close>

definition detail_value :: "(json \<Rightarrow> (string, string) result) \<Rightarrow> (json \<Rightarrow> string) \<Rightarrow> json \<Rightarrow> string" where
  "detail_value encode shown value =
     (case value of
        JStr s \<Rightarrow> s
      | _ \<Rightarrow> (case encode value of Inl err \<Rightarrow> shown value @ '' (unrenderable as JSON: '' @ err @ '')'' | Inr s \<Rightarrow> s))"

definition row_keys :: "error \<Rightarrow> string list \<Rightarrow> string list" where
  "row_keys e sectioned =
     (let quoted = quoted_details (er_message e) (er_details e)
      in sort (filter (\<lambda>k. k \<notin> set sectioned \<and> k \<notin> fst ` set quoted) (map fst (er_details e))))"

definition detail_rows ::
    "(json \<Rightarrow> (string, string) result) \<Rightarrow> (json \<Rightarrow> string) \<Rightarrow> error \<Rightarrow> string list \<Rightarrow> string list" where
  "detail_rows encode shown e sectioned =
     (let keys = row_keys e sectioned;
          width = foldl (\<lambda>w k. if length k > w then length k else w) 0 keys
      in map (\<lambda>k. k @ repeat_str (width - length k + 2) '' ''
                  @ indent_continuation (detail_value encode shown (the (map_of (er_details e) k))) (width + 2)) keys)"

text \<open>\<open>columns\<close>; an \<open>int\<close> division that truncates towards zero, and \<open>strings.TrimRight\<close>.\<close>

function chunks :: "nat \<Rightarrow> 'a list \<Rightarrow> 'a list list" where
  "chunks n xs = (if xs = [] \<or> n = 0 then [] else take n xs # chunks n (drop n xs))"
  by pat_completeness auto
termination by (relation "measure (length \<circ> snd)") auto

declare chunks.simps [simp del]

definition trim_right :: "string \<Rightarrow> string" where
  "trim_right s = rev (dropWhile (\<lambda>c. c = CHR '' '') (rev s))"

definition column_cell :: "string list \<Rightarrow> nat" where
  "column_cell names = foldl (\<lambda>w n. if length n > w then length n else w) 0 names + 2"

definition per_row :: "string list \<Rightarrow> int \<Rightarrow> nat" where
  "per_row names width =
     (let n = (width - int (length entry_indent)) div int (column_cell names) in if n < 1 then 1 else nat n)"

definition columns :: "string list \<Rightarrow> int \<Rightarrow> string list" where
  "columns names width =
     map (\<lambda>row. trim_right (concat (map (\<lambda>n. n @ repeat_str (column_cell names - length n) '' '') row)))
       (chunks (per_row names width) names)"

definition labelled :: "string \<Rightarrow> string list \<Rightarrow> string" where
  "labelled label entries = join [CHR 0x0A] ((label_indent @ label) # map (\<lambda>x. entry_indent @ x) entries)"

text \<open>\<open>terminalWidth\<close>; the argument is the value of \<open>COLUMNS\<close>, empty when unset.\<close>

definition terminal_width :: "string \<Rightarrow> int" where
  "terminal_width columns_env =
     (case atoi columns_env of Some v \<Rightarrow> if minimum_width \<le> v then v else default_width | None \<Rightarrow> default_width)"

record render_env =
  env_encode :: "json \<Rightarrow> (string, string) result"
  env_shown :: "json \<Rightarrow> string"
  env_lower :: "nat \<Rightarrow> string"
  env_columns :: string \<comment> \<open>\<open>COLUMNS\<close>\<close>
  env_colour :: bool \<comment> \<open>\<open>NO_COLOR\<close> is empty\<close>

definition pretty_sections :: "render_env \<Rightarrow> error \<Rightarrow> string list" where
  "pretty_sections env e =
     (let colour = env_colour env;
          names = string_list (map_of (er_details e) available_key);
          remedy = (case map_of (er_details e) try_key of Some (JStr r) \<Rightarrow> r | _ \<Rightarrow> []);
          width = terminal_width (env_columns env);
          suggestions = suggest (env_lower env) e names;
          rows = detail_rows (env_encode env) (env_shown env) e
                   ((if names \<noteq> [] then [available_key] else []) @ (if remedy \<noteq> [] then [try_key] else []))
      in [headline colour e]
         @ (if names = [] then []
            else (if suggestions = [] then [] else [labelled (dim colour ''did you mean:'') (columns suggestions width)])
                 @ [labelled (dim colour (available_key @ '':'')) (columns names width)])
         @ (if rows = [] then [] else [labelled (dim colour ''details:'') rows])
         @ (if remedy = [] then [] else [remedy_line colour remedy]))"

definition render_pretty :: "render_env \<Rightarrow> error \<Rightarrow> string" where
  "render_pretty env e = join [CHR 0x0A, CHR 0x0A] (pretty_sections env e) @ [CHR 0x0A]"

section \<open>The choice of the rendering\<close>

datatype mode = Plain | Pretty | JsonMode

definition accepted_formats :: "(string \<times> mode) list" where
  "accepted_formats = [(''json'', JsonMode), (''plain'', Plain), (''pretty'', Pretty)]"

definition render :: "render_env \<Rightarrow> error \<Rightarrow> mode \<Rightarrow> string" where
  "render env e m =
     (case m of
        Pretty \<Rightarrow> render_pretty env e
      | JsonMode \<Rightarrow> render_json (env_encode env) e
      | Plain \<Rightarrow> ''error: '' @ plain_message (env_encode env) e @ [CHR 0x0A])"

definition render_remedy :: "bool \<Rightarrow> string \<Rightarrow> mode \<Rightarrow> string" where
  "render_remedy colour remedy m =
     (if remedy = [] \<or> m = JsonMode then []
      else if m = Pretty then CHR 0x0A # remedy_line colour remedy @ [CHR 0x0A]
      else ''try: '' @ remedy @ [CHR 0x0A])"

text \<open>
  \<open>ValidateFormat\<close> of the value of the variable, \<open>detect\<close> (\<open>None\<close>: not a file; the answer of \<open>Stat\<close> whether it is
  a character device) and \<open>Resolve\<close>.
\<close>

definition validate_format :: "string \<Rightarrow> string option" where
  "validate_format value =
     (if value = [] \<or> value \<in> fst ` set accepted_formats then None else Some value)"

definition detect :: "(unit, bool) result option \<Rightarrow> mode" where
  "detect writer = (case writer of Some (Inr True) \<Rightarrow> Pretty | _ \<Rightarrow> Plain)"

definition resolve :: "string \<Rightarrow> (unit, bool) result option \<Rightarrow> mode \<times> string option" where
  "resolve value writer =
     (case validate_format value of
        Some e \<Rightarrow> (detect writer, Some e)
      | None \<Rightarrow> (case map_of accepted_formats value of Some m \<Rightarrow> (m, None) | None \<Rightarrow> (detect writer, None)))"

definition mode_for :: "string \<Rightarrow> (unit, bool) result option \<Rightarrow> mode" where
  "mode_for value writer = fst (resolve value writer)"

section \<open>Edit distance: the recursion and the least number of edits\<close>

text \<open>One edit of a list: an element inserted, removed or replaced.\<close>

inductive edit :: "'a list \<Rightarrow> 'a list \<Rightarrow> bool" where
  insert: "edit (u @ v) (u @ x # v)"
| remove: "edit (u @ x # v) (u @ v)"
| replace: "edit (u @ x # v) (u @ y # v)"

fun edits :: "'a list \<Rightarrow> 'a list \<Rightarrow> nat" where
  "edits [] b = length b"
| "edits a [] = length a"
| "edits (x # a) (y # b) = min (edits a (y # b) + 1) (min (edits (x # a) b + 1) (edits a b + (if x = y then 0 else 1)))"

lemma edits_Nil [simp]: "edits a [] = length a"
  by (cases a) simp_all

lemma edits_Cons_le: "edits a (x # b) \<le> edits a b + 1"
  by (cases a) simp_all

lemma edits_Cons_left_le: "edits (x # a) b \<le> edits a b + 1"
  by (cases b) simp_all

lemma edits_drop: "edits a b \<le> edits a (x # b) + 1"
proof (induction a)
  case (Cons z a)
  have "edits (z # a) b \<le> edits a b + 1" by (rule edits_Cons_left_le)
  then show ?case using Cons.IH by (auto simp: min_def)
qed simp

lemma edits_change: "edits a (x # b) \<le> edits a (y # b) + 1"
proof (induction a)
  case (Cons z a)
  have "edits (z # a) b \<le> edits a b + 1" by (rule edits_Cons_left_le)
  then show ?case using Cons.IH by (auto simp: min_def)
qed simp

lemma edits_under_prefix:
  assumes "\<And>a. edits a v \<le> edits a w + 1"
  shows "edits a (u @ v) \<le> edits a (u @ w) + 1"
proof (induction u arbitrary: a)
  case Nil
  then show ?case using assms by simp
next
  case (Cons x u)
  show ?case
  proof (induction a)
    case Nil
    then show ?case using Cons [of "[]"] by simp
  next
    case (Cons z a)
    then show ?case using Cons.IH \<open>\<And>a. edits a (u @ v) \<le> edits a (u @ w) + 1\<close> [of a]
        \<open>\<And>a. edits a (u @ v) \<le> edits a (u @ w) + 1\<close> [of "z # a"]
      by (auto simp: min_def)
  qed
qed

lemma edit_lipschitz: "edit b c \<Longrightarrow> edits a c \<le> edits a b + 1"
proof (induction rule: edit.induct)
  case (insert u v x)
  then show ?case by (intro edits_under_prefix edits_Cons_le)
next
  case (remove u x v)
  then show ?case by (intro edits_under_prefix edits_drop)
next
  case (replace u x v y)
  then show ?case by (intro edits_under_prefix edits_change)
qed

lemma edits_self [simp]: "edits a a = 0"
  by (induction a) simp_all

lemma edits_lower: "(edit ^^ n) a b \<Longrightarrow> edits a b \<le> n"
proof (induction n arbitrary: b)
  case (Suc n)
  then obtain c where "(edit ^^ n) a c" "edit c b" by auto
  then show ?case using Suc.IH [of c] edit_lipschitz [of c b a] by simp
qed simp

lemma edit_Cons: "edit a b \<Longrightarrow> edit (x # a) (x # b)"
proof (induction rule: edit.induct)
  case (insert u v y)
  then show ?case using edit.insert [of "x # u" v y] by simp
next
  case (remove u y v)
  then show ?case using edit.remove [of "x # u" y v] by simp
next
  case (replace u y v z)
  then show ?case using edit.replace [of "x # u" y v z] by simp
qed

lemma edits_Cons_relpow: "(edit ^^ n) a b \<Longrightarrow> (edit ^^ n) (x # a) (x # b)"
  by (induction n arbitrary: b) (auto intro: edit_Cons)

lemma edits_reach: "(edit ^^ edits a b) a b"
proof (induction a b rule: edits.induct)
  case (1 b)
  show ?case
  proof (induction b)
    case (Cons y b)
    have "edit b (y # b)" using edit.insert [of "[]" b y] by simp
    with Cons show ?case by auto
  qed simp
next
  case (2 x a)
  have "(edit ^^ length a) a []" for a :: "'a list"
  proof (induction a)
    case (Cons x a)
    have "edit (x # a) a" using edit.remove [of "[]" x a] by simp
    with Cons show ?case by (auto simp del: relpowp.simps simp: relpowp_Suc_I2)
  qed simp
  from this [of "x # a"] show ?case by simp
next
  case (3 x a y b)
  have del: "edit (x # a) a" using edit.remove [of "[]" x a] by simp
  have ins: "edit b (y # b)" using edit.insert [of "[]" b y] by simp
  have rep: "edit (x # a) (y # a)" using edit.replace [of "[]" x a y] by simp
  have A: "(edit ^^ Suc (edits a (y # b))) (x # a) (y # b)" using del 3(1) by (rule relpowp_Suc_I2)
  have B: "(edit ^^ Suc (edits (x # a) b)) (x # a) (y # b)" using 3(2) ins by (rule relpowp_Suc_I)
  have C: "(edit ^^ (edits a b + (if x = y then 0 else 1))) (x # a) (y # b)"
    using edits_Cons_relpow [OF 3(3), of y] rep by (auto intro: relpowp_Suc_I2 simp del: relpowp.simps)
  show ?case using A B C by (simp add: min_def del: relpowp.simps)
qed

lemma edits_least: "edits a b = (LEAST n. (edit ^^ n) a b)"
  by (rule Least_equality [symmetric]) (simp_all add: edits_reach edits_lower)

subsection \<open>The two rows\<close>

text \<open>The cell of a row and column: the distance of the prefixes.\<close>

definition prefix_edits :: "'a list \<Rightarrow> 'a list \<Rightarrow> nat \<Rightarrow> nat \<Rightarrow> nat" where
  "prefix_edits left right i j = edits (rev (take i left)) (rev (take j right))"

lemma prefix_edits_0 [simp]:
  "prefix_edits left right 0 j = min (length right) j" "prefix_edits left right i 0 = min (length left) i"
  by (simp_all add: prefix_edits_def)

lemma prefix_edits_Suc:
  assumes "i < length left" "j < length right"
  shows "prefix_edits left right (Suc i) (Suc j) =
    min (prefix_edits left right i (Suc j) + 1)
      (min (prefix_edits left right (Suc i) j + 1) (prefix_edits left right i j + (if left ! i = right ! j then 0 else 1)))"
  using assms by (simp add: prefix_edits_def take_Suc_conv_app_nth)

definition row_holds :: "'a list \<Rightarrow> 'a list \<Rightarrow> nat \<Rightarrow> nat list \<Rightarrow> bool" where
  "row_holds left right i row \<longleftrightarrow>
     length row = Suc (length right) \<and> (\<forall>j \<le> length right. row ! j = prefix_edits left right i j)"

lemma lev_cells:
  assumes previous: "row_holds left right i previous" and i: "i < length left"
    and row: "length row = Suc (length right)" "row ! 0 = Suc i" and k: "k \<le> length right"
  defines "row' \<equiv> fold (lev_cell (left ! i) right previous) [1..<Suc k] row"
  shows "length row' = Suc (length right) \<and> (\<forall>j \<le> k. row' ! j = prefix_edits left right (Suc i) j)"
  using k unfolding row'_def
proof (induction k)
  case 0
  then show ?case using row i by simp
next
  case (Suc k)
  let ?r = "fold (lev_cell (left ! i) right previous) [1..<Suc k] row"
  have IH: "length ?r = Suc (length right)" "\<forall>j \<le> k. ?r ! j = prefix_edits left right (Suc i) j" using Suc by simp_all
  have new: "fold (lev_cell (left ! i) right previous) [1..<Suc (Suc k)] row = lev_cell (left ! i) right previous (Suc k) ?r"
    by simp
  have prev: "previous ! Suc k = prefix_edits left right i (Suc k)" "previous ! k = prefix_edits left right i k"
    using previous Suc.prems by (simp_all add: row_holds_def)
  have cell: "lev_cell (left ! i) right previous (Suc k) ?r = ?r[Suc k := prefix_edits left right (Suc i) (Suc k)]"
    using IH(2) prev prefix_edits_Suc [OF i, of k right] Suc.prems by (simp add: lev_cell_def)
  show ?case
  proof (intro conjI allI impI)
    show "length (fold (lev_cell (left ! i) right previous) [1..<Suc (Suc k)] row) = Suc (length right)"
      unfolding new cell using IH(1) by simp
    fix j assume "j \<le> Suc k"
    then show "fold (lev_cell (left ! i) right previous) [1..<Suc (Suc k)] row ! j = prefix_edits left right (Suc i) j"
      unfolding new cell using IH Suc.prems by (cases "j = Suc k") simp_all
  qed
qed

lemma lev_row_holds:
  assumes "row_holds left right i (fst rows)" "length (snd rows) = Suc (length right)" "i < length left"
  shows "row_holds left right (Suc i) (fst (lev_row left right (Suc i) rows)) \<and> length (snd (lev_row left right (Suc i) rows)) = Suc (length right)"
  using lev_cells [OF assms(1,3), of "(snd rows)[0 := Suc i]" "length right"] assms
  by (cases rows) (simp add: lev_row_def Let_def row_holds_def)

lemma lev_rows_hold:
  assumes "row_holds left right 0 previous" "length row = Suc (length right)" "i \<le> length left"
  defines "rows \<equiv> fold (lev_row left right) [1..<Suc i] (previous, row)"
  shows "row_holds left right i (fst rows) \<and> length (snd rows) = Suc (length right)"
  using assms(3) unfolding rows_def
proof (induction i)
  case 0
  then show ?case using assms by simp
next
  case (Suc i)
  then show ?case using lev_row_holds [of left right i "fold (lev_row left right) [1..<Suc i] (previous, row)"] by simp
qed

lemma first_row:
  "k \<le> n \<Longrightarrow> length (fold (\<lambda>j row. row[j := j]) [0..<k] (replicate n 0)) = n
    \<and> (\<forall>j < k. fold (\<lambda>j row. row[j := j]) [0..<k] (replicate n 0) ! j = j)"
proof (induction k)
  case (Suc k)
  then show ?case by (auto simp: nth_list_update less_Suc_eq)
qed simp

lemma levenshtein_runes_edits: "levenshtein_runes left right = edits (rev left) (rev right)"
proof -
  define previous where "previous = fold (\<lambda>j row. row[j := j]) [0..<Suc (length right)] (replicate (length right + 1) 0)"
  define rows where "rows = fold (lev_row left right) [1..<Suc (length left)] (previous, replicate (length right + 1) 0)"
  have "row_holds left right 0 previous"
    using first_row [of "Suc (length right)" "Suc (length right)"] by (auto simp: previous_def row_holds_def less_Suc_eq_le)
  then have "row_holds left right (length left) (fst rows)"
    using lev_rows_hold [of left right previous "replicate (length right + 1) 0" "length left"] by (simp add: rows_def)
  then have "fst rows ! length right = edits (rev left) (rev right)" by (simp add: row_holds_def prefix_edits_def)
  then show ?thesis by (simp only: levenshtein_runes_def rows_def previous_def Let_def)
qed

lemma edit_rev: "edit a b \<Longrightarrow> edit (rev a) (rev b)"
proof (induction rule: edit.induct)
  case (insert u v x)
  then show ?case using edit.insert [of "rev v" "rev u" x] by simp
next
  case (remove u x v)
  then show ?case using edit.remove [of "rev v" x "rev u"] by simp
next
  case (replace u x v y)
  then show ?case using edit.replace [of "rev v" x "rev u" y] by simp
qed

lemma edits_rev: "(edit ^^ n) (rev a) (rev b) \<longleftrightarrow> (edit ^^ n) a b"
proof -
  have "(edit ^^ n) a b \<Longrightarrow> (edit ^^ n) (rev a) (rev b)" for a b :: "'a list"
    by (induction n arbitrary: b) (auto intro: edit_rev)
  from this [of a b] this [of "rev a" "rev b"] show ?thesis by auto
qed

lemma levenshtein_runes_least: "levenshtein_runes a b = (LEAST n. (edit ^^ n) a b)"
  unfolding levenshtein_runes_edits edits_least edits_rev ..

lemma levenshtein_le: "levenshtein a b \<le> n \<longleftrightarrow> (\<exists>m \<le> n. (edit ^^ m) (runes a) (runes b))"
proof
  assume "levenshtein a b \<le> n"
  moreover have "(edit ^^ levenshtein a b) (runes a) (runes b)"
    unfolding levenshtein_def levenshtein_runes_edits using edits_reach edits_rev by metis
  ultimately show "\<exists>m \<le> n. (edit ^^ m) (runes a) (runes b)" by blast
next
  assume "\<exists>m \<le> n. (edit ^^ m) (runes a) (runes b)"
  then obtain m where "m \<le> n" "(edit ^^ m) (runes a) (runes b)" by blast
  then show "levenshtein a b \<le> n"
    unfolding levenshtein_def levenshtein_runes_least using Least_le [of "\<lambda>n. (edit ^^ n) (runes a) (runes b)" m] by simp
qed

section \<open>Ranking and suggestions\<close>

definition name_distance :: "(nat \<Rightarrow> string) \<Rightarrow> string \<Rightarrow> string \<Rightarrow> nat" where
  "name_distance lower_rune token name = levenshtein (to_lower lower_rune token) (to_lower lower_rune name)"

lemma near_eq:
  "near lower_rune (to_lower lower_rune token) names =
     (if \<exists>n \<in> set names. name_distance lower_rune token n = 0 then None
      else Some (filter (\<lambda>m. snd m \<le> max_suggest_distance) (map (\<lambda>n. (n, name_distance lower_rune token n)) names)))"
  by (induction names) (auto simp: name_distance_def Let_def)

lemma sort_key_two:
  assumes "\<forall>x \<in> set xs. f x = a \<or> f x = b" "(a :: nat) < b"
  shows "sort_key f xs = filter (\<lambda>x. f x = a) xs @ filter (\<lambda>x. f x = b) xs"
proof (rule properties_for_sort_key)
  show "mset (filter (\<lambda>x. f x = a) xs @ filter (\<lambda>x. f x = b) xs) = mset xs"
    using assms by (induction xs) auto
  show "filter (\<lambda>x. f k = f x) (filter (\<lambda>x. f x = a) xs @ filter (\<lambda>x. f x = b) xs) = filter (\<lambda>x. f k = f x) xs"
    if "k \<in> set (filter (\<lambda>x. f x = a) xs @ filter (\<lambda>x. f x = b) xs)" for k
    using that assms(2) by (auto intro!: filter_cong)
  show "sorted (map f (filter (\<lambda>x. f x = a) xs @ filter (\<lambda>x. f x = b) xs))"
  proof -
    have "sorted (map f (filter (\<lambda>x. f x = c) xs))" for c by (induction xs) auto
    then show ?thesis using assms(2) by (auto simp: sorted_append)
  qed
qed

lemma rank_eq:
  "rank lower_rune token names =
     (if token = [] \<or> (\<exists>n \<in> set names. name_distance lower_rune token n = 0) then []
      else take 3 (filter (\<lambda>n. name_distance lower_rune token n = 1) names @ filter (\<lambda>n. name_distance lower_rune token n = 2) names))"
proof (cases "token = [] \<or> (\<exists>n \<in> set names. name_distance lower_rune token n = 0)")
  case True
  then show ?thesis by (auto simp: rank_def near_eq)
next
  case False
  let ?d = "name_distance lower_rune token"
  let ?ms = "filter (\<lambda>m. snd m \<le> 2) (map (\<lambda>n. (n, ?d n)) names)"
  have "snd m = 1 \<or> snd m = 2" if "m \<in> set ?ms" for m
  proof -
    have "snd m \<noteq> 0" "snd m \<le> 2" using that False by auto
    then show ?thesis by linarith
  qed
  then have sorted: "sort_key snd ?ms = filter (\<lambda>m. snd m = 1) ?ms @ filter (\<lambda>m. snd m = 2) ?ms"
    by (intro sort_key_two) simp_all
  have fsts: "map fst (filter (\<lambda>m. snd m = k) ?ms) = filter (\<lambda>n. ?d n = k) names" if "k \<le> 2" for k
    using that by (induction names) auto
  have take_min: "take (min (length ?ms) 3) (sort_key snd ?ms) = take 3 (sort_key snd ?ms)"
    using length_sort [where f = snd and xs = ?ms] by (cases "length ?ms \<le> 3") (simp_all only: min_absorb1 min_absorb2 take_all order_refl nle_le)
  have near: "near lower_rune (to_lower lower_rune token) names = Some ?ms"
    unfolding near_eq max_suggest_distance_def using False by (simp only: de_Morgan_disj if_False)
  have "rank lower_rune token names = map fst (take 3 (sort_key snd ?ms))"
    using False unfolding rank_def near max_suggestions_def option.case take_min by (simp only: de_Morgan_disj if_False)
  also have "\<dots> = take 3 (map fst (filter (\<lambda>m. snd m = 1) ?ms) @ map fst (filter (\<lambda>m. snd m = 2) ?ms))"
    unfolding sorted by (simp only: map_append [symmetric] take_map)
  also have "\<dots> = take 3 (filter (\<lambda>n. ?d n = 1) names @ filter (\<lambda>n. ?d n = 2) names)"
    by (simp only: fsts one_le_numeral order_refl)
  finally show ?thesis unfolding if_not_P [OF False] .
qed

lemma rank_bounds:
  assumes "s \<in> set (rank lower_rune token names)"
  shows "s \<in> set names" "name_distance lower_rune token s \<in> {1, 2}" "length (rank lower_rune token names) \<le> 3"
  using assms set_take_subset by (fastforce simp: rank_eq split: if_splits)+

lemma rank_length: "length (rank lower_rune token names) \<le> 3"
  by (simp add: rank_eq del: take_append)

lemma first_ranked_from:
  "first_ranked lower_rune ts names \<noteq> [] \<Longrightarrow> \<exists>t \<in> set ts. first_ranked lower_rune ts names = rank lower_rune t names"
  by (induction ts) (auto simp: Let_def)

lemma agreed_from_some:
  "agreed_from lower_rune chosen ts names \<noteq> [] \<Longrightarrow>
     Some (agreed_from lower_rune chosen ts names) = chosen \<or> (\<exists>t \<in> set ts. agreed_from lower_rune chosen ts names = rank lower_rune t names)"
  by (induction ts arbitrary: chosen) (auto simp: Let_def split: option.splits if_splits)

text \<open>The words an error holds: its details that are texts, and the last word of the command.\<close>

definition error_words :: "error \<Rightarrow> string set" where
  "error_words e = {t. \<exists>k. (k, JStr t) \<in> set (er_details e)} \<union> (if er_command e = [] then {} else {last (er_command e)})"

lemma quoted_details_set:
  "(k, t) \<in> set (quoted_details message details) \<longleftrightarrow> (k, JStr t) \<in> set details \<and> t \<noteq> [] \<and> message \<noteq> [] \<and> contains message t"
  by (auto simp: quoted_details_def split: json.splits)

lemma sorted_values_set: "t \<in> set (sorted_values m) \<longleftrightarrow> (\<exists>k. (k, t) \<in> set m)"
  by (force simp: sorted_values_def)

lemma remaining_values_words: "t \<in> set (remaining_values details quoted) \<Longrightarrow> \<exists>k. (k, JStr t) \<in> set details"
  by (auto simp: remaining_values_def Let_def sorted_values_set split: json.splits if_splits)

lemma suggest_from:
  assumes "suggest lower_rune e names \<noteq> []"
  shows "\<exists>t \<in> error_words e. suggest lower_rune e names = rank lower_rune t names"
proof -
  let ?q = "quoted_details (er_message e) (er_details e)"
  consider (quoted) "first_ranked lower_rune (sorted_values ?q) names \<noteq> []"
      "suggest lower_rune e names = first_ranked lower_rune (sorted_values ?q) names"
    | (typed) "er_command e \<noteq> []" "suggest lower_rune e names = rank lower_rune (last (er_command e)) names"
    | (rest) "agreed lower_rune (remaining_values (er_details e) ?q) names \<noteq> []"
      "suggest lower_rune e names = agreed lower_rune (remaining_values (er_details e) ?q) names"
    using assms by (auto simp: suggest_def Let_def split: if_splits)
  then show ?thesis
  proof cases
    case quoted
    then obtain t where "t \<in> set (sorted_values ?q)" "suggest lower_rune e names = rank lower_rune t names"
      using first_ranked_from by metis
    then show ?thesis by (auto simp: sorted_values_set quoted_details_set error_words_def)
  next
    case typed
    then show ?thesis by (auto simp: error_words_def)
  next
    case rest
    then obtain t where "t \<in> set (remaining_values (er_details e) ?q)" "suggest lower_rune e names = rank lower_rune t names"
      unfolding agreed_def using agreed_from_some [of lower_rune None _ names] by auto
    moreover from this(1) obtain k where "(k, JStr t) \<in> set (er_details e)" using remaining_values_words by blast
    ultimately show ?thesis by (auto simp: error_words_def)
  qed
qed

section \<open>Layout\<close>

lemma chunks_concat: "0 < n \<Longrightarrow> concat (chunks n xs) = xs"
  by (induction n xs rule: chunks.induct) (subst chunks.simps, auto)

lemma chunks_length: "r \<in> set (chunks n xs) \<Longrightarrow> r \<noteq> [] \<and> length r \<le> n"
  by (induction n xs rule: chunks.induct) (subst (asm) (2) chunks.simps, auto split: if_splits)

lemma widest: "foldl (\<lambda>w n. if length n > w then length n else w) k ns = fold (\<lambda>n w. max (length n) w) ns k"
  by (induction ns arbitrary: k) (auto simp: max_def)

lemma widest_ge: "n \<in> set ns \<Longrightarrow> length n \<le> fold (\<lambda>n w. max (length n) w) ns k"
  and widest_start: "k \<le> fold (\<lambda>n w. max (length n) w) ns k"
proof -
  show start: "k \<le> fold (\<lambda>n w. max (length n) w) ns k" for ns and k :: nat
  proof (induction ns arbitrary: k)
    case (Cons m ns)
    have "k \<le> fold (\<lambda>n w. max (length n) w) ns (max (length m) k)" by (rule order_trans [OF max.cobounded2 Cons])
    then show ?case by simp
  qed simp
  show "n \<in> set ns \<Longrightarrow> length n \<le> fold (\<lambda>n w. max (length n) w) ns k"
  proof (induction ns arbitrary: k)
    case (Cons m ns)
    then show ?case using start [of "max (length m) k" ns] by auto
  qed simp
qed

lemma cell_ge: "n \<in> set names \<Longrightarrow> length n + 2 \<le> column_cell names"
  using widest_ge by (simp add: column_cell_def widest)

lemma trim_right_le: "length (trim_right s) \<le> length s"
  using length_dropWhile_le [of "\<lambda>c. c = CHR '' ''" "rev s"] by (simp add: trim_right_def)

lemma trim_right_spaces: "trim_right (s @ repeat_str n '' '') = trim_right s"
proof -
  have "repeat_str n '' '' = replicate n (CHR '' '')" by (induction n) (simp_all add: repeat_str_def)
  moreover have "dropWhile (\<lambda>c. c = CHR '' '') (replicate n (CHR '' '') @ rev s) = dropWhile (\<lambda>c. c = CHR '' '') (rev s)"
    by (induction n) simp_all
  ultimately show ?thesis by (simp add: trim_right_def)
qed

lemma length_repeat_space [simp]: "length (repeat_str n '' '') = n"
  by (induction n) (simp_all add: repeat_str_def)

lemma padded_row:
  assumes "set r \<subseteq> set names"
  shows "length (concat (map (\<lambda>n. n @ repeat_str (column_cell names - length n) '' '') r)) = column_cell names * length r"
  using assms
proof (induction r)
  case (Cons n r)
  then show ?case using cell_ge [of n names] by simp
qed simp

lemma per_row_fits: "1 < per_row names width \<Longrightarrow> 6 + int (column_cell names * per_row names width) \<le> width"
proof -
  assume "1 < per_row names width"
  then have "int (per_row names width) = (width - int (length entry_indent)) div int (column_cell names)"
    by (auto simp: per_row_def Let_def split: if_splits)
  moreover have "length entry_indent = 6" by (simp add: entry_indent_def)
  moreover define c q where "c = int (column_cell names)" and "q = (width - 6) div c"
  moreover have "c * q \<le> width - 6"
  proof -
    have "0 < c" by (simp add: c_def column_cell_def)
    then have "0 \<le> (width - 6) mod c" by simp
    moreover have "width - 6 = c * q + (width - 6) mod c" by (simp add: q_def)
    ultimately show ?thesis by linarith
  qed
  ultimately show ?thesis by simp
qed

section \<open>Iteration order\<close>

lemma sort_by_key_permuted:
  assumes "mset d = mset d'" "distinct (map fst d)"
  shows "sort_key fst d = sort_key fst d'"
  using assms by (intro sort_key_inj_key_eq) (simp_all add: distinct_map)

lemma sort_permuted: "mset xs = mset ys \<Longrightarrow> sort xs = sort ys"
  by (intro properties_for_sort) simp_all

lemma mset_concat_map: "mset (concat (map f xs)) = \<Sum>\<^sub># (image_mset (\<lambda>x. mset (f x)) (mset xs))"
  by (induction xs) simp_all

lemma quoted_permuted: "mset d = mset d' \<Longrightarrow> mset (quoted_details m d) = mset (quoted_details m d')"
  by (simp add: quoted_details_def mset_concat_map)

lemma distinct_selected:
  assumes "distinct (map fst d)" "\<And>x. f x = [] \<or> (\<exists>t. f x = [(fst x, t)])"
  shows "distinct (map fst (concat (map f d)))"
  using assms(1)
proof (induction d)
  case (Cons x d)
  have key: "fst p \<in> fst ` set d" if "y \<in> set d" "p \<in> set (f y)" for y p
    using that assms(2) [of y] by auto
  have "fst ` set (concat (map f d)) \<subseteq> fst ` set d" by (auto dest: key)
  then have "fst x \<notin> fst ` set (concat (map f d))" using Cons.prems by auto
  moreover have "distinct (map fst (concat (map f d)))" using Cons by simp
  ultimately show ?case using assms(2) [of x] by (elim disjE exE) simp_all
qed simp

lemma distinct_quoted: "distinct (map fst d) \<Longrightarrow> distinct (map fst (quoted_details m d))"
  unfolding quoted_details_def by (auto intro!: distinct_selected split: json.splits)

lemma sorted_quoted_permuted:
  "mset d = mset d' \<Longrightarrow> distinct (map fst d) \<Longrightarrow> sorted_values (quoted_details m d) = sorted_values (quoted_details m d')"
  unfolding sorted_values_def using sort_by_key_permuted [OF quoted_permuted distinct_quoted] by metis

lemma remaining_permuted:
  assumes "mset d = mset d'" "distinct (map fst d)"
  shows "remaining_values d (quoted_details m d) = remaining_values d' (quoted_details m d')"
proof -
  have keys: "set (quoted_details m d) = set (quoted_details m d')" using mset_eq_setD [OF quoted_permuted [OF assms(1)]] .
  let ?f = "\<lambda>q (k, v). case v of JStr t \<Rightarrow> if k \<in> fst ` set (quoted_details m q) then [] else [(k, t)] | _ \<Rightarrow> []"
  have f: "?f d = ?f d'" unfolding keys ..
  have "mset (concat (map (?f d) d)) = mset (concat (map (?f d') d'))" unfolding f mset_concat_map assms(1) ..
  moreover have "distinct (map fst (concat (map (?f d) d)))"
    by (rule distinct_selected [OF assms(2)]) (auto split: json.splits prod.splits)
  ultimately have "sort_key fst (concat (map (?f d) d)) = sort_key fst (concat (map (?f d') d'))" by (rule sort_by_key_permuted)
  then show ?thesis by (simp add: remaining_values_def sorted_values_def Let_def)
qed

lemma map_of_permuted: "mset d = mset d' \<Longrightarrow> distinct (map fst d) \<Longrightarrow> map_of d = map_of d'"
  by (metis map_of_inject_set mset_eq_setD mset_map distinct_count_atmost_1 set_mset_mset mset_eq_imp_distinct_iff)

lemma suggest_permuted:
  assumes "mset d = mset (er_details e)" "distinct (map fst d)"
  shows "suggest lower_rune (e\<lparr>er_details := d\<rparr>) names = suggest lower_rune e names"
  using sorted_quoted_permuted [OF assms] remaining_permuted [OF assms] by (simp add: suggest_def Let_def)

lemma detail_rows_permuted:
  assumes "mset d = mset (er_details e)" "distinct (map fst d)"
  shows "detail_rows encode shown (e\<lparr>er_details := d\<rparr>) sectioned = detail_rows encode shown e sectioned"
proof -
  have "set (quoted_details (er_message e) d) = set (quoted_details (er_message e) (er_details e))"
    using mset_eq_setD [OF quoted_permuted [OF assms(1)]] .
  moreover have "sort (filter P (map fst d)) = sort (filter P (map fst (er_details e)))" for P
  proof (rule sort_permuted)
    have "mset (map fst d) = mset (map fst (er_details e))" using assms(1) by simp
    then show "mset (filter P (map fst d)) = mset (filter P (map fst (er_details e)))" by (simp only: mset_filter)
  qed
  ultimately have "row_keys (e\<lparr>er_details := d\<rparr>) sectioned = row_keys e sectioned" by (simp add: row_keys_def Let_def)
  then show ?thesis using map_of_permuted [OF assms] by (simp add: detail_rows_def Let_def)
qed

section \<open>Properties\<close>

text \<open>C15:
  The two rows that are overwritten in turn compute the edit distance: the least number of insertions, removals
  and replacements of one rune that lead from the one string to the other.
\<close>

theorem levenshtein_least: "levenshtein a b = (LEAST n. (edit ^^ n) (runes a) (runes b))"
  by (simp add: levenshtein_def levenshtein_runes_least)

text \<open>What \<open>rank\<close> offers for a token: nothing when the token is empty or one of the names, up to case; otherwise the
  first three of the names at distance one followed by those at distance two, each in the order of the list.
\<close>

theorem rank_exact:
  "rank lower_rune token names =
     (if token = [] \<or> (\<exists>n \<in> set names. name_distance lower_rune token n = 0) then []
      else take 3 (filter (\<lambda>n. name_distance lower_rune token n = 1) names @ filter (\<lambda>n. name_distance lower_rune token n = 2) names))"
  by (rule rank_eq)

text \<open>A suggestion is the ranking of a word the error itself holds, a detail or the last word typed: at most three
  names of the list, each one or two edits of a rune away from that word when both are folded to lower case.
\<close>

theorem suggestions_near:
  assumes "s \<in> set (suggest lower_rune e names)"
  shows "s \<in> set names \<and> length (suggest lower_rune e names) \<le> 3
    \<and> (\<exists>t \<in> error_words e. suggest lower_rune e names = rank lower_rune t names
         \<and> (\<exists>n. 0 < n \<and> n \<le> 2 \<and> (edit ^^ n) (runes (to_lower lower_rune t)) (runes (to_lower lower_rune s))))"
proof -
  have "suggest lower_rune e names \<noteq> []" using assms by auto
  from suggest_from [OF this] obtain t where t: "t \<in> error_words e" "suggest lower_rune e names = rank lower_rune t names"
    by blast
  have s: "s \<in> set (rank lower_rune t names)" using assms t(2) by simp
  let ?n = "name_distance lower_rune t s"
  have "0 < ?n \<and> ?n \<le> 2" using rank_bounds(2) [OF s] by auto
  moreover have "(edit ^^ ?n) (runes (to_lower lower_rune t)) (runes (to_lower lower_rune s))"
    unfolding name_distance_def levenshtein_def levenshtein_runes_edits using edits_reach edits_rev by metis
  ultimately show ?thesis using t rank_bounds(1) [OF s] rank_length [of lower_rune t names] by auto
qed

text \<open>C39:
  The grid of names keeps every name, in order, and fits the terminal: a row with its indent is no wider than the
  width, unless it is a single name that is wider by itself.
\<close>

theorem columns_fit:
  "(\<exists>rows. concat rows = names
      \<and> columns names width = map (\<lambda>r. trim_right (concat (map (\<lambda>n. n @ repeat_str (column_cell names - length n) '' '') r))) rows)
   \<and> (\<forall>row \<in> set (columns names width). int (length entry_indent + length row) \<le> width \<or> row \<in> trim_right ` set names)"
proof
  let ?pad = "\<lambda>n. n @ repeat_str (column_cell names - length n) '' ''"
  have pos: "0 < per_row names width" by (simp add: per_row_def Let_def)
  have whole: "concat (chunks (per_row names width) names) = names" by (rule chunks_concat [OF pos])
  then show "\<exists>rows. concat rows = names \<and> columns names width = map (\<lambda>r. trim_right (concat (map ?pad r))) rows"
    unfolding columns_def by blast
  show "\<forall>row \<in> set (columns names width). int (length entry_indent + length row) \<le> width \<or> row \<in> trim_right ` set names"
  proof
    fix row assume "row \<in> set (columns names width)"
    then obtain r where r: "r \<in> set (chunks (per_row names width) names)" "row = trim_right (concat (map ?pad r))"
      by (auto simp: columns_def)
    have sub: "set r \<subseteq> set names" using r(1) whole by (metis UN_upper set_concat)
    have len: "r \<noteq> []" "length r \<le> per_row names width" using chunks_length [OF r(1)] by simp_all
    show "int (length entry_indent + length row) \<le> width \<or> row \<in> trim_right ` set names"
    proof (cases "length r = 1")
      case True
      then obtain n where "r = [n]" by (cases r) auto
      then show ?thesis using r(2) sub trim_right_spaces by auto
    next
      case False
      then have many: "1 < per_row names width" using len False by (cases "length r") simp_all
      have "length row \<le> column_cell names * length r" using r(2) trim_right_le padded_row [OF sub] by metis
      also have "\<dots> \<le> column_cell names * per_row names width" using len(2) by simp
      finally have "int (length row) \<le> int (column_cell names * per_row names width)" by (simp only: of_nat_le_iff)
      moreover have "length entry_indent = 6" by (simp add: entry_indent_def)
      ultimately show ?thesis using per_row_fits [OF many] by linarith
    qed
  qed
qed

text \<open>The terminal layout loses no detail: one that is neither quoted by the message nor shown in a section of its
  own has a row under \<open>details:\<close>, with its key and its whole value.
\<close>

theorem detail_not_lost:
  assumes "distinct (map fst (er_details e))" and "(k, v) \<in> set (er_details e)"
    and "\<forall>t. v = JStr t \<longrightarrow> t = [] \<or> er_message e = [] \<or> \<not> contains (er_message e) t"
    and "k = available_key \<longrightarrow> string_list (Some v) = []" and "k = try_key \<longrightarrow> (\<forall>r. v = JStr r \<longrightarrow> r = [])"
  shows "\<exists>rows n w. labelled (dim (env_colour env) ''details:'') rows \<in> set (pretty_sections env e)
    \<and> k @ repeat_str (n + 2) '' '' @ indent_continuation (detail_value (env_encode env) (env_shown env) v) w \<in> set rows"
proof -
  have v: "map_of (er_details e) k = Some v" using assms(1,2) by simp
  let ?remedy = "case map_of (er_details e) try_key of Some (JStr r) \<Rightarrow> r | _ \<Rightarrow> []"
  define sectioned where "sectioned = (if string_list (map_of (er_details e) available_key) \<noteq> [] then [available_key] else [])
      @ (if ?remedy \<noteq> [] then [try_key] else [])"
  have "k \<notin> fst ` set (quoted_details (er_message e) (er_details e))"
  proof
    assume "k \<in> fst ` set (quoted_details (er_message e) (er_details e))"
    then obtain t where t: "(k, JStr t) \<in> set (er_details e)" "t \<noteq> []" "er_message e \<noteq> []" "contains (er_message e) t"
      by (auto simp: quoted_details_set)
    then have "v = JStr t" using v map_of_is_SomeI [OF assms(1) t(1)] by simp
    then show False using assms(3) t by blast
  qed
  moreover have "k \<notin> set sectioned" using assms(4,5) v by (auto simp: sectioned_def split: json.splits option.splits)
  ultimately have k: "k \<in> set (row_keys e sectioned)" using assms(2) by (force simp: row_keys_def)
  let ?rows = "detail_rows (env_encode env) (env_shown env) e sectioned"
  have row: "\<exists>n w. k @ repeat_str (n + 2) '' '' @ indent_continuation (detail_value (env_encode env) (env_shown env) v) w \<in> set ?rows"
    unfolding detail_rows_def Let_def set_map using k v by (force simp del: repeat_str_def)
  then have "?rows \<noteq> []" by auto
  then have "labelled (dim (env_colour env) ''details:'') ?rows \<in> set (pretty_sections env e)"
    by (simp add: pretty_sections_def Let_def sectioned_def)
  with row show ?thesis by blast
qed

text \<open>
  A list of names with an item that is not a text keeps its section, so the item is not shown anywhere.
\<close>

lemma mixed_list_loses_item:
  "pretty_sections env (e\<lparr>er_details := [(available_key, JArr [JStr s, JNum n])]\<rparr>)
   = pretty_sections env (e\<lparr>er_details := [(available_key, JArr [JStr s])]\<rparr>)"
  by (simp add: pretty_sections_def Let_def available_key_def try_key_def detail_rows_def row_keys_def quoted_details_def
      suggest_def sorted_values_def remaining_values_def headline_def spoken_command_def)

text \<open>What is printed does not depend on the order in which a map of details is iterated, for an encoder that
  writes the keys of a map in order.
\<close>

theorem render_order_free:
  assumes "mset d = mset (er_details e)" "distinct (map fst d)"
    and "\<And>x y. mset x = mset y \<Longrightarrow> env_encode env (JObj x) = env_encode env (JObj y)"
    and "\<And>x y. mset x = mset y \<Longrightarrow> env_encode env (json_error e x) = env_encode env (json_error e y)"
  shows "render env (e\<lparr>er_details := d\<rparr>) m = render env e m"
proof -
  let ?e = "e\<lparr>er_details := d\<rparr>"
  note lookup = map_of_permuted [OF assms(1,2)]
  have empty: "d = [] \<longleftrightarrow> er_details e = []" using assms(1) by auto
  have plain: "plain_message (env_encode env) ?e = plain_message (env_encode env) e"
    using lookup empty assms(3) [OF assms(1)] by (simp add: plain_message_def Let_def)
  have same: "json_error ?e = json_error e" by (simp add: json_error_def fun_eq_iff)
  have "detail_keys d = detail_keys (er_details e)"
    unfolding detail_keys_def using assms(1) by (intro sort_permuted) simp
  then have json: "render_json (env_encode env) ?e = render_json (env_encode env) e"
    using plain assms(4) [OF assms(1)] by (simp add: render_json_def same split: sum.split)
  have "headline c ?e = headline c e" for c by (simp add: headline_def spoken_command_def Let_def)
  then have "pretty_sections env ?e = pretty_sections env e"
    using lookup suggest_permuted [OF assms(1,2)] detail_rows_permuted [OF assms(1,2)] by (simp add: pretty_sections_def Let_def)
  then show ?thesis using plain json by (simp add: render_def render_pretty_def split: mode.split)
qed

section \<open>Examples\<close>

definition demo_error :: error where
  "demo_error = \<lparr>er_type = ''domain'', er_code = ''c'', er_message = ''no'', er_details = [(''k'', JNum ''5''), (''j'', JNull)],
     er_command = [''ad''], er_local = False\<rparr>"

definition demo_encode :: "json \<Rightarrow> (string, string) result" where
  "demo_encode v = (case v of JObj es \<Rightarrow> Ok (join '','' (sort (map fst es))) | JNum n \<Rightarrow> Ok n | _ \<Rightarrow> Err ''no'')"

definition demo_render :: render_env where
  "demo_render = \<lparr>env_encode = demo_encode, env_shown = (\<lambda>_. ''?''), env_lower = (\<lambda>_. []), env_columns = [], env_colour = False\<rparr>"

lemma demo_suggest: "suggest (\<lambda>_. []) demo_error [''add'', ''list''] = [''add'']"
proof -
  have runes: "runes ''ad'' = [97, 100]" "runes ''add'' = [97, 100, 100]" "runes ''list'' = [108, 105, 115, 116]"
    by (simp_all add: runes_ascii of_char_def)
  have "levenshtein_runes [97, 100 :: nat] [97, 100, 100] = 1" "levenshtein_runes [97, 100 :: nat] [108, 105, 115, 116] = 4"
    by code_simp+
  then have d: "name_distance (\<lambda>_. []) ''ad'' ''add'' = 1" "name_distance (\<lambda>_. []) ''ad'' ''list'' = 4"
    by (simp_all add: name_distance_def levenshtein_def runes)
  then have "rank (\<lambda>_. []) ''ad'' [''add'', ''list''] = [''add'']" by (simp add: rank_eq)
  then show ?thesis by (simp add: suggest_def Let_def demo_error_def quoted_details_def sorted_values_def)
qed

theorem suggestions_near_witness:
  "\<exists>n. 0 < n \<and> n \<le> 2 \<and> (edit ^^ n) (runes (to_lower (\<lambda>_. []) ''ad'')) (runes (to_lower (\<lambda>_. []) ''add''))"
  using suggestions_near [of "''add''" "\<lambda>_. []" demo_error "[''add'', ''list'']"] demo_suggest
  by (auto simp: error_words_def demo_error_def)

theorem columns_fit_witness:
  "columns [''a'', ''b''] 40 = [''a  b''] \<and> (int (length entry_indent + length ''a  b'') \<le> 40 \<or> ''a  b'' \<in> trim_right ` {''a'', ''b''})"
proof -
  have c: "columns [''a'', ''b''] 40 = [''a  b'']" by code_simp
  show ?thesis using columns_fit [of "[''a'', ''b'']" 40] unfolding c by auto
qed

theorem detail_not_lost_witness:
  "\<exists>rows n w. labelled (dim False ''details:'') rows \<in> set (pretty_sections demo_render demo_error)
    \<and> ''k'' @ repeat_str (n + 2) '' '' @ indent_continuation ''5'' w \<in> set rows"
  using detail_not_lost [of demo_error "''k''" "JNum ''5''" demo_render]
  by (simp add: demo_error_def demo_render_def available_key_def try_key_def detail_value_def demo_encode_def)

theorem render_order_free_witness:
  "render demo_render (demo_error\<lparr>er_details := [(''j'', JNull), (''k'', JNum ''5'')]\<rparr>) Pretty = render demo_render demo_error Pretty"
proof (rule render_order_free)
  show "mset [(''j'', JNull), (''k'', JNum ''5'')] = mset (er_details demo_error)" by (simp add: demo_error_def)
  show "distinct (map fst [(''j'', JNull), (''k'', JNum ''5'')])" by simp
next
  fix x y :: object assume eq: "mset x = mset y"
  have "sort (map fst x) = sort (map fst y)" by (rule sort_permuted) (simp add: eq)
  then show "env_encode demo_render (JObj x) = env_encode demo_render (JObj y)" by (simp add: demo_render_def demo_encode_def)
next
  fix x y :: object
  show "env_encode demo_render (json_error demo_error x) = env_encode demo_render (json_error demo_error y)"
    by (simp add: demo_render_def demo_encode_def json_error_def)
qed

lemma json_only_by_name:
  "mode_for value writer = JsonMode \<longleftrightarrow> value = ''json''"
  by (auto simp: mode_for_def resolve_def validate_format_def accepted_formats_def detect_def
      split: option.splits sum.splits bool.splits if_splits)

end
