(* ===== verification/Client.thy ===== *)
theory Client
  imports Error_Format Forward Pool_Record Process_Control
begin

text \<open>
  The client of the Mill (\<open>cli/internal/client\<close>): the errors of a call, the relay of a response to the
  standard output, the exit code, the deadline and the check of the response of a plain call, and the
  metadata a running Mill is found by.

  A response line is given by its bytes and by what it parses as.  Standard output is a sink whose writes
  may fail.  The text of an error that the standard library words is an argument, \<open>says\<close>.
\<close>

section \<open>Errors of a call\<close>

record response_error =
  re_type :: string
  re_code :: string
  re_message :: string
  re_details :: "object option" \<comment> \<open>\<open>None\<close> is the nil map\<close>

datatype fault =
    ReadFails string
  | FrameMalformed
  | ResponseMalformed
  | VerbatimMalformed
  | HeaderMalformed
  | StreamUnfinished string
  | TerminatorMalformed
  | WriteFails string
  | EncodeFails string
  | ErrorMissing
  | ErrorUndecodable
  | ErrorInvalid
  | SendFails
  | Unreachable_mill
  | MetadataFails
  | Unusable_response

datatype call_error =
    ResponseErr response_error
  | TransportErr string fault \<comment> \<open>its code\<close>
  | OtherErr fault

definition code_mill_unreachable :: string where "code_mill_unreachable = ''cli/mill-unreachable''"
definition code_mill_transport_failed :: string where "code_mill_transport_failed = ''cli/mill-transport-failed''"
definition code_response_malformed :: string where "code_response_malformed = ''cli/weaver-response-malformed''"

definition response_for_rendering :: "string list \<Rightarrow> response_error \<Rightarrow> error" where
  "response_for_rendering command e =
     \<lparr>er_type = re_type e, er_code = re_code e, er_message = re_message e,
      er_details = (case re_details e of None \<Rightarrow> [] | Some d \<Rightarrow> d), er_command = command, er_local = False\<rparr>"

definition response_error_text :: "(json \<Rightarrow> (string, string) result) \<Rightarrow> response_error option \<Rightarrow> string" where
  "response_error_text encode e =
     (case e of None \<Rightarrow> ''weaver error'' | Some e \<Rightarrow> plain_message encode (response_for_rendering [] e))"

definition as_transport :: "call_error option \<Rightarrow> call_error option" where
  "as_transport e =
     (case e of Some (OtherErr f) \<Rightarrow> Some (TransportErr code_mill_transport_failed f) | _ \<Rightarrow> e)"

definition for_rendering :: "(fault \<Rightarrow> string) \<Rightarrow> string list \<Rightarrow> call_error \<Rightarrow> error" where
  "for_rendering says command e =
     (case e of
        ResponseErr r \<Rightarrow> response_for_rendering command r
      | TransportErr code f \<Rightarrow> local_error type_transport code (Some (says f)) command
      | OtherErr f \<Rightarrow> from_error (Some (says f)) command)"

definition valid_response_error :: "response_error \<Rightarrow> bool" where
  "valid_response_error e \<longleftrightarrow>
     re_code e \<noteq> [] \<and> re_message e \<noteq> [] \<and> re_details e \<noteq> None \<and> re_type e \<in> set [''domain'', ''protocol'', ''transport'']"

text \<open>Decoding of a \<open>ResponseError\<close>; unknown fields are ignored, a repeated \<open>details\<close> adds to the map.\<close>

definition response_fields :: "string list" where
  "response_fields = [''type'', ''code'', ''message'', ''details'']"

definition set_response_field :: "string \<Rightarrow> json \<Rightarrow> response_error \<Rightarrow> response_error option" where
  "set_response_field n v e =
     (if n = ''type'' then map_option (\<lambda>x. e\<lparr>re_type := x\<rparr>) (decode_str (re_type e) v)
      else if n = ''code'' then map_option (\<lambda>x. e\<lparr>re_code := x\<rparr>) (decode_str (re_code e) v)
      else if n = ''message'' then map_option (\<lambda>x. e\<lparr>re_message := x\<rparr>) (decode_str (re_message e) v)
      else (case v of
              JNull \<Rightarrow> Some (e\<lparr>re_details := None\<rparr>)
            | JObj es \<Rightarrow> Some (e\<lparr>re_details := Some (object_map
                ((case re_details e of None \<Rightarrow> [] | Some d \<Rightarrow> d) @ map (\<lambda>(k, x). (k, any_of x)) es))\<rparr>)
            | _ \<Rightarrow> None))"

definition empty_response_error :: response_error where
  "empty_response_error = \<lparr>re_type = [], re_code = [], re_message = [], re_details = None\<rparr>"

definition decode_response_error :: "json \<Rightarrow> response_error option" where
  "decode_response_error = known_struct response_fields set_response_field empty_response_error"

section \<open>Frames\<close>

text \<open>
  \<open>decodeFrame\<close> of what a line parses as (\<open>None\<close>: not JSON); \<open>null\<close> is an empty frame.  \<open>frame_bool\<close> fails on
  an absent key and a value that is no boolean.
\<close>

definition decode_frame :: "json option \<Rightarrow> object option" where
  "decode_frame parsed =
     (case parsed of Some (JObj es) \<Rightarrow> Some (object_map es) | Some JNull \<Rightarrow> Some [] | _ \<Rightarrow> None)"

definition frame_bool :: "object \<Rightarrow> string \<Rightarrow> bool option" where
  "frame_bool frame key = (case map_of frame key of None \<Rightarrow> None | Some v \<Rightarrow> decode_bool False v)"

definition stream_identity :: "object \<Rightarrow> string option" where
  "stream_identity frame =
     (if json_int (map_of frame ''protocol_version'') \<noteq> Some mill_protocol_version then None
      else case map_of frame ''request_id'' of
        Some (JStr s) \<Rightarrow> if s = [] then None else Some s
      | _ \<Rightarrow> None)"

definition client_stream_header :: "object \<Rightarrow> bool" where
  "client_stream_header frame \<longleftrightarrow>
     frame_bool frame ''stream'' = Some True \<and> stream_identity frame \<noteq> None \<and> length frame = 3"

definition terminator_keys :: "string list" where
  "terminator_keys = [''protocol_version'', ''request_id'', ''done'', ''success'', ''result'', ''error'']"

definition closed_terminator :: "object \<Rightarrow> string \<Rightarrow> bool" where
  "closed_terminator frame request_id =
     (frame_bool frame ''done'' = Some True
      \<and> (case frame_bool frame ''success'' of
           None \<Rightarrow> False
         | Some success \<Rightarrow>
             length frame = 5 \<and> fst ` set frame \<subseteq> set terminator_keys
             \<and> (if success then map_of frame ''result'' \<noteq> None \<and> map_of frame ''error'' = None
                else map_of frame ''error'' \<noteq> None \<and> map_of frame ''result'' = None)
             \<and> stream_identity frame = Some request_id))"

section \<open>The relay to standard output\<close>

text \<open>A read of \<open>readFrameLine\<close>: bytes, with or without the newline at the end, or the error of an empty read.\<close>

datatype client_read = LineRead string "json option" | ReadEnds string

record sink =
  sk_out :: string
  sk_faults :: "string option list" \<comment> \<open>the outcomes of the writes to come; they succeed when it is empty\<close>

definition write_out :: "string \<Rightarrow> sink \<Rightarrow> sink \<times> string option" where
  "write_out s k =
     (case sk_faults k of
        Some e # fs \<Rightarrow> (k\<lparr>sk_faults := fs\<rparr>, Some e)
      | fs \<Rightarrow> (k\<lparr>sk_out := sk_out k @ s, sk_faults := tl fs\<rparr>, None))"

text \<open>A write followed by a newline of its own where the text does not end in one.\<close>

definition write_line :: "string \<Rightarrow> sink \<Rightarrow> sink \<times> string option" where
  "write_line s k =
     (case write_out s k of
        (k, Some e) \<Rightarrow> (k, Some e)
      | (k, None) \<Rightarrow> if s = [] \<or> last s \<noteq> CHR 0x0A then write_out [CHR 0x0A] k else (k, None))"

record relay_result =
  rl_code :: int
  rl_err :: "call_error option"
  rl_sink :: sink
  rl_stderr :: string

record relay_env =
  rv_render :: render_env
  rv_mode :: mode \<comment> \<open>\<open>ModeFor(stderr)\<close>\<close>
  rv_command :: "string list"

definition ends :: "sink \<Rightarrow> call_error option \<Rightarrow> relay_result" where
  "ends k err = \<lparr>rl_code = (if err = None then 0 else 1), rl_err = err, rl_sink = k, rl_stderr = []\<rparr>"

definition surface_error :: "relay_env \<Rightarrow> json option \<Rightarrow> sink \<Rightarrow> relay_result" where
  "surface_error env raw k =
     (case raw of
        None \<Rightarrow> ends k (Some (TransportErr code_response_malformed ErrorMissing))
      | Some v \<Rightarrow>
          (case decode_response_error v of
             None \<Rightarrow> ends k (Some (TransportErr code_response_malformed ErrorUndecodable))
           | Some e \<Rightarrow>
               if \<not> valid_response_error e then ends k (Some (TransportErr code_response_malformed ErrorInvalid))
               else \<lparr>rl_code = 1, rl_err = Some (ResponseErr e), rl_sink = k,
                     rl_stderr = render (rv_render env) (response_for_rendering (rv_command env) e) (rv_mode env)\<rparr>))"

definition relay_verbatim :: "json option \<Rightarrow> sink \<Rightarrow> relay_result" where
  "relay_verbatim raw k =
     (case (case raw of None \<Rightarrow> None | Some v \<Rightarrow> decode_str [] v) of
        None \<Rightarrow> ends k (Some (OtherErr VerbatimMalformed))
      | Some s \<Rightarrow> (case write_line s k of (k, err) \<Rightarrow> ends k (map_option (OtherErr \<circ> WriteFails) err)))"

text \<open>\<open>result_of\<close> is the second decoding of the line, into a struct with the field \<open>result\<close>.\<close>

definition result_of :: "json option \<Rightarrow> json" where
  "result_of parsed =
     (case parsed of
        Some (JObj es) \<Rightarrow> fold (\<lambda>(k, v) old. if field_of [''result''] k = None then old else any_of v) es JNull
      | _ \<Rightarrow> JNull)"

definition relay_single :: "relay_env \<Rightarrow> object \<Rightarrow> json option \<Rightarrow> sink \<Rightarrow> relay_result" where
  "relay_single env frame parsed k =
     (case frame_bool frame ''ok'' of
        None \<Rightarrow> ends k (Some (OtherErr ResponseMalformed))
      | Some False \<Rightarrow> surface_error env (map_of frame ''error'') k
      | Some True \<Rightarrow>
          if frame_bool frame ''verbatim'' = Some True then relay_verbatim (map_of frame ''result'') k
          else (case env_encode (rv_render env) (result_of parsed) of
            Inl e \<Rightarrow> ends k (Some (OtherErr (EncodeFails e)))
          | Inr text \<Rightarrow>
              (case write_out (text @ [CHR 0x0A]) k of (k, err) \<Rightarrow> ends k (map_option (OtherErr \<circ> WriteFails) err))))"

text \<open>The loop of \<open>relayStream\<close>; \<open>None\<close> while it waits for another line.\<close>

fun client_lines :: "relay_env \<Rightarrow> string \<Rightarrow> client_read list \<Rightarrow> sink \<Rightarrow> relay_result option" where
  "client_lines env request_id [] k = None"
| "client_lines env request_id (ReadEnds e # rs) k = Some (ends k (Some (OtherErr (StreamUnfinished e))))"
| "client_lines env request_id (LineRead line parsed # rs) k =
     (case decode_frame parsed of
        None \<Rightarrow> Some (ends k (Some (OtherErr FrameMalformed)))
      | Some frame \<Rightarrow>
          if closed_terminator frame request_id then
            (case frame_bool frame ''success'' of
               None \<Rightarrow> Some (ends k (Some (OtherErr TerminatorMalformed)))
             | Some True \<Rightarrow> Some (ends k None)
             | Some False \<Rightarrow> Some (surface_error env (map_of frame ''error'') k))
          else (case write_line line k of
                  (k, Some e) \<Rightarrow> Some (ends k (Some (OtherErr (WriteFails e))))
                | (k, None) \<Rightarrow> client_lines env request_id rs k))"

definition relay_stream :: "relay_env \<Rightarrow> object \<Rightarrow> client_read list \<Rightarrow> sink \<Rightarrow> relay_result option" where
  "relay_stream env header reads k =
     (case stream_identity header of
        None \<Rightarrow> Some (ends k (Some (OtherErr HeaderMalformed)))
      | Some request_id \<Rightarrow> client_lines env request_id reads k)"

definition relay_response :: "relay_env \<Rightarrow> client_read list \<Rightarrow> sink \<Rightarrow> relay_result option" where
  "relay_response env reads k =
     (case reads of
        [] \<Rightarrow> None
      | ReadEnds e # _ \<Rightarrow> Some (ends k (Some (OtherErr (ReadFails e))))
      | LineRead line parsed # rs \<Rightarrow>
          (case decode_frame parsed of
             None \<Rightarrow> Some (ends k (Some (OtherErr FrameMalformed)))
           | Some frame \<Rightarrow>
               if client_stream_header frame then relay_stream env frame rs k
               else Some (relay_single env frame parsed k)))"

text \<open>\<open>commandFromEnvelope\<close>; \<open>argv\<close> is a list of strings in the process and of values after decoding.\<close>

definition command_from_envelope :: "object \<Rightarrow> string list" where
  "command_from_envelope envelope =
     (case map_of envelope ''name'' of Some (JStr n) \<Rightarrow> if n = [] then [] else [n] | _ \<Rightarrow> [])
     @ string_list (map_of envelope ''argv'')"

section \<open>The metadata of a Mill\<close>

record mill_metadata =
  mm_version :: int
  mm_mill_version :: string
  mm_pid :: int
  mm_mill_id :: string
  mm_state_root :: string
  mm_socket :: string
  mm_started_at :: string
  mm_build :: string

definition missing_metadata_fields :: "mill_metadata \<Rightarrow> string list" where
  "missing_metadata_fields m =
     (if mm_version m = 0 then [''protocol_version''] else []) @ (if mm_pid m = 0 then [''pid''] else [])
     @ (if mm_mill_id m = [] then [''mill_id''] else []) @ (if mm_state_root m = [] then [''state_root''] else [])
     @ (if mm_socket m = [] then [''socket_path''] else []) @ (if mm_started_at m = [] then [''started_at''] else [])"

datatype metadata_error =
    NoRunningMill
  | MetadataUnreadable
  | MetadataMalformed
  | MetadataIncomplete "string list"
  | RootMismatch string
  | SocketMismatch string
  | StaleMill int
  | ProtocolMismatch int

text \<open>\<open>samePath\<close>; \<open>eval\<close> resolves the links of a path, \<open>None\<close> on failure.\<close>

definition same_path :: "(string \<Rightarrow> string option) \<Rightarrow> string \<Rightarrow> string \<Rightarrow> bool" where
  "same_path eval a b =
     (let real = (\<lambda>p. case eval (clean_path p) of None \<Rightarrow> clean_path p | Some r \<Rightarrow> r) in real a = real b)"

definition mill_socket_name :: string where "mill_socket_name = ''mill.sock''"

text \<open>
  \<open>readMillMetadata\<close>: \<open>disk\<close> is the content of the file as the decoder reads it, or the error of reading it,
  \<open>root\<close> the state root.
\<close>

definition read_mill_metadata ::
    "(string \<Rightarrow> string option) \<Rightarrow> (int \<Rightarrow> bool) \<Rightarrow> (metadata_error, mill_metadata option) result \<Rightarrow> (unit, string) result
     \<Rightarrow> (metadata_error, mill_metadata) result" where
  "read_mill_metadata eval alive disk root =
     (case disk of
        Inl e \<Rightarrow> Err e
      | Inr None \<Rightarrow> Err MetadataMalformed
      | Inr (Some m) \<Rightarrow>
          (case root of
             Inl _ \<Rightarrow> Err MetadataUnreadable
           | Inr root \<Rightarrow>
               (case guards
                  [(missing_metadata_fields m \<noteq> [], MetadataIncomplete (missing_metadata_fields m)),
                   (\<not> same_path eval (mm_state_root m) root, RootMismatch (mm_state_root m)),
                   (\<not> same_path eval (mm_socket m) (join_path [root, mill_socket_name]), SocketMismatch (mm_socket m)),
                   (\<not> alive (mm_pid m), StaleMill (mm_pid m)),
                   (mm_version m \<noteq> mill_protocol_version, ProtocolMismatch (mm_version m))] of
                  Some e \<Rightarrow> Err e
                | None \<Rightarrow> Ok m)))"

text \<open>\<open>ReadMillMetadata\<close> adds the remedy to every failure but a protocol mismatch, whose text has its own.\<close>

definition start_remedy :: "metadata_error \<Rightarrow> bool" where
  "start_remedy e = (case e of ProtocolMismatch _ \<Rightarrow> False | _ \<Rightarrow> True)"

definition metadata_or_error :: "(metadata_error, mill_metadata) result \<Rightarrow> (call_error, mill_metadata) result" where
  "metadata_or_error r =
     (case r of Inl _ \<Rightarrow> Err (TransportErr code_mill_unreachable MetadataFails) | Inr m \<Rightarrow> Ok m)"

section \<open>Calls\<close>

record world_request =
  wq_cwd :: string
  wq_config_dir :: string
  wq_auto_start :: bool
  wq_ready_timeout :: int

text \<open>
  What the connection does during an invocation: an interrupt of the user, the end of the second that
  bounds the dial, or a call of \<open>cancel\<close> when the function returns.  The goroutine that closes the connection
  waits for the first of them only.
\<close>

datatype client_event = Interrupted | DialDeadline | Returned

record wire =
  wi_open :: bool
  wi_watching :: bool
  wi_interrupted :: bool

definition dialled :: wire where
  "dialled = \<lparr>wi_open = True, wi_watching = True, wi_interrupted = False\<rparr>"

fun wire_event :: "client_event \<Rightarrow> wire \<Rightarrow> wire" where
  "wire_event Interrupted w =
     (if wi_watching w then \<lparr>wi_open = False, wi_watching = False, wi_interrupted = True\<rparr> else w)"
| "wire_event DialDeadline w = w\<lparr>wi_watching := False\<rparr>"
| "wire_event Returned w = w\<lparr>wi_watching := False\<rparr>"

text \<open>
  \<open>invokeThroughMill\<close>: \<open>dial\<close> and \<open>sent\<close> tell whether the socket was reached and the request written, \<open>events\<close>
  what happened up to the end of the relay, which reads nothing more once the connection is closed.
\<close>

definition invoke_through_mill ::
    "(call_error, mill_metadata) result \<Rightarrow> bool \<Rightarrow> bool \<Rightarrow> relay_env \<Rightarrow> client_read list \<Rightarrow> client_event list \<Rightarrow> sink
     \<Rightarrow> relay_result option" where
  "invoke_through_mill meta dial sent env reads events k =
     (case meta of
        Inl e \<Rightarrow> Some (ends k (Some e))
      | Inr m \<Rightarrow>
          if \<not> dial then Some (ends k (Some (TransportErr code_mill_unreachable Unreachable_mill)))
          else if \<not> sent then Some (ends k (Some (OtherErr SendFails)))
          else
            let w = fold wire_event events dialled;
                reads = (if wi_open w then reads else reads @ [ReadEnds ''use of closed network connection''])
            in map_option (\<lambda>r. if wi_interrupted w then r\<lparr>rl_code := 130, rl_err := None\<rparr> else r) (relay_response env reads k))"

definition invoke_call ::
    "(call_error, mill_metadata) result \<Rightarrow> bool \<Rightarrow> bool \<Rightarrow> relay_env \<Rightarrow> client_read list \<Rightarrow> client_event list \<Rightarrow> sink
     \<Rightarrow> relay_result option" where
  "invoke_call meta dial sent env reads events k =
     map_option (\<lambda>r. r\<lparr>rl_err := as_transport (rl_err r)\<rparr>) (invoke_through_mill meta dial sent env reads events k)"

text \<open>The deadline of a plain call, in milliseconds; \<open>int64\<close> durations count nanoseconds.\<close>

definition ready_deadline :: "int \<Rightarrow> 64 word" where
  "ready_deadline ready = (if 0 < ready then word_of_int ready * 1000000 + 5000000000 else 305000000000)"

definition call_deadline :: "string \<Rightarrow> world_request \<Rightarrow> 64 word" where
  "call_deadline operation world =
     (if operation = ''init'' then (if wq_auto_start world then ready_deadline (wq_ready_timeout world) else 5000000000)
      else if operation \<in> set [''weaver-start'', ''weaver-start-temp'', ''weaver-restart''] then ready_deadline (wq_ready_timeout world)
      else if operation = ''weaver-stop'' then 15000000000
      else 5000000000)"

record mill_response =
  mr_version :: int
  mr_request_id :: string
  mr_ok :: bool
  mr_result :: "json option" \<comment> \<open>\<open>None\<close> is nil\<close>
  mr_error :: "response_error option"

text \<open>\<open>millCallPayload\<close> after the request was written; \<open>answer\<close> is what the decoder makes of the response.\<close>

definition mill_call_answer :: "string \<Rightarrow> mill_response option \<Rightarrow> (call_error, json option) result" where
  "mill_call_answer request_id answer =
     (case answer of
        None \<Rightarrow> Err (OtherErr Unusable_response)
      | Some r \<Rightarrow>
          if mr_version r \<noteq> mill_protocol_version \<or> mr_request_id r \<noteq> request_id then Err (OtherErr Unusable_response)
          else if \<not> mr_ok r then
            (case mr_error r of
               None \<Rightarrow> Err (OtherErr Unusable_response)
             | Some e \<Rightarrow> if \<not> valid_response_error e \<or> mr_result r \<noteq> None then Err (OtherErr Unusable_response) else Err (ResponseErr e))
          else if mr_error r \<noteq> None then Err (OtherErr Unusable_response)
          else Ok (mr_result r))"

definition mill_call ::
    "(call_error, mill_metadata) result \<Rightarrow> bool \<Rightarrow> bool \<Rightarrow> string \<Rightarrow> mill_response option \<Rightarrow> (call_error, json option) result" where
  "mill_call meta dial sent request_id answer =
     (case (case meta of
              Inl e \<Rightarrow> Err e
            | Inr m \<Rightarrow>
                if \<not> dial then Err (TransportErr code_mill_unreachable Unreachable_mill)
                else if \<not> sent then Err (OtherErr SendFails)
                else mill_call_answer request_id answer) of
        Inl e \<Rightarrow> (case as_transport (Some e) of Some e' \<Rightarrow> Err e' | None \<Rightarrow> Err e)
      | Inr v \<Rightarrow> Ok v)"

section \<open>What both ends of a stream agree on\<close>

lemma fold_update_keys: "distinct (map fst acc) \<Longrightarrow> distinct (map fst (fold (\<lambda>(k, v). AList.update k v) es acc))"
  by (induction es arbitrary: acc) (auto simp: distinct_update)

lemma object_map_keys: "distinct (map fst (object_map es))"
  by (simp add: object_map_def fold_update_keys)

lemma keys_card: "distinct (map fst f) \<Longrightarrow> length f = card (fst ` set f)"
  by (metis distinct_card length_map list.set_map)

lemma five_of_six:
  assumes "distinct (map fst f)" and six: "distinct [p, q, d, s, a, b]"
  shows "length f = 5 \<and> {p, q, d, s, a} \<subseteq> fst ` set f \<and> b \<notin> fst ` set f
    \<longleftrightarrow> length f = 5 \<and> fst ` set f \<subseteq> {p, q, d, s, a, b} \<and> a \<in> fst ` set f \<and> b \<notin> fst ` set f"
    (is "?L \<longleftrightarrow> ?R")
proof -
  have five: "card {p, q, d, s, a} = 5" using six by simp
  have card: "length f = 5 \<longleftrightarrow> card (fst ` set f) = 5" using keys_card [OF assms(1)] by simp
  have "?L \<longleftrightarrow> fst ` set f = {p, q, d, s, a}"
  proof
    assume ?L
    then show "fst ` set f = {p, q, d, s, a}"
      using five card by (intro card_subset_eq [symmetric]) (simp_all only: finite_imageI finite_set)
  next
    assume e: "fst ` set f = {p, q, d, s, a}"
    then have "length f = 5" using five card by simp
    then show ?L using e six by auto
  qed
  moreover have "?R \<longleftrightarrow> fst ` set f = {p, q, d, s, a}"
  proof
    assume R: ?R
    then have "fst ` set f \<subseteq> {p, q, d, s, a}" by blast
    moreover have "card (fst ` set f) = card {p, q, d, s, a}" using R card five by (simp del: card_insert_disjoint)
    ultimately show "fst ` set f = {p, q, d, s, a}" by (intro card_subset_eq) simp_all
  next
    assume e: "fst ` set f = {p, q, d, s, a}"
    then have "length f = 5" using five card by simp
    then show ?R using e six by auto
  qed
  ultimately show ?thesis by blast
qed

lemma exact_keys_iff:
  assumes "distinct (map fst f)"
  shows "has_exact_keys f [(''protocol_version'', True), (''request_id'', True), (''done'', True), (''success'', True),
      (''result'', success), (''error'', \<not> success)]
    \<longleftrightarrow> length f = 5 \<and> fst ` set f \<subseteq> set terminator_keys
        \<and> (if success then map_of f ''result'' \<noteq> None \<and> map_of f ''error'' = None
           else map_of f ''error'' \<noteq> None \<and> map_of f ''result'' = None)"
proof (cases success)
  case True
  have "distinct [''protocol_version'', ''request_id'', ''done'', ''success'', ''result'', ''error'']" by simp
  from five_of_six [OF assms this] show ?thesis
    using True by (simp add: has_exact_keys_def terminator_keys_def map_of_eq_None_iff eval_nat_numeral)
next
  case False
  have "distinct [''protocol_version'', ''request_id'', ''done'', ''success'', ''error'', ''result'']" by simp
  from five_of_six [OF assms this] show ?thesis
    using False by (simp add: has_exact_keys_def terminator_keys_def map_of_eq_None_iff eval_nat_numeral insert_commute [of "''error''"] conj_ac)
qed

lemma decode_bool_True: "decode_bool False v = Some True \<longleftrightarrow> v = JBool True"
  by (cases v) auto

lemma terminator_done:
  "is_stream_terminator (Some (JObj es)) request_id \<Longrightarrow> map_of (object_map es) ''done'' = Some (JBool True)"
  by (simp add: is_stream_terminator_def Let_def split: option.splits json.splits bool.splits)

lemma closed_terminator_iff:
  "closed_terminator (object_map es) request_id \<longleftrightarrow> is_stream_terminator (Some (JObj es)) request_id"
proof -
  let ?f = "object_map es"
  have closes: "frame_bool ?f ''done'' = Some True \<longleftrightarrow> map_of ?f ''done'' = Some (JBool True)"
    by (simp add: frame_bool_def decode_bool_True split: option.split)
  have ident: "stream_identity ?f = Some request_id \<longleftrightarrow>
      json_int (map_of ?f ''protocol_version'') = Some protocol_version \<and> request_id \<noteq> [] \<and> as_string (map_of ?f ''request_id'') = Some request_id"
    by (auto simp: stream_identity_def mill_protocol_version_def protocol_version_def split: option.splits json.splits)
  show ?thesis
  proof (cases "map_of ?f ''done'' = Some (JBool True)")
    case False
    then show ?thesis
      using closes terminator_done [of es request_id] by (metis closed_terminator_def)
  next
    case True
    show ?thesis
    proof (cases "frame_bool ?f ''success''")
      case None
      then show ?thesis using True by (simp add: closed_terminator_def is_stream_terminator_def Let_def frame_bool_def)
    next
      case (Some success)
      have "closed_terminator ?f request_id \<longleftrightarrow>
          length ?f = 5 \<and> fst ` set ?f \<subseteq> set terminator_keys
          \<and> (if success then map_of ?f ''result'' \<noteq> None \<and> map_of ?f ''error'' = None
             else map_of ?f ''error'' \<noteq> None \<and> map_of ?f ''result'' = None) \<and> stream_identity ?f = Some request_id"
        using True closes Some by (simp add: closed_terminator_def)
      also have "\<dots> \<longleftrightarrow> is_stream_terminator (Some (JObj es)) request_id"
        using True Some unfolding ident
        by (simp add: is_stream_terminator_def Let_def frame_bool_def exact_keys_iff [OF object_map_keys])
      finally show ?thesis .
    qed
  qed
qed

section \<open>The relay from end to end\<close>

text \<open>The line as the client reads it, and its bytes with the newline it is printed with.\<close>

definition read_of :: "string \<times> json option \<Rightarrow> client_read" where
  "read_of x = LineRead (fst x) (snd x)"

definition printed_line :: "string \<Rightarrow> string" where
  "printed_line line = (if line = [] \<or> last line \<noteq> CHR 0x0A then line @ [CHR 0x0A] else line)"

lemma write_line_ok: "sk_faults k = [] \<Longrightarrow> write_line s k = (k\<lparr>sk_out := sk_out k @ printed_line s\<rparr>, None)"
  by (simp add: write_line_def write_out_def printed_line_def)

lemma not_terminator:
  assumes "decode_frame f = Some frame" "\<not> is_stream_terminator f request_id"
  shows "\<not> closed_terminator frame request_id"
proof -
  from assms(1) consider es where "f = Some (JObj es)" "frame = object_map es" | "frame = []"
    by (auto simp: decode_frame_def split: option.splits json.splits)
  then show ?thesis
  proof cases
    case 1
    then show ?thesis using assms(2) closed_terminator_iff by simp
  next
    case 2
    then show ?thesis by (simp add: closed_terminator_def frame_bool_def)
  qed
qed

lemma terminator_frame:
  assumes "is_stream_terminator f request_id"
  obtains frame success where "decode_frame f = Some frame" "closed_terminator frame request_id" "frame_bool frame ''success'' = Some success"
proof -
  from assms obtain es where es: "f = Some (JObj es)" by (auto simp: is_stream_terminator_def split: option.splits json.splits)
  then have "closed_terminator (object_map es) request_id" using assms closed_terminator_iff by simp
  moreover from this obtain success where "frame_bool (object_map es) ''success'' = Some success"
    by (auto simp: closed_terminator_def split: option.splits)
  ultimately show thesis using es by (intro that [of "object_map es" success]) (simp_all add: decode_frame_def)
qed

definition reports_success :: "json option \<Rightarrow> bool" where
  "reports_success f = (case decode_frame f of None \<Rightarrow> False | Some frame \<Rightarrow> frame_bool frame ''success'' = Some True)"

lemma surface_error_code [simp]: "rl_code (surface_error env raw k) = 1" "rl_sink (surface_error env raw k) = k"
  by (simp_all add: surface_error_def ends_def split: option.split)

text \<open>
  A line the client takes for a frame: an object, or \<open>null\<close>.  What it prints of a stream ends before the first line that
  is none.
\<close>

definition decodable :: "string \<times> json option \<Rightarrow> bool" where
  "decodable x \<longleftrightarrow> decode_frame (snd x) \<noteq> None"

lemma terminator_decodable: "is_stream_terminator (snd x) request_id \<Longrightarrow> decodable x"
  by (auto simp: decodable_def elim!: terminator_frame)

lemma client_prints_stream:
  assumes "ends_stream request_id xs" "sk_faults k = []"
  obtains r where "client_lines env request_id (map read_of xs @ rest) k = Some r"
    "sk_out (rl_sink r) = sk_out k @ concat (map (printed_line \<circ> fst) (takeWhile decodable (butlast xs)))"
    "rl_code r = (if list_all decodable xs \<and> reports_success (snd (last xs)) then 0 else 1)"
proof -
  have "\<exists>r. client_lines env request_id (map read_of xs @ rest) k = Some r
      \<and> sk_out (rl_sink r) = sk_out k @ concat (map (printed_line \<circ> fst) (takeWhile decodable (butlast xs)))
      \<and> rl_code r = (if list_all decodable xs \<and> reports_success (snd (last xs)) then 0 else 1)"
    using assms
  proof (induction xs arbitrary: k)
    case (Cons x xs)
    show ?case
    proof (cases "decodable x")
      case False
      then have "xs \<noteq> []" using Cons.prems(1) terminator_decodable by (cases xs) auto
      then show ?thesis using False by (auto simp: read_of_def decodable_def ends_def)
    next
      case True
      then obtain frame where f: "decode_frame (snd x) = Some frame" by (auto simp: decodable_def)
      show ?thesis
      proof (cases "xs = []")
        case True
        then have "is_stream_terminator (snd x) request_id" using Cons.prems(1) by simp
        from terminator_frame [OF this] obtain success where c: "closed_terminator frame request_id" "frame_bool frame ''success'' = Some success"
          using f by auto
        then show ?thesis using True f by (cases success) (auto simp: read_of_def reports_success_def ends_def decodable_def)
      next
        case False
        then have t: "\<not> is_stream_terminator (snd x) request_id" "ends_stream request_id xs"
          using Cons.prems(1) by (cases xs; simp)+
        have k: "sk_faults (k\<lparr>sk_out := sk_out k @ printed_line (fst x)\<rparr>) = []" using Cons.prems(2) by simp
        from Cons.IH [OF t(2) k] obtain r where
          "client_lines env request_id (map read_of xs @ rest) (k\<lparr>sk_out := sk_out k @ printed_line (fst x)\<rparr>) = Some r"
          "sk_out (rl_sink r) = sk_out (k\<lparr>sk_out := sk_out k @ printed_line (fst x)\<rparr>)
              @ concat (map (printed_line \<circ> fst) (takeWhile decodable (butlast xs)))"
          "rl_code r = (if list_all decodable xs \<and> reports_success (snd (last xs)) then 0 else 1)"
          by (elim exE conjE) (rule that)
        then show ?thesis
          using f True not_terminator [OF f t(1)] False write_line_ok [OF Cons.prems(2), of "fst x"] read_of_def [of x]
          by (intro exI [of _ r]) (simp add: comp_def)
      qed
    qed
  qed simp
  then show thesis by (elim exE conjE) (rule that)
qed

lemma ends_code [simp]: "rl_code (ends k err) = (if err = None then 0 else 1)" "rl_err (ends k err) = err" "rl_stderr (ends k err) = []"
  by (simp_all add: ends_def)

text \<open>What every ending of the relay is like.\<close>

definition rendered_once :: "relay_env \<Rightarrow> relay_result \<Rightarrow> bool" where
  "rendered_once env r \<longleftrightarrow>
     rl_code r = (if rl_err r = None then 0 else 1)
     \<and> (case rl_err r of
          Some (ResponseErr e) \<Rightarrow>
            valid_response_error e
            \<and> rl_stderr r = render (rv_render env) (response_for_rendering (rv_command env) e) (rv_mode env)
        | _ \<Rightarrow> rl_stderr r = [])"

lemma rendered_ends: "(\<And>e. err \<noteq> Some (ResponseErr e)) \<Longrightarrow> rendered_once env (ends k err)"
  by (simp add: rendered_once_def split: option.splits call_error.splits)

lemma rendered_surface: "rendered_once env (surface_error env raw k)"
  by (auto simp: surface_error_def rendered_once_def split: option.splits)

lemma rendered_verbatim: "rendered_once env (relay_verbatim raw k)"
  by (auto simp: relay_verbatim_def intro!: rendered_ends split: option.splits prod.splits)

lemma rendered_single: "rendered_once env (relay_single env frame parsed k)"
  unfolding relay_single_def
  by (auto intro!: rendered_ends rendered_surface rendered_verbatim split: option.splits bool.splits sum.splits prod.splits)

lemma rendered_lines: "client_lines env request_id reads k = Some r \<Longrightarrow> rendered_once env r"
proof (induction env request_id reads k rule: client_lines.induct)
  case (3 env request_id line parsed rs k)
  show ?case
  proof (cases "decode_frame parsed")
    case None
    then show ?thesis using 3(2) by (auto intro!: rendered_ends)
  next
    case (Some frame)
    then show ?thesis using 3
      by (auto intro!: rendered_ends rendered_surface split: option.splits bool.splits prod.splits if_splits)
  qed
qed (auto intro!: rendered_ends)

lemma rendered_response: "relay_response env reads k = Some r \<Longrightarrow> rendered_once env r"
  unfolding relay_response_def relay_stream_def
  by (auto intro!: rendered_ends intro: rendered_lines rendered_single split: list.splits client_read.splits option.splits if_splits)

lemma fold_name_length: "(\<forall>c \<in> set s. byte c < 0x80) \<Longrightarrow> length (fold_name s) = length s"
  by (induction s) (simp_all add: fold_name_def rune_chunks_Cons)

lemma header_names:
  "field_of [''stream''] ''stream'' = Some ''stream''" "field_of [''stream''] ''protocol_version'' = None"
  "field_of [''stream''] ''request_id'' = None"
proof -
  have len: "length (fold_name ''stream'') = 6" "length (fold_name ''protocol_version'') = 16" "length (fold_name ''request_id'') = 10"
    by (simp_all add: fold_name_length)
  then have "fold_name ''stream'' \<noteq> fold_name ''protocol_version''" "fold_name ''stream'' \<noteq> fold_name ''request_id''"
    using arg_cong [of "fold_name ''stream''" _ length] by fastforce+
  then show "field_of [''stream''] ''stream'' = Some ''stream''" "field_of [''stream''] ''protocol_version'' = None"
    "field_of [''stream''] ''request_id'' = None" by (simp_all add: field_of_def)
qed

lemma header_keys:
  assumes "client_stream_header frame" "distinct (map fst frame)"
  shows "fst ` set frame = {''stream'', ''protocol_version'', ''request_id''}" "map_of frame ''stream'' = Some (JBool True)"
proof -
  have h: "frame_bool frame ''stream'' = Some True" "stream_identity frame \<noteq> None" "length frame = 3"
    using assms(1) by (simp_all add: client_stream_header_def)
  show s: "map_of frame ''stream'' = Some (JBool True)"
    using h(1) by (auto simp: frame_bool_def decode_bool_True split: option.splits)
  have "map_of frame ''protocol_version'' \<noteq> None"
    using h(2) by (cases "map_of frame ''protocol_version''") (auto simp: stream_identity_def)
  moreover have "map_of frame ''request_id'' \<noteq> None"
    using h(2) by (auto simp: stream_identity_def split: if_splits option.splits)
  ultimately have "{''stream'', ''protocol_version'', ''request_id''} \<subseteq> fst ` set frame"
    using s unfolding map_of_eq_None_iff by (auto dest: map_of_SomeD simp: rev_image_eqI)
  moreover have "card (fst ` set frame) = 3" using keys_card [OF assms(2)] h(3) by simp
  ultimately show "fst ` set frame = {''stream'', ''protocol_version'', ''request_id''}"
    by (intro card_subset_eq [symmetric]) simp_all
qed

lemma stream_flag_of:
  assumes "fst ` set es \<subseteq> {''stream'', ''protocol_version'', ''request_id''}" "distinct (map fst es)"
    "\<forall>v. (''stream'', v) \<in> set es \<longrightarrow> v = JBool True"
  shows "stream_flag es b = Some (b \<or> ''stream'' \<in> fst ` set es)"
  using assms
proof (induction es arbitrary: b)
  case (Cons x es)
  obtain k v where x: "x = (k, v)" by (cases x)
  then have k: "k = ''stream'' \<or> k = ''protocol_version'' \<or> k = ''request_id''" using Cons.prems(1) by auto
  have IH: "stream_flag es b = Some (b \<or> ''stream'' \<in> fst ` set es)" for b using Cons by auto
  show ?case
  proof (cases "k = ''stream''")
    case True
    then have "v = JBool True" using Cons.prems(3) x by auto
    then show ?thesis using True IH x header_names by simp
  next
    case False
    then have "field_of [''stream''] k = None" using k header_names by auto
    then show ?thesis using False IH x by (auto simp: image_iff)
  qed
qed simp

lemma client_header_is_header:
  assumes "client_stream_header es" "distinct (map fst es)"
  shows "is_stream_header (Some (JObj es))" "\<not> is_stream_terminator (Some (JObj es)) request_id"
proof -
  note h = header_keys [OF assms]
  have "v = JBool True" if "(''stream'', v) \<in> set es" for v
    using map_of_is_SomeI [OF assms(2) that] h(2) by simp
  then have "stream_flag es False = Some True" using stream_flag_of [of es False] h(1) assms(2) by auto
  then show "is_stream_header (Some (JObj es))" by (simp add: is_stream_header_def)
  have "map_of es ''done'' = None" unfolding map_of_eq_None_iff h(1) by simp
  then show "\<not> is_stream_terminator (Some (JObj es)) request_id"
    using terminator_done [of es request_id] object_map_distinct [OF assms(2)] by auto
qed

lemma chunks_of_prefix:
  "chunks_of frames = chunks_of xs @ rest \<Longrightarrow> \<exists>ys. frames = xs @ ys"
proof (induction xs arbitrary: frames)
  case (Cons x xs)
  then show ?case by (cases frames; cases x) auto
qed simp

lemma end_to_end:
  assumes relay: "relay request_id (replicate n None) (chunks_of frames) False False = (ls, Some out)" "length frames \<le> n" "ro_err out = None"
    and header: "frames = (line, Some (JObj es)) # body" "client_stream_header es" "distinct (map fst es)" "stream_identity es = Some request_id"
    and k: "sk_faults k = []"
  shows "\<exists>passed rest r. frames = passed @ rest \<and> ls = map fst passed \<and> relay_response env (map read_of passed) k = Some r
    \<and> sk_out (rl_sink r) = sk_out k @ concat (map (printed_line \<circ> fst) (takeWhile decodable (butlast (tl passed))))
    \<and> rl_code r = (if list_all decodable passed \<and> reports_success (snd (last passed)) then 0 else 1)"
proof -
  have "length (chunks_of frames) \<le> n" using relay(2) by (simp add: chunks_of_def)
  from relay_lines [OF relay(1) this] obtain xs rest where xs: "chunks_of frames = chunks_of xs @ rest" "ls = map fst xs"
    "ro_err out = None \<longleftrightarrow> complete_response request_id (map snd xs)" by (elim exE conjE) (rule that)
  obtain ys where ys: "frames = xs @ ys" using chunks_of_prefix [OF xs(1)] by blast
  have complete: "complete_response request_id (map snd xs)" using xs(3) relay(3) by simp
  note h = client_header_is_header [OF header(2,3)]
  obtain xs' where x: "xs = (line, Some (JObj es)) # xs'" using complete ys header(1) by (cases xs) (auto simp: complete_response_def)
  have "ends_stream request_id xs" using complete h(1) unfolding complete_ends x by simp
  then have ends': "ends_stream request_id xs'" using h(2) x by (cases xs') simp_all
  then have ne: "xs' \<noteq> []" by auto
  obtain r where r: "client_lines env request_id (map read_of xs' @ []) k = Some r"
    "sk_out (rl_sink r) = sk_out k @ concat (map (printed_line \<circ> fst) (takeWhile decodable (butlast xs')))"
    "rl_code r = (if list_all decodable xs' \<and> reports_success (snd (last xs')) then 0 else 1)"
    by (rule client_prints_stream [OF ends' k])
  have d: "decode_frame (Some (JObj es)) = Some es" using object_map_distinct [OF header(3)] by (simp add: decode_frame_def)
  then have "relay_response env (map read_of xs) k = Some r"
    using r(1) header(2,4) x by (simp add: relay_response_def relay_stream_def read_of_def)
  then show ?thesis
    using ys xs(2) r(2,3) x ne d by (intro exI [of _ xs] exI [of _ ys] exI [of _ r]) (simp add: decodable_def)
qed

lemma ready_deadline_int: "0 < ready \<Longrightarrow> ready_deadline ready = word_of_int (ready * 1000000 + 5000000000)"
  by (simp add: ready_deadline_def)

lemma sint_word64: "sint (word_of_int k :: 64 word) = k \<longleftrightarrow> - (2 ^ 63) \<le> k \<and> k < 2 ^ 63"
  by (simp add: signed_take_bit_int_eq_self_iff sint_sbintrunc')

lemma deadline_blinds: "fold wire_event es (wire_event DialDeadline w) = wire_event DialDeadline w"
proof (induction es)
  case (Cons e es)
  then show ?case by (cases e) simp_all
qed simp

section \<open>Properties\<close>

text \<open>The Mill and the client agree on where a stream ends: on every object the test of the Mill, which closes the
  connection then, and the test of the client, which exits then, give the same answer.
\<close>

theorem terminators_agree:
  "closed_terminator (object_map es) request_id \<longleftrightarrow> is_stream_terminator (Some (JObj es)) request_id"
  by (rule closed_terminator_iff)

text \<open>C14:
  Of a stream that the Mill relays without an error, whose header is the strict one of the client, the client prints the
  lines between header and terminator as the Weaver sent them and nothing else, up to the first line that is neither an
  object nor \<open>null\<close>; the exit code is what the terminator reports when there is no such line, and 1 otherwise.  (A stream
  may carry any JSON value, so such a line is a value that the client loses.)
\<close>

theorem stream_end_to_end:
  assumes "relay request_id (replicate n None) (chunks_of frames) False False = (ls, Some out)" "length frames \<le> n" "ro_err out = None"
    and "frames = (line, Some (JObj es)) # body" "client_stream_header es" "distinct (map fst es)" "stream_identity es = Some request_id"
    and "sk_faults k = []"
  shows "\<exists>passed rest r. frames = passed @ rest \<and> ls = map fst passed \<and> relay_response env (map read_of passed) k = Some r
    \<and> sk_out (rl_sink r) = sk_out k @ concat (map (printed_line \<circ> fst) (takeWhile decodable (butlast (tl passed))))
    \<and> rl_code r = (if list_all decodable passed \<and> reports_success (snd (last passed)) then 0 else 1)"
  by (rule end_to_end [OF assms])

text \<open>The relay of a response leaves exactly one rendering of a failure to be made: the exit code is zero exactly when
  there is no error, a valid error envelope is on standard error already, and every other failure is not.
\<close>

theorem relay_renders_once:
  assumes "relay_response env reads k = Some r"
  shows "(rl_code r = 0 \<longleftrightarrow> rl_err r = None) \<and> rl_code r \<in> {0, 1}
    \<and> (\<forall>e. rl_err r = Some (ResponseErr e) \<longrightarrow> valid_response_error e
         \<and> rl_stderr r = render (rv_render env) (response_for_rendering (rv_command env) e) (rv_mode env))
    \<and> ((\<forall>e. rl_err r \<noteq> Some (ResponseErr e)) \<longrightarrow> rl_stderr r = [])"
  using rendered_response [OF assms] by (auto simp: rendered_once_def split: option.splits call_error.splits)

text \<open>An interrupt that comes after the second that bounds the dial has no effect on an invocation: whatever happens
  then, the relay runs as if there had been none, and the exit code is not 130.
\<close>

theorem late_interrupt_ignored:
  "invoke_through_mill (Ok m) True True env reads (DialDeadline # events) k = relay_response env reads k"
proof -
  have "fold wire_event (DialDeadline # events) dialled = wire_event DialDeadline dialled"
    using deadline_blinds [of events dialled] by simp
  then show ?thesis by (cases "relay_response env reads k") (simp_all add: invoke_through_mill_def Let_def dialled_def)
qed

text \<open>The deadline of a call that waits for readiness is the wait asked for and five seconds exactly up to
  9223372031854 milliseconds; beyond that the count of nanoseconds leaves the range of 64 bits.
\<close>

theorem deadline_exact:
  assumes "0 < wq_ready_timeout w" and "operation \<in> {''weaver-start'', ''weaver-start-temp'', ''weaver-restart''}"
  shows "sint (call_deadline operation w) = wq_ready_timeout w * 1000000 + 5000000000 \<longleftrightarrow> wq_ready_timeout w \<le> 9223372031854"
proof -
  have "call_deadline operation w = word_of_int (wq_ready_timeout w * 1000000 + 5000000000)"
    using assms by (auto simp: call_deadline_def ready_deadline_int)
  then show ?thesis using assms(1) unfolding \<open>call_deadline operation w = _\<close> sint_word64 by auto
qed

section \<open>Examples\<close>

definition demo_world :: world_request where
  "demo_world = \<lparr>wq_cwd = [], wq_config_dir = [], wq_auto_start = False, wq_ready_timeout = 30000\<rparr>"

theorem deadline_exact_witness: "sint (call_deadline ''weaver-start'' demo_world) = 35000000000"
  using deadline_exact [of demo_world "''weaver-start''"] by (simp add: demo_world_def)

definition demo_header :: object where
  "demo_header = [(''stream'', JBool True), (''protocol_version'', JNum ''3''), (''request_id'', JStr ''7'')]"

definition demo_end :: object where
  "demo_end = [(''protocol_version'', JNum ''3''), (''request_id'', JStr ''7''), (''done'', JBool True), (''success'', JBool True), (''result'', JNull)]"

definition demo_stream :: "(string \<times> json option) list" where
  "demo_stream = [([CHR 0x0A], Some (JObj demo_header)), (''r'' @ [CHR 0x0A], Some (JObj [(''row'', JNull)])), ([CHR 0x0A], Some (JObj demo_end))]"

definition demo_relay :: relay_env where
  "demo_relay = \<lparr>rv_render = demo_render, rv_mode = Plain, rv_command = []\<rparr>"

lemma demo_header_ok: "client_stream_header demo_header" "distinct (map fst demo_header)" "stream_identity demo_header = Some ''7''"
proof -
  have "atoi ''3'' = Some 3" by code_simp
  then show "client_stream_header demo_header" "stream_identity demo_header = Some ''7''"
    by (simp_all add: client_stream_header_def stream_identity_def frame_bool_def demo_header_def mill_protocol_version_def)
qed (simp add: demo_header_def)

theorem stream_end_to_end_witness:
  "\<exists>r. relay_response demo_relay (map read_of demo_stream) \<lparr>sk_out = [], sk_faults = []\<rparr> = Some r
     \<and> sk_out (rl_sink r) = ''r'' @ [CHR 0x0A] \<and> rl_code r = 0"
proof -
  have end': "is_stream_terminator (Some (JObj demo_end)) ''7''"
  proof -
    have "atoi ''3'' = Some 3" by code_simp
    moreover have "distinct (map fst demo_end)" by (simp add: demo_end_def)
    ultimately show ?thesis
      by (simp add: is_stream_terminator_def object_map_distinct Let_def)
         (simp add: demo_end_def has_exact_keys_def protocol_version_def)
  qed
  have row: "\<not> is_stream_terminator (Some (JObj [(''row'', JNull)])) ''7''" by code_simp
  note h = client_header_is_header [OF demo_header_ok(1,2)]
  let ?ls = "map fst demo_stream"
  let ?out = "\<lparr>ro_delivery = True, ro_response = True, ro_client_failed = False, ro_err = None\<rparr>"
  have mill: "relay ''7'' (replicate 3 None) (chunks_of demo_stream) False False = (?ls, Some ?out)"
    using h end' row by (simp add: demo_stream_def Let_def numeral_3_eq_3)
  have success: "reports_success (Some (JObj demo_end))"
    by (simp add: reports_success_def decode_frame_def object_map_distinct frame_bool_def demo_end_def)
  have lines: "list_all decodable demo_stream" by (simp add: demo_stream_def decodable_def decode_frame_def)
  have "length demo_stream \<le> 3" by (simp add: demo_stream_def)
  from stream_end_to_end [OF mill this _ _ demo_header_ok, of "[CHR 0x0A]" "tl demo_stream" "\<lparr>sk_out = [], sk_faults = []\<rparr>" demo_relay]
  obtain passed rest r where r: "demo_stream = passed @ rest" "?ls = map fst passed"
    "relay_response demo_relay (map read_of passed) \<lparr>sk_out = [], sk_faults = []\<rparr> = Some r"
    "sk_out (rl_sink r) = concat (map (printed_line \<circ> fst) (takeWhile decodable (butlast (tl passed))))"
    "rl_code r = (if list_all decodable passed \<and> reports_success (snd (last passed)) then 0 else 1)"
    by (auto simp: demo_stream_def)
  have "passed = demo_stream" using r(1,2) by (metis append_Nil2 append_eq_append_conv length_map)
  then show ?thesis using r success lines by (auto simp: demo_stream_def printed_line_def)
qed

theorem relay_renders_once_witness:
  "\<exists>r. relay_response demo_relay [ReadEnds ''eof''] \<lparr>sk_out = [], sk_faults = []\<rparr> = Some r \<and> rl_code r \<noteq> 0 \<and> rl_stderr r = []"
proof -
  have "relay_response demo_relay [ReadEnds ''eof''] \<lparr>sk_out = [], sk_faults = []\<rparr> = Some (ends \<lparr>sk_out = [], sk_faults = []\<rparr> (Some (OtherErr (ReadFails ''eof''))))"
    by (simp add: relay_response_def)
  from relay_renders_once [OF this] this show ?thesis by auto
qed

end
