(* ===== verification/Dispatch.thy ===== *)
theory Dispatch
  imports Client
begin

text \<open>
  The strand command (\<open>cli/internal/dispatch\<close>): the flags of the dispatcher, the payloads, the context, the
  envelope, and \<open>Run\<close>, which prints help or version, or sends the envelope through the Mill.

  Files, standard input, the working directory, the Git context, the terminal and \<open>time.ParseDuration\<close> deliver
  their outcomes through an environment.
\<close>

section \<open>Command lines\<close>

record parsed =
  pa_workspace :: string
  pa_cwd :: string
  pa_worktree_root :: string
  pa_git_common_dir :: string
  pa_stdin :: bool
  pa_payloads :: "string list"
  pa_timeout :: "string option" \<comment> \<open>\<open>None\<close> when not set\<close>
  pa_dry_run :: bool
  pa_version :: bool
  pa_help :: bool
  pa_op :: "string option" \<comment> \<open>\<open>None\<close> without an operation\<close>
  pa_argv :: "string list"

datatype parse_error = NeedsArgument string | UnknownFlag string

definition empty_parsed :: parsed where
  "empty_parsed = \<lparr>pa_workspace = [], pa_cwd = [], pa_worktree_root = [], pa_git_common_dir = [], pa_stdin = False,
     pa_payloads = [], pa_timeout = None, pa_dry_run = False, pa_version = False, pa_help = False, pa_op = None, pa_argv = []\<rparr>"

definition flag_matches :: "string \<Rightarrow> string \<Rightarrow> bool" where
  "flag_matches arg name \<longleftrightarrow> arg = name \<or> has_prefix arg (name @ ''='')"

text \<open>\<open>flagValue\<close>: the value and the arguments that remain.\<close>

definition flag_value :: "string \<Rightarrow> string list \<Rightarrow> string \<Rightarrow> (parse_error, string \<times> string list) result" where
  "flag_value a rest name =
     (if has_prefix a (name @ ''='') then Ok (trim_prefix a (name @ ''=''), rest)
      else case rest of [] \<Rightarrow> Err (NeedsArgument name) | v # rest' \<Rightarrow> Ok (v, rest'))"

definition switches :: "(string \<times> (parsed \<Rightarrow> parsed)) list" where
  "switches =
     [(''--help'', \<lambda>p. p\<lparr>pa_help := True\<rparr>), (''-h'', \<lambda>p. p\<lparr>pa_help := True\<rparr>), (''--version'', \<lambda>p. p\<lparr>pa_version := True\<rparr>),
      (''--dry-run'', \<lambda>p. p\<lparr>pa_dry_run := True\<rparr>), (''--stdin'', \<lambda>p. p\<lparr>pa_stdin := True\<rparr>)]"

definition value_flags :: "(string \<times> (string \<Rightarrow> parsed \<Rightarrow> parsed)) list" where
  "value_flags =
     [(''--workspace'', \<lambda>v p. p\<lparr>pa_workspace := v\<rparr>), (''--cwd'', \<lambda>v p. p\<lparr>pa_cwd := v\<rparr>),
      (''--worktree-root'', \<lambda>v p. p\<lparr>pa_worktree_root := v\<rparr>), (''--git-common-dir'', \<lambda>v p. p\<lparr>pa_git_common_dir := v\<rparr>),
      (''--timeout'', \<lambda>v p. p\<lparr>pa_timeout := Some v\<rparr>), (''--payload'', \<lambda>v p. p\<lparr>pa_payloads := pa_payloads p @ [v]\<rparr>)]"

lemma flag_value_rest: "flag_value a rest name = Ok (v, rest') \<Longrightarrow> length rest' \<le> length rest"
  by (auto simp: flag_value_def split: if_splits list.splits)

text \<open>The cases of the switch of \<open>parse\<close> are those of the two tables, in their order.\<close>

function parse_from :: "parsed \<Rightarrow> string list \<Rightarrow> (parse_error, parsed) result" where
  "parse_from p [] = Ok p"
| "parse_from p (a # rest) =
     (case map_of switches a of
        Some upd \<Rightarrow> parse_from (upd p) rest
      | None \<Rightarrow>
          (case List.find (\<lambda>(name, upd). flag_matches a name) value_flags of
             Some (name, upd) \<Rightarrow>
               (case flag_value a rest name of
                  Inl e \<Rightarrow> Err e
                | Inr (v, rest') \<Rightarrow> parse_from (upd v p) rest')
           | None \<Rightarrow>
               if has_prefix a ''-'' then Err (UnknownFlag a)
               else Ok (p\<lparr>pa_op := Some a, pa_argv := rest\<rparr>)))"
  by pat_completeness auto
termination
  by (relation "measure (length \<circ> snd)") (auto dest: flag_value_rest)

definition parse_args :: "string list \<Rightarrow> (parse_error, parsed) result" where
  "parse_args args = parse_from empty_parsed args"

section \<open>Payloads and context\<close>

record dispatch_env =
  de_stdin :: "(string, string) result" \<comment> \<open>\<open>io.ReadAll(stdin)\<close>\<close>
  de_file :: "string \<Rightarrow> (string, string) result" \<comment> \<open>\<open>os.ReadFile\<close>\<close>
  de_getwd :: "(string, string) result"
  de_git :: "string \<Rightarrow> (string, string \<times> string) result" \<comment> \<open>\<open>DeriveGitContext\<close>: worktree root and common directory\<close>
  de_tty :: bool
  de_size :: "int option" \<comment> \<open>the width \<open>term.GetSize\<close> delivers\<close>
  de_duration :: "string \<Rightarrow> (string, int) result" \<comment> \<open>\<open>time.ParseDuration\<close>, in nanoseconds\<close>
  de_pid :: int
  de_product :: string \<comment> \<open>\<open>Version\<close>\<close>
  de_build :: string
  de_format :: string \<comment> \<open>the value of \<open>MILLSTRAND_ERROR_FORMAT\<close>\<close>

datatype dispatch_error =
    BadFlags parse_error
  | HelpMisplaced string
  | BadFormat string
  | StdinUnreadable string
  | PayloadMalformed string
  | PayloadDuplicate string
  | PayloadUnreadable string string
  | ContextUnresolved string
  | TimeoutInvalid string string
  | TimeoutNotPositive string
  | OutputFails string

fun add_payloads :: "dispatch_env \<Rightarrow> (string \<times> string) list \<Rightarrow> string list \<Rightarrow> (dispatch_error, (string \<times> string) list) result" where
  "add_payloads env ps [] = Ok ps"
| "add_payloads env ps (spec # specs) =
     (case cut (CHR ''='') spec of
        (name, path, found) \<Rightarrow>
          if \<not> found \<or> name = [] \<or> path = [] then Err (PayloadMalformed spec)
          else if name \<in> fst ` set ps then Err (PayloadDuplicate name)
          else (case de_file env path of
            Inl e \<Rightarrow> Err (PayloadUnreadable name e)
          | Inr content \<Rightarrow> add_payloads env (ps @ [(name, content)]) specs))"

definition build_payloads :: "dispatch_env \<Rightarrow> parsed \<Rightarrow> (dispatch_error, (string \<times> string) list) result" where
  "build_payloads env p =
     (case (if pa_stdin p then map_sum StdinUnreadable (\<lambda>s. [(''stdin'', s)]) (de_stdin env) else Ok []) of
        Inl e \<Rightarrow> Err e
      | Inr ps \<Rightarrow> add_payloads env ps (pa_payloads p))"

record call_context =
  cx_cwd :: string
  cx_worktree_root :: string
  cx_git_common_dir :: string

definition resolve_context :: "dispatch_env \<Rightarrow> parsed \<Rightarrow> (dispatch_error, call_context) result" where
  "resolve_context env p =
     (case (if pa_cwd p \<noteq> [] then Ok (pa_cwd p) else de_getwd env) of
        Inl e \<Rightarrow> Err (ContextUnresolved e)
      | Inr cwd \<Rightarrow>
          if pa_worktree_root p \<noteq> [] \<and> pa_git_common_dir p \<noteq> []
          then Ok \<lparr>cx_cwd = cwd, cx_worktree_root = pa_worktree_root p, cx_git_common_dir = pa_git_common_dir p\<rparr>
          else (case de_git env cwd of
            Inl e \<Rightarrow>
              if pa_workspace p = [] \<and> \<not> (pa_worktree_root p \<noteq> [] \<and> pa_git_common_dir p \<noteq> []) then Err (ContextUnresolved e)
              else Ok \<lparr>cx_cwd = cwd, cx_worktree_root = pa_worktree_root p, cx_git_common_dir = pa_git_common_dir p\<rparr>
          | Inr (root, common) \<Rightarrow>
              Ok \<lparr>cx_cwd = cwd,
                  cx_worktree_root = (if pa_worktree_root p = [] then root else pa_worktree_root p),
                  cx_git_common_dir = (if pa_git_common_dir p = [] then common else pa_git_common_dir p)\<rparr>))"

section \<open>The envelope\<close>

text \<open>\<open>detectTerminalCapabilities\<close>: whether it is a terminal, and its width if it is one.\<close>

definition terminal_capabilities :: "dispatch_env \<Rightarrow> bool \<times> int option" where
  "terminal_capabilities env =
     (if \<not> de_tty env then (False, None)
      else (True, Some (case de_size env of None \<Rightarrow> 80 | Some w \<Rightarrow> if w \<le> 0 then 80 else w)))"

definition show_int :: "int \<Rightarrow> string" where
  "show_int n = (if n < 0 then ''-'' @ show_nat (nat (- n)) else show_nat (nat n))"

text \<open>\<open>Milliseconds\<close> of a duration: the quotient, towards zero.\<close>

definition milliseconds :: "int \<Rightarrow> int" where
  "milliseconds d = (if d < 0 then - ((- d) div 1000000) else d div 1000000)"

definition envelope_timeout :: "dispatch_env \<Rightarrow> parsed \<Rightarrow> (dispatch_error, int option) result" where
  "envelope_timeout env p =
     (case pa_timeout p of
        None \<Rightarrow> Ok None
      | Some t \<Rightarrow>
          (case de_duration env t of
             Inl e \<Rightarrow> Err (TimeoutInvalid t e)
           | Inr d \<Rightarrow> if milliseconds d \<le> 0 then Err (TimeoutNotPositive t) else Ok (Some (milliseconds d))))"

definition assemble_envelope ::
    "dispatch_env \<Rightarrow> parsed \<Rightarrow> (string \<times> string) list \<Rightarrow> call_context \<Rightarrow> bool \<times> int option \<Rightarrow> (dispatch_error, object) result" where
  "assemble_envelope env p payloads cx terminal =
     (case envelope_timeout env p of
        Inl e \<Rightarrow> Err e
      | Inr timeout \<Rightarrow>
          Ok ([(''name'', JStr (case pa_op p of None \<Rightarrow> [] | Some op \<Rightarrow> op)),
               (''argv'', JArr (map JStr (pa_argv p))),
               (''payloads'', JObj (map (\<lambda>(k, v). (k, JStr v)) payloads)),
               (''cwd'', JStr (cx_cwd cx)),
               (''is_tty'', JBool (fst terminal)),
               (''tty_col'', (case snd terminal of None \<Rightarrow> JNull | Some w \<Rightarrow> JNum (show_int w))),
               (''client'', JObj [(''pid'', JNum (show_int (de_pid env))), (''version'', JStr (de_product env)), (''build_id'', JStr (de_build env))])]
              @ (if cx_worktree_root cx \<noteq> [] then [(''worktree_root'', JStr (cx_worktree_root cx))] else [])
              @ (if cx_git_common_dir cx \<noteq> [] then [(''git_common_dir'', JStr (cx_git_common_dir cx))] else [])
              @ (if pa_workspace p \<noteq> [] then [(''workspace'', JStr (pa_workspace p))] else [])
              @ (case timeout of None \<Rightarrow> [] | Some ms \<Rightarrow> [(''timeout'', JNum (show_int ms))])))"

section \<open>Run\<close>

text \<open>
  \<open>says\<close> words an error, \<open>send\<close> is \<open>InvokeThroughMill\<close> from the request of a world and an envelope.  The
  outcome has what was written to standard error and what was sent.
\<close>

record outcome =
  oc_code :: int
  oc_sink :: sink
  oc_stderr :: string
  oc_sent :: "(world_request \<times> object) option"

record surroundings =
  su_env :: dispatch_env
  su_render :: render_env
  su_writer :: "(unit, bool) result option" \<comment> \<open>what \<open>detect\<close> finds of standard error\<close>
  su_says :: "dispatch_error \<Rightarrow> string"
  su_fault :: "fault \<Rightarrow> string"
  su_help :: string
  su_send :: "world_request \<Rightarrow> object \<Rightarrow> sink \<Rightarrow> relay_result"

definition code_invalid_error_format :: string where "code_invalid_error_format = ''cli/invalid-error-format''"
definition code_payload_unreadable :: string where "code_payload_unreadable = ''cli/payload-unreadable''"
definition code_context_unresolved :: string where "code_context_unresolved = ''cli/context-unresolved''"
definition code_output_unwritable :: string where "code_output_unwritable = ''cli/output-unwritable''"

definition render_error :: "surroundings \<Rightarrow> error \<Rightarrow> string" where
  "render_error su e = render (su_render su) e (mode_for (de_format (su_env su)) (su_writer su))"

definition fails :: "surroundings \<Rightarrow> string \<Rightarrow> dispatch_error \<Rightarrow> sink \<Rightarrow> outcome" where
  "fails su code e k =
     \<lparr>oc_code = 1, oc_sink = k, oc_stderr = render_error su (local_error type_local code (Some (su_says su e)) []), oc_sent = None\<rparr>"

definition prints :: "surroundings \<Rightarrow> string \<Rightarrow> sink \<Rightarrow> outcome" where
  "prints su s k =
     (case write_out s k of
        (k, Some e) \<Rightarrow> fails su code_output_unwritable (OutputFails e) k
      | (k, None) \<Rightarrow> \<lparr>oc_code = 0, oc_sink = k, oc_stderr = [], oc_sent = None\<rparr>)"

definition print_json :: "surroundings \<Rightarrow> json \<Rightarrow> sink \<Rightarrow> outcome" where
  "print_json su v k =
     (case env_encode (su_render su) v of
        Inl e \<Rightarrow> fails su code_output_unwritable (OutputFails e) k
      | Inr text \<Rightarrow> prints su (text @ [CHR 0x0A]) k)"

definition version_info :: "surroundings \<Rightarrow> json" where
  "version_info su =
     JObj [(''version'', JStr (de_product (su_env su))), (''build_id'', JStr (de_build (su_env su))),
           (''protocol_version'', JNum (show_int protocol_version))]"

definition dry_run_info :: "object \<Rightarrow> json" where
  "dry_run_info envelope =
     JObj [(''protocol_version'', JNum (show_int protocol_version)), (''request_id'', JStr ''<dry-run>''),
           (''weaver_id'', JStr ''<dry-run>''), (''operation'', JStr ''invoke''), (''arguments'', JObj envelope), (''options'', JObj [])]"

definition dispatch_send :: "surroundings \<Rightarrow> parsed \<Rightarrow> call_context \<Rightarrow> object \<Rightarrow> sink \<Rightarrow> outcome" where
  "dispatch_send su p cx envelope k =
     (let world = \<lparr>wq_cwd = cx_cwd cx, wq_config_dir = pa_workspace p, wq_auto_start = False, wq_ready_timeout = 0\<rparr>;
          r = su_send su world envelope k;
          command = (case pa_op p of None \<Rightarrow> [[]] | Some op \<Rightarrow> [op]) @ pa_argv p
      in \<lparr>oc_code = (if rl_err r \<noteq> None \<and> rl_code r = 0 then 1 else rl_code r),
          oc_sink = rl_sink r,
          oc_stderr = rl_stderr r @ (case rl_err r of
              None \<Rightarrow> [] | Some (ResponseErr _) \<Rightarrow> []
            | Some e \<Rightarrow> render_error su (for_rendering (su_fault su) command e)),
          oc_sent = Some (world, envelope)\<rparr>)"

definition dispatch_invoke :: "surroundings \<Rightarrow> parsed \<Rightarrow> sink \<Rightarrow> outcome" where
  "dispatch_invoke su p k =
     (case validate_format (de_format (su_env su)) of
        Some v \<Rightarrow> fails su code_invalid_error_format (BadFormat v) k
      | None \<Rightarrow>
          (case build_payloads (su_env su) p of
             Inl e \<Rightarrow> fails su code_payload_unreadable e k
           | Inr payloads \<Rightarrow>
               (case resolve_context (su_env su) p of
                  Inl e \<Rightarrow> fails su code_context_unresolved e k
                | Inr cx \<Rightarrow>
                    (case assemble_envelope (su_env su) p payloads cx (terminal_capabilities (su_env su)) of
                       Inl e \<Rightarrow> fails su code_invalid_invocation e k
                     | Inr envelope \<Rightarrow>
                         if pa_dry_run p then print_json su (dry_run_info envelope) k
                         else dispatch_send su p cx envelope k))))"

definition run_strand :: "surroundings \<Rightarrow> string list \<Rightarrow> sink \<Rightarrow> outcome" where
  "run_strand su args k =
     (case parse_args args of
        Inl e \<Rightarrow> fails su code_invalid_invocation (BadFlags e) k
      | Inr p \<Rightarrow>
          if pa_version p then print_json su (version_info su) k
          else (case pa_op p of
            None \<Rightarrow> prints su (su_help su) k
          | Some op \<Rightarrow>
              if pa_help p then fails su code_invalid_invocation (HelpMisplaced op) k
              else dispatch_invoke su p k))"

section \<open>Flags as data\<close>

text \<open>A flag as it may be written, its arguments, and what it sets.\<close>

datatype flag = Switch string | Separate string string | Joined string string

fun print_flag :: "flag \<Rightarrow> string list" where
  "print_flag (Switch s) = [s]"
| "print_flag (Separate n v) = [n, v]"
| "print_flag (Joined n v) = [n @ ''='' @ v]"

fun known_flag :: "flag \<Rightarrow> bool" where
  "known_flag (Switch s) \<longleftrightarrow> s \<in> fst ` set switches"
| "known_flag (Separate n v) \<longleftrightarrow> n \<in> fst ` set value_flags"
| "known_flag (Joined n v) \<longleftrightarrow> n \<in> fst ` set value_flags"

fun apply_flag :: "flag \<Rightarrow> parsed \<Rightarrow> parsed" where
  "apply_flag (Switch s) p = the (map_of switches s) p"
| "apply_flag (Separate n v) p = the (map_of value_flags n) v p"
| "apply_flag (Joined n v) p = the (map_of value_flags n) v p"

lemma flag_names: "n \<in> fst ` set switches \<union> fst ` set value_flags \<Longrightarrow> has_prefix n ''-''"
  by (auto simp: switches_def value_flags_def has_prefix_def)

lemma has_prefix_trans: "has_prefix a b \<Longrightarrow> has_prefix b c \<Longrightarrow> has_prefix a c"
  by (auto simp: has_prefix_def) (metis append_take_drop_id drop_take length_append length_take min.absorb2 nat_le_linear take_append take_all take_take)

lemma matches_dash: "flag_matches a n \<Longrightarrow> has_prefix n ''-'' \<Longrightarrow> has_prefix a ''-''"
  by (cases a; cases n) (auto simp: flag_matches_def has_prefix_def)

lemma op_is_no_flag:
  assumes "\<not> has_prefix a ''-''"
  shows "map_of switches a = None" "List.find (\<lambda>(name, upd). flag_matches a name) value_flags = None"
proof -
  show "map_of switches a = None" using assms flag_names by (auto simp: map_of_eq_None_iff)
  show "List.find (\<lambda>(name, upd). flag_matches a name) value_flags = None"
    unfolding find_None_iff using assms flag_names matches_dash by (fastforce simp: image_iff)
qed

lemma find_value_flag:
  assumes "n \<in> fst ` set value_flags"
  shows "List.find (\<lambda>(name, upd). flag_matches n name) value_flags = Some (n, the (map_of value_flags n))"
    "List.find (\<lambda>(name, upd). flag_matches (n @ ''='' @ v) name) value_flags = Some (n, the (map_of value_flags n))"
    "map_of switches n = None" "map_of switches (n @ ''='' @ v) = None"
    "flag_value n rest n = (case rest of [] \<Rightarrow> Err (NeedsArgument n) | v # rest' \<Rightarrow> Ok (v, rest'))"
    "flag_value (n @ ''='' @ v) rest n = Ok (v, rest)"
  using assms
  by (auto simp: value_flags_def switches_def flag_matches_def flag_value_def has_prefix_def trim_prefix_def)

lemma parse_print:
  assumes "known_flag f"
  shows "parse_from p (print_flag f @ rest) = parse_from (apply_flag f p) rest"
proof (cases f)
  case (Switch s)
  then obtain upd where "map_of switches s = Some upd" using assms by (cases "map_of switches s") (auto simp: map_of_eq_None_iff)
  then show ?thesis using Switch by simp
next
  case (Separate n v)
  then have "n \<in> fst ` set value_flags" using assms by simp
  note find_value_flag [OF this]
  then show ?thesis using Separate by simp
next
  case (Joined n v)
  then have "n \<in> fst ` set value_flags" using assms by simp
  note find_value_flag [OF this]
  then show ?thesis using Joined by simp
qed

lemma parse_flags:
  "list_all known_flag fs \<Longrightarrow> parse_from p (concat (map print_flag fs) @ rest) = parse_from (fold apply_flag fs p) rest"
  by (induction fs arbitrary: p) (simp_all add: parse_print)

lemma matched_flag:
  assumes "List.find (\<lambda>(name, upd). flag_matches a name) value_flags = Some (n, upd)" "flag_value a rest n = Ok (v, rest')"
  obtains f where "known_flag f" "a # rest = print_flag f @ rest'" "upd v = apply_flag f"
proof -
  from assms(1) have n: "(n, upd) \<in> set value_flags" "flag_matches a n" by (auto simp: find_Some_iff) (metis nth_mem)
  have d: "distinct (map fst value_flags)" by (simp add: value_flags_def)
  then have upd: "map_of value_flags n = Some upd" using n(1) by simp
  have known: "n \<in> fst ` set value_flags" using n(1) by force
  show thesis
  proof (cases "has_prefix a (n @ ''='')")
    case True
    then have "a = n @ ''='' @ v" "rest' = rest"
      using assms(2) by (auto simp: flag_value_def trim_prefix_def has_prefix_def) (metis append_assoc append_take_drop_id append_Cons append_Nil)
    then show thesis using upd known by (intro that [of "Joined n v"]) auto
  next
    case False
    then have "a = n" "rest = v # rest'" using assms(2) n(2) by (auto simp: flag_value_def flag_matches_def split: list.splits)
    then show thesis using upd known by (intro that [of "Separate n v"]) auto
  qed
qed

definition reads_as :: "parsed \<Rightarrow> string list \<Rightarrow> parsed \<Rightarrow> flag list \<Rightarrow> bool" where
  "reads_as p args p' fs \<longleftrightarrow>
     list_all known_flag fs
     \<and> (args = concat (map print_flag fs) \<and> p' = fold apply_flag fs p
        \<or> (\<exists>op argv. args = concat (map print_flag fs) @ op # argv \<and> \<not> has_prefix op ''-''
             \<and> p' = (fold apply_flag fs p)\<lparr>pa_op := Some op, pa_argv := argv\<rparr>))"

lemma reads_as_flag:
  assumes "reads_as (apply_flag f p) rest p' fs" "known_flag f" "args = print_flag f @ rest"
  shows "reads_as p args p' (f # fs)"
  using assms by (auto simp: reads_as_def)

lemma parse_reads: "parse_from p args = Ok p' \<Longrightarrow> \<exists>fs. reads_as p args p' fs"
proof (induction p args rule: parse_from.induct)
  case (1 p)
  then show ?case by (intro exI [of _ "[]"]) (simp add: reads_as_def)
next
  case (2 p a rest)
  show ?case
  proof (cases "map_of switches a")
    case (Some upd)
    then obtain fs where "reads_as (upd p) rest p' fs" using 2 by auto
    moreover have "a \<in> fst ` set switches" using map_of_SomeD [OF Some] by force
    ultimately show ?thesis using Some reads_as_flag [of "Switch a" p rest p' fs] by (intro exI [of _ "Switch a # fs"]) simp
  next
    case None
    show ?thesis
    proof (cases "List.find (\<lambda>(name, upd). flag_matches a name) value_flags")
      case (Some x)
      then obtain n upd where x: "List.find (\<lambda>(name, upd). flag_matches a name) value_flags = Some (n, upd)" by (cases x) auto
      then obtain v rest' where v: "flag_value a rest n = Ok (v, rest')" using 2(3) None by (auto split: sum.splits)
      from matched_flag [OF x v] obtain f where f: "known_flag f" "a # rest = print_flag f @ rest'" "upd v = apply_flag f" .
      obtain fs where "reads_as (upd v p) rest' p' fs" using 2(1) [OF None x refl v refl] 2(3) None x v by auto
      then show ?thesis using f reads_as_flag [of f p rest' p' fs] by auto
    next
      case unknown: None
      then have "\<not> has_prefix a ''-''" "p' = p\<lparr>pa_op := Some a, pa_argv := rest\<rparr>"
        using 2(3) None by (auto split: if_splits)
      then show ?thesis by (intro exI [of _ "[]"]) (simp add: reads_as_def)
    qed
  qed
qed

lemma reads_parse: "reads_as p args p' fs \<Longrightarrow> parse_from p args = Ok p'"
  using parse_flags [of fs p "[]"] parse_flags [of fs p] op_is_no_flag by (auto simp: reads_as_def)

section \<open>Payloads\<close>

definition loads :: "dispatch_env \<Rightarrow> string \<Rightarrow> string \<times> string \<Rightarrow> bool" where
  "loads env spec slot \<longleftrightarrow>
     (\<exists>path. spec = fst slot @ CHR ''='' # path \<and> CHR ''='' \<notin> set (fst slot) \<and> fst slot \<noteq> [] \<and> path \<noteq> []
       \<and> de_file env path = Ok (snd slot))"

lemma add_payloads_iff:
  "add_payloads env ps specs = Ok qs \<longleftrightarrow>
     (\<exists>rs. qs = ps @ rs \<and> list_all2 (loads env) specs rs \<and> distinct (map fst rs) \<and> fst ` set ps \<inter> fst ` set rs = {})"
proof (induction specs arbitrary: ps)
  case (Cons spec specs)
  show ?case
  proof
    assume ok: "add_payloads env ps (spec # specs) = Ok qs"
    obtain name path found where c: "cut (CHR ''='') spec = (name, path, found)" by (cases "cut (CHR ''='') spec") auto
    then have n: "found" "name \<noteq> []" "path \<noteq> []" "name \<notin> fst ` set ps" using ok by (auto split: if_splits)
    then obtain content where f: "de_file env path = Ok content" "add_payloads env (ps @ [(name, content)]) specs = Ok qs"
      using ok c by (auto split: sum.splits)
    have spec: "spec = name @ CHR ''='' # path" "CHR ''='' \<notin> set name" using cut_found [of "CHR ''=''" spec name path] c n(1) by simp_all
    from f(2) [unfolded Cons.IH] obtain rs where
      rs: "qs = (ps @ [(name, content)]) @ rs" "list_all2 (loads env) specs rs" "distinct (map fst rs)"
      "fst ` set (ps @ [(name, content)]) \<inter> fst ` set rs = {}" by (elim exE conjE) (rule that)
    have "loads env spec (name, content)" using spec n f(1) by (auto simp: loads_def)
    then show "\<exists>rs. qs = ps @ rs \<and> list_all2 (loads env) (spec # specs) rs \<and> distinct (map fst rs) \<and> fst ` set ps \<inter> fst ` set rs = {}"
      using rs n(4) by (intro exI [of _ "(name, content) # rs"]) auto
  next
    assume "\<exists>rs. qs = ps @ rs \<and> list_all2 (loads env) (spec # specs) rs \<and> distinct (map fst rs) \<and> fst ` set ps \<inter> fst ` set rs = {}"
    then obtain slot rs where rs: "qs = ps @ slot # rs" "loads env spec slot" "list_all2 (loads env) specs rs"
      "distinct (map fst (slot # rs))" "fst ` set ps \<inter> fst ` set (slot # rs) = {}"
      by (auto simp: list_all2_Cons1)
    from rs(2) obtain path where path: "spec = fst slot @ CHR ''='' # path" "CHR ''='' \<notin> set (fst slot)" "fst slot \<noteq> []" "path \<noteq> []"
      "de_file env path = Ok (snd slot)" by (auto simp: loads_def)
    have cut: "cut (CHR ''='') spec = (fst slot, path, True)" unfolding path(1) by (rule cut_append [OF path(2)])
    have "add_payloads env (ps @ [slot]) specs = Ok qs"
      unfolding Cons.IH using rs by (intro exI [of _ rs]) auto
    moreover have "fst slot \<notin> fst ` set ps" using rs(5) by auto
    ultimately show "add_payloads env ps (spec # specs) = Ok qs" using cut path(3,4,5) by simp
  qed
qed auto

section \<open>What is sent\<close>

lemma envelope_entries:
  assumes "assemble_envelope env p payloads cx terminal = Ok envelope" "pa_op p = Some op"
  shows "map_of envelope ''name'' = Some (JStr op)" "map_of envelope ''argv'' = Some (JArr (map JStr (pa_argv p)))"
    "map_of envelope ''payloads'' = Some (JObj (map (\<lambda>(k, v). (k, JStr v)) payloads))"
    "map_of envelope ''cwd'' = Some (JStr (cx_cwd cx))"
    "map_of envelope ''workspace'' = (if pa_workspace p = [] then None else Some (JStr (pa_workspace p)))"
    "case pa_timeout p of None \<Rightarrow> map_of envelope ''timeout'' = None
     | Some t \<Rightarrow> (\<exists>d. de_duration env t = Ok d \<and> 1000000 \<le> d \<and> map_of envelope ''timeout'' = Some (JNum (show_int (d div 1000000))))"
proof -
  have ms: "1000000 \<le> d \<and> milliseconds d = d div 1000000" if "0 < milliseconds d" for d
    using that by (cases "d < 0") (auto simp: milliseconds_def)
  obtain timeout where t: "envelope_timeout env p = Ok timeout" using assms(1) by (auto simp: assemble_envelope_def split: sum.splits)
  show "map_of envelope ''name'' = Some (JStr op)" "map_of envelope ''argv'' = Some (JArr (map JStr (pa_argv p)))"
    "map_of envelope ''payloads'' = Some (JObj (map (\<lambda>(k, v). (k, JStr v)) payloads))"
    "map_of envelope ''cwd'' = Some (JStr (cx_cwd cx))"
    "map_of envelope ''workspace'' = (if pa_workspace p = [] then None else Some (JStr (pa_workspace p)))"
    using assms t by (auto simp: assemble_envelope_def split: option.splits)
  show "case pa_timeout p of None \<Rightarrow> map_of envelope ''timeout'' = None
     | Some t \<Rightarrow> (\<exists>d. de_duration env t = Ok d \<and> 1000000 \<le> d \<and> map_of envelope ''timeout'' = Some (JNum (show_int (d div 1000000))))"
  proof (cases "pa_timeout p")
    case None
    then show ?thesis using assms t by (auto simp: assemble_envelope_def envelope_timeout_def)
  next
    case (Some s)
    then obtain d where d: "de_duration env s = Ok d" "0 < milliseconds d" "timeout = Some (milliseconds d)"
      using t by (auto simp: envelope_timeout_def split: sum.splits if_splits)
    then show ?thesis using Some assms t ms [OF d(2)] by (auto simp: assemble_envelope_def)
  qed
qed

lemma not_sent [simp]: "oc_sent (fails su code e k) = None" "oc_sent (prints su s k) = None" "oc_sent (print_json su v k) = None"
  by (simp_all add: fails_def prints_def print_json_def split: prod.split option.split sum.split)

lemma sent_stages:
  assumes "oc_sent (run_strand su args k) = Some (world, envelope)"
  obtains p op payloads cx where "parse_args args = Ok p" "pa_op p = Some op" "\<not> pa_version p" "\<not> pa_help p" "\<not> pa_dry_run p"
    "validate_format (de_format (su_env su)) = None" "build_payloads (su_env su) p = Ok payloads"
    "resolve_context (su_env su) p = Ok cx" "assemble_envelope (su_env su) p payloads cx (terminal_capabilities (su_env su)) = Ok envelope"
    "wq_cwd world = cx_cwd cx" "wq_config_dir world = pa_workspace p"
proof -
  from assms obtain p op where p: "parse_args args = Ok p" "pa_op p = Some op" "\<not> pa_version p" "\<not> pa_help p"
    and inv: "oc_sent (dispatch_invoke su p k) = Some (world, envelope)"
    by (auto simp: run_strand_def split: sum.splits option.splits if_splits)
  from inv obtain payloads cx env' where q: "validate_format (de_format (su_env su)) = None" "build_payloads (su_env su) p = Ok payloads"
    "resolve_context (su_env su) p = Ok cx" "assemble_envelope (su_env su) p payloads cx (terminal_capabilities (su_env su)) = Ok env'"
    "\<not> pa_dry_run p" "oc_sent (dispatch_send su p cx env' k) = Some (world, envelope)"
    unfolding dispatch_invoke_def by (auto split: sum.splits option.splits if_splits)
  from q(6) have "env' = envelope" "wq_cwd world = cx_cwd cx" "wq_config_dir world = pa_workspace p"
    by (auto simp: dispatch_send_def Let_def)
  with p q that show thesis by blast
qed

section \<open>What is printed\<close>

text \<open>The results the client may deliver.\<close>

definition client_result :: "relay_env \<Rightarrow> relay_result \<Rightarrow> bool" where
  "client_result env r \<longleftrightarrow>
     (\<exists>meta dial sent reads events k. invoke_call (metadata_or_error meta) dial sent env reads events k = Some r)"

lemma rendered_transport:
  "rendered_once env r \<Longrightarrow> rendered_once env (r\<lparr>rl_err := as_transport (rl_err r)\<rparr>)"
  by (auto simp: rendered_once_def as_transport_def split: option.splits call_error.splits)

lemma as_transport_None [simp]: "as_transport e = None \<longleftrightarrow> e = None"
  by (auto simp: as_transport_def split: option.splits call_error.splits)

lemma client_result_rendered:
  assumes "client_result env r"
  shows "rendered_once env r \<or> rl_code r = 130 \<and> rl_err r = None"
proof -
  from assms obtain meta dial sent reads events k q where
    q: "invoke_through_mill (metadata_or_error meta) dial sent env reads events k = Some q" and r: "r = q\<lparr>rl_err := as_transport (rl_err q)\<rparr>"
    by (auto simp: client_result_def invoke_call_def)
  have "rendered_once env q \<or> rl_code q = 130 \<and> rl_err q = None"
    using q rendered_response
    by (auto simp: invoke_through_mill_def metadata_or_error_def Let_def intro!: rendered_ends split: sum.splits if_splits)
  then show ?thesis using rendered_transport [of env q] r by auto
qed

lemma prints_rendering: "oc_stderr (prints su s k) = [] \<and> oc_code (prints su s k) = 0
    \<or> (\<exists>e. oc_stderr (prints su s k) = render_error su e \<and> oc_code (prints su s k) = 1)"
  by (auto simp: prints_def fails_def split: prod.split option.split)

lemma fails_rendering: "\<exists>e'. oc_stderr (fails su code e k) = render_error su e' \<and> oc_code (fails su code e k) = 1"
  by (auto simp: fails_def)

lemma json_rendering: "oc_stderr (print_json su v k) = [] \<and> oc_code (print_json su v k) = 0
    \<or> (\<exists>e. oc_stderr (print_json su v k) = render_error su e \<and> oc_code (print_json su v k) = 1)"
  unfolding print_json_def using prints_rendering fails_rendering by (auto split: sum.split)

definition renders_once :: "surroundings \<Rightarrow> outcome \<Rightarrow> bool" where
  "renders_once su oc \<longleftrightarrow>
     oc_code oc = 0 \<and> oc_stderr oc = [] \<or> oc_code oc = 130 \<or> (\<exists>e. oc_stderr oc = render_error su e \<and> oc_code oc = 1)"

lemma send_rendering:
  assumes "client_result env (su_send su \<lparr>wq_cwd = cx_cwd cx, wq_config_dir = pa_workspace p, wq_auto_start = False, wq_ready_timeout = 0\<rparr> envelope k)"
    and "rv_render env = su_render su" "rv_mode env = mode_for (de_format (su_env su)) (su_writer su)"
  shows "renders_once su (dispatch_send su p cx envelope k)"
proof -
  let ?r = "su_send su \<lparr>wq_cwd = cx_cwd cx, wq_config_dir = pa_workspace p, wq_auto_start = False, wq_ready_timeout = 0\<rparr> envelope k"
  from client_result_rendered [OF assms(1)] show ?thesis
  proof (elim disjE conjE)
    assume "rendered_once env ?r"
    then show ?thesis using assms(2,3)
      by (cases "rl_err ?r") (auto simp: renders_once_def dispatch_send_def Let_def rendered_once_def render_error_def split: call_error.splits)
  next
    assume "rl_code ?r = 130" "rl_err ?r = None"
    then show ?thesis by (simp add: renders_once_def dispatch_send_def Let_def)
  qed
qed

section \<open>Properties\<close>

text \<open>C16:
  The dispatcher reads exactly the command lines that are written of its flags, each flag with its value joined by
  an equals sign or as the next argument, followed by nothing or by an operation, which is no flag, and its
  arguments; a later flag wins over an earlier one, and the arguments of the operation are kept as they are.
\<close>

theorem parse_exact:
  "parse_args args = Ok p \<longleftrightarrow>
     (\<exists>fs. list_all known_flag fs
       \<and> (args = concat (map print_flag fs) \<and> p = fold apply_flag fs empty_parsed
          \<or> (\<exists>op argv. args = concat (map print_flag fs) @ op # argv \<and> \<not> has_prefix op ''-''
               \<and> p = (fold apply_flag fs empty_parsed)\<lparr>pa_op := Some op, pa_argv := argv\<rparr>)))"
  using parse_reads [of empty_parsed args p] reads_parse [of empty_parsed args p] unfolding parse_args_def reads_as_def by blast

text \<open>C17:
  What is sent names an operation with its arguments as they were typed, the payloads in the order of their flags,
  each with the content of its file and under a name of its own, and a deadline of at least a millisecond if one
  was asked for; nothing is sent for help, a version, a dry run or an invalid choice of the error format.
\<close>

theorem sent_envelope_sound:
  assumes "oc_sent (run_strand su args k) = Some (world, envelope)"
  shows "\<exists>p op payloads. parse_args args = Ok p \<and> pa_op p = Some op \<and> \<not> pa_version p \<and> \<not> pa_help p \<and> \<not> pa_dry_run p
    \<and> validate_format (de_format (su_env su)) = None
    \<and> map_of envelope ''name'' = Some (JStr op) \<and> map_of envelope ''argv'' = Some (JArr (map JStr (pa_argv p)))
    \<and> map_of envelope ''payloads'' = Some (JObj (map (\<lambda>(n, content). (n, JStr content)) payloads))
    \<and> distinct (map fst payloads)
    \<and> list_all2 (loads (su_env su)) (pa_payloads p) (if pa_stdin p then tl payloads else payloads)
    \<and> (pa_stdin p \<longrightarrow> payloads \<noteq> [] \<and> fst (hd payloads) = ''stdin'' \<and> de_stdin (su_env su) = Ok (snd (hd payloads)))
    \<and> wq_config_dir world = pa_workspace p
    \<and> (case pa_timeout p of None \<Rightarrow> map_of envelope ''timeout'' = None
       | Some t \<Rightarrow> (\<exists>d. de_duration (su_env su) t = Ok d \<and> 1000000 \<le> d \<and> map_of envelope ''timeout'' = Some (JNum (show_int (d div 1000000)))))"
proof -
  obtain p op payloads cx where s: "parse_args args = Ok p" "pa_op p = Some op" "\<not> pa_version p" "\<not> pa_help p" "\<not> pa_dry_run p"
    "validate_format (de_format (su_env su)) = None" "build_payloads (su_env su) p = Ok payloads"
    "resolve_context (su_env su) p = Ok cx" "assemble_envelope (su_env su) p payloads cx (terminal_capabilities (su_env su)) = Ok envelope"
    "wq_cwd world = cx_cwd cx" "wq_config_dir world = pa_workspace p"
    by (rule sent_stages [OF assms])
  obtain start where start: "add_payloads (su_env su) start (pa_payloads p) = Ok payloads"
    "if pa_stdin p then (\<exists>c. start = [(''stdin'', c)] \<and> de_stdin (su_env su) = Ok c) else start = []"
    using s(7) by (cases "de_stdin (su_env su)") (auto simp: build_payloads_def split: sum.splits if_splits)
  from start(1) obtain rs where rs: "payloads = start @ rs" "list_all2 (loads (su_env su)) (pa_payloads p) rs" "distinct (map fst rs)"
    "fst ` set start \<inter> fst ` set rs = {}" unfolding add_payloads_iff by (elim exE conjE) (rule that)
  have "distinct (map fst payloads)" "list_all2 (loads (su_env su)) (pa_payloads p) (if pa_stdin p then tl payloads else payloads)"
    "pa_stdin p \<longrightarrow> payloads \<noteq> [] \<and> fst (hd payloads) = ''stdin'' \<and> de_stdin (su_env su) = Ok (snd (hd payloads))"
    using rs start(2) by (auto split: if_splits)
  then show ?thesis using s envelope_entries [OF s(9,2)] by blast
qed

text \<open>Every run of the command ends with nothing on standard error and the code zero, or with exactly one rendered
  error and the code one, or with the code 130 of an interrupt; for every result the client may deliver.
\<close>

theorem one_rendering:
  assumes "\<And>world envelope k. client_result env (su_send su world envelope k)"
    and "rv_render env = su_render su" "rv_mode env = mode_for (de_format (su_env su)) (su_writer su)"
  shows "oc_code (run_strand su args k) = 0 \<and> oc_stderr (run_strand su args k) = []
    \<or> oc_code (run_strand su args k) = 130
    \<or> (\<exists>e. oc_stderr (run_strand su args k) = render_error su e \<and> oc_code (run_strand su args k) = 1)"
proof -
  have send: "renders_once su (dispatch_send su p cx envelope k)" for p cx envelope
    by (rule send_rendering [OF assms])
  have json: "renders_once su (print_json su v k)" for v using json_rendering unfolding renders_once_def by blast
  have text': "renders_once su (prints su t k)" for t using prints_rendering unfolding renders_once_def by blast
  have fail: "renders_once su (fails su code e k)" for code e using fails_rendering unfolding renders_once_def by blast
  have "renders_once su (dispatch_invoke su p k)" for p
    unfolding dispatch_invoke_def using send json fail by (auto split: option.split sum.split)
  then have "renders_once su (run_strand su args k)"
    unfolding run_strand_def using json text' fail by (auto split: option.split sum.split)
  then show ?thesis unfolding renders_once_def .
qed

lemma submillisecond_refused:
  "pa_timeout p = Some t \<Longrightarrow> de_duration env t = Ok 500000 \<Longrightarrow> envelope_timeout env p = Err (TimeoutNotPositive t)"
  by (simp add: envelope_timeout_def milliseconds_def)

section \<open>Examples\<close>

definition demo_surroundings :: surroundings where
  "demo_surroundings =
     \<lparr>su_env = \<lparr>de_stdin = Ok [], de_file = (\<lambda>_. Err []), de_getwd = Ok ''/w'', de_git = (\<lambda>_. Ok (''/w'', ''/w/.git'')), de_tty = False,
        de_size = None, de_duration = (\<lambda>_. Err []), de_pid = 7, de_product = ''1'', de_build = ''b'', de_format = []\<rparr>,
      su_render = demo_render, su_writer = None, su_says = (\<lambda>_. ''e''), su_fault = (\<lambda>_. ''f''), su_help = ''h'',
      su_send = (\<lambda>_ _ k. ends k (Some (TransportErr code_mill_unreachable MetadataFails)))\<rparr>"

definition demo_sink :: sink where
  "demo_sink = \<lparr>sk_out = [], sk_faults = []\<rparr>"

lemma demo_parse: "parse_args [''op'', ''x''] = Ok (empty_parsed\<lparr>pa_op := Some ''op'', pa_argv := [''x'']\<rparr>)"
  using op_is_no_flag [of "''op''"] by (simp add: parse_args_def has_prefix_def)

lemma demo_sent: "\<exists>world envelope. oc_sent (run_strand demo_surroundings [''op'', ''x''] demo_sink) = Some (world, envelope)"
  by (simp add: run_strand_def demo_parse empty_parsed_def dispatch_invoke_def validate_format_def build_payloads_def resolve_context_def
      assemble_envelope_def envelope_timeout_def dispatch_send_def Let_def demo_surroundings_def)

theorem sent_envelope_sound_witness:
  "\<exists>world envelope. oc_sent (run_strand demo_surroundings [''op'', ''x''] demo_sink) = Some (world, envelope)
     \<and> map_of envelope ''name'' = Some (JStr ''op'') \<and> map_of envelope ''argv'' = Some (JArr [JStr ''x''])"
proof -
  obtain world envelope where w: "oc_sent (run_strand demo_surroundings [''op'', ''x''] demo_sink) = Some (world, envelope)"
    using demo_sent by blast
  from sent_envelope_sound [OF w] have "map_of envelope ''name'' = Some (JStr ''op'')" "map_of envelope ''argv'' = Some (JArr [JStr ''x''])"
    unfolding demo_parse by auto
  with w show ?thesis by blast
qed

theorem one_rendering_witness:
  "oc_code (run_strand demo_surroundings [''op''] demo_sink) = 0 \<and> oc_stderr (run_strand demo_surroundings [''op''] demo_sink) = []
    \<or> oc_code (run_strand demo_surroundings [''op''] demo_sink) = 130
    \<or> (\<exists>e. oc_stderr (run_strand demo_surroundings [''op''] demo_sink) = render_error demo_surroundings e
          \<and> oc_code (run_strand demo_surroundings [''op''] demo_sink) = 1)"
proof (rule one_rendering)
  let ?env = "\<lparr>rv_render = demo_render, rv_mode = mode_for [] None, rv_command = []\<rparr>"
  show "client_result ?env (su_send demo_surroundings world envelope k)" for world envelope k
    unfolding client_result_def
    by (intro exI [of _ "Err NoRunningMill"] exI [of _ False] exI [of _ "[]"] exI [of _ k])
       (simp add: invoke_call_def invoke_through_mill_def metadata_or_error_def as_transport_def demo_surroundings_def ends_def)
  show "rv_render ?env = su_render demo_surroundings" "rv_mode ?env = mode_for (de_format (su_env demo_surroundings)) (su_writer demo_surroundings)"
    by (simp_all add: demo_surroundings_def)
qed

end
