(* ===== verification/Workspace.thy ===== *)
theory Workspace
  imports Pool_Host
begin

text \<open>
  Workspaces and their settings (\<open>cli/internal/config/config.go\<close>, \<open>runtime.go\<close>, \<open>bootstrap.go\<close>): the identity of a
  workspace and its runtime directories, the marker directory of a repository, the client configuration with its
  local overlay, the two settings the Mill writes, and the files of a new workspace.
\<close>

section \<open>Worlds\<close>

datatype entry_kind = Absent | Directory | OtherFile | Unstatted string

text \<open>
  What the operating system and Git answer: the working and the home directory, \<open>XDG_STATE_HOME\<close>, \<open>EvalSymlinks\<close>,
  SHA-256, the outputs of \<open>git rev-parse\<close>, and the two kinds of \<open>stat\<close>.
\<close>

record world_env =
  we_cwd :: "string option"
  we_home :: "string option"
  we_state_home :: string
  we_real :: "string \<Rightarrow> string option"
  we_sha :: "string \<Rightarrow> 8 word list"
  we_common_dir :: "string \<Rightarrow> (string, string) result"
  we_toplevel :: "string \<Rightarrow> (string, string) result"
  we_lstat :: "string \<Rightarrow> entry_kind"
  we_stat :: "string \<Rightarrow> entry_kind"

datatype world_error =
    DirRequired
  | NoCwd
  | NoHome
  | StateHomeRelative string
  | GitFails string
  | GitRelative string
  | GitLayout string
  | GitContextRelative string string
  | LegacyMarker string
  | MarkerUnread string
  | MarkerInvalid string
  | MarkersConflict string string

definition state_root :: "world_env \<Rightarrow> (world_error, string) result" where
  "state_root e =
     (case (if we_state_home e = [] then map_option (\<lambda>h. join_path [h, ''.local'', ''state'']) (we_home e)
            else Some (we_state_home e)) of
        None \<Rightarrow> Err NoHome
      | Some base \<Rightarrow>
          if \<not> is_abs base then Err (StateHomeRelative base) else Ok (join_path [clean_path base, ''millstrand'']))"

text \<open>\<open>filepath.Abs\<close>.\<close>

definition abs_path :: "world_env \<Rightarrow> string \<Rightarrow> string option" where
  "abs_path e p = (if is_abs p then Some (clean_path p) else map_option (\<lambda>d. join_path [d, p]) (we_cwd e))"

definition real_path :: "world_env \<Rightarrow> string \<Rightarrow> string" where
  "real_path e p = (case we_real e p of Some r \<Rightarrow> r | None \<Rightarrow> p)"

definition canonical_config_identity :: "world_env \<Rightarrow> string \<Rightarrow> (world_error, string) result" where
  "canonical_config_identity e dir =
     (if dir = [] then Err DirRequired
      else case abs_path e dir of None \<Rightarrow> Err NoCwd | Some p \<Rightarrow> Ok (clean_path (real_path e p)))"

definition default_workspace :: string where "default_workspace = ''.millstrand''"

definition workspace_alias :: string where "workspace_alias = ''.ms''"

definition legacy_workspace :: string where "legacy_workspace = ''.skein''"

definition marker_neutral_identity :: "string \<Rightarrow> string" where
  "marker_neutral_identity p =
     (if base_path p = workspace_alias \<or> base_path p = default_workspace
      then join_path [dir_path p, default_workspace] else p)"

definition canonical_world_identity :: "world_env \<Rightarrow> string \<Rightarrow> (world_error, string) result" where
  "canonical_world_identity e dir = map_sum (\<lambda>x. x) marker_neutral_identity (canonical_config_identity e dir)"

definition world_hash :: "world_env \<Rightarrow> string \<Rightarrow> string" where
  "world_hash e identity = take 32 (hex_encode (we_sha e identity))"

definition world_at :: "string \<Rightarrow> string \<Rightarrow> string \<Rightarrow> world" where
  "world_at cdir sdir ddir =
     \<lparr>w_config_dir = cdir, w_state_dir = sdir, w_data_dir = ddir,
      w_config_file = join_path [cdir, ''config.json''], w_db_path = join_path [ddir, ''millstrand.sqlite'']\<rparr>"

definition runtime_world :: "world_env \<Rightarrow> string \<Rightarrow> (world_error, world) result" where
  "runtime_world e dir =
     (case canonical_config_identity e dir of
        Inl x \<Rightarrow> Err x
      | Inr p \<Rightarrow>
          (case state_root e of
             Inl x \<Rightarrow> Err x
           | Inr root \<Rightarrow>
               (let runtime = join_path [root, ''weavers'', world_hash e (marker_neutral_identity p)]
                in Ok (world_at p runtime (join_path [runtime, ''data''])))))"

definition mill_metadata_path :: "world_env \<Rightarrow> (world_error, string) result" where
  "mill_metadata_path e = map_sum (\<lambda>x. x) (\<lambda>root. join_path [root, ''mill.json'']) (state_root e)"

text \<open>\<open>GitRoot\<close>; an empty directory stands for the working directory.\<close>

definition git_root :: "world_env \<Rightarrow> string \<Rightarrow> (world_error, string) result" where
  "git_root e cwd =
     (case (if cwd = [] then we_cwd e else Some cwd) of
        None \<Rightarrow> Err NoCwd
      | Some dir \<Rightarrow>
          (case we_common_dir e dir of
             Inl x \<Rightarrow> Err (GitFails x)
           | Inr out \<Rightarrow>
               (let common = clean_path (trim_space out) in
                if \<not> is_abs common then Err (GitRelative common)
                else if base_path common \<noteq> ''.git'' then Err (GitLayout common)
                else Ok (dir_path common))))"

definition derive_git_context :: "world_env \<Rightarrow> string \<Rightarrow> (world_error, string \<times> string) result" where
  "derive_git_context e cwd =
     (case (if cwd = [] then we_cwd e else Some cwd) of
        None \<Rightarrow> Err NoCwd
      | Some dir \<Rightarrow>
          (case we_toplevel e dir of
             Inl x \<Rightarrow> Err (GitFails x)
           | Inr toplevel \<Rightarrow>
               (case we_common_dir e dir of
                  Inl x \<Rightarrow> Err (GitFails x)
                | Inr common \<Rightarrow>
                    (let r = clean_path (trim_space toplevel); c = clean_path (trim_space common) in
                     if \<not> is_abs r \<or> \<not> is_abs c then Err (GitContextRelative r c) else Ok (r, c)))))"

text \<open>\<open>repoWorkspace\<close>: the marker directories found, in the order they are looked for.\<close>

fun markers_found :: "world_env \<Rightarrow> string \<Rightarrow> string list \<Rightarrow> string list \<Rightarrow> (world_error, string list) result" where
  "markers_found e root found [] = Ok found"
| "markers_found e root found (name # names) =
     (let p = join_path [root, name] in
      case we_lstat e p of
        Absent \<Rightarrow> markers_found e root found names
      | Unstatted x \<Rightarrow> Err (MarkerUnread x)
      | Directory \<Rightarrow> if name = legacy_workspace then Err (LegacyMarker p) else markers_found e root (found @ [p]) names
      | OtherFile \<Rightarrow> if name = legacy_workspace then Err (LegacyMarker p) else Err (MarkerInvalid p))"

definition repo_workspace :: "world_env \<Rightarrow> string \<Rightarrow> (world_error, string) result" where
  "repo_workspace e root =
     (case markers_found e root [] [default_workspace, workspace_alias, legacy_workspace] of
        Inl x \<Rightarrow> Err x
      | Inr [] \<Rightarrow> Ok (join_path [root, default_workspace])
      | Inr [p] \<Rightarrow> Ok p
      | Inr (p # q # _) \<Rightarrow> Err (MarkersConflict p q))"

definition repo_world :: "world_env \<Rightarrow> string \<Rightarrow> (world_error, world) result" where
  "repo_world e cwd =
     (case git_root e cwd of
        Inl x \<Rightarrow> Err x
      | Inr root \<Rightarrow> (case repo_workspace e root of Inl x \<Rightarrow> Err x | Inr dir \<Rightarrow> runtime_world e dir))"

definition selected_world :: "world_env \<Rightarrow> string \<Rightarrow> (world_error, world) result" where
  "selected_world e dir = (if dir \<noteq> [] then runtime_world e dir else repo_world e [])"

definition bootstrap_target_world :: "world_env \<Rightarrow> string \<Rightarrow> string \<Rightarrow> (world_error, world) result" where
  "bootstrap_target_world e cwd dir =
     (if dir = [] then repo_world e cwd
      else case (if is_abs dir then Some dir
                 else map_option (\<lambda>c. join_path [real_path e c, dir]) (if cwd = [] then we_cwd e else Some cwd)) of
             None \<Rightarrow> Err NoCwd
           | Some p \<Rightarrow>
               if base_path (clean_path p) = legacy_workspace then Err (LegacyMarker p) else runtime_world e p)"

section \<open>Settings\<close>

text \<open>A file as the decoder of JSON objects finds it.\<close>

datatype content = Fields object | NullDocument | Unparsed string

datatype file_at = NoFile | Unreadable string | Holds content

type_synonym disk = "string \<Rightarrow> file_at"

record client_config =
  cc_format :: string
  cc_name :: string
  cc_auto_start :: bool
  cc_pool :: "string option"
  cc_warnings :: "(string \<times> string list) list"

datatype config_error =
    BadWorld world_error
  | ConfigRequired string
  | ConfigUnread string
  | ConfigMalformed string
  | FormatNotString
  | FormatRequired
  | FormatUnsupported string
  | NameInvalid string
  | AutoStartInvalid string
  | PoolInvalid string
  | LocalMalformed string
  | LocalNotObject
  | LocalFormat
  | PoolBlank
  | NilMapWrite \<comment> \<open>an assignment to a nil map: the process crashes\<close>
  | WriteFault string

text \<open>\<open>json.Unmarshal\<close> into a string that is empty before; \<open>null\<close> leaves it.\<close>

fun go_string :: "json \<Rightarrow> string option" where
  "go_string (JStr s) = Some s"
| "go_string JNull = Some []"
| "go_string _ = None"

definition parse_config_name :: "string \<Rightarrow> json \<Rightarrow> (config_error, string) result" where
  "parse_config_name label v =
     (case go_string v of
        None \<Rightarrow> Err (NameInvalid label)
      | Some name \<Rightarrow> if blank name then Err (NameInvalid label) else Ok name)"

fun parse_auto_start :: "string \<Rightarrow> json \<Rightarrow> (config_error, bool) result" where
  "parse_auto_start label (JBool b) = Ok b"
| "parse_auto_start label _ = Err (AutoStartInvalid label)"

fun parse_jvm_pool :: "string \<Rightarrow> json \<Rightarrow> (config_error, string option) result" where
  "parse_jvm_pool label JNull = Ok None"
| "parse_jvm_pool label (JStr pool) = (if blank pool then Err (PoolInvalid label) else Ok (Some pool))"
| "parse_jvm_pool label _ = Err (PoolInvalid label)"

definition unknown_key_warnings :: "string \<Rightarrow> object \<Rightarrow> string list \<Rightarrow> (string \<times> string list) list" where
  "unknown_key_warnings path raw known =
     (let unknown = filter (\<lambda>k. k \<notin> set known) (map fst raw) in if unknown = [] then [] else [(path, sort unknown)])"

text \<open>One setting: taken from the document when it is there.\<close>

definition setting ::
    "object \<Rightarrow> string \<Rightarrow> (json \<Rightarrow> (config_error, 'a) result) \<Rightarrow> ('a \<Rightarrow> client_config \<Rightarrow> client_config) \<Rightarrow> client_config
     \<Rightarrow> (config_error, client_config) result" where
  "setting raw key parse assign c =
     (case map_of raw key of
        None \<Rightarrow> Ok c
      | Some v \<Rightarrow> (case parse v of Inl x \<Rightarrow> Err x | Inr a \<Rightarrow> Ok (assign a c)))"

definition apply_settings :: "string \<Rightarrow> object \<Rightarrow> client_config \<Rightarrow> (config_error, client_config) result" where
  "apply_settings label raw c =
     (case setting raw ''name'' (parse_config_name (label @ '' name'')) (\<lambda>n c. c\<lparr>cc_name := n\<rparr>) c of
        Inl x \<Rightarrow> Err x
      | Inr c \<Rightarrow>
          (case setting raw ''autoStart'' (parse_auto_start (label @ '' autoStart'')) (\<lambda>b c. c\<lparr>cc_auto_start := b\<rparr>) c of
             Inl x \<Rightarrow> Err x
           | Inr c \<Rightarrow> setting raw ''JVMPool'' (parse_jvm_pool (label @ '' JVMPool'')) (\<lambda>p c. c\<lparr>cc_pool := p\<rparr>) c))"

definition local_file :: "string \<Rightarrow> string" where
  "local_file dir = join_path [dir, ''config.local.json'']"

definition apply_local_overlay :: "string \<Rightarrow> file_at \<Rightarrow> client_config \<Rightarrow> (config_error, client_config) result" where
  "apply_local_overlay path found c =
     (case found of
        NoFile \<Rightarrow> Ok c
      | Unreadable x \<Rightarrow> Err (ConfigUnread x)
      | Holds (Unparsed x) \<Rightarrow> Err (LocalMalformed x)
      | Holds NullDocument \<Rightarrow> Err LocalNotObject
      | Holds (Fields raw) \<Rightarrow>
          if map_of raw ''configFormat'' \<noteq> None then Err LocalFormat
          else apply_settings ''local client config'' raw
                 (c\<lparr>cc_warnings := cc_warnings c @ unknown_key_warnings path raw [''name'', ''autoStart'', ''JVMPool'']\<rparr>))"

definition parse_config :: "string \<Rightarrow> object \<Rightarrow> (config_error, client_config) result" where
  "parse_config path raw =
     (case map_of raw ''configFormat'' of
        None \<Rightarrow> Err FormatRequired
      | Some v \<Rightarrow>
          (case go_string v of
             None \<Rightarrow> Err FormatNotString
           | Some fmt \<Rightarrow>
               if fmt \<noteq> ''alpha'' then Err (FormatUnsupported fmt)
               else apply_settings ''client config'' raw
                 \<lparr>cc_format = fmt, cc_name = [], cc_auto_start = False, cc_pool = None,
                  cc_warnings = unknown_key_warnings path raw [''configFormat'', ''name'', ''autoStart'', ''JVMPool'']\<rparr>))"

definition config_fields :: "content \<Rightarrow> (config_error, object) result" where
  "config_fields x = (case x of Fields raw \<Rightarrow> Ok raw | NullDocument \<Rightarrow> Ok [] | Unparsed t \<Rightarrow> Err (ConfigMalformed t))"

text \<open>\<open>Load\<close>.\<close>

definition load_config :: "world_env \<Rightarrow> disk \<Rightarrow> string \<Rightarrow> (config_error, client_config \<times> world) result" where
  "load_config e d dir =
     (case selected_world e dir of
        Inl x \<Rightarrow> Err (BadWorld x)
      | Inr w \<Rightarrow>
          (case d (w_config_file w) of
             NoFile \<Rightarrow> Err (ConfigRequired (w_config_file w))
           | Unreadable x \<Rightarrow> Err (ConfigUnread x)
           | Holds found \<Rightarrow>
               (case config_fields found of
                  Inl x \<Rightarrow> Err x
                | Inr raw \<Rightarrow>
                    (case parse_config (w_config_file w) raw of
                       Inl x \<Rightarrow> Err x
                     | Inr c \<Rightarrow>
                         (case apply_local_overlay (local_file (w_config_dir w)) (d (local_file (w_config_dir w))) c of
                            Inl x \<Rightarrow> Err x
                          | Inr c \<Rightarrow> Ok (c, w))))))"

text \<open>
  The replacement of a file through a temporary one in its directory, which fails as a whole or succeeds; the encoder
  coerces a string to valid UTF-8.
\<close>

definition replace_fields :: "string option \<Rightarrow> string \<Rightarrow> object \<Rightarrow> disk \<Rightarrow> config_error option \<times> disk" where
  "replace_fields fault path raw d =
     (case fault of Some x \<Rightarrow> (Some (WriteFault x), d) | None \<Rightarrow> (None, d(path := Holds (Fields raw))))"

definition set_local_jvm_pool :: "string option \<Rightarrow> string \<Rightarrow> string \<Rightarrow> disk \<Rightarrow> config_error option \<times> disk" where
  "set_local_jvm_pool fault dir pool d =
     (if blank pool then (Some PoolBlank, d)
      else
        let path = local_file dir;
            put = (\<lambda>raw. replace_fields fault path (AList.update ''JVMPool'' (JStr (utf8_coerce pool)) raw) d)
        in (case d path of
              NoFile \<Rightarrow> put []
            | Unreadable x \<Rightarrow> (Some (ConfigUnread x), d)
            | Holds (Fields raw) \<Rightarrow> put raw
            | Holds NullDocument \<Rightarrow> (Some LocalNotObject, d)
            | Holds (Unparsed x) \<Rightarrow> (Some (LocalMalformed x), d)))"

definition set_auto_start :: "string option \<Rightarrow> string \<Rightarrow> bool \<Rightarrow> disk \<Rightarrow> config_error option \<times> disk" where
  "set_auto_start fault dir enabled d =
     (let path = join_path [dir, ''config.json''] in
      case d path of
        NoFile \<Rightarrow> (Some (ConfigRequired path), d)
      | Unreadable x \<Rightarrow> (Some (ConfigUnread x), d)
      | Holds (Fields raw) \<Rightarrow> replace_fields fault path (AList.update ''autoStart'' (JBool enabled) raw) d
      | Holds NullDocument \<Rightarrow> (Some NilMapWrite, d)
      | Holds (Unparsed x) \<Rightarrow> (Some (ConfigMalformed x), d))"

section \<open>Sources\<close>

datatype validate_error = SourceRequired | HomeUnknown | NotAbsolute string string | NotDirectory string string | NoDeps string string

definition validate_source :: "world_env \<Rightarrow> string \<Rightarrow> string \<Rightarrow> (validate_error, string) result" where
  "validate_source e label source =
     (case (if source = ''~'' then we_home e
            else if has_prefix source ''~/'' then map_option (\<lambda>h. join_path [h, drop 2 source]) (we_home e)
            else Some source) of
        None \<Rightarrow> Err HomeUnknown
      | Some p \<Rightarrow>
          if \<not> is_abs p then Err (NotAbsolute label p)
          else if we_stat e p \<noteq> Directory then Err (NotDirectory label p)
          else if we_stat e (join_path [p, ''deps.edn'']) \<noteq> OtherFile then Err (NoDeps label p)
          else Ok p)"

definition resolve_source :: "world_env \<Rightarrow> string \<Rightarrow> (validate_error, string) result" where
  "resolve_source e source = (if source = [] then Err SourceRequired else validate_source e ''client config source'' source)"

section \<open>The files of a new workspace\<close>

text \<open>The faults of making directories, looking at and writing files, and the templates.\<close>

record bootstrap_input =
  bo_mkdir :: "string option"
  bo_stat :: "string \<Rightarrow> string option"
  bo_write :: "string \<Rightarrow> string option"
  bo_template :: "string \<Rightarrow> string"

definition write_missing :: "bootstrap_input \<Rightarrow> string \<Rightarrow> content \<Rightarrow> disk \<Rightarrow> config_error option \<times> disk" where
  "write_missing b path x d =
     (case bo_stat b path of
        Some err \<Rightarrow> (Some (ConfigUnread err), d)
      | None \<Rightarrow>
          if d path \<noteq> NoFile then (None, d)
          else (case bo_write b path of Some err \<Rightarrow> (Some (WriteFault err), d) | None \<Rightarrow> (None, d(path := Holds x))))"

fun write_all_missing :: "bootstrap_input \<Rightarrow> (string \<times> content) list \<Rightarrow> disk \<Rightarrow> config_error option \<times> disk" where
  "write_all_missing b [] d = (None, d)"
| "write_all_missing b ((path, x) # fs) d =
     (case write_missing b path x d of
        (Some err, d') \<Rightarrow> (Some err, d')
      | (None, d') \<Rightarrow> write_all_missing b fs d')"

definition workspace_files :: "bootstrap_input \<Rightarrow> world \<Rightarrow> (string \<times> content) list" where
  "workspace_files b w =
     (w_config_file w, Fields [(''configFormat'', JStr ''alpha'')])
     # map (\<lambda>elems. (join_path (w_config_dir w # elems), Unparsed (bo_template b (join_path elems))))
         [[''deps.edn''], [''init.clj''], [''me'', ''help.clj''], [''.gitignore'']]"

definition bootstrap_world ::
    "world_env \<Rightarrow> bootstrap_input \<Rightarrow> string \<Rightarrow> string \<Rightarrow> disk \<Rightarrow> (config_error, world) result \<times> disk" where
  "bootstrap_world e b cwd dir d =
     (case bootstrap_target_world e cwd dir of
        Inl x \<Rightarrow> (Err (BadWorld x), d)
      | Inr w \<Rightarrow>
          (case bo_mkdir b of
             Some x \<Rightarrow> (Err (WriteFault x), d)
           | None \<Rightarrow>
               (case write_all_missing b (workspace_files b w) d of
                  (Some x, d') \<Rightarrow> (Err x, d')
                | (None, d') \<Rightarrow>
                    (case load_config e d' (w_config_dir w) of
                       Inl x \<Rightarrow> (Err x, d')
                     | Inr _ \<Rightarrow> (Ok w, d')))))"

section \<open>Facts on paths\<close>

lemma split_on_append: "split_on sep (a @ sep # b) = split_on sep a @ split_on sep b"
  by (induction a) (auto split: list.splits)

lemma clean_stack:
  assumes "list_all element es"
  shows "foldl (clean_step True) [] (split_on (CHR ''/'') (CHR ''/'' # join ''/'' es)) = rev es"
proof (cases "es = []")
  case False
  have "split_on (CHR ''/'') (join ''/'' es) = es"
    using assms by (intro split_on_join [OF False]) (auto simp: list_all_iff element_def)
  then show ?thesis using clean_elements [OF assms, of "[]"] by simp
qed simp

lemma join_append: "es \<noteq> [] \<Longrightarrow> fs \<noteq> [] \<Longrightarrow> join sep (es @ fs) = join sep es @ sep @ join sep fs"
proof (induction es)
  case (Cons e es)
  then show ?case by (cases es; cases fs) auto
qed simp

lemma join_path_elements:
  assumes "canonical root" "list_all element es"
  shows "join_path (root # es) = CHR ''/'' # join ''/'' (path_elements root @ es)"
proof (cases "es = []")
  case True
  then show ?thesis using canonical_elements(1) [OF assms(1)] assms(1) by (auto simp: join_path_def canonical_def)
next
  case False
  let ?rs = "path_elements root"
  have r: "root = CHR ''/'' # join ''/'' ?rs" "list_all element ?rs" using canonical_elements [OF assms(1)] by blast+
  have j: "join ''/'' (root # es) = root @ CHR ''/'' # join ''/'' es" using False by (cases es) auto
  have "split_on (CHR ''/'') (join ''/'' es) = es"
    using assms(2) by (intro split_on_join [OF False]) (auto simp: list_all_iff element_def)
  moreover have "foldl (clean_step True) [] (split_on (CHR ''/'') root) = rev ?rs" using clean_stack [OF r(2)] r(1) by simp
  ultimately have "foldl (clean_step True) [] (split_on (CHR ''/'') (join ''/'' (root # es))) = rev es @ rev ?rs"
    unfolding j split_on_append using clean_elements [OF assms(2)] by simp
  moreover have "is_abs (join ''/'' (root # es))" unfolding j by (subst r(1)) (simp add: is_abs_def has_prefix_def)
  moreover have "root \<noteq> []" using r(1) by (metis list.distinct(1))
  ultimately show ?thesis by (simp add: join_path_def clean_path_def del: join.simps)
qed

lemma path_of_join:
  assumes "canonical root" "list_all element es"
  shows "canonical (join_path (root # es))" "path_elements (join_path (root # es)) = path_elements root @ es"
proof -
  have good: "list_all element (path_elements root @ es)" using canonical_elements(2) [OF assms(1)] assms(2) by simp
  have p: "join_path (root # es) = CHR ''/'' # join ''/'' (path_elements root @ es)" by (rule join_path_elements [OF assms])
  show c: "canonical (join_path (root # es))" unfolding p by (rule canonical_of_elements [OF good])
  have "join ''/'' (path_elements (join_path (root # es))) = join ''/'' (path_elements root @ es)"
    using canonical_elements(1) [OF c] p by simp
  moreover have s: "fs = (if join ''/'' fs = [] then [] else split_on (CHR ''/'') (join ''/'' fs))" if "list_all element fs" for fs
  proof (cases "fs = []")
    case False
    then have "join ''/'' fs \<noteq> []" using that by (cases fs; cases "tl fs") (auto simp: element_def)
    moreover have "split_on (CHR ''/'') (join ''/'' fs) = fs"
      using that by (intro split_on_join [OF False]) (auto simp: list_all_iff element_def)
    ultimately show ?thesis by simp
  qed simp
  ultimately show "path_elements (join_path (root # es)) = path_elements root @ es"
    using s [OF canonical_elements(2) [OF c]] s [OF good] by metis
qed

lemma last_element:
  assumes "canonical root" "element e"
  shows "base_path (join_path [root, e]) = e" "dir_path (join_path [root, e]) = root"
proof -
  let ?rs = "path_elements root"
  define x where "x = (if ?rs = [] then [] else root)"
  have r: "root = CHR ''/'' # join ''/'' ?rs" "list_all element ?rs" using canonical_elements [OF assms(1)] by blast+
  have "join_path [root, e] = CHR ''/'' # join ''/'' (?rs @ [e])" using join_path_elements [OF assms(1), of "[e]"] assms(2) by simp
  also have "\<dots> = x @ CHR ''/'' # e"
    using r(1) by (cases "?rs = []") (simp_all add: x_def join_append)
  finally have p: "join_path [root, e] = x @ CHR ''/'' # e" .
  have e: "e \<noteq> []" "CHR ''/'' \<notin> set e" using assms(2) by (auto simp: element_def)
  then have h: "dropWhile (\<lambda>c. c = CHR ''/'') (rev (x @ CHR ''/'' # e)) = rev (x @ CHR ''/'' # e)"
    by (cases "rev e") (auto simp: dropWhile_append dest: arg_cong [of _ _ set])
  have t: "takeWhile (\<lambda>c. c \<noteq> CHR ''/'') (rev e @ CHR ''/'' # rev x) = rev e"
    using e(2) by (subst takeWhile_append2) auto
  have d: "dropWhile (\<lambda>c. c \<noteq> CHR ''/'') (rev e @ CHR ''/'' # rev x) = CHR ''/'' # rev x"
    using e(2) by (subst dropWhile_append2) auto
  show "base_path (join_path [root, e]) = e"
    unfolding p base_path_def h using t by (simp add: Let_def)
  have "clean_path (x @ ''/'') = root"
  proof (cases "?rs = []")
    case True
    then show ?thesis using r(1) by (simp add: x_def clean_path_def is_abs_def has_prefix_def)
  next
    case False
    have "foldl (clean_step True) [] (split_on (CHR ''/'') (root @ CHR ''/'' # [])) = rev ?rs"
      unfolding split_on_append using clean_stack [OF r(2)] r(1) by simp
    moreover have "is_abs (root @ ''/'')" by (subst r(1)) (simp add: is_abs_def has_prefix_def)
    ultimately show ?thesis using False r(1) by (simp add: x_def clean_path_def)
  qed
  then show "dir_path (join_path [root, e]) = root"
    unfolding p dir_path_def using d by simp
qed

section \<open>Facts on worlds\<close>

lemma state_root_canonical: "state_root e = Ok root \<Longrightarrow> canonical root"
  by (auto simp: state_root_def canonical_clean canonical_join split: option.splits if_splits)

lemma hex_element: "length h = 32 \<Longrightarrow> set h \<subseteq> set ''0123456789abcdef'' \<Longrightarrow> element h"
  by (auto simp: element_def)

lemma world_hash_element:
  assumes "length (we_sha e identity) = 32"
  shows "element (world_hash e identity)" "\<not> has_prefix (world_hash e identity) temporary_prefix"
proof -
  let ?h = "world_hash e identity"
  have chars: "set ?h \<subseteq> set ''0123456789abcdef''"
    using hex_encode_chars [of "we_sha e identity"] set_take_subset [of 32 "hex_encode (we_sha e identity)"]
    unfolding world_hash_def by blast
  have "length ?h = 32" using assms by (simp add: world_hash_def length_hex_encode)
  from hex_element [OF this chars] show "element ?h" .
  show "\<not> has_prefix ?h temporary_prefix"
  proof
    assume "has_prefix ?h temporary_prefix"
    then have "CHR ''t'' \<in> set ?h" by (auto simp: has_prefix_iff temporary_prefix_def)
    with chars show False by auto
  qed
qed

text \<open>The state directory of a world is one element below \<open>weavers\<close>.\<close>

lemma runtime_world_dirs:
  assumes "runtime_world e dir = Ok w" "state_root e = Ok root"
    "length (we_sha e (marker_neutral_identity (w_config_dir w))) = 32"
  shows "w_state_dir w = join_path [join_path [root, ''weavers''], world_hash e (marker_neutral_identity (w_config_dir w))]"
    "canonical (join_path [root, ''weavers''])"
proof -
  let ?h = "world_hash e (marker_neutral_identity (w_config_dir w))"
  have root: "canonical root" by (rule state_root_canonical [OF assms(2)])
  have weavers: "list_all element [''weavers'']" by (simp add: element_def)
  have h: "list_all element [?h]" "list_all element [''weavers'', ?h]"
    using world_hash_element [OF assms(3)] weavers by simp_all
  have w: "w_state_dir w = join_path [root, ''weavers'', ?h]"
    using assms(1,2) by (auto simp: runtime_world_def world_at_def Let_def split: sum.splits)
  show "canonical (join_path [root, ''weavers''])" using path_of_join(1) [OF root weavers] .
  show "w_state_dir w = join_path [join_path [root, ''weavers''], ?h]"
    unfolding w join_path_elements [OF root h(2)] join_path_elements [OF path_of_join(1) [OF root weavers] h(1)]
      path_of_join(2) [OF root weavers] by simp
qed

text \<open>The two names of the marker directory of one repository stand for one workspace.\<close>

lemma marker_alias:
  assumes "canonical p"
  shows "marker_neutral_identity (join_path [p, workspace_alias]) = join_path [p, default_workspace]"
    "marker_neutral_identity (join_path [p, default_workspace]) = join_path [p, default_workspace]"
  using last_element [OF assms, of workspace_alias] last_element [OF assms, of default_workspace]
  by (simp_all add: marker_neutral_identity_def element_def workspace_alias_def default_workspace_def)

section \<open>Facts on settings\<close>

lemma update_unknown:
  "k \<in> set known \<Longrightarrow> filter (\<lambda>x. x \<notin> set known) (map fst (AList.update k v raw)) = filter (\<lambda>x. x \<notin> set known) (map fst raw)"
  by (induction raw) auto

lemma update_warnings:
  "k \<in> set known \<Longrightarrow> unknown_key_warnings path (AList.update k v raw) known = unknown_key_warnings path raw known"
  by (simp add: unknown_key_warnings_def update_unknown)

lemmas setting_defs = setting_def apply_settings_def parse_config_name_def

lemma settings_pool:
  assumes "apply_settings label raw c = Ok c'" "\<not> blank pool"
  shows "apply_settings label (AList.update ''JVMPool'' (JStr pool) raw) c = Ok (c'\<lparr>cc_pool := Some pool\<rparr>)"
  using assms by (auto simp: setting_defs update_conv' split: option.splits sum.splits)

lemma settings_auto_start:
  assumes "apply_settings label raw c = Ok c'"
  shows "apply_settings label (AList.update ''autoStart'' (JBool b) raw) c = Ok (c'\<lparr>cc_auto_start := b\<rparr>)"
  using assms by (auto simp: setting_defs update_conv' split: option.splits sum.splits)

lemma settings_base:
  assumes "apply_settings label raw c = Ok c'" "x = c\<lparr>cc_auto_start := b\<rparr>"
  shows "apply_settings label raw x
    = Ok (c'\<lparr>cc_auto_start := if map_of raw ''autoStart'' = None then b else cc_auto_start c'\<rparr>)"
  using assms by (auto simp: setting_defs split: option.splits sum.splits)

lemma overlay_pool:
  assumes "apply_local_overlay path found c = Ok c'" "\<not> blank pool" "found = NoFile \<and> raw = [] \<or> found = Holds (Fields raw)"
  shows "apply_local_overlay path (Holds (Fields (AList.update ''JVMPool'' (JStr pool) raw))) c = Ok (c'\<lparr>cc_pool := Some pool\<rparr>)"
proof -
  have k: "''JVMPool'' \<in> set [''name'', ''autoStart'', ''JVMPool'']" by simp
  show ?thesis
  proof (cases "found = NoFile")
    case True
    then show ?thesis using assms by (auto simp: apply_local_overlay_def setting_defs unknown_key_warnings_def)
  next
    case False
    then have "found = Holds (Fields raw)" using assms(3) by blast
    then show ?thesis
      using assms(1) settings_pool [OF _ assms(2)]
      by (auto simp: apply_local_overlay_def update_conv' update_warnings [OF k] split: if_splits)
  qed
qed

definition declares :: "string \<Rightarrow> file_at \<Rightarrow> bool" where
  "declares key found = (case found of Holds (Fields raw) \<Rightarrow> map_of raw key \<noteq> None | _ \<Rightarrow> False)"

lemma overlay_base:
  assumes "apply_local_overlay path found c = Ok c'"
  shows "apply_local_overlay path found (c\<lparr>cc_auto_start := b\<rparr>)
    = Ok (c'\<lparr>cc_auto_start := if declares ''autoStart'' found then cc_auto_start c' else b\<rparr>)"
proof (cases "found = NoFile")
  case True
  then show ?thesis using assms by (auto simp: apply_local_overlay_def declares_def)
next
  case False
  then obtain raw where f: "found = Holds (Fields raw)"
    using assms by (auto simp: apply_local_overlay_def split: file_at.splits content.splits)
  let ?w = "unknown_key_warnings path raw [''name'', ''autoStart'', ''JVMPool'']"
  have h: "apply_settings ''local client config'' raw (c\<lparr>cc_warnings := cc_warnings c @ ?w\<rparr>) = Ok c'" "map_of raw ''configFormat'' = None"
    using assms f by (auto simp: apply_local_overlay_def split: if_splits)
  have "apply_local_overlay path found (c\<lparr>cc_auto_start := b\<rparr>)
      = apply_settings ''local client config'' raw ((c\<lparr>cc_auto_start := b\<rparr>)\<lparr>cc_warnings := cc_warnings c @ ?w\<rparr>)"
    using h(2) by (simp add: apply_local_overlay_def f)
  also have "\<dots> = Ok (c'\<lparr>cc_auto_start := if map_of raw ''autoStart'' = None then b else cc_auto_start c'\<rparr>)"
    by (rule settings_base [OF h(1)]) simp
  finally show ?thesis by (simp add: f declares_def)
qed

lemma base_auto_start:
  assumes "parse_config path raw = Ok c"
  shows "parse_config path (AList.update ''autoStart'' (JBool b) raw) = Ok (c\<lparr>cc_auto_start := b\<rparr>)"
  using assms settings_auto_start [of "''client config''" raw]
  by (auto simp: parse_config_def update_conv' update_warnings split: option.splits if_splits)

lemma config_files_apart: "canonical dir \<Longrightarrow> local_file dir \<noteq> join_path [dir, ''config.json'']"
  using last_element(1) [of dir "''config.json''"] last_element(1) [of dir "''config.local.json''"]
  by (auto simp: local_file_def element_def)

text \<open>What a configuration that loads was read from.\<close>

lemma loaded:
  assumes "load_config e d dir = Ok (c, w)" "canonical_config_identity e dir = Ok dir"
  obtains raw base where "runtime_world e dir = Ok w" "w_config_dir w = dir" "w_config_file w = join_path [dir, ''config.json'']"
    "d (w_config_file w) = Holds (Fields raw)" "parse_config (w_config_file w) raw = Ok base"
    "apply_local_overlay (local_file dir) (d (local_file dir)) base = Ok c"
proof -
  have "dir \<noteq> []" using assms(2) by (auto simp: canonical_config_identity_def)
  then have w: "runtime_world e dir = Ok w"
    using assms(1) by (auto simp: load_config_def selected_world_def split: sum.splits file_at.splits)
  then have c: "w_config_dir w = dir" "w_config_file w = join_path [dir, ''config.json'']"
    using assms(2) by (auto simp: runtime_world_def world_at_def Let_def split: sum.splits)
  have "\<exists>raw base. d (w_config_file w) = Holds (Fields raw) \<and> parse_config (w_config_file w) raw = Ok base
      \<and> apply_local_overlay (local_file dir) (d (local_file dir)) base = Ok c"
    using assms(1) w c(1) \<open>dir \<noteq> []\<close>
    by (auto simp: load_config_def selected_world_def config_fields_def parse_config_def split: sum.splits file_at.splits content.splits)
  with that w c show ?thesis by blast
qed

lemma load_again:
  assumes "runtime_world e dir = Ok w" "w_config_dir w = dir" "dir \<noteq> []"
    "d (w_config_file w) = Holds (Fields raw)" "parse_config (w_config_file w) raw = Ok base"
    "apply_local_overlay (local_file dir) (d (local_file dir)) base = Ok c"
  shows "load_config e d dir = Ok (c, w)"
  using assms by (simp add: load_config_def selected_world_def config_fields_def)

section \<open>Facts on new workspaces\<close>

lemma write_missing_kept: "write_missing b path x d = (r, d') \<Longrightarrow> d p \<noteq> NoFile \<Longrightarrow> d' p = d p"
  by (auto simp: write_missing_def split: option.splits if_splits)

lemma write_all_kept: "write_all_missing b fs d = (r, d') \<Longrightarrow> d p \<noteq> NoFile \<Longrightarrow> d' p = d p"
proof (induction b fs d rule: write_all_missing.induct)
  case (2 b path x fs d)
  obtain r1 d1 where w: "write_missing b path x d = (r1, d1)" by fastforce
  from write_missing_kept [OF w 2(3)] 2 show ?case by (cases r1) (auto simp: w)
qed simp

lemma write_all_done:
  "write_all_missing b fs d = (None, d') \<Longrightarrow> write_all_missing b fs d' = (None, d')"
proof (induction b fs d rule: write_all_missing.induct)
  case (2 b path x fs d)
  obtain r1 d1 where w: "write_missing b path x d = (r1, d1)" by fastforce
  have r1: "r1 = None" using 2(2) by (cases r1) (auto simp: w)
  have "bo_stat b path = None" "d1 path \<noteq> NoFile"
    using w r1 by (auto simp: write_missing_def split: option.splits if_splits)
  moreover have all: "write_all_missing b fs d1 = (None, d')" using 2(2) by (simp add: w r1)
  moreover have "d' path = d1 path" using write_all_kept [OF all] \<open>d1 path \<noteq> NoFile\<close> by blast
  moreover have "write_all_missing b fs d' = (None, d')" by (rule 2(1) [OF w [symmetric] r1 all])
  ultimately show ?case by (simp add: write_missing_def)
qed simp

section \<open>Properties\<close>

text \<open>
  The runtime directory of a persistent Weaver is never one that the teardown of a temporary Weaver removes: it never
  passes the check that guards the removal.
\<close>

theorem persistent_worlds_kept:
  assumes "runtime_world e dir = Ok w" "state_root e = Ok root"
    "length (we_sha e (marker_neutral_identity (w_config_dir w))) = 32"
  shows "\<not> is_temporary_runtime_dir (Some root) (w_state_dir w)"
proof -
  note hash = world_hash_element [OF assms(3)]
  have "base_path (w_state_dir w) = world_hash e (marker_neutral_identity (w_config_dir w))"
    unfolding runtime_world_dirs(1) [OF assms]
    by (rule last_element(1) [OF runtime_world_dirs(2) [OF assms] hash(1)])
  with hash(2) show ?thesis by (simp add: is_temporary_runtime_dir_def)
qed

definition demo_env :: world_env where
  "demo_env =
     \<lparr>we_cwd = None, we_home = None, we_state_home = ''/s'', we_real = (\<lambda>_. None),
      we_sha = (\<lambda>_. [7, 7, 7, 7, 7, 7, 7, 7, 7, 7, 7, 7, 7, 7, 7, 7, 7, 7, 7, 7, 7, 7, 7, 7, 7, 7, 7, 7, 7, 7, 7, 7]),
      we_common_dir = (\<lambda>_. Err []), we_toplevel = (\<lambda>_. Err []), we_lstat = (\<lambda>_. Absent), we_stat = (\<lambda>_. Absent)\<rparr>"

definition demo_runtime :: world where
  "demo_runtime = world_at ''/w'' ''/s/millstrand/weavers/07070707070707070707070707070707'' ''/s/millstrand/weavers/07070707070707070707070707070707/data''"

lemma demo_root: "state_root demo_env = Ok ''/s/millstrand''"
  by (simp add: state_root_def demo_env_def go_defs has_prefix_def)

lemma demo_identity: "canonical_config_identity demo_env ''/w'' = Ok ''/w''" "canonical ''/w''" "marker_neutral_identity ''/w'' = ''/w''"
  by (simp_all add: canonical_config_identity_def abs_path_def real_path_def demo_env_def go_defs has_prefix_def
      marker_neutral_identity_def workspace_alias_def default_workspace_def)

lemma demo_hash: "world_hash demo_env p = ''07070707070707070707070707070707''"
  by (simp add: world_hash_def demo_env_def hex_encode_def hex_digit_def)

lemma demo_runtime: "runtime_world demo_env ''/w'' = Ok demo_runtime" "w_config_dir demo_runtime = ''/w''"
  "w_config_file demo_runtime = ''/w/config.json''"
  by (simp_all add: runtime_world_def demo_identity demo_root demo_hash demo_runtime_def world_at_def Let_def go_defs has_prefix_def)

theorem persistent_worlds_kept_witness: "\<not> is_temporary_runtime_dir (Some ''/s/millstrand'') (w_state_dir demo_runtime)"
  by (rule persistent_worlds_kept [OF demo_runtime(1) demo_root]) (simp add: demo_env_def)

text \<open>
  Two workspaces share a runtime directory exactly when they have the same identity up to the name of the marker
  directory, as far as the hash of their identities does not collide.
\<close>

theorem worlds_by_identity:
  assumes "runtime_world e a = Ok v" "runtime_world e b = Ok w"
    "length (we_sha e (marker_neutral_identity (w_config_dir v))) = 32" "length (we_sha e (marker_neutral_identity (w_config_dir w))) = 32"
    "inj_on (world_hash e) {marker_neutral_identity (w_config_dir v), marker_neutral_identity (w_config_dir w)}"
  shows "w_state_dir v = w_state_dir w \<longleftrightarrow> marker_neutral_identity (w_config_dir v) = marker_neutral_identity (w_config_dir w)"
proof -
  obtain root where root: "state_root e = Ok root"
    using assms(1) by (auto simp: runtime_world_def split: sum.splits)
  note v = runtime_world_dirs [OF assms(1) root assms(3)] and w = runtime_world_dirs [OF assms(2) root assms(4)]
  have "base_path (w_state_dir v) = world_hash e (marker_neutral_identity (w_config_dir v))"
    "base_path (w_state_dir w) = world_hash e (marker_neutral_identity (w_config_dir w))"
    unfolding v(1) w(1) using last_element(1) [OF v(2)] world_hash_element(1) assms(3,4) by blast+
  with v(1) w(1) assms(5) show ?thesis by (metis (no_types, lifting) inj_on_def insertI1 insertI2)
qed

text \<open>
  The local setting of a pool is what the configuration then has: after it is written the configuration loads as
  before, with the warnings it had, and with that pool, whatever the shared file says.
\<close>

theorem local_pool_written:
  assumes "set_local_jvm_pool fault dir pool d = (None, d')" "utf8_valid pool"
    "canonical_config_identity e dir = Ok dir" "canonical dir" "load_config e d dir = Ok (c, w)"
  shows "load_config e d' dir = Ok (c\<lparr>cc_pool := Some pool\<rparr>, w)"
proof -
  from loaded [OF assms(5,3)] obtain raw base where l: "runtime_world e dir = Ok w" "w_config_dir w = dir"
    "w_config_file w = join_path [dir, ''config.json'']" "d (w_config_file w) = Holds (Fields raw)"
    "parse_config (w_config_file w) raw = Ok base" "apply_local_overlay (local_file dir) (d (local_file dir)) base = Ok c" .
  have nb: "\<not> blank pool" using assms(1) by (auto simp: set_local_jvm_pool_def)
  obtain old where o: "d (local_file dir) = NoFile \<and> old = [] \<or> d (local_file dir) = Holds (Fields old)"
    "d' = d(local_file dir := Holds (Fields (AList.update ''JVMPool'' (JStr pool) old)))"
    using assms(1) utf8_coerce_valid [OF assms(2)] nb
    by (auto simp: set_local_jvm_pool_def replace_fields_def Let_def split: file_at.splits content.splits option.splits)
  have "d' (w_config_file w) = Holds (Fields raw)"
    using l(3,4) o(2) config_files_apart [OF assms(4)] by auto
  from load_again [where d = d', OF l(1,2) _ this l(5)] overlay_pool [OF l(6) nb o(1)] o(2) assms(4) show ?thesis
    by (auto simp: canonical_def)
qed

text \<open>
  The setting of automatic startup is written to the shared configuration: it loads as before with that setting,
  unless the local overlay declares one, which then stays in force.
\<close>

theorem auto_start_written:
  assumes "set_auto_start fault dir b d = (None, d')"
    "canonical_config_identity e dir = Ok dir" "canonical dir" "load_config e d dir = Ok (c, w)"
  shows "load_config e d' dir
    = Ok (c\<lparr>cc_auto_start := if declares ''autoStart'' (d (local_file dir)) then cc_auto_start c else b\<rparr>, w)"
proof -
  from loaded [OF assms(4,2)] obtain raw base where l: "runtime_world e dir = Ok w" "w_config_dir w = dir"
    "w_config_file w = join_path [dir, ''config.json'']" "d (w_config_file w) = Holds (Fields raw)"
    "parse_config (w_config_file w) raw = Ok base" "apply_local_overlay (local_file dir) (d (local_file dir)) base = Ok c" .
  have d': "d' = d(w_config_file w := Holds (Fields (AList.update ''autoStart'' (JBool b) raw)))"
    using assms(1) l(3,4) by (auto simp: set_auto_start_def replace_fields_def Let_def split: option.splits)
  then have "d' (local_file dir) = d (local_file dir)" using config_files_apart [OF assms(3)] l(3) by simp
  with load_again [OF l(1,2) _ _ base_auto_start [OF l(5)], of d'] overlay_base [OF l(6)] d' assms(3) show ?thesis
    by (auto simp: canonical_def)
qed

definition demo_files :: disk where
  "demo_files = (\<lambda>_. NoFile)(''/w/config.json'' := Holds (Fields [(''configFormat'', JStr ''alpha''), (''name'', JStr ''x'')]))"

lemma demo_local: "local_file ''/w'' = ''/w/config.local.json''"
  by (simp add: local_file_def go_defs has_prefix_def)

lemma demo_loaded:
  "load_config demo_env demo_files ''/w''
   = Ok (\<lparr>cc_format = ''alpha'', cc_name = ''x'', cc_auto_start = False, cc_pool = None, cc_warnings = []\<rparr>, demo_runtime)"
proof -
  have "\<not> blank ''x''" by (simp add: is_space_def)
  with demo_local show ?thesis
    by (simp add: load_config_def selected_world_def demo_runtime config_fields_def demo_files_def parse_config_def
        apply_local_overlay_def setting_defs unknown_key_warnings_def)
qed

theorem local_pool_written_witness:
  "load_config demo_env (snd (set_local_jvm_pool None ''/w'' ''p'' demo_files)) ''/w''
   = Ok (\<lparr>cc_format = ''alpha'', cc_name = ''x'', cc_auto_start = False, cc_pool = Some ''p'', cc_warnings = []\<rparr>, demo_runtime)"
proof -
  have pool: "\<not> blank ''p''" by (simp add: is_space_def)
  have "set_local_jvm_pool None ''/w'' ''p'' demo_files = (None, snd (set_local_jvm_pool None ''/w'' ''p'' demo_files))"
    using demo_local pool by (simp add: set_local_jvm_pool_def replace_fields_def Let_def demo_files_def)
  moreover have "utf8_valid ''p''" by (rule utf8_valid_ascii) simp
  ultimately show ?thesis using local_pool_written [OF _ _ demo_identity(1,2) demo_loaded] by simp
qed

text \<open>
  Bootstrapping a workspace changes no file that exists, and doing it again changes nothing and selects the same
  workspace.
\<close>

theorem bootstrap_idempotent:
  assumes "bootstrap_world e b cwd dir d = (Ok w, d')"
  shows "bootstrap_world e b cwd dir d' = (Ok w, d') \<and> \<not> (\<exists>p. d p \<noteq> NoFile \<and> d' p \<noteq> d p)"
proof -
  have all: "write_all_missing b (workspace_files b w) d = (None, d')" and w: "bootstrap_target_world e cwd dir = Ok w"
    "bo_mkdir b = None" "is_ok (load_config e d' (w_config_dir w))"
    using assms by (auto simp: bootstrap_world_def is_ok_def split: sum.splits option.splits prod.splits)
  show ?thesis
    using write_all_done [OF all] write_all_kept [OF all] w
    by (auto simp: bootstrap_world_def is_ok_def split: sum.splits)
qed

end
