(* ===== verification/Stealth.thy ===== *)
theory Stealth
  imports Workspace
begin

text \<open>
  A workspace hidden from Git (\<open>cli/internal/config/stealth.go\<close>): the checks before anything is written, the marked
  block in the private exclude file, and the bootstrapping of such a workspace.
\<close>

section \<open>Substrings\<close>

text \<open>\<open>strings.Count\<close> of a string that is not empty, which counts without overlaps, and \<open>strings.Index\<close>.\<close>

function count_str :: "string \<Rightarrow> string \<Rightarrow> nat" where
  "count_str sub s =
     (if s = [] \<or> sub = [] then 0
      else if has_prefix s sub then Suc (count_str sub (drop (length sub) s))
      else count_str sub (tl s))"
  by pat_completeness auto

termination
  by (relation "measure (\<lambda>(sub, s). length s)") (auto simp: length_greater_0_conv [symmetric] simp del: length_greater_0_conv)

declare count_str.simps [simp del]

fun index_of :: "string \<Rightarrow> string \<Rightarrow> nat option" where
  "index_of sub [] = (if sub = [] then Some 0 else None)"
| "index_of sub (c # s) = (if has_prefix (c # s) sub then Some 0 else map_option Suc (index_of sub s))"

section \<open>The marked block\<close>

record marker_spec =
  ms_target :: string
  ms_start :: string
  ms_end :: string
  ms_block :: string

definition newline :: string where "newline = [CHR 0x0A]"

definition stealth_spec :: marker_spec where
  "stealth_spec =
     \<lparr>ms_target = ''git-exclude'', ms_start = ''# mill:millstrand-stealth'', ms_end = ''# /mill:millstrand-stealth'',
      ms_block = ''# mill:millstrand-stealth'' @ newline @ ''/.millstrand'' @ newline @ ''/.ms'' @ newline
                 @ ''# /mill:millstrand-stealth'' @ newline\<rparr>"

record refusal =
  rf_path :: string
  rf_target :: string
  rf_state :: string
  rf_remediation :: string

datatype stealth_error =
    StealthWorld world_error
  | GitInspection string string \<comment> \<open>the operation and what Git or the system says\<close>
  | ExcludeRelative string
  | ExcludeUnread string
  | Refused refusal
  | StealthConfig config_error
  | ExcludeUnwritten string
  | ReportInvalid string string

record marked_plan =
  mp_path :: string
  mp_status :: string
  mp_content :: string

definition marker_state :: "string \<Rightarrow> marker_spec \<Rightarrow> nat \<Rightarrow> nat \<Rightarrow> string" where
  "marker_state s spec starts ends =
     (if starts > 1 then ''duplicate-start''
      else if ends > 1 then ''duplicate-end''
      else if starts = 1 \<and> ends = 0 then ''start-only''
      else if starts = 0 \<and> ends = 1 then ''end-only''
      else case (index_of (ms_start spec) s, index_of (ms_end spec) s) of
        (Some a, Some b) \<Rightarrow>
          if b < a then ''reversed''
          else
            let stop = b + length (ms_end spec) in
            if stop \<ge> length s \<or> s ! stop \<noteq> CHR 0x0A then ''edited''
            else if take (Suc stop - a) (drop a s) \<noteq> ms_block spec then ''edited''
            else ''exact''
      | _ \<Rightarrow> ''edited'')"

text \<open>\<open>preflightMarkedFile\<close>: what the file holds, if there is one.\<close>

definition preflight_marked_file ::
    "string \<Rightarrow> marker_spec \<Rightarrow> (string, string option) result \<Rightarrow> (stealth_error, marked_plan) result" where
  "preflight_marked_file path spec found =
     (case found of
        Inl x \<Rightarrow> Err (ExcludeUnread x)
      | Inr None \<Rightarrow> Ok \<lparr>mp_path = path, mp_status = ''created'', mp_content = ms_block spec\<rparr>
      | Inr (Some s) \<Rightarrow>
          (let starts = count_str (ms_start spec) s; ends = count_str (ms_end spec) s in
           if starts = 0 \<and> ends = 0 then
             (let c = (if s \<noteq> [] \<and> last s \<noteq> CHR 0x0A then s @ newline else s);
                  c = (if c \<noteq> [] then c @ newline else c)
              in Ok \<lparr>mp_path = path, mp_status = ''updated'', mp_content = c @ ms_block spec\<rparr>)
           else if marker_state s spec starts ends \<noteq> ''exact'' then
             Err (Refused \<lparr>rf_path = path, rf_target = ms_target spec, rf_state = marker_state s spec starts ends,
               rf_remediation = ''restore the exact mill-owned block or remove both mill markers, then rerun mill init --stealth''\<rparr>)
           else Ok \<lparr>mp_path = path, mp_status = ''unchanged'', mp_content = []\<rparr>))"

text \<open>\<open>applyMarkedFilePlan\<close>: what the file holds then.\<close>

definition apply_marked_plan :: "marked_plan \<Rightarrow> string option \<Rightarrow> string option" where
  "apply_marked_plan plan found = (if mp_status plan = ''unchanged'' then found else Some (mp_content plan))"

section \<open>The workspace\<close>

text \<open>
  What Git says of tracked files and of the path of the exclude file, what that file holds, and the fault of writing it.
\<close>

record stealth_input =
  st_tracked :: "string \<Rightarrow> (string, bool) result"
  st_exclude_path :: "(string, string) result"
  st_exclude :: "(string, string option) result"
  st_write :: "string option"

fun tracked_workspace :: "stealth_input \<Rightarrow> string \<Rightarrow> string list \<Rightarrow> (stealth_error, string option) result" where
  "tracked_workspace i root [] = Ok None"
| "tracked_workspace i root (name # names) =
     (case st_tracked i name of
        Inl x \<Rightarrow> Err (GitInspection (''inspect index for '' @ name) x)
      | Inr True \<Rightarrow> Ok (Some (join_path [root, name]))
      | Inr False \<Rightarrow> tracked_workspace i root names)"

definition git_exclude_path :: "stealth_input \<Rightarrow> (stealth_error, string) result" where
  "git_exclude_path i =
     (case st_exclude_path i of
        Inl x \<Rightarrow> Err (GitInspection ''resolve private exclude path'' x)
      | Inr out \<Rightarrow>
          (let path = clean_path (trim_space out) in if is_abs path then Ok path else Err (ExcludeRelative path)))"

definition preflight_stealth :: "stealth_input \<Rightarrow> string \<Rightarrow> (stealth_error, marked_plan) result" where
  "preflight_stealth i root =
     (case tracked_workspace i root [default_workspace, workspace_alias] of
        Inl x \<Rightarrow> Err x
      | Inr (Some p) \<Rightarrow>
          Err (Refused \<lparr>rf_path = p, rf_target = ''tracked-millstrand'', rf_state = ''tracked'',
            rf_remediation = ''remove .millstrand or .ms from the Git index or run mill init without --stealth''\<rparr>)
      | Inr None \<Rightarrow>
          (case git_exclude_path i of
             Inl x \<Rightarrow> Err x
           | Inr path \<Rightarrow> preflight_marked_file path stealth_spec (st_exclude i)))"

definition valid_report :: "string \<Rightarrow> string \<Rightarrow> bool" where
  "valid_report path status \<longleftrightarrow> \<not> blank path \<and> (status = ''created'' \<or> status = ''updated'' \<or> status = ''unchanged'')"

definition valid_refusal :: "refusal \<Rightarrow> bool" where
  "valid_refusal r \<longleftrightarrow>
     \<not> blank (rf_path r) \<and> \<not> blank (rf_remediation r)
     \<and> (rf_target r = ''tracked-millstrand'' \<or> rf_target r = ''git-exclude'')
     \<and> rf_state r \<in> {''tracked'', ''start-only'', ''end-only'', ''duplicate-start'', ''duplicate-end'', ''reversed'', ''edited''}"

text \<open>\<open>BootstrapStealthWorld\<close>: the world with the report, the files of the workspace, and the exclude file.\<close>

definition bootstrap_stealth ::
    "world_env \<Rightarrow> bootstrap_input \<Rightarrow> stealth_input \<Rightarrow> string \<Rightarrow> disk \<Rightarrow> (stealth_error, world \<times> string \<times> string) result \<times> disk \<times> string option" where
  "bootstrap_stealth e b i cwd d =
     (let old = (case st_exclude i of Inl _ \<Rightarrow> None | Inr x \<Rightarrow> x) in
      case git_root e cwd of
        Inl x \<Rightarrow> (Err (StealthWorld x), d, old)
      | Inr root \<Rightarrow>
          (case preflight_stealth i root of
             Inl x \<Rightarrow> (Err x, d, old)
           | Inr plan \<Rightarrow>
               (case bootstrap_world e b cwd [] d of
                  (Inl x, d') \<Rightarrow> (Err (StealthConfig x), d', old)
                | (Inr w, d') \<Rightarrow>
                    (case (if mp_status plan = ''unchanged'' then None else st_write i) of
                       Some x \<Rightarrow> (Err (ExcludeUnwritten x), d', old)
                     | None \<Rightarrow>
                         ((if valid_report (mp_path plan) (mp_status plan) then Ok (w, mp_path plan, mp_status plan)
                           else Err (ReportInvalid (mp_path plan) (mp_status plan))),
                          d', apply_marked_plan plan old)))))"

section \<open>Facts on substrings\<close>

lemma count_Cons: "sub \<noteq> [] \<Longrightarrow> count_str sub (c # s)
    = (if has_prefix (c # s) sub then Suc (count_str sub (drop (length sub) (c # s))) else count_str sub s)"
  by (subst count_str.simps) simp

lemma count_Nil [simp]: "count_str sub [] = 0"
  by (simp add: count_str.simps)

lemma count_0_prefix: "count_str sub s = 0 \<Longrightarrow> sub \<noteq> [] \<Longrightarrow> \<not> has_prefix s sub"
  by (cases s) (auto simp: count_Cons has_prefix_iff split: if_splits)

text \<open>A string without line ends is not found across a line end.\<close>

lemma prefix_across:
  assumes "has_prefix (s @ CHR 0x0A # r) sub" "CHR 0x0A \<notin> set sub"
  shows "has_prefix s sub"
proof -
  obtain z where z: "s @ CHR 0x0A # r = sub @ z" using assms(1) by (auto simp: has_prefix_iff)
  then have "\<exists>u. s = sub @ u \<or> (s @ u = sub \<and> u @ z = CHR 0x0A # r)" by (auto simp: append_eq_append_conv2)
  then obtain u where "s = sub @ u \<or> (s @ u = sub \<and> u @ z = CHR 0x0A # r)" ..
  moreover have "u = []" if "s @ u = sub" "u @ z = CHR 0x0A # r" using that assms(2) by (cases u) auto
  ultimately show ?thesis by (auto simp: has_prefix_iff)
qed

lemma found_after_line:
  assumes "count_str sub s = 0" "CHR 0x0A \<notin> set sub" "sub \<noteq> []"
  shows "count_str sub (s @ CHR 0x0A # r) = count_str sub r"
    "index_of sub (s @ CHR 0x0A # r) = map_option (\<lambda>n. Suc (length s) + n) (index_of sub r)"
proof -
  have "count_str sub (s @ CHR 0x0A # r) = count_str sub r
      \<and> index_of sub (s @ CHR 0x0A # r) = map_option (\<lambda>n. Suc (length s) + n) (index_of sub r)"
    using assms(1)
  proof (induction s)
    case Nil
    have "\<not> has_prefix (CHR 0x0A # r) sub" using assms(2,3) by (cases sub) (auto simp: has_prefix_iff)
    then show ?case using assms(3) by (simp add: count_Cons)
  next
    case (Cons c s)
    have n: "\<not> has_prefix (c # s) sub" using count_0_prefix [OF Cons.prems assms(3)] .
    then have "\<not> has_prefix ((c # s) @ CHR 0x0A # r) sub" using prefix_across assms(2) by blast
    moreover have "count_str sub s = 0" using Cons.prems n assms(3) by (simp add: count_Cons)
    ultimately show ?case using Cons.IH assms(3) by (cases "index_of sub r") (simp_all add: count_Cons)
  qed
  then show "count_str sub (s @ CHR 0x0A # r) = count_str sub r"
    "index_of sub (s @ CHR 0x0A # r) = map_option (\<lambda>n. Suc (length s) + n) (index_of sub r)" by auto
qed

lemmas block_defs = stealth_spec_def newline_def

lemma block_markers:
  "count_str (ms_start stealth_spec) (ms_block stealth_spec) = 1" "count_str (ms_end stealth_spec) (ms_block stealth_spec) = 1"
  "index_of (ms_start stealth_spec) (ms_block stealth_spec) = Some 0"
  "index_of (ms_end stealth_spec) (ms_block stealth_spec) = Some 44"
  by (simp_all add: block_defs count_Cons has_prefix_def)

lemma block_exact:
  assumes "s = ms_block stealth_spec \<or> (\<exists>u. count_str (ms_start stealth_spec) u = 0 \<and> count_str (ms_end stealth_spec) u = 0
      \<and> s = u @ CHR 0x0A # ms_block stealth_spec)"
  shows "preflight_marked_file path stealth_spec (Ok (Some s)) = Ok \<lparr>mp_path = path, mp_status = ''unchanged'', mp_content = []\<rparr>"
proof -
  have ne: "CHR 0x0A \<notin> set (ms_start stealth_spec)" "ms_start stealth_spec \<noteq> []"
    "CHR 0x0A \<notin> set (ms_end stealth_spec)" "ms_end stealth_spec \<noteq> []" by (simp_all add: block_defs)
  obtain v where v: "s = v @ ms_block stealth_spec" "count_str (ms_start stealth_spec) s = 1" "count_str (ms_end stealth_spec) s = 1"
    "index_of (ms_start stealth_spec) s = Some (length v)" "index_of (ms_end stealth_spec) s = Some (length v + 44)"
  proof (cases "s = ms_block stealth_spec")
    case True
    then show ?thesis using that [of "[]"] block_markers by simp
  next
    case False
    then obtain u where u: "count_str (ms_start stealth_spec) u = 0" "count_str (ms_end stealth_spec) u = 0"
      "s = u @ CHR 0x0A # ms_block stealth_spec" using assms by blast
    show ?thesis
      by (rule that [of "u @ newline"])
         (simp_all add: u(3) newline_def found_after_line [OF u(1) ne(1,2)] found_after_line [OF u(2) ne(3,4)] block_markers)
  qed
  have "length (ms_end stealth_spec) = 26" "length (ms_block stealth_spec) = 71" "ms_block stealth_spec ! 70 = CHR 0x0A"
    by (simp_all add: block_defs)
  then have "marker_state s stealth_spec 1 1 = ''exact''"
    using v by (simp add: marker_state_def Let_def nth_append)
  then show ?thesis using v by (simp add: preflight_marked_file_def Let_def)
qed

section \<open>Properties\<close>

text \<open>
  Hiding a workspace is idempotent and loses nothing: the exclude file it leaves holds the block, begins with what it
  held before, and is left unchanged by the next time.
\<close>

theorem stealth_idempotent:
  assumes "preflight_marked_file path stealth_spec (Ok found) = Ok plan"
  shows "\<exists>s. apply_marked_plan plan found = Some s
     \<and> preflight_marked_file path stealth_spec (Ok (Some s)) = Ok \<lparr>mp_path = path, mp_status = ''unchanged'', mp_content = []\<rparr>
     \<and> has_prefix s (case found of None \<Rightarrow> [] | Some old \<Rightarrow> old)"
proof (cases found)
  case None
  then have "apply_marked_plan plan found = Some (ms_block stealth_spec)"
    using assms by (auto simp: preflight_marked_file_def apply_marked_plan_def)
  with block_exact [of "ms_block stealth_spec" path] None show ?thesis by (auto simp: has_prefix_iff)
next
  case (Some old)
  show ?thesis
  proof (cases "count_str (ms_start stealth_spec) old = 0 \<and> count_str (ms_end stealth_spec) old = 0")
    case False
    then have "plan = \<lparr>mp_path = path, mp_status = ''unchanged'', mp_content = []\<rparr>"
      using assms Some by (auto simp: preflight_marked_file_def Let_def split: if_splits)
    then show ?thesis using assms Some by (auto simp: apply_marked_plan_def has_prefix_iff)
  next
    case True
    let ?u = "if last old \<noteq> CHR 0x0A then old @ newline else old"
    let ?s = "(if old = [] then [] else ?u @ newline) @ ms_block stealth_spec"
    have "apply_marked_plan plan found = Some ?s"
      using assms Some True by (auto simp: preflight_marked_file_def Let_def apply_marked_plan_def)
    moreover have "?s = ms_block stealth_spec \<or> (\<exists>u. count_str (ms_start stealth_spec) u = 0 \<and> count_str (ms_end stealth_spec) u = 0
        \<and> ?s = u @ CHR 0x0A # ms_block stealth_spec)"
    proof (cases "old = []")
      case False
      have "count_str (ms_start stealth_spec) ?u = 0 \<and> count_str (ms_end stealth_spec) ?u = 0"
        using True found_after_line(1) [of "ms_start stealth_spec" old "[]"] found_after_line(1) [of "ms_end stealth_spec" old "[]"]
        by (auto simp: block_defs)
      then show ?thesis using False by (intro disjI2 exI [of _ ?u]) (simp add: newline_def)
    qed simp
    ultimately show ?thesis using block_exact [of ?s path] Some by (auto simp: has_prefix_iff)
  qed
qed

theorem stealth_idempotent_witness:
  "\<exists>s. apply_marked_plan \<lparr>mp_path = ''/x'', mp_status = ''updated'', mp_content = ''a'' @ newline @ newline @ ms_block stealth_spec\<rparr> (Some ''a'') = Some s
     \<and> preflight_marked_file ''/x'' stealth_spec (Ok (Some s)) = Ok \<lparr>mp_path = ''/x'', mp_status = ''unchanged'', mp_content = []\<rparr>
     \<and> has_prefix s ''a''"
proof -
  have "preflight_marked_file ''/x'' stealth_spec (Ok (Some ''a''))
      = Ok \<lparr>mp_path = ''/x'', mp_status = ''updated'', mp_content = ''a'' @ newline @ newline @ ms_block stealth_spec\<rparr>"
    by (simp add: preflight_marked_file_def Let_def count_Cons has_prefix_def block_defs)
  from stealth_idempotent [OF this] show ?thesis by simp
qed

text \<open>Every refusal has details that pass their validation.\<close>

lemma marker_states:
  "marker_state s spec starts ends
     \<in> {''exact'', ''start-only'', ''end-only'', ''duplicate-start'', ''duplicate-end'', ''reversed'', ''edited''}"
  by (auto simp: marker_state_def Let_def split: option.splits)

lemma tracked_at: "tracked_workspace i root names = Ok (Some p) \<Longrightarrow> \<exists>name \<in> set names. p = join_path [root, name]"
  by (induction names) (auto split: sum.splits bool.splits)

lemma tracked_no_refusal: "tracked_workspace i root names \<noteq> Err (Refused r)"
  by (induction names) (auto split: sum.splits bool.splits)

lemma marked_refusal:
  assumes "preflight_marked_file path stealth_spec found = Err (Refused r)" "is_abs path"
  shows "valid_refusal r"
proof -
  obtain s starts ends where r: "rf_path r = path" "rf_target r = ''git-exclude''" "rf_state r = marker_state s stealth_spec starts ends"
    "rf_state r \<noteq> ''exact''" "hd (rf_remediation r) = CHR ''r''" "rf_remediation r \<noteq> []"
    using assms(1) by (auto simp: preflight_marked_file_def Let_def stealth_spec_def split: sum.splits option.splits if_splits)
  have "\<not> blank (rf_remediation r)" using r(5,6) by (cases "rf_remediation r") (auto simp: is_space_def)
  moreover have "\<not> blank path" by (rule abs_not_blank [OF assms(2)])
  ultimately show ?thesis using r(1-4) marker_states [of s stealth_spec starts ends] by (auto simp: valid_refusal_def)
qed

lemma refusals_valid:
  assumes "preflight_stealth i root = Err (Refused r)" "canonical root"
  shows "valid_refusal r"
proof (cases "\<exists>path. preflight_marked_file path stealth_spec (st_exclude i) = Err (Refused r) \<and> is_abs path")
  case True
  then show ?thesis using marked_refusal by blast
next
  case False
  then obtain p where p: "tracked_workspace i root [default_workspace, workspace_alias] = Ok (Some p)"
    "rf_path r = p" "rf_target r = ''tracked-millstrand''" "rf_state r = ''tracked''"
    "hd (rf_remediation r) = CHR ''r''" "rf_remediation r \<noteq> []"
    using assms(1) tracked_no_refusal
    by (auto simp: preflight_stealth_def git_exclude_path_def Let_def simp del: tracked_workspace.simps
        split: sum.splits option.splits if_splits)
  have "\<not> blank p" using tracked_at [OF p(1)] canonical_join [OF assms(2)] canonical_not_blank by blast
  moreover have "\<not> blank (rf_remediation r)" using p(5,6) by (cases "rf_remediation r") (auto simp: is_space_def)
  ultimately show ?thesis using p by (simp add: valid_refusal_def)
qed

end
