(* ===== verification/Autostart.thy ===== *)
theory Autostart
  imports Workspace
begin

text \<open>
  The start of registered Weavers when the Mill starts (\<open>cli/cmd/mill/autostart.go\<close>): the registrations, the choice of
  one job for each host process, the workers that run the jobs, and the record of the failures.
\<close>

section \<open>Registrations\<close>

record registration =
  rg_config_dir :: string
  rg_cwd :: string
  rg_name :: string
  rg_enabled :: bool

datatype auto_fault =
    AutoWorld world_error
  | CwdRequired
  | RegistrationUnread string string
  | RegistrationMalformed string string
  | RegistrationInvalid string
  | AutoWrite string
  | ConfigUnloaded string config_error
  | NotRemoved string string
  | StartFailed string string
  | StartRetainedFailed string

text \<open>A registration file as it is found.\<close>

datatype registration_file = RegUnreadable string | RegMalformed string | Registered registration

definition autostart_path :: "world_env \<Rightarrow> string \<Rightarrow> (world_error, string) result" where
  "autostart_path e dir =
     (case canonical_world_identity e dir of
        Inl x \<Rightarrow> Err x
      | Inr identity \<Rightarrow>
          (case state_root e of
             Inl x \<Rightarrow> Err x
           | Inr root \<Rightarrow> Ok (join_path [root, ''autostart'', world_hash e identity @ ''.json''])))"

definition failure_file :: string where "failure_file = ''startup-failure.json''"

type_synonym registry = "string \<Rightarrow> registration_file option"

text \<open>\<open>registerAutoStart\<close> and \<open>removeAutoStart\<close>; \<open>fault\<close> is the error of the replacement or the removal of the file.\<close>

definition register_auto_start ::
    "world_env \<Rightarrow> string option \<Rightarrow> string \<Rightarrow> string \<Rightarrow> string \<Rightarrow> registry \<Rightarrow> auto_fault option \<times> registry" where
  "register_auto_start e fault dir cwd name reg =
     (if blank cwd then (Some CwdRequired, reg)
      else case abs_path e cwd of
        None \<Rightarrow> (Some (AutoWorld NoCwd), reg)
      | Some from_dir \<Rightarrow>
          (case autostart_path e dir of
             Inl x \<Rightarrow> (Some (AutoWorld x), reg)
           | Inr path \<Rightarrow>
               (case fault of
                  Some x \<Rightarrow> (Some (AutoWrite x), reg)
                | None \<Rightarrow>
                    (None, reg(path \<mapsto> Registered \<lparr>rg_config_dir = utf8_coerce dir, rg_cwd = utf8_coerce from_dir,
                                                    rg_name = utf8_coerce name, rg_enabled = True\<rparr>)))))"

definition remove_auto_start :: "world_env \<Rightarrow> string option \<Rightarrow> string \<Rightarrow> registry \<Rightarrow> auto_fault option \<times> registry" where
  "remove_auto_start e fault dir reg =
     (case autostart_path e dir of
        Inl x \<Rightarrow> (Some (AutoWorld x), reg)
      | Inr path \<Rightarrow> (case fault of Some x \<Rightarrow> (Some (NotRemoved dir x), reg) | None \<Rightarrow> (None, reg(path := None))))"

text \<open>\<open>readAutoStartRegistrations\<close> over the files that match, with their paths.\<close>

fun read_registrations :: "(string \<times> registration_file) list \<Rightarrow> registration list \<times> auto_fault list" where
  "read_registrations [] = ([], [])"
| "read_registrations ((path, found) # fs) =
     (case read_registrations fs of
        (entries, faults) \<Rightarrow>
          if base_path path = failure_file then (entries, faults)
          else (case found of
                  RegUnreadable x \<Rightarrow> (entries, RegistrationUnread path x # faults)
                | RegMalformed x \<Rightarrow> (entries, RegistrationMalformed path x # faults)
                | Registered r \<Rightarrow>
                    if \<not> rg_enabled r \<or> blank (rg_config_dir r) \<or> blank (rg_cwd r)
                    then (entries, RegistrationInvalid path # faults)
                    else (r # entries, faults)))"

section \<open>Jobs\<close>

text \<open>What is written to the record of failures.\<close>

datatype failure_record = KeepRecord | ClearRecord | WriteRecord "auto_fault list"

definition persist_failures :: "bool \<Rightarrow> bool \<Rightarrow> auto_fault list \<Rightarrow> failure_record" where
  "persist_failures shutting opt_out faults =
     (if shutting \<and> \<not> opt_out then KeepRecord else if faults = [] then ClearRecord else WriteRecord faults)"

text \<open>The configurations of the workspaces, and the faults of removing a registration, by config directory.\<close>

type_synonym configs = "string \<Rightarrow> (config_error, client_config) result"

definition job_key :: "client_config \<Rightarrow> registration \<Rightarrow> string" where
  "job_key c r = (case cc_pool c of None \<Rightarrow> ''world:'' @ rg_config_dir r | Some pool \<Rightarrow> ''pool:'' @ pool)"

record grouping =
  gr_jobs :: "(string \<times> registration) list"
  gr_faults :: "auto_fault list"
  gr_removed :: "string list"
  gr_opted_out :: bool

fun group_entries :: "configs \<Rightarrow> (string \<Rightarrow> string option) \<Rightarrow> registration list \<Rightarrow> grouping \<Rightarrow> grouping" where
  "group_entries load unremovable [] g = g"
| "group_entries load unremovable (r # rs) g =
     group_entries load unremovable rs
       (case load (rg_config_dir r) of
          Inl x \<Rightarrow> g\<lparr>gr_faults := gr_faults g @ [ConfigUnloaded (rg_config_dir r) x]\<rparr>
        | Inr c \<Rightarrow>
            if \<not> cc_auto_start c then
              (case unremovable (rg_config_dir r) of
                 Some x \<Rightarrow> g\<lparr>gr_faults := gr_faults g @ [NotRemoved (rg_config_dir r) x]\<rparr>
               | None \<Rightarrow> g\<lparr>gr_removed := gr_removed g @ [rg_config_dir r], gr_opted_out := True\<rparr>)
            else if map_of (gr_jobs g) (job_key c r) = None
            then g\<lparr>gr_jobs := gr_jobs g @ [(job_key c r, r)]\<rparr>
            else g)"

datatype autostart_plan = NoJobs failure_record | Jobs "registration list" "auto_fault list"

text \<open>\<open>startAutostart\<close> up to its goroutine; a failed reading is one joined error.\<close>

definition start_autostart ::
    "configs \<Rightarrow> (string \<Rightarrow> string option) \<Rightarrow> bool \<Rightarrow> (string \<times> registration_file) list \<Rightarrow> autostart_plan" where
  "start_autostart load unremovable shutting found =
     (case read_registrations found of
        (entries, faults) \<Rightarrow>
          if entries = [] then NoJobs (persist_failures shutting False faults)
          else
            (let g = group_entries load unremovable entries
                       \<lparr>gr_jobs = [], gr_faults = faults, gr_removed = [], gr_opted_out = False\<rparr>
             in if gr_jobs g = []
                then NoJobs (persist_failures shutting (gr_opted_out g \<and> gr_faults g = []) (gr_faults g))
                else Jobs (sort_key rg_config_dir (map snd (gr_jobs g))) (gr_faults g)))"

section \<open>Workers\<close>

text \<open>
  The goroutine that launches the jobs holds a slot for each; a job is skipped, started, or fails, or the start answers
  with the failed state that was retained.
\<close>

datatype auto_phase = LaunchJobs | JoinJobs | AutoDone

datatype job_end = Skipped | Launched | Failed string | RetainedFailed

record auto =
  au_queue :: "registration list"
  au_running :: "registration list"
  au_ended :: "(registration \<times> job_end) list"
  au_faults :: "auto_fault list"
  au_phase :: auto_phase
  au_shutdown :: bool
  au_record :: "failure_record option"

definition slots :: nat where "slots = 4"

definition job_faults :: "bool \<Rightarrow> registration \<Rightarrow> job_end \<Rightarrow> auto_fault list" where
  "job_faults shutting r x =
     (case x of
        Failed err \<Rightarrow> if shutting then [] else [StartFailed (rg_config_dir r) err]
      | RetainedFailed \<Rightarrow> [StartRetainedFailed (rg_config_dir r)]
      | _ \<Rightarrow> [])"

text \<open>
  \<open>auto_take\<close>: the loop takes the next job when a slot is free; the check of the shutdown before may be overtaken by
  it.  \<open>auto_break\<close>: the loop ends.
\<close>

definition auto_take :: "auto \<Rightarrow> auto" where
  "auto_take s =
     (case au_queue s of
        [] \<Rightarrow> s\<lparr>au_phase := JoinJobs\<rparr>
      | r # rs \<Rightarrow> if length (au_running s) < slots then s\<lparr>au_queue := rs, au_running := r # au_running s\<rparr> else s)"

definition auto_break :: "auto \<Rightarrow> auto" where
  "auto_break s = (if au_shutdown s then s\<lparr>au_phase := JoinJobs\<rparr> else s)"

definition auto_end :: "registration \<Rightarrow> job_end \<Rightarrow> auto \<Rightarrow> auto" where
  "auto_end r x s =
     s\<lparr>au_running := remove1 r (au_running s), au_ended := au_ended s @ [(r, x)],
       au_faults := au_faults s @ job_faults (au_shutdown s) r x\<rparr>"

definition auto_finish :: "auto \<Rightarrow> auto" where
  "auto_finish s =
     (if au_running s = []
      then s\<lparr>au_phase := AutoDone, au_record := Some (persist_failures (au_shutdown s) False (au_faults s))\<rparr> else s)"

inductive auto_step :: "auto \<Rightarrow> auto \<Rightarrow> bool" where
  take_job: "au_phase s = LaunchJobs \<Longrightarrow> auto_step s (auto_take s)"
| break_off: "au_phase s = LaunchJobs \<Longrightarrow> auto_step s (auto_break s)"
| end_job: "r \<in> set (au_running s) \<Longrightarrow> x \<noteq> Skipped \<or> au_shutdown s \<Longrightarrow> auto_step s (auto_end r x s)"
| finish: "au_phase s = JoinJobs \<Longrightarrow> auto_step s (auto_finish s)"
| shutdown: "auto_step s (s\<lparr>au_shutdown := True\<rparr>)"

definition auto_start :: "registration list \<Rightarrow> auto_fault list \<Rightarrow> auto" where
  "auto_start jobs faults =
     \<lparr>au_queue = jobs, au_running = [], au_ended = [], au_faults = faults, au_phase = LaunchJobs, au_shutdown = False,
      au_record = None\<rparr>"

inductive reachable_auto :: "registration list \<Rightarrow> auto_fault list \<Rightarrow> auto \<Rightarrow> bool" where
  start: "reachable_auto jobs faults (auto_start jobs faults)"
| step: "reachable_auto jobs faults s \<Longrightarrow> auto_step s s' \<Longrightarrow> reachable_auto jobs faults s'"

section \<open>Facts\<close>

definition ended_faults :: "(registration \<times> job_end) list \<Rightarrow> auto_fault list" where
  "ended_faults xs = concat (map (\<lambda>(r, x). job_faults False r x) xs)"

definition auto_ok :: "registration list \<Rightarrow> auto_fault list \<Rightarrow> auto \<Rightarrow> bool" where
  "auto_ok jobs faults s \<longleftrightarrow>
     mset (au_queue s) + mset (au_running s) + mset (map fst (au_ended s)) = mset jobs
     \<and> length (au_running s) \<le> slots
     \<and> (au_phase s \<noteq> LaunchJobs \<longrightarrow> au_queue s = [] \<or> au_shutdown s)
     \<and> (au_phase s = AutoDone \<longrightarrow> au_running s = [])
     \<and> (\<not> au_shutdown s \<longrightarrow> au_faults s = faults @ ended_faults (au_ended s))
     \<and> (\<not> au_shutdown s \<longrightarrow> Skipped \<notin> snd ` set (au_ended s))
     \<and> (\<not> au_shutdown s \<and> au_phase s = AutoDone \<longrightarrow> au_record s = Some (persist_failures False False (au_faults s)))"

lemma auto_ok_start: "auto_ok jobs faults (auto_start jobs faults)"
  by (simp add: auto_ok_def auto_start_def ended_faults_def)

lemma auto_ok_step:
  assumes "auto_step s s'" "auto_ok jobs faults s"
  shows "auto_ok jobs faults s'"
  using assms
proof cases
  case take_job
  then show ?thesis using assms(2) by (auto simp: auto_ok_def auto_take_def split: list.splits)
next
  case break_off
  then show ?thesis using assms(2) by (auto simp: auto_ok_def auto_break_def)
next
  case (end_job r x)
  define left where "left = remove1 r (au_running s)"
  have "mset (au_running s) = add_mset r (mset left)" using end_job(2) by (simp add: left_def)
  then have "mset (au_queue s) + mset left + mset (map fst (au_ended s @ [(r, x)])) = mset jobs"
    using assms(2) by (simp add: auto_ok_def)
  moreover have "au_phase s \<noteq> AutoDone" using end_job(2) assms(2) by (auto simp: auto_ok_def)
  moreover have "length left \<le> slots"
    using assms(2) length_remove1 [of r "au_running s"] by (auto simp: auto_ok_def left_def split: if_splits)
  ultimately show ?thesis
    using end_job(1,3) assms(2) unfolding auto_end_def left_def [symmetric]
    by (auto simp: auto_ok_def ended_faults_def)
next
  case finish
  then show ?thesis using assms(2) by (auto simp: auto_ok_def auto_finish_def)
next
  case shutdown
  then show ?thesis using assms(2) by (auto simp: auto_ok_def)
qed

lemma reachable_auto_ok: "reachable_auto jobs faults s \<Longrightarrow> auto_ok jobs faults s"
  by (induction rule: reachable_auto.induct) (auto intro: auto_ok_start auto_ok_step)

text \<open>What grouping keeps: one job for each key, in the order of the registrations, and a job or a fault for each.\<close>

definition group_ok :: "configs \<Rightarrow> registration list \<Rightarrow> grouping \<Rightarrow> bool" where
  "group_ok load seen g \<longleftrightarrow>
     distinct (map fst (gr_jobs g))
     \<and> (\<forall>(k, r) \<in> set (gr_jobs g). r \<in> set seen \<and> (\<exists>c. load (rg_config_dir r) = Ok c \<and> cc_auto_start c \<and> k = job_key c r))
     \<and> (\<forall>r \<in> set seen. \<forall>c. load (rg_config_dir r) = Ok c \<and> cc_auto_start c \<longrightarrow> job_key c r \<in> fst ` set (gr_jobs g))
     \<and> (\<forall>d \<in> set (gr_removed g). \<exists>c. load d = Ok c \<and> \<not> cc_auto_start c)"

lemma group_entries_ok:
  "group_ok load seen g \<Longrightarrow> group_ok load (seen @ rs) (group_entries load unremovable rs g)"
proof (induction rs arbitrary: seen g)
  case (Cons r rs)
  define g' where "g' = (case load (rg_config_dir r) of
          Inl x \<Rightarrow> g\<lparr>gr_faults := gr_faults g @ [ConfigUnloaded (rg_config_dir r) x]\<rparr>
        | Inr c \<Rightarrow>
            if \<not> cc_auto_start c then
              (case unremovable (rg_config_dir r) of
                 Some x \<Rightarrow> g\<lparr>gr_faults := gr_faults g @ [NotRemoved (rg_config_dir r) x]\<rparr>
               | None \<Rightarrow> g\<lparr>gr_removed := gr_removed g @ [rg_config_dir r], gr_opted_out := True\<rparr>)
            else if map_of (gr_jobs g) (job_key c r) = None
            then g\<lparr>gr_jobs := gr_jobs g @ [(job_key c r, r)]\<rparr>
            else g)"
  have "group_ok load (seen @ [r]) g'"
    using Cons.prems
    by (auto simp: g'_def group_ok_def map_of_eq_None_iff image_iff split: sum.splits option.splits)
  from Cons.IH [OF this] show ?case by (simp add: g'_def)
qed simp

section \<open>Properties\<close>

text \<open>
  Each host process gets one job: of the registrations whose configuration enables automatic startup, there is exactly
  one job for each pool, and one for each workspace without a pool.
\<close>

theorem one_job_per_host:
  assumes "start_autostart load unremovable shutting found = Jobs jobs faults"
    "r \<in> set (fst (read_registrations found))" "load (rg_config_dir r) = Ok c" "cc_auto_start c"
  shows "\<exists>!j. j \<in> set jobs \<and> (\<exists>c'. load (rg_config_dir j) = Ok c' \<and> cc_auto_start c' \<and> job_key c' j = job_key c r)"
proof -
  obtain entries fs where e: "read_registrations found = (entries, fs)" by fastforce
  define g where "g = group_entries load unremovable entries \<lparr>gr_jobs = [], gr_faults = fs, gr_removed = [], gr_opted_out = False\<rparr>"
  have "group_ok load ([] @ entries) g" unfolding g_def by (rule group_entries_ok) (simp add: group_ok_def)
  then have ok: "group_ok load entries g" by simp
  have "start_autostart load unremovable shutting found =
      (if entries = [] then NoJobs (persist_failures shutting False fs)
       else if gr_jobs g = [] then NoJobs (persist_failures shutting (gr_opted_out g \<and> gr_faults g = []) (gr_faults g))
       else Jobs (sort_key rg_config_dir (map snd (gr_jobs g))) (gr_faults g))"
    unfolding start_autostart_def e prod.case Let_def g_def by (rule refl)
  then have "jobs = sort_key rg_config_dir (map snd (gr_jobs g))"
    using assms(1) by (simp split: if_splits)
  then have jobs: "set jobs = snd ` set (gr_jobs g)" by simp
  have "job_key c r \<in> fst ` set (gr_jobs g)" using ok assms(2-4) by (auto simp: group_ok_def e)
  then obtain j where j: "(job_key c r, j) \<in> set (gr_jobs g)" by auto
  have good: "\<exists>c'. load (rg_config_dir j') = Ok c' \<and> cc_auto_start c' \<and> k = job_key c' j'" if "(k, j') \<in> set (gr_jobs g)" for k j'
    using ok that by (auto simp: group_ok_def)
  have one: "j' = j''" if "(k, j') \<in> set (gr_jobs g)" "(k, j'') \<in> set (gr_jobs g)" for k j' j''
  proof -
    have "distinct (map fst (gr_jobs g))" using ok by (simp add: group_ok_def)
    from eq_key_imp_eq_value [OF this that] show ?thesis .
  qed
  show ?thesis
  proof (rule ex1I [of _ j])
    show "j \<in> set jobs \<and> (\<exists>c'. load (rg_config_dir j) = Ok c' \<and> cc_auto_start c' \<and> job_key c' j = job_key c r)"
      using j good [OF j] unfolding jobs by (metis image_eqI snd_conv)
  next
    fix j' assume "j' \<in> set jobs \<and> (\<exists>c'. load (rg_config_dir j') = Ok c' \<and> cc_auto_start c' \<and> job_key c' j' = job_key c r)"
    then obtain k c' where k: "(k, j') \<in> set (gr_jobs g)" "load (rg_config_dir j') = Ok c'" "job_key c' j' = job_key c r"
      unfolding jobs by auto
    then have "k = job_key c r" using good [OF k(1)] by auto
    then show "j' = j" using one [OF _ j] k(1) by simp
  qed
qed

text \<open>C36:
  Automatic startup drops no job and runs none twice, however its workers interleave: when it ends and the Mill was not
  shut down, each job has ended exactly once and none was skipped, and the record of failures is the one of the failures
  of the reading, followed by those of the jobs in the order they ended.
\<close>

theorem autostart_accounts:
  assumes "reachable_auto jobs faults s" "au_phase s = AutoDone" "\<not> au_shutdown s"
  shows "mset (map fst (au_ended s)) = mset jobs \<and> Skipped \<notin> snd ` set (au_ended s)
     \<and> au_record s = Some (persist_failures False False (faults @ ended_faults (au_ended s)))"
  using reachable_auto_ok [OF assms(1)] assms(2,3) by (auto simp: auto_ok_def)

lemma autostart_slots: "reachable_auto jobs faults s \<Longrightarrow> length (au_running s) \<le> 4"
  using reachable_auto_ok by (auto simp: auto_ok_def slots_def)

definition demo_registration :: registration where
  "demo_registration = \<lparr>rg_config_dir = ''/w'', rg_cwd = ''/w'', rg_name = [], rg_enabled = True\<rparr>"

definition demo_enabled :: client_config where
  "demo_enabled = \<lparr>cc_format = ''alpha'', cc_name = [], cc_auto_start = True, cc_pool = Some ''p'', cc_warnings = []\<rparr>"

definition demo_auto_end :: auto where
  "demo_auto_end =
     auto_finish (auto_take (auto_end demo_registration (Failed ''x'') (auto_take (auto_start [demo_registration] []))))"

lemmas auto_defs = auto_start_def auto_take_def auto_end_def auto_finish_def slots_def job_faults_def

theorem one_job_per_host_witness:
  "\<exists>!j. j \<in> set [demo_registration]
     \<and> (\<exists>c'. Ok demo_enabled = (Ok c' :: (config_error, client_config) result) \<and> cc_auto_start c' \<and> job_key c' j = ''pool:p'')"
proof -
  let ?load = "\<lambda>_. Ok demo_enabled :: (config_error, client_config) result"
  let ?found = "[(''/a/1.json'', Registered demo_registration)]"
  have read: "read_registrations ?found = ([demo_registration], [])"
    by (simp add: demo_registration_def base_path_def failure_file_def is_space_def)
  have "start_autostart ?load (\<lambda>_. None) False ?found = Jobs [demo_registration] []"
    by (simp add: start_autostart_def read del: read_registrations.simps) (simp add: demo_enabled_def)
  from one_job_per_host [OF this, of demo_registration demo_enabled] read show ?thesis
    by (simp add: demo_enabled_def job_key_def del: read_registrations.simps)
qed

theorem autostart_accounts_witness:
  "au_record demo_auto_end = Some (WriteRecord [StartFailed ''/w'' ''x''])"
proof -
  let ?s = "auto_start [demo_registration] []"
  have 0: "reachable_auto [demo_registration] [] ?s" by (rule reachable_auto.start)
  have 1: "reachable_auto [demo_registration] [] (auto_take ?s)"
    by (rule reachable_auto.step [OF 0 auto_step.take_job]) (simp add: auto_defs)
  have 2: "reachable_auto [demo_registration] [] (auto_end demo_registration (Failed ''x'') (auto_take ?s))"
    by (rule reachable_auto.step [OF 1 auto_step.end_job]) (simp_all add: auto_defs)
  have 3: "reachable_auto [demo_registration] [] (auto_take (auto_end demo_registration (Failed ''x'') (auto_take ?s)))"
    by (rule reachable_auto.step [OF 2 auto_step.take_job]) (simp add: auto_defs)
  have 4: "reachable_auto [demo_registration] [] demo_auto_end" unfolding demo_auto_end_def
    by (rule reachable_auto.step [OF 3 auto_step.finish]) (simp add: auto_defs)
  have "au_ended demo_auto_end = [(demo_registration, Failed ''x'')]" by (simp add: demo_auto_end_def auto_defs)
  with autostart_accounts [OF 4] show ?thesis
    by (simp add: demo_auto_end_def auto_defs persist_failures_def ended_faults_def demo_registration_def)
qed

end
