(* ===== verification/Spec2Isabelle.thy ===== *)
theory Spec2Isabelle
  imports Jvm_Pool Pool_Runs Life_Runs Life_Status Proc_Stat Process_Control Land_Quality Kanban_Model Forward Dispatch
    Stealth Autostart
begin

text \<open>
  A verification library for the Go programs of Millstrand: the Mill, the supervisor of Weaver processes
  (\<open>cli/cmd/mill\<close> with its packages under \<open>cli/internal\<close>), and the two tools \<open>tools/land-quality\<close>
  and \<open>tools/kanban-tree\<close>.

  \<^bold>\<open>The program.\<close>  The Mill is one daemon per user.  It keeps for each workspace a supervised child (a
  Weaver), for each pool of workspaces a shared JVM host, and for each workspace a process custody, in which
  a Weaver launches its own processes.  Its state is the \<open>server\<close> value of \<open>main.go\<close>, shared by the
  goroutines of all requests under the mutex \<open>mu\<close>, and files: the registry of pool memberships, the
  restart record of a workspace, the output files of a custody, and the metadata a Weaver publishes.

  \<^bold>\<open>Theories.\<close>  They follow the parts of the program.
    \<^item> \<open>Prelude\<close>: results and guards, byte strings with Go's notions of UTF-8, white space, paths and decimal
      numbers, sorting by a key, and the facts on them the components share; \<open>Json\<close>: decoded JSON values.
    \<^item> \<open>Jvm_Pool\<close> (\<open>internal/jvmpool/registry.go\<close>): validation, reading, \<open>Snapshot\<close>, \<open>ValidatePool\<close>,
      \<open>Reconcile\<close>, \<open>Remove\<close>, the atomic replacement of the file, revisions and artifact keys.  The locale
      \<open>durable_store\<close> states the contract of a store kept in one file; it is interpreted by the registry.
    \<^item> \<open>Custody\<close> (\<open>internal/process/custody.go\<close>): launch specifications and the custody.  Each critical
      section is a definition, \<open>custody_step\<close> the relation of their interleavings.  The locale
      \<open>row_contract\<close> states what a section may do to a record; it is interpreted for the invariant of
      the records and for the rule on signals.
    \<^item> \<open>Proc_Stat\<close> (\<open>process.go\<close>, \<open>reap_observer_linux.go\<close>): liveness and process groups.
    \<^item> \<open>Mill_State\<close>: the records of \<open>main.go\<close>, \<open>pool_host.go\<close>, \<open>config.go\<close> the handlers share.
    \<^item> \<open>Process_Control\<close> (\<open>process_control.go\<close>): decoding of a request, admission of its caller, dispatch
      to a custody, error codes.
    \<^item> \<open>Restart_Record\<close> (\<open>restart_record.go\<close>, \<open>restart_probe.go\<close>, the validations and projections of
      \<open>restart.go\<close>): the durable record, the report of a probe, what is encoded, decoded and shown of them.
    \<^item> \<open>Weaver_Status\<close> (\<open>client.go\<close>, the status functions of \<open>lifecycle.go\<close>, \<open>restart_process.go\<close>):
      metadata, the identity of a Weaver and its confirmed stop.
    \<^item> \<open>Restart\<close> (\<open>restart.go\<close>, \<open>launchReplacement\<close>): admission of a restart and the transition, one step
      for each critical section; \<open>mill_step\<close> is the relation of their interleavings with starts and stops.
    \<^item> \<open>Lifecycle\<close> (\<open>lifecycle.go\<close>, \<open>temporary.go\<close>, \<open>dependency_diagnostic.go\<close>): start, stop and shutdown as
      a machine of goroutines over the state of \<open>Restart\<close>, one step for each section.  \<open>Life_Steps\<close> shows that it
      runs the restart machine and interprets \<open>lock_table\<close> for the start claims, \<open>Life_Temporary\<close> and
      \<open>Life_Dirs\<close> follow the entries and the directories of temporary Weavers, \<open>Life_Runs\<close> has the properties.
      \<open>Life_Status\<close> has the statuses of a workspace, the list of Weavers and the cache of summaries.
    \<^item> \<open>Forward\<close> (\<open>forward.go\<close>): the target of an invocation, the relay of its response, and the machine
      of invocations and restarts, which share the admission lock of a workspace.  The locale \<open>lock_table\<close>
      states the contract of such a lock; it is interpreted by that machine.
    \<^item> \<open>Pool_Record\<close> (\<open>pool_restart_record.go\<close>): the durable record of a pool restart; \<open>Pool_Probe\<close>
      (\<open>pool_probe.go\<close>): manifests and results of a collective probe; \<open>Pool_Host\<close> (\<open>pool_host.go\<close>,
      \<open>pool_status.go\<close>, \<open>pool_membership.go\<close>): launch manifests, ready markers, the admission of a host, the
      statuses of members and the membership of a workspace at init.
    \<^item> \<open>Pool_Lifecycle\<close> (\<open>pool_lifecycle.go\<close>): start, stop, restart and discovery of hosts, one step for each
      section under the mutex and each access to a file.  \<open>Pool_Steps\<close> has the interleavings and what a step may
      change, \<open>Pool_Safety\<close> the invariants (\<open>lock_table\<close> is interpreted by the start claims and by the admission
      locks), \<open>Pool_Runs\<close> progress, runs of one goroutine, and the properties.
    \<^item> \<open>Error_Format\<close> (\<open>internal/errfmt\<close>): errors, suggestions, and the plain, JSON and terminal renderings.
    \<^item> \<open>Client\<close> (\<open>internal/client\<close>): errors of a call, frames, the relay of a response, interrupts, deadlines;
      \<open>Dispatch\<close> (\<open>internal/dispatch\<close>): the command line of \<open>strand\<close>, payloads and the envelope sent.
    \<^item> \<open>Workspace\<close> (\<open>internal/config/config.go\<close>, \<open>runtime.go\<close>, \<open>bootstrap.go\<close>): identity and directories of a
      workspace, the client configuration with its overlay, the settings the Mill writes, the files of a new
      workspace; \<open>Stealth\<close> (\<open>stealth.go\<close>): a workspace hidden from Git; \<open>Autostart\<close> (\<open>autostart.go\<close>): the
      registrations, the jobs and the workers that start Weavers with the Mill.
    \<^item> \<open>Land_Quality\<close> (\<open>tools/land-quality/main.go\<close>) and \<open>Kanban_Model\<close> (\<open>tools/kanban-tree\<close>).

  \<^bold>\<open>Correspondence.\<close>  A struct is a record with the fields of the struct; a Go map is a list of entries, in
  the order a \<open>range\<close> visits them where that matters, or a map where it does not.  A string is its bytes, one
  character each.  A function returns its error as a value (\<open>result\<close>).  What the program does not compute
  itself reaches a definition as an argument: the outcome of a file operation, what a decoder made of a
  file, the process table, the clock, random ids, the answer of a probe or of a Weaver.  A goroutine is a
  phase of a state machine, and its steps are the sections under a mutex; a theorem about reachable states
  holds in every interleaving.  Go's \<open>int\<close> is wrapped where it can overflow (\<open>wrap64\<close>).

  \<^bold>\<open>What the lemmas show.\<close>  Of each store: what an operation answers and leaves behind on every path, errors
  included (refinement of a map for the registry, of a run of sections for process control, round trips for
  records and launch specifications).  Of each machine: an invariant of its reachable states (one transition
  at work per workspace; one terminal fact per launched process; a process group signalled only while its
  leader is unreaped; a stop recorded before a replacement starts; a live pool host admitted and displaced by
  nothing but a stop or the shutdown; no job of the automatic startup lost or run twice; one start at work per workspace, and none during a restart), and that it ends (\<open>rank\<close>
  decreases with every step of a transition or a custody, \<open>claim_rank\<close> with every step of a start under its
  claim; the scheduler needs one round per check).  Of each decision: the
  exact condition under which it is taken (admission, validation, the verdict of the gate, the tree).
  Where the code does not do what it says, a theorem shows the case.

  \<^bold>\<open>Bounds and fuel.\<close>  \<open>run\<close> of \<open>Land_Quality\<close> takes a number of rounds; one more than there are checks
  is enough.  \<open>walk\<close> and \<open>parent_cycle\<close> of \<open>Kanban_Model\<close> are bounded by the number of strands; the lemmas on
  them show that the bound is not reached.  \<open>wait_recorded_exit\<close> and \<open>wait_ready\<close> run over the polls made
  before the deadline.  Twelve steps end a transition, and nine a start under its claim.

  \<^bold>\<open>Not modelled.\<close>  Reading and writing of files, sockets and processes themselves, and the libraries for
  JSON, hashing and terminals (their results are arguments).  Of the Mill: the command line of a launched
  Weaver and the tail of its log in \<open>lifecycle.go\<close>, the copying of configurations for a probe, the watch of a
  caller's connection in \<open>forward.go\<close>, the command line, the installation of binaries and services, and the text
  output.  Git, \<open>stat\<close> and the environment deliver their answers to \<open>Workspace\<close> and \<open>Stealth\<close> as arguments.
  The Clojure code is another program.
\<close>

end
